(* ===== verification/Prelude.thy ===== *)
theory Prelude
  imports Main "HOL-Library.Word" "HOL-Library.Code_Target_Numeral"
begin

text \<open>
  Shared vocabulary of the development: Rust's machine integers and byte slices, the
  \<open>Result\<close> type with its early return, loops that stop at the first error, saturating
  arithmetic and ASCII case folding, with the lemmas the component theories rewrite with.
  A Rust \<open>Result<T, E>\<close> is the sum \<open>E + T\<close>: \<open>Inl\<close> is \<open>Err\<close>, \<open>Inr\<close> is \<open>Ok\<close>.
  A \<open>&[u8]\<close> is a list of 8-bit words, a \<open>&str\<close> the list of its UTF-8 bytes as
  characters, a \<open>usize\<close> a natural number (every one is an index or a length of a list).
\<close>

unbundle bit_operations_syntax

named_theorems result_simps \<open>unfolding of the early-return combinators\<close>
named_theorems check_simps \<open>when a per-certificate check returns Ok\<close>
named_theorems codec_simps \<open>evaluation of the example codec\<close>

type_synonym u8 = "8 word"
type_synonym u16 = "16 word"
type_synonym u32 = "32 word"
type_synonym u64 = "64 word"
type_synonym bytes = "u8 list"

abbreviation Ok :: "'a \<Rightarrow> 'e + 'a" where "Ok \<equiv> Inr"
abbreviation Err :: "'e \<Rightarrow> 'e + 'a" where "Err \<equiv> Inl"

section \<open>Result and Option combinators\<close>

text \<open>\<open>and_then\<close> is the \<open>?\<close> operator: an error returns at once, a value is passed on.\<close>

definition and_then :: "'e + 'a \<Rightarrow> ('a \<Rightarrow> 'e + 'b) \<Rightarrow> 'e + 'b" where
  "and_then r f = (case r of Inl e \<Rightarrow> Inl e | Inr x \<Rightarrow> f x)"

definition map_err :: "('e \<Rightarrow> 'f) \<Rightarrow> 'e + 'a \<Rightarrow> 'f + 'a" where
  "map_err f r = (case r of Inl e \<Rightarrow> Inl (f e) | Inr x \<Rightarrow> Inr x)"

definition map_ok :: "('a \<Rightarrow> 'b) \<Rightarrow> 'e + 'a \<Rightarrow> 'e + 'b" where
  "map_ok f r = (case r of Inl e \<Rightarrow> Inl e | Inr x \<Rightarrow> Inr (f x))"

definition ok_or :: "'e \<Rightarrow> 'a option \<Rightarrow> 'e + 'a" where
  "ok_or e o1 = (case o1 of None \<Rightarrow> Inl e | Some x \<Rightarrow> Inr x)"

definition result_ok :: "'e + 'a \<Rightarrow> 'a option" where
  "result_ok r = (case r of Inl _ \<Rightarrow> None | Inr x \<Rightarrow> Some x)"

definition is_ok :: "'e + 'a \<Rightarrow> bool" where
  "is_ok r = (case r of Inl _ \<Rightarrow> False | Inr _ \<Rightarrow> True)"

definition unwrap_or :: "'a \<Rightarrow> 'a option \<Rightarrow> 'a" where
  "unwrap_or d o1 = (case o1 of None \<Rightarrow> d | Some x \<Rightarrow> x)"

definition guard_or :: "bool \<Rightarrow> 'e \<Rightarrow> 'e + unit" where
  "guard_or b e = (if b then Inr () else Inl e)"

lemma and_then_simps [simp]:
  "and_then (Inl e) f = Inl e"
  "and_then (Inr x) f = f x"
  by (simp_all add: and_then_def)

lemma and_then_Ok_iff [result_simps]:
  "and_then r f = Inr y \<longleftrightarrow> (\<exists>x. r = Inr x \<and> f x = Inr y)"
  by (cases r) auto

lemma and_then_Err_iff:
  "and_then r f = Inl e \<longleftrightarrow> r = Inl e \<or> (\<exists>x. r = Inr x \<and> f x = Inl e)"
  by (cases r) auto

lemma and_then_unit_Ok_iff [result_simps]:
  fixes r :: "'e + unit"
  shows "and_then r (\<lambda>_. s) = Inr y \<longleftrightarrow> r = Inr () \<and> s = Inr y"
  by (cases r) auto

lemma and_then_assoc:
  "and_then (and_then r f) g = and_then r (\<lambda>x. and_then (f x) g)"
  by (cases r) simp_all

lemma map_err_simps [simp]:
  "map_err f (Inl e) = Inl (f e)"
  "map_err f (Inr x) = Inr x"
  by (simp_all add: map_err_def)

lemma map_err_Ok_iff [simp]: "map_err f r = Inr x \<longleftrightarrow> r = Inr x"
  by (cases r) auto

lemma map_ok_simps [simp]:
  "map_ok f (Inl e) = Inl e"
  "map_ok f (Inr x) = Inr (f x)"
  by (simp_all add: map_ok_def)

lemma ok_or_simps [simp]:
  "ok_or e None = Inl e"
  "ok_or e (Some x) = Inr x"
  by (simp_all add: ok_or_def)

lemma ok_or_Ok_iff [simp]: "ok_or e q = Inr x \<longleftrightarrow> q = Some x"
  by (cases q) auto

lemma result_ok_simps [simp]:
  "result_ok (Inl e) = None"
  "result_ok (Inr x) = Some x"
  by (simp_all add: result_ok_def)

lemma is_ok_simps [simp]:
  "\<not> is_ok (Inl e)"
  "is_ok (Inr x)"
  by (simp_all add: is_ok_def)

lemma is_ok_iff: "is_ok r \<longleftrightarrow> (\<exists>x. r = Inr x)"
  by (cases r) auto

lemma unwrap_or_simps [simp]:
  "unwrap_or d None = d"
  "unwrap_or d (Some x) = x"
  by (simp_all add: unwrap_or_def)

lemma guard_or_Ok_iff [simp]: "guard_or b e = Inr u \<longleftrightarrow> b"
  by (simp add: guard_or_def)

lemma guard_or_Err_iff [simp]: "guard_or b e = Inl e' \<longleftrightarrow> \<not> b \<and> e' = e"
  by (auto simp: guard_or_def)

section \<open>Loops that return at the first error\<close>

fun try_all :: "('a \<Rightarrow> 'e + unit) \<Rightarrow> 'a list \<Rightarrow> 'e + unit" where
  "try_all f [] = Inr ()"
| "try_all f (x # xs) = and_then (f x) (\<lambda>_. try_all f xs)"

fun try_fold :: "('a \<Rightarrow> 's \<Rightarrow> 'e + 's) \<Rightarrow> 'a list \<Rightarrow> 's \<Rightarrow> 'e + 's" where
  "try_fold f [] s = Inr s"
| "try_fold f (x # xs) s = and_then (f x s) (try_fold f xs)"

lemma try_all_Ok_iff [result_simps]:
  "try_all f xs = Inr u \<longleftrightarrow> (\<forall>x\<in>set xs. f x = Inr ())"
  by (induction xs) (auto simp: result_simps)

lemma try_all_Err_iff:
  "try_all f xs = Inl e \<longleftrightarrow>
     (\<exists>i < length xs. f (xs ! i) = Inl e \<and> (\<forall>j < i. f (xs ! j) = Inr ()))"
proof (induction xs)
  case Nil
  then show ?case by simp
next
  case (Cons x xs)
  show ?case
  proof (cases "f x")
    case (Inl e')
    show ?thesis
    proof
      assume "try_all f (x # xs) = Inl e"
      with Inl have "f ((x # xs) ! 0) = Inl e" by simp
      then show "\<exists>i < length (x # xs). f ((x # xs) ! i) = Inl e \<and> (\<forall>j < i. f ((x # xs) ! j) = Inr ())"
        by (intro exI [of _ 0]) simp
    next
      assume "\<exists>i < length (x # xs). f ((x # xs) ! i) = Inl e \<and> (\<forall>j < i. f ((x # xs) ! j) = Inr ())"
      then obtain i where i: "f ((x # xs) ! i) = Inl e" "\<forall>j < i. f ((x # xs) ! j) = Inr ()"
        by blast
      with Inl have "i = 0" by (metis gr0I nth_Cons_0 sum.distinct(1))
      with i Inl show "try_all f (x # xs) = Inl e" by simp
    qed
  next
    case (Inr u)
    then have "try_all f (x # xs) = try_all f xs" by simp
    also have "try_all f xs = Inl e \<longleftrightarrow>
        (\<exists>i < length xs. f (xs ! i) = Inl e \<and> (\<forall>j < i. f (xs ! j) = Inr ()))"
      by (rule Cons.IH)
    also have "\<dots> \<longleftrightarrow>
        (\<exists>i < length (x # xs). f ((x # xs) ! i) = Inl e \<and> (\<forall>j < i. f ((x # xs) ! j) = Inr ()))"
      (is "?L \<longleftrightarrow> ?R")
    proof
      assume ?L
      then obtain i where "i < length xs" "f (xs ! i) = Inl e" "\<forall>j < i. f (xs ! j) = Inr ()"
        by blast
      with Inr show ?R by (intro exI [of _ "Suc i"]) (auto simp: less_Suc_eq_0_disj)
    next
      assume ?R
      then obtain i where i: "i < length (x # xs)" "f ((x # xs) ! i) = Inl e"
        "\<forall>j < i. f ((x # xs) ! j) = Inr ()" by blast
      with Inr obtain k where "i = Suc k" by (cases i) auto
      with i show ?L by (intro exI [of _ k]) force
    qed
    finally show ?thesis .
  qed
qed

section \<open>Machine arithmetic\<close>

definition saturating_sub :: "'a::len word \<Rightarrow> 'a word \<Rightarrow> 'a word" where
  "saturating_sub a b = (if a < b then 0 else a - b)"

definition saturating_add :: "'a::len word \<Rightarrow> 'a word \<Rightarrow> 'a word" where
  "saturating_add a b = (if a + b < a then - 1 else a + b)"

lemma saturating_sub_le: "saturating_sub a b \<le> a"
  by (simp add: saturating_sub_def word_sub_le_iff not_less)

lemma saturating_sub_0 [simp]: "saturating_sub 0 b = 0"
  by (cases "b = 0") (simp_all add: saturating_sub_def word_gt_0)

lemma unat_saturating_sub: "unat (saturating_sub a b) = unat a - unat b"
proof (cases "a < b")
  case True
  then show ?thesis by (simp add: saturating_sub_def word_less_nat_alt)
next
  case False
  then have "b \<le> a" by simp
  then show ?thesis by (simp add: saturating_sub_def unat_sub not_less)
qed

lemma unat_u8_less: "unat (b :: u8) < 256"
  using unsigned_less [of b] by simp

lemma unat_u8_of_nat: "n < 256 \<Longrightarrow> unat (word_of_nat n :: u8) = n"
  by (simp add: unat_of_nat)

text \<open>\<open>u32::try_from(n).unwrap_or(u32::MAX)\<close>.\<close>

definition u32_try_from :: "nat \<Rightarrow> u32 option" where
  "u32_try_from n = (if n < 2 ^ 32 then Some (word_of_nat n) else None)"

definition be_bytes_u16 :: "u16 \<Rightarrow> bytes" where
  "be_bytes_u16 w = [ucast (drop_bit 8 w), ucast w]"

definition from_be_bytes_u16 :: "u8 \<Rightarrow> u8 \<Rightarrow> u16" where
  "from_be_bytes_u16 hi lo = push_bit 8 (ucast hi) OR ucast lo"

section \<open>ASCII\<close>

definition ascii_lower :: "char \<Rightarrow> char" where
  "ascii_lower c = (let n = (of_char c :: nat) in if 65 \<le> n \<and> n \<le> 90 then char_of (n + 32) else c)"

definition ascii_lower_u8 :: "u8 \<Rightarrow> u8" where
  "ascii_lower_u8 b = (if 65 \<le> b \<and> b \<le> 90 then b + 32 else b)"

definition eq_ignore_ascii_case :: "string \<Rightarrow> string \<Rightarrow> bool" where
  "eq_ignore_ascii_case a b = (map ascii_lower a = map ascii_lower b)"

lemma eq_ignore_ascii_case_refl [simp]: "eq_ignore_ascii_case a a"
  by (simp add: eq_ignore_ascii_case_def)

lemma eq_ignore_ascii_case_sym: "eq_ignore_ascii_case a b = eq_ignore_ascii_case b a"
  by (auto simp: eq_ignore_ascii_case_def)

lemma eq_ignore_ascii_case_trans:
  "eq_ignore_ascii_case a b \<Longrightarrow> eq_ignore_ascii_case b c \<Longrightarrow> eq_ignore_ascii_case a c"
  by (simp add: eq_ignore_ascii_case_def)

lemma eq_ignore_ascii_case_length:
  "eq_ignore_ascii_case a b \<Longrightarrow> length a = length b"
  by (auto simp: eq_ignore_ascii_case_def dest: map_eq_imp_length_eq)

lemma of_char_ascii_lower:
  "(of_char (ascii_lower c) :: nat) =
     (if 65 \<le> (of_char c :: nat) \<and> (of_char c :: nat) \<le> 90 then of_char c + 32 else of_char c)"
  by (simp add: ascii_lower_def Let_def)

lemma ascii_lower_idem [simp]: "ascii_lower (ascii_lower c) = ascii_lower c"
proof -
  have "(of_char (ascii_lower (ascii_lower c)) :: nat) = of_char (ascii_lower c)"
    by (simp add: of_char_ascii_lower)
  then show ?thesis by simp
qed

lemma ascii_lower_u8_idem [simp]: "ascii_lower_u8 (ascii_lower_u8 b) = ascii_lower_u8 b"
proof (cases "65 \<le> b \<and> b \<le> 90")
  case True
  then have "\<not> (b + 32 \<le> 90)"
    by (simp add: word_le_nat_alt unat_word_ariths)
  with True show ?thesis by (simp add: ascii_lower_u8_def)
next
  case False
  then show ?thesis by (auto simp: ascii_lower_u8_def)
qed

text \<open>A character is unchanged by folding iff folding cannot produce it from another.\<close>

lemma ascii_lower_eq_nonletter:
  assumes "\<not> (97 \<le> (of_char d :: nat) \<and> (of_char d :: nat) \<le> 122)"
  shows "ascii_lower c = d \<longleftrightarrow> c = d \<and> ascii_lower d = d"
proof
  assume a: "ascii_lower c = d"
  then have "(of_char d :: nat) = of_char (ascii_lower c)" by simp
  with assms have "\<not> (65 \<le> (of_char c :: nat) \<and> (of_char c :: nat) \<le> 90)"
    by (auto simp: of_char_ascii_lower)
  then have "ascii_lower c = c" unfolding ascii_lower_def Let_def by (simp only: if_False)
  with a show "c = d \<and> ascii_lower d = d" by simp
qed simp

section \<open>String helpers of the standard library\<close>

text \<open>
  \<open>split_once\<close>, \<open>rsplit_once\<close>, \<open>strip_prefix\<close>, \<open>strip_suffix\<close> and \<open>find\<close> on \<open>&str\<close>.
\<close>

fun split_once :: "char \<Rightarrow> string \<Rightarrow> (string \<times> string) option" where
  "split_once d [] = None"
| "split_once d (c # cs) =
     (if c = d then Some ([], cs)
      else map_option (\<lambda>(a, b). (c # a, b)) (split_once d cs))"

definition rsplit_once :: "char \<Rightarrow> string \<Rightarrow> (string \<times> string) option" where
  "rsplit_once d s = map_option (\<lambda>(a, b). (rev b, rev a)) (split_once d (rev s))"

definition strip_prefix :: "string \<Rightarrow> string \<Rightarrow> string option" where
  "strip_prefix p s = (if take (length p) s = p then Some (drop (length p) s) else None)"

definition strip_suffix :: "string \<Rightarrow> string \<Rightarrow> string option" where
  "strip_suffix p s =
     (if length p \<le> length s \<and> drop (length s - length p) s = p
      then Some (take (length s - length p) s) else None)"

fun find_str :: "string \<Rightarrow> string \<Rightarrow> nat option" where
  "find_str p [] = (if p = [] then Some 0 else None)"
| "find_str p (c # cs) =
     (if take (length p) (c # cs) = p then Some 0 else map_option Suc (find_str p cs))"

fun split_on :: "char \<Rightarrow> string \<Rightarrow> string list" where
  "split_on d [] = [[]]"
| "split_on d (c # cs) =
     (if c = d then [] # split_on d cs
      else (case split_on d cs of [] \<Rightarrow> [[c]] | p # ps \<Rightarrow> (c # p) # ps))"

lemma split_once_Some:
  "split_once d s = Some (a, b) \<longleftrightarrow> s = a @ d # b \<and> d \<notin> set a"
proof (induction s arbitrary: a)
  case Nil
  then show ?case by simp
next
  case (Cons c cs)
  show ?case
  proof (cases "c = d")
    case True
    then show ?thesis by (cases a) auto
  next
    case False
    then show ?thesis by (cases a) (auto simp: Cons.IH)
  qed
qed

lemma split_once_None: "split_once d s = None \<longleftrightarrow> d \<notin> set s"
  by (induction s) auto

lemma rsplit_once_Some:
  "rsplit_once d s = Some (a, b) \<longleftrightarrow> s = a @ d # b \<and> d \<notin> set b"
proof -
  have "rsplit_once d s = Some (a, b) \<longleftrightarrow> split_once d (rev s) = Some (rev b, rev a)"
    by (auto simp: rsplit_once_def)
  also have "\<dots> \<longleftrightarrow> s = a @ d # b \<and> d \<notin> set b"
    by (auto simp: split_once_Some rev_swap)
  finally show ?thesis .
qed

lemma rsplit_once_None: "rsplit_once d s = None \<longleftrightarrow> d \<notin> set s"
  by (simp add: rsplit_once_def split_once_None)

lemma split_on_nonempty [simp]: "split_on d s \<noteq> []"
  by (induction s) (auto split: list.splits)

lemma strip_prefix_Some: "strip_prefix p s = Some r \<longleftrightarrow> s = p @ r"
  by (auto simp: strip_prefix_def) (metis append_take_drop_id)

lemma strip_suffix_Some: "strip_suffix p s = Some r \<longleftrightarrow> s = r @ p"
proof
  assume "strip_suffix p s = Some r"
  then have "drop (length s - length p) s = p" "take (length s - length p) s = r"
    by (auto simp: strip_suffix_def split: if_splits)
  then show "s = r @ p" by (metis append_take_drop_id)
next
  assume "s = r @ p"
  then show "strip_suffix p s = Some r" by (simp add: strip_suffix_def)
qed

section \<open>Decimal rendering of indices\<close>

function show_nat :: "nat \<Rightarrow> string" where
  "show_nat n = (if n < 10 then [char_of (48 + n)] else show_nat (n div 10) @ [char_of (48 + n mod 10)])"
  by pat_completeness auto
termination
  by (relation "measure id") auto

declare show_nat.simps [simp del]

section \<open>List facts\<close>

lemma find_Some_mem: "find P xs = Some x \<Longrightarrow> x \<in> set xs \<and> P x"
  by (metis find_Some_iff nth_mem)

lemma find_None_conv: "find P xs = None \<longleftrightarrow> (\<forall>x\<in>set xs. \<not> P x)"
  by (auto simp: find_None_iff)

lemma take_Suc_less: "i < n \<Longrightarrow> n \<le> length xs \<Longrightarrow> xs ! i \<in> set (take n xs)"
  by (metis length_take min.absorb2 nth_mem nth_take)

end
