(* ===== verification/X509.thy ===== *)
theory X509
  imports Prelude
begin

text \<open>
  The data the validation crates work on. The certificate structures themselves come from the
  third-party crates \<open>x509-cert\<close>, \<open>der\<close> and \<open>spki\<close>; they appear here as records and datatypes
  with the fields and variants the sources under \<open>src/\<close> read. DER decoding and encoding is code of
  those crates too: every decoder the validator calls is a field of the record \<open>x509_codec\<close>, which
  the operations that decode take as an argument.
\<close>

section \<open>Object identifiers, strings and names\<close>

type_synonym oid = "nat list"

datatype der_error = DerError string

datatype der_tag =
    Utf8String
  | PrintableString
  | Ia5String
  | VisibleString
  | BmpString
  | TeletexString
  | OtherTag nat

record any =
  any_tag :: der_tag
  any_value :: bytes

record ava =
  ava_oid :: oid
  ava_value :: any

type_synonym rdn = "ava list"
type_synonym dname = "rdn list"

record algorithm_identifier =
  alg_oid :: oid
  alg_parameters :: "any option"

record bit_string =
  raw_bytes :: bytes
  unused_bits :: u8

text \<open>\<open>BitString::as_bytes\<close> gives the bytes only when the string is octet aligned.\<close>

definition bits_as_bytes :: "bit_string \<Rightarrow> bytes option" where
  "bits_as_bytes b = (if unused_bits b = 0 then Some (raw_bytes b) else None)"

record spki =
  spki_algorithm :: algorithm_identifier
  subject_public_key :: bit_string

record extension =
  extn_id :: oid
  critical :: bool
  extn_value :: bytes

section \<open>General names and the extensions the validator decodes\<close>

datatype general_name =
    OtherName oid any
  | Rfc822Name string
  | DnsName string
  | DirectoryName dname
  | EdiPartyName bytes
  | UniformResourceIdentifier string
  | IpAddress bytes
  | RegisteredId oid

record general_subtree =
  base :: general_name
  minimum :: u32
  maximum :: "u32 option"

record name_constraints =
  permitted_subtrees :: "general_subtree list option"
  excluded_subtrees :: "general_subtree list option"

record basic_constraints =
  bc_ca :: bool
  path_len_constraint :: "u8 option"

record key_usage =
  ku_digital_signature :: bool
  ku_non_repudiation :: bool
  ku_key_encipherment :: bool
  ku_data_encipherment :: bool
  ku_key_agreement :: bool
  ku_key_cert_sign :: bool
  ku_crl_sign :: bool
  ku_encipher_only :: bool
  ku_decipher_only :: bool

record policy_qualifier_info =
  policy_qualifier_id :: oid
  qualifier :: "any option"

record policy_information =
  policy_identifier :: oid
  policy_qualifiers_field :: "policy_qualifier_info list option"

type_synonym certificate_policies = "policy_information list"

record policy_mapping =
  issuer_domain_policy :: oid
  subject_domain_policy :: oid

type_synonym policy_mappings = "policy_mapping list"

record policy_constraints =
  require_explicit_policy :: "u32 option"
  inhibit_policy_mapping :: "u32 option"

record authority_key_identifier =
  aki_key_identifier :: "bytes option"

section \<open>Certificates\<close>

record validity =
  not_before :: u64
  not_after :: u64

record tbs_certificate =
  tbs_version :: nat
  serial_number :: bytes
  tbs_signature :: algorithm_identifier
  issuer :: dname
  tbs_validity :: validity
  subject :: dname
  subject_public_key_info :: spki
  extensions :: "extension list option"

record certificate =
  tbs :: tbs_certificate
  signature_algorithm :: algorithm_identifier
  cert_signature :: bit_string

section \<open>The decoders\<close>

record x509_codec =
  dec_basic_constraints :: "bytes \<Rightarrow> der_error + basic_constraints"
  dec_key_usage :: "bytes \<Rightarrow> der_error + key_usage"
  dec_name_constraints :: "bytes \<Rightarrow> der_error + name_constraints"
  dec_general_names :: "bytes \<Rightarrow> der_error + general_name list"
  dec_certificate_policies :: "bytes \<Rightarrow> der_error + certificate_policies"
  dec_policy_mappings :: "bytes \<Rightarrow> der_error + policy_mappings"
  dec_policy_constraints :: "bytes \<Rightarrow> der_error + policy_constraints"
  dec_inhibit_any_policy :: "bytes \<Rightarrow> der_error + u32"
  dec_extended_key_usage :: "bytes \<Rightarrow> der_error + oid list"
  dec_authority_key_id :: "bytes \<Rightarrow> der_error + authority_key_identifier"
  dec_subject_key_id :: "bytes \<Rightarrow> der_error + bytes"
  dec_ia5_any :: "any \<Rightarrow> der_error + string"
  dec_rsa_modulus :: "bytes \<Rightarrow> der_error + bytes"
  enc_tbs :: "tbs_certificate \<Rightarrow> der_error + bytes"
  enc_spki :: "spki \<Rightarrow> der_error + bytes"

section \<open>Object identifiers the sources name\<close>

definition OID_KEY_USAGE :: oid where "OID_KEY_USAGE = [2, 5, 29, 15]"
definition OID_BASIC_CONSTRAINTS :: oid where "OID_BASIC_CONSTRAINTS = [2, 5, 29, 19]"
definition OID_SUBJECT_ALT_NAME :: oid where "OID_SUBJECT_ALT_NAME = [2, 5, 29, 17]"
definition OID_EXTENDED_KEY_USAGE :: oid where "OID_EXTENDED_KEY_USAGE = [2, 5, 29, 37]"
definition OID_NAME_CONSTRAINTS :: oid where "OID_NAME_CONSTRAINTS = [2, 5, 29, 30]"
definition OID_CERTIFICATE_POLICIES :: oid where "OID_CERTIFICATE_POLICIES = [2, 5, 29, 32]"
definition OID_POLICY_MAPPINGS :: oid where "OID_POLICY_MAPPINGS = [2, 5, 29, 33]"
definition OID_POLICY_CONSTRAINTS :: oid where "OID_POLICY_CONSTRAINTS = [2, 5, 29, 36]"
definition OID_INHIBIT_ANY_POLICY :: oid where "OID_INHIBIT_ANY_POLICY = [2, 5, 29, 54]"
definition OID_ANY_POLICY :: oid where "OID_ANY_POLICY = [2, 5, 29, 32, 0]"
definition OID_EMAIL_ADDRESS :: oid where "OID_EMAIL_ADDRESS = [1, 2, 840, 113549, 1, 9, 1]"

lemmas oid_defs =
  OID_KEY_USAGE_def OID_BASIC_CONSTRAINTS_def OID_SUBJECT_ALT_NAME_def
  OID_EXTENDED_KEY_USAGE_def OID_NAME_CONSTRAINTS_def OID_CERTIFICATE_POLICIES_def
  OID_POLICY_MAPPINGS_def OID_POLICY_CONSTRAINTS_def OID_INHIBIT_ANY_POLICY_def
  OID_ANY_POLICY_def OID_EMAIL_ADDRESS_def

section \<open>Extension lookup\<close>

text \<open>\<open>extensions.as_deref().unwrap_or(&[])\<close>.\<close>

definition cert_exts :: "certificate \<Rightarrow> extension list" where
  "cert_exts cert = unwrap_or [] (extensions (tbs cert))"

definition find_ext :: "certificate \<Rightarrow> oid \<Rightarrow> extension option" where
  "find_ext cert oid = find (\<lambda>e. extn_id e = oid) (cert_exts cert)"

text \<open>Fail-open lookup: a decode error counts as an absent extension.\<close>

definition find_cert_ext :: "(bytes \<Rightarrow> der_error + 'a) \<Rightarrow> certificate \<Rightarrow> oid \<Rightarrow> 'a option" where
  "find_cert_ext dec cert oid =
     (case find_ext cert oid of
        None \<Rightarrow> None
      | Some e \<Rightarrow> result_ok (dec (extn_value e)))"

text \<open>Fail-closed lookup: a decode error is returned.\<close>

definition try_find_cert_ext ::
  "(bytes \<Rightarrow> der_error + 'a) \<Rightarrow> certificate \<Rightarrow> oid \<Rightarrow> der_error + 'a option" where
  "try_find_cert_ext dec cert oid =
     (case find_ext cert oid of
        None \<Rightarrow> Ok None
      | Some e \<Rightarrow> map_ok Some (dec (extn_value e)))"

lemma try_find_cert_ext_None_iff:
  "try_find_cert_ext dec cert oid = Inr None \<longleftrightarrow> find_ext cert oid = None"
  by (auto simp: try_find_cert_ext_def map_ok_def split: option.splits sum.splits)

lemma try_find_cert_ext_Some_iff:
  "try_find_cert_ext dec cert oid = Inr (Some x) \<longleftrightarrow>
     (\<exists>e. find_ext cert oid = Some e \<and> dec (extn_value e) = Inr x)"
  by (auto simp: try_find_cert_ext_def map_ok_def split: option.splits sum.splits)

lemma find_ext_SomeD:
  "find_ext cert oid = Some e \<Longrightarrow> e \<in> set (cert_exts cert) \<and> extn_id e = oid"
  unfolding find_ext_def by (rule find_Some_mem)

lemma try_find_ok_find:
  "try_find_cert_ext dec cert oid = Inr q \<Longrightarrow> find_cert_ext dec cert oid = q"
  by (auto simp: try_find_cert_ext_def find_cert_ext_def map_ok_def split: option.splits sum.splits)

end
