(* ===== verification/Names.thy ===== *)
theory Names
  imports X509
begin

text \<open>
  Distinguished-name comparison of \<open>pkix-path/src/lib.rs\<close>: the whitespace and case normalising
  iterator, the \<open>BMPString\<close> transcoder, the comparison of attribute values and \<open>names_match\<close>.
  The lemmas show that the iterator computes a declarative normal form (the words of the value
  joined by single spaces, in lower case), that transcoding is injective and inverted by a UTF-8
  reader, and that the comparisons are equivalence relations.
\<close>

section \<open>UTF-8\<close>

text \<open>\<open>char::from_u32\<close>: code points that are Unicode scalar values.\<close>

definition char_from_u32 :: "nat \<Rightarrow> nat option" where
  "char_from_u32 cp =
     (if (0xD800 \<le> cp \<and> cp \<le> 0xDFFF) \<or> 0x10FFFF < cp then None else Some cp)"

text \<open>\<open>char::encode_utf8\<close>.\<close>

definition encode_utf8 :: "nat \<Rightarrow> bytes" where
  "encode_utf8 cp =
     (if cp < 0x80 then [word_of_nat cp]
      else if cp < 0x800 then
        [word_of_nat (0xC0 + cp div 64), word_of_nat (0x80 + cp mod 64)]
      else if cp < 0x10000 then
        [word_of_nat (0xE0 + cp div 4096), word_of_nat (0x80 + cp div 64 mod 64),
         word_of_nat (0x80 + cp mod 64)]
      else
        [word_of_nat (0xF0 + cp div 262144), word_of_nat (0x80 + cp div 4096 mod 64),
         word_of_nat (0x80 + cp div 64 mod 64), word_of_nat (0x80 + cp mod 64)])"

text \<open>The loop over \<open>bytes.chunks_exact(2)\<close>.\<close>

fun bmp_units_to_utf8 :: "bytes \<Rightarrow> bytes option" where
  "bmp_units_to_utf8 (hi # lo # rest) =
     (case char_from_u32 (256 * unat hi + unat lo) of
        None \<Rightarrow> None
      | Some ch \<Rightarrow> map_option (\<lambda>out. encode_utf8 ch @ out) (bmp_units_to_utf8 rest))"
| "bmp_units_to_utf8 _ = Some []"

definition bmp_string_to_utf8 :: "bytes \<Rightarrow> bytes option" where
  "bmp_string_to_utf8 bs = (if length bs mod 2 \<noteq> 0 then None else bmp_units_to_utf8 bs)"

definition any_to_str_bytes :: "any \<Rightarrow> bytes option" where
  "any_to_str_bytes a =
     (case any_tag a of
        Utf8String \<Rightarrow> Some (any_value a)
      | PrintableString \<Rightarrow> Some (any_value a)
      | Ia5String \<Rightarrow> Some (any_value a)
      | VisibleString \<Rightarrow> Some (any_value a)
      | BmpString \<Rightarrow> bmp_string_to_utf8 (any_value a)
      | _ \<Rightarrow> None)"

section \<open>The normalising iterator\<close>

record normalized_iter =
  ni_bytes :: bytes
  ni_pos :: nat
  pending_space :: bool

text \<open>\<open>NormalizedIter::new\<close> trims leading and trailing spaces.\<close>

definition trim_start :: "bytes \<Rightarrow> bytes" where
  "trim_start bs = dropWhile (\<lambda>b. b = 32) bs"

definition trim_end :: "bytes \<Rightarrow> bytes" where
  "trim_end bs = rev (dropWhile (\<lambda>b. b = 32) (rev bs))"

definition normalized_new :: "bytes \<Rightarrow> normalized_iter" where
  "normalized_new bs =
     \<lparr> ni_bytes = trim_end (trim_start bs), ni_pos = 0, pending_space = False \<rparr>"

text \<open>The inner \<open>while\<close> of \<open>next\<close>: the position of the first non-space from \<open>pos\<close> on.\<close>

function skip_spaces :: "bytes \<Rightarrow> nat \<Rightarrow> nat" where
  "skip_spaces bs pos =
     (if pos < length bs \<and> bs ! pos = 32 then skip_spaces bs (pos + 1) else pos)"
  by pat_completeness auto
termination by (relation "measure (\<lambda>(bs, pos). length bs - pos)") auto

declare skip_spaces.simps [simp del]

definition normalized_next :: "normalized_iter \<Rightarrow> u8 option \<times> normalized_iter" where
  "normalized_next it0 =
     (let it = (if pending_space it0
                then it0\<lparr> pending_space := False, ni_pos := skip_spaces (ni_bytes it0) (ni_pos it0) \<rparr>
                else it0)
      in if length (ni_bytes it) \<le> ni_pos it then (None, it)
         else let b = ni_bytes it ! ni_pos it;
                  it' = it\<lparr> ni_pos := ni_pos it + 1 \<rparr>
              in if b = 32 then (Some 32, it'\<lparr> pending_space := True \<rparr>)
                 else (Some (ascii_lower_u8 b), it'))"

lemma skip_spaces_ge: "pos \<le> skip_spaces bs pos"
  by (induction bs pos rule: skip_spaces.induct) (subst skip_spaces.simps, auto)

lemma normalized_next_progress:
  assumes "normalized_next it = (Some b, it')"
  shows "ni_bytes it' = ni_bytes it \<and> ni_pos it < ni_pos it' \<and> ni_pos it' \<le> length (ni_bytes it)"
  using assms skip_spaces_ge [of "ni_pos it" "ni_bytes it"]
  by (auto simp: normalized_next_def Let_def split: if_splits)

text \<open>Draining the iterator, as \<open>Iterator::eq\<close> does.\<close>

function normalized_collect :: "normalized_iter \<Rightarrow> bytes" where
  "normalized_collect it =
     (case normalized_next it of
        (None, _) \<Rightarrow> []
      | (Some b, it') \<Rightarrow> b # normalized_collect it')"
  by pat_completeness auto
termination
  by (relation "measure (\<lambda>it. length (ni_bytes it) - ni_pos it)")
    (simp, simp, drule sym, drule normalized_next_progress, auto)

declare normalized_collect.simps [simp del]

definition normalized_eq :: "bytes \<Rightarrow> bytes \<Rightarrow> bool" where
  "normalized_eq a b =
     (normalized_collect (normalized_new a) = normalized_collect (normalized_new b))"

section \<open>Comparison of values and names\<close>

definition ava_values_match :: "any \<Rightarrow> any \<Rightarrow> bool" where
  "ava_values_match a b =
     (case (any_to_str_bytes a, any_to_str_bytes b) of
        (Some a_bytes, Some b_bytes) \<Rightarrow> normalized_eq a_bytes b_bytes
      | (None, None) \<Rightarrow> any_tag a = any_tag b \<and> any_value a = any_value b
      | _ \<Rightarrow> False)"

definition ava_match :: "ava \<Rightarrow> ava \<Rightarrow> bool" where
  "ava_match a b = (ava_oid a = ava_oid b \<and> ava_values_match (ava_value a) (ava_value b))"

definition rdn_match :: "rdn \<Rightarrow> rdn \<Rightarrow> bool" where
  "rdn_match a b =
     (length a = length b \<and>
      list_all (\<lambda>x. list_ex (\<lambda>y. ava_match x y) b) a \<and>
      list_all (\<lambda>y. list_ex (\<lambda>x. ava_match x y) a) b)"

definition names_match :: "dname \<Rightarrow> dname \<Rightarrow> bool" where
  "names_match a b =
     (length a = length b \<and> list_all (\<lambda>(x, y). rdn_match x y) (zip a b))"

definition dn_contains_oid :: "dname \<Rightarrow> oid \<Rightarrow> bool" where
  "dn_contains_oid dn oid = list_ex (\<lambda>rdn. list_ex (\<lambda>a. ava_oid a = oid) rdn) dn"

text \<open>RFC 5280 section 3.3: subject and issuer agree and the subject is not empty.\<close>

definition is_self_issued_cert :: "certificate \<Rightarrow> bool" where
  "is_self_issued_cert cert =
     (subject (tbs cert) \<noteq> [] \<and> names_match (subject (tbs cert)) (issuer (tbs cert)))"

section \<open>A reference normal form\<close>

text \<open>The words of a value are its maximal runs of bytes other than the space.\<close>

function space_words :: "bytes \<Rightarrow> bytes list" where
  "space_words bs =
     (case dropWhile (\<lambda>b. b = 32) bs of
        [] \<Rightarrow> []
      | x # xs \<Rightarrow> (x # takeWhile (\<lambda>b. b \<noteq> 32) xs) # space_words (dropWhile (\<lambda>b. b \<noteq> 32) xs))"
  by pat_completeness auto
termination
proof (relation "measure length")
  fix bs xs :: bytes and x
  assume "dropWhile (\<lambda>b. b = 32) bs = x # xs"
  moreover have "length (dropWhile (\<lambda>b. b = 32) bs) \<le> length bs"
    by (rule length_dropWhile_le)
  ultimately have "length xs < length bs" by simp
  moreover have "length (dropWhile (\<lambda>b. b \<noteq> 32) xs) \<le> length xs"
    by (rule length_dropWhile_le)
  ultimately show "(dropWhile (\<lambda>b. b \<noteq> 32) xs, bs) \<in> measure length" by simp
qed simp

declare space_words.simps [simp del]

fun join_words :: "bytes list \<Rightarrow> bytes" where
  "join_words [] = []"
| "join_words [w] = w"
| "join_words (w # ws) = w @ 32 # join_words ws"

definition normal_form :: "bytes \<Rightarrow> bytes" where
  "normal_form bs = join_words (map (map ascii_lower_u8) (space_words bs))"

text \<open>What the iterator yields on a slice, with a space run pending or not.\<close>

fun emit :: "bool \<Rightarrow> bytes \<Rightarrow> bytes" where
  "emit p [] = []"
| "emit p (b # bs) =
     (if b = 32 then (if p then emit True bs else 32 # emit True bs)
      else ascii_lower_u8 b # emit False bs)"

lemma emit_skip_spaces: "emit False (drop (skip_spaces bs pos) bs) = emit True (drop pos bs)"
proof (induction bs pos rule: skip_spaces.induct)
  case (1 bs pos)
  show ?case
  proof (cases "pos < length bs")
    case True
    then have "drop pos bs = bs ! pos # drop (Suc pos) bs" by (simp add: Cons_nth_drop_Suc)
    with 1 True show ?thesis by (subst skip_spaces.simps) auto
  next
    case False
    then show ?thesis by (subst skip_spaces.simps) simp
  qed
qed

lemma collect_step:
  "normalized_collect it =
     (case fst (normalized_next it) of
        None \<Rightarrow> [] | Some b \<Rightarrow> b # normalized_collect (snd (normalized_next it)))"
  by (subst normalized_collect.simps) (simp split: prod.splits option.splits)

lemma normalized_collect_emit:
  "normalized_collect it = emit (pending_space it) (drop (ni_pos it) (ni_bytes it))"
proof (induction it rule: normalized_collect.induct)
  case (1 it)
  define q where "q = (if pending_space it then skip_spaces (ni_bytes it) (ni_pos it) else ni_pos it)"
  have e: "emit (pending_space it) (drop (ni_pos it) (ni_bytes it)) = emit False (drop q (ni_bytes it))"
    by (simp add: q_def emit_skip_spaces)
  show ?case
  proof (cases "q < length (ni_bytes it)")
    case True
    then have d: "drop q (ni_bytes it) = ni_bytes it ! q # drop (Suc q) (ni_bytes it)"
      by (simp add: Cons_nth_drop_Suc)
    have "\<exists>b it'. normalized_next it = (Some b, it') \<and>
        b # emit (pending_space it') (drop (ni_pos it') (ni_bytes it')) = emit False (drop q (ni_bytes it))"
      unfolding d using True
      by (cases "pending_space it"; cases "ni_bytes it ! q = 32")
        (simp_all add: normalized_next_def Let_def q_def)
    then obtain b it' where n: "normalized_next it = (Some b, it')"
      and r: "b # emit (pending_space it') (drop (ni_pos it') (ni_bytes it')) = emit False (drop q (ni_bytes it))"
      by blast
    from 1 n have "normalized_collect it' = emit (pending_space it') (drop (ni_pos it') (ni_bytes it'))"
      by fastforce
    with n r e show ?thesis by (simp add: collect_step [of it])
  next
    case False
    then have "fst (normalized_next it) = None"
      by (auto simp: normalized_next_def Let_def q_def split: if_splits)
    with False e show ?thesis by (simp add: collect_step [of it])
  qed
qed

lemma trim_end_Nil [simp]: "trim_end [] = []"
  by (simp add: trim_end_def)

lemma trim_end_Cons:
  "trim_end (x # xs) = (if trim_end xs = [] \<and> x = 32 then [] else x # trim_end xs)"
  by (auto simp: trim_end_def dropWhile_append)

lemma trim_end_eq_Nil: "trim_end bs = [] \<longleftrightarrow> (\<forall>b\<in>set bs. b = 32)"
  by (auto simp: trim_end_def)

lemma trim_end_word: "\<forall>b\<in>set w. b \<noteq> 32 \<Longrightarrow> trim_end (w @ rest) = w @ trim_end rest"
  by (induction w) (auto simp: trim_end_Cons)

lemma trim_start_trim_end: "trim_start (trim_end bs) = trim_end (trim_start bs)"
  by (induction bs) (auto simp: trim_start_def trim_end_Cons)

lemma emit_word:
  "\<forall>b\<in>set w. b \<noteq> 32 \<Longrightarrow> emit False (w @ rest) = map ascii_lower_u8 w @ emit False rest"
  by (induction w) auto

lemma emit_True: "emit True bs = emit False (trim_start bs)"
  by (induction bs) (auto simp: trim_start_def)

lemma trim_end_hd: "trim_end (32 # r) = 32 # t \<Longrightarrow> trim_start t = trim_start (trim_end r)"
  by (auto simp: trim_end_Cons split: if_splits)

lemma join_words_Cons: "ws \<noteq> [] \<Longrightarrow> join_words (w # ws) = w @ 32 # join_words ws"
  by (cases ws) auto

lemma space_words_trim_start: "space_words bs = (case trim_start bs of [] \<Rightarrow> []
    | x # xs \<Rightarrow> (x # takeWhile (\<lambda>b. b \<noteq> 32) xs) # space_words (dropWhile (\<lambda>b. b \<noteq> 32) xs))"
  by (subst space_words.simps) (simp add: trim_start_def)

lemma space_words_Nil [simp]: "space_words [] = []"
  by (subst space_words_trim_start) (simp add: trim_start_def)

lemma space_words_eq_Nil: "space_words bs = [] \<longleftrightarrow> (\<forall>b\<in>set bs. b = 32)"
proof -
  have "space_words bs = [] \<longleftrightarrow> trim_start bs = []"
    by (subst space_words_trim_start) (simp split: list.splits)
  then show ?thesis by (simp add: trim_start_def)
qed

lemma emit_trimmed: "emit False (trim_end (trim_start bs)) = normal_form bs"
proof (induction bs rule: space_words.induct)
  case (1 bs)
  show ?case
  proof (cases "trim_start bs")
    case Nil
    then show ?thesis by (subst normal_form_def) (simp add: space_words_trim_start)
  next
    case (Cons x xs)
    define w where "w = x # takeWhile (\<lambda>b. b \<noteq> 32) xs"
    define rest where "rest = dropWhile (\<lambda>b. b \<noteq> 32) xs"
    have "x \<noteq> 32" using Cons hd_dropWhile [of "\<lambda>b. b = 32" bs] by (auto simp: trim_start_def)
    then have w: "\<forall>b\<in>set w. b \<noteq> 32" by (auto simp: w_def dest: set_takeWhileD)
    have split: "trim_start bs = w @ rest" by (simp add: Cons w_def rest_def)
    have words: "space_words bs = w # space_words rest"
      by (subst space_words_trim_start) (simp add: Cons w_def rest_def)
    have ih: "emit False (trim_end (trim_start rest)) = normal_form rest"
      using 1 [OF Cons [unfolded trim_start_def]] by (simp add: rest_def)
    have l: "emit False (trim_end (trim_start bs)) = map ascii_lower_u8 w @ emit False (trim_end rest)"
      by (simp add: split trim_end_word [OF w] emit_word [OF w])
    show ?thesis
    proof (cases rest)
      case Nil
      then show ?thesis using l by (simp add: normal_form_def words)
    next
      case (Cons y r)
      then have y: "y = 32" using hd_dropWhile [of "\<lambda>b. b \<noteq> 32" xs] by (auto simp: rest_def)
      show ?thesis
      proof (cases "space_words rest = []")
        case True
        then have "trim_end rest = []" by (simp add: trim_end_eq_Nil space_words_eq_Nil)
        with True l show ?thesis by (simp add: normal_form_def words)
      next
        case False
        then have "trim_end rest \<noteq> []" by (simp add: trim_end_eq_Nil space_words_eq_Nil)
        then have t: "trim_end rest = 32 # trim_end r"
          using Cons y by (auto simp: trim_end_Cons split: if_splits)
        have "trim_start (trim_end r) = trim_end (trim_start rest)"
          using Cons y by (simp add: trim_start_trim_end) (simp add: trim_start_def)
        with t have "emit False (trim_end rest) = 32 # normal_form rest"
          using ih by (simp add: emit_True)
        with False l show ?thesis by (simp add: normal_form_def words join_words_Cons)
      qed
    qed
  qed
qed

lemma normalized_collect_new: "normalized_collect (normalized_new bs) = normal_form bs"
  by (simp add: normalized_collect_emit normalized_new_def emit_trimmed)

text \<open>Words contain no spaces and are not empty, so joining them loses nothing.\<close>

lemma space_words_wf: "w \<in> set (space_words bs) \<Longrightarrow> w \<noteq> [] \<and> (\<forall>b\<in>set w. b \<noteq> 32)"
proof (induction bs rule: space_words.induct)
  case (1 bs)
  show ?case
  proof (cases "trim_start bs")
    case Nil
    then have "space_words bs = []" by (subst space_words_trim_start) simp
    with "1.prems" show ?thesis by simp
  next
    case (Cons x xs)
    then have "x \<noteq> 32" using hd_dropWhile [of "\<lambda>b. b = 32" bs] by (auto simp: trim_start_def)
    have "space_words bs =
        (x # takeWhile (\<lambda>b. b \<noteq> 32) xs) # space_words (dropWhile (\<lambda>b. b \<noteq> 32) xs)"
      by (subst space_words_trim_start) (simp add: Cons)
    with "1.prems" consider "w = x # takeWhile (\<lambda>b. b \<noteq> 32) xs"
      | "w \<in> set (space_words (dropWhile (\<lambda>b. b \<noteq> 32) xs))"
      by auto
    then show ?thesis
    proof cases
      case 1
      with \<open>x \<noteq> 32\<close> show ?thesis by (auto dest: set_takeWhileD)
    next
      case 2
      then show ?thesis by (rule "1.IH" [OF Cons [unfolded trim_start_def]])
    qed
  qed
qed

lemma space_words_join:
  "\<forall>w\<in>set ws. w \<noteq> [] \<and> (\<forall>b\<in>set w. b \<noteq> 32) \<Longrightarrow> space_words (join_words ws) = ws"
proof (induction ws rule: join_words.induct)
  case 1
  show ?case by simp
next
  case (2 w)
  then obtain x xs where "w = x # xs" "x \<noteq> 32" "\<forall>b\<in>set xs. b \<noteq> 32" by (cases w) auto
  then show ?case by (subst space_words_trim_start)
      (simp add: trim_start_def takeWhile_eq_all_conv [THEN iffD2] dropWhile_eq_Nil_conv [THEN iffD2])
next
  case (3 w v vs)
  then obtain x xs where w: "w = x # xs" "x \<noteq> 32" "\<forall>b\<in>set xs. b \<noteq> 32" by (cases w) auto
  then have "space_words (join_words (w # v # vs)) = w # space_words (32 # join_words (v # vs))"
    by (subst space_words_trim_start)
      (simp add: trim_start_def takeWhile_append dropWhile_append takeWhile_eq_all_conv [THEN iffD2])
  also have "space_words (32 # join_words (v # vs)) = space_words (join_words (v # vs))"
    by (subst (1 2) space_words_trim_start) (simp add: trim_start_def)
  finally show ?case using 3 by simp
qed

lemma ascii_lower_u8_space [simp]: "ascii_lower_u8 b = 32 \<longleftrightarrow> b = 32"
proof (cases "65 \<le> b \<and> b \<le> 90")
  case True
  then have "65 \<le> unat b" "unat b \<le> 90" by (simp_all add: word_le_nat_alt)
  then have "unat (b + 32) \<noteq> 32" by (simp add: unat_word_ariths)
  then have "b + 32 \<noteq> 32" "b \<noteq> 32" using True by auto
  with True show ?thesis by (simp add: ascii_lower_u8_def)
next
  case False
  then show ?thesis by (auto simp: ascii_lower_u8_def)
qed

lemma normalized_eq_iff_words:
  "normalized_eq a b \<longleftrightarrow>
     map (map ascii_lower_u8) (space_words a) = map (map ascii_lower_u8) (space_words b)"
proof -
  have wf: "space_words (normal_form x) = map (map ascii_lower_u8) (space_words x)" for x
    unfolding normal_form_def by (rule space_words_join) (use space_words_wf in fastforce)
  have "normalized_eq a b \<longleftrightarrow> normal_form a = normal_form b"
    by (simp add: normalized_eq_def normalized_collect_new)
  then show ?thesis by (metis wf normal_form_def)
qed

section \<open>BMPString transcoding\<close>

text \<open>The code units of a \<open>BMPString\<close>, and a reader of UTF-8 sequences of up to three bytes.\<close>

fun bmp_units :: "bytes \<Rightarrow> nat list" where
  "bmp_units (hi # lo # rest) = (256 * unat hi + unat lo) # bmp_units rest"
| "bmp_units _ = []"

fun utf8_read :: "nat list \<Rightarrow> nat list option" where
  "utf8_read [] = Some []"
| "utf8_read (a # s) =
     (if a < 0x80 then map_option (\<lambda>r. a # r) (utf8_read s)
      else if 0xC0 \<le> a \<and> a < 0xE0 then
        (case s of b # s' \<Rightarrow> map_option (\<lambda>r. ((a - 0xC0) * 64 + (b - 0x80)) # r) (utf8_read s')
         | _ \<Rightarrow> None)
      else if 0xE0 \<le> a \<and> a < 0xF0 then
        (case s of b # c # s' \<Rightarrow>
           map_option (\<lambda>r. ((a - 0xE0) * 4096 + (b - 0x80) * 64 + (c - 0x80)) # r) (utf8_read s')
         | _ \<Rightarrow> None)
      else None)"

definition is_surrogate :: "nat \<Rightarrow> bool" where
  "is_surrogate cp = (0xD800 \<le> cp \<and> cp \<le> 0xDFFF)"

lemma bmp_unit_bound: "256 * unat (hi :: u8) + unat (lo :: u8) < 0x10000"
  using unat_u8_less [of hi] unat_u8_less [of lo] by simp

lemma unat_encode_utf8:
  assumes "cp < 0x10000"
  shows "map unat (encode_utf8 cp) =
     (if cp < 0x80 then [cp]
      else if cp < 0x800 then [0xC0 + cp div 64, 0x80 + cp mod 64]
      else [0xE0 + cp div 4096, 0x80 + cp div 64 mod 64, 0x80 + cp mod 64])"
proof -
  have "cp div 4096 < 16" "cp < 0x800 \<Longrightarrow> cp div 64 < 32" using assms by auto
  then show ?thesis using assms
    by (simp add: encode_utf8_def unat_u8_of_nat del: of_nat_add)
qed

lemma utf8_read_encode:
  assumes "cp < 0x10000"
  shows "utf8_read (map unat (encode_utf8 cp) @ s) = map_option (\<lambda>r. cp # r) (utf8_read s)"
proof -
  consider "cp < 0x80" | "0x80 \<le> cp" "cp < 0x800" | "0x800 \<le> cp" by linarith
  then show ?thesis
  proof cases
    case 1
    then show ?thesis using assms by (simp add: unat_encode_utf8)
  next
    case 2
    then have "cp div 64 < 32" "2 \<le> cp div 64" by auto
    with 2 show ?thesis using assms by (simp add: unat_encode_utf8)
  next
    case 3
    with assms have "cp div 4096 < 16" by auto
    moreover have "cp div 4096 * 4096 + cp div 64 mod 64 * 64 + cp mod 64 = cp"
    proof -
      have "cp div 4096 = cp div 64 div 64" by (simp add: div_mult2_eq)
      then have "cp div 4096 * 4096 + cp div 64 mod 64 * 64 = cp div 64 * 64"
        using div_mult_mod_eq [of "cp div 64" 64] by linarith
      then show ?thesis using div_mult_mod_eq [of cp 64] by linarith
    qed
    ultimately show ?thesis using 3 assms by (simp add: unat_encode_utf8)
  qed
qed

lemma bmp_units_to_utf8_read:
  "bmp_units_to_utf8 bs = Some u \<Longrightarrow> utf8_read (map unat u) = Some (bmp_units bs)"
proof (induction bs arbitrary: u rule: bmp_units_to_utf8.induct)
  case (1 hi lo rest)
  let ?cp = "256 * unat hi + unat lo"
  from 1 obtain v where "bmp_units_to_utf8 rest = Some v" "u = encode_utf8 ?cp @ v"
    by (auto simp: char_from_u32_def split: if_splits)
  with 1 show ?case
    by (simp add: utf8_read_encode [OF bmp_unit_bound] char_from_u32_def split: if_splits)
qed auto

lemma bmp_units_to_utf8_None:
  "bmp_units_to_utf8 bs = None \<longleftrightarrow> list_ex is_surrogate (bmp_units bs)"
proof (induction bs rule: bmp_units_to_utf8.induct)
  case (1 hi lo rest)
  then show ?case using bmp_unit_bound [of hi lo]
    by (auto simp: char_from_u32_def is_surrogate_def split: if_splits)
qed auto

lemma bmp_units_eq_Nil: "even (length b) \<Longrightarrow> bmp_units b = [] \<longleftrightarrow> b = []"
  by (cases b rule: bmp_units.cases) auto

lemma bmp_units_inj:
  "even (length a) \<Longrightarrow> even (length b) \<Longrightarrow> bmp_units a = bmp_units b \<Longrightarrow> a = b"
proof (induction a arbitrary: b rule: bmp_units.induct)
  case (1 hi lo rest)
  then obtain hi' lo' rest' where b: "b = hi' # lo' # rest'"
    by (cases b rule: bmp_units.cases) auto
  have "unat lo < 256" "unat lo' < 256" by (rule unat_u8_less)+
  moreover have eq: "256 * unat hi + unat lo = 256 * unat hi' + unat lo'" using 1 b by simp
  ultimately have hi: "unat hi = unat hi'"
    by (metis add.commute add_cancel_right_left div_less div_mult_self2 zero_neq_numeral)
  with eq have "unat lo = unat lo'" by simp
  with hi 1 b show ?case by (simp add: word_unat_eq_iff)
qed (auto simp: bmp_units_eq_Nil dest: sym)

text \<open>Two \<open>BMPString\<close> contents with the same transcoding are the same byte string.\<close>

lemma bmp_string_to_utf8_inj:
  assumes "bmp_string_to_utf8 a = Some u" and "bmp_string_to_utf8 b = Some u"
  shows "a = b"
proof (rule bmp_units_inj)
  show "even (length a)" "even (length b)"
    using assms by (auto simp: bmp_string_to_utf8_def split: if_splits)
  have "bmp_units_to_utf8 a = Some u" "bmp_units_to_utf8 b = Some u"
    using assms by (auto simp: bmp_string_to_utf8_def split: if_splits)
  then show "bmp_units a = bmp_units b" by (auto dest!: bmp_units_to_utf8_read)
qed

section \<open>The comparisons are equivalence relations\<close>

text \<open>
  The contract every level of the comparison has to meet, and the two ways the sources lift a
  comparison of components to a comparison of structures: position by position (a \<open>SEQUENCE OF\<close>)
  and as a set with equal lengths (a \<open>SET OF\<close>).
\<close>

locale match_relation =
  fixes eqv :: "'a \<Rightarrow> 'a \<Rightarrow> bool"
  assumes eqv_refl: "eqv a a"
    and eqv_sym: "eqv a b \<Longrightarrow> eqv b a"
    and eqv_trans: "eqv a b \<Longrightarrow> eqv b c \<Longrightarrow> eqv a c"
begin

lemma eqv_commute: "eqv a b = eqv b a"
  by (blast intro: eqv_sym)

lemma eqv_left_cong: "eqv a b \<Longrightarrow> eqv a c = eqv b c"
  by (blast intro: eqv_sym eqv_trans)

lemma seq_refl: "list_all2 eqv xs xs"
  by (simp add: list_all2_refl eqv_refl)

lemma seq_sym: "list_all2 eqv xs ys \<Longrightarrow> list_all2 eqv ys xs"
  by (auto simp: list_all2_conv_all_nth intro: eqv_sym)

lemma seq_trans: "list_all2 eqv xs ys \<Longrightarrow> list_all2 eqv ys zs \<Longrightarrow> list_all2 eqv xs zs"
  by (rule list_all2_trans [of eqv eqv eqv]) (blast intro: eqv_trans)

definition set_match :: "'a list \<Rightarrow> 'a list \<Rightarrow> bool" where
  "set_match xs ys \<longleftrightarrow> length xs = length ys \<and>
     (\<forall>x\<in>set xs. \<exists>y\<in>set ys. eqv x y) \<and> (\<forall>y\<in>set ys. \<exists>x\<in>set xs. eqv x y)"

lemma set_match_refl: "set_match xs xs"
  by (auto simp: set_match_def intro: eqv_refl)

lemma set_match_sym: "set_match xs ys \<Longrightarrow> set_match ys xs"
  by (auto simp: set_match_def) (meson eqv_sym)+

lemma set_match_trans: "set_match xs ys \<Longrightarrow> set_match ys zs \<Longrightarrow> set_match xs zs"
  unfolding set_match_def by (metis eqv_trans)

end

interpretation value_cmp: match_relation ava_values_match
  by unfold_locales
    (auto simp: ava_values_match_def normalized_eq_def split: option.splits)

interpretation ava_cmp: match_relation ava_match
  by unfold_locales
    (auto simp: ava_match_def intro: value_cmp.eqv_refl value_cmp.eqv_sym value_cmp.eqv_trans)

lemma rdn_match_alt: "rdn_match = ava_cmp.set_match"
  by (intro ext) (simp add: rdn_match_def ava_cmp.set_match_def list_all_iff list_ex_iff)

interpretation rdn_cmp: match_relation rdn_match
  unfolding rdn_match_alt
  by unfold_locales (auto intro: ava_cmp.set_match_refl ava_cmp.set_match_sym ava_cmp.set_match_trans)

lemma names_match_alt: "names_match a b = list_all2 rdn_match a b"
  by (auto simp: names_match_def list_all2_iff list_all_iff)

interpretation name_cmp: match_relation names_match
  unfolding names_match_alt
  by unfold_locales (auto intro: rdn_cmp.seq_refl rdn_cmp.seq_sym rdn_cmp.seq_trans)

lemma names_match_refl [simp]: "names_match a a"
  by (rule name_cmp.eqv_refl)

lemma names_match_empty [simp]:
  "names_match [] b \<longleftrightarrow> b = []" "names_match a [] \<longleftrightarrow> a = []"
  by (auto simp: names_match_alt)

lemma names_match_append:
  "length a = length a' \<Longrightarrow> names_match (a @ b) (a' @ b') \<longleftrightarrow> names_match a a' \<and> names_match b b'"
  by (simp add: names_match_alt list_all2_append)

section \<open>Properties\<close>

text \<open>
  \<open>names_match\<close> is an equivalence relation on distinguished names, in spite of the asymmetric
  search for partners inside each RDN: it is reflexive, symmetric and transitive.
\<close>

theorem names_match_equivp: "equivp names_match"
  by (intro equivpI reflpI sympI transpI)
    (auto intro: name_cmp.eqv_sym name_cmp.eqv_trans)

text \<open>
  The position-and-flag state machine of \<open>NormalizedIter\<close> decides equality of the values' words:
  two values compare equal iff they have the same sequence of maximal space-free words up to ASCII
  case, so leading, trailing and repeated spaces never matter and nothing else is identified.
\<close>

theorem normalized_eq_words:
  "normalized_eq a b \<longleftrightarrow>
     map (map ascii_lower_u8) (space_words a) = map (map ascii_lower_u8) (space_words b)"
  by (rule normalized_eq_iff_words)

text \<open>
  \<open>bmp_string_to_utf8\<close> fails exactly on odd lengths and surrogate units, and what it returns is
  read back by a UTF-8 reader as the code units of the input.
\<close>

theorem bmp_string_to_utf8_roundtrip:
  "case bmp_string_to_utf8 bs of
     None \<Rightarrow> length bs mod 2 = 1 \<or> list_ex is_surrogate (bmp_units bs)
   | Some u \<Rightarrow> even (length bs) \<and> \<not> list_ex is_surrogate (bmp_units bs) \<and>
       utf8_read (map unat u) = Some (bmp_units bs)"
  by (cases "bmp_units_to_utf8 bs")
    (auto simp: bmp_string_to_utf8_def bmp_units_to_utf8_None [symmetric] bmp_units_to_utf8_read
       odd_iff_mod_2_eq_one)

end
