(* ===== verification/PathTypes.thy ===== *)
theory PathTypes
  imports Names
begin

text \<open>
  The public data of \<open>pkix-path/src/lib.rs\<close>: the error enumeration with its messages, the trust
  anchor and its three constructors, the attribute rule over a subject DN, the validation policy
  and the result of a validation. A signature verifier is the trait of the same name, a parameter
  of the operations that verify.
\<close>

section \<open>Errors\<close>

datatype path_error =
    SignatureInvalid nat
  | MalformedCertificate nat
  | ValidityPeriod nat
  | ChainBroken nat
  | NoTrustedPath
  | PathTooLong
  | NotCA nat
  | KeyUsageMissing nat
  | CrlSignMissing nat
  | UnhandledCriticalExtension nat
  | NameConstraintViolation nat
  | PolicyViolation nat
  | Der der_error
  | ValidityPeriodExceedsMax nat
  | AlgorithmNotAllowed nat
  | KeyTooSmall nat
  | MissingSan
  | MissingRfc822San
  | MissingEku
  | MissingLeafPolicyOid oid
  | SubjectDnAttrRuleUnmet
  | DuplicateCertificate nat nat

type_synonym 'a path_result = "path_error + 'a"

fun display_oid :: "oid \<Rightarrow> string" where
  "display_oid [] = []"
| "display_oid [n] = show_nat n"
| "display_oid (n # ns) = show_nat n @ ''.'' @ display_oid ns"

fun display_der_error :: "der_error \<Rightarrow> string" where
  "display_der_error (DerError msg) = msg"

fun display_path_error :: "path_error \<Rightarrow> string" where
  "display_path_error (SignatureInvalid i) = ''signature invalid at chain index '' @ show_nat i"
| "display_path_error (ValidityPeriod i) =
     ''validity period check failed at chain index '' @ show_nat i"
| "display_path_error (MalformedCertificate i) =
     ''malformed certificate at chain index '' @ show_nat i"
| "display_path_error (ChainBroken i) =
     ''issuer/subject linkage broken at chain index '' @ show_nat i"
| "display_path_error NoTrustedPath = ''no path to a trusted anchor''"
| "display_path_error PathTooLong = ''path length exceeds maximum''"
| "display_path_error (NotCA i) = ''certificate at index '' @ show_nat i @ '' is not a CA''"
| "display_path_error (KeyUsageMissing i) = ''keyCertSign missing at chain index '' @ show_nat i"
| "display_path_error (CrlSignMissing i) = ''cRLSign missing at chain index '' @ show_nat i"
| "display_path_error (UnhandledCriticalExtension i) =
     ''unhandled critical extension at chain index '' @ show_nat i"
| "display_path_error (NameConstraintViolation i) =
     ''name constraints violated at certificate index '' @ show_nat i"
| "display_path_error (PolicyViolation i) =
     ''certificate policy violation at chain index '' @ show_nat i"
| "display_path_error (Der e) = ''DER error: '' @ display_der_error e"
| "display_path_error (ValidityPeriodExceedsMax i) =
     ''validity period exceeds maximum at chain index '' @ show_nat i"
| "display_path_error (AlgorithmNotAllowed i) =
     ''signature algorithm not allowed at chain index '' @ show_nat i"
| "display_path_error (KeyTooSmall i) = ''RSA key too small at chain index '' @ show_nat i"
| "display_path_error MissingSan = ''leaf certificate is missing SubjectAltName''"
| "display_path_error MissingRfc822San =
     ''leaf certificate SubjectAltName contains no rfc822Name entry''"
| "display_path_error MissingEku =
     ''leaf certificate is missing required ExtendedKeyUsage OID(s)''"
| "display_path_error (MissingLeafPolicyOid required) =
     ''leaf certificate is missing required CertificatePolicies OID '' @ display_oid required"
| "display_path_error SubjectDnAttrRuleUnmet =
     ''leaf certificate Subject DN does not satisfy the required attribute rule''"
| "display_path_error (DuplicateCertificate a b) =
     ''duplicate certificate (issuer+serial) at chain indices '' @ show_nat a @ '' and '' @ show_nat b"

section \<open>The signature verifier\<close>

datatype signature_error = SignatureError

type_synonym sig_verifier =
  "algorithm_identifier \<Rightarrow> spki \<Rightarrow> bytes \<Rightarrow> bytes \<Rightarrow> signature_error + unit"

section \<open>Trust anchors\<close>

record trust_anchor =
  ta_subject :: dname
  ta_spki :: spki
  ta_name_constraints :: "name_constraints option"

definition trust_anchor_new :: "dname \<Rightarrow> spki \<Rightarrow> trust_anchor" where
  "trust_anchor_new subj key =
     \<lparr> ta_subject = subj, ta_spki = key, ta_name_constraints = None \<rparr>"

definition trust_anchor_from_cert :: "'x x509_codec_scheme \<Rightarrow> certificate \<Rightarrow> trust_anchor" where
  "trust_anchor_from_cert cd cert =
     \<lparr> ta_subject = subject (tbs cert), ta_spki = subject_public_key_info (tbs cert),
       ta_name_constraints = find_cert_ext (dec_name_constraints cd) cert OID_NAME_CONSTRAINTS \<rparr>"

definition trust_anchor_try_from ::
  "'x x509_codec_scheme \<Rightarrow> certificate \<Rightarrow> der_error + trust_anchor" where
  "trust_anchor_try_from cd cert =
     and_then (try_find_cert_ext (dec_name_constraints cd) cert OID_NAME_CONSTRAINTS) (\<lambda>nc.
       Ok \<lparr> ta_subject = subject (tbs cert), ta_spki = subject_public_key_info (tbs cert),
            ta_name_constraints = nc \<rparr>)"

section \<open>Subject DN attribute rules\<close>

datatype dn_attr_rule =
    Field oid
  | AllOf "dn_attr_rule list"
  | AnyOf "dn_attr_rule list"

fun evaluate_dn_attr_rule :: "dname \<Rightarrow> dn_attr_rule \<Rightarrow> bool" where
  "evaluate_dn_attr_rule subj (Field oid) = dn_contains_oid subj oid"
| "evaluate_dn_attr_rule subj (AllOf rules) = list_all (evaluate_dn_attr_rule subj) rules"
| "evaluate_dn_attr_rule subj (AnyOf rules) = list_ex (evaluate_dn_attr_rule subj) rules"

section \<open>Validation policy and result\<close>

record validation_policy =
  max_path_len :: u8
  current_time_unix :: u64
  enforce_key_usage :: bool
  require_crl_sign_on_cas :: bool
  initial_explicit_policy :: bool
  initial_any_policy_inhibit :: bool
  initial_policy_mapping_inhibit :: bool
  initial_policy_set :: "oid list"
  max_validity_secs :: "u64 option"
  allowed_signature_algs :: "oid list option"
  min_rsa_key_bits :: "u32 option"
  require_subject_alt_name :: bool
  require_rfc822_san :: bool
  required_leaf_eku :: "oid list option"
  required_leaf_policy_oids :: "oid list option"
  required_leaf_subject_dn_attrs :: "dn_attr_rule option"

definition validation_policy_new :: "u64 \<Rightarrow> validation_policy" where
  "validation_policy_new now_unix =
     \<lparr> max_path_len = 10, current_time_unix = now_unix, enforce_key_usage = True,
       require_crl_sign_on_cas = False, initial_explicit_policy = False,
       initial_any_policy_inhibit = False, initial_policy_mapping_inhibit = False,
       initial_policy_set = [], max_validity_secs = None, allowed_signature_algs = None,
       min_rsa_key_bits = None, require_subject_alt_name = False, require_rfc822_san = False,
       required_leaf_eku = None, required_leaf_policy_oids = None,
       required_leaf_subject_dn_attrs = None \<rparr>"

record policy_node =
  node_depth :: nat
  valid_policy :: oid
  expected_policy_set :: "oid list"
  qualifiers :: "policy_qualifier_info list"

record validated_path =
  vp_anchor_index :: nat
  vp_depth :: nat
  vp_leaf_subject :: dname
  vp_leaf_issuer :: dname
  vp_leaf_serial :: bytes
  vp_leaf_spki :: spki
  vp_valid_policy_tree :: "policy_node list option"

definition policy_qualifiers :: "validated_path \<Rightarrow> (oid \<times> policy_qualifier_info) list" where
  "policy_qualifiers vp =
     concat (map (\<lambda>node. map (\<lambda>q. (valid_policy node, q)) (qualifiers node))
       (unwrap_or [] (vp_valid_policy_tree vp)))"

section \<open>Lemmas\<close>

lemma try_from_agrees_from_cert:
  "trust_anchor_try_from cd cert = Inr a \<Longrightarrow> trust_anchor_from_cert cd cert = a"
  by (auto simp: trust_anchor_try_from_def trust_anchor_from_cert_def and_then_Ok_iff
      dest: try_find_ok_find)

text \<open>A subject with more attributes satisfies every rule the smaller one satisfies.\<close>

lemma evaluate_dn_attr_rule_mono:
  "(\<And>oid. dn_contains_oid a oid \<Longrightarrow> dn_contains_oid b oid) \<Longrightarrow>
     evaluate_dn_attr_rule a r \<Longrightarrow> evaluate_dn_attr_rule b r"
  by (induction a r rule: evaluate_dn_attr_rule.induct) (auto simp: list_all_iff list_ex_iff)

end
