(* ===== verification/Fixtures.thy ===== *)
theory Fixtures
  imports PathTypes
begin

text \<open>
  Concrete certificates, a concrete table-driven codec and a concrete signature scheme, at which the
  witnesses evaluate the operations. Nothing here models code: the decoders map short byte strings to
  the extension contents the examples need and fail on everything else, the encoding of a
  to-be-signed part is its serial number, and a signature is valid when it is the message followed by
  the issuer's key.
\<close>

definition table_dec :: "(bytes \<times> 'a) list \<Rightarrow> bytes \<Rightarrow> der_error + 'a" where
  "table_dec tbl bs = (case map_of tbl bs of Some v \<Rightarrow> Ok v | None \<Rightarrow> Err (DerError ''malformed''))"

definition ex_ia5 :: "bytes \<Rightarrow> string" where
  "ex_ia5 bs = map (\<lambda>b. char_of (unat b)) bs"

definition ex_subtree :: "general_name \<Rightarrow> general_subtree" where
  "ex_subtree n = \<lparr> base = n, minimum = 0, maximum = None \<rparr>"

definition ex_permit :: "general_name list \<Rightarrow> name_constraints" where
  "ex_permit ns = \<lparr> permitted_subtrees = Some (map ex_subtree ns), excluded_subtrees = None \<rparr>"

definition ex_exclude :: "general_name list \<Rightarrow> name_constraints" where
  "ex_exclude ns = \<lparr> permitted_subtrees = None, excluded_subtrees = Some (map ex_subtree ns) \<rparr>"

definition ex_key_usage :: "bool \<Rightarrow> bool \<Rightarrow> bool \<Rightarrow> key_usage" where
  "ex_key_usage ds cs crl =
     \<lparr> ku_digital_signature = ds, ku_non_repudiation = False, ku_key_encipherment = False,
       ku_data_encipherment = False, ku_key_agreement = False, ku_key_cert_sign = cs,
       ku_crl_sign = crl, ku_encipher_only = False, ku_decipher_only = False \<rparr>"

definition ex_policy :: "oid \<Rightarrow> policy_information" where
  "ex_policy p = \<lparr> policy_identifier = p, policy_qualifiers_field = None \<rparr>"

definition ex_mapping :: "oid \<Rightarrow> oid \<Rightarrow> policy_mapping" where
  "ex_mapping a b = \<lparr> issuer_domain_policy = a, subject_domain_policy = b \<rparr>"

definition ex_codec :: x509_codec where
  "ex_codec =
     \<lparr> dec_basic_constraints = table_dec
         [([0], \<lparr> bc_ca = False, path_len_constraint = None \<rparr>),
          ([1], \<lparr> bc_ca = True, path_len_constraint = None \<rparr>),
          ([1, 0], \<lparr> bc_ca = True, path_len_constraint = Some 0 \<rparr>)],
       dec_key_usage = table_dec
         [([1], ex_key_usage True False False), ([2], ex_key_usage False True True),
          ([3], ex_key_usage False True False)],
       dec_name_constraints = table_dec
         [([1], ex_permit [DnsName ''a.com'']), ([2], ex_permit [DnsName ''b.com'']),
          ([3], ex_exclude [DnsName ''c.com''])],
       dec_general_names = table_dec
         [([1], [DnsName ''a.com'']), ([2], [DnsName ''b.com'']),
          ([3], [Rfc822Name ''u@a.com''])],
       dec_certificate_policies = table_dec
         [([0], [ex_policy OID_ANY_POLICY]), ([1], [ex_policy [1, 2, 1]]),
          ([2], [ex_policy [1, 2, 2]])],
       dec_policy_mappings = table_dec
         [([1], [ex_mapping [1, 2, 1] [1, 2, 2]]), ([0], [ex_mapping OID_ANY_POLICY [1, 2, 1]])],
       dec_policy_constraints = table_dec
         [([0], \<lparr> require_explicit_policy = Some 0, inhibit_policy_mapping = None \<rparr>)],
       dec_inhibit_any_policy = table_dec [([0], 0), ([1], 1)],
       dec_extended_key_usage = table_dec
         [([1], [[1, 3, 6, 1, 5, 5, 7, 3, 1]]), ([8], [[1, 3, 6, 1, 5, 5, 7, 3, 8]])],
       dec_authority_key_id = (\<lambda>bs. Ok \<lparr> aki_key_identifier = Some bs \<rparr>),
       dec_subject_key_id = (\<lambda>bs. Ok bs),
       dec_ia5_any = (\<lambda>a. if any_tag a = Ia5String then Ok (ex_ia5 (any_value a))
                         else Err (DerError ''tag'')),
       dec_rsa_modulus = (\<lambda>bs. Ok bs),
       enc_tbs = (\<lambda>t. Ok (serial_number t)),
       enc_spki = (\<lambda>k. Ok (raw_bytes (subject_public_key k))) \<rparr>"

definition ex_key :: "u8 \<Rightarrow> spki" where
  "ex_key k =
     \<lparr> spki_algorithm = \<lparr> alg_oid = [1, 1], alg_parameters = None \<rparr>,
       subject_public_key = \<lparr> raw_bytes = [k], unused_bits = 0 \<rparr> \<rparr>"

definition ex_name :: "u8 \<Rightarrow> dname" where
  "ex_name k = [[\<lparr> ava_oid = [2, 5, 4, 3], ava_value = \<lparr> any_tag = Utf8String, any_value = [k] \<rparr> \<rparr>]]"

definition ex_ext :: "oid \<Rightarrow> bytes \<Rightarrow> extension" where
  "ex_ext oid v = \<lparr> extn_id = oid, critical = True, extn_value = v \<rparr>"

text \<open>The certificate for entity \<open>k\<close> issued by entity \<open>i\<close>, valid from 100 to 200.\<close>

definition ex_cert :: "u8 \<Rightarrow> u8 \<Rightarrow> extension list \<Rightarrow> certificate" where
  "ex_cert k i exts =
     \<lparr> tbs = \<lparr> tbs_version = 3, serial_number = [k],
               tbs_signature = \<lparr> alg_oid = [1, 9], alg_parameters = None \<rparr>,
               issuer = ex_name i, tbs_validity = \<lparr> not_before = 100, not_after = 200 \<rparr>,
               subject = ex_name k, subject_public_key_info = ex_key k, extensions = Some exts \<rparr>,
       signature_algorithm = \<lparr> alg_oid = [1, 9], alg_parameters = None \<rparr>,
       cert_signature = \<lparr> raw_bytes = [k, i], unused_bits = 0 \<rparr> \<rparr>"

definition ex_ca :: "u8 \<Rightarrow> u8 \<Rightarrow> extension list \<Rightarrow> certificate" where
  "ex_ca k i exts = ex_cert k i (ex_ext OID_BASIC_CONSTRAINTS [1] # ex_ext OID_KEY_USAGE [2] # exts)"

definition ex_anchor :: "u8 \<Rightarrow> trust_anchor" where
  "ex_anchor k = trust_anchor_new (ex_name k) (ex_key k)"

definition ex_verifier :: sig_verifier where
  "ex_verifier alg key msg sig =
     (if sig = msg @ raw_bytes (subject_public_key key) then Ok () else Err SignatureError)"

lemmas ex_defs [codec_simps] =
  table_dec_def ex_ia5_def ex_subtree_def ex_permit_def ex_exclude_def ex_key_usage_def ex_policy_def
  ex_mapping_def ex_codec_def ex_key_def ex_name_def ex_ext_def ex_cert_def ex_ca_def ex_anchor_def
  ex_verifier_def trust_anchor_new_def

end
