(* ===== verification/NameConstraints.thy ===== *)
theory NameConstraints
  imports Fixtures
begin

text \<open>
  Name constraints of \<open>pkix-path/src/lib.rs\<close>: the matching rules for each name form, the state the
  chain walk carries (permitted subtrees, excluded subtrees and the mask of constrained types), its
  update by a CA certificate and the check of a certificate against it. Names and constraints in
  \<open>dNSName\<close>, \<open>rfc822Name\<close> and URI form are \<open>IA5String\<close>s, so a byte is a character.

  The interface \<open>subtree_order\<close> states the one law the update relies on (matching is transitive
  through the base of a subtree); its clients are the soundness of the excluded-subtree union and of
  the permitted-subtree intersection, proved once for the interface and used at the model's
  \<open>name_matches_subtree\<close>.
\<close>

unbundle bit_operations_syntax

section \<open>Name types\<close>

type_synonym nc_type_mask = u32

definition NC_EMPTY :: nc_type_mask where "NC_EMPTY = 0"
definition NC_RFC822 :: nc_type_mask where "NC_RFC822 = push_bit 0 1"
definition NC_DNS :: nc_type_mask where "NC_DNS = push_bit 1 1"
definition NC_DIRECTORY_NAME :: nc_type_mask where "NC_DIRECTORY_NAME = push_bit 2 1"
definition NC_URI :: nc_type_mask where "NC_URI = push_bit 3 1"
definition NC_IP_ADDRESS :: nc_type_mask where "NC_IP_ADDRESS = push_bit 4 1"

definition intersects :: "nc_type_mask \<Rightarrow> nc_type_mask \<Rightarrow> bool" where
  "intersects a b = (a AND b \<noteq> 0)"

fun name_type_bit :: "general_name \<Rightarrow> nc_type_mask" where
  "name_type_bit (Rfc822Name _) = NC_RFC822"
| "name_type_bit (DnsName _) = NC_DNS"
| "name_type_bit (DirectoryName _) = NC_DIRECTORY_NAME"
| "name_type_bit (UniformResourceIdentifier _) = NC_URI"
| "name_type_bit (IpAddress _) = NC_IP_ADDRESS"
| "name_type_bit _ = NC_EMPTY"

definition same_nc_variant :: "general_name \<Rightarrow> general_name \<Rightarrow> bool" where
  "same_nc_variant a b = (name_type_bit a \<noteq> NC_EMPTY \<and> name_type_bit a = name_type_bit b)"

section \<open>Matching rules\<close>

definition dn_within_subtree :: "dname \<Rightarrow> dname \<Rightarrow> bool" where
  "dn_within_subtree subj constr =
     (if length constr > length subj then False
      else list_all (\<lambda>(c_rdn, s_rdn).
             length c_rdn = length s_rdn \<and>
             list_all (\<lambda>c_ava. list_ex (\<lambda>s_ava. ava_match c_ava s_ava) s_rdn) c_rdn)
           (zip constr subj))"

text \<open>
  The rule for a constraint with a leading dot, \<open>dot_suffix\<close>, shared by the three host matchers: the
  name ends with the constraint, is longer, and is not the apex.
\<close>

definition under_dot_suffix :: "string \<Rightarrow> string \<Rightarrow> string \<Rightarrow> bool" where
  "under_dot_suffix host dot_suffix suffix =
     (if eq_ignore_ascii_case host suffix then False
      else length host > length dot_suffix \<and>
           eq_ignore_ascii_case (drop (length host - length dot_suffix) host) dot_suffix)"

definition matches_dns_name :: "string \<Rightarrow> string \<Rightarrow> bool" where
  "matches_dns_name subj constr =
     (if constr = [] then False
      else case strip_prefix ''.'' constr of
        Some suffix \<Rightarrow> under_dot_suffix subj constr suffix
      | None \<Rightarrow>
          eq_ignore_ascii_case subj constr \<or>
          (length subj > length constr + 1 \<and>
           subj ! (length subj - length constr - 1) = CHR ''.'' \<and>
           eq_ignore_ascii_case (drop (length subj - length constr) subj) constr))"

definition matches_rfc822_name :: "string \<Rightarrow> string \<Rightarrow> bool" where
  "matches_rfc822_name subj constr =
     (if CHR ''@'' \<in> set constr then eq_ignore_ascii_case subj constr
      else case split_once CHR ''@'' subj of
        None \<Rightarrow> False
      | Some (_, domain) \<Rightarrow>
          (case strip_prefix ''.'' constr of
             Some suffix \<Rightarrow> under_dot_suffix domain constr suffix
           | None \<Rightarrow> eq_ignore_ascii_case domain constr))"

definition matches_uri_host :: "string \<Rightarrow> string \<Rightarrow> bool" where
  "matches_uri_host host constr =
     (if constr = [] then False
      else case strip_prefix ''.'' constr of
        Some suffix \<Rightarrow> under_dot_suffix host constr suffix
      | None \<Rightarrow> eq_ignore_ascii_case host constr)"

definition uri_host_end :: "char \<Rightarrow> bool" where
  "uri_host_end c = (c \<in> {CHR ''/'', CHR ''?'', CHR ''#'', CHR '':''})"

definition uri_host :: "string \<Rightarrow> string option" where
  "uri_host subject_uri =
     (case find_str ''://'' subject_uri of
        None \<Rightarrow> None
      | Some after_scheme \<Rightarrow>
          (let rest = drop (after_scheme + 3) subject_uri;
               rest = (case split_once CHR ''@'' rest of None \<Rightarrow> rest | Some (_, h) \<Rightarrow> h)
           in Some (takeWhile (\<lambda>c. \<not> uri_host_end c) rest)))"

definition matches_uri :: "string \<Rightarrow> string \<Rightarrow> bool" where
  "matches_uri subject_uri constr =
     (case uri_host subject_uri of
        None \<Rightarrow> False
      | Some host \<Rightarrow> matches_uri_host host constr)"

definition matches_ip_address :: "bytes \<Rightarrow> bytes \<Rightarrow> bool" where
  "matches_ip_address subject_bytes constraint_bytes =
     (let half = (if length constraint_bytes = 8 then Some 4
                  else if length constraint_bytes = 32 then Some 16 else None)
      in case half of
           None \<Rightarrow> False
         | Some h \<Rightarrow>
             (if length subject_bytes \<noteq> h then False
              else list_all (\<lambda>(s, a, m). s AND m = a AND m)
                (zip subject_bytes (zip (take h constraint_bytes) (drop h constraint_bytes)))))"

fun name_matches_base :: "general_name \<Rightarrow> general_name \<Rightarrow> bool" where
  "name_matches_base (DnsName subj) (DnsName constr) = matches_dns_name subj constr"
| "name_matches_base (DirectoryName subj) (DirectoryName constr) = dn_within_subtree subj constr"
| "name_matches_base (Rfc822Name subj) (Rfc822Name constr) = matches_rfc822_name subj constr"
| "name_matches_base (UniformResourceIdentifier subj) (UniformResourceIdentifier constr) =
     matches_uri subj constr"
| "name_matches_base (IpAddress subj) (IpAddress constr) = matches_ip_address subj constr"
| "name_matches_base _ _ = False"

definition name_matches_subtree :: "general_name \<Rightarrow> general_subtree \<Rightarrow> bool" where
  "name_matches_subtree n st = name_matches_base n (base st)"

section \<open>The constraint state and its update\<close>

text \<open>The three name-constraint fields of \<open>WorkingState\<close>.\<close>

record nc_state =
  nc_permitted :: "general_subtree list option"
  nc_excluded :: "general_subtree list"
  nc_constrained_types :: nc_type_mask

text \<open>\<open>for entry in entries { mask |= name_type_bit(&entry.base) }\<close>.\<close>

definition or_type_bits :: "general_subtree list \<Rightarrow> nc_type_mask \<Rightarrow> nc_type_mask" where
  "or_type_bits entries bits0 = fold (\<lambda>st bits. bits OR name_type_bit (base st)) entries bits0"

definition nc_init :: "trust_anchor \<Rightarrow> nc_state" where
  "nc_init anchor =
     (let permitted = (case ta_name_constraints anchor of
                         None \<Rightarrow> None | Some nc \<Rightarrow> permitted_subtrees nc);
          excluded = (case ta_name_constraints anchor of
                         None \<Rightarrow> [] | Some nc \<Rightarrow> unwrap_or [] (excluded_subtrees nc))
      in \<lparr> nc_permitted = permitted, nc_excluded = excluded,
           nc_constrained_types =
             (case permitted of None \<Rightarrow> NC_EMPTY | Some p \<Rightarrow> or_type_bits p NC_EMPTY) \<rparr>)"

definition same_type_in :: "general_subtree list \<Rightarrow> general_subtree \<Rightarrow> general_subtree list" where
  "same_type_in entries e = filter (\<lambda>c. same_nc_variant (base c) (base e)) entries"

definition same_subtree :: "general_subtree \<Rightarrow> general_subtree \<Rightarrow> bool" where
  "same_subtree a b =
     (same_nc_variant (base a) (base b) \<and> name_matches_subtree (base a) b \<and>
      name_matches_subtree (base b) a)"

text \<open>The first loop of the intersection, over the new entries.\<close>

definition keep_new :: "general_subtree list \<Rightarrow> general_subtree \<Rightarrow> bool" where
  "keep_new current n =
     (same_type_in current n = [] \<or>
      list_ex (\<lambda>c. name_matches_subtree (base n) c) (same_type_in current n))"

text \<open>The body of its second loop, over the current entries, which appends to the result.\<close>

definition push_current ::
  "general_subtree list \<Rightarrow> general_subtree \<Rightarrow> general_subtree list \<Rightarrow> general_subtree list" where
  "push_current new_permitted c result =
     (if same_type_in new_permitted c = [] then result @ [c]
      else if list_ex (\<lambda>n. name_matches_subtree (base c) n) (same_type_in new_permitted c) then
        (if list_ex (\<lambda>e. same_subtree e c) result then result else result @ [c])
      else result)"

definition intersect_permitted ::
  "general_subtree list \<Rightarrow> general_subtree list \<Rightarrow> general_subtree list" where
  "intersect_permitted current new_permitted =
     fold (push_current new_permitted) current (filter (keep_new current) new_permitted)"

definition union_excluded ::
  "general_subtree list \<Rightarrow> general_subtree list \<Rightarrow> general_subtree list" where
  "union_excluded excluded new_excluded =
     fold (\<lambda>e acc. if list_ex (\<lambda>existing. same_subtree existing e) acc then acc else acc @ [e])
       new_excluded excluded"

definition nc_update :: "name_constraints \<Rightarrow> nc_state \<Rightarrow> nc_state" where
  "nc_update nc st =
     (let st = (case permitted_subtrees nc of
                  None \<Rightarrow> st
                | Some new_permitted \<Rightarrow>
                    st\<lparr> nc_constrained_types := or_type_bits new_permitted (nc_constrained_types st),
                        nc_permitted :=
                          (case nc_permitted st of
                             None \<Rightarrow> Some new_permitted
                           | Some current \<Rightarrow> Some (intersect_permitted current new_permitted)) \<rparr>)
      in case excluded_subtrees nc of
           None \<Rightarrow> st
         | Some new_excluded \<Rightarrow>
             st\<lparr> nc_excluded := union_excluded (nc_excluded st) new_excluded \<rparr>)"

section \<open>The check of a certificate\<close>

datatype check_mode = Excluded | Permitted

fun dn_matches_base :: "dname \<Rightarrow> general_name \<Rightarrow> bool" where
  "dn_matches_base subj (DirectoryName constr) = dn_within_subtree subj constr"
| "dn_matches_base subj _ = False"

definition check_subject_dn_against_subtrees ::
  "dname \<Rightarrow> bool \<Rightarrow> general_subtree list \<Rightarrow> check_mode \<Rightarrow> nc_type_mask \<Rightarrow> nat \<Rightarrow> unit path_result" where
  "check_subject_dn_against_subtrees subj subject_is_empty subtrees mode types index =
     (if subject_is_empty then Ok ()
      else
        (let subject_constrained = intersects types NC_DIRECTORY_NAME;
             dn_matches_any = list_ex (\<lambda>st. dn_matches_base subj (base st)) subtrees
         in case mode of
              Excluded \<Rightarrow> if dn_matches_any then Err (NameConstraintViolation index) else Ok ()
            | Permitted \<Rightarrow>
                if subject_constrained \<and> \<not> dn_matches_any
                then Err (NameConstraintViolation index) else Ok ()))"

definition check_san_against_subtrees ::
  "general_name list option \<Rightarrow> general_subtree list \<Rightarrow> check_mode \<Rightarrow> nc_type_mask \<Rightarrow> nat
    \<Rightarrow> unit path_result" where
  "check_san_against_subtrees san subtrees mode types index =
     (case san of
        None \<Rightarrow> Ok ()
      | Some san_ext \<Rightarrow>
          try_all (\<lambda>n.
            (case mode of
               Excluded \<Rightarrow>
                 if list_ex (name_matches_subtree n) subtrees
                 then Err (NameConstraintViolation index) else Ok ()
             | Permitted \<Rightarrow>
                 if intersects types (name_type_bit n) \<and> \<not> list_ex (name_matches_subtree n) subtrees
                 then Err (NameConstraintViolation index) else Ok ())) san_ext)"

fun is_rfc822 :: "general_name \<Rightarrow> bool" where
  "is_rfc822 (Rfc822Name _) = True"
| "is_rfc822 _ = False"

fun email_matches_base :: "string \<Rightarrow> general_name \<Rightarrow> bool" where
  "email_matches_base email (Rfc822Name constr) = matches_rfc822_name email constr"
| "email_matches_base email _ = False"

definition check_email_ava ::
  "'x x509_codec_scheme \<Rightarrow> general_subtree list option \<Rightarrow> general_subtree list \<Rightarrow> nat \<Rightarrow> ava
    \<Rightarrow> unit path_result" where
  "check_email_ava cd permitted_rfc822 excluded index a =
     (if ava_oid a \<noteq> OID_EMAIL_ADDRESS then Ok ()
      else case dec_ia5_any cd (ava_value a) of
        Inl _ \<Rightarrow> Ok ()
      | Inr email \<Rightarrow>
          if list_ex (\<lambda>st. email_matches_base email (base st)) excluded
          then Err (NameConstraintViolation index)
          else case permitted_rfc822 of
            None \<Rightarrow> Ok ()
          | Some permitted \<Rightarrow>
              if \<not> list_ex (\<lambda>st. email_matches_base email (base st)) permitted
              then Err (NameConstraintViolation index) else Ok ())"

text \<open>Step (3): \<open>emailAddress\<close> attributes of the subject against the \<open>rfc822Name\<close> constraints.\<close>

definition check_dn_emails ::
  "'x x509_codec_scheme \<Rightarrow> dname \<Rightarrow> nc_state \<Rightarrow> nat \<Rightarrow> unit path_result" where
  "check_dn_emails cd subj st index =
     (let rfc822_constrained = intersects (nc_constrained_types st) NC_RFC822;
          has_rfc822_excluded = list_ex (\<lambda>s. is_rfc822 (base s)) (nc_excluded st);
          has_rfc822_constraint = (rfc822_constrained \<or> has_rfc822_excluded)
      in if has_rfc822_constraint \<and> subj \<noteq> [] then
           (let permitted_rfc822 =
                  (if rfc822_constrained
                   then Some (filter (\<lambda>s. is_rfc822 (base s)) (unwrap_or [] (nc_permitted st)))
                   else None)
            in try_all (\<lambda>rdn.
                 try_all (check_email_ava cd permitted_rfc822 (nc_excluded st) index) rdn) subj)
         else Ok ())"

definition check_name_constraints ::
  "'x x509_codec_scheme \<Rightarrow> certificate \<Rightarrow> general_name list option \<Rightarrow> nc_state \<Rightarrow> nat
    \<Rightarrow> unit path_result" where
  "check_name_constraints cd cert san st index =
     (let subj = subject (tbs cert);
          subject_is_empty = (subj = []);
          types = nc_constrained_types st;
          check_names = (\<lambda>subtrees mode.
            and_then (check_subject_dn_against_subtrees subj subject_is_empty subtrees mode types index)
              (\<lambda>_. check_san_against_subtrees san subtrees mode types index))
      in and_then (check_names (nc_excluded st) Excluded) (\<lambda>_.
         and_then (case nc_permitted st of
                     None \<Rightarrow> Ok ()
                   | Some permitted \<Rightarrow> check_names permitted Permitted) (\<lambda>_.
         check_dn_emails cd subj st index)))"

text \<open>The decoder of the extension, which also rejects non-conformant subtrees.\<close>

definition cert_name_constraints ::
  "'x x509_codec_scheme \<Rightarrow> certificate \<Rightarrow> nat \<Rightarrow> name_constraints option path_result" where
  "cert_name_constraints cd cert index =
     and_then (map_err (\<lambda>_. MalformedCertificate index)
                (try_find_cert_ext (dec_name_constraints cd) cert OID_NAME_CONSTRAINTS)) (\<lambda>nc.
     and_then (case nc of
         None \<Rightarrow> Ok ()
       | Some c \<Rightarrow>
           try_all (\<lambda>st. guard_or (minimum st = 0 \<and> maximum st = None) (MalformedCertificate index))
             (unwrap_or [] (permitted_subtrees c) @ unwrap_or [] (excluded_subtrees c))) (\<lambda>_.
     Ok nc))"

definition cert_subject_alt_names ::
  "'x x509_codec_scheme \<Rightarrow> certificate \<Rightarrow> nat \<Rightarrow> general_name list option path_result" where
  "cert_subject_alt_names cd cert index =
     map_err (\<lambda>_. MalformedCertificate index)
       (try_find_cert_ext (dec_general_names cd) cert OID_SUBJECT_ALT_NAME)"

section \<open>Characterisation of the matching rules\<close>

abbreviation lower :: "string \<Rightarrow> string" where "lower \<equiv> map ascii_lower"

lemma lower_append_lengths: "lower h = p @ lower c \<Longrightarrow> length h = length p + length c"
  by (metis length_append length_map)

lemma ci_suffix_iff:
  assumes "length c < length h"
  shows "eq_ignore_ascii_case (drop (length h - length c) h) c \<longleftrightarrow>
     (\<exists>p. p \<noteq> [] \<and> lower h = p @ lower c)"
proof
  assume e: "eq_ignore_ascii_case (drop (length h - length c) h) c"
  have "lower h = lower (take (length h - length c) h) @ lower (drop (length h - length c) h)"
    by (simp flip: map_append)
  with e assms show "\<exists>p. p \<noteq> [] \<and> lower h = p @ lower c"
    by (intro exI [of _ "lower (take (length h - length c) h)"])
      (auto simp: eq_ignore_ascii_case_def)
next
  assume "\<exists>p. p \<noteq> [] \<and> lower h = p @ lower c"
  then obtain p where p: "lower h = p @ lower c" by blast
  then have "length p = length h - length c"
    by (auto dest: lower_append_lengths)
  moreover have "lower (drop (length h - length c) h) = drop (length h - length c) (lower h)"
    by (simp add: drop_map)
  ultimately show "eq_ignore_ascii_case (drop (length h - length c) h) c"
    using p by (simp add: eq_ignore_ascii_case_def)
qed

lemma lower_append_length: "p \<noteq> [] \<Longrightarrow> lower h = p @ lower c \<Longrightarrow> length c < length h"
  by (auto dest: lower_append_lengths)

lemma under_dot_suffix_iff:
  assumes "c = CHR ''.'' # suffix"
  shows "under_dot_suffix h c suffix \<longleftrightarrow> (\<exists>p. p \<noteq> [] \<and> lower h = p @ lower c)"
proof (cases "length c < length h")
  case True
  then have "\<not> eq_ignore_ascii_case h suffix"
    using assms by (auto dest: eq_ignore_ascii_case_length)
  with True show ?thesis by (simp add: under_dot_suffix_def ci_suffix_iff)
next
  case False
  then show ?thesis using lower_append_length [of _ h c] by (auto simp: under_dot_suffix_def)
qed

lemma strip_dot:
  "strip_prefix ''.'' c = (case c of [] \<Rightarrow> None | x # xs \<Rightarrow> if x = CHR ''.'' then Some xs else None)"
  by (auto simp: strip_prefix_def split: list.splits)

lemma lower_dot [simp]: "ascii_lower c = CHR ''.'' \<longleftrightarrow> c = CHR ''.''"
  by (subst ascii_lower_eq_nonletter) (auto simp: ascii_lower_def)

lemma lower_at [simp]: "ascii_lower c = CHR ''@'' \<longleftrightarrow> c = CHR ''@''"
  by (subst ascii_lower_eq_nonletter) (auto simp: ascii_lower_def)

lemma lower_slash [simp]: "ascii_lower c = CHR ''/'' \<longleftrightarrow> c = CHR ''/''"
  by (subst ascii_lower_eq_nonletter) (auto simp: ascii_lower_def)

lemma lower_punct [simp]:
  "ascii_lower CHR ''.'' = CHR ''.''" "ascii_lower CHR ''@'' = CHR ''@''"
  "ascii_lower CHR ''/'' = CHR ''/''"
  by simp_all

text \<open>The two shapes of a host constraint, on lower-case strings.\<close>

definition strictly_under :: "string \<Rightarrow> string \<Rightarrow> bool" where
  "strictly_under h c \<longleftrightarrow> (\<exists>p. p \<noteq> [] \<and> lower h = p @ lower c)"

lemma dotted_label_iff:
  "length h > length c + 1 \<and> h ! (length h - length c - 1) = CHR ''.'' \<and>
     eq_ignore_ascii_case (drop (length h - length c) h) c \<longleftrightarrow>
   strictly_under h (CHR ''.'' # c)" (is "?l \<longleftrightarrow> ?r")
proof -
  let ?k = "length h - length (CHR ''.'' # c)"
  have split: "drop ?k h = h ! ?k # drop (length h - length c) h" if "length h > length c + 1"
    using that Cons_nth_drop_Suc [of ?k h] by (simp add: Suc_diff_Suc)
  have "strictly_under h (CHR ''.'' # c) \<longleftrightarrow>
      length h > length c + 1 \<and> eq_ignore_ascii_case (drop ?k h) (CHR ''.'' # c)"
  proof (cases "length h > length c + 1")
    case True
    then show ?thesis using ci_suffix_iff [of "CHR ''.'' # c" h] by (simp add: strictly_under_def)
  next
    case False
    then show ?thesis
      using lower_append_length [of _ h "CHR ''.'' # c"] by (auto simp: strictly_under_def)
  qed
  also have "\<dots> \<longleftrightarrow> ?l"
    by (cases "length h > length c + 1") (simp_all add: split [simplified] eq_ignore_ascii_case_def)
  finally show ?thesis by simp
qed

lemma matches_dns_name_iff:
  "matches_dns_name s c \<longleftrightarrow>
     c \<noteq> [] \<and>
     (if hd c = CHR ''.'' then strictly_under s c
      else lower s = lower c \<or> strictly_under s (CHR ''.'' # c))"
proof (cases c)
  case (Cons x xs)
  show ?thesis
  proof (cases "x = CHR ''.''")
    case True
    then show ?thesis
      by (simp add: Cons matches_dns_name_def strip_dot under_dot_suffix_iff strictly_under_def)
  next
    case False
    then show ?thesis using dotted_label_iff [of c s]
      by (simp add: Cons matches_dns_name_def strip_dot eq_ignore_ascii_case_def)
  qed
qed (simp add: matches_dns_name_def)

lemma strictly_under_trans: "strictly_under h c \<Longrightarrow> strictly_under c d \<Longrightarrow> strictly_under h d"
  unfolding strictly_under_def by (metis append.assoc append_is_Nil_conv)

lemma strictly_under_lower: "lower h = lower h' \<Longrightarrow> strictly_under h c = strictly_under h' c"
  by (simp add: strictly_under_def)

lemma strictly_under_weaken: "strictly_under h (CHR ''.'' # c) \<Longrightarrow> strictly_under h c"
proof -
  assume "strictly_under h (CHR ''.'' # c)"
  then obtain p where "lower h = (p @ ''.'') @ lower c" by (auto simp: strictly_under_def)
  then show ?thesis unfolding strictly_under_def by blast
qed

lemma strictly_under_dot_trans:
  "strictly_under h (CHR ''.'' # c) \<Longrightarrow> strictly_under c d \<Longrightarrow> strictly_under h d"
  by (blast intro: strictly_under_weaken strictly_under_trans)

lemma matches_dns_name_trans:
  assumes "matches_dns_name n c" and "matches_dns_name c d"
  shows "matches_dns_name n d"
proof (cases "hd d = CHR ''.''")
  case True
  with assms(2) have c: "d \<noteq> []" "strictly_under c d" by (simp_all add: matches_dns_name_iff)
  with assms(1) have "strictly_under n d"
    by (auto simp: matches_dns_name_iff strictly_under_lower [of n c] split: if_splits
        intro: strictly_under_trans strictly_under_dot_trans)
  with True c show ?thesis by (simp add: matches_dns_name_iff)
next
  case False
  with assms(2) have d: "d \<noteq> []" and c: "lower c = lower d \<or> strictly_under c (CHR ''.'' # d)"
    by (simp_all add: matches_dns_name_iff)
  from assms(1) have n: "c \<noteq> []"
    "strictly_under n c \<or> lower n = lower c \<or> strictly_under n (CHR ''.'' # c)"
    "hd c = CHR ''.'' \<longrightarrow> strictly_under n c"
    "hd c \<noteq> CHR ''.'' \<longrightarrow> lower n = lower c \<or> strictly_under n (CHR ''.'' # c)"
    by (auto simp: matches_dns_name_iff split: if_splits)
  from c have "lower n = lower d \<or> strictly_under n (CHR ''.'' # d)"
  proof
    assume e: "lower c = lower d"
    then have "ascii_lower (hd c) = ascii_lower (hd d)" using n d by (metis hd_map)
    then have "hd c \<noteq> CHR ''.''" using False by (metis lower_dot)
    with n e show ?thesis by (auto simp: strictly_under_def)
  next
    assume "strictly_under c (CHR ''.'' # d)"
    with n show ?thesis
      by (auto simp: strictly_under_lower [of n c] intro: strictly_under_trans strictly_under_dot_trans)
  qed
  with d False show ?thesis by (simp add: matches_dns_name_iff)
qed

lemma lower_split_at:
  assumes "lower s = lower t"
  shows "map_option (\<lambda>(a, b). (lower a, lower b)) (split_once CHR ''@'' s) =
         map_option (\<lambda>(a, b). (lower a, lower b)) (split_once CHR ''@'' t)"
  using assms
proof (induction s arbitrary: t)
  case (Cons x xs)
  then obtain y ys where t: "t = y # ys" "ascii_lower x = ascii_lower y" "lower xs = lower ys"
    by (cases t) auto
  have "x = CHR ''@'' \<longleftrightarrow> y = CHR ''@''" using t(2) by (metis lower_at)
  with Cons.IH [OF t(3)] t show ?case
    by (cases "split_once CHR ''@'' xs"; cases "split_once CHR ''@'' ys") auto
qed simp

lemma matches_rfc822_name_iff:
  "matches_rfc822_name s c \<longleftrightarrow>
     (if CHR ''@'' \<in> set c then lower s = lower c
      else \<exists>l d. split_once CHR ''@'' s = Some (l, d) \<and>
        (if c \<noteq> [] \<and> hd c = CHR ''.'' then strictly_under d c else lower d = lower c))"
  by (cases c) (auto simp: matches_rfc822_name_def strip_dot under_dot_suffix_iff strictly_under_def
      eq_ignore_ascii_case_def split: option.splits)

lemma matches_rfc822_name_trans:
  assumes "matches_rfc822_name n c" and "matches_rfc822_name c d"
  shows "matches_rfc822_name n d"
proof -
  have at: "CHR ''@'' \<in> set c"
  proof (rule ccontr)
    assume a: "CHR ''@'' \<notin> set c"
    then have "split_once CHR ''@'' c = None" by (simp add: split_once_None)
    with assms(2) have "CHR ''@'' \<in> set d" "lower c = lower d"
      by (auto simp: matches_rfc822_name_iff split: if_splits)
    then have "CHR ''@'' \<in> ascii_lower ` set c" by (metis image_eqI image_set lower_at)
    with a show False by (metis imageE lower_at)
  qed
  with assms(1) have e: "lower n = lower c" by (simp add: matches_rfc822_name_iff)
  show ?thesis
  proof (cases "CHR ''@'' \<in> set d")
    case True
    with assms(2) e show ?thesis by (simp add: matches_rfc822_name_iff)
  next
    case False
    with assms(2) obtain l h where "split_once CHR ''@'' c = Some (l, h)"
      "if d \<noteq> [] \<and> hd d = CHR ''.'' then strictly_under h d else lower h = lower d"
      by (auto simp: matches_rfc822_name_iff)
    moreover from this lower_split_at [OF e] obtain l' h' where
      "split_once CHR ''@'' n = Some (l', h')" "lower h' = lower h" by auto
    ultimately show ?thesis using False
      by (auto simp: matches_rfc822_name_iff strictly_under_lower [of h' h] split: if_splits)
  qed
qed

lemma uri_host_no_slash: "uri_host u = Some h \<Longrightarrow> CHR ''/'' \<notin> set h"
  by (auto simp: uri_host_def Let_def uri_host_end_def split: option.splits dest: set_takeWhileD)

lemma find_str_mem: "find_str p s = Some i \<Longrightarrow> set p \<subseteq> set s"
proof (induction s arbitrary: i)
  case (Cons c cs)
  show ?case
  proof (cases "take (length p) (c # cs) = p")
    case True
    then show ?thesis by (metis set_take_subset)
  next
    case False
    with Cons obtain j where "find_str p cs = Some j" by auto
    with Cons.IH show ?thesis by auto
  qed
qed (auto split: if_splits)

text \<open>
  A URI is never a host constraint another URI satisfies: hosts contain no slash, and an absolute
  URI has one.
\<close>

lemma matches_uri_host_subset: "matches_uri_host h c \<Longrightarrow> CHR ''/'' \<in> set c \<Longrightarrow> CHR ''/'' \<in> set h"
proof -
  assume m: "matches_uri_host h c" and slash: "CHR ''/'' \<in> set c"
  from m have "lower h = lower c \<or> strictly_under h c"
    by (cases c) (auto simp: matches_uri_host_def strip_dot under_dot_suffix_iff strictly_under_def
        eq_ignore_ascii_case_def split: if_splits)
  then obtain p where "lower h = p @ lower c" by (auto simp: strictly_under_def)
  then have "set (lower c) \<subseteq> set (lower h)" by simp
  moreover have "CHR ''/'' \<in> set (lower c)" using slash by (auto intro: image_eqI [of _ _ "CHR ''/''"])
  ultimately have "CHR ''/'' \<in> ascii_lower ` set h" by auto
  then show ?thesis by (metis imageE lower_slash)
qed

lemma matches_uri_trans: "matches_uri n c \<Longrightarrow> matches_uri c d \<Longrightarrow> matches_uri n d"
proof -
  assume n: "matches_uri n c" and c: "matches_uri c d"
  from c obtain i where "find_str ''://'' c = Some i"
    by (auto simp: matches_uri_def uri_host_def split: option.splits)
  then have "CHR ''/'' \<in> set c" using find_str_mem by fastforce
  with n obtain h where "uri_host n = Some h" "CHR ''/'' \<in> set h"
    by (auto simp: matches_uri_def dest: matches_uri_host_subset split: option.splits)
  then show ?thesis using uri_host_no_slash by blast
qed

lemma matches_ip_address_length:
  "matches_ip_address s c \<Longrightarrow> (length c = 8 \<and> length s = 4) \<or> (length c = 32 \<and> length s = 16)"
  by (auto simp: matches_ip_address_def Let_def split: if_splits option.splits)

lemma matches_ip_address_trans:
  "matches_ip_address n c \<Longrightarrow> matches_ip_address c d \<Longrightarrow> matches_ip_address n d"
  by (auto dest!: matches_ip_address_length)

lemma dn_within_subtree_iff:
  "dn_within_subtree s c \<longleftrightarrow>
     length c \<le> length s \<and>
     (\<forall>i<length c. length (c ! i) = length (s ! i) \<and>
        (\<forall>x\<in>set (c ! i). \<exists>y\<in>set (s ! i). ava_match x y))"
proof (cases "length c \<le> length s")
  case True
  then have "zip c s = map (\<lambda>i. (c ! i, s ! i)) [0..<length c]"
    by (intro nth_equalityI) simp_all
  with True show ?thesis
    by (simp add: dn_within_subtree_def list_all_iff list_ex_iff atLeast0LessThan) blast
qed (simp add: dn_within_subtree_def)

lemma dn_within_subtree_trans:
  assumes "dn_within_subtree n c" and "dn_within_subtree c d"
  shows "dn_within_subtree n d"
proof -
  have "\<exists>z\<in>set (n ! i). ava_match x z" if "i < length d" "x \<in> set (d ! i)" for i x
  proof -
    from assms that obtain y where "y \<in> set (c ! i)" "ava_match x y"
      by (metis dn_within_subtree_iff)
    moreover from this assms that obtain z where "z \<in> set (n ! i)" "ava_match y z"
      by (metis dn_within_subtree_iff order_less_le_trans)
    ultimately show ?thesis by (blast intro: ava_cmp.eqv_trans)
  qed
  moreover have "length d \<le> length n" "i < length d \<Longrightarrow> length (d ! i) = length (n ! i)" for i
    using assms by (auto simp: dn_within_subtree_iff)
  ultimately show ?thesis by (simp add: dn_within_subtree_iff)
qed

lemma name_matches_base_trans:
  "name_matches_base n c \<Longrightarrow> name_matches_base c d \<Longrightarrow> name_matches_base n d"
  by (cases n; cases c; cases d)
    (auto intro: matches_dns_name_trans matches_rfc822_name_trans dn_within_subtree_trans
      matches_uri_trans matches_ip_address_trans)

section \<open>Constraint sets and their combination\<close>

text \<open>
  The interface of a name-matching relation: a subtree is given by its base, which is itself a
  name, matching is transitive through the base, and a name matches only subtrees of its own type.
\<close>

locale subtree_order =
  fixes within :: "'n \<Rightarrow> 's \<Rightarrow> bool"
    and root :: "'s \<Rightarrow> 'n"
    and same :: "'n \<Rightarrow> 'n \<Rightarrow> bool"
  assumes within_trans: "within n s \<Longrightarrow> within (root s) t \<Longrightarrow> within n t"
    and within_same: "within n s \<Longrightarrow> same n (root s)"
    and same_sym: "same a b \<Longrightarrow> same b a"
    and same_trans: "same a b \<Longrightarrow> same b c \<Longrightarrow> same a c"
begin

definition covers :: "'s set \<Rightarrow> 'n \<Rightarrow> bool" where
  "covers S n \<longleftrightarrow> (\<exists>s\<in>S. within n s)"

definition restricts :: "'s set \<Rightarrow> 'n \<Rightarrow> bool" where
  "restricts S n \<longleftrightarrow> (\<exists>s\<in>S. same (root s) n)"

definition permits :: "'s set \<Rightarrow> 'n \<Rightarrow> bool" where
  "permits S n \<longleftrightarrow> (restricts S n \<longrightarrow> covers S n)"

text \<open>The entries of either set an intersection may keep.\<close>

definition common :: "'s set \<Rightarrow> 's set \<Rightarrow> 's set" where
  "common C N =
     {x \<in> N. \<not> restricts C (root x) \<or> covers C (root x)} \<union>
     {x \<in> C. \<not> restricts N (root x) \<or> covers N (root x)}"

lemma covers_restricts: "covers S n \<Longrightarrow> restricts S n"
  unfolding covers_def restricts_def by (blast intro: within_same same_sym)

lemma covers_trans: "within n x \<Longrightarrow> covers S (root x) \<Longrightarrow> covers S n"
  unfolding covers_def by (blast intro: within_trans)

lemma restricts_cong: "within n x \<Longrightarrow> restricts S n = restricts S (root x)"
  unfolding restricts_def by (blast intro: within_same same_trans same_sym)

lemma permits_through: "within n x \<Longrightarrow> permits S (root x) \<Longrightarrow> permits S n"
  unfolding permits_def using covers_trans restricts_cong by blast

lemma permits_mem: "within n x \<Longrightarrow> x \<in> S \<Longrightarrow> permits S n"
  unfolding permits_def covers_def by blast

lemma common_sound:
  assumes "R \<subseteq> common C N" and "covers R n"
  shows "permits C n \<and> permits N n"
proof -
  from assms obtain x where x: "within n x" "x \<in> common C N" by (auto simp: covers_def)
  from x(2) consider "x \<in> N" "permits C (root x)" | "x \<in> C" "permits N (root x)"
    by (auto simp: common_def permits_def)
  then show ?thesis
    using x(1) by cases (blast intro: permits_mem permits_through)+
qed

text \<open>Leaving out an entry that mutually matches one already there loses no name.\<close>

lemma covers_redundant:
  "s \<in> S \<Longrightarrow> within (root e) s \<Longrightarrow> covers (insert e S) n = covers S n"
  by (auto simp: covers_def intro: within_trans)

lemma covers_empty [simp]: "\<not> covers {} n"
  by (simp add: covers_def)

lemma permits_unrestricted: "\<not> restricts S n \<Longrightarrow> permits S n"
  by (simp add: permits_def)

lemma covers_permits: "covers S n \<Longrightarrow> permits S n"
  by (simp add: permits_def)

lemma covers_Un: "covers (S \<union> T) n \<longleftrightarrow> covers S n \<or> covers T n"
  by (auto simp: covers_def)

end

lemma name_type_bit_match: "name_matches_base n c \<Longrightarrow> same_nc_variant n c"
  by (cases n; cases c)
    (auto simp: same_nc_variant_def NC_EMPTY_def NC_DNS_def NC_RFC822_def NC_DIRECTORY_NAME_def
      NC_URI_def NC_IP_ADDRESS_def)

interpretation nc: subtree_order name_matches_subtree base same_nc_variant
  by unfold_locales
    (auto simp: name_matches_subtree_def same_nc_variant_def
      intro: name_matches_base_trans dest: name_type_bit_match [unfolded same_nc_variant_def])

section \<open>The update refines the set-level operations\<close>

lemma restricts_same_type: "nc.restricts (set S) (base x) \<longleftrightarrow> same_type_in S x \<noteq> []"
  by (auto simp: nc.restricts_def same_type_in_def filter_empty_conv)

lemma covers_same_type:
  "list_ex (\<lambda>c. name_matches_subtree (base x) c) (same_type_in S x) \<longleftrightarrow> nc.covers (set S) (base x)"
  by (auto simp: nc.covers_def same_type_in_def list_ex_iff dest: nc.within_same nc.same_sym)

lemma push_current_subset:
  "set (push_current N c R) \<subseteq> set R \<union>
     (if \<not> nc.restricts (set N) (base c) \<or> nc.covers (set N) (base c) then {c} else {})"
  by (auto simp: push_current_def restricts_same_type covers_same_type)

lemma fold_push_current_subset:
  "set (fold (push_current N) cs R) \<subseteq> set R \<union>
     {c \<in> set cs. \<not> nc.restricts (set N) (base c) \<or> nc.covers (set N) (base c)}"
proof (induction cs arbitrary: R)
  case (Cons c cs)
  show ?case using Cons.IH [of "push_current N c R"] push_current_subset [of N c R]
    by (auto split: if_splits)
qed simp

lemma intersect_permitted_common:
  "set (intersect_permitted C N) \<subseteq> nc.common (set C) (set N)"
proof -
  have "set (filter (keep_new C) N) \<subseteq> nc.common (set C) (set N)"
    by (auto simp: keep_new_def nc.common_def restricts_same_type covers_same_type)
  moreover have "{c \<in> set C. \<not> nc.restricts (set N) (base c) \<or> nc.covers (set N) (base c)}
      \<subseteq> nc.common (set C) (set N)"
    by (auto simp: nc.common_def)
  ultimately show ?thesis
    using fold_push_current_subset [of N C "filter (keep_new C) N"]
    unfolding intersect_permitted_def by blast
qed

lemma union_excluded_covers:
  "nc.covers (set (union_excluded E N)) n \<longleftrightarrow> nc.covers (set E) n \<or> nc.covers (set N) n"
proof -
  have "nc.covers (set (fold (\<lambda>e acc. if list_ex (\<lambda>x. same_subtree x e) acc then acc else acc @ [e]) N E)) n
      \<longleftrightarrow> nc.covers (set E \<union> set N) n"
  proof (induction N arbitrary: E)
    case (Cons e N)
    show ?case
    proof (cases "list_ex (\<lambda>x. same_subtree x e) E")
      case True
      then obtain x where "x \<in> set E \<union> set N" "name_matches_subtree (base e) x"
        by (auto simp: list_ex_iff same_subtree_def)
      then have "nc.covers (insert e (set E \<union> set N)) n = nc.covers (set E \<union> set N) n"
        by (rule nc.covers_redundant)
      with True Cons.IH show ?thesis by simp
    next
      case False
      with Cons.IH [of "E @ [e]"] show ?thesis by simp
    qed
  qed simp
  then show ?thesis by (simp add: union_excluded_def nc.covers_Un)
qed

section \<open>The state along a chain\<close>

definition excluded_by :: "name_constraints \<Rightarrow> general_name \<Rightarrow> bool" where
  "excluded_by c n = nc.covers (set (unwrap_or [] (excluded_subtrees c))) n"

definition permitted_by :: "name_constraints \<Rightarrow> general_name \<Rightarrow> bool" where
  "permitted_by c n = nc.permits (set (unwrap_or [] (permitted_subtrees c))) n"

lemma nc_update_excluded:
  "nc_excluded (nc_update c st) =
     (case excluded_subtrees c of None \<Rightarrow> nc_excluded st
      | Some new \<Rightarrow> union_excluded (nc_excluded st) new)"
  by (auto simp: nc_update_def Let_def split: option.splits)

lemma nc_update_permitted:
  "nc_permitted (nc_update c st) =
     (case permitted_subtrees c of None \<Rightarrow> nc_permitted st
      | Some new \<Rightarrow> Some (case nc_permitted st of None \<Rightarrow> new
                         | Some current \<Rightarrow> intersect_permitted current new))"
  by (auto simp: nc_update_def Let_def split: option.splits)

lemma nc_update_types:
  "nc_constrained_types (nc_update c st) =
     or_type_bits (unwrap_or [] (permitted_subtrees c)) (nc_constrained_types st)"
  by (auto simp: nc_update_def Let_def or_type_bits_def split: option.splits)

lemma nc_excluded_update_covers:
  "nc.covers (set (nc_excluded (nc_update c st))) n \<longleftrightarrow>
     nc.covers (set (nc_excluded st)) n \<or> excluded_by c n"
  by (simp add: nc_update_excluded excluded_by_def union_excluded_covers split: option.splits)

lemma nc_excluded_fold:
  "nc.covers (set (nc_excluded (fold nc_update cs st))) n \<longleftrightarrow>
     nc.covers (set (nc_excluded st)) n \<or> (\<exists>c\<in>set cs. excluded_by c n)"
  by (induction cs arbitrary: st) (auto simp: nc_excluded_update_covers)

text \<open>The permitted list of a state, empty when no CA has constrained anything yet.\<close>

definition permitted_list :: "nc_state \<Rightarrow> general_subtree list" where
  "permitted_list st = unwrap_or [] (nc_permitted st)"

lemma type_bits_disjoint:
  "intersects (name_type_bit a) (name_type_bit b) \<longleftrightarrow> same_nc_variant a b"
  by (cases a; cases b)
    (auto simp: intersects_def same_nc_variant_def NC_EMPTY_def NC_DNS_def NC_RFC822_def
      NC_DIRECTORY_NAME_def NC_URI_def NC_IP_ADDRESS_def)

lemma intersects_or: "intersects (a OR b) c \<longleftrightarrow> intersects a c \<or> intersects b c"
  by (auto simp: intersects_def bit.conj_disj_distrib2 or_eq_0_iff)

lemma or_type_bits_intersects:
  "intersects (or_type_bits es bits) (name_type_bit n) \<longleftrightarrow>
     intersects bits (name_type_bit n) \<or> nc.restricts (set es) n"
  unfolding or_type_bits_def nc.restricts_def
  by (induction es arbitrary: bits) (auto simp: intersects_or type_bits_disjoint)

lemma nc_types_update:
  "intersects (nc_constrained_types (nc_update c st)) (name_type_bit n) \<longleftrightarrow>
     intersects (nc_constrained_types st) (name_type_bit n) \<or>
     nc.restricts (set (unwrap_or [] (permitted_subtrees c))) n"
  by (simp add: nc_update_types or_type_bits_intersects)

text \<open>Every entry of the permitted list has its type recorded in the mask.\<close>

definition types_recorded :: "nc_state \<Rightarrow> general_name \<Rightarrow> bool" where
  "types_recorded st n \<longleftrightarrow>
     (nc.restricts (set (permitted_list st)) n \<longrightarrow>
      intersects (nc_constrained_types st) (name_type_bit n))"

text \<open>The name's type has a permitted entry whenever it is constrained.\<close>

definition not_emptied :: "nc_state \<Rightarrow> general_name \<Rightarrow> bool" where
  "not_emptied st n \<longleftrightarrow>
     (intersects (nc_constrained_types st) (name_type_bit n) \<longrightarrow>
      nc.restricts (set (permitted_list st)) n)"

lemma permitted_list_update:
  "permitted_list (nc_update c st) =
     (case permitted_subtrees c of None \<Rightarrow> permitted_list st
      | Some new \<Rightarrow> (case nc_permitted st of None \<Rightarrow> new
                    | Some current \<Rightarrow> intersect_permitted current new))"
  by (simp add: permitted_list_def nc_update_permitted split: option.splits)

lemma nc_init_recorded: "types_recorded (nc_init a) n"
  by (auto simp: types_recorded_def nc_init_def permitted_list_def Let_def or_type_bits_intersects
      nc.restricts_def split: option.splits)

lemma nc_update_permits:
  assumes "nc.covers (set (permitted_list (nc_update c st))) n"
  shows "permitted_by c n \<and> nc.permits (set (permitted_list st)) n"
proof (cases "permitted_subtrees c")
  case None
  with assms show ?thesis
    by (auto simp: permitted_by_def permitted_list_update nc.covers_permits nc.permits_def
        nc.restricts_def)
next
  case (Some new)
  show ?thesis
  proof (cases "nc_permitted st")
    case None
    with Some assms show ?thesis
      by (auto simp: permitted_by_def nc_update_permitted permitted_list_def nc.permits_def
          nc.restricts_def)
  next
    case current: (Some current)
    from nc.common_sound [OF intersect_permitted_common] current Some assms show ?thesis
      by (auto simp: permitted_by_def nc_update_permitted permitted_list_def)
  qed
qed

lemma nc_types_fold:
  "intersects (nc_constrained_types (fold nc_update cs st)) (name_type_bit n) \<longleftrightarrow>
     intersects (nc_constrained_types st) (name_type_bit n) \<or>
     (\<exists>c\<in>set cs. nc.restricts (set (unwrap_or [] (permitted_subtrees c))) n)"
  by (induction cs arbitrary: st) (auto simp: nc_types_update)

lemma nc_permitted_fold:
  assumes "types_recorded st n"
    and "\<forall>k\<le>length cs. not_emptied (fold nc_update (take k cs) st) n"
    and "nc.covers (set (permitted_list (fold nc_update cs st))) n"
  shows "nc.permits (set (permitted_list st)) n \<and> (\<forall>c\<in>set cs. permitted_by c n)"
  using assms(2,3)
proof (induction cs rule: rev_induct)
  case Nil
  then show ?case by (simp add: nc.covers_permits)
next
  case (snoc c cs)
  let ?st = "fold nc_update cs st"
  from snoc.prems(2) have step: "permitted_by c n" "nc.permits (set (permitted_list ?st)) n"
    using nc_update_permits [of c ?st n] by auto
  have live: "not_emptied (fold nc_update (take k cs) st) n" if "k \<le> length cs" for k
    using snoc.prems(1) that by (auto dest: spec [of _ k])
  show ?case
  proof (cases "nc.restricts (set (permitted_list ?st)) n")
    case True
    with step(2) have "nc.covers (set (permitted_list ?st)) n" by (simp add: nc.permits_def)
    with snoc.IH live step(1) show ?thesis by auto
  next
    case False
    with live [of "length cs"] have "\<not> intersects (nc_constrained_types ?st) (name_type_bit n)"
      by (simp add: not_emptied_def)
    then have "\<not> intersects (nc_constrained_types st) (name_type_bit n)"
      "\<forall>c\<in>set cs. permitted_by c n"
      by (auto simp: nc_types_fold permitted_by_def nc.permits_unrestricted)
    with assms(1) step(1) show ?thesis by (auto simp: types_recorded_def nc.permits_unrestricted)
  qed
qed

section \<open>What the check decides\<close>

text \<open>The names of a certificate that constraints apply to.\<close>

definition email_name :: "'x x509_codec_scheme \<Rightarrow> ava \<Rightarrow> general_name list" where
  "email_name cd a =
     (if ava_oid a = OID_EMAIL_ADDRESS
      then (case dec_ia5_any cd (ava_value a) of Inl _ \<Rightarrow> [] | Inr email \<Rightarrow> [Rfc822Name email])
      else [])"

definition email_names :: "'x x509_codec_scheme \<Rightarrow> dname \<Rightarrow> general_name list" where
  "email_names cd subj = concat (map (email_name cd) (concat subj))"

definition constrained_names ::
  "'x x509_codec_scheme \<Rightarrow> certificate \<Rightarrow> general_name list option \<Rightarrow> general_name list" where
  "constrained_names cd cert san =
     (let subj = subject (tbs cert) in
      (if subj = [] then [] else [DirectoryName subj]) @ unwrap_or [] san @ email_names cd subj)"

definition nc_admits :: "nc_state \<Rightarrow> general_name \<Rightarrow> bool" where
  "nc_admits st n \<longleftrightarrow>
     \<not> nc.covers (set (nc_excluded st)) n \<and>
     (intersects (nc_constrained_types st) (name_type_bit n) \<longrightarrow>
      nc.covers (set (permitted_list st)) n)"

text \<open>Reachable states record no type before some CA gave a permitted list.\<close>

definition mask_ok :: "nc_state \<Rightarrow> bool" where
  "mask_ok st \<longleftrightarrow> (nc_permitted st = None \<longrightarrow> nc_constrained_types st = 0)"

lemma mask_ok_init: "mask_ok (nc_init a)"
  by (auto simp: mask_ok_def nc_init_def Let_def NC_EMPTY_def split: option.splits)

lemma mask_ok_update: "mask_ok st \<Longrightarrow> mask_ok (nc_update c st)"
  by (auto simp: mask_ok_def nc_update_permitted nc_update_types or_type_bits_def split: option.splits)

lemma mask_ok_fold: "mask_ok st \<Longrightarrow> mask_ok (fold nc_update cs st)"
  by (induction cs arbitrary: st) (auto intro: mask_ok_update)

lemma intersects_0 [simp]: "\<not> intersects 0 b"
  by (simp add: intersects_def)

lemma dn_matches_base_iff: "dn_matches_base subj b = name_matches_base (DirectoryName subj) b"
  by (cases b) auto

lemma email_matches_base_iff: "email_matches_base e b = name_matches_base (Rfc822Name e) b"
  by (cases b) auto

lemma covers_list_ex: "list_ex (\<lambda>s. name_matches_base n (base s)) S \<longleftrightarrow> nc.covers (set S) n"
  by (simp add: nc.covers_def list_ex_iff name_matches_subtree_def)

lemma covers_list_ex': "list_ex (name_matches_subtree n) S \<longleftrightarrow> nc.covers (set S) n"
  by (simp add: nc.covers_def list_ex_iff)

lemma check_subject_dn_Ok [check_simps]:
  "check_subject_dn_against_subtrees subj e S m ty i = Inr u \<longleftrightarrow>
     e \<or> (case m of
            Excluded \<Rightarrow> \<not> nc.covers (set S) (DirectoryName subj)
          | Permitted \<Rightarrow> intersects ty NC_DIRECTORY_NAME \<longrightarrow> nc.covers (set S) (DirectoryName subj))"
  by (auto simp: check_subject_dn_against_subtrees_def Let_def dn_matches_base_iff covers_list_ex
      split: check_mode.splits)

lemma check_san_Ok [check_simps]:
  "check_san_against_subtrees san S m ty i = Inr u \<longleftrightarrow>
     (\<forall>n\<in>set (unwrap_or [] san). case m of
        Excluded \<Rightarrow> \<not> nc.covers (set S) n
      | Permitted \<Rightarrow> intersects ty (name_type_bit n) \<longrightarrow> nc.covers (set S) n)"
  by (auto simp: check_san_against_subtrees_def try_all_Ok_iff covers_list_ex'
      split: option.splits check_mode.splits if_splits)

lemma covers_filter_rfc822:
  "nc.covers (set (filter (\<lambda>s. is_rfc822 (base s)) S)) (Rfc822Name e) = nc.covers (set S) (Rfc822Name e)"
proof -
  have "is_rfc822 (base s)" if "name_matches_subtree (Rfc822Name e) s" for s
    using that by (cases "base s") (auto simp: name_matches_subtree_def)
  then show ?thesis by (auto simp: nc.covers_def)
qed

lemma check_email_ava_Ok [check_simps]:
  "check_email_ava cd pr ex i a = Inr u \<longleftrightarrow>
     (\<forall>n\<in>set (email_name cd a).
        \<not> nc.covers (set ex) n \<and> (case pr of None \<Rightarrow> True | Some p \<Rightarrow> nc.covers (set p) n))"
  by (cases "ava_oid a = OID_EMAIL_ADDRESS"; cases "dec_ia5_any cd (ava_value a)"; cases pr)
    (simp_all add: check_email_ava_def email_name_def email_matches_base_iff covers_list_ex)

lemma email_name_rfc822: "n \<in> set (email_name cd a) \<Longrightarrow> \<exists>e. n = Rfc822Name e"
  by (cases "ava_oid a = OID_EMAIL_ADDRESS"; cases "dec_ia5_any cd (ava_value a)")
    (simp_all add: email_name_def)

lemma email_names_ball:
  "(\<forall>n\<in>set (email_names cd subj). P n) \<longleftrightarrow>
     (\<forall>rdn\<in>set subj. \<forall>a\<in>set rdn. \<forall>n\<in>set (email_name cd a). P n)"
  unfolding email_names_def set_concat set_map by blast

lemma email_names_rfc822: "n \<in> set (email_names cd subj) \<Longrightarrow> \<exists>e. n = Rfc822Name e"
  unfolding email_names_def set_concat set_map by (blast intro: email_name_rfc822)

lemma rfc822_covered_excluded:
  "nc.covers (set S) (Rfc822Name e) \<Longrightarrow> list_ex (\<lambda>s. is_rfc822 (base s)) S"
proof -
  assume "nc.covers (set S) (Rfc822Name e)"
  then obtain s where "s \<in> set S" "name_matches_base (Rfc822Name e) (base s)"
    by (auto simp: nc.covers_def name_matches_subtree_def)
  then show ?thesis by (cases "base s") (auto simp: list_ex_iff intro!: bexI [of _ s])
qed

lemma check_emails_Ok:
  "try_all (\<lambda>rdn. try_all (check_email_ava cd pr ex i) rdn) subj = Inr u \<longleftrightarrow>
     (\<forall>n\<in>set (email_names cd subj).
        \<not> nc.covers (set ex) n \<and> (case pr of None \<Rightarrow> True | Some p \<Rightarrow> nc.covers (set p) n))"
  unfolding email_names_ball by (simp add: try_all_Ok_iff check_email_ava_Ok)

lemma email_admits:
  assumes "n \<in> set (email_names cd subj)"
  shows "nc_admits st n \<longleftrightarrow>
      \<not> nc.covers (set (nc_excluded st)) n \<and>
      (intersects (nc_constrained_types st) NC_RFC822 \<longrightarrow>
       nc.covers (set (filter (\<lambda>s. is_rfc822 (base s)) (permitted_list st))) n)"
proof -
  from email_names_rfc822 [OF assms] obtain e where "n = Rfc822Name e" by blast
  then show ?thesis by (simp only: nc_admits_def covers_filter_rfc822 name_type_bit.simps)
qed

lemma check_dn_emails_Ok:
  "check_dn_emails cd subj st i = Inr u \<longleftrightarrow> (\<forall>n\<in>set (email_names cd subj). nc_admits st n)"
proof -
  have "\<not> nc.covers (set (nc_excluded st)) n"
    if "n \<in> set (email_names cd subj)" "\<not> list_ex (\<lambda>s. is_rfc822 (base s)) (nc_excluded st)" for n
    using email_names_rfc822 [OF that(1)] that(2) by (auto dest: rfc822_covered_excluded)
  moreover have "email_names cd [] = []" by (simp add: email_names_def)
  ultimately show ?thesis
    by (cases "intersects (nc_constrained_types st) NC_RFC822"; cases "subj = []")
      (auto simp: check_dn_emails_def Let_def check_emails_Ok email_admits permitted_list_def
        simp del: set_filter)
qed

lemma check_name_constraints_Ok:
  assumes "mask_ok st"
  shows "check_name_constraints cd cert san st i = Inr u \<longleftrightarrow>
     (\<forall>n\<in>set (constrained_names cd cert san). nc_admits st n)"
proof -
  have types: "nc_constrained_types st = 0" if "nc_permitted st = None"
    using assms that by (simp add: mask_ok_def)
  show ?thesis
    unfolding check_name_constraints_def Let_def
    by (cases "nc_permitted st")
      (auto simp: and_then_Ok_iff check_simps constrained_names_def Let_def types permitted_list_def
        check_dn_emails_Ok nc_admits_def)
qed

section \<open>Properties\<close>

text \<open>
  C22. Along any sequence of CA name constraints from a trust anchor, \<open>check_name_constraints\<close> accepts a
  certificate exactly when every name it carries (a non-empty subject, each subjectAltName entry,
  each decodable emailAddress of the subject) is outside all excluded subtrees and, when its type is
  constrained, inside some permitted subtree.
\<close>

theorem check_name_constraints_decides:
  "check_name_constraints cd cert san (fold nc_update cs (nc_init anchor)) i = Ok () \<longleftrightarrow>
     list_all (nc_admits (fold nc_update cs (nc_init anchor))) (constrained_names cd cert san)"
  by (simp add: check_name_constraints_Ok [OF mask_ok_fold [OF mask_ok_init]] list_all_iff)

text \<open>
  Exclusions accumulate: deduplication against entries already present never drops a forbidden
  name, so a name is excluded at the end of a path iff the trust anchor or some CA on it excludes it.
\<close>

theorem nc_excluded_exact:
  "nc.covers (set (nc_excluded (fold nc_update cs (nc_init anchor)))) n \<longleftrightarrow>
     nc.covers (set (nc_excluded (nc_init anchor))) n \<or> list_ex (\<lambda>c. excluded_by c n) cs"
  by (simp add: nc_excluded_fold list_ex_iff)

text \<open>
  As long as the intersection has never been emptied for the type of a name, a name inside the
  permitted subtrees computed for a path is permitted by the trust anchor and by every CA on it.
\<close>

theorem nc_permitted_sound:
  assumes "\<forall>k\<le>length cs. not_emptied (fold nc_update (take k cs) (nc_init anchor)) n"
    and "nc.covers (set (permitted_list (fold nc_update cs (nc_init anchor)))) n"
    and "c \<in> set cs"
  shows "permitted_by c n \<and> nc.permits (set (permitted_list (nc_init anchor))) n"
  using nc_permitted_fold [OF nc_init_recorded assms(1,2)] assms(3) by blast

lemma covers_code: "nc.covers (set S) n = list_ex (name_matches_subtree n) S"
  by (simp add: covers_list_ex')

lemma not_emptied_code:
  "not_emptied st n =
     (intersects (nc_constrained_types st) (name_type_bit n) \<longrightarrow>
      list_ex (\<lambda>s. same_nc_variant (base s) n) (permitted_list st))"
  by (simp add: not_emptied_def nc.restricts_def list_ex_iff)

lemma all_le_Suc: "(\<forall>k\<le>Suc n. P k) \<longleftrightarrow> P (Suc n) \<and> (\<forall>k\<le>n. P k)"
  by (auto simp: le_Suc_eq)

theorem nc_permitted_sound_witness:
  "permitted_by (ex_permit [DnsName ''com'']) (DnsName ''x.a.com'') \<and>
   nc.permits (set (permitted_list (nc_init (ex_anchor 1)))) (DnsName ''x.a.com'')"
proof (rule nc_permitted_sound)
  let ?cs = "[ex_permit [DnsName ''com''], ex_permit [DnsName ''a.com'']]"
  let ?st = "\<lambda>k. fold nc_update (take k ?cs) (nc_init (ex_anchor 1))"
  have "not_emptied (?st 0) (DnsName ''x.a.com'')" "not_emptied (?st 1) (DnsName ''x.a.com'')"
    "not_emptied (?st 2) (DnsName ''x.a.com'')"
    unfolding not_emptied_code by code_simp+
  then show "\<forall>k\<le>length ?cs. not_emptied (?st k) (DnsName ''x.a.com'')"
    by (simp add: all_le_Suc numeral_2_eq_2)
  show "nc.covers (set (permitted_list (fold nc_update ?cs (nc_init (ex_anchor 1))))) (DnsName ''x.a.com'')"
    unfolding covers_code by code_simp
  show "ex_permit [DnsName ''com''] \<in> set ?cs" by simp
qed

text \<open>
  When two CAs leave no common subtree of a type, a third CA can bring the type back: its entries
  of the emptied type are adopted as if the type had never been constrained. Here the first CA
  permits only a.com, the second and the third b.com; the names of b.com are refused after two steps
  and admitted after three, although the first CA does not permit them.
\<close>

lemma nc_emptied_type_readopted:
  "let cs = [ex_permit [DnsName ''a.com''], ex_permit [DnsName ''b.com''], ex_permit [DnsName ''b.com'']];
       st = (\<lambda>k. fold nc_update (take k cs) (nc_init (ex_anchor 1)));
       n = DnsName ''b.com''
   in \<not> nc_admits (st 2) n \<and> nc_admits (st 3) n \<and> \<not> permitted_by (cs ! 0) n"
proof -
  let ?cs = "[ex_permit [DnsName ''a.com''], ex_permit [DnsName ''b.com''], ex_permit [DnsName ''b.com'']]"
  have "\<not> nc_admits (fold nc_update (take 2 ?cs) (nc_init (ex_anchor 1))) (DnsName ''b.com'')"
    "nc_admits (fold nc_update (take 3 ?cs) (nc_init (ex_anchor 1))) (DnsName ''b.com'')"
    unfolding nc_admits_def covers_code by code_simp+
  moreover have "\<not> permitted_by (?cs ! 0) (DnsName ''b.com'')"
    unfolding permitted_by_def nc.permits_def covers_code nc.restricts_def list_ex_iff [symmetric]
    by code_simp
  ultimately show ?thesis by (simp add: Let_def)
qed

text \<open>A subtree that is not within itself leaves nothing when two CAs both permit it.\<close>

lemma intersect_self_empty:
  "\<not> name_matches_base b b \<Longrightarrow> name_type_bit b \<noteq> NC_EMPTY \<Longrightarrow> base s = b \<Longrightarrow>
     intersect_permitted [s] [s] = []"
  by (simp add: intersect_permitted_def keep_new_def push_current_def same_type_in_def
      same_nc_variant_def name_matches_subtree_def)

lemma uri_not_within_itself: "\<not> matches_uri u u"
proof
  assume m: "matches_uri u u"
  then obtain i where "find_str ''://'' u = Some i"
    by (auto simp: matches_uri_def uri_host_def split: option.splits)
  then have "CHR ''/'' \<in> set u" using find_str_mem by fastforce
  with m show False
    by (auto simp: matches_uri_def dest: matches_uri_host_subset uri_host_no_slash split: option.splits)
qed

lemma dotted_not_within_itself: "\<not> matches_dns_name (CHR ''.'' # d) (CHR ''.'' # d)"
  by (auto simp: matches_dns_name_iff strictly_under_def dest: lower_append_length)

text \<open>
  The intersection of permitted subtrees compares the base of one subtree with the rule for a
  name. No iPAddress subtree (address and mask), no URI host and no dNSName with a leading dot is
  within itself by that rule, so two CAs that permit the same such subtree leave nothing of it.
\<close>

theorem identical_permitted_subtrees_vanish:
  "intersect_permitted [ex_subtree (IpAddress a)] [ex_subtree (IpAddress a)] = [] \<and>
   intersect_permitted [ex_subtree (UniformResourceIdentifier u)]
     [ex_subtree (UniformResourceIdentifier u)] = [] \<and>
   intersect_permitted [ex_subtree (DnsName (CHR ''.'' # d))]
     [ex_subtree (DnsName (CHR ''.'' # d))] = []"
proof (intro conjI)
  have "\<not> matches_ip_address a a" by (auto dest: matches_ip_address_length)
  then show "intersect_permitted [ex_subtree (IpAddress a)] [ex_subtree (IpAddress a)] = []"
    by (intro intersect_self_empty [where b = "IpAddress a"])
      (auto simp: NC_EMPTY_def NC_IP_ADDRESS_def ex_subtree_def)
  show "intersect_permitted [ex_subtree (UniformResourceIdentifier u)]
      [ex_subtree (UniformResourceIdentifier u)] = []"
    by (intro intersect_self_empty [where b = "UniformResourceIdentifier u"])
      (auto simp: NC_EMPTY_def NC_URI_def ex_subtree_def uri_not_within_itself)
  show "intersect_permitted [ex_subtree (DnsName (CHR ''.'' # d))]
      [ex_subtree (DnsName (CHR ''.'' # d))] = []"
    by (intro intersect_self_empty [where b = "DnsName (CHR ''.'' # d)"])
      (auto simp: NC_EMPTY_def NC_DNS_def ex_subtree_def dotted_not_within_itself)
qed

text \<open>
  The host of a URI is cut at the first commercial-at sign of the whole remainder, before the
  path is removed: a URI whose authority is evil.com satisfies a constraint to good.com when its path
  contains the sign.
\<close>

theorem uri_userinfo_confusion:
  "uri_host ''https://evil.com/@good.com'' = Some ''good.com'' \<and>
   matches_uri ''https://evil.com/@good.com'' ''good.com'' \<and>
   \<not> matches_uri ''https://evil.com/'' ''good.com''"
  by (intro conjI; code_simp)

text \<open>
  A dNSName constraint with a leading dot is met exactly by proper extensions of it; without the
  dot by the name itself and by everything that ends in a dot and the name. Case is ignored, and the
  empty constraint matches nothing.
\<close>

theorem matches_dns_name_characterised:
  "matches_dns_name s c \<longleftrightarrow>
     c \<noteq> [] \<and>
     (if hd c = CHR ''.'' then \<exists>p. p \<noteq> [] \<and> lower s = p @ lower c
      else lower s = lower c \<or> (\<exists>p. p \<noteq> [] \<and> lower s = p @ ''.'' @ lower c))"
  by (simp add: matches_dns_name_iff strictly_under_def)

end
