(* ===== verification/PolicyTree.thy ===== *)
theory PolicyTree
  imports Fixtures
begin

text \<open>
  The valid policy tree of \<open>pkix-path/src/lib.rs\<close>, a flat list of nodes with depths: its
  initialisation, the processing of certificatePolicies (RFC 5280 section 6.1.3(d)), of
  policyMappings (6.1.4(a) and (b)) and the final intersection with the caller's policy set
  (6.1.5(g)), each followed by the pruning of childless nodes. The lemmas characterise what pruning
  keeps, where the policies of new nodes come from, and what the intersection guarantees.
\<close>

section \<open>Initialisation and pruning\<close>

definition cert_any_policy_qualifiers :: "certificate_policies \<Rightarrow> policy_qualifier_info list" where
  "cert_any_policy_qualifiers cp =
     (case find (\<lambda>pi. policy_identifier pi = OID_ANY_POLICY) cp of
        None \<Rightarrow> []
      | Some pi \<Rightarrow> unwrap_or [] (policy_qualifiers_field pi))"

definition init_policy_tree :: "policy_node list" where
  "init_policy_tree =
     [\<lparr> node_depth = 0, valid_policy = OID_ANY_POLICY, expected_policy_set = [OID_ANY_POLICY],
        qualifiers = [] \<rparr>]"

text \<open>One pass of the loop: delete the nodes of depth \<open>d - 1\<close> without a child of depth \<open>d\<close>.\<close>

definition prune_level :: "nat \<Rightarrow> policy_node list \<Rightarrow> policy_node list" where
  "prune_level d tree =
     (let child_policies = map valid_policy (filter (\<lambda>n. node_depth n = d) tree)
      in filter (\<lambda>n. node_depth n \<noteq> d - 1 \<or>
           list_ex (\<lambda>cp. cp \<in> set (expected_policy_set n)) child_policies) tree)"

text \<open>The loop over \<open>d\<close>, which stops when the depth to prune is 0.\<close>

fun prune_policy_tree :: "policy_node list \<Rightarrow> nat \<Rightarrow> policy_node list" where
  "prune_policy_tree tree 0 = tree"
| "prune_policy_tree tree (Suc d) =
     (if d = 0 then tree else prune_policy_tree (prune_level (Suc d) tree) d)"

definition policy_tree_post_op_prune :: "policy_node list \<Rightarrow> nat \<Rightarrow> policy_node list \<times> bool" where
  "policy_tree_post_op_prune tree prune_depth =
     (let tree = (if prune_depth > 0 then prune_policy_tree tree prune_depth else tree)
      in (tree, \<not> list_ex (\<lambda>nd. node_depth nd \<ge> 1) tree))"

text \<open>The three call sites: prune, and set the tree to NULL when nothing is left.\<close>

definition prune_or_null :: "policy_node list \<Rightarrow> nat \<Rightarrow> policy_node list option" where
  "prune_or_null tree prune_depth =
     (let (tree, is_null) = policy_tree_post_op_prune tree prune_depth
      in if is_null then None else Some tree)"

section \<open>certificatePolicies, RFC 5280 section 6.1.3(d)\<close>

definition policy_child :: "nat \<Rightarrow> oid \<Rightarrow> policy_qualifier_info list \<Rightarrow> policy_node" where
  "policy_child cert_depth p quals =
     \<lparr> node_depth = cert_depth, valid_policy = p, expected_policy_set = [p], qualifiers = quals \<rparr>"

text \<open>Step (d)(1) for one policy other than anyPolicy.\<close>

definition policy_info_nodes ::
  "policy_node list \<Rightarrow> nat \<Rightarrow> policy_information \<Rightarrow> policy_node list" where
  "policy_info_nodes tree cert_depth policy_info =
     (let p_oid = policy_identifier policy_info;
          quals = unwrap_or [] (policy_qualifiers_field policy_info);
          parents = filter (\<lambda>parent. node_depth parent = cert_depth - 1 \<and>
                                     p_oid \<in> set (expected_policy_set parent)) tree
      in if parents \<noteq> [] then map (\<lambda>_. policy_child cert_depth p_oid quals) parents
         else if list_ex (\<lambda>parent. node_depth parent = cert_depth - 1 \<and>
                                   valid_policy parent = OID_ANY_POLICY) tree
              then [policy_child cert_depth p_oid quals] else [])"

text \<open>Step (d)(2): expand anyPolicy over the expected policies of the parents.\<close>

definition expand_any_policy ::
  "policy_node list \<Rightarrow> nat \<Rightarrow> certificate_policies \<Rightarrow> policy_node list \<Rightarrow> policy_node list" where
  "expand_any_policy tree cert_depth cp new_nodes =
     (let quals = cert_any_policy_qualifiers cp;
          already_covered = map valid_policy new_nodes
      in concat (map (\<lambda>parent.
           map (\<lambda>ep. policy_child cert_depth ep quals)
             (filter (\<lambda>ep. ep \<notin> set already_covered) (expected_policy_set parent)))
           (filter (\<lambda>nd. node_depth nd = cert_depth - 1) tree)))"

definition new_policy_nodes ::
  "policy_node list \<Rightarrow> nat \<Rightarrow> certificate_policies \<Rightarrow> bool \<Rightarrow> policy_node list" where
  "new_policy_nodes tree cert_depth cp may_expand =
     (let specific = filter (\<lambda>pi. policy_identifier pi \<noteq> OID_ANY_POLICY) cp;
          has_any_policy = list_ex (\<lambda>pi. policy_identifier pi = OID_ANY_POLICY) cp;
          new_nodes = concat (map (policy_info_nodes tree cert_depth) specific)
      in new_nodes @
         (if has_any_policy \<and> may_expand
          then expand_any_policy tree cert_depth cp new_nodes else []))"

text \<open>The step as a whole; \<open>may_expand\<close> is the condition of (d)(2) on the counter and the issuer.\<close>

definition process_certificate_policies ::
  "policy_node list option \<Rightarrow> certificate_policies option \<Rightarrow> nat \<Rightarrow> bool \<Rightarrow> policy_node list option" where
  "process_certificate_policies policy_tree cert_cp cert_depth may_expand =
     (case policy_tree of
        None \<Rightarrow> None
      | Some tree \<Rightarrow>
          (case cert_cp of
             None \<Rightarrow> None
           | Some cp \<Rightarrow>
               prune_or_null (tree @ new_policy_nodes tree cert_depth cp may_expand) cert_depth))"

section \<open>policyMappings, RFC 5280 section 6.1.4(a) and (b)\<close>

definition mapping_has_any :: "policy_mapping \<Rightarrow> bool" where
  "mapping_has_any m =
     (issuer_domain_policy m = OID_ANY_POLICY \<or> subject_domain_policy m = OID_ANY_POLICY)"

definition map_node :: "oid \<Rightarrow> oid \<Rightarrow> policy_node \<Rightarrow> policy_node" where
  "map_node idp sdp node =
     (let kept = filter (\<lambda>p. p \<noteq> idp) (expected_policy_set node)
      in node\<lparr> expected_policy_set := (if sdp \<in> set kept then kept else kept @ [sdp]) \<rparr>)"

definition apply_mapping ::
  "nat \<Rightarrow> policy_qualifier_info list \<Rightarrow> policy_mapping \<Rightarrow> policy_node list \<Rightarrow> policy_node list" where
  "apply_mapping cert_depth any_policy_qualifiers m tree =
     (let idp = issuer_domain_policy m;
          sdp = subject_domain_policy m;
          hit = (\<lambda>node. node_depth node = cert_depth \<and> valid_policy node = idp)
      in if list_ex hit tree then map (\<lambda>node. if hit node then map_node idp sdp node else node) tree
         else if list_ex (\<lambda>nd. node_depth nd = cert_depth \<and> valid_policy nd = OID_ANY_POLICY) tree
         then tree @ [\<lparr> node_depth = cert_depth, valid_policy = idp, expected_policy_set = [sdp],
                        qualifiers = any_policy_qualifiers \<rparr>]
         else tree)"

definition delete_mapped ::
  "nat \<Rightarrow> policy_mappings \<Rightarrow> policy_node list \<Rightarrow> policy_node list" where
  "delete_mapped cert_depth pm tree =
     (let mapped_policies = map issuer_domain_policy pm;
          kept = filter (\<lambda>nd. node_depth nd \<noteq> cert_depth \<or> valid_policy nd \<notin> set mapped_policies) tree
      in fst (policy_tree_post_op_prune kept cert_depth))"

definition process_policy_mappings ::
  "policy_node list option \<Rightarrow> policy_mappings option \<Rightarrow> certificate_policies option \<Rightarrow> nat \<Rightarrow> u32
    \<Rightarrow> nat \<Rightarrow> policy_node list option path_result" where
  "process_policy_mappings policy_tree pm_ext cert_cp cert_depth policy_mapping_counter index =
     and_then (case pm_ext of
         None \<Rightarrow> Ok policy_tree
       | Some pm \<Rightarrow>
           if list_ex mapping_has_any pm then Err (PolicyViolation index)
           else Ok (map_option (\<lambda>tree.
             if policy_mapping_counter > 0
             then fold (apply_mapping cert_depth
                    (case cert_cp of None \<Rightarrow> [] | Some cp \<Rightarrow> cert_any_policy_qualifiers cp)) pm tree
             else delete_mapped cert_depth pm tree) policy_tree))
       (\<lambda>policy_tree.
     Ok (case policy_tree of None \<Rightarrow> None | Some tree \<Rightarrow> prune_or_null tree 0))"

section \<open>The final intersection, RFC 5280 section 6.1.5(g)\<close>

text \<open>The nodes of the valid policy node set that the caller's set does not allow.\<close>

definition vpns_to_delete :: "oid list \<Rightarrow> policy_node list \<Rightarrow> (nat \<times> oid) list" where
  "vpns_to_delete initial_set tree =
     map (\<lambda>nd. (node_depth nd, valid_policy nd))
       (filter (\<lambda>nd. node_depth nd \<ge> 1 \<and>
                 list_ex (\<lambda>p. node_depth p = node_depth nd - 1 \<and> valid_policy p = OID_ANY_POLICY) tree \<and>
                 valid_policy nd \<noteq> OID_ANY_POLICY \<and> valid_policy nd \<notin> set initial_set) tree)"

text \<open>One step of the downward cascade.\<close>

definition cascade_level :: "nat \<Rightarrow> policy_node list \<Rightarrow> policy_node list" where
  "cascade_level d tree =
     (let parents = filter (\<lambda>nd. node_depth nd = d - 1) tree;
          reachable = concat (map expected_policy_set parents);
          any_parent = list_ex (\<lambda>nd. valid_policy nd = OID_ANY_POLICY) parents
      in filter (\<lambda>nd. node_depth nd \<noteq> d \<or> valid_policy nd \<in> set reachable \<or> any_parent) tree)"

definition delete_vpns :: "oid list \<Rightarrow> nat \<Rightarrow> policy_node list \<Rightarrow> policy_node list" where
  "delete_vpns initial_set leaf_depth tree =
     (let dels = vpns_to_delete initial_set tree
      in if dels = [] then tree
         else fold cascade_level [2..<Suc leaf_depth]
                (filter (\<lambda>nd. (node_depth nd, valid_policy nd) \<notin> set dels) tree))"

definition materialise_initial :: "oid list \<Rightarrow> nat \<Rightarrow> policy_node list \<Rightarrow> policy_node list" where
  "materialise_initial initial_set leaf_depth tree =
     (let is_leaf_any = (\<lambda>nd. node_depth nd = leaf_depth \<and> valid_policy nd = OID_ANY_POLICY)
      in case find is_leaf_any tree of
           None \<Rightarrow> tree
         | Some leaf_any \<Rightarrow>
             (let leaf_policies = map valid_policy (filter (\<lambda>nd. node_depth nd = leaf_depth) tree);
                  additions = map (\<lambda>p. policy_child leaf_depth p (qualifiers leaf_any))
                    (filter (\<lambda>p. p \<notin> set leaf_policies) initial_set)
              in filter (\<lambda>nd. \<not> is_leaf_any nd) (tree @ additions)))"

definition intersect_initial_policies ::
  "oid list \<Rightarrow> nat \<Rightarrow> policy_node list option \<Rightarrow> policy_node list option" where
  "intersect_initial_policies initial_set leaf_depth policy_tree =
     (if initial_set = [] then policy_tree
      else case policy_tree of
        None \<Rightarrow> None
      | Some tree \<Rightarrow>
          prune_or_null (materialise_initial initial_set leaf_depth
            (delete_vpns initial_set leaf_depth tree)) leaf_depth)"

section \<open>What pruning keeps\<close>

text \<open>
  A node is supported when it is the root, is at least as deep as the certificate just processed, or
  has a supported child among the policies it expects.
\<close>

inductive supported :: "policy_node list \<Rightarrow> nat \<Rightarrow> policy_node \<Rightarrow> bool" for T D where
  root: "n \<in> set T \<Longrightarrow> node_depth n = 0 \<Longrightarrow> supported T D n"
| deep: "n \<in> set T \<Longrightarrow> D \<le> node_depth n \<Longrightarrow> supported T D n"
| step: "n \<in> set T \<Longrightarrow> m \<in> set T \<Longrightarrow> node_depth m = Suc (node_depth n) \<Longrightarrow>
    valid_policy m \<in> set (expected_policy_set n) \<Longrightarrow> supported T D m \<Longrightarrow> supported T D n"

lemma supported_mem: "supported T D n \<Longrightarrow> n \<in> set T"
  by (cases rule: supported.cases) auto

lemma mem_prune_level:
  "n \<in> set (prune_level d T) \<longleftrightarrow> n \<in> set T \<and>
     (node_depth n = d - 1 \<longrightarrow>
      (\<exists>m\<in>set T. node_depth m = d \<and> valid_policy m \<in> set (expected_policy_set n)))"
  by (auto simp: prune_level_def Let_def list_ex_iff)

lemma supported_prune_level:
  assumes "0 < d"
  shows "supported (prune_level (Suc d) T) d n \<longleftrightarrow> supported T (Suc d) n"
proof
  assume "supported (prune_level (Suc d) T) d n"
  then show "supported T (Suc d) n"
  proof (induction rule: supported.induct)
    case (root n)
    then show ?case by (auto simp: mem_prune_level intro: supported.root)
  next
    case (deep n)
    show ?case
    proof (cases "node_depth n = d")
      case True
      with deep obtain m where "m \<in> set T" "node_depth m = Suc d"
        "valid_policy m \<in> set (expected_policy_set n)" by (auto simp: mem_prune_level)
      moreover from this have "supported T (Suc d) m" by (auto intro: supported.deep)
      moreover have "n \<in> set T" using deep by (simp add: mem_prune_level)
      ultimately show ?thesis using True by (auto intro: supported.step)
    next
      case False
      with deep show ?thesis by (auto simp: mem_prune_level intro: supported.deep)
    qed
  next
    case (step n m)
    then show ?case by (auto simp: mem_prune_level intro: supported.step)
  qed
next
  assume "supported T (Suc d) n"
  then show "supported (prune_level (Suc d) T) d n"
  proof (induction rule: supported.induct)
    case (root n)
    with assms show ?case by (auto simp: mem_prune_level intro: supported.root)
  next
    case (deep n)
    then show ?case by (auto simp: mem_prune_level intro: supported.deep)
  next
    case (step n m)
    then have "n \<in> set (prune_level (Suc d) T)" by (auto simp: mem_prune_level)
    with step show ?case
      by (auto intro: supported.step dest: supported_mem)
  qed
qed

lemma supported_low: "D \<le> 1 \<Longrightarrow> supported T D n \<longleftrightarrow> n \<in> set T"
  by (cases "node_depth n") (auto intro: supported.root supported.deep dest: supported_mem)

lemma set_prune_policy_tree: "set (prune_policy_tree T D) = {n. supported T D n}"
proof (induction T D rule: prune_policy_tree.induct)
  case (1 T)
  show ?case by (auto simp: supported_low)
next
  case (2 T d)
  then show ?case by (cases "d = 0") (auto simp: supported_low supported_prune_level)
qed

lemma set_post_op_prune:
  "set (fst (policy_tree_post_op_prune T d)) = {n. supported T d n}"
  by (auto simp: policy_tree_post_op_prune_def Let_def set_prune_policy_tree supported_low)

lemma prune_or_null_Some:
  "prune_or_null T d = Some T' \<Longrightarrow>
     set T' = {n. supported T d n} \<and> (\<exists>n\<in>set T'. 1 \<le> node_depth n)"
  by (auto simp: prune_or_null_def policy_tree_post_op_prune_def Let_def set_prune_policy_tree
      supported_low list_ex_iff split: if_splits)

lemma prune_or_null_mem: "prune_or_null T d = Some T' \<Longrightarrow> n \<in> set T' \<Longrightarrow> n \<in> set T"
  by (auto dest: prune_or_null_Some supported_mem)

lemma prune_or_null_None:
  "prune_or_null T d = None \<longleftrightarrow> (\<forall>n. supported T d n \<longrightarrow> node_depth n = 0)"
  by (auto simp: prune_or_null_def policy_tree_post_op_prune_def Let_def set_prune_policy_tree
      supported_low list_ex_iff)

section \<open>Where the policies of a tree come from\<close>

definition policy_ids :: "certificate_policies \<Rightarrow> oid set" where
  "policy_ids cp = policy_identifier ` set cp"

text \<open>
  The shape the walk maintains: depths bounded by the certificates processed, and the anyPolicy root
  as the only node of depth 0.
\<close>

definition tree_ok :: "nat \<Rightarrow> policy_node list \<Rightarrow> bool" where
  "tree_ok k T \<longleftrightarrow>
     (\<forall>n\<in>set T. node_depth n \<le> k) \<and>
     (\<exists>n\<in>set T. node_depth n = 0) \<and>
     (\<forall>n\<in>set T. node_depth n = 0 \<longrightarrow> valid_policy n = OID_ANY_POLICY)"

lemma tree_ok_init: "tree_ok 0 init_policy_tree"
  by (simp add: tree_ok_def init_policy_tree_def)

lemma policy_info_nodes_set:
  "n \<in> set (policy_info_nodes T d pi) \<Longrightarrow>
     node_depth n = d \<and> valid_policy n = policy_identifier pi \<and>
     expected_policy_set n = [policy_identifier pi]"
  by (auto simp: policy_info_nodes_def Let_def policy_child_def split: if_splits)

lemma expand_any_policy_set:
  "n \<in> set (expand_any_policy T d cp new) \<Longrightarrow>
     node_depth n = d \<and> expected_policy_set n = [valid_policy n] \<and>
     (\<exists>p\<in>set T. node_depth p = d - 1 \<and> valid_policy n \<in> set (expected_policy_set p))"
  by (auto simp: expand_any_policy_def Let_def policy_child_def)

lemma new_policy_nodes_set:
  assumes "n \<in> set (new_policy_nodes T d cp may_expand)"
  shows "node_depth n = d \<and> expected_policy_set n = [valid_policy n] \<and>
      (valid_policy n \<in> policy_ids cp - {OID_ANY_POLICY} \<or>
       OID_ANY_POLICY \<in> policy_ids cp \<and> may_expand \<and>
       (\<exists>p\<in>set T. node_depth p = d - 1 \<and> valid_policy n \<in> set (expected_policy_set p)))"
proof -
  let ?new = "concat (map (policy_info_nodes T d)
    (filter (\<lambda>pi. policy_identifier pi \<noteq> OID_ANY_POLICY) cp))"
  from assms consider "n \<in> set ?new" | "n \<in> set (expand_any_policy T d cp ?new)" may_expand
      "list_ex (\<lambda>pi. policy_identifier pi = OID_ANY_POLICY) cp"
    by (auto simp: new_policy_nodes_def Let_def split: if_splits)
  then show ?thesis
  proof cases
    case 1
    then show ?thesis by (auto simp: policy_ids_def dest!: policy_info_nodes_set)
  next
    case 2
    then have "OID_ANY_POLICY \<in> policy_ids cp" by (force simp: policy_ids_def list_ex_iff)
    with 2 show ?thesis by (auto dest!: expand_any_policy_set)
  qed
qed

lemma process_certificate_policies_Some:
  assumes "process_certificate_policies (Some T) (Some cp) d may_expand = Some T'"
    and "n \<in> set T'"
  shows "n \<in> set T \<or> n \<in> set (new_policy_nodes T d cp may_expand)"
  using assms by (auto simp: process_certificate_policies_def dest: prune_or_null_mem)

lemma tree_ok_supported:
  assumes "tree_ok k T" and "set T' = {n. supported T d n}"
  shows "tree_ok k T'"
proof -
  from assms(1) obtain r where "r \<in> set T" "node_depth r = 0" by (auto simp: tree_ok_def)
  then have "r \<in> set T'" using assms(2) by (auto intro: supported.root)
  with assms \<open>node_depth r = 0\<close> show ?thesis by (auto simp: tree_ok_def dest: supported_mem)
qed

lemma tree_ok_append:
  "tree_ok k T \<Longrightarrow> \<forall>n\<in>set N. 0 < node_depth n \<and> node_depth n \<le> k' \<Longrightarrow> k \<le> k' \<Longrightarrow> tree_ok k' (T @ N)"
  by (fastforce simp: tree_ok_def)

lemma tree_ok_process_cp:
  assumes "tree_ok d T" and "process_certificate_policies (Some T) (Some cp) (Suc d) me = Some T'"
  shows "tree_ok (Suc d) T'"
proof -
  let ?N = "new_policy_nodes T (Suc d) cp me"
  from assms(2) have N: "prune_or_null (T @ ?N) (Suc d) = Some T'"
    by (simp add: process_certificate_policies_def)
  have "tree_ok (Suc d) (T @ ?N)"
    using assms(1) by (intro tree_ok_append [of d]) (auto dest: new_policy_nodes_set)
  then show ?thesis using prune_or_null_Some [OF N] by (blast intro: tree_ok_supported)
qed

lemma node_depth_map_node [simp]:
  "node_depth (map_node i s n) = node_depth n" "valid_policy (map_node i s n) = valid_policy n"
  by (simp_all add: map_node_def Let_def)

lemma tree_ok_apply_mapping:
  "tree_ok k T \<Longrightarrow> 0 < k \<Longrightarrow> tree_ok k (apply_mapping k q m T)"
  by (fastforce simp: tree_ok_def apply_mapping_def Let_def)

lemma tree_ok_fold_mapping:
  "tree_ok k T \<Longrightarrow> 0 < k \<Longrightarrow> tree_ok k (fold (apply_mapping k q) pm T)"
  by (induction pm arbitrary: T) (auto intro: tree_ok_apply_mapping)

lemma tree_ok_delete_mapped: "tree_ok k T \<Longrightarrow> 0 < k \<Longrightarrow> tree_ok k (delete_mapped k pm T)"
  unfolding delete_mapped_def Let_def
  by (rule tree_ok_supported [OF _ set_post_op_prune]) (auto simp: tree_ok_def)

lemma tree_ok_process_pm:
  assumes "tree_ok k T" and "0 < k"
    and "process_policy_mappings (Some T) pm cp k c i = Inr (Some T')"
  shows "tree_ok k T'"
proof -
  from assms obtain T1 where T1: "tree_ok k T1" "prune_or_null T1 0 = Some T'"
    by (auto simp: process_policy_mappings_def and_then_Ok_iff
        intro: tree_ok_fold_mapping tree_ok_delete_mapped split: option.splits if_splits)
  from tree_ok_supported [OF T1(1)] prune_or_null_Some [OF T1(2)] show ?thesis by blast
qed

text \<open>Once NULL, the tree stays NULL.\<close>

lemma process_cp_None [simp]: "process_certificate_policies None cp d me = None"
  by (simp add: process_certificate_policies_def)

lemma process_pm_None:
  "process_policy_mappings None pm cp d c i = Inr T \<Longrightarrow> T = None"
  by (auto simp: process_policy_mappings_def and_then_Ok_iff split: option.splits if_splits)

lemma intersect_None [simp]: "intersect_initial_policies s d None = None"
  by (simp add: intersect_initial_policies_def)

text \<open>A tree that is not NULL has a node below the root.\<close>

definition has_policy_node :: "policy_node list option \<Rightarrow> bool" where
  "has_policy_node q = (case q of None \<Rightarrow> False | Some T \<Rightarrow> list_ex (\<lambda>n. 1 \<le> node_depth n) T)"

lemma prune_or_null_has_node: "prune_or_null T d = Some T' \<Longrightarrow> has_policy_node (Some T')"
  using prune_or_null_Some [of T d T'] by (auto simp: has_policy_node_def list_ex_iff)

lemma process_cp_has_node:
  "process_certificate_policies q cp d me = Some T \<Longrightarrow> has_policy_node (Some T)"
  by (auto simp: process_certificate_policies_def Let_def split: option.splits
      intro: prune_or_null_has_node)

lemma process_pm_has_node:
  "process_policy_mappings q pm cp d c i = Inr (Some T) \<Longrightarrow> has_policy_node (Some T)"
  by (auto simp: process_policy_mappings_def and_then_Ok_iff split: option.splits if_splits
      intro: prune_or_null_has_node)

lemma intersect_has_node:
  "intersect_initial_policies s d q = Some T \<Longrightarrow> has_policy_node q \<Longrightarrow> has_policy_node (Some T)"
  by (auto simp: intersect_initial_policies_def split: option.splits if_splits
      intro: prune_or_null_has_node)

section \<open>The intersection with the caller's policies\<close>

definition any_parent :: "policy_node list \<Rightarrow> policy_node \<Rightarrow> bool" where
  "any_parent T n \<longleftrightarrow>
     1 \<le> node_depth n \<and>
     list_ex (\<lambda>p. node_depth p = node_depth n - 1 \<and> valid_policy p = OID_ANY_POLICY) T"

lemma fold_cascade_subset: "n \<in> set (fold cascade_level ds T) \<Longrightarrow> n \<in> set T"
proof (induction ds arbitrary: T)
  case (Cons d ds)
  then have "n \<in> set (cascade_level d T)" by auto
  then show ?case by (simp add: cascade_level_def Let_def)
qed simp

lemma delete_vpns_filter:
  "n \<in> set (delete_vpns s d T) \<Longrightarrow>
     n \<in> set T \<and> (node_depth n, valid_policy n) \<notin> set (vpns_to_delete s T)"
  unfolding delete_vpns_def Let_def by (auto dest: fold_cascade_subset simp del: upt_Suc split: if_splits)

lemma delete_vpns_mem:
  assumes "n \<in> set (delete_vpns s d T)" and "any_parent T n"
  shows "valid_policy n \<in> set s \<union> {OID_ANY_POLICY}"
proof (rule ccontr)
  assume "valid_policy n \<notin> set s \<union> {OID_ANY_POLICY}"
  with delete_vpns_filter [OF assms(1)] assms(2)
  have "(node_depth n, valid_policy n) \<in> set (vpns_to_delete s T)"
    by (auto simp: vpns_to_delete_def any_parent_def image_iff)
  with delete_vpns_filter [OF assms(1)] show False by blast
qed

lemma materialise_mem:
  assumes "n \<in> set (materialise_initial s d T)"
  shows "(node_depth n = d \<longrightarrow> valid_policy n \<noteq> OID_ANY_POLICY) \<and>
     (n \<in> set T \<or> node_depth n = d \<and> valid_policy n \<in> set s)"
  using assms
  by (auto simp: materialise_initial_def Let_def policy_child_def find_None_iff split: option.splits)

lemma tree_ok_any_parent: "tree_ok k T \<Longrightarrow> node_depth n = 1 \<Longrightarrow> any_parent T n"
  by (auto simp: tree_ok_def any_parent_def list_ex_iff)

lemma intersect_initial_mem:
  assumes "intersect_initial_policies s d (Some T) = Some T'" and "s \<noteq> []" and "n \<in> set T'"
  shows "(node_depth n = d \<longrightarrow> valid_policy n \<noteq> OID_ANY_POLICY) \<and>
     (any_parent T n \<longrightarrow> valid_policy n \<in> set s \<union> {OID_ANY_POLICY})"
proof -
  from assms have "n \<in> set (materialise_initial s d (delete_vpns s d T))"
    by (auto simp: intersect_initial_policies_def dest: prune_or_null_mem)
  then show ?thesis using delete_vpns_mem by (fastforce dest: materialise_mem)
qed

section \<open>Properties\<close>

text \<open>
  \<open>prune_policy_tree\<close> computes the reading of RFC 5280 section 6.1.3(d)(3) in one upward sweep:
  the nodes it keeps are exactly the supported ones, those that reach the depth of the certificate
  through children they expect (the root is never pruned).
\<close>

theorem prune_policy_tree_exact:
  "set (prune_policy_tree T D) = {n. supported T D n}"
  by (rule set_prune_policy_tree)

text \<open>
  The tree after certificatePolicies holds only nodes of the tree before and new nodes at the
  depth of the certificate, whose policy the certificate asserts itself, or, when it asserts
  anyPolicy and expansion is allowed, a parent of the previous depth expects.
\<close>

theorem certificate_policies_sound:
  assumes "process_certificate_policies (Some T) (Some cp) d may_expand = Some T'"
    and "n \<in> set T'"
  shows "n \<in> set T \<or>
     node_depth n = d \<and>
     (valid_policy n \<in> policy_ids cp - {OID_ANY_POLICY} \<or>
      OID_ANY_POLICY \<in> policy_ids cp \<and> may_expand \<and>
      (\<exists>p\<in>set T. node_depth p = d - 1 \<and> valid_policy n \<in> set (expected_policy_set p)))"
  using process_certificate_policies_Some [OF assms] new_policy_nodes_set by blast

theorem certificate_policies_sound_witness:
  "let n = policy_child 1 [1, 2, 1] [] in
   n \<in> set init_policy_tree \<or>
   node_depth n = 1 \<and>
   (valid_policy n \<in> policy_ids [ex_policy [1, 2, 1]] - {OID_ANY_POLICY} \<or>
    OID_ANY_POLICY \<in> policy_ids [ex_policy [1, 2, 1]] \<and> True \<and>
    (\<exists>p\<in>set init_policy_tree. node_depth p = 1 - 1 \<and> valid_policy n \<in> set (expected_policy_set p)))"
  unfolding Let_def
proof (rule certificate_policies_sound)
  show "process_certificate_policies (Some init_policy_tree) (Some [ex_policy [1, 2, 1]]) 1 True
      = Some (init_policy_tree @ [policy_child 1 [1, 2, 1] []])"
    by code_simp
  show "policy_child 1 [1, 2, 1] [] \<in> set (init_policy_tree @ [policy_child 1 [1, 2, 1] []])"
    by simp
qed

text \<open>
  After the intersection with a non-empty policy set, no node at leaf depth is anyPolicy, and
  every node whose parent level still held anyPolicy is in the caller's set (or anyPolicy above the
  leaf); in particular every node next to the root is.
\<close>

theorem intersect_initial_policies_sound:
  assumes "intersect_initial_policies s d (Some T) = Some T'" and "s \<noteq> []" and "n \<in> set T'"
    and "tree_ok k T"
  shows "(node_depth n = d \<longrightarrow> valid_policy n \<noteq> OID_ANY_POLICY) \<and>
     (any_parent T n \<or> node_depth n = 1 \<longrightarrow> valid_policy n \<in> set s \<union> {OID_ANY_POLICY})"
  using intersect_initial_mem [OF assms(1-3)] tree_ok_any_parent [OF assms(4)] by blast

theorem intersect_initial_policies_sound_witness:
  "valid_policy (policy_child 1 [1, 2, 1] []) \<in> set [[1, 2, 1]] \<union> {OID_ANY_POLICY}"
proof -
  let ?n = "policy_child 1 [1, 2, 1] []"
  let ?T = "init_policy_tree @ [policy_child 1 [1, 2, 1] [], policy_child 1 [1, 2, 2] []]"
  have "intersect_initial_policies [[1, 2, 1]] 1 (Some ?T) = Some (init_policy_tree @ [?n])"
    by code_simp
  moreover have "tree_ok 1 ?T" by (simp add: tree_ok_def init_policy_tree_def policy_child_def)
  moreover have "node_depth ?n = 1" by (simp add: policy_child_def)
  ultimately show ?thesis
    using intersect_initial_policies_sound [of "[[1, 2, 1]]" 1 ?T "init_policy_tree @ [?n]" ?n 1]
    by auto
qed

end
