(* ===== verification/PathChecks.thy ===== *)
theory PathChecks
  imports NameConstraints PolicyTree
begin

text \<open>
  The checks of \<open>pkix-path/src/lib.rs\<close> on the inputs and on a single certificate that carry no state
  from one certificate to the next, each with the lemma that says when it returns \<open>Ok\<close> (collection
  \<open>check_simps\<close>).
\<close>

section \<open>Input guards\<close>

definition spki_key_matches :: "spki \<Rightarrow> spki \<Rightarrow> bool" where
  "spki_key_matches a b =
     (alg_oid (spki_algorithm a) = alg_oid (spki_algorithm b) \<and>
      subject_public_key a = subject_public_key b)"

definition same_issuer_serial :: "certificate \<Rightarrow> certificate \<Rightarrow> bool" where
  "same_issuer_serial a b =
     (names_match (issuer (tbs a)) (issuer (tbs b)) \<and> serial_number (tbs a) = serial_number (tbs b))"

definition check_inputs :: "certificate list \<Rightarrow> trust_anchor list \<Rightarrow> unit path_result" where
  "check_inputs chain anchors =
     (if chain = [] \<or> anchors = [] then Err NoTrustedPath
      else try_all (\<lambda>i.
             try_all (\<lambda>j.
               if same_issuer_serial (chain ! i) (chain ! j) then Err (DuplicateCertificate i j)
               else Ok ()) [i + 1..<length chain]) [0..<length chain])"

definition check_oid_consistency :: "certificate list \<Rightarrow> unit path_result" where
  "check_oid_consistency chain =
     try_all (\<lambda>(index, cert).
       if alg_oid (signature_algorithm cert) \<noteq> alg_oid (tbs_signature (tbs cert))
       then Err (MalformedCertificate index) else Ok ()) (enumerate 0 chain)"

section \<open>Checks of one certificate\<close>

definition HANDLED_CRITICAL_OIDS :: "oid list" where
  "HANDLED_CRITICAL_OIDS =
     [OID_KEY_USAGE, OID_BASIC_CONSTRAINTS, OID_SUBJECT_ALT_NAME, OID_EXTENDED_KEY_USAGE,
      OID_NAME_CONSTRAINTS, OID_CERTIFICATE_POLICIES, OID_POLICY_MAPPINGS, OID_POLICY_CONSTRAINTS,
      OID_INHIBIT_ANY_POLICY]"

definition check_critical_extensions :: "certificate \<Rightarrow> nat \<Rightarrow> unit path_result" where
  "check_critical_extensions cert index =
     try_all (\<lambda>ext.
       if critical ext \<and> extn_id ext \<notin> set HANDLED_CRITICAL_OIDS
       then Err (UnhandledCriticalExtension index) else Ok ()) (cert_exts cert)"

definition has_key_cert_sign :: "'x x509_codec_scheme \<Rightarrow> certificate \<Rightarrow> der_error + bool option" where
  "has_key_cert_sign cd cert =
     map_ok (map_option ku_key_cert_sign) (try_find_cert_ext (dec_key_usage cd) cert OID_KEY_USAGE)"

definition has_crl_sign :: "'x x509_codec_scheme \<Rightarrow> certificate \<Rightarrow> der_error + bool option" where
  "has_crl_sign cd cert =
     map_ok (map_option ku_crl_sign) (try_find_cert_ext (dec_key_usage cd) cert OID_KEY_USAGE)"

definition check_validity :: "certificate \<Rightarrow> u64 \<Rightarrow> nat \<Rightarrow> unit path_result" where
  "check_validity cert now_unix index =
     (if now_unix \<ge> not_before (tbs_validity (tbs cert)) \<and>
         now_unix \<le> not_after (tbs_validity (tbs cert))
      then Ok () else Err (ValidityPeriod index))"

definition cert_is_ca :: "'x x509_codec_scheme \<Rightarrow> certificate \<Rightarrow> der_error + bool" where
  "cert_is_ca cd cert =
     (case find_ext cert OID_BASIC_CONSTRAINTS of
        None \<Rightarrow> Ok False
      | Some ext \<Rightarrow> map_ok bc_ca (dec_basic_constraints cd (extn_value ext)))"

definition cert_has_san_identity :: "certificate \<Rightarrow> bool" where
  "cert_has_san_identity cert =
     (if subject (tbs cert) \<noteq> [] then False
      else list_ex (\<lambda>ext. extn_id ext = OID_SUBJECT_ALT_NAME \<and> critical ext) (cert_exts cert))"

definition OID_RSA_ENCRYPTION :: oid where
  "OID_RSA_ENCRYPTION = [1, 2, 840, 113549, 1, 1, 1]"

text \<open>
  The bit length of the modulus, rounded up to whole bytes. The reader of the \<open>RSAPublicKey\<close> sequence
  is the codec's \<open>dec_rsa_modulus\<close>, which gives the magnitude bytes; \<open>usize\<close> has 64 bits.
\<close>

definition rsa_public_key_bits :: "'x x509_codec_scheme \<Rightarrow> spki \<Rightarrow> u32 option" where
  "rsa_public_key_bits cd key =
     (if alg_oid (spki_algorithm key) \<noteq> OID_RSA_ENCRYPTION then None
      else case bits_as_bytes (subject_public_key key) of
        None \<Rightarrow> None
      | Some raw \<Rightarrow>
          (case dec_rsa_modulus cd raw of
             Inl _ \<Rightarrow> None
           | Inr modulus \<Rightarrow> u32_try_from (min (length modulus * 8) (2 ^ 64 - 1))))"

definition enforce_signature_alg_allowlist ::
  "certificate \<Rightarrow> validation_policy \<Rightarrow> nat \<Rightarrow> unit path_result" where
  "enforce_signature_alg_allowlist cert policy index =
     (case allowed_signature_algs policy of
        None \<Rightarrow> Ok ()
      | Some allowed \<Rightarrow>
          if alg_oid (signature_algorithm cert) \<notin> set allowed
          then Err (AlgorithmNotAllowed index) else Ok ())"

definition check_max_validity :: "certificate \<Rightarrow> validation_policy \<Rightarrow> nat \<Rightarrow> unit path_result" where
  "check_max_validity cert policy index =
     (case max_validity_secs policy of
        None \<Rightarrow> Ok ()
      | Some max_secs \<Rightarrow>
          if saturating_sub (not_after (tbs_validity (tbs cert))) (not_before (tbs_validity (tbs cert)))
             > max_secs
          then Err (ValidityPeriodExceedsMax index) else Ok ())"

definition check_min_rsa_bits ::
  "'x x509_codec_scheme \<Rightarrow> certificate \<Rightarrow> validation_policy \<Rightarrow> nat \<Rightarrow> unit path_result" where
  "check_min_rsa_bits cd cert policy index =
     (case min_rsa_key_bits policy of
        None \<Rightarrow> Ok ()
      | Some min_bits \<Rightarrow>
          (case rsa_public_key_bits cd (subject_public_key_info (tbs cert)) of
             None \<Rightarrow> Ok ()
           | Some actual_bits \<Rightarrow> if actual_bits < min_bits then Err (KeyTooSmall index) else Ok ()))"

definition check_issuer_linkage :: "certificate \<Rightarrow> dname \<Rightarrow> bool \<Rightarrow> nat \<Rightarrow> unit path_result" where
  "check_issuer_linkage cert working_issuer_name working_issuer_is_san_identity index =
     (if \<not> working_issuer_is_san_identity \<and> \<not> names_match working_issuer_name (issuer (tbs cert))
      then Err (ChainBroken index) else Ok ())"

definition verify_cert_signature ::
  "'x x509_codec_scheme \<Rightarrow> certificate \<Rightarrow> spki \<Rightarrow> sig_verifier \<Rightarrow> nat \<Rightarrow> unit path_result" where
  "verify_cert_signature cd cert working_spki verifier index =
     and_then (map_err Der (enc_tbs cd (tbs cert))) (\<lambda>tbs_bytes.
     map_err (\<lambda>_. SignatureInvalid index)
       (verifier (signature_algorithm cert) working_spki tbs_bytes (raw_bytes (cert_signature cert))))"

section \<open>When the checks succeed\<close>

lemma check_oid_consistency_Ok [check_simps]:
  "check_oid_consistency chain = Inr u \<longleftrightarrow>
     (\<forall>cert\<in>set chain. alg_oid (signature_algorithm cert) = alg_oid (tbs_signature (tbs cert)))"
proof -
  have "set chain = snd ` set (enumerate 0 chain)" by (metis map_snd_enumerate set_map)
  then show ?thesis by (auto simp: check_oid_consistency_def try_all_Ok_iff split: if_splits)
qed

lemma check_inputs_Ok [check_simps]:
  "check_inputs chain anchors = Inr u \<longleftrightarrow>
     chain \<noteq> [] \<and> anchors \<noteq> [] \<and>
     (\<forall>i j. i < j \<longrightarrow> j < length chain \<longrightarrow> \<not> same_issuer_serial (chain ! i) (chain ! j))"
  by (auto simp: check_inputs_def try_all_Ok_iff split: if_splits)

lemma check_critical_extensions_Ok [check_simps]:
  "check_critical_extensions cert i = Inr u \<longleftrightarrow>
     (\<forall>e\<in>set (cert_exts cert). critical e \<longrightarrow> extn_id e \<in> set HANDLED_CRITICAL_OIDS)"
  by (auto simp: check_critical_extensions_def try_all_Ok_iff split: if_splits)

lemma check_validity_Ok [check_simps]:
  "check_validity cert now i = Inr u \<longleftrightarrow>
     not_before (tbs_validity (tbs cert)) \<le> now \<and> now \<le> not_after (tbs_validity (tbs cert))"
  by (auto simp: check_validity_def)

lemma enforce_signature_alg_allowlist_Ok [check_simps]:
  "enforce_signature_alg_allowlist cert policy i = Inr u \<longleftrightarrow>
     (case allowed_signature_algs policy of None \<Rightarrow> True
      | Some allowed \<Rightarrow> alg_oid (signature_algorithm cert) \<in> set allowed)"
  by (auto simp: enforce_signature_alg_allowlist_def split: option.splits)

lemma check_max_validity_Ok [check_simps]:
  "check_max_validity cert policy i = Inr u \<longleftrightarrow>
     (case max_validity_secs policy of None \<Rightarrow> True
      | Some m \<Rightarrow> unat (not_after (tbs_validity (tbs cert))) - unat (not_before (tbs_validity (tbs cert)))
          \<le> unat m)"
  by (auto simp: check_max_validity_def word_less_nat_alt unat_saturating_sub not_less
      split: option.splits)

lemma check_min_rsa_bits_Ok [check_simps]:
  "check_min_rsa_bits cd cert policy i = Inr u \<longleftrightarrow>
     (case (min_rsa_key_bits policy, rsa_public_key_bits cd (subject_public_key_info (tbs cert))) of
        (Some m, Some b) \<Rightarrow> m \<le> b | _ \<Rightarrow> True)"
  by (auto simp: check_min_rsa_bits_def split: option.splits)

lemma check_issuer_linkage_Ok [check_simps]:
  "check_issuer_linkage cert nm san i = Inr u \<longleftrightarrow> san \<or> names_match nm (issuer (tbs cert))"
  by (auto simp: check_issuer_linkage_def)

lemma verify_cert_signature_Ok [check_simps]:
  "verify_cert_signature cd cert key v i = Inr u \<longleftrightarrow>
     (\<exists>msg. enc_tbs cd (tbs cert) = Inr msg \<and>
        v (signature_algorithm cert) key msg (raw_bytes (cert_signature cert)) = Inr u)"
  by (auto simp: verify_cert_signature_def and_then_Ok_iff)

lemma cert_is_ca_Ok_True:
  "cert_is_ca cd cert = Inr True \<longleftrightarrow>
     (\<exists>e bc. find_ext cert OID_BASIC_CONSTRAINTS = Some e \<and>
        dec_basic_constraints cd (extn_value e) = Inr bc \<and> bc_ca bc)"
  by (auto simp: cert_is_ca_def map_ok_def split: option.splits sum.splits)

end
