(* ===== verification/ChainWalk.thy ===== *)
theory ChainWalk
  imports PathChecks
begin

text \<open>
  The RFC 5280 section 6.1 state machine of \<open>pkix-path/src/lib.rs\<close>: the working state, the processing
  of one certificate in the order of the code (\<open>walk_cert\<close>), the loop from the trust anchor towards
  the leaf, the wrap-up of section 6.1.5 and the public entry points \<open>validate_path\<close> and
  \<open>validate_path_with_profile\<close>. The working state groups the three name-constraint fields of the
  code's \<open>WorkingState\<close> in the record \<open>nc_state\<close>.
\<close>

section \<open>The working state\<close>

record working_state =
  working_spki :: spki
  working_issuer_name :: dname
  working_issuer_is_san_identity :: bool
  ws_nc :: nc_state
  explicit_policy :: u32
  inhibit_any :: u32
  policy_mapping_count :: u32
  policy_tree :: "policy_node list option"

definition walk_init :: "trust_anchor \<Rightarrow> validation_policy \<Rightarrow> nat \<Rightarrow> working_state" where
  "walk_init anchor policy n =
     (let n_u32 = unwrap_or (- 1) (u32_try_from n);
          counter = (\<lambda>flag. if flag then 0 else saturating_add n_u32 1)
      in \<lparr> working_spki = ta_spki anchor,
           working_issuer_name = ta_subject anchor,
           working_issuer_is_san_identity = False,
           ws_nc = nc_init anchor,
           explicit_policy = counter (initial_explicit_policy policy),
           inhibit_any = counter (initial_any_policy_inhibit policy),
           policy_mapping_count = counter (initial_policy_mapping_inhibit policy),
           policy_tree = Some init_policy_tree \<rparr>)"

section \<open>One certificate\<close>

text \<open>Steps (a0) to (d): no state is changed.\<close>

definition check_basic ::
  "'x x509_codec_scheme \<Rightarrow> sig_verifier \<Rightarrow> validation_policy \<Rightarrow> certificate \<Rightarrow> nat \<Rightarrow> working_state
    \<Rightarrow> unit path_result" where
  "check_basic cd verifier policy cert i st =
     and_then (enforce_signature_alg_allowlist cert policy i) (\<lambda>_.
     and_then (verify_cert_signature cd cert (working_spki st) verifier i) (\<lambda>_.
     and_then (check_issuer_linkage cert (working_issuer_name st)
                 (working_issuer_is_san_identity st) i) (\<lambda>_.
     and_then (check_validity cert (current_time_unix policy) i) (\<lambda>_.
     and_then (check_max_validity cert policy i) (\<lambda>_.
     and_then (check_min_rsa_bits cd cert policy i) (\<lambda>_.
     check_critical_extensions cert i))))))"

text \<open>Steps (policy-d) and (policy-f).\<close>

definition step_policies ::
  "certificate \<Rightarrow> nat \<Rightarrow> nat \<Rightarrow> certificate_policies option \<Rightarrow> working_state \<Rightarrow> working_state path_result" where
  "step_policies cert i cert_depth cert_cp st =
     (let may_expand = (inhibit_any st > 0 \<or> (i > 0 \<and> is_self_issued_cert cert));
          st = st\<lparr> policy_tree :=
                 process_certificate_policies (policy_tree st) cert_cp cert_depth may_expand \<rparr>
      in if explicit_policy st = 0 \<and> policy_tree st = None then Err (PolicyViolation i) else Ok st)"

text \<open>Step (e): self-issued certificates other than the leaf are exempt.\<close>

definition check_names_step ::
  "'x x509_codec_scheme \<Rightarrow> certificate \<Rightarrow> nat \<Rightarrow> general_name list option \<Rightarrow> working_state
    \<Rightarrow> unit path_result" where
  "check_names_step cd cert i san st =
     (if i = 0 \<or> \<not> is_self_issued_cert cert
      then check_name_constraints cd cert san (ws_nc st) i else Ok ())"

text \<open>Steps (e2) to (e4), on the leaf.\<close>

definition check_leaf_eku ::
  "'x x509_codec_scheme \<Rightarrow> validation_policy \<Rightarrow> certificate \<Rightarrow> unit path_result" where
  "check_leaf_eku cd policy cert =
     (case required_leaf_eku policy of
        None \<Rightarrow> Ok ()
      | Some required_ekus \<Rightarrow>
          and_then (map_err (\<lambda>_. MalformedCertificate 0)
              (try_find_cert_ext (dec_extended_key_usage cd) cert OID_EXTENDED_KEY_USAGE)) (\<lambda>ext.
          case ext of
            None \<Rightarrow> if required_ekus \<noteq> [] then Err MissingEku else Ok ()
          | Some eku \<Rightarrow> try_all (\<lambda>req_oid. if req_oid \<notin> set eku then Err MissingEku else Ok ()) required_ekus))"

definition check_leaf_policy_oids ::
  "validation_policy \<Rightarrow> certificate_policies option \<Rightarrow> unit path_result" where
  "check_leaf_policy_oids policy cert_cp =
     (case required_leaf_policy_oids policy of
        None \<Rightarrow> Ok ()
      | Some required \<Rightarrow>
          (case cert_cp of
             None \<Rightarrow> (case required of [] \<Rightarrow> Ok () | first # _ \<Rightarrow> Err (MissingLeafPolicyOid first))
           | Some cp \<Rightarrow>
               try_all (\<lambda>req_oid.
                 if \<not> list_ex (\<lambda>pi. policy_identifier pi = req_oid) cp
                 then Err (MissingLeafPolicyOid req_oid) else Ok ()) required))"

definition check_leaf ::
  "'x x509_codec_scheme \<Rightarrow> validation_policy \<Rightarrow> certificate \<Rightarrow> certificate_policies option
    \<Rightarrow> general_name list option \<Rightarrow> unit path_result" where
  "check_leaf cd policy cert cert_cp san =
     and_then (guard_or (require_subject_alt_name policy \<longrightarrow> unwrap_or [] san \<noteq> []) MissingSan) (\<lambda>_.
     and_then (check_leaf_eku cd policy cert) (\<lambda>_.
     and_then (check_leaf_policy_oids policy cert_cp) (\<lambda>_.
     and_then (case required_leaf_subject_dn_attrs policy of
                 None \<Rightarrow> Ok ()
               | Some dn_rule \<Rightarrow>
                   guard_or (evaluate_dn_attr_rule (subject (tbs cert)) dn_rule) SubjectDnAttrRuleUnmet) (\<lambda>_.
     guard_or (require_subject_alt_name policy \<and> require_rfc822_san policy \<longrightarrow>
                 list_ex is_rfc822 (unwrap_or [] san)) MissingRfc822San))))"

text \<open>Steps (f) to (h), on every other certificate.\<close>

definition check_ca ::
  "'x x509_codec_scheme \<Rightarrow> validation_policy \<Rightarrow> certificate list \<Rightarrow> certificate \<Rightarrow> nat \<Rightarrow> unit path_result" where
  "check_ca cd policy chain cert i =
     and_then (map_err (\<lambda>_. MalformedCertificate i)
         (try_find_cert_ext (dec_basic_constraints cd) cert OID_BASIC_CONSTRAINTS)) (\<lambda>bc.
     and_then (guard_or (case bc of None \<Rightarrow> False | Some b \<Rightarrow> bc_ca b) (NotCA i)) (\<lambda>_.
     and_then (if enforce_key_usage policy
               then and_then (map_err (\<lambda>_. MalformedCertificate i) (has_key_cert_sign cd cert)) (\<lambda>ku.
                    guard_or (ku \<noteq> Some False) (KeyUsageMissing i))
               else Ok ()) (\<lambda>_.
     and_then (if require_crl_sign_on_cas policy
               then and_then (map_err (\<lambda>_. MalformedCertificate i) (has_crl_sign cd cert)) (\<lambda>ku.
                    guard_or (ku \<noteq> Some False) (CrlSignMissing i))
               else Ok ()) (\<lambda>_.
     case Option.bind bc path_len_constraint of
       None \<Rightarrow> Ok ()
     | Some path_len \<Rightarrow>
         (let effective_depth = length (filter (\<lambda>c. \<not> is_self_issued_cert c) (drop 1 (take i chain)))
          in if effective_depth > unat path_len then Err PathTooLong else Ok ())))))"

text \<open>The counters of section 6.1.4(h), (i) and (j).\<close>

definition decrement_counters :: "certificate \<Rightarrow> working_state \<Rightarrow> working_state" where
  "decrement_counters cert st =
     (if is_self_issued_cert cert then st
      else st\<lparr> explicit_policy := saturating_sub (explicit_policy st) 1,
               policy_mapping_count := saturating_sub (policy_mapping_count st) 1,
               inhibit_any := saturating_sub (inhibit_any st) 1 \<rparr>)"

definition min_opt :: "u32 \<Rightarrow> u32 option \<Rightarrow> u32" where
  "min_opt c q = (case q of None \<Rightarrow> c | Some r \<Rightarrow> min c r)"

definition clamp_constraints :: "policy_constraints option \<Rightarrow> working_state \<Rightarrow> working_state" where
  "clamp_constraints pc st =
     (case pc of
        None \<Rightarrow> st
      | Some c \<Rightarrow>
          st\<lparr> explicit_policy := min_opt (explicit_policy st) (require_explicit_policy c),
              policy_mapping_count := min_opt (policy_mapping_count st) (inhibit_policy_mapping c) \<rparr>)"

text \<open>Section 6.1.4: mappings, counters and name constraints, in the order of the code.\<close>

definition prepare_next ::
  "'x x509_codec_scheme \<Rightarrow> certificate \<Rightarrow> nat \<Rightarrow> nat \<Rightarrow> certificate_policies option \<Rightarrow> working_state
    \<Rightarrow> working_state path_result" where
  "prepare_next cd cert i cert_depth cert_cp st =
     and_then (map_err (\<lambda>_. MalformedCertificate i)
         (try_find_cert_ext (dec_policy_mappings cd) cert OID_POLICY_MAPPINGS)) (\<lambda>pm.
     and_then (process_policy_mappings (policy_tree st) pm cert_cp cert_depth
                 (policy_mapping_count st) i) (\<lambda>tree.
     let st = decrement_counters cert (st\<lparr> policy_tree := tree \<rparr>) in
     and_then (map_err (\<lambda>_. MalformedCertificate i)
         (try_find_cert_ext (dec_policy_constraints cd) cert OID_POLICY_CONSTRAINTS)) (\<lambda>pc.
     let st = clamp_constraints pc st in
     and_then (map_err (\<lambda>_. MalformedCertificate i)
         (try_find_cert_ext (dec_inhibit_any_policy cd) cert OID_INHIBIT_ANY_POLICY)) (\<lambda>iap.
     let st = st\<lparr> inhibit_any := min_opt (inhibit_any st) iap \<rparr> in
     and_then (cert_name_constraints cd cert i) (\<lambda>nc.
     Ok (case nc of None \<Rightarrow> st | Some c \<Rightarrow> st\<lparr> ws_nc := nc_update c (ws_nc st) \<rparr>))))))"

definition advance :: "certificate \<Rightarrow> working_state \<Rightarrow> working_state" where
  "advance cert st =
     st\<lparr> working_spki := subject_public_key_info (tbs cert),
         working_issuer_name := subject (tbs cert),
         working_issuer_is_san_identity := cert_has_san_identity cert \<rparr>"

text \<open>The body of the loop at index \<open>i\<close>.\<close>

definition walk_cert ::
  "'x x509_codec_scheme \<Rightarrow> sig_verifier \<Rightarrow> validation_policy \<Rightarrow> certificate list \<Rightarrow> nat \<Rightarrow> working_state
    \<Rightarrow> working_state path_result" where
  "walk_cert cd verifier policy chain i st =
     (let cert = chain ! i; cert_depth = length chain - i in
      and_then (check_basic cd verifier policy cert i st) (\<lambda>_.
      and_then (map_err (\<lambda>_. MalformedCertificate i)
          (try_find_cert_ext (dec_certificate_policies cd) cert OID_CERTIFICATE_POLICIES)) (\<lambda>cert_cp.
      and_then (step_policies cert i cert_depth cert_cp st) (\<lambda>st.
      and_then (cert_subject_alt_names cd cert i) (\<lambda>san.
      and_then (check_names_step cd cert i san st) (\<lambda>_.
      and_then (if i = 0 then check_leaf cd policy cert cert_cp san else Ok ()) (\<lambda>_.
      and_then (if i > 0
                then and_then (check_ca cd policy chain cert i)
                       (\<lambda>_. prepare_next cd cert i cert_depth cert_cp st)
                else Ok st) (\<lambda>st.
      Ok (advance cert st)))))))))"

text \<open>The loop \<open>for i in (0..k).rev()\<close>.\<close>

fun walk_loop ::
  "'x x509_codec_scheme \<Rightarrow> sig_verifier \<Rightarrow> validation_policy \<Rightarrow> certificate list \<Rightarrow> nat \<Rightarrow> working_state
    \<Rightarrow> working_state path_result" where
  "walk_loop cd verifier policy chain 0 st = Ok st"
| "walk_loop cd verifier policy chain (Suc i) st =
     and_then (walk_cert cd verifier policy chain i st) (walk_loop cd verifier policy chain i)"

section \<open>Wrap-up and entry points\<close>

text \<open>Section 6.1.5.\<close>

definition wrap_up ::
  "'x x509_codec_scheme \<Rightarrow> validation_policy \<Rightarrow> certificate list \<Rightarrow> working_state
    \<Rightarrow> policy_node list option path_result" where
  "wrap_up cd policy chain st =
     (let leaf = chain ! 0;
          ep = (if is_self_issued_cert leaf then explicit_policy st
                else saturating_sub (explicit_policy st) 1) in
      and_then (map_err (\<lambda>_. MalformedCertificate 0)
          (try_find_cert_ext (dec_policy_constraints cd) leaf OID_POLICY_CONSTRAINTS)) (\<lambda>pc.
      let ep = min_opt ep (Option.bind pc require_explicit_policy);
          tree = intersect_initial_policies (initial_policy_set policy) (length chain) (policy_tree st)
      in if ep = 0 \<and> tree = None then Err (PolicyViolation 0) else Ok tree))"

definition chain_walk ::
  "'x x509_codec_scheme \<Rightarrow> sig_verifier \<Rightarrow> validation_policy \<Rightarrow> certificate list \<Rightarrow> trust_anchor
    \<Rightarrow> policy_node list option path_result" where
  "chain_walk cd verifier policy chain anchor =
     and_then (walk_loop cd verifier policy chain (length chain)
                 (walk_init anchor policy (length chain)))
       (wrap_up cd policy chain)"

text \<open>The guard on an anchor before the walk is tried.\<close>

definition anchor_candidate :: "certificate \<Rightarrow> trust_anchor \<Rightarrow> bool" where
  "anchor_candidate last_cert anchor =
     (names_match (ta_subject anchor) (issuer (tbs last_cert)) \<and>
      (names_match (issuer (tbs last_cert)) (subject (tbs last_cert)) \<longrightarrow>
       spki_key_matches (ta_spki anchor) (subject_public_key_info (tbs last_cert))))"

text \<open>The loop over the anchors, which returns the first success or the last error.\<close>

fun try_anchors ::
  "(trust_anchor \<Rightarrow> policy_node list option path_result) \<Rightarrow> certificate \<Rightarrow> nat \<Rightarrow> trust_anchor list
    \<Rightarrow> path_error \<Rightarrow> (nat \<times> policy_node list option) path_result" where
  "try_anchors walk last_cert idx [] last_err = Err last_err"
| "try_anchors walk last_cert idx (anchor # anchors) last_err =
     (if \<not> anchor_candidate last_cert anchor then try_anchors walk last_cert (idx + 1) anchors last_err
      else case walk anchor of
        Inr tree \<Rightarrow> Ok (idx, tree)
      | Inl e \<Rightarrow> try_anchors walk last_cert (idx + 1) anchors e)"

definition validate_path ::
  "'x x509_codec_scheme \<Rightarrow> certificate list \<Rightarrow> trust_anchor list \<Rightarrow> validation_policy \<Rightarrow> sig_verifier
    \<Rightarrow> validated_path path_result" where
  "validate_path cd chain anchors policy verifier =
     and_then (check_inputs chain anchors) (\<lambda>_.
     and_then (check_oid_consistency chain) (\<lambda>_.
     let num_non_si_intermediates =
           length (filter (\<lambda>c. \<not> is_self_issued_cert c) (drop 1 chain)) in
     if num_non_si_intermediates > unat (max_path_len policy) then Err PathTooLong
     else and_then (try_anchors (chain_walk cd verifier policy chain) (last chain) 0 anchors
                      NoTrustedPath) (\<lambda>(anchor_index, tree).
     let leaf_tbs = tbs (chain ! 0) in
     Ok \<lparr> vp_anchor_index = anchor_index, vp_depth = length chain - 1,
          vp_leaf_subject = subject leaf_tbs, vp_leaf_issuer = issuer leaf_tbs,
          vp_leaf_serial = serial_number leaf_tbs,
          vp_leaf_spki = subject_public_key_info leaf_tbs, vp_valid_policy_tree = tree \<rparr>)))"

text \<open>A profile is a function from the clock to a policy; the clock is overwritten.\<close>

definition validate_path_with_profile ::
  "'x x509_codec_scheme \<Rightarrow> certificate list \<Rightarrow> trust_anchor list \<Rightarrow> (u64 \<Rightarrow> validation_policy) \<Rightarrow> u64
    \<Rightarrow> sig_verifier \<Rightarrow> validated_path path_result" where
  "validate_path_with_profile cd chain anchors profile now_unix verifier =
     validate_path cd chain anchors ((profile now_unix)\<lparr> current_time_unix := now_unix \<rparr>) verifier"

section \<open>The trace of a successful walk\<close>

text \<open>
  A walk that succeeds passes through a list of states: \<open>ss ! Suc i\<close> is the state before the
  certificate at index \<open>i\<close> and \<open>ss ! i\<close> the state after it.
\<close>

definition walk_trace ::
  "'x x509_codec_scheme \<Rightarrow> sig_verifier \<Rightarrow> validation_policy \<Rightarrow> certificate list \<Rightarrow> trust_anchor
    \<Rightarrow> working_state list \<Rightarrow> bool" where
  "walk_trace cd v policy chain anchor ss \<longleftrightarrow>
     length ss = Suc (length chain) \<and>
     ss ! length chain = walk_init anchor policy (length chain) \<and>
     (\<forall>i<length chain. walk_cert cd v policy chain i (ss ! Suc i) = Inr (ss ! i))"

lemma walk_loop_states:
  "walk_loop cd v policy chain k st = Inr st' \<Longrightarrow>
     \<exists>ss. length ss = Suc k \<and> ss ! k = st \<and> ss ! 0 = st' \<and>
        (\<forall>i<k. walk_cert cd v policy chain i (ss ! Suc i) = Inr (ss ! i))"
proof (induction k arbitrary: st)
  case 0
  then show ?case by (intro exI [of _ "[st]"]) simp
next
  case (Suc k)
  then obtain st1 where 1: "walk_cert cd v policy chain k st = Inr st1"
    "walk_loop cd v policy chain k st1 = Inr st'" by (auto simp: and_then_Ok_iff)
  from Suc.IH [OF 1(2)] obtain ss where ss: "length ss = Suc k" "ss ! k = st1" "ss ! 0 = st'"
    "\<forall>i<k. walk_cert cd v policy chain i (ss ! Suc i) = Inr (ss ! i)" by blast
  with 1 show ?case
    by (intro exI [of _ "ss @ [st]"]) (auto simp: nth_append less_Suc_eq)
qed

lemma chain_walk_trace:
  assumes "chain_walk cd v policy chain anchor = Inr tree"
  obtains ss where "walk_trace cd v policy chain anchor ss" "wrap_up cd policy chain (ss ! 0) = Inr tree"
proof -
  from assms obtain st where "walk_loop cd v policy chain (length chain)
      (walk_init anchor policy (length chain)) = Inr st" "wrap_up cd policy chain st = Inr tree"
    by (auto simp: chain_walk_def and_then_Ok_iff)
  with walk_loop_states [OF this(1)] show ?thesis by (auto simp: walk_trace_def intro: that)
qed

text \<open>Induction along a trace, from the anchor to the leaf.\<close>

lemma trace_induct [consumes 2, case_names init step]:
  assumes "walk_trace cd v policy chain anchor ss" and "i \<le> length chain"
    and init: "P (length chain) (walk_init anchor policy (length chain))"
    and step: "\<And>i. i < length chain \<Longrightarrow> P (Suc i) (ss ! Suc i) \<Longrightarrow>
        walk_cert cd v policy chain i (ss ! Suc i) = Inr (ss ! i) \<Longrightarrow> P i (ss ! i)"
  shows "P i (ss ! i)"
  using assms(2)
proof (induction "length chain - i" arbitrary: i)
  case 0
  with assms(1) init show ?case by (simp add: walk_trace_def)
next
  case (Suc k)
  then have "i < length chain" "P (Suc i) (ss ! Suc i)" by auto
  with assms(1) step show ?case by (simp add: walk_trace_def)
qed

section \<open>What one certificate establishes\<close>

text \<open>The decomposition of a successful loop body.\<close>

lemma walk_cert_Ok:
  assumes "walk_cert cd v policy chain i st = Inr st'"
  obtains cp st1 san st2 where
    "check_basic cd v policy (chain ! i) i st = Inr ()"
    "try_find_cert_ext (dec_certificate_policies cd) (chain ! i) OID_CERTIFICATE_POLICIES = Inr cp"
    "step_policies (chain ! i) i (length chain - i) cp st = Inr st1"
    "cert_subject_alt_names cd (chain ! i) i = Inr san"
    "check_names_step cd (chain ! i) i san st1 = Inr ()"
    "i = 0 \<Longrightarrow> check_leaf cd policy (chain ! i) cp san = Inr () \<and> st2 = st1"
    "0 < i \<Longrightarrow> check_ca cd policy chain (chain ! i) i = Inr () \<and>
       prepare_next cd (chain ! i) i (length chain - i) cp st1 = Inr st2"
    "st' = advance (chain ! i) st2"
proof -
  from assms obtain cp st1 san st2 where
    "check_basic cd v policy (chain ! i) i st = Inr ()"
    "try_find_cert_ext (dec_certificate_policies cd) (chain ! i) OID_CERTIFICATE_POLICIES = Inr cp"
    "step_policies (chain ! i) i (length chain - i) cp st = Inr st1"
    "cert_subject_alt_names cd (chain ! i) i = Inr san"
    "check_names_step cd (chain ! i) i san st1 = Inr ()"
    "(if i = 0 then check_leaf cd policy (chain ! i) cp san else Ok ()) = Inr ()"
    "(if i > 0 then and_then (check_ca cd policy chain (chain ! i) i)
        (\<lambda>_. prepare_next cd (chain ! i) i (length chain - i) cp st1) else Ok st1) = Inr st2"
    "st' = advance (chain ! i) st2"
    unfolding walk_cert_def Let_def and_then_Ok_iff map_err_Ok_iff by auto
  then show ?thesis by (intro that [of cp st1 san st2]) (auto simp: and_then_Ok_iff)
qed

lemma walk_cert_ca:
  "walk_cert cd v policy chain i st = Inr st' \<Longrightarrow> 0 < i \<Longrightarrow>
     \<exists>cp st1 st2. step_policies (chain ! i) i (length chain - i) cp st = Inr st1 \<and>
       prepare_next cd (chain ! i) i (length chain - i) cp st1 = Inr st2 \<and>
       st' = advance (chain ! i) st2"
  by (elim walk_cert_Ok) blast

lemma step_policies_frame:
  "step_policies cert i d cp st = Inr st1 \<Longrightarrow>
     st1 = st\<lparr> policy_tree := policy_tree st1 \<rparr> \<and>
     policy_tree st1 = process_certificate_policies (policy_tree st) cp d
       (inhibit_any st > 0 \<or> (i > 0 \<and> is_self_issued_cert cert)) \<and>
     (explicit_policy st1 = 0 \<longrightarrow> policy_tree st1 \<noteq> None)"
  by (auto simp: step_policies_def Let_def split: if_splits)

lemma step_policies_same:
  "step_policies cert i d cp st = Inr st1 \<Longrightarrow>
     ws_nc st1 = ws_nc st \<and> explicit_policy st1 = explicit_policy st \<and>
     inhibit_any st1 = inhibit_any st \<and> policy_mapping_count st1 = policy_mapping_count st"
  by (auto simp: step_policies_def Let_def split: if_splits)

lemma working_issuer_advance [simp]:
  "working_spki (advance cert st) = subject_public_key_info (tbs cert)"
  "working_issuer_name (advance cert st) = subject (tbs cert)"
  "working_issuer_is_san_identity (advance cert st) = cert_has_san_identity cert"
  "ws_nc (advance cert st) = ws_nc st"
  "explicit_policy (advance cert st) = explicit_policy st"
  "policy_tree (advance cert st) = policy_tree st"
  "inhibit_any (advance cert st) = inhibit_any st"
  "policy_mapping_count (advance cert st) = policy_mapping_count st"
  by (simp_all add: advance_def)

section \<open>A declarative reading of an accepted path\<close>

text \<open>Who issued the certificate at index \<open>i\<close>: the next certificate, or the anchor for the last.\<close>

definition issuer_key :: "certificate list \<Rightarrow> trust_anchor \<Rightarrow> nat \<Rightarrow> spki" where
  "issuer_key chain anchor i =
     (if Suc i < length chain then subject_public_key_info (tbs (chain ! Suc i)) else ta_spki anchor)"

definition issuer_linked :: "certificate list \<Rightarrow> trust_anchor \<Rightarrow> nat \<Rightarrow> bool" where
  "issuer_linked chain anchor i \<longleftrightarrow>
     (if Suc i < length chain
      then cert_has_san_identity (chain ! Suc i) \<or>
           names_match (subject (tbs (chain ! Suc i))) (issuer (tbs (chain ! i)))
      else names_match (ta_subject anchor) (issuer (tbs (chain ! i))))"

text \<open>The limits of a policy on the length of the validity period and on the size of an RSA key.\<close>

definition within_limits :: "'x x509_codec_scheme \<Rightarrow> validation_policy \<Rightarrow> certificate \<Rightarrow> bool" where
  "within_limits cd policy cert \<longleftrightarrow>
     (case max_validity_secs policy of None \<Rightarrow> True
      | Some m \<Rightarrow> unat (not_after (tbs_validity (tbs cert))) - unat (not_before (tbs_validity (tbs cert)))
          \<le> unat m) \<and>
     (case (min_rsa_key_bits policy, rsa_public_key_bits cd (subject_public_key_info (tbs cert))) of
        (Some m, Some b) \<Rightarrow> m \<le> b | _ \<Rightarrow> True)"

text \<open>What section 6.1.3(a) and the deployment checks ask of every certificate.\<close>

definition cert_valid ::
  "'x x509_codec_scheme \<Rightarrow> sig_verifier \<Rightarrow> validation_policy \<Rightarrow> certificate list \<Rightarrow> trust_anchor \<Rightarrow> nat
    \<Rightarrow> bool" where
  "cert_valid cd v policy chain anchor i \<longleftrightarrow>
     (let cert = chain ! i in
      (\<exists>msg. enc_tbs cd (tbs cert) = Ok msg \<and>
         v (signature_algorithm cert) (issuer_key chain anchor i) msg (raw_bytes (cert_signature cert))
           = Ok ()) \<and>
      issuer_linked chain anchor i \<and>
      not_before (tbs_validity (tbs cert)) \<le> current_time_unix policy \<and>
      current_time_unix policy \<le> not_after (tbs_validity (tbs cert)) \<and>
      list_all (\<lambda>e. critical e \<longrightarrow> extn_id e \<in> set HANDLED_CRITICAL_OIDS) (cert_exts cert) \<and>
      (case allowed_signature_algs policy of None \<Rightarrow> True
       | Some allowed \<Rightarrow> alg_oid (signature_algorithm cert) \<in> set allowed) \<and>
      within_limits cd policy cert)"

text \<open>What is asked of every certificate but the leaf.\<close>

definition ca_valid ::
  "'x x509_codec_scheme \<Rightarrow> validation_policy \<Rightarrow> certificate list \<Rightarrow> nat \<Rightarrow> bool" where
  "ca_valid cd policy chain i \<longleftrightarrow>
     (\<exists>bc. find_cert_ext (dec_basic_constraints cd) (chain ! i) OID_BASIC_CONSTRAINTS = Some bc \<and>
        bc_ca bc \<and>
        (enforce_key_usage policy \<longrightarrow>
         (case find_cert_ext (dec_key_usage cd) (chain ! i) OID_KEY_USAGE of
            None \<Rightarrow> find_ext (chain ! i) OID_KEY_USAGE = None | Some ku \<Rightarrow> ku_key_cert_sign ku)) \<and>
        (case path_len_constraint bc of None \<Rightarrow> True
         | Some l \<Rightarrow>
             length (filter (\<lambda>c. \<not> is_self_issued_cert c) (drop 1 (take i chain))) \<le> unat l))"

lemma check_basic_Ok:
  "check_basic cd v policy cert i st = Inr u \<Longrightarrow>
     (\<exists>msg. enc_tbs cd (tbs cert) = Inr msg \<and>
        v (signature_algorithm cert) (working_spki st) msg (raw_bytes (cert_signature cert)) = Inr ()) \<and>
     (working_issuer_is_san_identity st \<or> names_match (working_issuer_name st) (issuer (tbs cert))) \<and>
     not_before (tbs_validity (tbs cert)) \<le> current_time_unix policy \<and>
     current_time_unix policy \<le> not_after (tbs_validity (tbs cert)) \<and>
     list_all (\<lambda>e. critical e \<longrightarrow> extn_id e \<in> set HANDLED_CRITICAL_OIDS) (cert_exts cert) \<and>
     (case allowed_signature_algs policy of None \<Rightarrow> True
       | Some allowed \<Rightarrow> alg_oid (signature_algorithm cert) \<in> set allowed) \<and>
     within_limits cd policy cert"
  by (simp add: check_basic_def and_then_Ok_iff check_simps list_all_iff within_limits_def)

lemma has_key_cert_sign_ok:
  "has_key_cert_sign cd cert = Inr ku \<Longrightarrow> ku \<noteq> Some False \<Longrightarrow>
     (case find_cert_ext (dec_key_usage cd) cert OID_KEY_USAGE of
        None \<Rightarrow> find_ext cert OID_KEY_USAGE = None | Some k \<Rightarrow> ku_key_cert_sign k)"
  by (auto simp: has_key_cert_sign_def try_find_cert_ext_def find_cert_ext_def map_ok_def
      split: option.splits sum.splits)

lemma check_ca_Ok:
  assumes "check_ca cd policy chain (chain ! i) i = Inr u"
  shows "ca_valid cd policy chain i"
proof -
  from assms obtain q where q: "try_find_cert_ext (dec_basic_constraints cd) (chain ! i)
      OID_BASIC_CONSTRAINTS = Inr q" "case q of None \<Rightarrow> False | Some b \<Rightarrow> bc_ca b"
    and ku: "(if enforce_key_usage policy
       then and_then (map_err (\<lambda>_. MalformedCertificate i) (has_key_cert_sign cd (chain ! i)))
              (\<lambda>ku. guard_or (ku \<noteq> Some False) (KeyUsageMissing i)) else Ok ()) = Inr ()"
    and pl: "(case Option.bind q path_len_constraint of None \<Rightarrow> Ok ()
       | Some l \<Rightarrow> (let d = length (filter (\<lambda>c. \<not> is_self_issued_cert c) (drop 1 (take i chain)))
           in if d > unat l then Err PathTooLong else Ok ())) = Inr u"
    unfolding check_ca_def and_then_Ok_iff map_err_Ok_iff by auto
  from q obtain bc where bc: "q = Some bc" "bc_ca bc" by (cases q) auto
  from q(1) bc have "find_cert_ext (dec_basic_constraints cd) (chain ! i) OID_BASIC_CONSTRAINTS = Some bc"
    by (auto dest: try_find_ok_find)
  moreover from ku have "enforce_key_usage policy \<longrightarrow>
      (case find_cert_ext (dec_key_usage cd) (chain ! i) OID_KEY_USAGE of
         None \<Rightarrow> find_ext (chain ! i) OID_KEY_USAGE = None | Some ku \<Rightarrow> ku_key_cert_sign ku)"
    using has_key_cert_sign_ok [of cd "chain ! i"] by (auto simp: and_then_Ok_iff)
  moreover from pl bc have "case path_len_constraint bc of None \<Rightarrow> True
      | Some l \<Rightarrow> length (filter (\<lambda>c. \<not> is_self_issued_cert c) (drop 1 (take i chain))) \<le> unat l"
    by (auto simp: Let_def split: option.splits if_splits)
  ultimately show ?thesis using bc unfolding ca_valid_def by blast
qed

lemma trace_issuer:
  assumes "walk_trace cd v policy chain anchor ss" and "i < length chain"
  shows "working_spki (ss ! Suc i) = issuer_key chain anchor i \<and>
     (working_issuer_is_san_identity (ss ! Suc i) \<or>
        names_match (working_issuer_name (ss ! Suc i)) (issuer (tbs (chain ! i)))
      \<longleftrightarrow> issuer_linked chain anchor i)"
proof (cases "Suc i < length chain")
  case True
  with assms(1) have "walk_cert cd v policy chain (Suc i) (ss ! Suc (Suc i)) = Inr (ss ! Suc i)"
    by (simp add: walk_trace_def)
  then obtain st where "ss ! Suc i = advance (chain ! Suc i) st" by (rule walk_cert_Ok)
  with True show ?thesis by (simp add: issuer_key_def issuer_linked_def)
next
  case False
  with assms have "ss ! Suc i = walk_init anchor policy (length chain)"
    by (auto simp: walk_trace_def dest: less_antisym)
  with False show ?thesis by (simp add: issuer_key_def issuer_linked_def walk_init_def Let_def)
qed

lemma trace_cert_valid:
  assumes "walk_trace cd v policy chain anchor ss" and "i < length chain"
  shows "cert_valid cd v policy chain anchor i \<and> (0 < i \<longrightarrow> ca_valid cd policy chain i)"
proof -
  from assms have "walk_cert cd v policy chain i (ss ! Suc i) = Inr (ss ! i)"
    by (simp add: walk_trace_def)
  then have b: "check_basic cd v policy (chain ! i) i (ss ! Suc i) = Inr ()"
    and ca: "0 < i \<Longrightarrow> check_ca cd policy chain (chain ! i) i = Inr ()"
    by (auto elim: walk_cert_Ok)
  from check_basic_Ok [OF b] trace_issuer [OF assms]
  have "cert_valid cd v policy chain anchor i" by (simp add: cert_valid_def Let_def)
  then show ?thesis using check_ca_Ok [OF ca] by blast
qed

section \<open>Name constraints along a walk\<close>

definition nc_of :: "'x x509_codec_scheme \<Rightarrow> certificate \<Rightarrow> name_constraints list" where
  "nc_of cd cert =
     (case find_cert_ext (dec_name_constraints cd) cert OID_NAME_CONSTRAINTS of
        None \<Rightarrow> [] | Some c \<Rightarrow> [c])"

text \<open>The constraints of the certificates above index \<open>i\<close>, in the order they are processed.\<close>

definition ca_constraints :: "'x x509_codec_scheme \<Rightarrow> certificate list \<Rightarrow> nat \<Rightarrow> name_constraints list" where
  "ca_constraints cd chain i =
     concat (map (\<lambda>j. nc_of cd (chain ! j)) (rev [i..<length chain]))"

lemma cert_name_constraints_Ok:
  "cert_name_constraints cd cert i = Inr q \<Longrightarrow>
     find_cert_ext (dec_name_constraints cd) cert OID_NAME_CONSTRAINTS = q"
  by (auto simp: cert_name_constraints_def and_then_Ok_iff dest: try_find_ok_find)

text \<open>The decomposition of a successful preparation.\<close>

lemma prepare_next_Ok:
  assumes "prepare_next cd cert i d cp st = Inr st2"
  obtains pm pc iap where
    "process_policy_mappings (policy_tree st) pm cp d (policy_mapping_count st) i = Inr (policy_tree st2)"
    "find_cert_ext (dec_policy_constraints cd) cert OID_POLICY_CONSTRAINTS = pc"
    "explicit_policy st2 =
       explicit_policy (clamp_constraints pc (decrement_counters cert st))"
    "inhibit_any st2 = min_opt (inhibit_any (decrement_counters cert st)) iap"
    "ws_nc st2 = fold nc_update (nc_of cd cert) (ws_nc st)"
proof -
  from assms obtain pm tree pc iap nc where
    1: "process_policy_mappings (policy_tree st) pm cp d (policy_mapping_count st) i = Inr tree"
    and 2: "try_find_cert_ext (dec_policy_constraints cd) cert OID_POLICY_CONSTRAINTS = Inr pc"
    and 3: "cert_name_constraints cd cert i = Inr nc"
    and 4: "st2 = (let st = clamp_constraints pc (decrement_counters cert (st\<lparr> policy_tree := tree \<rparr>));
                 st = st\<lparr> inhibit_any := min_opt (inhibit_any st) iap \<rparr>
             in case nc of None \<Rightarrow> st | Some c \<Rightarrow> st\<lparr> ws_nc := nc_update c (ws_nc st) \<rparr>)"
    by (auto simp: prepare_next_def Let_def and_then_Ok_iff)
  show ?thesis
  proof (rule that [of pm pc iap])
    show "process_policy_mappings (policy_tree st) pm cp d (policy_mapping_count st) i
        = Inr (policy_tree st2)"
      using 1 4 by (auto simp: Let_def clamp_constraints_def decrement_counters_def split: option.splits)
    show "find_cert_ext (dec_policy_constraints cd) cert OID_POLICY_CONSTRAINTS = pc"
      using 2 by (rule try_find_ok_find)
    show "explicit_policy st2 = explicit_policy (clamp_constraints pc (decrement_counters cert st))"
      "inhibit_any st2 = min_opt (inhibit_any (decrement_counters cert st)) iap"
      using 4 by (auto simp: Let_def clamp_constraints_def decrement_counters_def split: option.splits)
    show "ws_nc st2 = fold nc_update (nc_of cd cert) (ws_nc st)"
      using 4 cert_name_constraints_Ok [OF 3]
      by (auto simp: nc_of_def Let_def clamp_constraints_def decrement_counters_def split: option.splits)
  qed
qed

lemma ca_constraints_Suc:
  "i < length chain \<Longrightarrow> ca_constraints cd chain i = ca_constraints cd chain (Suc i) @ nc_of cd (chain ! i)"
  by (simp add: ca_constraints_def upt_conv_Cons)

lemma trace_nc:
  assumes "walk_trace cd v policy chain anchor ss" and "i \<le> length chain" and "0 < i"
  shows "ws_nc (ss ! i) = fold nc_update (ca_constraints cd chain i) (nc_init anchor)"
  using assms
proof (induction rule: trace_induct)
  case init
  then show ?case by (simp add: ca_constraints_def walk_init_def Let_def)
next
  case (step i)
  then obtain cp st1 st2 where
    "step_policies (chain ! i) i (length chain - i) cp (ss ! Suc i) = Inr st1"
    "prepare_next cd (chain ! i) i (length chain - i) cp st1 = Inr st2"
    "ss ! i = advance (chain ! i) st2"
    using walk_cert_ca by blast
  then have "ws_nc (ss ! i) = fold nc_update (nc_of cd (chain ! i)) (ws_nc (ss ! Suc i))"
    by (auto elim!: prepare_next_Ok dest!: step_policies_same)
  with step show ?case by (simp add: ca_constraints_Suc)
qed

lemma trace_names:
  assumes "walk_trace cd v policy chain anchor ss" and "i < length chain"
    and "i = 0 \<or> \<not> is_self_issued_cert (chain ! i)"
  shows "list_all (nc_admits (fold nc_update (ca_constraints cd chain (Suc i)) (nc_init anchor)))
     (constrained_names cd (chain ! i)
        (find_cert_ext (dec_general_names cd) (chain ! i) OID_SUBJECT_ALT_NAME))"
proof -
  from assms have "walk_cert cd v policy chain i (ss ! Suc i) = Inr (ss ! i)"
    by (simp add: walk_trace_def)
  then obtain cp st1 san where
    st1: "step_policies (chain ! i) i (length chain - i) cp (ss ! Suc i) = Inr st1"
    and san: "cert_subject_alt_names cd (chain ! i) i = Inr san"
    and nc: "check_names_step cd (chain ! i) i san st1 = Inr ()"
    by (rule walk_cert_Ok)
  have "ws_nc st1 = fold nc_update (ca_constraints cd chain (Suc i)) (nc_init anchor)"
    using trace_nc [OF assms(1), of "Suc i"] assms(2) step_policies_same [OF st1] by simp
  moreover have "find_cert_ext (dec_general_names cd) (chain ! i) OID_SUBJECT_ALT_NAME = san"
    using san by (simp add: cert_subject_alt_names_def try_find_ok_find)
  ultimately show ?thesis
    using nc assms(3)
    by (auto simp: check_names_step_def list_all_iff
        check_name_constraints_Ok [OF mask_ok_fold [OF mask_ok_init]])
qed

section \<open>Explicit policy along a walk\<close>

lemma min_opt_0 [simp]: "min_opt 0 q = 0"
  by (simp add: min_opt_def split: option.splits)

lemma explicit_zero_clamp:
  "explicit_policy st = 0 \<Longrightarrow> explicit_policy (clamp_constraints pc (decrement_counters cert st)) = 0"
  by (simp add: clamp_constraints_def decrement_counters_def split: option.splits)

lemma explicit_required_clamp:
  "require_explicit_policy c = Some 0 \<Longrightarrow> explicit_policy (clamp_constraints (Some c) st) = 0"
  by (simp add: clamp_constraints_def min_opt_def)

text \<open>Once the counter is zero it stays zero.\<close>

lemma walk_cert_explicit_zero:
  assumes "walk_cert cd v policy chain i st = Inr st'" and "explicit_policy st = 0"
  shows "explicit_policy st' = 0"
  using assms(1)
proof (rule walk_cert_Ok)
  fix cp st1 san st2
  assume s: "step_policies (chain ! i) i (length chain - i) cp st = Inr st1"
    and l: "i = 0 \<Longrightarrow> check_leaf cd policy (chain ! i) cp san = Inr () \<and> st2 = st1"
    and c: "0 < i \<Longrightarrow> check_ca cd policy chain (chain ! i) i = Inr () \<and>
       prepare_next cd (chain ! i) i (length chain - i) cp st1 = Inr st2"
    and st': "st' = advance (chain ! i) st2"
  have z: "explicit_policy st1 = 0" using step_policies_same [OF s] assms(2) by simp
  show ?thesis
  proof (cases "i = 0")
    case True
    with l z st' show ?thesis by simp
  next
    case False
    with c have "prepare_next cd (chain ! i) i (length chain - i) cp st1 = Inr st2" by simp
    then show ?thesis using z st' by (auto elim!: prepare_next_Ok intro: explicit_zero_clamp)
  qed
qed

lemma trace_explicit_zero:
  assumes "walk_trace cd v policy chain anchor ss" and "k \<le> length chain"
    and "explicit_policy (ss ! k) = 0" and "j \<le> k"
  shows "explicit_policy (ss ! j) = 0"
  using assms(4)
proof (induction "k - j" arbitrary: j)
  case 0
  with assms(3) show ?case by simp
next
  case (Suc m)
  then have "explicit_policy (ss ! Suc j) = 0" by simp
  moreover have "walk_cert cd v policy chain j (ss ! Suc j) = Inr (ss ! j)"
    using Suc(2) assms(1,2) by (simp add: walk_trace_def)
  ultimately show ?case using walk_cert_explicit_zero by blast
qed

lemma trace_final_tree:
  assumes "walk_trace cd v policy chain anchor ss" and "chain \<noteq> []"
    and "policy_tree (ss ! 0) = Some T"
  shows "has_policy_node (Some T)"
proof -
  from assms have "walk_cert cd v policy chain 0 (ss ! Suc 0) = Inr (ss ! 0)"
    by (simp add: walk_trace_def)
  then obtain cp st1 where "step_policies (chain ! 0) 0 (length chain - 0) cp (ss ! Suc 0) = Inr st1"
    "ss ! 0 = advance (chain ! 0) st1"
    by (rule walk_cert_Ok) auto
  with assms(3) show ?thesis
    by (auto dest!: step_policies_frame intro: process_cp_has_node)
qed

lemma wrap_up_explicit:
  assumes "wrap_up cd policy chain st = Inr tree" and "explicit_policy st = 0"
  shows "tree \<noteq> None \<and> tree = intersect_initial_policies (initial_policy_set policy) (length chain) (policy_tree st)"
  using assms by (auto simp: wrap_up_def Let_def and_then_Ok_iff split: if_splits)

lemma walk_explicit_tree:
  assumes "walk_trace cd v policy chain anchor ss" and "chain \<noteq> []"
    and "wrap_up cd policy chain (ss ! 0) = Inr tree"
    and "k \<le> length chain" and "explicit_policy (ss ! k) = 0"
  shows "has_policy_node tree"
proof -
  have "explicit_policy (ss ! 0) = 0" using trace_explicit_zero [OF assms(1,4,5)] by simp
  from wrap_up_explicit [OF assms(3) this] obtain T where
    T: "tree = Some T" "intersect_initial_policies (initial_policy_set policy) (length chain)
          (policy_tree (ss ! 0)) = Some T" by auto
  then obtain T0 where "policy_tree (ss ! 0) = Some T0" by (cases "policy_tree (ss ! 0)") auto
  with T trace_final_tree [OF assms(1,2)] show ?thesis by (auto intro: intersect_has_node)
qed

section \<open>The choice of the anchor\<close>

lemma try_anchors_Ok_iff:
  "try_anchors walk c idx anchors e = Inr (k, tree) \<longleftrightarrow>
     (\<exists>j<length anchors. k = idx + j \<and> anchor_candidate c (anchors ! j) \<and>
        walk (anchors ! j) = Inr tree \<and>
        (\<forall>l<j. anchor_candidate c (anchors ! l) \<longrightarrow> \<not> is_ok (walk (anchors ! l))))"
proof (induction anchors arbitrary: idx e)
  case (Cons a anchors)
  have split: "(\<exists>j<length (a # anchors). P j) \<longleftrightarrow> P 0 \<or> (\<exists>j<length anchors. P (Suc j))" for P
    by (auto simp: less_Suc_eq_0_disj)
  have all: "(\<forall>l<Suc j. Q l) \<longleftrightarrow> Q 0 \<and> (\<forall>l<j. Q (Suc l))" for Q j
    by (auto simp: less_Suc_eq_0_disj)
  show ?case
    unfolding split all
    by (cases "anchor_candidate c a"; cases "walk a") (auto simp: Cons.IH)
qed simp

lemma try_anchors_complete:
  "is_ok (try_anchors walk c idx anchors e) \<longleftrightarrow>
     list_ex (\<lambda>a. anchor_candidate c a \<and> is_ok (walk a)) anchors"
  by (induction anchors arbitrary: idx e) (auto split: sum.splits)

lemma validate_path_Ok:
  assumes "validate_path cd chain anchors policy v = Inr vp"
  obtains k where "check_inputs chain anchors = Inr ()" "check_oid_consistency chain = Inr ()"
    "length (filter (\<lambda>c. \<not> is_self_issued_cert c) (drop 1 chain)) \<le> unat (max_path_len policy)"
    "k < length anchors" "k = vp_anchor_index vp" "anchor_candidate (last chain) (anchors ! k)"
    "chain_walk cd v policy chain (anchors ! k) = Inr (vp_valid_policy_tree vp)"
    "\<forall>l<k. anchor_candidate (last chain) (anchors ! l) \<longrightarrow>
       \<not> is_ok (chain_walk cd v policy chain (anchors ! l))"
proof -
  from assms obtain k tree where
    "check_inputs chain anchors = Inr ()" "check_oid_consistency chain = Inr ()"
    "length (filter (\<lambda>c. \<not> is_self_issued_cert c) (drop 1 chain)) \<le> unat (max_path_len policy)"
    "try_anchors (chain_walk cd v policy chain) (last chain) 0 anchors NoTrustedPath = Inr (k, tree)"
    "vp_anchor_index vp = k" "vp_valid_policy_tree vp = tree"
    by (auto simp: validate_path_def and_then_Ok_iff Let_def split: if_splits)
  then show ?thesis by (intro that [of k]) (auto simp: try_anchors_Ok_iff)
qed

section \<open>What is asked of the leaf\<close>

definition leaf_meets ::
  "'x x509_codec_scheme \<Rightarrow> validation_policy \<Rightarrow> certificate \<Rightarrow> bool" where
  "leaf_meets cd policy cert \<longleftrightarrow>
     (let san = unwrap_or [] (find_cert_ext (dec_general_names cd) cert OID_SUBJECT_ALT_NAME);
          eku = unwrap_or [] (find_cert_ext (dec_extended_key_usage cd) cert OID_EXTENDED_KEY_USAGE);
          cps = unwrap_or [] (find_cert_ext (dec_certificate_policies cd) cert OID_CERTIFICATE_POLICIES)
      in (require_subject_alt_name policy \<longrightarrow> san \<noteq> []) \<and>
         (require_subject_alt_name policy \<and> require_rfc822_san policy \<longrightarrow> list_ex is_rfc822 san) \<and>
         set (unwrap_or [] (required_leaf_eku policy)) \<subseteq> set eku \<and>
         set (unwrap_or [] (required_leaf_policy_oids policy)) \<subseteq> policy_ids cps \<and>
         (case required_leaf_subject_dn_attrs policy of None \<Rightarrow> True
          | Some r \<Rightarrow> evaluate_dn_attr_rule (subject (tbs cert)) r))"

lemma check_leaf_eku_Ok:
  "check_leaf_eku cd policy cert = Inr u \<Longrightarrow>
     set (unwrap_or [] (required_leaf_eku policy)) \<subseteq>
     set (unwrap_or [] (find_cert_ext (dec_extended_key_usage cd) cert OID_EXTENDED_KEY_USAGE))"
  by (auto simp: check_leaf_eku_def and_then_Ok_iff try_all_Ok_iff dest!: try_find_ok_find
      split: option.splits if_splits)

lemma check_leaf_policy_oids_Ok:
  "check_leaf_policy_oids policy cp = Inr u \<Longrightarrow>
     set (unwrap_or [] (required_leaf_policy_oids policy)) \<subseteq> policy_ids (unwrap_or [] cp)"
  by (force simp: check_leaf_policy_oids_def try_all_Ok_iff list_ex_iff policy_ids_def
      split: option.splits list.splits if_splits)

lemma trace_leaf_meets:
  assumes "walk_trace cd v policy chain anchor ss" and "chain \<noteq> []"
  shows "leaf_meets cd policy (chain ! 0)"
proof -
  from assms have "walk_cert cd v policy chain 0 (ss ! Suc 0) = Inr (ss ! 0)"
    by (simp add: walk_trace_def)
  then obtain cp san where
    cp: "find_cert_ext (dec_certificate_policies cd) (chain ! 0) OID_CERTIFICATE_POLICIES = cp"
    and san: "find_cert_ext (dec_general_names cd) (chain ! 0) OID_SUBJECT_ALT_NAME = san"
    and l: "check_leaf cd policy (chain ! 0) cp san = Inr ()"
    by (rule walk_cert_Ok) (auto simp: cert_subject_alt_names_def try_find_ok_find)
  from l check_leaf_eku_Ok [of cd policy "chain ! 0"] check_leaf_policy_oids_Ok [of policy cp]
  show ?thesis unfolding leaf_meets_def Let_def cp san
    by (auto simp: check_leaf_def and_then_Ok_iff split: option.splits)
qed

section \<open>Properties\<close>

definition path_accepted ::
  "'x x509_codec_scheme \<Rightarrow> sig_verifier \<Rightarrow> validation_policy \<Rightarrow> certificate list \<Rightarrow> trust_anchor \<Rightarrow> bool" where
  "path_accepted cd v policy chain anchor \<longleftrightarrow>
     chain \<noteq> [] \<and>
     list_all (cert_valid cd v policy chain anchor) [0..<length chain] \<and>
     list_all (ca_valid cd policy chain) [1..<length chain] \<and>
     length (filter (\<lambda>c. \<not> is_self_issued_cert c) (drop 1 chain)) \<le> unat (max_path_len policy) \<and>
     (\<forall>i j. i < j \<longrightarrow> j < length chain \<longrightarrow> \<not> same_issuer_serial (chain ! i) (chain ! j)) \<and>
     leaf_meets cd policy (chain ! 0)"

lemma validate_path_accepted:
  assumes "validate_path cd chain anchors policy v = Ok vp"
  shows "vp_anchor_index vp < length anchors \<and>
     path_accepted cd v policy chain (anchors ! vp_anchor_index vp)"
  using assms
proof (rule validate_path_Ok)
  fix k
  assume inputs: "check_inputs chain anchors = Inr ()"
    and len: "length (filter (\<lambda>c. \<not> is_self_issued_cert c) (drop 1 chain)) \<le> unat (max_path_len policy)"
    and k: "k < length anchors" "k = vp_anchor_index vp"
    and walk: "chain_walk cd v policy chain (anchors ! k) = Inr (vp_valid_policy_tree vp)"
  from walk obtain ss where ss: "walk_trace cd v policy chain (anchors ! k) ss"
    by (rule chain_walk_trace)
  have "chain \<noteq> []" using inputs by (simp add: check_inputs_Ok)
  then show ?thesis
    using trace_cert_valid [OF ss] trace_leaf_meets [OF ss] inputs len k
    by (auto simp: path_accepted_def list_all_iff check_inputs_Ok)
qed

text \<open>
  C2. When \<open>validate_path\<close> accepts, the anchor it names starts an unbroken chain: every certificate is
  signed by the key of the next one (the last by the anchor's key) and names it as its issuer, is
  within its validity period, has only handled critical extensions, an allowed algorithm, and a
  validity period and RSA key within the limits of the policy; every
  certificate but the leaf is a CA whose key may sign certificates and whose path length constraint
  holds; no certificate occurs twice, the path is not too long, and the leaf meets the policy's
  requirements on names, key usages, policies and subject attributes.
\<close>

theorem validate_path_sound:
  assumes "validate_path cd chain anchors policy v = Ok vp"
  shows "vp_anchor_index vp < length anchors \<and>
     path_accepted cd v policy chain (anchors ! vp_anchor_index vp)"
  using assms by (rule validate_path_accepted)

text \<open>The example chain the witnesses use.\<close>

definition ex_policy_150 :: validation_policy where
  "ex_policy_150 = validation_policy_new 150"

definition ex_chain :: "certificate list" where
  "ex_chain = [ex_cert 3 2 [ex_ext OID_SUBJECT_ALT_NAME [1]], ex_ca 2 1 [ex_ext OID_NAME_CONSTRAINTS [3]]]"

lemma ex_chain_ok: "is_ok (validate_path ex_codec ex_chain [ex_anchor 1] ex_policy_150 ex_verifier)"
  by code_simp

theorem validate_path_sound_witness:
  "\<exists>vp. validate_path ex_codec ex_chain [ex_anchor 1] ex_policy_150 ex_verifier = Ok vp \<and>
     vp_anchor_index vp < length [ex_anchor 1] \<and>
     path_accepted ex_codec ex_verifier ex_policy_150 ex_chain ([ex_anchor 1] ! vp_anchor_index vp)"
proof -
  obtain vp where "validate_path ex_codec ex_chain [ex_anchor 1] ex_policy_150 ex_verifier = Ok vp"
    using ex_chain_ok by (auto simp: is_ok_iff)
  with validate_path_sound [OF this] show ?thesis by blast
qed

text \<open>
  C3. \<open>validate_path\<close> is complete over the anchors: it succeeds exactly when the inputs pass the
  guards and the walk succeeds from some anchor whose name (and, for a self-issued last certificate,
  key) fits, whichever position it has among anchors that share the name.
\<close>

theorem validate_path_complete:
  "is_ok (validate_path cd chain anchors policy v) \<longleftrightarrow>
     is_ok (check_inputs chain anchors) \<and> is_ok (check_oid_consistency chain) \<and>
     length (filter (\<lambda>c. \<not> is_self_issued_cert c) (drop 1 chain)) \<le> unat (max_path_len policy) \<and>
     list_ex (\<lambda>a. anchor_candidate (last chain) a \<and> is_ok (chain_walk cd v policy chain a)) anchors"
proof -
  have "is_ok (and_then r f) \<longleftrightarrow> (\<exists>x. r = Inr x \<and> is_ok (f x))" for r :: "'e + 'a" and f :: "'a \<Rightarrow> 'e + 'b"
    by (cases r) auto
  then show ?thesis
    unfolding validate_path_def Let_def try_anchors_complete
      [of "chain_walk cd v policy chain" "last chain" 0 anchors NoTrustedPath, symmetric]
    by (auto simp: is_ok_iff and_then_Ok_iff split: if_splits prod.splits)
qed

text \<open>
  C4. Name constraints reach every certificate below: in an accepted path no name of the leaf, or of an
  intermediate that is not self-issued, lies in a subtree that the anchor or any CA above it excludes.
\<close>

theorem validate_path_excluded_names:
  assumes "validate_path cd chain anchors policy v = Ok vp" and "i < length chain"
    and "i = 0 \<or> \<not> is_self_issued_cert (chain ! i)"
    and "n \<in> set (constrained_names cd (chain ! i)
            (find_cert_ext (dec_general_names cd) (chain ! i) OID_SUBJECT_ALT_NAME))"
  shows "\<not> list_ex (\<lambda>j. list_ex (\<lambda>c. excluded_by c n) (nc_of cd (chain ! j))) [Suc i..<length chain] \<and>
     \<not> nc.covers (set (nc_excluded (nc_init (anchors ! vp_anchor_index vp)))) n"
  using assms(1)
proof (rule validate_path_Ok)
  fix k
  assume k: "k = vp_anchor_index vp"
    and "chain_walk cd v policy chain (anchors ! k) = Inr (vp_valid_policy_tree vp)"
  then obtain ss where "walk_trace cd v policy chain (anchors ! k) ss" by (elim chain_walk_trace)
  from trace_names [OF this assms(2,3)] assms(4)
  have "\<not> nc.covers (set (nc_excluded (fold nc_update (ca_constraints cd chain (Suc i))
      (nc_init (anchors ! k))))) n"
    by (auto simp: list_all_iff nc_admits_def)
  then show ?thesis
    by (auto simp: nc_excluded_fold k list_ex_iff ca_constraints_def)
qed

theorem validate_path_excluded_names_witness:
  "\<exists>k. \<not> list_ex (\<lambda>j. list_ex (\<lambda>c. excluded_by c (DnsName ''a.com'')) (nc_of ex_codec (ex_chain ! j)))
     [Suc 0..<length ex_chain] \<and>
   \<not> nc.covers (set (nc_excluded (nc_init ([ex_anchor 1] ! k)))) (DnsName ''a.com'')"
proof -
  obtain vp where "validate_path ex_codec ex_chain [ex_anchor 1] ex_policy_150 ex_verifier = Ok vp"
    using ex_chain_ok by (auto simp: is_ok_iff)
  moreover have "0 < length ex_chain" by (simp add: ex_chain_def)
  moreover have "list_ex (\<lambda>n. n = DnsName ''a.com'') (constrained_names ex_codec (ex_chain ! 0)
      (find_cert_ext (dec_general_names ex_codec) (ex_chain ! 0) OID_SUBJECT_ALT_NAME))"
    by code_simp
  ultimately show ?thesis
    using validate_path_excluded_names [of ex_codec ex_chain "[ex_anchor 1]" ex_policy_150 ex_verifier
        vp 0 "DnsName ''a.com''"]
    by (auto simp: list_ex_iff)
qed

text \<open>
  C5. When the caller asks for an explicit policy, or some CA on the path requires one at once
  (requireExplicitPolicy 0), an accepted path comes with a policy tree that is not NULL and has a node
  below the root.
\<close>

theorem explicit_policy_enforced:
  assumes "validate_path cd chain anchors policy v = Ok vp"
    and "initial_explicit_policy policy \<or>
      list_ex (\<lambda>cert. case find_cert_ext (dec_policy_constraints cd) cert OID_POLICY_CONSTRAINTS of
         None \<Rightarrow> False | Some c \<Rightarrow> require_explicit_policy c = Some 0) (drop 1 chain)"
  shows "has_policy_node (vp_valid_policy_tree vp)"
  using assms(1)
proof (rule validate_path_Ok)
  fix k
  assume "check_inputs chain anchors = Inr ()"
    and "chain_walk cd v policy chain (anchors ! k) = Inr (vp_valid_policy_tree vp)"
  then obtain ss where ne: "chain \<noteq> []" and ss: "walk_trace cd v policy chain (anchors ! k) ss"
    and wrap: "wrap_up cd policy chain (ss ! 0) = Inr (vp_valid_policy_tree vp)"
    by (auto simp: check_inputs_Ok elim: chain_walk_trace)
  have "\<exists>j\<le>length chain. explicit_policy (ss ! j) = 0"
  proof (cases "initial_explicit_policy policy")
    case True
    with ss have "explicit_policy (ss ! length chain) = 0"
      by (simp add: walk_trace_def walk_init_def Let_def)
    then show ?thesis by blast
  next
    case False
    with assms(2) obtain j c where j: "0 < j" "j < length chain"
      "find_cert_ext (dec_policy_constraints cd) (chain ! j) OID_POLICY_CONSTRAINTS = Some c"
      "require_explicit_policy c = Some 0"
      by (force simp: list_ex_iff in_set_conv_nth split: option.splits)
    with ss have "walk_cert cd v policy chain j (ss ! Suc j) = Inr (ss ! j)"
      by (simp add: walk_trace_def)
    from walk_cert_ca [OF this j(1)] have "explicit_policy (ss ! j) = 0"
      using j(3,4) by (auto elim!: prepare_next_Ok simp: explicit_required_clamp)
    then show ?thesis using j(2) less_imp_le by blast
  qed
  then show ?thesis using walk_explicit_tree [OF ss ne wrap] by blast
qed

definition ex_policy_chain :: "certificate list" where
  "ex_policy_chain =
     [ex_cert 3 2 [ex_ext OID_CERTIFICATE_POLICIES [1]],
      ex_ca 2 1 [ex_ext OID_CERTIFICATE_POLICIES [0], ex_ext OID_POLICY_CONSTRAINTS [0]]]"

lemma ex_policy_chain_ok:
  "is_ok (validate_path ex_codec ex_policy_chain [ex_anchor 1] ex_policy_150 ex_verifier)"
  by code_simp

theorem explicit_policy_enforced_witness:
  "\<exists>vp. validate_path ex_codec ex_policy_chain [ex_anchor 1] ex_policy_150 ex_verifier = Ok vp \<and>
     has_policy_node (vp_valid_policy_tree vp)"
proof -
  obtain vp where "validate_path ex_codec ex_policy_chain [ex_anchor 1] ex_policy_150 ex_verifier = Ok vp"
    using ex_policy_chain_ok by (auto simp: is_ok_iff)
  moreover have "list_ex (\<lambda>cert. case find_cert_ext (dec_policy_constraints ex_codec) cert
      OID_POLICY_CONSTRAINTS of None \<Rightarrow> False | Some c \<Rightarrow> require_explicit_policy c = Some 0)
      (drop 1 ex_policy_chain)"
    by code_simp
  ultimately show ?thesis using explicit_policy_enforced by blast
qed

text \<open>
  Permitted subtrees can be escaped through one more CA: the CA next to the anchor permits only
  a.com, the two below it b.com. The path with one of them is refused, the path with both is accepted,
  with a leaf named b.com that the first CA does not permit.
\<close>

definition ex_escape_chain :: "certificate list" where
  "ex_escape_chain =
     [ex_cert 5 4 [ex_ext OID_SUBJECT_ALT_NAME [2]], ex_ca 4 3 [ex_ext OID_NAME_CONSTRAINTS [2]],
      ex_ca 3 2 [ex_ext OID_NAME_CONSTRAINTS [2]], ex_ca 2 1 [ex_ext OID_NAME_CONSTRAINTS [1]]]"

definition ex_refused_chain :: "certificate list" where
  "ex_refused_chain =
     [ex_cert 5 3 [ex_ext OID_SUBJECT_ALT_NAME [2]], ex_ca 3 2 [ex_ext OID_NAME_CONSTRAINTS [2]],
      ex_ca 2 1 [ex_ext OID_NAME_CONSTRAINTS [1]]]"

lemma ex_first_ca_forbids: "\<not> permitted_by (ex_permit [DnsName ''a.com'']) (DnsName ''b.com'')"
  unfolding permitted_by_def nc.permits_def covers_code nc.restricts_def list_ex_iff [symmetric]
  by code_simp

theorem permitted_subtrees_escape:
  "validate_path ex_codec ex_refused_chain [ex_anchor 1] ex_policy_150 ex_verifier
     = Err (NameConstraintViolation 0) \<and>
   is_ok (validate_path ex_codec ex_escape_chain [ex_anchor 1] ex_policy_150 ex_verifier) \<and>
   nc_of ex_codec (last ex_escape_chain) = [ex_permit [DnsName ''a.com'']] \<and>
   \<not> permitted_by (ex_permit [DnsName ''a.com'']) (DnsName ''b.com'')"
proof (intro conjI)
  show "validate_path ex_codec ex_refused_chain [ex_anchor 1] ex_policy_150 ex_verifier
      = Err (NameConstraintViolation 0)"
    by code_simp
  show "is_ok (validate_path ex_codec ex_escape_chain [ex_anchor 1] ex_policy_150 ex_verifier)"
    by code_simp
  show "nc_of ex_codec (last ex_escape_chain) = [ex_permit [DnsName ''a.com'']]"
    by code_simp
qed (rule ex_first_ca_forbids)

text \<open>
  A policy outside the caller's set can be accepted: with an explicit policy required and the
  caller's set {1.2.2}, the path of a leaf that asserts only 1.2.1 below a CA that asserts anyPolicy is
  valid. The anyPolicy node is pruned although it is the parent of the leaf's node, because a parent
  is recognised by its expected policies only, and the intersection then no longer sees the leaf's
  node as the child of anyPolicy.
\<close>

definition ex_any_chain :: "certificate list" where
  "ex_any_chain =
     [ex_cert 3 2 [ex_ext OID_CERTIFICATE_POLICIES [1]], ex_ca 2 1 [ex_ext OID_CERTIFICATE_POLICIES [0]]]"

theorem any_policy_parent_lost:
  "is_ok (validate_path ex_codec ex_any_chain [ex_anchor 1]
     (ex_policy_150\<lparr> initial_explicit_policy := True, initial_policy_set := [[1, 2, 2]] \<rparr>) ex_verifier) \<and>
   find_cert_ext (dec_certificate_policies ex_codec) (ex_any_chain ! 0) OID_CERTIFICATE_POLICIES
     = Some [ex_policy [1, 2, 1]]"
  by (intro conjI; code_simp)

end
