(* ===== verification/PathBuilder.thy ===== *)
theory PathBuilder
  imports ChainWalk
begin

text \<open>
  Path building, \<open>pkix-path-builder/src/lib.rs\<close>: the resumable depth-first search of \<open>PathCandidates\<close>
  as a state machine over an explicit frame stack with a shared budget, and the entry points
  \<open>build_path\<close> and \<open>build_first_valid_path\<close> on top of it. A step or a call that would panic (an empty
  path, an index outside the pool) gives \<open>None\<close>; the lemmas show that no reachable state does.

  The search is related to a recursive reference search (\<open>dfs\<close>): the chains still to come from a state
  are a function of the state (\<open>pending\<close>), a call of \<open>next\<close> takes the first of them, and the reference
  search enumerates topologically valid chains and misses none.
\<close>

section \<open>Errors and configuration\<close>

datatype builder_error =
    NoPathFound
  | DepthExceeded
  | BudgetExceeded
  | NoValidPath nat string

type_synonym 'a builder_result = "builder_error + 'a"

fun display_builder_error :: "builder_error \<Rightarrow> string" where
  "display_builder_error NoPathFound = ''no certification path found to a trust anchor''"
| "display_builder_error DepthExceeded =
     ''configured maximum intermediate chain depth exceeded; the chain may require a deeper path than this builder is configured to attempt''"
| "display_builder_error BudgetExceeded =
     ''DFS node-visit budget exceeded; pool may be adversarially large''"
| "display_builder_error (NoValidPath tried last_error) =
     ''tried '' @ show_nat tried @ '' candidate path(s); none validated. Last validation error: ''
       @ last_error"

definition DEFAULT_DFS_BUDGET :: nat where "DEFAULT_DFS_BUDGET = 10000"
definition DEFAULT_MAX_DEPTH :: nat where "DEFAULT_MAX_DEPTH = 10"
definition usize_max :: nat where "usize_max = 2 ^ 64 - 1"

record path_builder_config =
  max_depth :: nat
  dfs_budget :: nat

definition path_builder_config_new :: path_builder_config where
  "path_builder_config_new = \<lparr> max_depth = DEFAULT_MAX_DEPTH, dfs_budget = DEFAULT_DFS_BUDGET \<rparr>"

text \<open>A pool is the vector of its certificates in insertion order.\<close>

type_synonym cert_pool = "certificate list"

definition cert_pool_new :: cert_pool where "cert_pool_new = []"

definition cert_pool_add :: "certificate \<Rightarrow> cert_pool \<Rightarrow> cert_pool" where
  "cert_pool_add cert pool = pool @ [cert]"

definition cert_pool_extend :: "certificate list \<Rightarrow> cert_pool \<Rightarrow> cert_pool" where
  "cert_pool_extend certs pool = pool @ certs"

section \<open>Candidate selection\<close>

definition OID_AUTHORITY_KEY_IDENTIFIER :: oid where
  "OID_AUTHORITY_KEY_IDENTIFIER = [2, 5, 29, 35]"
definition OID_SUBJECT_KEY_IDENTIFIER :: oid where
  "OID_SUBJECT_KEY_IDENTIFIER = [2, 5, 29, 14]"

definition builder_cert_is_ca :: "'x x509_codec_scheme \<Rightarrow> certificate \<Rightarrow> bool" where
  "builder_cert_is_ca cd cert = unwrap_or False (result_ok (cert_is_ca cd cert))"

definition cert_aki_key_id :: "'x x509_codec_scheme \<Rightarrow> certificate \<Rightarrow> bytes option" where
  "cert_aki_key_id cd cert =
     Option.bind (find_cert_ext (dec_authority_key_id cd) cert OID_AUTHORITY_KEY_IDENTIFIER)
       aki_key_identifier"

definition cert_ski_key_id :: "'x x509_codec_scheme \<Rightarrow> certificate \<Rightarrow> bytes option" where
  "cert_ski_key_id cd cert =
     find_cert_ext (dec_subject_key_id cd) cert OID_SUBJECT_KEY_IDENTIFIER"

definition candidate_tier :: "'x x509_codec_scheme \<Rightarrow> bytes option \<Rightarrow> certificate \<Rightarrow> nat" where
  "candidate_tier cd target_aki_kid candidate =
     (case (target_aki_kid, cert_ski_key_id cd candidate) of
        (Some aki, Some ski) \<Rightarrow> if aki = ski then 0 else 1
      | _ \<Rightarrow> 1)"

text \<open>The pairs (tier, pool index) of the candidates whose subject is the issuer, sorted stably.\<close>

definition rank_candidates ::
  "'x x509_codec_scheme \<Rightarrow> certificate \<Rightarrow> certificate list \<Rightarrow> (nat \<times> nat) list" where
  "rank_candidates cd cur pool =
     (let target_aki_kid = cert_aki_key_id cd cur;
          matching = filter (\<lambda>idx. names_match (subject (tbs (pool ! idx))) (issuer (tbs cur)))
                       [0..<length pool]
      in sort_key fst (map (\<lambda>idx. (candidate_tier cd target_aki_kid (pool ! idx), idx)) matching))"

definition spki_already_in_path :: "certificate \<Rightarrow> certificate list \<Rightarrow> bool" where
  "spki_already_in_path candidate path =
     list_ex (\<lambda>in_path.
       alg_oid (spki_algorithm (subject_public_key_info (tbs in_path)))
         = alg_oid (spki_algorithm (subject_public_key_info (tbs candidate))) \<and>
       subject_public_key (subject_public_key_info (tbs in_path))
         = subject_public_key (subject_public_key_info (tbs candidate))) path"

section \<open>The iterator\<close>

record frame =
  ranked :: "(nat \<times> nat) list option"
  cursor :: nat
  anchor_checked :: bool
  anchor_yielded :: bool

definition frame_new :: frame where
  "frame_new = \<lparr> ranked = None, cursor = 0, anchor_checked = False, anchor_yielded = False \<rparr>"

record path_candidates =
  pc_pool :: "certificate list"
  pc_anchors :: "trust_anchor list"
  pc_max_depth :: nat
  pc_path :: "certificate list"
  pc_frames :: "frame list"
  pc_budget :: nat
  pc_started :: bool
  pc_done :: bool

type_synonym candidate_item = "(certificate list builder_result) option"

definition path_candidates_new ::
  "certificate \<Rightarrow> cert_pool \<Rightarrow> trust_anchor list \<Rightarrow> path_builder_config \<Rightarrow> path_candidates" where
  "path_candidates_new target pool anchors config =
     \<lparr> pc_pool = pool, pc_anchors = anchors, pc_max_depth = max_depth config, pc_path = [target],
       pc_frames = [frame_new], pc_budget = dfs_budget config, pc_started = False, pc_done = False \<rparr>"

definition is_anchored :: "trust_anchor list \<Rightarrow> certificate \<Rightarrow> bool" where
  "is_anchored anchors cur = list_ex (\<lambda>a. names_match (ta_subject a) (issuer (tbs cur))) anchors"

text \<open>One turn of the loop continues with a new state or leaves the loop with an item.\<close>

datatype turn = Continue path_candidates | Leave candidate_item path_candidates

text \<open>\<open>self.frames.pop(); self.path.pop(); continue\<close>.\<close>

definition backtrack :: "path_candidates \<Rightarrow> path_candidates" where
  "backtrack st = st\<lparr> pc_frames := butlast (pc_frames st), pc_path := butlast (pc_path st) \<rparr>"

definition set_top :: "frame \<Rightarrow> path_candidates \<Rightarrow> path_candidates" where
  "set_top f st = st\<lparr> pc_frames := butlast (pc_frames st) @ [f] \<rparr>"

text \<open>The second half of the loop body, past the anchor check of the top frame.\<close>

definition try_candidate :: "'x x509_codec_scheme \<Rightarrow> path_candidates \<Rightarrow> turn option" where
  "try_candidate cd st =
     (if length (pc_frames st) > pc_max_depth st then Some (Continue (backtrack st))
      else if ranked (last (pc_frames st)) = None \<and> pc_path st = [] then None
      else
        (let f = last (pc_frames st);
             r = (case ranked f of
                    Some r \<Rightarrow> r
                  | None \<Rightarrow> rank_candidates cd (last (pc_path st)) (pc_pool st));
             f = f\<lparr> ranked := Some r \<rparr>
         in if cursor f \<ge> length r then Some (Continue (backtrack st))
            else
              (let idx = snd (r ! cursor f);
                   st = set_top (f\<lparr> cursor := cursor f + 1 \<rparr>) st
               in if idx \<ge> length (pc_pool st) then None
                  else
                    (let candidate = pc_pool st ! idx
                     in if \<not> builder_cert_is_ca cd candidate then Some (Continue st)
                        else if spki_already_in_path candidate (pc_path st) then Some (Continue st)
                        else Some (Continue (st\<lparr> pc_path := pc_path st @ [candidate],
                                                 pc_frames := pc_frames st @ [frame_new] \<rparr>))))))"

definition candidates_turn :: "'x x509_codec_scheme \<Rightarrow> path_candidates \<Rightarrow> turn option" where
  "candidates_turn cd st =
     (if pc_frames st = [] then Some (Leave None (st\<lparr> pc_done := True \<rparr>))
      else if anchor_yielded (last (pc_frames st)) then Some (Continue (backtrack st))
      else if \<not> anchor_checked (last (pc_frames st)) then
        (if pc_budget st = 0 then Some (Leave (Some (Err BudgetExceeded)) (st\<lparr> pc_done := True \<rparr>))
         else if pc_path st = [] then None
         else
           (let f = (last (pc_frames st))\<lparr> anchor_checked := True \<rparr>;
                st = set_top f (st\<lparr> pc_budget := pc_budget st - 1 \<rparr>)
            in if is_anchored (pc_anchors st) (last (pc_path st))
               then Some (Leave (Some (Ok (pc_path st))) (set_top (f\<lparr> anchor_yielded := True \<rparr>) st))
               else try_candidate cd st))
      else try_candidate cd st)"

section \<open>Termination of a call\<close>

text \<open>
  Every turn either spends budget, or leaves a checked frame for an unchecked one, or shrinks the
  work left on the stack.
\<close>

definition frame_work :: "path_candidates \<Rightarrow> frame \<Rightarrow> nat" where
  "frame_work st f =
     (case ranked f of None \<Rightarrow> length (pc_pool st) + 2 | Some r \<Rightarrow> length r - cursor f + 1)"

definition stack_work :: "path_candidates \<Rightarrow> nat" where
  "stack_work st = sum_list (map (frame_work st) (pc_frames st))"

definition top_open :: "path_candidates \<Rightarrow> nat" where
  "top_open st =
     (if pc_frames st \<noteq> [] \<and> \<not> anchor_checked (last (pc_frames st)) \<and>
         \<not> anchor_yielded (last (pc_frames st)) then 0 else 1)"

lemma set_top_simps [simp]:
  "pc_pool (set_top f st) = pc_pool st" "pc_anchors (set_top f st) = pc_anchors st"
  "pc_max_depth (set_top f st) = pc_max_depth st" "pc_path (set_top f st) = pc_path st"
  "pc_budget (set_top f st) = pc_budget st" "pc_done (set_top f st) = pc_done st"
  by (simp_all add: set_top_def)

lemma frame_work_pos: "0 < frame_work st f"
  by (simp add: frame_work_def split: option.splits)

lemma frame_work_frames [simp]:
  "frame_work (st\<lparr> pc_frames := fs \<rparr>) = frame_work st"
  "frame_work (st\<lparr> pc_path := p \<rparr>) = frame_work st"
  "frame_work (st\<lparr> pc_budget := b \<rparr>) = frame_work st"
  by (simp_all add: fun_eq_iff frame_work_def split: option.splits)

lemma stack_work_backtrack:
  assumes "pc_frames st \<noteq> []"
  shows "stack_work (backtrack st) < stack_work st"
proof -
  have "sum_list (map (frame_work st) (pc_frames st)) =
      sum_list (map (frame_work st) (butlast (pc_frames st) @ [last (pc_frames st)]))"
    using assms by simp
  then show ?thesis using frame_work_pos [of st "last (pc_frames st)"]
    by (simp add: stack_work_def backtrack_def del: append_butlast_last_id)
qed

lemma length_rank_candidates: "length (rank_candidates cd cur pool) \<le> length pool"
  using length_filter_le [of _ "[0..<length pool]"] by (simp add: rank_candidates_def Let_def)

lemma try_candidate_measure:
  assumes "try_candidate cd st = Some (Continue st')" and "pc_frames st \<noteq> []"
  shows "pc_budget st' = pc_budget st \<and> (top_open st' = 0 \<or> stack_work st' < stack_work st)"
proof (cases "length (pc_frames st) > pc_max_depth st")
  case True
  with assms have "st' = backtrack st" by (simp add: try_candidate_def)
  then show ?thesis using stack_work_backtrack [OF assms(2)] by (simp add: backtrack_def)
next
  case False
  define f where "f = last (pc_frames st)"
  define r where "r = (case ranked f of Some r \<Rightarrow> r
    | None \<Rightarrow> rank_candidates cd (last (pc_path st)) (pc_pool st))"
  let ?st = "set_top (f\<lparr> ranked := Some r, cursor := cursor f + 1 \<rparr>) st"
  have fs: "pc_frames st = butlast (pc_frames st) @ [f]" using assms(2) by (simp add: f_def)
  have w: "frame_work st (f\<lparr> ranked := Some r, cursor := cursor f + 1 \<rparr>) < frame_work st f"
    if "cursor f < length r"
    using that length_rank_candidates [of cd "last (pc_path st)" "pc_pool st"]
    by (auto simp: frame_work_def r_def split: option.splits)
  have "stack_work ?st < stack_work st" if "cursor f < length r"
  proof -
    have "stack_work st = sum_list (map (frame_work st) (butlast (pc_frames st))) + frame_work st f"
      unfolding stack_work_def by (subst fs) simp
    with w [OF that] show ?thesis by (simp add: stack_work_def set_top_def)
  qed
  moreover have "st' = backtrack st \<or>
      (cursor f < length r \<and> (st' = ?st \<or> (\<exists>c. st' = ?st\<lparr> pc_path := pc_path ?st @ [c],
         pc_frames := pc_frames ?st @ [frame_new] \<rparr>)))"
    using assms(1) False
    by (auto simp: try_candidate_def Let_def f_def [symmetric] r_def [symmetric] not_le split: if_splits)
  ultimately show ?thesis
    using stack_work_backtrack [OF assms(2)]
    by (auto simp: backtrack_def set_top_def top_open_def frame_new_def)
qed

definition turn_measure :: "path_candidates \<Rightarrow> nat" where
  "turn_measure st = 2 * pc_budget st + top_open st"

lemma top_open_le: "top_open st \<le> 1"
  by (simp add: top_open_def)

lemma try_candidate_set_top:
  assumes "try_candidate cd (set_top f st) = Some (Continue st')" and "pc_frames st \<noteq> []"
  shows "pc_budget st' = pc_budget st"
  using try_candidate_measure [OF assms(1)] by (simp add: set_top_def)

lemma candidates_turn_measure:
  assumes "candidates_turn cd st = Some (Continue st')"
  shows "turn_measure st' < turn_measure st \<or>
     (turn_measure st' = turn_measure st \<and> stack_work st' < stack_work st)"
proof -
  have ne: "pc_frames st \<noteq> []" using assms by (auto simp: candidates_turn_def)
  consider (yielded) "anchor_yielded (last (pc_frames st))" "st' = backtrack st"
    | (old) "\<not> anchor_yielded (last (pc_frames st))" "anchor_checked (last (pc_frames st))"
      "try_candidate cd st = Some (Continue st')"
    | (fresh) f where "\<not> anchor_checked (last (pc_frames st))" "\<not> anchor_yielded (last (pc_frames st))"
      "0 < pc_budget st"
      "try_candidate cd (set_top f (st\<lparr> pc_budget := pc_budget st - 1 \<rparr>)) = Some (Continue st')"
    using assms ne by (auto simp: candidates_turn_def Let_def split: if_splits)
  then show ?thesis
  proof cases
    case yielded
    then have "top_open st = 1" "pc_budget st' = pc_budget st"
      by (simp_all add: top_open_def backtrack_def)
    then show ?thesis using stack_work_backtrack [OF ne] yielded top_open_le [of st']
      by (auto simp: turn_measure_def)
  next
    case old
    then have "top_open st = 1" by (simp add: top_open_def)
    then show ?thesis using try_candidate_measure [OF old(3) ne] top_open_le [of st']
      by (auto simp: turn_measure_def)
  next
    case fresh
    then have "pc_budget st' = pc_budget st - 1"
      using try_candidate_set_top [OF fresh(4)] ne by simp
    then show ?thesis using fresh(3) top_open_le [of st']
      by (cases "pc_budget st") (auto simp: turn_measure_def)
  qed
qed

text \<open>The loop of \<open>next\<close>.\<close>

function candidates_loop ::
  "'x x509_codec_scheme \<Rightarrow> path_candidates \<Rightarrow> (candidate_item \<times> path_candidates) option" where
  "candidates_loop cd st =
     (case candidates_turn cd st of
        None \<Rightarrow> None
      | Some (Leave item st') \<Rightarrow> Some (item, st')
      | Some (Continue st') \<Rightarrow> candidates_loop cd st')"
  by pat_completeness auto
termination
proof (relation "measures [\<lambda>(cd, st). turn_measure st, \<lambda>(cd, st). stack_work st]")
  fix cd :: "'x x509_codec_scheme" and st t st'
  assume "candidates_turn cd st = Some t" "t = Continue st'"
  then show "((cd, st'), (cd, st)) \<in> measures [\<lambda>(cd, st). turn_measure st, \<lambda>(cd, st). stack_work st]"
    using candidates_turn_measure [of cd st st'] by auto
qed simp

declare candidates_loop.simps [simp del]

definition candidates_next ::
  "'x x509_codec_scheme \<Rightarrow> path_candidates \<Rightarrow> (candidate_item \<times> path_candidates) option" where
  "candidates_next cd st =
     (if pc_done st then Some (None, st)
      else candidates_loop cd (st\<lparr> pc_started := True \<rparr>))"

definition build_path_candidates ::
  "certificate \<Rightarrow> cert_pool \<Rightarrow> trust_anchor list \<Rightarrow> path_candidates" where
  "build_path_candidates target pool anchors =
     path_candidates_new target pool anchors path_builder_config_new"

definition build_path_candidates_with_config ::
  "certificate \<Rightarrow> cert_pool \<Rightarrow> trust_anchor list \<Rightarrow> path_builder_config \<Rightarrow> path_candidates" where
  "build_path_candidates_with_config target pool anchors config =
     path_candidates_new target pool anchors config"

section \<open>The entry points\<close>

text \<open>The probe one level deeper that tells a missing path from one that is too deep.\<close>

definition depth_probe ::
  "'x x509_codec_scheme \<Rightarrow> certificate \<Rightarrow> cert_pool \<Rightarrow> trust_anchor list \<Rightarrow> path_builder_config
    \<Rightarrow> certificate list builder_result option" where
  "depth_probe cd target pool anchors config =
     (let probe_config = config\<lparr> max_depth := min (max_depth config + 1) usize_max \<rparr> in
      case candidates_next cd (path_candidates_new target pool anchors probe_config) of
        None \<Rightarrow> None
      | Some (Some (Inr _), _) \<Rightarrow> Some (Err DepthExceeded)
      | Some (Some (Inl e), _) \<Rightarrow> Some (Err e)
      | Some (None, _) \<Rightarrow> Some (Err NoPathFound))"

definition build_path_with_config ::
  "'x x509_codec_scheme \<Rightarrow> certificate \<Rightarrow> cert_pool \<Rightarrow> trust_anchor list \<Rightarrow> path_builder_config
    \<Rightarrow> certificate list builder_result option" where
  "build_path_with_config cd target pool anchors config =
     (case candidates_next cd (path_candidates_new target pool anchors config) of
        None \<Rightarrow> None
      | Some (Some (Inr chain), _) \<Rightarrow> Some (Ok chain)
      | Some (Some (Inl e), _) \<Rightarrow> Some (Err e)
      | Some (None, _) \<Rightarrow> depth_probe cd target pool anchors config)"

definition build_path ::
  "'x x509_codec_scheme \<Rightarrow> certificate \<Rightarrow> cert_pool \<Rightarrow> trust_anchor list
    \<Rightarrow> certificate list builder_result option" where
  "build_path cd target pool anchors =
     build_path_with_config cd target pool anchors path_builder_config_new"

text \<open>Every chain yielded has been paid for, so the retry loop below ends.\<close>

lemma candidates_turn_budget:
  "candidates_turn cd st = Some (Continue st') \<Longrightarrow> pc_budget st' \<le> pc_budget st"
  "candidates_turn cd st = Some (Leave (Some (Inr c)) st') \<Longrightarrow> pc_budget st' < pc_budget st"
proof -
  assume a: "candidates_turn cd st = Some (Continue st')"
  then have ne: "pc_frames st \<noteq> []" by (auto simp: candidates_turn_def)
  from a show "pc_budget st' \<le> pc_budget st"
    using ne
    by (auto simp: candidates_turn_def Let_def backtrack_def
        dest: try_candidate_set_top try_candidate_measure split: if_splits)
next
  assume "candidates_turn cd st = Some (Leave (Some (Inr c)) st')"
  moreover have "try_candidate cd st0 \<noteq> Some (Leave i st1)" for st0 i st1
    by (simp add: try_candidate_def Let_def)
  ultimately show "pc_budget st' < pc_budget st"
    by (auto simp: candidates_turn_def Let_def set_top_def split: if_splits)
qed

lemma candidates_loop_budget:
  "candidates_loop cd st = Some (Some (Inr c), st') \<Longrightarrow> pc_budget st' < pc_budget st"
proof (induction cd st rule: candidates_loop.induct)
  case (1 cd st)
  from "1.prems" show ?case
    by (subst (asm) candidates_loop.simps)
      (auto split: option.splits turn.splits dest: candidates_turn_budget
        intro: less_le_trans [OF "1.IH"])
qed

lemma candidates_next_budget:
  "candidates_next cd st = Some (Some (Inr c), st') \<Longrightarrow> pc_budget st' < pc_budget st"
  by (auto simp: candidates_next_def dest: candidates_loop_budget split: if_splits)

text \<open>The retry loop over the candidates.\<close>

function first_valid_loop ::
  "'x x509_codec_scheme \<Rightarrow> (certificate list \<Rightarrow> validated_path path_result)
    \<Rightarrow> certificate list builder_result option \<Rightarrow> path_candidates \<Rightarrow> nat \<Rightarrow> string option
    \<Rightarrow> certificate list builder_result option" where
  "first_valid_loop cd validate probe iter tried last_error =
     (case candidates_next cd iter of
        None \<Rightarrow> None
      | Some (Some (Inr chain), iter') \<Rightarrow>
          (case validate chain of
             Inr _ \<Rightarrow> Some (Ok chain)
           | Inl e \<Rightarrow>
               first_valid_loop cd validate probe iter' (tried + 1) (Some (display_path_error e)))
      | Some (Some (Inl e), _) \<Rightarrow> Some (Err e)
      | Some (None, _) \<Rightarrow>
          (case last_error of
             Some l \<Rightarrow> Some (Err (NoValidPath tried l))
           | None \<Rightarrow> probe))"
  by pat_completeness auto
termination
  by (relation "measure (\<lambda>(cd, validate, probe, iter, tried, last_error). pc_budget iter)")
    (auto dest: candidates_next_budget [OF sym] candidates_next_budget)

declare first_valid_loop.simps [simp del]

definition build_first_valid_path_with_config ::
  "'x x509_codec_scheme \<Rightarrow> certificate \<Rightarrow> cert_pool \<Rightarrow> trust_anchor list \<Rightarrow> validation_policy
    \<Rightarrow> sig_verifier \<Rightarrow> path_builder_config \<Rightarrow> certificate list builder_result option" where
  "build_first_valid_path_with_config cd target pool anchors policy verifier config =
     first_valid_loop cd (\<lambda>chain. validate_path cd chain anchors policy verifier)
       (depth_probe cd target pool anchors config)
       (path_candidates_new target pool anchors config) 0 None"

definition build_first_valid_path ::
  "'x x509_codec_scheme \<Rightarrow> certificate \<Rightarrow> cert_pool \<Rightarrow> trust_anchor list \<Rightarrow> validation_policy
    \<Rightarrow> sig_verifier \<Rightarrow> certificate list builder_result option" where
  "build_first_valid_path cd target pool anchors policy verifier =
     build_first_valid_path_with_config cd target pool anchors policy verifier path_builder_config_new"

section \<open>The reference search\<close>

text \<open>All chains below a path, with \<open>k\<close> further certificates allowed.\<close>

fun dfs ::
  "'x x509_codec_scheme \<Rightarrow> certificate list \<Rightarrow> trust_anchor list \<Rightarrow> nat \<Rightarrow> certificate list
    \<Rightarrow> certificate list list" where
  "dfs cd pool anchors 0 path = (if is_anchored anchors (last path) then [path] else [])"
| "dfs cd pool anchors (Suc k) path =
     (if is_anchored anchors (last path) then [path]
      else concat (map (\<lambda>x.
        if builder_cert_is_ca cd (pool ! snd x) \<and> \<not> spki_already_in_path (pool ! snd x) path
        then dfs cd pool anchors k (path @ [pool ! snd x]) else [])
        (rank_candidates cd (last path) pool)))"

definition dfs_below ::
  "'x x509_codec_scheme \<Rightarrow> certificate list \<Rightarrow> trust_anchor list \<Rightarrow> nat \<Rightarrow> certificate list
    \<Rightarrow> nat \<times> nat \<Rightarrow> certificate list list" where
  "dfs_below cd pool anchors k path x =
     (if builder_cert_is_ca cd (pool ! snd x) \<and> \<not> spki_already_in_path (pool ! snd x) path
      then dfs cd pool anchors k (path @ [pool ! snd x]) else [])"

lemma dfs_Suc:
  "dfs cd pool anchors (Suc k) path =
     (if is_anchored anchors (last path) then [path]
      else concat (map (dfs_below cd pool anchors k path) (rank_candidates cd (last path) pool)))"
  by (simp add: dfs_below_def [abs_def])

section \<open>The chains still to come\<close>

definition frame_ranking :: "'x x509_codec_scheme \<Rightarrow> path_candidates \<Rightarrow> certificate list \<Rightarrow> frame \<Rightarrow> (nat \<times> nat) list" where
  "frame_ranking cd st path f =
     (case ranked f of Some r \<Rightarrow> r | None \<Rightarrow> rank_candidates cd (last path) (pc_pool st))"

definition frame_chains ::
  "'x x509_codec_scheme \<Rightarrow> path_candidates \<Rightarrow> frame \<Rightarrow> certificate list \<Rightarrow> certificate list list" where
  "frame_chains cd st f path =
     (let k = Suc (pc_max_depth st) - length path in
      if anchor_yielded f then []
      else if \<not> anchor_checked f then dfs cd (pc_pool st) (pc_anchors st) k path
      else case k of
        0 \<Rightarrow> []
      | Suc k' \<Rightarrow> concat (map (dfs_below cd (pc_pool st) (pc_anchors st) k' path)
                    (drop (cursor f) (frame_ranking cd st path f))))"

fun pending_rev ::
  "'x x509_codec_scheme \<Rightarrow> path_candidates \<Rightarrow> frame list \<Rightarrow> certificate list \<Rightarrow> certificate list list" where
  "pending_rev cd st [] path = []"
| "pending_rev cd st (f # fs) path = frame_chains cd st f path @ pending_rev cd st fs (butlast path)"

definition pending :: "'x x509_codec_scheme \<Rightarrow> path_candidates \<Rightarrow> certificate list list" where
  "pending cd st = pending_rev cd st (rev (pc_frames st)) (pc_path st)"

text \<open>
  The invariant of the iterator: the path mirrors the frames, rankings hold indices of the pool, and
  a frame that has not been checked is untouched.
\<close>

definition frame_ok :: "path_candidates \<Rightarrow> frame \<Rightarrow> bool" where
  "frame_ok st f \<longleftrightarrow>
     (case ranked f of None \<Rightarrow> True | Some r \<Rightarrow> list_all (\<lambda>x. snd x < length (pc_pool st)) r) \<and>
     (anchor_checked f \<or> (ranked f = None \<and> cursor f = 0))"

definition iter_ok :: "path_candidates \<Rightarrow> bool" where
  "iter_ok st \<longleftrightarrow> length (pc_path st) = length (pc_frames st) \<and> list_all (frame_ok st) (pc_frames st)"

definition same_search :: "path_candidates \<Rightarrow> path_candidates \<Rightarrow> bool" where
  "same_search st st' \<longleftrightarrow> pc_pool st' = pc_pool st \<and> pc_anchors st' = pc_anchors st \<and>
     pc_max_depth st' = pc_max_depth st \<and> pc_done st' = pc_done st"

lemma frame_chains_cong:
  "same_search st st' \<Longrightarrow> frame_chains cd st' = frame_chains cd st"
  by (intro ext) (simp only: same_search_def frame_chains_def frame_ranking_def)

lemma pending_rev_cong:
  "same_search st st' \<Longrightarrow> pending_rev cd st' fs path = pending_rev cd st fs path"
  by (induction fs arbitrary: path) (simp_all add: frame_chains_cong)

lemma frame_ok_cong: "same_search st st' \<Longrightarrow> frame_ok st' = frame_ok st"
  by (intro ext) (simp only: same_search_def frame_ok_def)

lemma rank_candidates_index:
  "x \<in> set (rank_candidates cd cur pool) \<Longrightarrow> snd x < length pool \<and>
     names_match (subject (tbs (pool ! snd x))) (issuer (tbs cur))"
  by (auto simp: rank_candidates_def Let_def)

lemma rank_candidates_complete:
  "i < length pool \<Longrightarrow> names_match (subject (tbs (pool ! i))) (issuer (tbs cur)) \<Longrightarrow>
     \<exists>t. (t, i) \<in> set (rank_candidates cd cur pool)"
  by (auto simp: rank_candidates_def Let_def)

text \<open>Both invariant and pending chains, split at the top frame.\<close>

lemma pending_split:
  assumes "pc_frames st = fs @ [f]"
  shows "pending cd st = frame_chains cd st f (pc_path st) @ pending_rev cd st (rev fs) (butlast (pc_path st))"
  by (simp add: pending_def assms)

lemma backtrack_ok:
  assumes "iter_ok st" and "pc_frames st = fs @ [f]" and "frame_chains cd st f (pc_path st) = []"
  shows "iter_ok (backtrack st) \<and> same_search st (backtrack st) \<and>
     pending cd (backtrack st) = pending cd st"
proof -
  have same: "same_search st (backtrack st)" by (simp add: same_search_def backtrack_def)
  have "pending cd (backtrack st) = pending_rev cd st (rev fs) (butlast (pc_path st))"
    by (simp add: pending_def pending_rev_cong [OF same]) (simp add: backtrack_def assms(2))
  then have "pending cd (backtrack st) = pending cd st"
    by (simp add: pending_split [OF assms(2)] assms(3))
  moreover have "iter_ok (backtrack st)"
    using assms(1,2) frame_ok_cong [OF same] by (simp add: iter_ok_def backtrack_def)
  ultimately show ?thesis using same by blast
qed

text \<open>Replacing the top frame by one with fewer chains.\<close>

lemma set_top_ok:
  assumes "iter_ok st" and "pc_frames st = fs @ [f]" and "frame_ok st g"
  shows "iter_ok (set_top g st) \<and> same_search st (set_top g st) \<and>
     pending cd (set_top g st) =
       frame_chains cd st g (pc_path st) @ pending_rev cd st (rev fs) (butlast (pc_path st))"
proof -
  have same: "same_search st (set_top g st)" by (simp add: same_search_def set_top_def)
  have "pc_frames (set_top g st) = fs @ [g]" "pc_path (set_top g st) = pc_path st"
    using assms(2) by (simp_all add: set_top_def)
  with assms same frame_ok_cong [OF same] show ?thesis
    by (simp add: iter_ok_def pending_split [of "set_top g st" fs g] frame_chains_cong [OF same]
        pending_rev_cong [OF same])
qed

lemma iter_ok_top:
  "iter_ok st \<Longrightarrow> pc_frames st = fs @ [f] \<Longrightarrow> frame_ok st f \<and> pc_path st \<noteq> [] \<and>
     length (pc_path st) = Suc (length fs)"
  by (auto simp: iter_ok_def)

text \<open>Pushing a candidate: its frame takes over the chains the parent gave up.\<close>

lemma push_ok:
  assumes "iter_ok st" and "pc_frames st = fs @ [f]" and "i < length (pc_pool st)"
    and "Suc (pc_max_depth st) - length (pc_path st) = Suc k"
  shows "let st' = st\<lparr> pc_path := pc_path st @ [pc_pool st ! i],
                     pc_frames := pc_frames st @ [frame_new] \<rparr>
     in iter_ok st' \<and> same_search st st' \<and>
        pending cd st' = dfs cd (pc_pool st) (pc_anchors st) k (pc_path st @ [pc_pool st ! i])
          @ pending cd st"
proof -
  define st' where "st' = st\<lparr> pc_path := pc_path st @ [pc_pool st ! i],
                     pc_frames := pc_frames st @ [frame_new] \<rparr>"
  have same: "same_search st st'" by (simp add: same_search_def st'_def)
  have "frame_ok st frame_new" by (simp add: frame_ok_def frame_new_def)
  then have "iter_ok st'"
    using assms(1) frame_ok_cong [OF same] by (simp add: iter_ok_def) (simp add: st'_def)
  moreover have "pending cd st' = frame_chains cd st frame_new (pc_path st @ [pc_pool st ! i]) @ pending cd st"
    using pending_split [of st' "pc_frames st" frame_new cd]
    by (simp add: pending_rev_cong [OF same] frame_chains_cong [OF same] pending_def)
      (simp add: st'_def pending_def)
  moreover have "frame_chains cd st frame_new (pc_path st @ [pc_pool st ! i]) =
      dfs cd (pc_pool st) (pc_anchors st) k (pc_path st @ [pc_pool st ! i])"
  proof -
    have "pc_max_depth st - length (pc_path st) = k" using assms(4) by simp
    then show ?thesis by (simp add: frame_chains_def frame_new_def Let_def)
  qed
  ultimately show ?thesis using same by (simp add: st'_def Let_def)
qed

lemma try_candidate_deep:
  "length (pc_frames st) > pc_max_depth st \<Longrightarrow> try_candidate cd st = Some (Continue (backtrack st))"
  by (simp add: try_candidate_def)

lemma try_candidate_unfold:
  assumes "pc_frames st = fs @ [f]" and "\<not> length (pc_frames st) > pc_max_depth st" and "pc_path st \<noteq> []"
  shows "try_candidate cd st =
     (let r = frame_ranking cd st (pc_path st) f; g = f\<lparr> ranked := Some r, cursor := cursor f + 1 \<rparr>;
          c = pc_pool st ! snd (r ! cursor f); st1 = set_top g st
      in if cursor f \<ge> length r then Some (Continue (backtrack st))
         else if snd (r ! cursor f) \<ge> length (pc_pool st) then None
         else if \<not> builder_cert_is_ca cd c \<or> spki_already_in_path c (pc_path st) then Some (Continue st1)
         else Some (Continue (st1\<lparr> pc_path := pc_path st @ [c], pc_frames := pc_frames st1 @ [frame_new] \<rparr>)))"
  unfolding try_candidate_def frame_ranking_def Let_def using assms
  by (simp add: set_top_def)

lemma try_candidate_ok:
  assumes ok: "iter_ok st" and fs: "pc_frames st = fs @ [f]"
    and f: "anchor_checked f" "\<not> anchor_yielded f"
  obtains st' where "try_candidate cd st = Some (Continue st')" "iter_ok st'" "same_search st st'"
    "pending cd st' = pending cd st"
proof -
  note top = iter_ok_top [OF ok fs]
  define p where "p = pc_path st"
  define r where "r = frame_ranking cd st p f"
  have len: "length (pc_frames st) = length p" using ok by (simp add: iter_ok_def p_def)
  have r_ok: "snd x < length (pc_pool st)" if "x \<in> set r" for x
    using that top by (auto simp: r_def frame_ranking_def frame_ok_def list_all_iff
        dest: rank_candidates_index split: option.splits)
  show ?thesis
  proof (cases "length p > pc_max_depth st")
    case True
    then have "frame_chains cd st f p = []" using f by (simp add: frame_chains_def Let_def)
    with backtrack_ok [OF ok fs] True len show ?thesis
      by (intro that [of "backtrack st"]) (auto simp: try_candidate_def p_def)
  next
    case False
    then obtain k where k: "Suc (pc_max_depth st) - length p = Suc k"
      by (cases "Suc (pc_max_depth st) - length p") auto
    have chains: "frame_chains cd st g p =
        concat (map (dfs_below cd (pc_pool st) (pc_anchors st) k p) (drop (cursor g) r))"
      if "anchor_checked g" "\<not> anchor_yielded g" "frame_ranking cd st p g = r" for g
      using that k by (simp add: frame_chains_def Let_def)
    have deep: "\<not> length (pc_frames st) > pc_max_depth st" using False len by simp
    note unf = try_candidate_unfold [OF fs deep, of cd, folded p_def, folded r_def]
    show ?thesis
    proof (cases "cursor f \<ge> length r")
      case True
      then have "frame_chains cd st f p = []" using chains [of f] f by (simp add: r_def)
      with backtrack_ok [OF ok fs, of cd] True top unf show ?thesis
        by (intro that [of "backtrack st"]) (simp_all add: p_def Let_def)
    next
      case c: False
      define g where "g = f\<lparr> ranked := Some r, cursor := cursor f + 1 \<rparr>"
      let ?st = "set_top g st"
      let ?x = "r ! cursor f"
      have g_ok: "frame_ok st g" using f r_ok by (simp add: frame_ok_def g_def list_all_iff)
      note st1 = set_top_ok [OF ok fs g_ok, of cd]
      have idx: "snd ?x < length (pc_pool st)" using c r_ok by simp
      have "drop (cursor f) r = ?x # drop (cursor g) r"
        using c by (simp add: g_def Cons_nth_drop_Suc)
      then have split: "pending cd st = dfs_below cd (pc_pool st) (pc_anchors st) k p ?x @ pending cd ?st"
        using st1 chains [of f] chains [of g] f pending_split [OF fs, of cd]
        by (simp add: p_def r_def g_def frame_ranking_def)
      show ?thesis
      proof (cases "builder_cert_is_ca cd (pc_pool st ! snd ?x) \<and>
                    \<not> spki_already_in_path (pc_pool st ! snd ?x) p")
        case True
        have st1_frames: "pc_frames ?st = fs @ [g]" "pc_path ?st = p" "pc_pool ?st = pc_pool st"
          "pc_max_depth ?st = pc_max_depth st" "pc_anchors ?st = pc_anchors st"
          using fs by (simp_all add: set_top_def p_def)
        let ?st2 = "?st\<lparr> pc_path := p @ [pc_pool st ! snd ?x], pc_frames := pc_frames ?st @ [frame_new] \<rparr>"
        have "iter_ok ?st2 \<and> same_search ?st ?st2 \<and> pending cd ?st2 =
            dfs cd (pc_pool st) (pc_anchors st) k (p @ [pc_pool st ! snd ?x]) @ pending cd ?st"
          using push_ok [of ?st fs g "snd ?x" k cd] st1 st1_frames idx k by (simp add: Let_def)
        moreover have "try_candidate cd st = Some (Continue ?st2)"
          using unf c top True idx st1_frames(1) by (simp add: p_def Let_def g_def)
        ultimately show ?thesis
          using split True st1 by (intro that [of ?st2]) (auto simp: dfs_below_def same_search_def)
      next
        case no: False
        then have "try_candidate cd st = Some (Continue ?st)"
          using unf c top idx by (auto simp: p_def Let_def g_def)
        with st1 split no show ?thesis by (intro that [of ?st]) (auto simp: dfs_below_def)
      qed
    qed
  qed
qed

lemma anchored_dfs:
  "is_anchored anchors (last path) \<Longrightarrow> dfs cd pool anchors k path = [path]"
  by (cases k) simp_all

text \<open>What one turn does to the chains still to come.\<close>

lemma candidates_turn_ok:
  assumes ok: "iter_ok st"
  obtains (cont) st' where "candidates_turn cd st = Some (Continue st')" "iter_ok st'"
      "same_search st st'" "pending cd st' = pending cd st"
    | (none) "candidates_turn cd st = Some (Leave None (st\<lparr> pc_done := True \<rparr>))" "pending cd st = []"
    | (budget) "candidates_turn cd st = Some (Leave (Some (Err BudgetExceeded)) (st\<lparr> pc_done := True \<rparr>))"
      "pc_budget st = 0"
    | (found) c st' where "candidates_turn cd st = Some (Leave (Some (Ok c)) st')" "iter_ok st'"
      "same_search st st'" "pending cd st = c # pending cd st'"
proof (cases "pc_frames st = []")
  case True
  then show ?thesis using none by (simp add: candidates_turn_def pending_def)
next
  case False
  then obtain fs f where fs: "pc_frames st = fs @ [f]" by (metis append_butlast_last_id)
  note top = iter_ok_top [OF ok fs]
  show ?thesis
  proof (cases "anchor_yielded f")
    case True
    then have "frame_chains cd st f (pc_path st) = []" by (simp add: frame_chains_def Let_def)
    with backtrack_ok [OF ok fs] True fs show ?thesis
      by (intro cont [of "backtrack st"]) (auto simp: candidates_turn_def)
  next
    case ny: False
    show ?thesis
    proof (cases "anchor_checked f")
      case True
      with ny fs try_candidate_ok [OF ok fs True ny] show ?thesis
        by (metis cont candidates_turn_def append_is_Nil_conv last_snoc list.distinct(1))
    next
      case nc: False
      show ?thesis
      proof (cases "pc_budget st = 0")
        case True
        with ny nc fs show ?thesis by (intro budget) (simp_all add: candidates_turn_def)
      next
        case False
        define st0 where "st0 = st\<lparr> pc_budget := pc_budget st - 1 \<rparr>"
        define g where "g = f\<lparr> anchor_checked := True \<rparr>"
        have same0: "same_search st st0" by (simp add: same_search_def st0_def)
        have "pending cd st0 = pending cd st"
          unfolding pending_def pending_rev_cong [OF same0] by (simp add: st0_def)
        moreover have "iter_ok st0"
          using ok unfolding iter_ok_def frame_ok_cong [OF same0] by (simp add: st0_def)
        ultimately have st0: "iter_ok st0" "pc_frames st0 = fs @ [f]" "pc_path st0 = pc_path st"
          "pending cd st0 = pending cd st"
          using fs by (simp_all add: st0_def)
        have f0: "ranked f = None" "cursor f = 0" using top nc by (simp_all add: frame_ok_def)
        have unseen: "frame_chains cd st0 f (pc_path st) =
            dfs cd (pc_pool st) (pc_anchors st) (Suc (pc_max_depth st) - length (pc_path st)) (pc_path st)"
          using ny nc by (simp add: frame_chains_def Let_def st0_def)
        have g_ok: "frame_ok st0 g" using f0 by (simp add: frame_ok_def g_def)
        note st1 = set_top_ok [OF st0(1,2) g_ok, of cd]
        show ?thesis
        proof (cases "is_anchored (pc_anchors st) (last (pc_path st))")
          case True
          let ?h = "g\<lparr> anchor_yielded := True \<rparr>"
          have h_ok: "frame_ok (set_top g st0) ?h"
            using f0 by (simp add: frame_ok_def g_def)
          have fs1: "pc_frames (set_top g st0) = fs @ [g]" using st0(2) by (simp add: set_top_def)
          note st2 = set_top_ok [OF _ fs1 h_ok, of cd]
          have "frame_chains cd (set_top g st0) ?h (pc_path st) = []"
            by (simp add: frame_chains_def Let_def)
          then have "pending cd (set_top ?h (set_top g st0)) = pending_rev cd st0 (rev fs) (butlast (pc_path st))"
            using st1 st2 pending_rev_cong [of st0 "set_top g st0" cd] st0(3) by simp
          moreover have "pending cd st = [pc_path st] @ pending_rev cd st0 (rev fs) (butlast (pc_path st))"
            using pending_split [OF st0(2), of cd] unseen anchored_dfs [OF True] st0(3,4) by simp
          ultimately have pend: "pending cd st = pc_path st # pending cd (set_top ?h (set_top g st0))"
            by simp
          have turn: "candidates_turn cd st = Some (Leave (Some (Ok (pc_path st))) (set_top ?h (set_top g st0)))"
            using True ny nc fs False top by (simp add: candidates_turn_def Let_def g_def st0_def)
          have "same_search st (set_top ?h (set_top g st0))"
            by (simp_all add: same_search_def set_top_def st0_def)
          moreover have "iter_ok (set_top ?h (set_top g st0))" using st1 st2 by blast
          ultimately show ?thesis using turn pend by (intro found)
        next
          case na: False
          have "frame_chains cd st0 g (pc_path st) = frame_chains cd st0 f (pc_path st)"
            using f0 ny na unseen
            by (cases "Suc (pc_max_depth st) - length (pc_path st)")
              (simp_all add: frame_chains_def Let_def g_def frame_ranking_def st0_def dfs_Suc del: dfs.simps(2))
          then have pend: "pending cd (set_top g st0) = pending cd st"
            using st1 pending_split [OF st0(2), of cd] st0 by simp
          have fs1: "pc_frames (set_top g st0) = fs @ [g]" using st0(2) by (simp add: set_top_def)
          have "candidates_turn cd st = try_candidate cd (set_top g st0)"
            using na ny nc fs False top by (simp add: candidates_turn_def Let_def g_def st0_def set_top_def)
          moreover from st1 have "iter_ok (set_top g st0)" by blast
          then obtain st' where "try_candidate cd (set_top g st0) = Some (Continue st')" "iter_ok st'"
            "same_search (set_top g st0) st'" "pending cd st' = pending cd (set_top g st0)"
            by (rule try_candidate_ok [OF _ fs1, of cd]) (use ny in \<open>simp_all add: g_def\<close>)
          ultimately show ?thesis using st1 pend same0
            by (intro cont [of st']) (auto simp: same_search_def)
        qed
      qed
    qed
  qed
qed

section \<open>What a call of \<open>next\<close> yields\<close>

lemma same_search_trans: "same_search a b \<Longrightarrow> same_search b c \<Longrightarrow> same_search a c"
  by (simp add: same_search_def)

text \<open>
  A call takes the first of the chains still to come, ends when there is none, or reports that the
  budget is spent.
\<close>

lemma candidates_loop_ok:
  assumes "iter_ok st"
  obtains (none) st' where "candidates_loop cd st = Some (None, st')" "pending cd st = []"
    | (budget) st' where "candidates_loop cd st = Some (Some (Err BudgetExceeded), st')"
    | (found) c st' where "candidates_loop cd st = Some (Some (Ok c), st')" "iter_ok st'"
        "same_search st st'" "pending cd st = c # pending cd st'"
proof -
  have "(\<exists>st'. candidates_loop cd st = Some (None, st') \<and> pending cd st = []) \<or>
      (\<exists>st'. candidates_loop cd st = Some (Some (Err BudgetExceeded), st')) \<or>
      (\<exists>c st'. candidates_loop cd st = Some (Some (Ok c), st') \<and> iter_ok st' \<and>
         same_search st st' \<and> pending cd st = c # pending cd st')"
    using assms
  proof (induction cd st rule: candidates_loop.induct)
    case (1 cd st)
    note unf = candidates_loop.simps [of cd st]
    from 1(2) show ?case
    proof (cases rule: candidates_turn_ok [of st cd])
      case (cont st')
      then show ?thesis using 1(1) [of "Continue st'" st'] unf by (auto dest: same_search_trans)
    next
      case none
      then show ?thesis using unf by simp
    next
      case budget
      then show ?thesis using unf by simp
    next
      case (found c st')
      then show ?thesis using unf by simp
    qed
  qed
  then show ?thesis using that by blast
qed

lemma candidates_next_new:
  "candidates_next cd (path_candidates_new target pool anchors config) =
     candidates_loop cd ((path_candidates_new target pool anchors config)\<lparr> pc_started := True \<rparr>)"
  by (simp add: candidates_next_def path_candidates_new_def)

text \<open>The chains an iterator for a target yields, in order.\<close>

definition all_chains ::
  "'x x509_codec_scheme \<Rightarrow> certificate \<Rightarrow> cert_pool \<Rightarrow> trust_anchor list \<Rightarrow> nat \<Rightarrow> certificate list list" where
  "all_chains cd target pool anchors depth = dfs cd pool anchors depth [target]"

lemma iter_new_ok:
  "iter_ok ((path_candidates_new target pool anchors config)\<lparr> pc_started := b \<rparr>)"
  "pending cd ((path_candidates_new target pool anchors config)\<lparr> pc_started := b \<rparr>) =
     all_chains cd target pool anchors (max_depth config)"
  "\<not> pc_done ((path_candidates_new target pool anchors config)\<lparr> pc_started := b \<rparr>)"
  by (simp_all add: iter_ok_def path_candidates_new_def frame_ok_def frame_new_def pending_def
      frame_chains_def Let_def all_chains_def)

lemma candidates_next_first:
  obtains (none) st' where "candidates_next cd (path_candidates_new target pool anchors config) = Some (None, st')"
      "all_chains cd target pool anchors (max_depth config) = []"
    | (budget) st' where "candidates_next cd (path_candidates_new target pool anchors config)
        = Some (Some (Err BudgetExceeded), st')"
    | (found) c st' cs where "candidates_next cd (path_candidates_new target pool anchors config)
        = Some (Some (Ok c), st')" "all_chains cd target pool anchors (max_depth config) = c # cs"
proof -
  let ?st = "(path_candidates_new target pool anchors config)\<lparr> pc_started := True \<rparr>"
  have ok: "iter_ok ?st" by (rule iter_new_ok)
  have p: "pending cd ?st = all_chains cd target pool anchors (max_depth config)"
    by (rule iter_new_ok)
  from ok show ?thesis
    by (cases rule: candidates_loop_ok [of ?st cd])
      (use none budget found in \<open>simp_all add: candidates_next_new p\<close>)
qed

section \<open>Topologically valid chains\<close>

fun steps_from :: "'x x509_codec_scheme \<Rightarrow> certificate list \<Rightarrow> certificate list \<Rightarrow> certificate list \<Rightarrow> bool" where
  "steps_from cd pool path [] = True"
| "steps_from cd pool path (c # cs) =
     (c \<in> set pool \<and> names_match (subject (tbs c)) (issuer (tbs (last path))) \<and>
      builder_cert_is_ca cd c \<and> \<not> spki_already_in_path c path \<and>
      steps_from cd pool (path @ [c]) cs)"

text \<open>
  A chain from the target, each further certificate a CA of the pool that the one before names as its
  issuer and whose key is new on the chain, up to a certificate issued by the name of an anchor.
\<close>

definition topological ::
  "'x x509_codec_scheme \<Rightarrow> certificate \<Rightarrow> cert_pool \<Rightarrow> trust_anchor list \<Rightarrow> certificate list \<Rightarrow> bool" where
  "topological cd target pool anchors chain =
     (case chain of
        [] \<Rightarrow> False
      | t # cs \<Rightarrow> t = target \<and> steps_from cd pool [t] cs \<and> is_anchored anchors (last chain))"

lemma dfs_sound:
  "c \<in> set (dfs cd pool anchors k path) \<Longrightarrow>
     \<exists>ext. c = path @ ext \<and> length ext \<le> k \<and> steps_from cd pool path ext \<and>
       is_anchored anchors (last (path @ ext))"
proof (induction k arbitrary: path)
  case 0
  then show ?case by (auto split: if_splits)
next
  case (Suc k)
  show ?case
  proof (cases "is_anchored anchors (last path)")
    case True
    with Suc.prems show ?thesis by simp
  next
    case False
    with Suc.prems obtain x where x: "x \<in> set (rank_candidates cd (last path) pool)"
      "builder_cert_is_ca cd (pool ! snd x)" "\<not> spki_already_in_path (pool ! snd x) path"
      "c \<in> set (dfs cd pool anchors k (path @ [pool ! snd x]))"
      by (auto simp del: snd_conv split: if_splits)
    from Suc.IH [OF x(4)] obtain ext where "c = (path @ [pool ! snd x]) @ ext" "length ext \<le> k"
      "steps_from cd pool (path @ [pool ! snd x]) ext"
      "is_anchored anchors (last ((path @ [pool ! snd x]) @ ext))" by blast
    with x(2,3) rank_candidates_index [OF x(1)] show ?thesis
      by (intro exI [of _ "pool ! snd x # ext"]) simp
  qed
qed

lemma dfs_complete:
  "steps_from cd pool path ext \<Longrightarrow> length ext \<le> k \<Longrightarrow> is_anchored anchors (last (path @ ext)) \<Longrightarrow>
     dfs cd pool anchors k path \<noteq> []"
proof (induction ext arbitrary: path k)
  case Nil
  then show ?case by (simp add: anchored_dfs)
next
  case (Cons c ext)
  show ?case
  proof (cases "is_anchored anchors (last path)")
    case True
    then show ?thesis by (simp add: anchored_dfs)
  next
    case False
    from Cons.prems(2) obtain k' where k: "k = Suc k'" "length ext \<le> k'" by (cases k) auto
    from Cons.prems(1) obtain i where i: "i < length pool" "c = pool ! i" by (auto simp: in_set_conv_nth)
    with Cons.prems(1) rank_candidates_complete [of i pool "last path" cd] obtain t
      where t: "(t, i) \<in> set (rank_candidates cd (last path) pool)" by auto
    have "dfs cd pool anchors k' (path @ [c]) \<noteq> []"
      using Cons.IH [of "path @ [c]" k'] Cons.prems k by simp
    with Cons.prems(1) i have "dfs_below cd pool anchors k' path (t, i) \<noteq> []"
      by (simp add: dfs_below_def)
    with t False k show ?thesis by (auto simp: dfs_Suc simp del: dfs.simps(2))
  qed
qed

lemma all_chains_topological:
  "c \<in> set (all_chains cd target pool anchors d) \<Longrightarrow>
     topological cd target pool anchors c \<and> length c \<le> Suc d"
  by (auto simp: all_chains_def topological_def dest!: dfs_sound)

lemma topological_all_chains:
  assumes "topological cd target pool anchors c" and "length c \<le> Suc d"
  shows "all_chains cd target pool anchors d \<noteq> []"
proof -
  from assms obtain ext where "c = [target] @ ext" "steps_from cd pool [target] ext"
    "is_anchored anchors (last ([target] @ ext))"
    by (cases c) (auto simp: topological_def)
  with assms(2) show ?thesis unfolding all_chains_def by (intro dfs_complete) auto
qed

section \<open>The retry loop\<close>

lemma first_valid_loop_ok:
  assumes "iter_ok it" and "\<not> pc_done it"
  shows "case first_valid_loop cd validate probe it tried lst of
      None \<Rightarrow> probe = None
    | Some (Inr c) \<Rightarrow> (c \<in> set (pending cd it) \<and> is_ok (validate c)) \<or> probe = Some (Inr c)
    | Some (Inl e) \<Rightarrow>
        e = BudgetExceeded \<or>
        (lst = None \<and> pending cd it = [] \<and> probe = Some (Inl e)) \<or>
        (\<exists>l. e = NoValidPath (tried + length (pending cd it)) l \<and>
           (lst \<noteq> None \<or> pending cd it \<noteq> []) \<and> list_all (\<lambda>c. \<not> is_ok (validate c)) (pending cd it))"
  using assms
proof (induction cd validate probe it tried lst rule: first_valid_loop.induct)
  case (1 cd validate probe it tried lst)
  let ?it = "it\<lparr> pc_started := True \<rparr>"
  have same: "same_search it ?it" by (simp add: same_search_def)
  have ok: "iter_ok ?it"
    using 1(2) unfolding iter_ok_def frame_ok_cong [OF same] by simp
  have pend: "pending cd ?it = pending cd it"
    unfolding pending_def pending_rev_cong [OF same] by simp
  have nxt: "candidates_next cd it = candidates_loop cd ?it"
    using 1(3) by (simp add: candidates_next_def)
  note unf = first_valid_loop.simps [of cd validate probe it tried lst]
  from ok show ?case
  proof (cases rule: candidates_loop_ok [of ?it cd])
    case (none st')
    then show ?thesis using nxt pend unf
      by (cases lst; cases probe) (auto split: sum.splits)
  next
    case (budget st')
    then show ?thesis using nxt unf by simp
  next
    case (found c st')
    have done': "\<not> pc_done st'" using found(3) 1(3) by (simp add: same_search_def)
    show ?thesis
    proof (cases "validate c")
      case (Inr vp)
      then show ?thesis using found nxt pend unf by simp
    next
      case (Inl e)
      with 1(1) [OF nxt [unfolded found(1)] refl refl refl Inl found(2) done']
      show ?thesis using found nxt pend unf
        by (auto split: option.splits sum.splits)
    qed
  qed
qed

section \<open>A budget that suffices\<close>

text \<open>
  The frames of a full search tree in which every certificate of a pool of size \<open>n\<close> is tried at each of \<open>k\<close>
  further levels.
\<close>

fun tree_frames :: "nat \<Rightarrow> nat \<Rightarrow> nat" where
  "tree_frames n 0 = 1"
| "tree_frames n (Suc k) = 1 + n * tree_frames n k"

lemma tree_frames_sum: "tree_frames n k = (\<Sum>i\<le>k. n ^ i)"
  by (induction k) (simp_all add: sum.atMost_Suc_shift sum_distrib_left del: sum.atMost_Suc)

text \<open>The frames the top frame at position \<open>i\<close> of the stack can still open, itself included until it is checked.\<close>

definition frame_cost :: "path_candidates \<Rightarrow> nat \<Rightarrow> frame \<Rightarrow> nat" where
  "frame_cost st i f =
     (if anchor_yielded f then 0
      else if \<not> anchor_checked f then tree_frames (length (pc_pool st)) (pc_max_depth st - i)
      else (case pc_max_depth st - i of
              0 \<Rightarrow> 0
            | Suc k \<Rightarrow>
                (case ranked f of None \<Rightarrow> length (pc_pool st) | Some r \<Rightarrow> length r - cursor f) *
                tree_frames (length (pc_pool st)) k))"

definition search_cost :: "path_candidates \<Rightarrow> nat" where
  "search_cost st = (\<Sum>i < length (pc_frames st). frame_cost st i (pc_frames st ! i))"

lemma frame_cost_cong:
  "pc_pool st' = pc_pool st \<Longrightarrow> pc_max_depth st' = pc_max_depth st \<Longrightarrow> frame_cost st' = frame_cost st"
  by (intro ext) (simp add: frame_cost_def split: nat.split option.split)

lemma search_cost_snoc:
  assumes "pc_frames st' = fs @ [f]" "pc_pool st' = pc_pool st" "pc_max_depth st' = pc_max_depth st"
  shows "search_cost st' = (\<Sum>i < length fs. frame_cost st i (fs ! i)) + frame_cost st (length fs) f"
  using assms by (simp add: search_cost_def frame_cost_cong [OF assms(2,3)] nth_append)

lemma search_cost_backtrack:
  assumes "pc_frames st = fs @ [f]"
  shows "search_cost (backtrack st) \<le> search_cost st"
proof -
  have c: "frame_cost (backtrack st) = frame_cost st" by (rule frame_cost_cong) (simp_all add: backtrack_def)
  have "pc_frames (backtrack st) = fs" by (simp add: backtrack_def assms)
  then have "search_cost (backtrack st) = (\<Sum>i < length fs. frame_cost st i (fs ! i))"
    by (simp add: search_cost_def c)
  then show ?thesis by (simp add: search_cost_snoc [OF assms refl refl])
qed

lemma try_candidate_cost:
  assumes fs: "pc_frames st = fs @ [f]" and path: "pc_path st \<noteq> []"
    and f: "anchor_checked f" "\<not> anchor_yielded f"
    and t: "try_candidate cd st = Some (Continue st')"
  shows "search_cost st' \<le> search_cost st"
proof (cases "length (pc_frames st) > pc_max_depth st")
  case True
  then show ?thesis using t search_cost_backtrack [OF fs] by (simp add: try_candidate_deep)
next
  case False
  then obtain k where k: "pc_max_depth st - length fs = Suc k" "pc_max_depth st - Suc (length fs) = k"
    using fs by (cases "pc_max_depth st - length fs") auto
  let ?n = "length (pc_pool st)"
  define r where "r = frame_ranking cd st (pc_path st) f"
  define g where "g = f\<lparr> ranked := Some r, cursor := cursor f + 1 \<rparr>"
  have top: "frame_cost st (length fs) g + tree_frames ?n k \<le> frame_cost st (length fs) f" if "cursor f < length r"
  proof -
    let ?m = "case ranked f of None \<Rightarrow> ?n | Some r \<Rightarrow> length r - cursor f"
    have "Suc (length r - Suc (cursor f)) \<le> ?m"
      using that length_rank_candidates [of cd "last (pc_path st)" "pc_pool st"]
      by (auto simp: r_def frame_ranking_def split: option.splits)
    then have "Suc (length r - Suc (cursor f)) * tree_frames ?n k \<le> ?m * tree_frames ?n k" by (rule mult_right_mono) simp
    then show ?thesis using f k by (simp add: frame_cost_def g_def)
  qed
  have new: "frame_cost st (Suc (length fs)) frame_new = tree_frames ?n k"
    using k by (simp add: frame_cost_def frame_new_def)
  have g1: "pc_frames (set_top g st) = fs @ [g]" using fs by (simp add: set_top_def)
  consider "st' = backtrack st"
    | "cursor f < length r" "st' = set_top g st"
    | c where "cursor f < length r"
        "st' = (set_top g st)\<lparr> pc_path := pc_path st @ [c], pc_frames := pc_frames (set_top g st) @ [frame_new] \<rparr>"
    using t unfolding try_candidate_unfold [OF fs False path] r_def [symmetric] Let_def g_def [symmetric]
    by (auto simp: not_le split: if_splits)
  then show ?thesis
  proof cases
    case 1
    then show ?thesis using search_cost_backtrack [OF fs] by simp
  next
    case 2
    then show ?thesis
      using top search_cost_snoc [OF g1, of st] search_cost_snoc [OF fs refl refl] by simp
  next
    case 3
    then have "search_cost st' = (\<Sum>i < length (fs @ [g]). frame_cost st i ((fs @ [g]) ! i)) + tree_frames ?n k"
      using search_cost_snoc [of st' "fs @ [g]" frame_new st] new g1 by simp
    also have "\<dots> = (\<Sum>i < length fs. frame_cost st i (fs ! i)) + frame_cost st (length fs) g + tree_frames ?n k"
      by (simp add: nth_append)
    finally show ?thesis using top [OF 3(1)] search_cost_snoc [OF fs refl refl] by simp
  qed
qed

lemma turn_within_budget:
  assumes ok: "iter_ok st" and cost: "search_cost st \<le> pc_budget st"
  shows "candidates_turn cd st = Some (Continue st') \<Longrightarrow> search_cost st' \<le> pc_budget st'"
    and "candidates_turn cd st \<noteq> Some (Leave (Some (Err BudgetExceeded)) st')"
proof -
  have step: "search_cost st' \<le> pc_budget st'" if t: "candidates_turn cd st = Some (Continue st')" for st'
  proof -
    obtain fs f where fs: "pc_frames st = fs @ [f]"
      using t by (cases "pc_frames st" rule: rev_cases) (auto simp: candidates_turn_def)
    note top = iter_ok_top [OF ok fs]
    consider (yielded) "st' = backtrack st"
      | (old) "\<not> anchor_yielded f" "anchor_checked f" "try_candidate cd st = Some (Continue st')"
      | (fresh) "\<not> anchor_checked f" "\<not> anchor_yielded f" "0 < pc_budget st"
        "try_candidate cd (set_top (f\<lparr> anchor_checked := True \<rparr>) (st\<lparr> pc_budget := pc_budget st - 1 \<rparr>)) = Some (Continue st')"
      using t fs by (auto simp: candidates_turn_def Let_def split: if_splits)
    then show ?thesis
    proof cases
      case yielded
      then show ?thesis using cost search_cost_backtrack [OF fs] by (simp add: backtrack_def)
    next
      case old
      then show ?thesis
        using cost try_candidate_cost [OF fs _ old(2,1,3)] top try_candidate_measure [OF old(3)] fs by simp
    next
      case fresh
      let ?g = "f\<lparr> anchor_checked := True \<rparr>"
      let ?st = "set_top ?g (st\<lparr> pc_budget := pc_budget st - 1 \<rparr>)"
      have g: "pc_frames ?st = fs @ [?g]" using fs by (simp add: set_top_def)
      have "ranked f = None" using top fresh(1) by (simp add: frame_ok_def)
      then have "Suc (frame_cost st (length fs) ?g) \<le> frame_cost st (length fs) f"
        using fresh by (simp add: frame_cost_def split: nat.split)
      then have "Suc (search_cost ?st) \<le> search_cost st"
        using search_cost_snoc [OF g, of st] search_cost_snoc [OF fs refl refl] by simp
      moreover have "search_cost st' \<le> search_cost ?st"
        using try_candidate_cost [OF g _ _ _ fresh(4)] top fresh(2) by simp
      moreover have "pc_budget st' = pc_budget st - 1"
        using try_candidate_set_top [OF fresh(4)] fs by simp
      ultimately show ?thesis using cost by simp
    qed
  qed
  then show "candidates_turn cd st = Some (Continue st') \<Longrightarrow> search_cost st' \<le> pc_budget st'" .
  show "candidates_turn cd st \<noteq> Some (Leave (Some (Err BudgetExceeded)) st')"
  proof
    assume t: "candidates_turn cd st = Some (Leave (Some (Err BudgetExceeded)) st')"
    moreover have "try_candidate cd st0 \<noteq> Some (Leave i st1)" for st0 i st1
      by (simp add: try_candidate_def Let_def)
    ultimately have z: "pc_frames st \<noteq> []" "pc_budget st = 0" "\<not> anchor_checked (last (pc_frames st))"
      "\<not> anchor_yielded (last (pc_frames st))"
      by (auto simp: candidates_turn_def Let_def split: if_splits)
    then obtain fs f where fs: "pc_frames st = fs @ [f]" by (metis append_butlast_last_id)
    have "0 < tree_frames n k" for n k by (cases k) simp_all
    then have "0 < search_cost st" using z fs search_cost_snoc [OF fs refl refl] by (simp add: frame_cost_def)
    then show False using cost z by simp
  qed
qed

lemma loop_within_budget:
  assumes "iter_ok st" "search_cost st \<le> pc_budget st"
  shows "candidates_loop cd st \<noteq> Some (Some (Err BudgetExceeded), st')"
  using assms
proof (induction cd st rule: candidates_loop.induct)
  case (1 cd st)
  note within = turn_within_budget [OF 1(2,3), of cd]
  from 1(2) show ?case
  proof (cases rule: candidates_turn_ok [of st cd])
    case (cont st1)
    then show ?thesis using 1(1) [of "Continue st1" st1] within(1) by (subst candidates_loop.simps) simp
  qed (use within(2) in \<open>subst candidates_loop.simps, simp\<close>)+
qed

lemma candidates_next_within_budget:
  assumes "(\<Sum>i \<le> max_depth config. length pool ^ i) \<le> dfs_budget config"
  shows "candidates_next cd (path_candidates_new target pool anchors config) \<noteq> Some (Some (Err BudgetExceeded), st')"
proof -
  let ?st = "(path_candidates_new target pool anchors config)\<lparr> pc_started := True \<rparr>"
  have "search_cost ?st = tree_frames (length pool) (max_depth config)"
    by (simp add: search_cost_def path_candidates_new_def frame_cost_def frame_new_def)
  then have "search_cost ?st \<le> pc_budget ?st"
    using assms by (simp add: tree_frames_sum path_candidates_new_def)
  then show ?thesis
    unfolding candidates_next_new using loop_within_budget [OF iter_new_ok(1)] by blast
qed

section \<open>Properties\<close>

lemma build_path_defined:
  "build_path_with_config cd target pool anchors config \<noteq> None"
proof -
  have probe: "depth_probe cd target pool anchors c \<noteq> None" for c
    unfolding depth_probe_def Let_def
    by (cases rule: candidates_next_first [of cd target pool anchors
          "c\<lparr> max_depth := min (max_depth c + 1) usize_max \<rparr>"]) simp_all
  show ?thesis
    unfolding build_path_with_config_def
    by (cases rule: candidates_next_first [of cd target pool anchors config]) (simp_all add: probe)
qed

text \<open>
  No call of the path builder panics: the frame stack and the path stay in step, and rankings
  hold indices of the pool, so every \<open>expect\<close> and every index of the search is justified.
\<close>

theorem build_path_no_panic:
  "build_path_with_config cd target pool anchors config \<noteq> None"
  by (rule build_path_defined)

lemma build_path_first:
  assumes "build_path_with_config cd target pool anchors config = Some (Ok chain)"
  shows "topological cd target pool anchors chain \<and> length chain \<le> Suc (max_depth config) \<and>
     (\<exists>cs. all_chains cd target pool anchors (max_depth config) = chain # cs)"
proof -
  have probe: "depth_probe cd target pool anchors config \<noteq> Some (Inr c)" for c
    unfolding depth_probe_def Let_def
    by (cases rule: candidates_next_first [of cd target pool anchors
          "config\<lparr> max_depth := min (max_depth config + 1) usize_max \<rparr>"]) simp_all
  then obtain cs where cs: "all_chains cd target pool anchors (max_depth config) = chain # cs"
    using assms unfolding build_path_with_config_def
    by (cases rule: candidates_next_first [of cd target pool anchors config]) simp_all
  then have "chain \<in> set (all_chains cd target pool anchors (max_depth config))" by simp
  from all_chains_topological [OF this] cs show ?thesis by blast
qed

text \<open>
  C6. What \<open>build_path\<close> returns is a topologically valid chain within the configured depth, and it is
  the first chain of one reference depth-first search over the configured depth, as its documentation in \<open>lib.rs\<close>
  says; it need not be the shortest (lemma \<open>first_chain_not_shortest\<close>), although the README of the crate describes an
  iterative deepening that returns the shortest first.
\<close>

theorem build_path_refines_dfs:
  assumes "build_path_with_config cd target pool anchors config = Some (Ok chain)"
  shows "topological cd target pool anchors chain \<and> length chain \<le> Suc (max_depth config) \<and>
     (\<exists>cs. all_chains cd target pool anchors (max_depth config) = chain # cs)"
  using assms by (rule build_path_first)

definition ex_config :: path_builder_config where
  "ex_config = \<lparr> max_depth = 2, dfs_budget = 10 \<rparr>"

theorem build_path_refines_dfs_witness:
  "topological ex_codec (ex_cert 3 2 []) [ex_ca 2 1 [], ex_cert 4 1 []] [ex_anchor 1]
     [ex_cert 3 2 [], ex_ca 2 1 []]"
proof -
  have "build_path_with_config ex_codec (ex_cert 3 2 []) [ex_ca 2 1 [], ex_cert 4 1 []] [ex_anchor 1]
      ex_config = Some (Ok [ex_cert 3 2 [], ex_ca 2 1 []])"
    by code_simp
  from build_path_refines_dfs [OF this] show ?thesis by blast
qed

text \<open>
  The first chain need not be the shortest: here the chain through a second certificate authority comes before the
  direct one, which is also within the depth.
\<close>

lemma first_chain_not_shortest:
  "build_path_with_config ex_codec (ex_cert 3 2 []) [ex_ca 2 4 [], ex_ca 4 1 [], ex_ca 2 1 []] [ex_anchor 1] ex_config =
     Some (Ok [ex_cert 3 2 [], ex_ca 2 4 [], ex_ca 4 1 []])"
  "topological ex_codec (ex_cert 3 2 []) [ex_ca 2 4 [], ex_ca 4 1 [], ex_ca 2 1 []] [ex_anchor 1]
     [ex_cert 3 2 [], ex_ca 2 1 []]"
  by code_simp+

text \<open>Whatever the budget, the builder never denies a chain that exists: it finds one or says that its budget is spent.\<close>

lemma build_path_never_denies:
  assumes "topological cd target pool anchors chain" and "length chain \<le> Suc (max_depth config)"
  shows "build_path_with_config cd target pool anchors config
     \<in> {Some (Err BudgetExceeded)} \<union> {Some (Ok c) |c. topological cd target pool anchors c}"
proof -
  have ne: "all_chains cd target pool anchors (max_depth config) \<noteq> []"
    using assms by (rule topological_all_chains)
  show ?thesis
    unfolding build_path_with_config_def
    by (cases rule: candidates_next_first [of cd target pool anchors config])
      (use ne all_chains_topological [of _ cd target pool anchors "max_depth config"] in auto)
qed

text \<open>
  C7. The builder is complete: when its budget covers the frames of the full search tree over the pool,
  \<open>1 + n + ... + n ^ d\<close> for \<open>n\<close> certificates and the depth \<open>d\<close>, it returns a chain if and only if a topologically
  valid chain within the configured depth exists.
\<close>

theorem build_path_complete:
  assumes "(\<Sum>i \<le> max_depth config. length pool ^ i) \<le> dfs_budget config"
  shows "(\<exists>chain. build_path_with_config cd target pool anchors config = Some (Ok chain)) \<longleftrightarrow>
    (\<exists>chain. topological cd target pool anchors chain \<and> length chain \<le> Suc (max_depth config))"
proof
  assume "\<exists>chain. build_path_with_config cd target pool anchors config = Some (Ok chain)"
  then show "\<exists>chain. topological cd target pool anchors chain \<and> length chain \<le> Suc (max_depth config)"
    using build_path_first by blast
next
  assume "\<exists>chain. topological cd target pool anchors chain \<and> length chain \<le> Suc (max_depth config)"
  then have "all_chains cd target pool anchors (max_depth config) \<noteq> []" using topological_all_chains by blast
  then show "\<exists>chain. build_path_with_config cd target pool anchors config = Some (Ok chain)"
    using candidates_next_within_budget [OF assms, of cd target anchors]
    unfolding build_path_with_config_def
    by (cases rule: candidates_next_first [of cd target pool anchors config]) auto
qed

theorem build_path_complete_witness:
  "\<exists>chain. build_path_with_config ex_codec (ex_cert 3 2 []) [ex_ca 2 1 [], ex_cert 4 1 []] [ex_anchor 1] ex_config
     = Some (Ok chain)"
proof -
  have "topological ex_codec (ex_cert 3 2 []) [ex_ca 2 1 [], ex_cert 4 1 []] [ex_anchor 1] [ex_cert 3 2 [], ex_ca 2 1 []]"
    by code_simp
  moreover have "length [ex_cert 3 2 [], ex_ca 2 1 []] \<le> Suc (max_depth ex_config)" by (simp add: ex_config_def)
  moreover have "(\<Sum>i \<le> max_depth ex_config. length [ex_ca 2 1 [], ex_cert 4 1 []] ^ i) \<le> dfs_budget ex_config"
    by (simp add: ex_config_def numeral_2_eq_2)
  ultimately show ?thesis using build_path_complete [where config = ex_config and pool = "[ex_ca 2 1 [], ex_cert 4 1 []]"] by blast
qed

text \<open>
  \<open>NoPathFound\<close> and \<open>DepthExceeded\<close> tell the truth: with the former no topologically valid chain
  has up to one certificate more than allowed, with the latter one has exactly that and none fewer.
\<close>

theorem build_path_failures:
  assumes "max_depth config < usize_max"
  shows "(build_path_with_config cd target pool anchors config = Some (Err NoPathFound) \<longrightarrow>
            \<not> (\<exists>c. topological cd target pool anchors c \<and> length c \<le> max_depth config + 2)) \<and>
         (build_path_with_config cd target pool anchors config = Some (Err DepthExceeded) \<longrightarrow>
            (\<exists>c. topological cd target pool anchors c \<and> length c = max_depth config + 2) \<and>
            \<not> (\<exists>c. topological cd target pool anchors c \<and> length c \<le> max_depth config + 1))"
proof -
  define cfg where "cfg = config\<lparr> max_depth := min (max_depth config + 1) usize_max \<rparr>"
  have d: "max_depth cfg = max_depth config + 1" using assms by (simp add: cfg_def)
  let ?r = "build_path_with_config cd target pool anchors config"
  consider (early) "?r \<noteq> Some (Err NoPathFound)" "?r \<noteq> Some (Err DepthExceeded)"
    | (np) "?r = Some (Err NoPathFound)" "all_chains cd target pool anchors (max_depth cfg) = []"
    | (de) c cs where "?r = Some (Err DepthExceeded)" "all_chains cd target pool anchors (max_depth config) = []"
        "all_chains cd target pool anchors (max_depth cfg) = c # cs"
    unfolding build_path_with_config_def depth_probe_def Let_def cfg_def [symmetric]
    by (cases rule: candidates_next_first [of cd target pool anchors config];
        cases rule: candidates_next_first [of cd target pool anchors cfg]) auto
  then show ?thesis
  proof cases
    case early
    then show ?thesis by blast
  next
    case np
    then have "\<not> (\<exists>c. topological cd target pool anchors c \<and> length c \<le> max_depth config + 2)"
      using topological_all_chains [of cd target pool anchors _ "max_depth cfg"] d by auto
    with np show ?thesis by simp
  next
    case (de c cs)
    then have "topological cd target pool anchors c \<and> length c \<le> max_depth config + 2"
      using all_chains_topological [of c cd target pool anchors "max_depth cfg"] d by simp
    moreover have none: "\<not> (\<exists>c. topological cd target pool anchors c \<and> length c \<le> max_depth config + 1)"
      using topological_all_chains [of cd target pool anchors _ "max_depth config"] de(2) by auto
    ultimately have "length c = max_depth config + 2" by force
    with none \<open>topological cd target pool anchors c \<and> _\<close> de(1) show ?thesis by auto
  qed
qed

theorem build_path_failures_witness:
  "\<not> (\<exists>c. topological ex_codec (ex_cert 3 2 []) [ex_cert 4 1 []] [ex_anchor 1] c \<and>
        length c \<le> max_depth ex_config + 2)"
proof -
  have "build_path_with_config ex_codec (ex_cert 3 2 []) [ex_cert 4 1 []] [ex_anchor 1] ex_config
      = Some (Err NoPathFound)"
    by code_simp
  moreover have "max_depth ex_config < usize_max" by code_simp
  ultimately show ?thesis using build_path_failures by blast
qed

lemma first_valid_path_cases:
  "case build_first_valid_path_with_config cd target pool anchors policy v config of
     None \<Rightarrow> False
   | Some (Inr chain) \<Rightarrow>
       topological cd target pool anchors chain \<and> is_ok (validate_path cd chain anchors policy v)
   | Some (Inl (NoValidPath tried _)) \<Rightarrow>
       tried = length (all_chains cd target pool anchors (max_depth config)) \<and> 0 < tried \<and>
       list_all (\<lambda>c. \<not> is_ok (validate_path cd c anchors policy v))
         (all_chains cd target pool anchors (max_depth config))
   | _ \<Rightarrow> True"
proof -
  let ?it = "path_candidates_new target pool anchors config"
  let ?probe = "depth_probe cd target pool anchors config"
  have it: "iter_ok ?it" "pending cd ?it = all_chains cd target pool anchors (max_depth config)" "\<not> pc_done ?it"
    using iter_new_ok [where target = target and pool = pool and anchors = anchors and config = config
        and b = False]
    by (simp_all add: path_candidates_new_def)
  have probe: "?probe = Some (Err NoPathFound) \<or> ?probe = Some (Err DepthExceeded) \<or> ?probe = Some (Err BudgetExceeded)"
    unfolding depth_probe_def Let_def
    by (cases rule: candidates_next_first [of cd target pool anchors
          "config\<lparr> max_depth := min (max_depth config + 1) usize_max \<rparr>"]) simp_all
  define V where "V = (\<lambda>chain. validate_path cd chain anchors policy v)"
  define out where "out = first_valid_loop cd V ?probe ?it 0 None"
  have r: "build_first_valid_path_with_config cd target pool anchors policy v config = out"
    by (simp add: build_first_valid_path_with_config_def out_def V_def)
  have main: "case out of None \<Rightarrow> ?probe = None
    | Some (Inr c) \<Rightarrow> (c \<in> set (all_chains cd target pool anchors (max_depth config)) \<and> is_ok (V c)) \<or> ?probe = Some (Inr c)
    | Some (Inl e) \<Rightarrow>
        e = BudgetExceeded \<or>
        ((None::string option) = None \<and> all_chains cd target pool anchors (max_depth config) = [] \<and> ?probe = Some (Inl e)) \<or>
        (\<exists>l. e = NoValidPath (0 + length (all_chains cd target pool anchors (max_depth config))) l \<and>
           ((None::string option) \<noteq> None \<or> all_chains cd target pool anchors (max_depth config) \<noteq> []) \<and>
           list_all (\<lambda>c. \<not> is_ok (V c)) (all_chains cd target pool anchors (max_depth config)))"
    unfolding out_def it(2) [symmetric] by (rule first_valid_loop_ok [OF it(1,3)])
  show ?thesis
  proof (cases out)
    case None
    with main probe show ?thesis by simp
  next
    case (Some x)
    show ?thesis
    proof (cases x)
      case (Inl e)
      with main probe Some show ?thesis unfolding r V_def by (auto split: builder_error.splits)
    next
      case (Inr c)
      with main probe Some have "c \<in> set (all_chains cd target pool anchors (max_depth config))" "is_ok (V c)"
        by auto
      then show ?thesis using all_chains_topological Some Inr unfolding r V_def by fastforce
    qed
  qed
qed

text \<open>
  C8. \<open>build_first_valid_path\<close> returns only chains that \<open>validate_path\<close> accepts and that are
  topologically valid; \<open>NoValidPath\<close> means that every chain of the reference search was tried and
  refused, and reports their number, at least one.
\<close>

theorem build_first_valid_path_sound:
  "case build_first_valid_path_with_config cd target pool anchors policy v config of
     None \<Rightarrow> False
   | Some (Inr chain) \<Rightarrow>
       topological cd target pool anchors chain \<and> is_ok (validate_path cd chain anchors policy v)
   | Some (Inl (NoValidPath tried _)) \<Rightarrow>
       tried = length (all_chains cd target pool anchors (max_depth config)) \<and> 0 < tried \<and>
       list_all (\<lambda>c. \<not> is_ok (validate_path cd c anchors policy v))
         (all_chains cd target pool anchors (max_depth config))
   | _ \<Rightarrow> True"
  by (rule first_valid_path_cases)

end
