(* ===== verification/Backends.thy ===== *)
theory Backends
  imports PathTypes
begin

text \<open>
  The signature verifiers \<open>pkix-path\<close> ships: one per algorithm, each a guard on the algorithm
  identifier around the key parser, the signature parser and the verification of a RustCrypto crate,
  and \<open>DefaultVerifier\<close>, which dispatches on the identifier. The RustCrypto operations are parameters.
\<close>

definition OID_ECDSA_P256_SHA256 :: oid where "OID_ECDSA_P256_SHA256 = [1, 2, 840, 10045, 4, 3, 2]"
definition OID_ECDSA_P384_SHA384 :: oid where "OID_ECDSA_P384_SHA384 = [1, 2, 840, 10045, 4, 3, 3]"
definition OID_SHA256_WITH_RSA :: oid where "OID_SHA256_WITH_RSA = [1, 2, 840, 113549, 1, 1, 11]"
definition OID_SHA384_WITH_RSA :: oid where "OID_SHA384_WITH_RSA = [1, 2, 840, 113549, 1, 1, 12]"
definition OID_SHA512_WITH_RSA :: oid where "OID_SHA512_WITH_RSA = [1, 2, 840, 113549, 1, 1, 13]"

lemmas algorithm_oid_defs =
  OID_ECDSA_P256_SHA256_def OID_ECDSA_P384_SHA384_def OID_SHA256_WITH_RSA_def OID_SHA384_WITH_RSA_def
  OID_SHA512_WITH_RSA_def

text \<open>
  What an algorithm crate provides: \<open>VerifyingKey::try_from\<close>, \<open>Signature::try_from\<close> (each failing with
  \<open>None\<close>) and \<open>VerifyingKey::verify\<close>, on a key and a signature given by their encodings.
\<close>

record sig_backend =
  vk_try_from :: "spki \<Rightarrow> bytes option"
  sig_try_from :: "bytes \<Rightarrow> bytes option"
  vk_verify :: "bytes \<Rightarrow> bytes \<Rightarrow> bytes \<Rightarrow> bool"

record crypto_backends =
  p256 :: sig_backend
  p384 :: sig_backend
  rsa_sha256 :: sig_backend
  rsa_sha384 :: sig_backend
  rsa_sha512 :: sig_backend

definition backend_accepts :: "sig_backend \<Rightarrow> spki \<Rightarrow> bytes \<Rightarrow> bytes \<Rightarrow> bool" where
  "backend_accepts b key msg sig =
     (case vk_try_from b key of
        None \<Rightarrow> False
      | Some vk \<Rightarrow> (case sig_try_from b sig of None \<Rightarrow> False | Some s \<Rightarrow> vk_verify b vk msg s))"

definition guarded_verifier :: "oid \<Rightarrow> sig_backend \<Rightarrow> sig_verifier" where
  "guarded_verifier oid b algorithm issuer_spki message signature =
     (if alg_oid algorithm \<noteq> oid then Err SignatureError
      else and_then (ok_or SignatureError (vk_try_from b issuer_spki)) (\<lambda>vk.
           and_then (ok_or SignatureError (sig_try_from b signature)) (\<lambda>sig.
           guard_or (vk_verify b vk message sig) SignatureError)))"

definition ecdsa_p256_verifier :: "crypto_backends \<Rightarrow> sig_verifier" where
  "ecdsa_p256_verifier cb = guarded_verifier OID_ECDSA_P256_SHA256 (p256 cb)"

definition ecdsa_p384_verifier :: "crypto_backends \<Rightarrow> sig_verifier" where
  "ecdsa_p384_verifier cb = guarded_verifier OID_ECDSA_P384_SHA384 (p384 cb)"

definition rsa_sha256_verifier :: "crypto_backends \<Rightarrow> sig_verifier" where
  "rsa_sha256_verifier cb = guarded_verifier OID_SHA256_WITH_RSA (rsa_sha256 cb)"

definition rsa_sha384_verifier :: "crypto_backends \<Rightarrow> sig_verifier" where
  "rsa_sha384_verifier cb = guarded_verifier OID_SHA384_WITH_RSA (rsa_sha384 cb)"

definition rsa_sha512_verifier :: "crypto_backends \<Rightarrow> sig_verifier" where
  "rsa_sha512_verifier cb = guarded_verifier OID_SHA512_WITH_RSA (rsa_sha512 cb)"

definition default_verifier :: "crypto_backends \<Rightarrow> sig_verifier" where
  "default_verifier cb algorithm issuer_spki message signature =
     (let oid = alg_oid algorithm
      in if oid = OID_ECDSA_P256_SHA256 then ecdsa_p256_verifier cb algorithm issuer_spki message signature
         else if oid = OID_ECDSA_P384_SHA384 then ecdsa_p384_verifier cb algorithm issuer_spki message signature
         else if oid = OID_SHA256_WITH_RSA then rsa_sha256_verifier cb algorithm issuer_spki message signature
         else if oid = OID_SHA384_WITH_RSA then rsa_sha384_verifier cb algorithm issuer_spki message signature
         else if oid = OID_SHA512_WITH_RSA then rsa_sha512_verifier cb algorithm issuer_spki message signature
         else Err SignatureError)"

section \<open>What the default verifier accepts\<close>

lemma guarded_verifier_Ok:
  "guarded_verifier oid b alg key msg sig = Inr u \<longleftrightarrow> alg_oid alg = oid \<and> backend_accepts b key msg sig"
  by (auto simp: guarded_verifier_def backend_accepts_def and_then_Ok_iff guard_or_Ok_iff ok_or_Ok_iff
      split: option.splits if_splits)

definition supported_backends :: "crypto_backends \<Rightarrow> (oid \<times> sig_backend) list" where
  "supported_backends cb =
     [(OID_ECDSA_P256_SHA256, p256 cb), (OID_ECDSA_P384_SHA384, p384 cb), (OID_SHA256_WITH_RSA, rsa_sha256 cb),
      (OID_SHA384_WITH_RSA, rsa_sha384 cb), (OID_SHA512_WITH_RSA, rsa_sha512 cb)]"

lemma default_verifier_Ok:
  "default_verifier cb alg key msg sig = Inr u \<longleftrightarrow>
     (\<exists>b. map_of (supported_backends cb) (alg_oid alg) = Some b \<and> backend_accepts b key msg sig)"
  by (simp add: default_verifier_def Let_def supported_backends_def ecdsa_p256_verifier_def
      ecdsa_p384_verifier_def rsa_sha256_verifier_def rsa_sha384_verifier_def rsa_sha512_verifier_def
      guarded_verifier_Ok)

end
