(* ===== verification/Identity.thy ===== *)
theory Identity
  imports Fixtures
begin

text \<open>
  Identity binding of \<open>pkix-identity/src/lib.rs\<close>: parsing and normalisation of server names (DNS
  names and IP literals) and mailboxes, and their comparison with the subject alternative names of a
  certificate. A \<open>&str\<close> is the list of its UTF-8 bytes as characters. IDNA conversion is code of the
  crate \<open>idna\<close> and reading a \<open>UTF8String\<close> is code of \<open>der\<close>: both are fields of \<open>identity_codec\<close>.
\<close>

unbundle bit_operations_syntax

record identity_codec = x509_codec +
  domain_to_ascii :: "string \<Rightarrow> string option"
  dec_utf8_any :: "any \<Rightarrow> der_error + string"

section \<open>Constants and errors\<close>

definition OID_SMTP_UTF8_MAILBOX :: oid where
  "OID_SMTP_UTF8_MAILBOX = [1, 3, 6, 1, 5, 5, 7, 8, 9]"
definition DNS_NAME_MAX_LEN :: nat where "DNS_NAME_MAX_LEN = 253"
definition DNS_LABEL_MAX_LEN :: nat where "DNS_LABEL_MAX_LEN = 63"

datatype identity_error = MalformedInput | NoMatchingSan | MissingSan_id | MalformedSan

type_synonym 'a identity_result = "identity_error + 'a"

fun display_identity_error :: "identity_error \<Rightarrow> string" where
  "display_identity_error MalformedInput = ''malformed identity input''"
| "display_identity_error NoMatchingSan =
     ''no Subject Alternative Name entry matched the identity''"
| "display_identity_error MissingSan_id =
     ''certificate has no Subject Alternative Name extension''"
| "display_identity_error MalformedSan =
     ''certificate Subject Alternative Name extension is malformed''"

section \<open>Characters and numbers of the standard library\<close>

definition is_ascii :: "string \<Rightarrow> bool" where
  "is_ascii s = list_all (\<lambda>c. (of_char c :: nat) < 128) s"

definition is_ascii_alphanumeric :: "char \<Rightarrow> bool" where
  "is_ascii_alphanumeric c =
     (let n = (of_char c :: nat)
      in (48 \<le> n \<and> n \<le> 57) \<or> (65 \<le> n \<and> n \<le> 90) \<or> (97 \<le> n \<and> n \<le> 122))"

text \<open>\<open>char::to_digit\<close>.\<close>

definition to_digit :: "nat \<Rightarrow> char \<Rightarrow> nat option" where
  "to_digit radix c =
     (let n = (of_char c :: nat);
          d = (if 48 \<le> n \<and> n \<le> 57 then Some (n - 48)
               else if 65 \<le> n \<and> n \<le> 90 then Some (n - 55)
               else if 97 \<le> n \<and> n \<le> 122 then Some (n - 87) else None)
      in case d of None \<Rightarrow> None | Some v \<Rightarrow> if v < radix then Some v else None)"

fun digits_value :: "nat \<Rightarrow> nat \<Rightarrow> string \<Rightarrow> nat option" where
  "digits_value radix acc [] = Some acc"
| "digits_value radix acc (c # cs) =
     (case to_digit radix c of
        None \<Rightarrow> None
      | Some v \<Rightarrow> digits_value radix (acc * radix + v) cs)"

text \<open>
  \<open>from_str_radix\<close> of an unsigned integer below \<open>bound\<close>: an empty string and a bare sign are errors,
  one leading plus sign is accepted, and so is any number of leading zeros.
\<close>

definition parse_uint :: "nat \<Rightarrow> nat \<Rightarrow> string \<Rightarrow> nat option" where
  "parse_uint radix bound s =
     (let digits = (case s of c # cs \<Rightarrow> if c = CHR ''+'' then cs else s | [] \<Rightarrow> [])
      in if digits = [] then None
         else case digits_value radix 0 digits of
                None \<Rightarrow> None
              | Some v \<Rightarrow> if v < bound then Some v else None)"

text \<open>\<open>char::is_whitespace\<close>: the code points with the property White_Space, looked for by their UTF-8 form.\<close>

definition white_space :: "nat list" where
  "white_space =
     [9, 10, 11, 12, 13, 32, 0x85, 0xA0, 0x1680, 0x2000, 0x2001, 0x2002, 0x2003, 0x2004, 0x2005, 0x2006,
      0x2007, 0x2008, 0x2009, 0x200A, 0x2028, 0x2029, 0x202F, 0x205F, 0x3000]"

definition utf8_str :: "nat \<Rightarrow> string" where
  "utf8_str cp = map (\<lambda>b. char_of (unat b)) (encode_utf8 cp)"

definition contains_str :: "string \<Rightarrow> string \<Rightarrow> bool" where
  "contains_str s p = (find_str p s \<noteq> None)"

definition has_whitespace :: "string \<Rightarrow> bool" where
  "has_whitespace s = list_ex (\<lambda>cp. contains_str s (utf8_str cp)) white_space"

section \<open>DNS names\<close>

definition validate_ascii_label :: "string \<Rightarrow> unit identity_result" where
  "validate_ascii_label label =
     (if label = [] \<or> length label > DNS_LABEL_MAX_LEN then Err MalformedInput
      else if hd label = CHR ''-'' \<or> last label = CHR ''-'' then Err MalformedInput
      else try_all (\<lambda>b. guard_or (is_ascii_alphanumeric b \<or> b = CHR ''-'' \<or> b = CHR ''_'') MalformedInput) label)"

function validate_dns_loop :: "string \<Rightarrow> nat \<Rightarrow> nat \<Rightarrow> unit identity_result" where
  "validate_dns_loop bs label_start i =
     (if i < length bs then
        if bs ! i = CHR ''.'' then
          and_then (validate_ascii_label (drop label_start (take i bs)))
            (\<lambda>_. validate_dns_loop bs (i + 1) (i + 1))
        else validate_dns_loop bs label_start (i + 1)
      else validate_ascii_label (drop label_start bs))"
  by pat_completeness auto
termination by (relation "measure (\<lambda>(bs, _, i). length bs - i)") auto

declare validate_dns_loop.simps [simp del]

definition validate_ascii_dns :: "string \<Rightarrow> unit identity_result" where
  "validate_ascii_dns s =
     (if length s > DNS_NAME_MAX_LEN then Err MalformedInput else validate_dns_loop s 0 0)"

definition normalize_dns_name :: "'x identity_codec_scheme \<Rightarrow> string \<Rightarrow> string identity_result" where
  "normalize_dns_name cd s =
     (if s = [] then Err MalformedInput
      else if CHR ''*'' \<in> set s then Err MalformedInput
      else
        (let trimmed = unwrap_or s (strip_suffix ''.'' s)
         in if trimmed = [] then Err MalformedInput
            else if is_ascii trimmed then
              and_then (validate_ascii_dns trimmed) (\<lambda>_. Ok (map ascii_lower trimmed))
            else
              and_then (ok_or MalformedInput (domain_to_ascii cd trimmed)) (\<lambda>ascii.
              and_then (validate_ascii_dns ascii) (\<lambda>_. Ok ascii))))"

section \<open>IP literals\<close>

datatype ip_repr = V4 bytes | V6 bytes

fun ip_as_bytes :: "ip_repr \<Rightarrow> bytes" where
  "ip_as_bytes (V4 b) = b"
| "ip_as_bytes (V6 b) = b"

fun parse_ipv4_parts :: "bytes \<Rightarrow> string list \<Rightarrow> bytes option" where
  "parse_ipv4_parts octets [] = (if length octets = 4 then Some octets else None)"
| "parse_ipv4_parts octets (part # rest) =
     (if length octets = 4 then None
      else if part = [] \<or> (length part > 1 \<and> hd part = CHR ''0'') then None
      else case parse_uint 10 (2 ^ 32) part of
             None \<Rightarrow> None
           | Some v \<Rightarrow>
               if v > 255 then None else parse_ipv4_parts (octets @ [word_of_nat v]) rest)"

definition parse_ipv4 :: "string \<Rightarrow> bytes option" where
  "parse_ipv4 s = parse_ipv4_parts [] (split_on CHR ''.'' s)"

text \<open>The \<open>while let\<close> over the colon-separated parts; \<open>zero_run_at\<close> is where \<open>::\<close> stood.\<close>

fun parse_ipv6_parts ::
  "u16 list \<Rightarrow> nat option \<Rightarrow> string list \<Rightarrow> (u16 list \<times> nat option) option" where
  "parse_ipv6_parts groups zero_run_at [] = Some (groups, zero_run_at)"
| "parse_ipv6_parts groups zero_run_at (part # rest) =
     (if part = [] then
        (case zero_run_at of
           Some _ \<Rightarrow> if rest = [] then Some (groups, zero_run_at) else None
         | None \<Rightarrow>
             if rest = [] then Some (groups, Some (length groups))
             else parse_ipv6_parts groups (Some (length groups)) rest)
      else if length part > 4 then None
      else case parse_uint 16 (2 ^ 16) part of
             None \<Rightarrow> None
           | Some v \<Rightarrow>
               if length groups + 1 > 8 then None
               else parse_ipv6_parts (groups @ [word_of_nat v]) zero_run_at rest)"

definition groups_bytes :: "u16 list \<Rightarrow> bytes" where
  "groups_bytes gs = concat (map (\<lambda>g. [ucast (drop_bit 8 g), ucast (g AND 0xff)]) gs)"

definition ipv6_expand :: "u16 list \<Rightarrow> nat option \<Rightarrow> bytes option" where
  "ipv6_expand groups zero_run_at =
     (let total = length groups
      in if total > 8 then None
         else case zero_run_at of
                None \<Rightarrow> if total \<noteq> 8 then None else Some (groups_bytes groups)
              | Some at \<Rightarrow>
                  if total \<ge> 8 then None
                  else Some (groups_bytes (take at groups @ replicate (8 - total) 0 @ drop at groups)))"

definition parse_ipv6 :: "string \<Rightarrow> bytes option" where
  "parse_ipv6 s =
     (let parts = split_on CHR '':'' s
      in if strip_prefix ''::'' s \<noteq> None then
           (if s = ''::'' then Some (replicate 16 0)
            else case parse_ipv6_parts [] (Some 0) (drop 2 parts) of
                   None \<Rightarrow> None
                 | Some (groups, z) \<Rightarrow> ipv6_expand groups z)
         else if strip_prefix '':'' s \<noteq> None then None
         else case parse_ipv6_parts [] None parts of
                None \<Rightarrow> None
              | Some (groups, z) \<Rightarrow> ipv6_expand groups z)"

definition parse_ip_literal :: "string \<Rightarrow> ip_repr option" where
  "parse_ip_literal s =
     (if s = [] then None
      else if CHR '':'' \<in> set s then map_option V6 (parse_ipv6 s)
      else map_option V4 (parse_ipv4 s))"

section \<open>Server names\<close>

datatype server_name = Dns string | Ip ip_repr

definition dns_name :: "'x identity_codec_scheme \<Rightarrow> string \<Rightarrow> server_name identity_result" where
  "dns_name cd s = map_ok Dns (normalize_dns_name cd s)"

fun as_dns_name :: "server_name \<Rightarrow> string option" where
  "as_dns_name (Dns s) = Some s"
| "as_dns_name (Ip _) = None"

fun as_ip_bytes :: "server_name \<Rightarrow> bytes option" where
  "as_ip_bytes (Dns _) = None"
| "as_ip_bytes (Ip ip) = Some (ip_as_bytes ip)"

definition ip_address :: "string \<Rightarrow> server_name identity_result" where
  "ip_address ip =
     (let trimmed = unwrap_or ip
            (case strip_prefix ''['' ip of None \<Rightarrow> None | Some rest \<Rightarrow> strip_suffix '']'' rest)
      in if CHR ''%'' \<in> set trimmed then Err MalformedInput
         else map_ok Ip (ok_or MalformedInput (parse_ip_literal trimmed)))"

definition server_name_parse :: "'x identity_codec_scheme \<Rightarrow> string \<Rightarrow> server_name identity_result" where
  "server_name_parse cd input =
     (case ip_address input of Inr n \<Rightarrow> Ok n | Inl _ \<Rightarrow> dns_name cd input)"

text \<open>\<open>{}\<close> and \<open>{:x}\<close> of an unsigned integer.\<close>

definition digit_char :: "nat \<Rightarrow> char" where
  "digit_char d = char_of (if d < 10 then 48 + d else 87 + d)"

function show_radix :: "nat \<Rightarrow> nat \<Rightarrow> string" where
  "show_radix r n =
     (if n < r \<or> r < 2 then [digit_char n] else show_radix r (n div r) @ [digit_char (n mod r)])"
  by pat_completeness auto
termination by (relation "measure snd") auto

declare show_radix.simps [simp del]

fun intercalate :: "char \<Rightarrow> string list \<Rightarrow> string" where
  "intercalate d [] = []"
| "intercalate d [s] = s"
| "intercalate d (s # ss) = s @ d # intercalate d ss"

fun be_groups :: "bytes \<Rightarrow> u16 list" where
  "be_groups (hi # lo # rest) = from_be_bytes_u16 hi lo # be_groups rest"
| "be_groups _ = []"

fun display_server_name :: "server_name \<Rightarrow> string" where
  "display_server_name (Dns s) = s"
| "display_server_name (Ip (V4 b)) = intercalate CHR ''.'' (map (\<lambda>o1. show_radix 10 (unat o1)) b)"
| "display_server_name (Ip (V6 b)) =
     ''['' @ intercalate CHR '':'' (map (\<lambda>g. show_radix 16 (unat g)) (be_groups b)) @ '']''"

section \<open>Mailboxes\<close>

record mailbox_name =
  local :: string
  domain_a_label :: string
  is_internationalized :: bool

definition atext :: "char \<Rightarrow> bool" where
  "atext b = (is_ascii_alphanumeric b \<or> b \<in> set ''!#$%&'' \<or> b = CHR 39 \<or> b \<in> set ''*+-/=?^_'' \<or>
     b = CHR 96 \<or> b \<in> set ''{|}~.'')"

definition validate_ascii_local_part :: "string \<Rightarrow> unit identity_result" where
  "validate_ascii_local_part s =
     (if s = [] then Err MalformedInput
      else if hd s = CHR ''.'' \<or> last s = CHR ''.'' \<or> contains_str s ''..'' then Err MalformedInput
      else try_all (\<lambda>b. guard_or (atext b) MalformedInput) s)"

definition mailbox_parse :: "'x identity_codec_scheme \<Rightarrow> string \<Rightarrow> mailbox_name identity_result" where
  "mailbox_parse cd mailbox =
     and_then (ok_or MalformedInput (rsplit_once CHR ''@'' mailbox)) (\<lambda>(local_raw, domain_raw).
       if local_raw = [] \<or> domain_raw = [] then Err MalformedInput
       else if CHR ''@'' \<in> set local_raw then Err MalformedInput
       else if has_whitespace local_raw \<or>
               list_ex (\<lambda>c. c = char_of (0::nat) \<or> c \<in> set ''<>,'' \<or> c = CHR 34) local_raw
       then Err MalformedInput
       else
         (let intl = \<not> is_ascii local_raw
          in and_then (if intl then Ok () else validate_ascii_local_part local_raw) (\<lambda>_.
             and_then (normalize_dns_name cd domain_raw) (\<lambda>dom.
             Ok \<lparr> local = local_raw, domain_a_label = dom, is_internationalized = intl \<rparr>))))"

definition display_mailbox_name :: "mailbox_name \<Rightarrow> string" where
  "display_mailbox_name m = local m @ ''@'' @ domain_a_label m"

section \<open>Matching against a certificate\<close>

definition find_san :: "'x x509_codec_scheme \<Rightarrow> certificate \<Rightarrow> general_name list identity_result" where
  "find_san cd cert =
     and_then (ok_or MissingSan_id (extensions (tbs cert))) (\<lambda>exts.
     and_then (ok_or MissingSan_id (find (\<lambda>e. extn_id e = OID_SUBJECT_ALT_NAME) exts)) (\<lambda>ext.
     map_err (\<lambda>_. MalformedSan) (dec_general_names cd (extn_value ext))))"

definition matches_dns_san :: "string \<Rightarrow> string \<Rightarrow> bool" where
  "matches_dns_san san_entry target =
     (let san = unwrap_or san_entry (strip_suffix ''.'' san_entry)
      in if san = [] then False
         else case strip_prefix ''*.'' san of
           Some rest \<Rightarrow>
             if CHR ''*'' \<in> set rest \<or> rest = [] then False
             else if CHR ''.'' \<notin> set rest then False
             else (case split_once CHR ''.'' target of
                     None \<Rightarrow> False
                   | Some (first, rest_of_target) \<Rightarrow>
                       if first = [] then False else eq_ignore_ascii_case rest_of_target rest)
         | None \<Rightarrow> if CHR ''*'' \<in> set san then False else eq_ignore_ascii_case san target)"

fun dns_entry_matches :: "string \<Rightarrow> general_name \<Rightarrow> bool" where
  "dns_entry_matches target (DnsName san_dns) = matches_dns_san san_dns target"
| "dns_entry_matches target _ = False"

fun ip_entry_matches :: "ip_repr \<Rightarrow> general_name \<Rightarrow> bool" where
  "ip_entry_matches target (IpAddress san_ip) = (san_ip = ip_as_bytes target)"
| "ip_entry_matches target _ = False"

definition verify_dns_name :: "'x x509_codec_scheme \<Rightarrow> certificate \<Rightarrow> server_name \<Rightarrow> unit identity_result" where
  "verify_dns_name cd cert n =
     and_then (find_san cd cert) (\<lambda>san.
       case n of
         Dns target \<Rightarrow> guard_or (list_ex (dns_entry_matches target) san) NoMatchingSan
       | Ip target \<Rightarrow> guard_or (list_ex (ip_entry_matches target) san) NoMatchingSan)"

definition matches_rfc822_mailbox :: "string \<Rightarrow> mailbox_name \<Rightarrow> bool" where
  "matches_rfc822_mailbox san_value target =
     (case rsplit_once CHR ''@'' san_value of
        None \<Rightarrow> False
      | Some (san_local, san_domain) \<Rightarrow>
          if san_local \<noteq> local target then False
          else eq_ignore_ascii_case san_domain (domain_a_label target))"

definition matches_smtp_utf8_mailbox :: "'x identity_codec_scheme \<Rightarrow> string \<Rightarrow> mailbox_name \<Rightarrow> bool" where
  "matches_smtp_utf8_mailbox cd san_value target =
     (case rsplit_once CHR ''@'' san_value of
        None \<Rightarrow> False
      | Some (san_local, san_domain) \<Rightarrow>
          if san_local \<noteq> local target then False
          else (case domain_to_ascii cd san_domain of
                  None \<Rightarrow> False
                | Some san_domain_a \<Rightarrow> eq_ignore_ascii_case san_domain_a (domain_a_label target)))"

fun san_entry_matches_mailbox ::
  "'x identity_codec_scheme \<Rightarrow> general_name \<Rightarrow> mailbox_name \<Rightarrow> bool" where
  "san_entry_matches_mailbox cd (Rfc822Name rfc822) target =
     (\<not> is_internationalized target \<and> matches_rfc822_mailbox rfc822 target)"
| "san_entry_matches_mailbox cd (OtherName type_id v) target =
     (type_id = OID_SMTP_UTF8_MAILBOX \<and>
      (case dec_utf8_any cd v of
         Inr utf8 \<Rightarrow> matches_smtp_utf8_mailbox cd utf8 target
       | Inl _ \<Rightarrow> False))"
| "san_entry_matches_mailbox cd _ target = False"

definition verify_mailbox ::
  "'x identity_codec_scheme \<Rightarrow> certificate \<Rightarrow> mailbox_name \<Rightarrow> unit identity_result" where
  "verify_mailbox cd cert mailbox =
     and_then (find_san cd cert) (\<lambda>san.
       guard_or (list_ex (\<lambda>entry. san_entry_matches_mailbox cd entry mailbox) san) NoMatchingSan)"

text \<open>An example codec; its IDNA conversion knows ASCII names only.\<close>

definition ex_identity_codec :: identity_codec where
  "ex_identity_codec = x509_codec.extend ex_codec
     (identity_codec.fields (\<lambda>s. if is_ascii s then Some (map ascii_lower s) else None)
       (\<lambda>a. if any_tag a = Utf8String then Ok (ex_ia5 (any_value a)) else Err (DerError ''tag'')))"

section \<open>Labels\<close>

lemma split_on_single: "d \<notin> set a \<Longrightarrow> split_on d a = [a]"
  by (induction a) auto

lemma split_on_append: "d \<notin> set a \<Longrightarrow> split_on d (a @ d # b) = a # split_on d b"
  by (induction a) auto

lemma split_on_intercalate:
  "ss \<noteq> [] \<Longrightarrow> list_all (\<lambda>s. d \<notin> set s) ss \<Longrightarrow> split_on d (intercalate d ss) = ss"
  by (induction d ss rule: intercalate.induct) (simp_all add: split_on_single split_on_append)

lemma intercalate_split_on [simp]: "intercalate d (split_on d s) = s"
proof (induction s)
  case (Cons c s)
  then show ?case by (cases "split_on d s"; cases "tl (split_on d s)") auto
qed simp

lemma mem_split_on: "c \<in> set s \<Longrightarrow> c = d \<or> (\<exists>l\<in>set (split_on d s). c \<in> set l)"
  by (induction s) (auto split: list.splits)

lemma split_on_snoc: "split_on d (r @ [d]) = split_on d r @ [[]]"
proof (induction r)
  case (Cons c r)
  then show ?case by (cases "split_on d r") auto
qed simp

lemma split_on_no_sep: "list_all (\<lambda>l. d \<notin> set l) (split_on d s)"
  by (induction s) (auto split: list.splits)

lemma ascii_lower_dot [simp]: "ascii_lower c = CHR ''.'' \<longleftrightarrow> c = CHR ''.''"
  by (subst ascii_lower_eq_nonletter) (simp_all add: ascii_lower_def)

lemma ascii_lower_hyphen [simp]: "ascii_lower c = CHR ''-'' \<longleftrightarrow> c = CHR ''-''"
  by (subst ascii_lower_eq_nonletter) (simp_all add: ascii_lower_def)

lemma ascii_lower_star [simp]: "ascii_lower c = CHR ''*'' \<longleftrightarrow> c = CHR ''*''"
  by (subst ascii_lower_eq_nonletter) (simp_all add: ascii_lower_def)

lemma split_on_lower:
  "split_on CHR ''.'' (map ascii_lower s) = map (map ascii_lower) (split_on CHR ''.'' s)"
  by (induction s) (auto split: list.splits)

lemma lower_eq_labels:
  "map ascii_lower a = map ascii_lower b \<longleftrightarrow>
     map (map ascii_lower) (split_on CHR ''.'' a) = map (map ascii_lower) (split_on CHR ''.'' b)"
proof
  assume "map (map ascii_lower) (split_on CHR ''.'' a) = map (map ascii_lower) (split_on CHR ''.'' b)"
  then have "intercalate CHR ''.'' (split_on CHR ''.'' (map ascii_lower a)) =
      intercalate CHR ''.'' (split_on CHR ''.'' (map ascii_lower b))"
    by (simp only: split_on_lower)
  then show "map ascii_lower a = map ascii_lower b" by simp
next
  assume "map ascii_lower a = map ascii_lower b"
  then have "split_on CHR ''.'' (map ascii_lower a) = split_on CHR ''.'' (map ascii_lower b)" by simp
  then show "map (map ascii_lower) (split_on CHR ''.'' a) = map (map ascii_lower) (split_on CHR ''.'' b)"
    by (simp only: split_on_lower)
qed

text \<open>The declarative reading of the label and name rules.\<close>

definition label_char :: "char \<Rightarrow> bool" where
  "label_char c \<longleftrightarrow> is_ascii_alphanumeric c \<or> c = CHR ''-'' \<or> c = CHR ''_''"

definition label_wf :: "string \<Rightarrow> bool" where
  "label_wf l \<longleftrightarrow> l \<noteq> [] \<and> length l \<le> 63 \<and> hd l \<noteq> CHR ''-'' \<and> last l \<noteq> CHR ''-'' \<and> list_all label_char l"

definition dns_wf :: "string \<Rightarrow> bool" where
  "dns_wf s \<longleftrightarrow> length s \<le> 253 \<and> list_all label_wf (split_on CHR ''.'' s)"

lemma validate_ascii_label_Ok: "validate_ascii_label l = Inr u \<longleftrightarrow> label_wf l"
  by (auto simp: validate_ascii_label_def label_wf_def label_char_def DNS_LABEL_MAX_LEN_def
      result_simps list_all_iff)

lemma validate_dns_loop_labels:
  assumes "label_start \<le> i" and "i \<le> length bs"
    and "CHR ''.'' \<notin> set (drop label_start (take i bs))"
  shows "validate_dns_loop bs label_start i = Inr u \<longleftrightarrow>
     list_all label_wf (split_on CHR ''.'' (drop label_start bs))"
  using assms
proof (induction bs label_start i rule: validate_dns_loop.induct)
  case (1 bs s i)
  note unf = validate_dns_loop.simps [of bs s i]
  show ?case
  proof (cases "i < length bs")
    case False
    with 1(4,5) have "i = length bs" by simp
    with 1(5) have "split_on CHR ''.'' (drop s bs) = [drop s bs]" by (simp add: split_on_single)
    with False unf show ?thesis by (simp add: validate_ascii_label_Ok)
  next
    case i: True
    have cut: "drop s bs = drop s (take i bs) @ bs ! i # drop (i + 1) bs"
      using i 1(3) by (metis Suc_eq_plus1 append_take_drop_id drop_append Cons_nth_drop_Suc
          length_take min.absorb2 less_imp_le drop_0 diff_is_0_eq)
    show ?thesis
    proof (cases "bs ! i = CHR ''.''")
      case True
      have "split_on CHR ''.'' (drop s bs) = drop s (take i bs) # split_on CHR ''.'' (drop (i + 1) bs)"
        unfolding cut True by (rule split_on_append [OF 1(5)])
      moreover have "validate_dns_loop bs (i + 1) (i + 1) = Inr u \<longleftrightarrow>
          list_all label_wf (split_on CHR ''.'' (drop (i + 1) bs))"
        using 1(1) [OF i True] i by simp
      ultimately show ?thesis
        using i True unf by (simp add: result_simps validate_ascii_label_Ok)
    next
      case False
      have "drop s (take (i + 1) bs) = drop s (take i bs) @ [bs ! i]"
        using i 1(3) by (simp add: take_Suc_conv_app_nth)
      with False 1(3,5) 1(2) [OF i False] i unf show ?thesis by simp
    qed
  qed
qed

lemma validate_ascii_dns_Ok: "validate_ascii_dns s = Inr u \<longleftrightarrow> dns_wf s"
  by (simp add: validate_ascii_dns_def dns_wf_def DNS_NAME_MAX_LEN_def
      validate_dns_loop_labels [where label_start = 0 and i = 0, simplified])

lemma dns_wf_char: "dns_wf s \<Longrightarrow> c \<in> set s \<Longrightarrow> c = CHR ''.'' \<or> label_char c"
  using mem_split_on [of c s "CHR ''.''"] by (auto simp: dns_wf_def label_wf_def list_all_iff)

lemma dns_wf_plain:
  assumes "dns_wf s"
  shows "s \<noteq> []" and "CHR ''*'' \<notin> set s" and "strip_suffix ''.'' s = None" and "is_ascii s"
proof -
  show "s \<noteq> []" using assms by (auto simp: dns_wf_def label_wf_def)
  show "CHR ''*'' \<notin> set s"
    using dns_wf_char [OF assms, of "CHR ''*''"] by (auto simp: label_char_def is_ascii_alphanumeric_def)
  show "strip_suffix ''.'' s = None"
  proof (rule ccontr)
    assume "strip_suffix ''.'' s \<noteq> None"
    then obtain r where "s = r @ ''.''" by (auto simp: strip_suffix_Some)
    then have "[] \<in> set (split_on CHR ''.'' s)" by (simp add: split_on_snoc)
    with assms show False by (auto simp: dns_wf_def label_wf_def list_all_iff)
  qed
  show "is_ascii s"
    unfolding is_ascii_def list_all_iff
  proof
    fix c assume "c \<in> set s"
    from dns_wf_char [OF assms this] show "(of_char c :: nat) < 128"
      by (auto simp: label_char_def is_ascii_alphanumeric_def Let_def)
  qed
qed

lemma label_char_lower: "label_char (ascii_lower c) \<longleftrightarrow> label_char c"
proof -
  have "ascii_lower c = CHR ''_'' \<longleftrightarrow> c = CHR ''_''"
    by (subst ascii_lower_eq_nonletter) (simp_all add: ascii_lower_def)
  then show ?thesis
    by (auto simp: label_char_def is_ascii_alphanumeric_def of_char_ascii_lower Let_def split: if_splits)
qed

lemma label_wf_lower: "label_wf (map ascii_lower l) \<longleftrightarrow> label_wf l"
  by (cases l) (auto simp: label_wf_def label_char_lower list_all_iff last_map hd_map
      simp del: last.simps list.map)

lemma dns_wf_lower: "dns_wf (map ascii_lower s) \<longleftrightarrow> dns_wf s"
  by (simp add: dns_wf_def split_on_lower list_all_iff label_wf_lower)

lemma normalize_dns_name_wf:
  "dns_wf s \<Longrightarrow> normalize_dns_name cd s = Ok (map ascii_lower s)"
  using dns_wf_plain [of s] validate_ascii_dns_Ok [of s "()"]
  by (simp add: normalize_dns_name_def)

lemma try_all_guard_Err:
  "try_all (\<lambda>x. guard_or (P x) e) xs = Inl e' \<Longrightarrow> e' = e"
  by (auto simp: try_all_Err_iff)

lemma validate_ascii_label_Err: "validate_ascii_label l = Inl e \<Longrightarrow> e = MalformedInput"
  by (auto simp: validate_ascii_label_def split: if_splits dest: try_all_guard_Err)

lemma validate_dns_loop_Err: "validate_dns_loop bs k i = Inl e \<Longrightarrow> e = MalformedInput"
proof (induction bs k i rule: validate_dns_loop.induct)
  case (1 bs k i)
  from 1(3) show ?case
    unfolding validate_dns_loop.simps [of bs k i]
    by (auto simp: and_then_Err_iff split: if_splits dest: validate_ascii_label_Err 1(1,2))
qed

lemma validate_ascii_dns_decides:
  "validate_ascii_dns s = (if dns_wf s then Ok () else Err MalformedInput)"
proof (cases "validate_ascii_dns s")
  case (Inl e)
  then have "e = MalformedInput"
    by (auto simp: validate_ascii_dns_def split: if_splits dest: validate_dns_loop_Err)
  with Inl validate_ascii_dns_Ok [of s "()"] show ?thesis by auto
next
  case (Inr u)
  with validate_ascii_dns_Ok [of s u] show ?thesis by auto
qed

text \<open>
  On ASCII input normalisation decides the rules of RFC 1035: the name, less one trailing dot,
  is accepted iff it has at most 253 characters and every label is non-empty, at most 63 characters
  long, made of letters, digits, hyphens and underscores and has no hyphen at either end; the result
  is its lower-case form.
\<close>

theorem normalize_dns_name_decides:
  assumes "is_ascii s"
  shows "normalize_dns_name cd s =
     (let t = unwrap_or s (strip_suffix ''.'' s)
      in if dns_wf t then Ok (map ascii_lower t) else Err MalformedInput)"
proof -
  define t where "t = unwrap_or s (strip_suffix ''.'' s)"
  have s: "s = t \<or> s = t @ ''.''"
    by (cases "strip_suffix ''.'' s") (auto simp: t_def dest!: strip_suffix_Some [THEN iffD1] simp del: strip_suffix_def)
  then have ascii: "is_ascii t" using assms by (auto simp: is_ascii_def)
  consider (bad) "s = [] \<or> CHR ''*'' \<in> set s \<or> t = []" | (checked) "s \<noteq> []" "CHR ''*'' \<notin> set s" "t \<noteq> []"
    by blast
  then show ?thesis
  proof cases
    case bad
    then have "\<not> dns_wf t" using s dns_wf_plain(1,2) [of t] by auto
    with bad t_def show ?thesis by (auto simp: normalize_dns_name_def Let_def)
  next
    case checked
    then show ?thesis using ascii
      by (simp add: normalize_dns_name_def t_def [symmetric] validate_ascii_dns_decides)
  qed
qed

theorem normalize_dns_name_decides_witness:
  "normalize_dns_name ex_identity_codec ''WWW.Example.com.'' = Ok ''www.example.com''"
proof -
  have "is_ascii ''WWW.Example.com.''" by code_simp
  then have "normalize_dns_name ex_identity_codec ''WWW.Example.com.'' =
     (let t = unwrap_or ''WWW.Example.com.'' (strip_suffix ''.'' ''WWW.Example.com.'')
      in if dns_wf t then Ok (map ascii_lower t) else Err MalformedInput)"
    by (rule normalize_dns_name_decides)
  also have "\<dots> = Ok ''www.example.com''" by code_simp
  finally show ?thesis .
qed

text \<open>
  Every normalised name, also one that IDNA conversion produced, is a well-formed ASCII name with
  no trailing dot, and normalising it again only folds its case.
\<close>

theorem normalize_dns_name_normal:
  assumes "normalize_dns_name cd s = Ok m"
  shows "dns_wf m \<and> is_ascii m \<and> normalize_dns_name cd m = Ok (map ascii_lower m)"
proof -
  have "dns_wf m"
    using assms
    by (auto simp: normalize_dns_name_def validate_ascii_dns_decides Let_def dns_wf_lower
        and_then_Ok_iff split: if_splits)
  then show ?thesis by (simp add: dns_wf_plain(4) normalize_dns_name_wf)
qed

theorem normalize_dns_name_normal_witness:
  "dns_wf ''a.com'' \<and> normalize_dns_name ex_identity_codec ''a.com'' = Ok ''a.com''"
proof -
  have "normalize_dns_name ex_identity_codec ''A.com'' = Ok ''a.com''" by code_simp
  moreover have "map ascii_lower ''a.com'' = ''a.com''" by code_simp
  ultimately show ?thesis using normalize_dns_name_normal by metis
qed

section \<open>Matching DNS names\<close>

text \<open>
  What a \<open>dNSName\<close> entry covers, in terms of labels: without a wildcard the same labels; with a
  leftmost label \<open>*\<close> any one label before the remaining ones, of which there are at least two.
\<close>

definition dns_covers :: "string \<Rightarrow> string \<Rightarrow> bool" where
  "dns_covers san_entry target \<longleftrightarrow>
     (let labels = split_on CHR ''.'' (unwrap_or san_entry (strip_suffix ''.'' san_entry));
          tlabels = split_on CHR ''.'' target;
          fold_case = map (map ascii_lower)
      in (labels \<noteq> [[]] \<and> list_all (\<lambda>l. CHR ''*'' \<notin> set l) labels \<and> fold_case labels = fold_case tlabels) \<or>
         (hd labels = ''*'' \<and> length labels \<ge> 3 \<and> list_all (\<lambda>l. CHR ''*'' \<notin> set l) (tl labels) \<and>
          hd tlabels \<noteq> [] \<and> fold_case (tl labels) = fold_case (tl tlabels)))"

lemma star_labels: "d \<noteq> CHR ''*'' \<Longrightarrow>
  CHR ''*'' \<in> set s \<longleftrightarrow> \<not> list_all (\<lambda>l. CHR ''*'' \<notin> set l) (split_on d s)"
  by (induction s) (auto split: list.splits)

lemma split_on_eq_single: "split_on d s = [l] \<longleftrightarrow> s = l \<and> d \<notin> set s"
proof
  assume h: "split_on d s = [l]"
  then have "s = l" using intercalate_split_on [of d s] by simp
  with h show "s = l \<and> d \<notin> set s" using split_on_no_sep [of d s] by simp
qed (auto simp: split_on_single)

lemma length_split_on: "length (split_on d s) \<ge> 2 \<longleftrightarrow> d \<in> set s"
proof
  assume "2 \<le> length (split_on d s)"
  then show "d \<in> set s" using split_on_single [of d s] by (cases "d \<in> set s") auto
next
  assume "d \<in> set s"
  then obtain a b where "s = a @ d # b" "d \<notin> set a" by (meson split_list_first)
  then show "2 \<le> length (split_on d s)" by (simp add: split_on_append Suc_le_eq)
qed

lemma matches_dns_san_covers: "matches_dns_san san_entry target \<longleftrightarrow> dns_covers san_entry target"
proof -
  define san where "san = unwrap_or san_entry (strip_suffix ''.'' san_entry)"
  consider (empty) "san = []" | (wild) rest where "san = ''*.'' @ rest"
    | (plain) "san \<noteq> []" "strip_prefix ''*.'' san = None"
    by (cases "strip_prefix ''*.'' san") (auto simp: strip_prefix_Some)
  then show ?thesis
  proof cases
    case empty
    then show ?thesis by (simp add: matches_dns_san_def dns_covers_def san_def [symmetric])
  next
    case (wild rest)
    then have p: "strip_prefix ''*.'' san = Some rest" by (simp add: strip_prefix_Some)
    have l: "split_on CHR ''.'' san = ''*'' # split_on CHR ''.'' rest"
      unfolding wild using split_on_append [of "CHR ''.''" "''*''" rest] by simp
    have len: "CHR ''.'' \<in> set rest \<longleftrightarrow> 2 \<le> length (split_on CHR ''.'' rest)"
      by (simp only: length_split_on)
    show ?thesis
    proof (cases "split_once CHR ''.'' target")
      case None
      then have "split_on CHR ''.'' target = [target]" by (simp add: split_once_None split_on_single)
      with None p l wild show ?thesis
        by (simp add: matches_dns_san_def dns_covers_def san_def [symmetric] len)
    next
      case (Some q)
      then obtain first more where q: "split_once CHR ''.'' target = Some (first, more)"
        by (cases q) auto
      then have "split_on CHR ''.'' target = first # split_on CHR ''.'' more"
        by (auto simp: split_once_Some split_on_append)
      with q p l wild show ?thesis
        by (auto simp: matches_dns_san_def dns_covers_def san_def [symmetric] len
            star_labels [of "CHR ''.''" rest] eq_ignore_ascii_case_def lower_eq_labels Let_def)
    qed
  next
    case plain
    then have "hd (split_on CHR ''.'' san) = ''*'' \<Longrightarrow> length (split_on CHR ''.'' san) \<ge> 3 \<Longrightarrow> False"
    proof -
      assume h: "hd (split_on CHR ''.'' san) = ''*''" and n: "length (split_on CHR ''.'' san) \<ge> 3"
      then have "CHR ''.'' \<in> set san" using length_split_on [of "CHR ''.''" san] by simp
      then obtain a b where ab: "san = a @ CHR ''.'' # b" "CHR ''.'' \<notin> set a"
        by (meson split_list_first)
      then have "a = ''*''" using h by (simp add: split_on_append)
      with ab plain show False by (simp add: strip_prefix_def)
    qed
    with plain show ?thesis
      by (auto simp: matches_dns_san_def dns_covers_def san_def [symmetric] split_on_eq_single
          star_labels [of "CHR ''.''" san] eq_ignore_ascii_case_def lower_eq_labels Let_def)
  qed
qed

lemma dns_entry_matches_iff: "dns_entry_matches target n \<longleftrightarrow> (\<exists>d. n = DnsName d \<and> dns_covers d target)"
  by (cases n) (simp_all add: matches_dns_san_covers)

text \<open>
  C23. A certificate is accepted for a DNS name iff it has a subject alternative name extension that
  decodes and one of its \<open>dNSName\<close> entries covers the name: equal labels up to case, or a leftmost
  wildcard label standing for exactly one label above at least two more.
\<close>

theorem verify_dns_name_decides:
  "verify_dns_name cd cert (Dns target) = Ok () \<longleftrightarrow>
     (\<exists>san d. find_san cd cert = Ok san \<and> DnsName d \<in> set san \<and> dns_covers d target)"
  by (auto simp: verify_dns_name_def result_simps list_ex_iff dns_entry_matches_iff)

section \<open>IP literals and their rendering\<close>

definition ip_wf :: "ip_repr \<Rightarrow> bool" where
  "ip_wf ip = (case ip of V4 b \<Rightarrow> length b = 4 | V6 b \<Rightarrow> length b = 16)"

lemma digit_char_value: "d < 36 \<Longrightarrow> (of_char (digit_char d) :: nat) = (if d < 10 then 48 + d else 87 + d)"
  by (simp add: digit_char_def)

lemma to_digit_digit_char: "d < r \<Longrightarrow> r \<le> 36 \<Longrightarrow> to_digit r (digit_char d) = Some d"
  by (simp add: to_digit_def digit_char_value)

lemma digits_value_append:
  "digits_value r acc (xs @ ys) =
     (case digits_value r acc xs of None \<Rightarrow> None | Some v \<Rightarrow> digits_value r v ys)"
  by (induction r acc xs rule: digits_value.induct) (auto split: option.splits)

lemma digits_value_show:
  assumes "2 \<le> r" and "r \<le> 36"
  shows "digits_value r 0 (show_radix r n) = Some n"
  using assms
proof (induction r n rule: show_radix.induct)
  case (1 r n)
  show ?case
  proof (cases "n < r")
    case True
    with 1(3) show ?thesis by (simp add: show_radix.simps [of r n] to_digit_digit_char)
  next
    case False
    with 1 have "digits_value r 0 (show_radix r (n div r)) = Some (n div r)" by simp
    with False 1(2,3) show ?thesis
      by (simp add: show_radix.simps [of r n] digits_value_append to_digit_digit_char)
  qed
qed

lemma show_radix_chars:
  assumes "2 \<le> r" and "r \<le> 36" and "c \<in> set (show_radix r n)"
  shows "\<exists>d < r. c = digit_char d"
  using assms
proof (induction r n rule: show_radix.induct)
  case (1 r n)
  show ?case
  proof (cases "n < r")
    case True
    with 1(4) show ?thesis by (auto simp: show_radix.simps [of r n])
  next
    case False
    with 1(2,4) consider "c \<in> set (show_radix r (n div r))" | "c = digit_char (n mod r)"
      by (auto simp: show_radix.simps [of r n])
    then show ?thesis
    proof cases
      case 1
      with "1.IH" "1.prems" False show ?thesis by simp
    next
      case 2
      with "1.prems" show ?thesis by (intro exI [of _ "n mod r"]) simp
    qed
  qed
qed

lemma show_radix_nonempty [simp]: "show_radix r n \<noteq> []"
  by (subst show_radix.simps) simp

lemma show_radix_no_char:
  assumes "2 \<le> r" and "r \<le> 36" and "\<not> is_ascii_alphanumeric c"
  shows "c \<notin> set (show_radix r n)"
proof
  assume "c \<in> set (show_radix r n)"
  with assms(1,2) obtain d where "d < r" "c = digit_char d" using show_radix_chars by blast
  with assms show False by (auto simp: is_ascii_alphanumeric_def digit_char_value split: if_splits)
qed

lemma length_show_radix:
  "2 \<le> r \<Longrightarrow> n < r ^ Suc k \<Longrightarrow> length (show_radix r n) \<le> Suc k"
proof (induction k arbitrary: n)
  case 0
  then show ?case by (simp add: show_radix.simps [of r n])
next
  case (Suc k)
  show ?case
  proof (cases "n < r")
    case False
    have "n div r < r ^ Suc k" using Suc.prems by (simp add: less_mult_imp_div_less mult.commute)
    with Suc.IH Suc.prems(1) False show ?thesis by (simp add: show_radix.simps [of r n])
  qed (simp add: show_radix.simps [of r n])
qed

lemma parse_uint_show:
  assumes "2 \<le> r" and "r \<le> 36" and "n < bound"
  shows "parse_uint r bound (show_radix r n) = Some n"
proof -
  have plus: "CHR ''+'' \<notin> set (show_radix r n)"
    by (rule show_radix_no_char [OF assms(1,2)]) (simp add: is_ascii_alphanumeric_def)
  obtain c cs where s: "show_radix r n = c # cs" by (cases "show_radix r n") simp_all
  with plus have "c \<noteq> CHR ''+''" by auto
  then show ?thesis
    using digits_value_show [OF assms(1,2), of n] assms(3) unfolding parse_uint_def s by simp
qed

lemma hd_show_radix:
  "2 \<le> r \<Longrightarrow> r \<le> 36 \<Longrightarrow> 0 < n \<Longrightarrow> hd (show_radix r n) \<noteq> CHR ''0''"
proof (induction r n rule: show_radix.induct)
  case (1 r n)
  show ?case
  proof (cases "n < r")
    case True
    with 1(3,4) digit_char_value [of n] have "(of_char (digit_char n) :: nat) \<noteq> 48" by simp
    with True show ?thesis by (auto simp: show_radix.simps [of r n])
  next
    case False
    with 1 have "hd (show_radix r (n div r)) \<noteq> CHR ''0''" by (simp add: div_greater_zero_iff)
    with False 1(2) show ?thesis by (simp add: show_radix.simps [of r n])
  qed
qed

lemma parse_ipv4_parts_show:
  assumes "length octets + length b = 4"
  shows "parse_ipv4_parts octets (map (\<lambda>x. show_radix 10 (unat x)) b) = Some (octets @ b)"
  using assms
proof (induction b arbitrary: octets)
  case (Cons x b)
  have "length (show_radix 10 (unat x)) = 1 \<or> hd (show_radix 10 (unat x)) \<noteq> CHR ''0''"
    using hd_show_radix [of 10 "unat x"] by (cases "unat x = 0") (simp_all add: show_radix.simps [of 10 0])
  moreover have "parse_uint 10 (2 ^ 32) (show_radix 10 (unat x)) = Some (unat x)"
    using unat_u8_less [of x] by (intro parse_uint_show) simp_all
  moreover have "\<not> unat x > 255" using unat_u8_less [of x] by simp
  ultimately show ?case using Cons by auto
qed simp

lemma parse_ipv6_parts_show:
  assumes "length groups + length gs = 8"
  shows "parse_ipv6_parts groups None (map (\<lambda>g. show_radix 16 (unat g)) gs) = Some (groups @ gs, None)"
  using assms
proof (induction gs arbitrary: groups)
  case (Cons g gs)
  have "length (show_radix 16 (unat g)) \<le> Suc 3"
    using unsigned_less [of g] by (intro length_show_radix) simp_all
  moreover have "parse_uint 16 (2 ^ 16) (show_radix 16 (unat g)) = Some (unat g)"
    using unsigned_less [of g] by (intro parse_uint_show) simp_all
  ultimately show ?case using Cons by simp
qed simp

lemma be_bytes_split:
  fixes hi lo :: u8
  shows "(ucast (drop_bit 8 (from_be_bytes_u16 hi lo)) :: u8) = hi"
    and "(ucast (from_be_bytes_u16 hi lo AND 0xff) :: u8) = lo"
proof -
  have m: "(0xff :: u16) = mask 8" by (simp add: mask_eq_exp_minus_1)
  have high: "\<not> bit lo (8 + n)" for n
    using bit_imp_le_length [of lo "8 + n"] by auto
  show "(ucast (drop_bit 8 (from_be_bytes_u16 hi lo)) :: u8) = hi"
    by (rule bit_word_eqI) (use high in \<open>auto simp: from_be_bytes_u16_def bit_simps\<close>)
  show "(ucast (from_be_bytes_u16 hi lo AND 0xff) :: u8) = lo"
    unfolding m by (rule bit_word_eqI) (auto simp: from_be_bytes_u16_def bit_simps)
qed

lemma groups_bytes_be_groups: "even (length b) \<Longrightarrow> groups_bytes (be_groups b) = b"
proof (induction b rule: be_groups.induct)
  case (1 hi lo rest)
  then show ?case by (simp add: groups_bytes_def be_bytes_split)
qed (simp_all add: groups_bytes_def)

lemma length_be_groups: "length (be_groups b) = length b div 2"
  by (induction b rule: be_groups.induct) simp_all

lemma set_intercalate: "set (intercalate d ss) \<subseteq> insert d (\<Union> (set ` set ss))"
  by (induction d ss rule: intercalate.induct) auto

lemma intercalate_hd: "ss \<noteq> [] \<Longrightarrow> hd ss \<noteq> [] \<Longrightarrow> hd (intercalate d ss) = hd (hd ss) \<and> intercalate d ss \<noteq> []"
  by (cases "(d, ss)" rule: intercalate.cases) auto

lemma shown_chars:
  assumes "2 \<le> r" and "r \<le> 36" and "\<not> is_ascii_alphanumeric c" and "c \<noteq> d"
  shows "c \<notin> set (intercalate d (map (\<lambda>x. show_radix r (unat x)) xs))"
  using set_intercalate [of d "map (\<lambda>x. show_radix r (unat x)) xs"] show_radix_no_char [OF assms(1-3)] assms(4)
  by auto

lemma shown_split:
  assumes "2 \<le> r" and "r \<le> 36" and "\<not> is_ascii_alphanumeric d" and "xs \<noteq> []"
  shows "split_on d (intercalate d (map (\<lambda>x. show_radix r (unat x)) xs)) = map (\<lambda>x. show_radix r (unat x)) xs"
  using assms(4) show_radix_no_char [OF assms(1-3)]
  by (intro split_on_intercalate) (auto simp: list_all_iff)

lemma strip_prefix_hd: "s \<noteq> [] \<Longrightarrow> hd s \<noteq> c \<Longrightarrow> strip_prefix (c # p) s = None"
  by (cases s) (auto simp: strip_prefix_def)

lemma punctuation:
  "\<not> is_ascii_alphanumeric CHR ''.''" "\<not> is_ascii_alphanumeric CHR '':''"
  "\<not> is_ascii_alphanumeric CHR ''%''" "\<not> is_ascii_alphanumeric CHR ''[''"
  by (simp_all add: is_ascii_alphanumeric_def)

lemma ip_display_v4:
  assumes "length b = 4"
  shows "ip_address (display_server_name (Ip (V4 b))) = Ok (Ip (V4 b))"
proof -
  let ?s = "intercalate CHR ''.'' (map (\<lambda>x. show_radix 10 (unat x)) b)"
  have ne: "b \<noteq> []" using assms by auto
  have "?s \<noteq> []" using intercalate_hd [of "map (\<lambda>x. show_radix 10 (unat x)) b" "CHR ''.''"] ne
    by (simp add: hd_map)
  moreover have c: "CHR ''%'' \<notin> set ?s" "CHR '':'' \<notin> set ?s" "CHR ''['' \<notin> set ?s"
    by (rule shown_chars; simp add: punctuation)+
  ultimately have "strip_prefix ''['' ?s = None" by (intro strip_prefix_hd) (auto dest: hd_in_set)
  moreover have "parse_ipv4 ?s = Some b"
    using shown_split [of 10 "CHR ''.''" b] parse_ipv4_parts_show [of "[]" b] assms ne
    by (simp add: parse_ipv4_def punctuation)
  ultimately show ?thesis
    using c \<open>?s \<noteq> []\<close> by (simp add: ip_address_def parse_ip_literal_def)
qed

lemma ip_display_v6:
  assumes "length b = 16"
  shows "ip_address (display_server_name (Ip (V6 b))) = Ok (Ip (V6 b))"
proof -
  let ?gs = "be_groups b"
  let ?ps = "map (\<lambda>g. show_radix 16 (unat g)) ?gs"
  let ?s = "intercalate CHR '':'' ?ps"
  have len: "length ?gs = 8" using assms by (simp add: length_be_groups)
  have ne: "?gs \<noteq> []" using len by auto
  have s: "?s \<noteq> []" and hd: "hd ?s = hd (hd ?ps)"
    using intercalate_hd [of ?ps "CHR '':''"] ne by (simp_all add: hd_map)
  have "CHR '':'' \<notin> set (hd ?ps)"
    using ne show_radix_no_char [of 16 "CHR '':''"] by (simp add: hd_map punctuation)
  then have "hd ?s \<noteq> CHR '':''"
    unfolding hd using ne by (metis hd_in_set hd_map show_radix_nonempty)
  then have p: "strip_prefix ''::'' ?s = None" "strip_prefix '':'' ?s = None"
    using s by (simp_all add: strip_prefix_hd)
  have c: "CHR ''%'' \<notin> set ?s" by (rule shown_chars) (simp_all add: punctuation)
  have split: "split_on CHR '':'' ?s = ?ps"
    using ne by (intro shown_split) (simp_all add: punctuation)
  then have colon: "CHR '':'' \<in> set ?s"
    using len by (simp add: length_split_on [symmetric])
  have "parse_ipv6_parts [] None ?ps = Some (?gs, None)"
    using parse_ipv6_parts_show [of "[]" ?gs] len by simp
  then have "parse_ipv6 ?s = Some b"
    using p len assms by (simp add: parse_ipv6_def split ipv6_expand_def groups_bytes_be_groups)
  moreover have "strip_suffix '']'' (?s @ '']'') = Some ?s" by (simp only: strip_suffix_Some)
  moreover have "strip_prefix ''['' (''['' @ ?s @ '']'') = Some (?s @ '']'')" by (simp only: strip_prefix_Some)
  ultimately show ?thesis using c colon s by (simp add: ip_address_def parse_ip_literal_def)
qed

lemma parse_ipv4_parts_length: "parse_ipv4_parts os ps = Some b \<Longrightarrow> length b = 4"
  by (induction os ps rule: parse_ipv4_parts.induct) (auto split: if_splits option.splits)

lemma length_groups_bytes: "length (groups_bytes gs) = 2 * length gs"
  by (induction gs) (simp_all add: groups_bytes_def)

lemma ipv6_expand_length: "ipv6_expand gs z = Some b \<Longrightarrow> length b = 16"
  by (auto simp: ipv6_expand_def length_groups_bytes Let_def split: if_splits option.splits)

lemma parse_ipv6_length: "parse_ipv6 s = Some b \<Longrightarrow> length b = 16"
  by (auto simp: parse_ipv6_def Let_def split: if_splits option.splits dest: ipv6_expand_length)

lemma ip_address_wf: "ip_address s = Inr n \<Longrightarrow> \<exists>ip. n = Ip ip \<and> ip_wf ip"
  by (auto simp: ip_address_def parse_ip_literal_def map_ok_def ok_or_def ip_wf_def parse_ipv4_def Let_def
      split: if_splits option.splits dest: parse_ipv4_parts_length parse_ipv6_length)

text \<open>
  Every IP literal that parses gives exactly four or sixteen octets, and its canonical rendering
  parses back, as a server name, to the same octets.
\<close>

theorem ip_address_roundtrip:
  assumes "ip_address s = Ok n"
  shows "(\<exists>ip. n = Ip ip \<and> ip_wf ip) \<and> server_name_parse cd (display_server_name n) = Ok n"
proof -
  obtain ip where n: "n = Ip ip" "ip_wf ip" using ip_address_wf [OF assms] by blast
  then have "ip_address (display_server_name n) = Ok n"
    by (cases ip) (simp_all only: ip_wf_def ip_repr.case ip_display_v4 ip_display_v6)
  with n show ?thesis by (auto simp: server_name_parse_def)
qed

theorem ip_address_roundtrip_witness:
  "server_name_parse ex_identity_codec (display_server_name (Ip (V6 ([0xfe, 0x80] @ replicate 13 0 @ [1]))))
     = Ok (Ip (V6 ([0xfe, 0x80] @ replicate 13 0 @ [1])))"
proof -
  have "ip_address ''[fe80::1]'' = Ok (Ip (V6 ([0xfe, 0x80] @ replicate 13 0 @ [1])))" by code_simp
  from ip_address_roundtrip [OF this] show ?thesis by blast
qed

text \<open>
  The literal parsers accept more than their documentation says: a single trailing colon counts
  as an elision of zeros or is ignored, and a plus sign hides a leading zero or is ignored.
\<close>

theorem ip_literals_lenient:
  "ip_address ''1:2:'' = ip_address ''1:2::'' \<and> is_ok (ip_address ''1:2:'') \<and>
   ip_address ''1::2:'' = ip_address ''1::2'' \<and> is_ok (ip_address ''1::2:'') \<and>
   ip_address ''+10.0.0.+01'' = ip_address ''10.0.0.1'' \<and> is_ok (ip_address ''+10.0.0.+01'')"
  by code_simp

section \<open>Mailboxes\<close>

text \<open>
  A parsed mailbox is the text before and after the last commercial-at sign: the local part kept
  byte for byte and the domain normalised; rendering and parsing it again gives the same mailbox up
  to the case of the domain.
\<close>

theorem mailbox_parse_roundtrip:
  assumes "mailbox_parse cd s = Ok m"
  shows "(\<exists>d. s = local m @ CHR ''@'' # d \<and> normalize_dns_name cd d = Ok (domain_a_label m)) \<and>
     local m \<noteq> [] \<and> CHR ''@'' \<notin> set (local m) \<and> is_internationalized m = (\<not> is_ascii (local m)) \<and>
     mailbox_parse cd (display_mailbox_name m) =
       Ok (m\<lparr> domain_a_label := map ascii_lower (domain_a_label m) \<rparr>)"
proof -
  obtain l d dom where r: "rsplit_once CHR ''@'' s = Some (l, d)"
    and ne: "l \<noteq> []" "d \<noteq> []" "CHR ''@'' \<notin> set l"
    and ok: "\<not> (has_whitespace l \<or> list_ex (\<lambda>c. c = char_of (0::nat) \<or> c \<in> set ''<>,'' \<or> c = CHR 34) l)"
      "(if \<not> is_ascii l then Ok () else validate_ascii_local_part l) = Ok ()"
    and dom: "normalize_dns_name cd d = Ok dom"
    and m: "m = \<lparr> local = l, domain_a_label = dom, is_internationalized = (\<not> is_ascii l) \<rparr>"
    using assms by (auto simp: mailbox_parse_def result_simps Let_def split: if_splits)
  have wf: "dns_wf dom"
    using dom by (auto simp: normalize_dns_name_def validate_ascii_dns_decides Let_def dns_wf_lower
        and_then_Ok_iff split: if_splits)
  have at: "CHR ''@'' \<notin> set dom"
    using dns_wf_char [OF wf, of "CHR ''@''"] by (auto simp: label_char_def is_ascii_alphanumeric_def)
  have r': "rsplit_once CHR ''@'' (l @ CHR ''@'' # dom) = Some (l, dom)"
    using at by (simp add: rsplit_once_Some)
  have "mailbox_parse cd (l @ CHR ''@'' # dom) =
      Ok \<lparr> local = l, domain_a_label = map ascii_lower dom, is_internationalized = (\<not> is_ascii l) \<rparr>"
    unfolding mailbox_parse_def r'
    using ne ok wf dns_wf_plain(1) [OF wf] by (simp add: normalize_dns_name_wf Let_def)
  moreover have "s = l @ CHR ''@'' # d" using r by (simp add: rsplit_once_Some)
  ultimately show ?thesis using ne dom unfolding m display_mailbox_name_def by simp
qed

theorem mailbox_parse_roundtrip_witness:
  "mailbox_parse ex_identity_codec (display_mailbox_name
      \<lparr> local = ''Jo'', domain_a_label = ''a.com'', is_internationalized = False \<rparr>) =
   Ok (\<lparr> local = ''Jo'', domain_a_label = ''a.com'', is_internationalized = False \<rparr>
        \<lparr> domain_a_label := map ascii_lower ''a.com'' \<rparr>)"
proof -
  have "mailbox_parse ex_identity_codec ''Jo@A.com.'' =
      Ok \<lparr> local = ''Jo'', domain_a_label = ''a.com'', is_internationalized = False \<rparr>"
    by code_simp
  from mailbox_parse_roundtrip [OF this] show ?thesis by simp
qed

text \<open>
  A certificate is accepted for a mailbox iff its subject alternative names hold an
  \<open>rfc822Name\<close> with the same local part and the same domain up to case, for an ASCII local part, or
  a \<open>SmtpUTF8Mailbox\<close> with the same local part whose domain converts to the mailbox's.
\<close>

theorem verify_mailbox_decides:
  "verify_mailbox cd cert m = Ok () \<longleftrightarrow>
     (\<exists>san. find_san cd cert = Ok san \<and>
        ((\<not> is_internationalized m \<and> (\<exists>d. Rfc822Name (local m @ CHR ''@'' # d) \<in> set san \<and> CHR ''@'' \<notin> set d \<and>
            eq_ignore_ascii_case d (domain_a_label m))) \<or>
         (\<exists>v d a. OtherName OID_SMTP_UTF8_MAILBOX v \<in> set san \<and>
            dec_utf8_any cd v = Ok (local m @ CHR ''@'' # d) \<and> CHR ''@'' \<notin> set d \<and>
            domain_to_ascii cd d = Some a \<and> eq_ignore_ascii_case a (domain_a_label m))))"
proof -
  have split: "(\<exists>d. t = local m @ CHR ''@'' # d \<and> CHR ''@'' \<notin> set d \<and> P d) \<longleftrightarrow>
      (\<exists>d. rsplit_once CHR ''@'' t = Some (local m, d) \<and> P d)" for t P
    by (auto simp: rsplit_once_Some)
  have rfc: "matches_rfc822_mailbox t m \<longleftrightarrow>
      (\<exists>d. t = local m @ CHR ''@'' # d \<and> CHR ''@'' \<notin> set d \<and> eq_ignore_ascii_case d (domain_a_label m))" for t
    unfolding split by (auto simp: matches_rfc822_mailbox_def split: option.splits)
  have smtp: "matches_smtp_utf8_mailbox cd t m \<longleftrightarrow>
      (\<exists>d. t = local m @ CHR ''@'' # d \<and> CHR ''@'' \<notin> set d \<and>
        (\<exists>a. domain_to_ascii cd d = Some a \<and> eq_ignore_ascii_case a (domain_a_label m)))" for t
    unfolding split by (auto simp: matches_smtp_utf8_mailbox_def split: option.splits)
  have entry: "san_entry_matches_mailbox cd n m \<longleftrightarrow>
      (\<exists>t. n = Rfc822Name t \<and> \<not> is_internationalized m \<and> matches_rfc822_mailbox t m) \<or>
      (\<exists>v t. n = OtherName OID_SMTP_UTF8_MAILBOX v \<and> dec_utf8_any cd v = Ok t \<and> matches_smtp_utf8_mailbox cd t m)" for n
    by (cases n) (auto split: sum.splits)
  show ?thesis
    unfolding verify_mailbox_def by (auto simp: result_simps list_ex_iff entry rfc smtp; blast)
qed

text \<open>
  A mailbox with an ASCII local part is matched by a \<open>SmtpUTF8Mailbox\<close> entry too, although the
  documentation of \<open>verify_mailbox\<close> says that it matches \<open>rfc822Name\<close> only.
\<close>

theorem ascii_mailbox_matches_smtp_utf8:
  "let cd = ex_identity_codec\<lparr> dec_general_names := (\<lambda>_. Ok
        [OtherName OID_SMTP_UTF8_MAILBOX \<lparr> any_tag = Utf8String, any_value = [117, 64, 97, 46, 98] \<rparr>]) \<rparr>;
       m = \<lparr> local = ''u'', domain_a_label = ''a.b'', is_internationalized = False \<rparr>
   in mailbox_parse cd ''u@a.b'' = Ok m \<and>
      verify_mailbox cd (ex_cert 5 1 [ex_ext OID_SUBJECT_ALT_NAME [9]]) m = Ok ()"
  by code_simp

end
