(* ===== verification/Revocation.thy ===== *)
theory Revocation
  imports Identity
begin

text \<open>
  The shared part of \<open>pkix-revocation/src/lib.rs\<close>: its errors, the trait \<open>RevocationChecker\<close> and
  the checker that checks nothing; and the data of the crates \<open>x509-cert\<close> and \<open>x509-ocsp\<close> that the
  CRL and OCSP checkers read. A checker is the pair of the trait's two methods.
\<close>

section \<open>Errors\<close>

datatype crl_reason =
    Unspecified
  | KeyCompromise
  | CaCompromise
  | AffiliationChanged
  | Superseded
  | CessationOfOperation
  | CertificateHold
  | RemoveFromCRL
  | PrivilegeWithdrawn
  | AaCompromise

fun crl_reason_name :: "crl_reason \<Rightarrow> string" where
  "crl_reason_name Unspecified = ''unspecified''"
| "crl_reason_name KeyCompromise = ''keyCompromise''"
| "crl_reason_name CaCompromise = ''cACompromise''"
| "crl_reason_name AffiliationChanged = ''affiliationChanged''"
| "crl_reason_name Superseded = ''superseded''"
| "crl_reason_name CessationOfOperation = ''cessationOfOperation''"
| "crl_reason_name CertificateHold = ''certificateHold''"
| "crl_reason_name RemoveFromCRL = ''removeFromCRL''"
| "crl_reason_name PrivilegeWithdrawn = ''privilegeWithdrawn''"
| "crl_reason_name AaCompromise = ''aACompromise''"

text \<open>The numeric codes of the serde shims.\<close>

fun crl_reason_to_code :: "crl_reason \<Rightarrow> u32" where
  "crl_reason_to_code Unspecified = 0"
| "crl_reason_to_code KeyCompromise = 1"
| "crl_reason_to_code CaCompromise = 2"
| "crl_reason_to_code AffiliationChanged = 3"
| "crl_reason_to_code Superseded = 4"
| "crl_reason_to_code CessationOfOperation = 5"
| "crl_reason_to_code CertificateHold = 6"
| "crl_reason_to_code RemoveFromCRL = 8"
| "crl_reason_to_code PrivilegeWithdrawn = 9"
| "crl_reason_to_code AaCompromise = 10"

definition crl_reason_from_code :: "u32 \<Rightarrow> crl_reason option" where
  "crl_reason_from_code c =
     (if c = 0 then Some Unspecified else if c = 1 then Some KeyCompromise
      else if c = 2 then Some CaCompromise else if c = 3 then Some AffiliationChanged
      else if c = 4 then Some Superseded else if c = 5 then Some CessationOfOperation
      else if c = 6 then Some CertificateHold else if c = 8 then Some RemoveFromCRL
      else if c = 9 then Some PrivilegeWithdrawn else if c = 10 then Some AaCompromise else None)"

datatype out_of_scope_reason =
    CrlOnlyAttributeCerts
  | CrlOnlyUserCerts
  | CrlOnlyCaCerts
  | CrlIdpDistributionPointMismatch

fun display_out_of_scope_reason :: "out_of_scope_reason \<Rightarrow> string" where
  "display_out_of_scope_reason CrlOnlyAttributeCerts =
     ''CRL onlyContainsAttributeCerts=TRUE; subject is a public-key certificate''"
| "display_out_of_scope_reason CrlOnlyUserCerts =
     ''CRL onlyContainsUserCerts=TRUE; subject is a CA certificate''"
| "display_out_of_scope_reason CrlOnlyCaCerts =
     ''CRL onlyContainsCACerts=TRUE; subject is an end-entity certificate''"
| "display_out_of_scope_reason CrlIdpDistributionPointMismatch =
     ''CRL IssuingDistributionPoint distributionPoint does not match the certificate'' @
     [char_of (39::nat)] @ ''s CRLDistributionPoints''"

datatype revocation_error =
    Revoked bytes "crl_reason option"
  | CrlExpired
  | CrlIssuerMismatch
  | CrlSignatureInvalid
  | CrlParseError der_error
  | OcspSignatureInvalid
  | OcspResponderIdMismatch
  | OcspCertIdMismatch
  | OcspIssuerCertMismatch
  | OcspStatusUnknown
  | OcspExpired
  | OcspParseError der_error
  | OcspMalformed
  | OcspResponderEkuMissing
  | OcspResponderEkuMalformed
  | OcspResponderCertNotIssuedByCa
  | OcspResponderCertExpired
  | OcspResponderCertSigInvalid
  | IndirectCrlIssuerMissing
  | IndirectCrlIssuerUnexpected
  | CrlSignMissing_rev
  | CrlSignerNotFound
  | CrlSignerNotTrusted
  | DeltaCrlBaseMismatch
  | CrlNumberMismatch
  | MalformedCertificate_rev
  | OutOfScope out_of_scope_reason
  | RevocationFetchFailed string

text \<open>The messages. How a serial number is shown is code of \<open>x509-cert\<close>.\<close>

fun display_revocation_error :: "(bytes \<Rightarrow> string) \<Rightarrow> revocation_error \<Rightarrow> string" where
  "display_revocation_error show_serial (Revoked serial reason_code) =
     (case reason_code of
        Some code \<Rightarrow>
          ''certificate '' @ show_serial serial @ '' is revoked (reason '' @ crl_reason_name code @ '')''
      | None \<Rightarrow> ''certificate '' @ show_serial serial @ '' is revoked'')"
| "display_revocation_error _ CrlExpired = ''CRL validity window check failed''"
| "display_revocation_error _ CrlIssuerMismatch = ''CRL issuer does not match certificate issuer''"
| "display_revocation_error _ CrlSignatureInvalid = ''CRL signature is invalid''"
| "display_revocation_error _ (CrlParseError e) = ''CRL parse error: '' @ display_der_error e"
| "display_revocation_error _ OcspSignatureInvalid = ''OCSP response signature is invalid''"
| "display_revocation_error _ OcspResponderIdMismatch =
     ''OCSP ResponderId does not match the expected issuer identity''"
| "display_revocation_error _ OcspCertIdMismatch =
     ''OCSP CertID issuer hashes do not match the expected issuer''"
| "display_revocation_error _ OcspIssuerCertMismatch =
     ''issuer certificate subject DN does not match the certificate'' @ [char_of (39::nat)] @ ''s issuer DN''"
| "display_revocation_error _ OcspStatusUnknown = ''OCSP responder returned unknown status''"
| "display_revocation_error _ OcspExpired = ''OCSP response is stale or has no nextUpdate''"
| "display_revocation_error _ (OcspParseError e) = ''OCSP response parse error: '' @ display_der_error e"
| "display_revocation_error _ OcspMalformed =
     ''OCSP response is structurally invalid (malformed per RFC 6960)''"
| "display_revocation_error _ OcspResponderEkuMissing =
     ''delegated OCSP responder cert lacks id-kp-OCSPSigning Extended Key Usage''"
| "display_revocation_error _ OcspResponderEkuMalformed =
     ''delegated OCSP responder cert ExtendedKeyUsage extension is malformed''"
| "display_revocation_error _ OcspResponderCertNotIssuedByCa =
     ''delegated OCSP responder cert was not issued by the certificate'' @ [char_of (39::nat)] @ ''s CA''"
| "display_revocation_error _ OcspResponderCertExpired =
     ''delegated OCSP responder cert validity does not include the response'' @ [char_of (39::nat)] @
     ''s producedAt''"
| "display_revocation_error _ OcspResponderCertSigInvalid =
     ''CA signature on delegated OCSP responder cert is invalid''"
| "display_revocation_error _ IndirectCrlIssuerMissing =
     ''CRL declares indirectCRL=TRUE but no cRLIssuer certificate was provided''"
| "display_revocation_error _ IndirectCrlIssuerUnexpected =
     ''cRLIssuer certificate was provided but the CRL is not indirect''"
| "display_revocation_error _ CrlSignMissing_rev =
     ''CRL issuer KeyUsage does not include cRLSign (RFC 5280 '' @
     map char_of [0xC2::nat, 0xA7] @ ''6.3.3(f))''"
| "display_revocation_error _ CrlSignerNotFound =
     ''no certificate in the supplied bundle signed the CRL (path-level discovery)''"
| "display_revocation_error _ CrlSignerNotTrusted =
     ''discovered CRL signer does not chain back to a self-signed anchor in the supplied bundle''"
| "display_revocation_error _ DeltaCrlBaseMismatch =
     ''delta CRL BaseCRLNumber does not match the base CRL'' @ [char_of (39::nat)] @ ''s CRLNumber''"
| "display_revocation_error _ CrlNumberMismatch = ''CRL number is lower than expected''"
| "display_revocation_error _ MalformedCertificate_rev =
     ''certificate BasicConstraints extension is present but cannot be decoded''"
| "display_revocation_error _ (OutOfScope reason) =
     ''revocation source out of scope: '' @ display_out_of_scope_reason reason"
| "display_revocation_error _ (RevocationFetchFailed description) =
     ''revocation data fetch failed: '' @ description"

type_synonym 'a revocation_result = "revocation_error + 'a"

section \<open>Data of the CRL and OCSP crates\<close>

record revoked_cert =
  rc_serial_number :: bytes
  crl_entry_extensions :: "extension list option"

record tbs_cert_list =
  crl_issuer :: dname
  crl_this_update :: u64
  crl_next_update :: "u64 option"
  revoked_certificates :: "revoked_cert list option"
  crl_extensions :: "extension list option"

record certificate_list =
  tbs_list :: tbs_cert_list
  crl_signature_algorithm :: algorithm_identifier
  crl_signature :: bit_string

datatype distribution_point_name =
    FullName "general_name list"
  | NameRelativeToCRLIssuer rdn

record distribution_point =
  dp_distribution_point :: "distribution_point_name option"

record issuing_distribution_point =
  idp_distribution_point :: "distribution_point_name option"
  only_contains_user_certs :: bool
  only_contains_ca_certs :: bool
  only_contains_attribute_certs :: bool
  indirect_crl :: bool

record cert_id =
  hash_algorithm :: algorithm_identifier
  issuer_name_hash :: bytes
  issuer_key_hash :: bytes
  cid_serial_number :: bytes

datatype cert_status =
    Good
  | Revoked_status "crl_reason option"
  | Unknown

record single_response =
  sr_cert_id :: cert_id
  sr_cert_status :: cert_status
  sr_this_update :: u64
  sr_next_update :: "u64 option"
  single_extensions :: "extension list option"

datatype responder_id =
    ByName dname
  | ByKey bytes

record response_data =
  rd_responder_id :: responder_id
  produced_at :: u64
  responses :: "single_response list"
  response_extensions :: "extension list option"

record basic_ocsp_response =
  tbs_response_data :: response_data
  ocsp_signature_algorithm :: algorithm_identifier
  ocsp_signature :: bit_string
  ocsp_certs :: "certificate list option"

datatype ocsp_response_status =
    Successful
  | MalformedRequest
  | InternalError
  | TryLater
  | SigRequired
  | Unauthorized

record response_bytes =
  response_type :: oid
  rb_response :: bytes

record ocsp_response =
  response_status :: ocsp_response_status
  ocsp_response_bytes :: "response_bytes option"

text \<open>
  The decoders, encoders and hash functions the revocation crate calls. \<open>dec_uint\<close> gives the
  magnitude bytes of an INTEGER.
\<close>

record revocation_codec = identity_codec +
  dec_crl :: "bytes \<Rightarrow> der_error + certificate_list"
  enc_tbs_crl :: "tbs_cert_list \<Rightarrow> der_error + bytes"
  dec_uint :: "bytes \<Rightarrow> der_error + bytes"
  dec_crl_reason :: "bytes \<Rightarrow> der_error + crl_reason"
  dec_issuing_dp :: "bytes \<Rightarrow> der_error + issuing_distribution_point"
  dec_crl_dps :: "bytes \<Rightarrow> der_error + distribution_point list"
  dec_ocsp_response :: "bytes \<Rightarrow> der_error + ocsp_response"
  dec_basic_ocsp :: "bytes \<Rightarrow> der_error + basic_ocsp_response"
  enc_response_data :: "response_data \<Rightarrow> der_error + bytes"
  enc_name :: "dname \<Rightarrow> der_error + bytes"
  sha1 :: "bytes \<Rightarrow> bytes"
  sha256 :: "bytes \<Rightarrow> bytes"
  sha384 :: "bytes \<Rightarrow> bytes"
  sha512 :: "bytes \<Rightarrow> bytes"

section \<open>The trait RevocationChecker\<close>

record revocation_checker =
  check_revocation :: "certificate \<Rightarrow> certificate \<Rightarrow> unit revocation_result"
  check_revocation_against_anchor :: "certificate \<Rightarrow> trust_anchor \<Rightarrow> unit revocation_result"

text \<open>The default method of the trait, and the checker that inherits it.\<close>

definition default_check_against_anchor :: "certificate \<Rightarrow> trust_anchor \<Rightarrow> unit revocation_result" where
  "default_check_against_anchor cert anchor = Ok ()"

definition no_revocation :: revocation_checker where
  "no_revocation =
     \<lparr> check_revocation = (\<lambda>cert issuer. Ok ()),
       check_revocation_against_anchor = default_check_against_anchor \<rparr>"

text \<open>The determination of a checker: \<open>Some True\<close> for revoked, \<open>Some False\<close> for not revoked.\<close>

fun verdict :: "unit revocation_result \<Rightarrow> bool option" where
  "verdict (Inr _) = Some False"
| "verdict (Inl (Revoked _ _)) = Some True"
| "verdict (Inl _) = None"

lemma verdict_and_then:
  assumes "\<And>e. r = Inl e \<Longrightarrow> verdict (Inl e) = None"
  shows "verdict (and_then r f) = Some b \<longleftrightarrow> (\<exists>x. r = Inr x \<and> verdict (f x) = Some b)"
  using assms by (cases r) auto

lemma Ok_verdict: "r = Ok () \<longleftrightarrow> verdict r = Some False"
  by (cases r rule: verdict.cases) auto

text \<open>
  A chain in which every certificate is issued by the next one, or by the anchor, and is not listed
  as revoked under its issuer's name.
\<close>

definition covered ::
  "(dname \<Rightarrow> certificate \<Rightarrow> bool) \<Rightarrow> certificate list \<Rightarrow> trust_anchor \<Rightarrow> bool" where
  "covered revoked_by chain anchor \<longleftrightarrow>
     (\<forall>i < length chain.
        let iss = (if i + 1 < length chain then subject (tbs (chain ! (i + 1))) else ta_subject anchor)
        in names_match iss (issuer (tbs (chain ! i))) \<and> \<not> revoked_by iss (chain ! i))"

text \<open>
  What a client of the trait relies on: \<open>Ok\<close> is given only for a certificate the named issuer or
  anchor issued, and never for one that \<open>revoked_by\<close>, what the source lists, names as revoked under that issuer.
\<close>

locale revocation_source =
  fixes rc :: revocation_checker and revoked_by :: "dname \<Rightarrow> certificate \<Rightarrow> bool"
  assumes issuer_linked:
      "check_revocation rc cert iss = Ok () \<Longrightarrow> names_match (subject (tbs iss)) (issuer (tbs cert))"
    and anchor_linked:
      "check_revocation_against_anchor rc cert anchor = Ok () \<Longrightarrow>
         names_match (ta_subject anchor) (issuer (tbs cert))"
    and not_listed:
      "check_revocation rc cert iss = Ok () \<Longrightarrow> \<not> revoked_by (subject (tbs iss)) cert"
    and not_listed_anchor:
      "check_revocation_against_anchor rc cert anchor = Ok () \<Longrightarrow> \<not> revoked_by (ta_subject anchor) cert"
begin

lemma checks_cover:
  assumes "\<And>i. i + 1 < length chain \<Longrightarrow> check_revocation rc (chain ! i) (chain ! (i + 1)) = Ok ()"
    and "chain \<noteq> [] \<Longrightarrow> check_revocation_against_anchor rc (last chain) anchor = Ok ()"
  shows "covered revoked_by chain anchor"
  unfolding covered_def Let_def
proof (intro allI impI)
  fix i assume i: "i < length chain"
  show "names_match (if i + 1 < length chain then subject (tbs (chain ! (i + 1))) else ta_subject anchor)
          (issuer (tbs (chain ! i))) \<and>
        \<not> revoked_by (if i + 1 < length chain then subject (tbs (chain ! (i + 1))) else ta_subject anchor) (chain ! i)"
  proof (cases "i + 1 < length chain")
    case True
    then show ?thesis using assms(1) issuer_linked not_listed by simp
  next
    case False
    with i have "chain \<noteq> []" "i = length chain - 1" by auto
    then have "chain ! i = last chain" by (simp add: last_conv_nth)
    then show ?thesis using assms(2) anchor_linked not_listed_anchor False \<open>chain \<noteq> []\<close> by simp
  qed
qed

end

text \<open>Reason codes survive the serde shims.\<close>

lemma crl_reason_code_roundtrip: "crl_reason_from_code (crl_reason_to_code r) = Some r"
  by (cases r) (simp_all add: crl_reason_from_code_def)

end
