(* ===== verification/Crl.thy ===== *)
theory Crl
  imports Revocation PathChecks PathBuilder
begin

text \<open>
  The CRL checker of \<open>pkix-revocation/src/crl.rs\<close> with its constructors, and the discovery of the
  signer of a CRL in a bundle of certificates, \<open>signer_discovery.rs\<close>. The lemmas characterise
  the entry lookup of direct and indirect CRLs, the merge of a delta, and when the checker
  answers. A reference \<open>&Certificate\<close> into a bundle is an index of the bundle, because
  \<open>find_parent\<close> compares addresses.
\<close>

section \<open>Extensions of CRLs\<close>

definition OID_CRL_REASONS :: oid where "OID_CRL_REASONS = [2, 5, 29, 21]"
definition OID_CRL_NUMBER :: oid where "OID_CRL_NUMBER = [2, 5, 29, 20]"
definition OID_DELTA_CRL_INDICATOR :: oid where "OID_DELTA_CRL_INDICATOR = [2, 5, 29, 27]"
definition OID_ISSUING_DISTRIBUTION_POINT :: oid where
  "OID_ISSUING_DISTRIBUTION_POINT = [2, 5, 29, 28]"
definition OID_CRL_DISTRIBUTION_POINTS :: oid where "OID_CRL_DISTRIBUTION_POINTS = [2, 5, 29, 31]"
definition OID_CERTIFICATE_ISSUER :: oid where "OID_CERTIFICATE_ISSUER = [2, 5, 29, 29]"

definition find_crl_ext :: "certificate_list \<Rightarrow> oid \<Rightarrow> extension option" where
  "find_crl_ext crl oid =
     find (\<lambda>e. extn_id e = oid) (unwrap_or [] (crl_extensions (tbs_list crl)))"

definition uint_to_u64 :: "bytes \<Rightarrow> u64 option" where
  "uint_to_u64 b =
     (if length b > 8 then None
      else Some (word_of_nat (foldl (\<lambda>acc x. acc * 256 + unat x) 0 b)))"

text \<open>\<open>ErrorKind::Overflow\<close>.\<close>

definition overflow_error :: der_error where "overflow_error = DerError ''integer overflow''"

definition crl_number :: "'x revocation_codec_scheme \<Rightarrow> certificate_list \<Rightarrow> (der_error + u64) option" where
  "crl_number cd crl =
     map_option (\<lambda>ext. and_then (dec_uint cd (extn_value ext)) (\<lambda>n. ok_or overflow_error (uint_to_u64 n)))
       (find_crl_ext crl OID_CRL_NUMBER)"

definition has_delta_crl_indicator :: "certificate_list \<Rightarrow> bool" where
  "has_delta_crl_indicator crl =
     list_ex (\<lambda>e. extn_id e = OID_DELTA_CRL_INDICATOR) (unwrap_or [] (crl_extensions (tbs_list crl)))"

definition base_crl_number :: "'x revocation_codec_scheme \<Rightarrow> certificate_list \<Rightarrow> (der_error + u64) option" where
  "base_crl_number cd crl =
     map_option (\<lambda>ext. and_then (dec_uint cd (extn_value ext)) (\<lambda>n. ok_or overflow_error (uint_to_u64 n)))
       (find_crl_ext crl OID_DELTA_CRL_INDICATOR)"

definition check_crl_sign :: "'x x509_codec_scheme \<Rightarrow> certificate \<Rightarrow> unit revocation_result" where
  "check_crl_sign cd cert =
     (case find_ext cert OID_KEY_USAGE of
        None \<Rightarrow> Ok ()
      | Some ku_ext \<Rightarrow>
          and_then (map_err CrlParseError (dec_key_usage cd (extn_value ku_ext))) (\<lambda>ku.
            if ku_crl_sign ku then Ok () else Err CrlSignMissing_rev))"

definition extract_reason_code :: "'x revocation_codec_scheme \<Rightarrow> revoked_cert \<Rightarrow> crl_reason option" where
  "extract_reason_code cd entry =
     (case crl_entry_extensions entry of
        None \<Rightarrow> None
      | Some exts \<Rightarrow>
          (case find (\<lambda>e. extn_id e = OID_CRL_REASONS) exts of
             None \<Rightarrow> None
           | Some ext \<Rightarrow> result_ok (dec_crl_reason cd (extn_value ext))))"

definition parse_issuing_dp ::
  "'x revocation_codec_scheme \<Rightarrow> certificate_list \<Rightarrow> issuing_distribution_point option revocation_result" where
  "parse_issuing_dp cd crl =
     (case find_crl_ext crl OID_ISSUING_DISTRIBUTION_POINT of
        None \<Rightarrow> Ok None
      | Some e \<Rightarrow> map_ok Some (map_err CrlParseError (dec_issuing_dp cd (extn_value e))))"

definition cert_crl_distribution_points ::
  "'x revocation_codec_scheme \<Rightarrow> certificate \<Rightarrow> distribution_point list option revocation_result" where
  "cert_crl_distribution_points cd cert =
     (case find_ext cert OID_CRL_DISTRIBUTION_POINTS of
        None \<Rightarrow> Ok None
      | Some e \<Rightarrow> map_ok Some (map_err CrlParseError (dec_crl_dps cd (extn_value e))))"

section \<open>Distribution points\<close>

text \<open>The source's \<open>Result\<close> here has no error case.\<close>

fun dpn_to_general_names :: "distribution_point_name \<Rightarrow> dname \<Rightarrow> general_name list" where
  "dpn_to_general_names (FullName names) base_dn = names"
| "dpn_to_general_names (NameRelativeToCRLIssuer rdn) base_dn = [DirectoryName (base_dn @ [rdn])]"

fun general_name_matches :: "general_name \<Rightarrow> general_name \<Rightarrow> bool" where
  "general_name_matches (DirectoryName a) (DirectoryName b) = names_match a b"
| "general_name_matches a b = (a = b)"

definition general_names_intersect :: "general_name list \<Rightarrow> general_name list \<Rightarrow> bool" where
  "general_names_intersect a b = list_ex (\<lambda>ga. list_ex (general_name_matches ga) b) a"

definition check_idp_dp_scope ::
  "'x revocation_codec_scheme \<Rightarrow> certificate \<Rightarrow> issuing_distribution_point \<Rightarrow> dname \<Rightarrow> dname
    \<Rightarrow> unit revocation_result" where
  "check_idp_dp_scope cd cert idp cert_issuer crl_signer_subject =
     and_then (cert_crl_distribution_points cd cert) (\<lambda>cert_cdps.
       case idp_distribution_point idp of
         None \<Rightarrow> Ok ()
       | Some idp_dpn \<Rightarrow>
           (case cert_cdps of
              None \<Rightarrow> Err (OutOfScope CrlIdpDistributionPointMismatch)
            | Some cdps \<Rightarrow>
                (let idp_names = dpn_to_general_names idp_dpn crl_signer_subject
                 in if list_ex (\<lambda>dp.
                         case dp_distribution_point dp of
                           None \<Rightarrow> False
                         | Some cdp_dpn \<Rightarrow>
                             general_names_intersect (dpn_to_general_names cdp_dpn cert_issuer) idp_names)
                       cdps
                    then Ok () else Err (OutOfScope CrlIdpDistributionPointMismatch))))"

definition cert_is_ca_cert :: "'x x509_codec_scheme \<Rightarrow> certificate \<Rightarrow> bool revocation_result" where
  "cert_is_ca_cert cd cert = map_err (\<lambda>_. MalformedCertificate_rev) (cert_is_ca cd cert)"

definition check_idp_scope ::
  "'x revocation_codec_scheme \<Rightarrow> certificate \<Rightarrow> issuing_distribution_point option \<Rightarrow> dname
    \<Rightarrow> unit revocation_result" where
  "check_idp_scope cd cert parsed_idp signer_subject =
     (case parsed_idp of
        None \<Rightarrow> Ok ()
      | Some idp \<Rightarrow>
          if only_contains_attribute_certs idp then Err (OutOfScope CrlOnlyAttributeCerts)
          else and_then (cert_is_ca_cert cd cert) (\<lambda>is_ca.
            if only_contains_user_certs idp \<and> is_ca then Err (OutOfScope CrlOnlyUserCerts)
            else if only_contains_ca_certs idp \<and> \<not> is_ca then Err (OutOfScope CrlOnlyCaCerts)
            else check_idp_dp_scope cd cert idp (issuer (tbs cert)) signer_subject))"

section \<open>Entry lookup\<close>

text \<open>The loop over the general names keeps the first directory name.\<close>

fun first_directory_name :: "general_name list \<Rightarrow> dname option" where
  "first_directory_name [] = None"
| "first_directory_name (DirectoryName n # gns) = Some n"
| "first_directory_name (_ # gns) = first_directory_name gns"

definition parse_certificate_issuer_dn :: "'x x509_codec_scheme \<Rightarrow> bytes \<Rightarrow> dname revocation_result" where
  "parse_certificate_issuer_dn cd ext_value_der =
     and_then (map_err CrlParseError (dec_general_names cd ext_value_der)) (\<lambda>gns.
       ok_or (CrlParseError (DerError ''malformed ASN.1 DER value for SEQUENCE''))
         (first_directory_name gns))"

text \<open>The issuer an entry names for itself, when it names one.\<close>

definition entry_issuer :: "'x x509_codec_scheme \<Rightarrow> revoked_cert \<Rightarrow> dname option revocation_result" where
  "entry_issuer cd entry =
     (case crl_entry_extensions entry of
        None \<Rightarrow> Ok None
      | Some exts \<Rightarrow>
          (case find (\<lambda>e. extn_id e = OID_CERTIFICATE_ISSUER) exts of
             None \<Rightarrow> Ok None
           | Some ce_ext \<Rightarrow> map_ok Some (parse_certificate_issuer_dn cd (extn_value ce_ext))))"

fun find_matching_entry ::
  "'x x509_codec_scheme \<Rightarrow> dname \<Rightarrow> bytes \<Rightarrow> revoked_cert list \<Rightarrow> dname \<Rightarrow> bool
    \<Rightarrow> revoked_cert option revocation_result" where
  "find_matching_entry cd cert_issuer cert_serial [] effective is_indirect = Ok None"
| "find_matching_entry cd cert_issuer cert_serial (entry # entries) effective is_indirect =
     and_then (if is_indirect then entry_issuer cd entry else Ok None) (\<lambda>named.
       let effective = unwrap_or effective named
       in if rc_serial_number entry = cert_serial \<and> names_match effective cert_issuer
          then Ok (Some entry)
          else find_matching_entry cd cert_issuer cert_serial entries effective is_indirect)"

definition base_entries :: "certificate_list \<Rightarrow> revoked_cert list" where
  "base_entries crl = unwrap_or [] (revoked_certificates (tbs_list crl))"

definition check_revocation_status_indirect ::
  "'x revocation_codec_scheme \<Rightarrow> dname \<Rightarrow> bytes \<Rightarrow> revoked_cert list \<Rightarrow> certificate_list \<Rightarrow> dname
    \<Rightarrow> bool \<Rightarrow> unit revocation_result" where
  "check_revocation_status_indirect cd cert_issuer cert_serial delta_entries crl crl_default_issuer is_indirect =
     and_then (find_matching_entry cd cert_issuer cert_serial delta_entries crl_default_issuer is_indirect) (\<lambda>d.
       case d of
         Some entry \<Rightarrow>
           (let reason = extract_reason_code cd entry
            in if reason = Some RemoveFromCRL then Ok () else Err (Revoked cert_serial reason))
       | None \<Rightarrow>
           and_then (find_matching_entry cd cert_issuer cert_serial (base_entries crl) crl_default_issuer
               is_indirect) (\<lambda>b.
             case b of
               Some entry \<Rightarrow> Err (Revoked cert_serial (extract_reason_code cd entry))
             | None \<Rightarrow> Ok ()))"

section \<open>Freshness and signature of a CRL\<close>

definition check_crl_window :: "certificate_list \<Rightarrow> u64 \<Rightarrow> unit revocation_result" where
  "check_crl_window crl now_unix =
     (if now_unix < crl_this_update (tbs_list crl) then Err CrlExpired
      else and_then (ok_or CrlExpired (crl_next_update (tbs_list crl))) (\<lambda>next_update.
        if now_unix > next_update then Err CrlExpired else Ok ()))"

definition verify_crl_signature ::
  "'x revocation_codec_scheme \<Rightarrow> sig_verifier \<Rightarrow> certificate_list \<Rightarrow> spki \<Rightarrow> unit revocation_result" where
  "verify_crl_signature cd verifier crl signer_spki =
     and_then (map_err CrlParseError (enc_tbs_crl cd (tbs_list crl))) (\<lambda>tbs_bytes.
       map_err (\<lambda>_. CrlSignatureInvalid)
         (verifier (crl_signature_algorithm crl) signer_spki tbs_bytes (raw_bytes (crl_signature crl))))"

definition verify_delta_crl_and_collect ::
  "'x revocation_codec_scheme \<Rightarrow> certificate_list \<Rightarrow> sig_verifier \<Rightarrow> spki \<Rightarrow> dname \<Rightarrow> u64
    \<Rightarrow> revoked_cert list revocation_result" where
  "verify_delta_crl_and_collect cd delta_crl verifier issuer_spki expected_issuer_name now_unix =
     (if \<not> names_match (crl_issuer (tbs_list delta_crl)) expected_issuer_name then Err CrlIssuerMismatch
      else and_then (check_crl_window delta_crl now_unix) (\<lambda>_.
           and_then (verify_crl_signature cd verifier delta_crl issuer_spki) (\<lambda>_.
           Ok (base_entries delta_crl))))"

section \<open>The checker\<close>

record crl_checker =
  ck_crl :: certificate_list
  ck_delta_crl :: "certificate_list option"
  ck_crl_issuer_cert :: "certificate option"
  signer_discovered :: bool
  ck_now_unix :: u64
  ck_verifier :: sig_verifier

text \<open>The signer's name, its key, and the certificate whose key usage is checked.\<close>

type_synonym signer = "dname \<times> spki \<times> certificate option"

definition cert_signer :: "certificate \<Rightarrow> signer" where
  "cert_signer c = (subject (tbs c), subject_public_key_info (tbs c), Some c)"

definition effective_signer :: "crl_checker \<Rightarrow> bool \<Rightarrow> signer \<Rightarrow> signer revocation_result" where
  "effective_signer ck crl_declares_indirect direct =
     (case (ck_crl_issuer_cert ck, crl_declares_indirect) of
        (Some crl_issuer_cert, True) \<Rightarrow> Ok (cert_signer crl_issuer_cert)
      | (Some discovered, False) \<Rightarrow>
          if signer_discovered ck then Ok (cert_signer discovered) else Err IndirectCrlIssuerUnexpected
      | (None, True) \<Rightarrow> Err IndirectCrlIssuerMissing
      | (None, False) \<Rightarrow> Ok direct)"

text \<open>
  The rest of both trait methods, which share it word for word: from the key-usage check of the
  signer to the entry lookup.
\<close>

definition crl_determine ::
  "'x revocation_codec_scheme \<Rightarrow> crl_checker \<Rightarrow> certificate \<Rightarrow> issuing_distribution_point option
    \<Rightarrow> signer \<Rightarrow> unit revocation_result" where
  "crl_determine cd ck cert parsed_idp signer =
     (case signer of (signer_subject, signer_spki, signer_cert) \<Rightarrow>
       let crl = ck_crl ck in
       and_then (case signer_cert of None \<Rightarrow> Ok () | Some c \<Rightarrow> check_crl_sign cd c) (\<lambda>_.
       and_then (check_crl_window crl (ck_now_unix ck)) (\<lambda>_.
       and_then (verify_crl_signature cd (ck_verifier ck) crl signer_spki) (\<lambda>_.
       and_then (check_idp_scope cd cert parsed_idp signer_subject) (\<lambda>_.
       and_then (case ck_delta_crl ck of
                   None \<Rightarrow> Ok []
                 | Some delta_crl \<Rightarrow>
                     if \<not> names_match (crl_issuer (tbs_list delta_crl)) (crl_issuer (tbs_list crl))
                     then Err CrlIssuerMismatch
                     else verify_delta_crl_and_collect cd delta_crl (ck_verifier ck) signer_spki
                            signer_subject (ck_now_unix ck)) (\<lambda>delta_entries.
       check_revocation_status_indirect cd (issuer (tbs cert)) (serial_number (tbs cert)) delta_entries
         crl (crl_issuer (tbs_list crl)) (ck_crl_issuer_cert ck \<noteq> None)))))))"

definition crl_check_revocation ::
  "'x revocation_codec_scheme \<Rightarrow> crl_checker \<Rightarrow> certificate \<Rightarrow> certificate \<Rightarrow> unit revocation_result" where
  "crl_check_revocation cd ck cert iss =
     and_then (parse_issuing_dp cd (ck_crl ck)) (\<lambda>parsed_idp.
     and_then (effective_signer ck (case parsed_idp of None \<Rightarrow> False | Some idp \<Rightarrow> indirect_crl idp)
         (cert_signer iss)) (\<lambda>signer.
       if \<not> names_match (crl_issuer (tbs_list (ck_crl ck))) (fst signer) then Err CrlIssuerMismatch
       else if \<not> names_match (subject (tbs iss)) (issuer (tbs cert)) then Err CrlIssuerMismatch
       else if ck_crl_issuer_cert ck = None \<and>
               \<not> names_match (issuer (tbs cert)) (crl_issuer (tbs_list (ck_crl ck)))
       then Err CrlIssuerMismatch
       else crl_determine cd ck cert parsed_idp signer))"

definition crl_check_revocation_against_anchor ::
  "'x revocation_codec_scheme \<Rightarrow> crl_checker \<Rightarrow> certificate \<Rightarrow> trust_anchor \<Rightarrow> unit revocation_result" where
  "crl_check_revocation_against_anchor cd ck cert anchor =
     and_then (parse_issuing_dp cd (ck_crl ck)) (\<lambda>parsed_idp.
     and_then (effective_signer ck (case parsed_idp of None \<Rightarrow> False | Some idp \<Rightarrow> indirect_crl idp)
         (ta_subject anchor, ta_spki anchor, None)) (\<lambda>signer.
       if \<not> names_match (crl_issuer (tbs_list (ck_crl ck))) (fst signer) then Err CrlIssuerMismatch
       else if \<not> names_match (issuer (tbs cert)) (ta_subject anchor) then Err CrlIssuerMismatch
       else crl_determine cd ck cert parsed_idp signer))"

definition crl_revocation_checker :: "'x revocation_codec_scheme \<Rightarrow> crl_checker \<Rightarrow> revocation_checker" where
  "crl_revocation_checker cd ck =
     \<lparr> check_revocation = crl_check_revocation cd ck,
       check_revocation_against_anchor = crl_check_revocation_against_anchor cd ck \<rparr>"

section \<open>Signer discovery\<close>

definition crl_authority_key_id :: "'x x509_codec_scheme \<Rightarrow> certificate_list \<Rightarrow> bytes option" where
  "crl_authority_key_id cd crl =
     (case find_crl_ext crl OID_AUTHORITY_KEY_IDENTIFIER of
        None \<Rightarrow> None
      | Some ext \<Rightarrow>
          (case dec_authority_key_id cd (extn_value ext) of
             Inl _ \<Rightarrow> None
           | Inr aki \<Rightarrow> aki_key_identifier aki))"

definition cert_authority_key_id :: "'x x509_codec_scheme \<Rightarrow> certificate \<Rightarrow> bytes option" where
  "cert_authority_key_id cd cert =
     (case find_ext cert OID_AUTHORITY_KEY_IDENTIFIER of
        None \<Rightarrow> None
      | Some ext \<Rightarrow>
          (case dec_authority_key_id cd (extn_value ext) of
             Inl _ \<Rightarrow> None
           | Inr aki \<Rightarrow> aki_key_identifier aki))"

definition cert_subject_key_id :: "'x x509_codec_scheme \<Rightarrow> certificate \<Rightarrow> bytes option" where
  "cert_subject_key_id cd cert =
     (case find_ext cert OID_SUBJECT_KEY_IDENTIFIER of
        None \<Rightarrow> None
      | Some ext \<Rightarrow> result_ok (dec_subject_key_id cd (extn_value ext)))"

text \<open>The index of the first certificate of the bundle that satisfies \<open>P\<close>.\<close>

definition position :: "(nat \<Rightarrow> bool) \<Rightarrow> certificate list \<Rightarrow> nat option" where
  "position P certs = find P [0..<length certs]"

definition discover_crl_signer ::
  "'x x509_codec_scheme \<Rightarrow> certificate list \<Rightarrow> certificate_list \<Rightarrow> nat option" where
  "discover_crl_signer cd certs crl =
     (case crl_authority_key_id cd crl of
        Some aki_key_id \<Rightarrow> position (\<lambda>i. cert_subject_key_id cd (certs ! i) = Some aki_key_id) certs
      | None \<Rightarrow>
          position (\<lambda>i. names_match (subject (tbs (certs ! i))) (crl_issuer (tbs_list crl))) certs)"

definition find_parent :: "'x x509_codec_scheme \<Rightarrow> certificate list \<Rightarrow> nat \<Rightarrow> nat option" where
  "find_parent cd certs cert =
     (let by_key = (case cert_authority_key_id cd (certs ! cert) of
                      None \<Rightarrow> None
                    | Some aki \<Rightarrow>
                        position (\<lambda>i. i \<noteq> cert \<and> cert_subject_key_id cd (certs ! i) = Some aki) certs)
      in case by_key of
           Some i \<Rightarrow> Some i
         | None \<Rightarrow>
             position (\<lambda>i. i \<noteq> cert \<and>
               names_match (subject (tbs (certs ! i))) (issuer (tbs (certs ! cert)))) certs)"

definition is_self_signed :: "certificate \<Rightarrow> bool" where
  "is_self_signed cert = names_match (subject (tbs cert)) (issuer (tbs cert))"

function reaches_self_signed_loop ::
  "'x x509_codec_scheme \<Rightarrow> certificate list \<Rightarrow> nat \<Rightarrow> nat \<Rightarrow> nat \<Rightarrow> bool" where
  "reaches_self_signed_loop cd certs max_steps current steps =
     (if is_self_signed (certs ! current) then True
      else if steps \<ge> max_steps then False
      else case find_parent cd certs current of
             Some p \<Rightarrow> reaches_self_signed_loop cd certs max_steps p (steps + 1)
           | None \<Rightarrow> False)"
  by pat_completeness auto
termination
  by (relation "measure (\<lambda>(cd, certs, max_steps, current, steps). max_steps - steps)") auto

declare reaches_self_signed_loop.simps [simp del]

definition reaches_self_signed :: "'x x509_codec_scheme \<Rightarrow> certificate list \<Rightarrow> nat \<Rightarrow> bool" where
  "reaches_self_signed cd certs signer =
     reaches_self_signed_loop cd certs (min (length certs + 1) usize_max) signer 0"

section \<open>Constructors\<close>

definition crl_checker_new ::
  "'x revocation_codec_scheme \<Rightarrow> bytes \<Rightarrow> u64 \<Rightarrow> sig_verifier \<Rightarrow> crl_checker revocation_result" where
  "crl_checker_new cd crl_der now_unix verifier =
     and_then (map_err CrlParseError (dec_crl cd crl_der)) (\<lambda>crl.
       Ok \<lparr> ck_crl = crl, ck_delta_crl = None, ck_crl_issuer_cert = None, signer_discovered = False,
            ck_now_unix = now_unix, ck_verifier = verifier \<rparr>)"

definition new_with_crl_issuer ::
  "'x revocation_codec_scheme \<Rightarrow> bytes \<Rightarrow> certificate \<Rightarrow> u64 \<Rightarrow> sig_verifier
    \<Rightarrow> crl_checker revocation_result" where
  "new_with_crl_issuer cd crl_der crl_issuer_cert now_unix verifier =
     and_then (map_err CrlParseError (dec_crl cd crl_der)) (\<lambda>crl.
       Ok \<lparr> ck_crl = crl, ck_delta_crl = None, ck_crl_issuer_cert = Some crl_issuer_cert,
            signer_discovered = False, ck_now_unix = now_unix, ck_verifier = verifier \<rparr>)"

definition new_with_signer_discovery ::
  "'x revocation_codec_scheme \<Rightarrow> bytes \<Rightarrow> certificate list \<Rightarrow> certificate \<Rightarrow> u64 \<Rightarrow> sig_verifier
    \<Rightarrow> crl_checker revocation_result" where
  "new_with_signer_discovery cd crl_der certs cert_to_check now_unix verifier =
     and_then (map_err CrlParseError (dec_crl cd crl_der)) (\<lambda>crl.
     and_then (ok_or CrlSignerNotFound (discover_crl_signer cd certs crl)) (\<lambda>signer.
     and_then (check_crl_sign cd (certs ! signer)) (\<lambda>_.
       if \<not> reaches_self_signed cd certs signer then Err CrlSignerNotTrusted
       else Ok \<lparr> ck_crl = crl, ck_delta_crl = None, ck_crl_issuer_cert = Some (certs ! signer),
                 signer_discovered = True, ck_now_unix = now_unix, ck_verifier = verifier \<rparr>)))"

definition with_delta ::
  "'x revocation_codec_scheme \<Rightarrow> bytes \<Rightarrow> bytes \<Rightarrow> u64 \<Rightarrow> sig_verifier \<Rightarrow> crl_checker revocation_result" where
  "with_delta cd base_der delta_der now_unix verifier =
     and_then (map_err CrlParseError (dec_crl cd base_der)) (\<lambda>base_crl.
     and_then (map_err CrlParseError (dec_crl cd delta_der)) (\<lambda>delta_crl.
       if has_delta_crl_indicator base_crl then Err DeltaCrlBaseMismatch
       else if \<not> has_delta_crl_indicator delta_crl then Err DeltaCrlBaseMismatch
       else
         and_then (ok_or DeltaCrlBaseMismatch (base_crl_number cd delta_crl)) (\<lambda>base_num_result.
         and_then (map_err CrlParseError base_num_result) (\<lambda>delta_base_num.
           if \<not> names_match (crl_issuer (tbs_list base_crl)) (crl_issuer (tbs_list delta_crl))
           then Err DeltaCrlBaseMismatch
           else
             and_then (case crl_number cd base_crl of
                         None \<Rightarrow> Ok ()
                       | Some num_result \<Rightarrow>
                           and_then (map_err CrlParseError num_result) (\<lambda>base_num.
                             if delta_base_num > base_num then Err CrlNumberMismatch else Ok ())) (\<lambda>_.
             Ok \<lparr> ck_crl = base_crl, ck_delta_crl = Some delta_crl, ck_crl_issuer_cert = None,
                  signer_discovered = False, ck_now_unix = now_unix, ck_verifier = verifier \<rparr>)))))"

definition with_delta_and_crl_issuer ::
  "'x revocation_codec_scheme \<Rightarrow> bytes \<Rightarrow> bytes \<Rightarrow> certificate \<Rightarrow> u64 \<Rightarrow> sig_verifier
    \<Rightarrow> crl_checker revocation_result" where
  "with_delta_and_crl_issuer cd base_der delta_der crl_issuer_cert now_unix verifier =
     map_ok (\<lambda>checker. checker\<lparr> ck_crl_issuer_cert := Some crl_issuer_cert \<rparr>)
       (with_delta cd base_der delta_der now_unix verifier)"

section \<open>What the lookup finds\<close>

text \<open>
  The issuer in effect at an entry: in an indirect CRL the one named last at or before the entry,
  otherwise the default.
\<close>

definition issuer_in_effect ::
  "'x x509_codec_scheme \<Rightarrow> bool \<Rightarrow> dname \<Rightarrow> revoked_cert list \<Rightarrow> nat \<Rightarrow> dname" where
  "issuer_in_effect cd is_indirect def_issuer entries i =
     (if is_indirect
      then foldl (\<lambda>eff e. case entry_issuer cd e of Inr (Some n) \<Rightarrow> n | _ \<Rightarrow> eff) def_issuer (take (i + 1) entries)
      else def_issuer)"

definition entry_matches ::
  "'x x509_codec_scheme \<Rightarrow> dname \<Rightarrow> bytes \<Rightarrow> revoked_cert list \<Rightarrow> dname \<Rightarrow> bool \<Rightarrow> nat \<Rightarrow> bool" where
  "entry_matches cd cert_issuer cert_serial entries def_issuer is_indirect i \<longleftrightarrow>
     rc_serial_number (entries ! i) = cert_serial \<and>
     names_match (issuer_in_effect cd is_indirect def_issuer entries i) cert_issuer"

definition first_match ::
  "'x x509_codec_scheme \<Rightarrow> dname \<Rightarrow> bytes \<Rightarrow> revoked_cert list \<Rightarrow> dname \<Rightarrow> bool \<Rightarrow> revoked_cert option" where
  "first_match cd cert_issuer cert_serial entries def_issuer is_indirect =
     map_option (nth entries)
       (find (entry_matches cd cert_issuer cert_serial entries def_issuer is_indirect) [0..<length entries])"

lemma find_upt_Suc:
  "find P [0..<Suc n] = (if P 0 then Some 0 else map_option Suc (find (\<lambda>i. P (Suc i)) [0..<n]))"
proof -
  have "find P (map Suc xs) = map_option Suc (find (\<lambda>i. P (Suc i)) xs)" for xs
    by (induction xs) auto
  then show ?thesis by (simp add: upt_conv_Cons map_Suc_upt [symmetric] del: upt_Suc)
qed

lemma issuer_in_effect_Cons:
  "issuer_in_effect cd ind d (e # es) (Suc i) =
     issuer_in_effect cd ind (issuer_in_effect cd ind d (e # es) 0) es i"
  by (simp add: issuer_in_effect_def)

lemma first_match_Cons:
  "first_match cd ci cs (e # es) d ind =
     (if rc_serial_number e = cs \<and> names_match (issuer_in_effect cd ind d (e # es) 0) ci then Some e
      else first_match cd ci cs es (issuer_in_effect cd ind d (e # es) 0) ind)"
proof -
  have "entry_matches cd ci cs (e # es) d ind (Suc i) =
      entry_matches cd ci cs es (issuer_in_effect cd ind d (e # es) 0) ind i" for i
    by (simp add: entry_matches_def issuer_in_effect_Cons)
  then show ?thesis
    by (simp add: first_match_def find_upt_Suc entry_matches_def [of _ _ _ _ _ _ 0] option.map_comp comp_def
        del: upt_Suc)
qed

text \<open>When the lookup returns at all, it returns the first match.\<close>

lemma find_matching_entry_Ok:
  "find_matching_entry cd ci cs entries d ind = Inr r \<Longrightarrow> first_match cd ci cs entries d ind = r"
proof (induction cd ci cs entries d ind rule: find_matching_entry.induct)
  case (1 cd ci cs d ind)
  then show ?case by (simp add: first_match_def)
next
  case (2 cd ci cs e es d ind)
  from 2(2) obtain named where named: "(if ind then entry_issuer cd e else Ok None) = Inr named"
    and rest: "(if rc_serial_number e = cs \<and> names_match (unwrap_or d named) ci then Ok (Some e)
        else find_matching_entry cd ci cs es (unwrap_or d named) ind) = Inr r"
    by (auto simp: and_then_Ok_iff Let_def)
  have eff: "issuer_in_effect cd ind d (e # es) 0 = unwrap_or d named"
    using named by (cases named) (auto simp: issuer_in_effect_def split: if_splits)
  show ?case
    using rest 2(1) unfolding first_match_Cons eff by (auto split: if_splits)
qed

lemma find_matching_entry_direct:
  "find_matching_entry cd ci cs entries d False =
     Ok (if names_match d ci then find (\<lambda>e. rc_serial_number e = cs) entries else None)"
  by (induction entries) auto

text \<open>Whether the base and delta entries of a checker list a certificate as revoked.\<close>

definition delta_entries_of :: "crl_checker \<Rightarrow> revoked_cert list" where
  "delta_entries_of ck = (case ck_delta_crl ck of None \<Rightarrow> [] | Some d \<Rightarrow> base_entries d)"

definition crl_lists :: "'x revocation_codec_scheme \<Rightarrow> crl_checker \<Rightarrow> certificate \<Rightarrow> bool" where
  "crl_lists cd ck cert =
     (let found = (\<lambda>es. first_match cd (issuer (tbs cert)) (serial_number (tbs cert)) es
            (crl_issuer (tbs_list (ck_crl ck))) (ck_crl_issuer_cert ck \<noteq> None))
      in case found (delta_entries_of ck) of
           Some e \<Rightarrow> extract_reason_code cd e \<noteq> Some RemoveFromCRL
         | None \<Rightarrow> found (base_entries (ck_crl ck)) \<noteq> None)"

definition crl_fresh :: "certificate_list \<Rightarrow> u64 \<Rightarrow> bool" where
  "crl_fresh crl now \<longleftrightarrow>
     crl_this_update (tbs_list crl) \<le> now \<and>
     (\<exists>n. crl_next_update (tbs_list crl) = Some n \<and> now \<le> n)"

definition crl_signed :: "'x revocation_codec_scheme \<Rightarrow> sig_verifier \<Rightarrow> certificate_list \<Rightarrow> spki \<Rightarrow> bool" where
  "crl_signed cd v crl key \<longleftrightarrow>
     (\<exists>m. enc_tbs_crl cd (tbs_list crl) = Ok m \<and>
        v (crl_signature_algorithm crl) key m (raw_bytes (crl_signature crl)) = Ok ())"

text \<open>The CRL of a checker, and its delta, are current and signed by \<open>signer\<close> under its name.\<close>

definition crl_authentic :: "'x revocation_codec_scheme \<Rightarrow> crl_checker \<Rightarrow> signer \<Rightarrow> bool" where
  "crl_authentic cd ck signer \<longleftrightarrow>
     (case signer of (name, key, cert) \<Rightarrow>
       names_match (crl_issuer (tbs_list (ck_crl ck))) name \<and>
       (\<forall>c ku. cert = Some c \<longrightarrow> try_find_cert_ext (dec_key_usage cd) c OID_KEY_USAGE = Ok (Some ku) \<longrightarrow> ku_crl_sign ku) \<and>
       crl_fresh (ck_crl ck) (ck_now_unix ck) \<and> crl_signed cd (ck_verifier ck) (ck_crl ck) key \<and>
       (\<forall>d. ck_delta_crl ck = Some d \<longrightarrow>
          names_match (crl_issuer (tbs_list d)) name \<and> crl_fresh d (ck_now_unix ck) \<and>
          crl_signed cd (ck_verifier ck) d key))"

lemma check_crl_window_Ok: "check_crl_window crl now = Inr u \<longleftrightarrow> crl_fresh crl now"
  by (auto simp: check_crl_window_def crl_fresh_def and_then_Ok_iff not_less)

lemma verify_crl_signature_Ok: "verify_crl_signature cd v crl key = Inr u \<longleftrightarrow> crl_signed cd v crl key"
  by (auto simp: verify_crl_signature_def crl_signed_def and_then_Ok_iff)

lemma check_crl_sign_Ok:
  "check_crl_sign cd c = Inr u \<Longrightarrow> try_find_cert_ext (dec_key_usage cd) c OID_KEY_USAGE = Ok (Some ku) \<Longrightarrow> ku_crl_sign ku"
  by (auto simp: check_crl_sign_def try_find_cert_ext_Some_iff and_then_Ok_iff split: option.splits if_splits)

lemma no_verdict_cdp: "cert_crl_distribution_points cd cert = Inl e \<Longrightarrow> verdict (Inl e) = None"
  by (auto simp: cert_crl_distribution_points_def map_err_def map_ok_def split: option.splits sum.splits)

lemma no_verdict_dp_scope: "check_idp_dp_scope cd cert idp n m = Inl e \<Longrightarrow> verdict (Inl e) = None"
proof (cases "cert_crl_distribution_points cd cert")
  case (Inl e')
  then show "check_idp_dp_scope cd cert idp n m = Inl e \<Longrightarrow> verdict (Inl e) = None"
    using no_verdict_cdp by (simp add: check_idp_dp_scope_def)
next
  case (Inr cdps)
  then show "check_idp_dp_scope cd cert idp n m = Inl e \<Longrightarrow> verdict (Inl e) = None"
    by (cases "idp_distribution_point idp"; cases cdps)
      (auto simp: check_idp_dp_scope_def Let_def simp del: list_ex_iff split: if_split_asm)
qed

lemma no_verdict:
  "check_crl_sign cd c = Inl e \<Longrightarrow> verdict (Inl e) = None"
  "check_crl_window crl now = Inl e \<Longrightarrow> verdict (Inl e) = None"
  "verify_crl_signature cd v crl key = Inl e \<Longrightarrow> verdict (Inl e) = None"
  "check_idp_scope cd cert idp name = Inl e \<Longrightarrow> verdict (Inl e) = None"
  "parse_issuing_dp cd crl = Inl e \<Longrightarrow> verdict (Inl e) = None"
  "effective_signer ck ind direct = Inl e \<Longrightarrow> verdict (Inl e) = None"
proof -
  show "check_idp_scope cd cert idp name = Inl e \<Longrightarrow> verdict (Inl e) = None"
    by (auto simp: check_idp_scope_def cert_is_ca_cert_def and_then_Err_iff map_err_def
        split: option.splits sum.splits if_splits dest: no_verdict_dp_scope)
qed (auto simp: check_crl_sign_def check_crl_window_def verify_crl_signature_def parse_issuing_dp_def
      effective_signer_def and_then_Err_iff map_err_def map_ok_def ok_or_def
      split: option.splits sum.splits if_splits bool.splits)

lemma no_verdict_delta:
  "verify_delta_crl_and_collect cd d v key name now = Inl e \<Longrightarrow> verdict (Inl e) = None"
  by (auto simp: verify_delta_crl_and_collect_def and_then_Err_iff split: if_splits dest: no_verdict)

lemma no_verdict_entries:
  "find_matching_entry cd ci cs es d ind = Inl e \<Longrightarrow> verdict (Inl e) = None"
proof (induction es arbitrary: d)
  case (Cons entry es)
  have "entry_issuer cd entry = Inl e \<Longrightarrow> verdict (Inl e) = None"
    by (auto simp: entry_issuer_def parse_certificate_issuer_dn_def and_then_Err_iff map_ok_def map_err_def
        ok_or_def split: option.splits sum.splits)
  with Cons show ?case by (auto simp: and_then_Err_iff Let_def split: if_splits)
qed simp

lemma status_verdict:
  assumes "verdict (check_revocation_status_indirect cd (issuer (tbs cert)) (serial_number (tbs cert))
      (delta_entries_of ck) (ck_crl ck) (crl_issuer (tbs_list (ck_crl ck))) (ck_crl_issuer_cert ck \<noteq> None)) = Some b"
  shows "b \<longleftrightarrow> crl_lists cd ck cert"
  using assms
  unfolding check_revocation_status_indirect_def crl_lists_def Let_def
  by (auto simp: verdict_and_then [OF no_verdict_entries] dest!: find_matching_entry_Ok
      split: option.splits if_splits)

lemma crl_determine_verdict:
  assumes "verdict (crl_determine cd ck cert idp signer) = Some b"
    and "names_match (crl_issuer (tbs_list (ck_crl ck))) (fst signer)"
  shows "crl_authentic cd ck signer \<and> check_idp_scope cd cert idp (fst signer) = Ok () \<and>
     (b \<longleftrightarrow> crl_lists cd ck cert)"
proof -
  obtain name key c where signer: "signer = (name, key, c)" by (cases signer) auto
  define ku where "ku = (case c of None \<Rightarrow> Ok () | Some x \<Rightarrow> check_crl_sign cd x)"
  define delta where "delta = (case ck_delta_crl ck of
      None \<Rightarrow> Ok []
    | Some d \<Rightarrow>
        if \<not> names_match (crl_issuer (tbs_list d)) (crl_issuer (tbs_list (ck_crl ck))) then Err CrlIssuerMismatch
        else verify_delta_crl_and_collect cd d (ck_verifier ck) key name (ck_now_unix ck))"
  have nv: "\<And>e. ku = Inl e \<Longrightarrow> verdict (Inl e) = None" "\<And>e. delta = Inl e \<Longrightarrow> verdict (Inl e) = None"
    by (auto simp: ku_def delta_def split: option.splits if_splits dest: no_verdict no_verdict_delta)
  from assms(1) obtain es where
    ku: "ku = Ok ()" and fresh: "crl_fresh (ck_crl ck) (ck_now_unix ck)"
    and signed: "crl_signed cd (ck_verifier ck) (ck_crl ck) key"
    and scope: "check_idp_scope cd cert idp name = Ok ()" and es: "delta = Ok es"
    and status: "verdict (check_revocation_status_indirect cd (issuer (tbs cert)) (serial_number (tbs cert)) es
        (ck_crl ck) (crl_issuer (tbs_list (ck_crl ck))) (ck_crl_issuer_cert ck \<noteq> None)) = Some b"
    unfolding crl_determine_def signer prod.case Let_def ku_def [symmetric] delta_def [symmetric]
    by (auto simp: verdict_and_then [OF nv(1)] verdict_and_then [OF nv(2)] verdict_and_then [OF no_verdict(2)]
        verdict_and_then [OF no_verdict(3)] verdict_and_then [OF no_verdict(4)]
        check_crl_window_Ok verify_crl_signature_Ok)
  have "es = delta_entries_of ck \<and> (\<forall>d. ck_delta_crl ck = Some d \<longrightarrow>
      names_match (crl_issuer (tbs_list d)) name \<and> crl_fresh d (ck_now_unix ck) \<and> crl_signed cd (ck_verifier ck) d key)"
    using es
    by (auto simp: delta_def delta_entries_of_def verify_delta_crl_and_collect_def result_simps
        check_crl_window_Ok verify_crl_signature_Ok split: option.splits if_splits)
  moreover have "c = Some x \<longrightarrow> try_find_cert_ext (dec_key_usage cd) x OID_KEY_USAGE = Ok (Some u) \<longrightarrow> ku_crl_sign u" for x u
    using ku check_crl_sign_Ok by (auto simp: ku_def)
  ultimately show ?thesis
    using fresh signed scope status_verdict [of cd cert ck b] status assms(2)
    by (simp add: crl_authentic_def signer)
qed

lemma crl_check_verdict:
  assumes "verdict (crl_check_revocation cd ck cert iss) = Some b"
  shows "\<exists>signer. crl_authentic cd ck signer \<and> names_match (subject (tbs iss)) (issuer (tbs cert)) \<and>
     (b \<longleftrightarrow> crl_lists cd ck cert) \<and>
     (case ck_crl_issuer_cert ck of
        None \<Rightarrow> signer = cert_signer iss \<and> names_match (crl_issuer (tbs_list (ck_crl ck))) (issuer (tbs cert))
      | Some c \<Rightarrow> signer = cert_signer c)"
proof -
  from assms obtain idp signer where
    signer: "effective_signer ck (case idp of None \<Rightarrow> False | Some idp \<Rightarrow> indirect_crl idp) (cert_signer iss) = Inr signer"
    and n: "names_match (crl_issuer (tbs_list (ck_crl ck))) (fst signer)"
      "names_match (subject (tbs iss)) (issuer (tbs cert))"
      "ck_crl_issuer_cert ck = None \<longrightarrow> names_match (issuer (tbs cert)) (crl_issuer (tbs_list (ck_crl ck)))"
    and det: "verdict (crl_determine cd ck cert idp signer) = Some b"
    unfolding crl_check_revocation_def
    by (auto simp: verdict_and_then [OF no_verdict(5)] verdict_and_then [OF no_verdict(6)] split: if_splits)
  have "case ck_crl_issuer_cert ck of None \<Rightarrow> signer = cert_signer iss | Some c \<Rightarrow> signer = cert_signer c"
    using signer by (auto simp: effective_signer_def split: option.splits bool.splits if_splits)
  then show ?thesis
    using crl_determine_verdict [OF det n(1)] n(2,3) name_cmp.eqv_sym
    by (intro exI [of _ signer]) (auto split: option.splits)
qed

lemma crl_anchor_verdict:
  assumes "verdict (crl_check_revocation_against_anchor cd ck cert anchor) = Some b"
  shows "\<exists>signer. crl_authentic cd ck signer \<and> names_match (ta_subject anchor) (issuer (tbs cert)) \<and>
     (b \<longleftrightarrow> crl_lists cd ck cert) \<and>
     (case ck_crl_issuer_cert ck of
        None \<Rightarrow> signer = (ta_subject anchor, ta_spki anchor, None)
      | Some c \<Rightarrow> signer = cert_signer c)"
proof -
  from assms obtain idp signer where
    signer: "effective_signer ck (case idp of None \<Rightarrow> False | Some idp \<Rightarrow> indirect_crl idp)
        (ta_subject anchor, ta_spki anchor, None) = Inr signer"
    and n: "names_match (crl_issuer (tbs_list (ck_crl ck))) (fst signer)"
      "names_match (issuer (tbs cert)) (ta_subject anchor)"
    and det: "verdict (crl_determine cd ck cert idp signer) = Some b"
    unfolding crl_check_revocation_against_anchor_def
    by (auto simp: verdict_and_then [OF no_verdict(5)] verdict_and_then [OF no_verdict(6)] split: if_splits)
  have "case ck_crl_issuer_cert ck of
      None \<Rightarrow> signer = (ta_subject anchor, ta_spki anchor, None) | Some c \<Rightarrow> signer = cert_signer c"
    using signer by (auto simp: effective_signer_def split: option.splits bool.splits if_splits)
  then show ?thesis
    using crl_determine_verdict [OF det n(1)] n(2) name_cmp.eqv_sym
    by (intro exI [of _ signer]) (auto split: option.splits)
qed

text \<open>The checker keeps the promises of the trait.\<close>

interpretation crl: revocation_source "crl_revocation_checker cd ck" "\<lambda>_. crl_lists cd ck" for cd ck
  by unfold_locales (auto simp: crl_revocation_checker_def Ok_verdict dest!: crl_check_verdict crl_anchor_verdict)

text \<open>
  For a direct CRL an entry lists a certificate by its serial number alone, and the first entry of
  the delta decides before the base.
\<close>

lemma first_match_direct:
  "first_match cd ci cs entries d False =
     (if names_match d ci then find (\<lambda>e. rc_serial_number e = cs) entries else None)"
  by (rule find_matching_entry_Ok) (rule find_matching_entry_direct)

lemma crl_lists_direct:
  assumes "ck_crl_issuer_cert ck = None" and "names_match (crl_issuer (tbs_list (ck_crl ck))) (issuer (tbs cert))"
  shows "crl_lists cd ck cert \<longleftrightarrow>
     (case find (\<lambda>e. rc_serial_number e = serial_number (tbs cert)) (delta_entries_of ck) of
        Some e \<Rightarrow> extract_reason_code cd e \<noteq> Some RemoveFromCRL
      | None \<Rightarrow> serial_number (tbs cert) \<in> rc_serial_number ` set (base_entries (ck_crl ck)))"
proof -
  have "find (\<lambda>e. rc_serial_number e = t) es \<noteq> None \<longleftrightarrow> t \<in> rc_serial_number ` set es" for t es
    by (auto simp: find_None_conv simp del: not_None_eq)
  from this [of "serial_number (tbs cert)" "base_entries (ck_crl ck)"] assms show ?thesis
    by (cases "find (\<lambda>e. rc_serial_number e = serial_number (tbs cert)) (delta_entries_of ck)")
      (simp_all add: crl_lists_def first_match_direct)
qed

section \<open>Properties\<close>

text \<open>An example codec for revocation data and CRLs for it, signed by entity \<open>k\<close>.\<close>

definition ex_tbs_crl :: "u8 \<Rightarrow> revoked_cert list \<Rightarrow> extension list \<Rightarrow> tbs_cert_list" where
  "ex_tbs_crl k entries exts =
     \<lparr> crl_issuer = ex_name k, crl_this_update = 100, crl_next_update = Some 200,
       revoked_certificates = Some entries, crl_extensions = Some exts \<rparr>"

definition ex_crl :: "u8 \<Rightarrow> revoked_cert list \<Rightarrow> extension list \<Rightarrow> certificate_list" where
  "ex_crl k entries exts =
     \<lparr> tbs_list = ex_tbs_crl k entries exts,
       crl_signature_algorithm = \<lparr> alg_oid = [1, 9], alg_parameters = None \<rparr>,
       crl_signature = \<lparr> raw_bytes = [0xCC, k], unused_bits = 0 \<rparr> \<rparr>"

definition ex_entry :: "u8 \<Rightarrow> revoked_cert" where
  "ex_entry k = \<lparr> rc_serial_number = [k], crl_entry_extensions = None \<rparr>"

definition ex_removed :: "u8 \<Rightarrow> revoked_cert" where
  "ex_removed k = \<lparr> rc_serial_number = [k], crl_entry_extensions = Some [ex_ext OID_CRL_REASONS [8]] \<rparr>"

definition ex_indirect_idp :: issuing_distribution_point where
  "ex_indirect_idp =
     \<lparr> idp_distribution_point = None, only_contains_user_certs = False, only_contains_ca_certs = False,
       only_contains_attribute_certs = False, indirect_crl = True \<rparr>"

definition ex_revocation_codec :: revocation_codec where
  "ex_revocation_codec = identity_codec.extend ex_identity_codec
     (revocation_codec.fields
        (table_dec
          [([1], ex_crl 1 [ex_entry 9] []), ([7], ex_crl 7 [ex_entry 5] []),
           ([2], ex_crl 1 [ex_entry 5] [ex_ext OID_CRL_NUMBER [4]]),
           ([3], ex_crl 1 [ex_removed 5] [ex_ext OID_DELTA_CRL_INDICATOR [3]]),
           ([4], ex_crl 7 [] [ex_ext OID_ISSUING_DISTRIBUTION_POINT [1]]),
           ([5], ex_crl 7 [] [ex_ext OID_DELTA_CRL_INDICATOR [3]])])
        (\<lambda>t. Ok [0xCC]) (\<lambda>b. Ok b)
        (table_dec [([8], RemoveFromCRL), ([1], KeyCompromise)])
        (table_dec [([1], ex_indirect_idp)]) (table_dec [])
        (table_dec []) (table_dec []) (\<lambda>t. Ok [0xDD]) (\<lambda>n. Ok (concat (concat (map (map (\<lambda>a. any_value (ava_value a))) n))))
        (\<lambda>b. 1 # b) (\<lambda>b. 2 # b) (\<lambda>b. 3 # b) (\<lambda>b. 4 # b))"

text \<open>
  C11. The CRL checker reports a certificate as revoked or as not revoked only on the strength of a CRL
  (and a delta) that is current, is signed by the certificate's issuer or by the configured CRL
  issuer under the CRL's own issuer name, and whose signer may sign CRLs; the report then agrees with
  the entries: for a direct CRL, with the serial numbers of the base and the first delta entry.
\<close>

theorem crl_verdict_authentic:
  assumes "verdict (crl_check_revocation cd ck cert iss) = Some b"
  shows "\<exists>signer. crl_authentic cd ck signer \<and> names_match (subject (tbs iss)) (issuer (tbs cert)) \<and>
     (case ck_crl_issuer_cert ck of
        Some c \<Rightarrow> signer = cert_signer c \<and> (b \<longleftrightarrow> crl_lists cd ck cert)
      | None \<Rightarrow>
          signer = cert_signer iss \<and>
          (b \<longleftrightarrow> (case find (\<lambda>e. rc_serial_number e = serial_number (tbs cert)) (delta_entries_of ck) of
                    Some e \<Rightarrow> extract_reason_code cd e \<noteq> Some RemoveFromCRL
                  | None \<Rightarrow> serial_number (tbs cert) \<in> rc_serial_number ` set (base_entries (ck_crl ck)))))"
  using crl_check_verdict [OF assms] crl_lists_direct [of ck cert cd]
  by (cases "ck_crl_issuer_cert ck") auto

theorem crl_verdict_authentic_witness:
  "\<exists>signer. crl_authentic ex_revocation_codec
      \<lparr> ck_crl = ex_crl 1 [ex_entry 9] [], ck_delta_crl = None, ck_crl_issuer_cert = None,
        signer_discovered = False, ck_now_unix = 150, ck_verifier = ex_verifier \<rparr> signer"
proof -
  have "verdict (crl_check_revocation ex_revocation_codec
      \<lparr> ck_crl = ex_crl 1 [ex_entry 9] [], ck_delta_crl = None, ck_crl_issuer_cert = None,
        signer_discovered = False, ck_now_unix = 150, ck_verifier = ex_verifier \<rparr>
      (ex_cert 5 1 []) (ex_ca 1 0 [])) = Some False"
    by code_simp
  from crl_verdict_authentic [OF this] show ?thesis by blast
qed

text \<open>
  A delta CRL that was paired with its base names the same issuer, is marked as a delta while the
  base is not, and, when the base has a number, was made against a base no newer than the supplied
  one; numbers wider than 64 bits and undecodable numbers are errors, never skipped.
\<close>

theorem with_delta_pairs:
  assumes "with_delta cd base_der delta_der now v = Ok ck"
  shows "\<exists>base_crl delta_crl n.
     dec_crl cd base_der = Ok base_crl \<and> dec_crl cd delta_der = Ok delta_crl \<and>
     ck_crl ck = base_crl \<and> ck_delta_crl ck = Some delta_crl \<and> ck_crl_issuer_cert ck = None \<and>
     find_crl_ext base_crl OID_DELTA_CRL_INDICATOR = None \<and>
     base_crl_number cd delta_crl = Some (Ok n) \<and>
     names_match (crl_issuer (tbs_list base_crl)) (crl_issuer (tbs_list delta_crl)) \<and>
     (crl_number cd base_crl = None \<or> (\<exists>m. crl_number cd base_crl = Some (Ok m) \<and> n \<le> m))"
proof -
  from assms obtain base_crl delta_crl r n where
    dec: "dec_crl cd base_der = Ok base_crl" "dec_crl cd delta_der = Ok delta_crl"
    and ind: "\<not> has_delta_crl_indicator base_crl" "has_delta_crl_indicator delta_crl"
    and n: "base_crl_number cd delta_crl = Some r" "map_err CrlParseError r = Ok n"
    and names: "names_match (crl_issuer (tbs_list base_crl)) (crl_issuer (tbs_list delta_crl))"
    and num: "(case crl_number cd base_crl of
                 None \<Rightarrow> Ok ()
               | Some num_result \<Rightarrow>
                   and_then (map_err CrlParseError num_result) (\<lambda>base_num.
                     if n > base_num then Err CrlNumberMismatch else Ok ())) = Ok ()"
    and ck: "ck = \<lparr> ck_crl = base_crl, ck_delta_crl = Some delta_crl, ck_crl_issuer_cert = None,
                    signer_discovered = False, ck_now_unix = now, ck_verifier = v \<rparr>"
    unfolding with_delta_def by (auto simp: and_then_Ok_iff split: if_splits)
  have "find_crl_ext base_crl OID_DELTA_CRL_INDICATOR = None"
    using ind(1) by (auto simp: has_delta_crl_indicator_def find_crl_ext_def find_None_conv list_ex_iff)
  moreover have "crl_number cd base_crl = None \<or> (\<exists>m. crl_number cd base_crl = Some (Ok m) \<and> n \<le> m)"
    using num by (auto simp: and_then_Ok_iff not_less split: option.splits if_splits)
  ultimately show ?thesis using dec n names ck by simp
qed

theorem with_delta_pairs_witness:
  "\<exists>n. base_crl_number ex_revocation_codec (ex_crl 1 [ex_removed 5] [ex_ext OID_DELTA_CRL_INDICATOR [3]]) = Some (Ok n)"
proof -
  have d: "dec_crl ex_revocation_codec [3] = Ok (ex_crl 1 [ex_removed 5] [ex_ext OID_DELTA_CRL_INDICATOR [3]])"
    by code_simp
  have "is_ok (with_delta ex_revocation_codec [2] [3] 150 ex_verifier)" by code_simp
  then obtain ck where "with_delta ex_revocation_codec [2] [3] 150 ex_verifier = Ok ck" by (auto simp: is_ok_iff)
  from with_delta_pairs [OF this] d show ?thesis by auto
qed

section \<open>Signer discovery\<close>

text \<open>The certificate reached by \<open>n\<close> steps from an index to the parent of its certificate.\<close>

fun climb :: "'x x509_codec_scheme \<Rightarrow> certificate list \<Rightarrow> nat \<Rightarrow> nat \<Rightarrow> nat option" where
  "climb cd certs 0 i = Some i"
| "climb cd certs (Suc n) i =
     (case find_parent cd certs i of None \<Rightarrow> None | Some p \<Rightarrow> climb cd certs n p)"

lemma climb_add:
  "climb cd certs (m + n) i = (case climb cd certs m i of None \<Rightarrow> None | Some j \<Rightarrow> climb cd certs n j)"
  by (induction m arbitrary: i) (auto split: option.splits)

lemma find_parent_index: "find_parent cd certs i = Some p \<Longrightarrow> p < length certs"
  by (auto simp: find_parent_def position_def Let_def split: option.splits dest!: find_Some_mem)

lemma climb_index: "climb cd certs n i = Some j \<Longrightarrow> i < length certs \<Longrightarrow> j < length certs"
  by (induction n arbitrary: i) (auto split: option.splits dest: find_parent_index)

lemma reaches_loop:
  "reaches_self_signed_loop cd certs max_steps i steps \<longleftrightarrow>
     (\<exists>n \<le> max_steps - steps. \<exists>j. climb cd certs n i = Some j \<and> is_self_signed (certs ! j))"
proof (induction cd certs max_steps i steps rule: reaches_self_signed_loop.induct)
  case (1 cd certs max_steps i steps)
  note unf = reaches_self_signed_loop.simps [of cd certs max_steps i steps]
  show ?case
  proof (cases "is_self_signed (certs ! i)")
    case True
    then have "climb cd certs 0 i = Some i \<and> is_self_signed (certs ! i)" by simp
    with True show ?thesis unfolding unf by (metis zero_le)
  next
    case not: False
    then have pos: "climb cd certs n i = Some j \<Longrightarrow> is_self_signed (certs ! j) \<Longrightarrow> \<exists>k. n = Suc k" for n j
      by (cases n) auto
    show ?thesis
    proof (cases "steps \<ge> max_steps")
      case True
      with not show ?thesis unfolding unf by auto
    next
      case False
      show ?thesis
      proof (cases "find_parent cd certs i")
        case None
        have "climb cd certs n i = Some j \<Longrightarrow> \<not> is_self_signed (certs ! j)" for n j
          using not None by (cases n) auto
        with not False None show ?thesis unfolding unf by auto
      next
        case (Some p)
        have "(\<exists>n \<le> max_steps - steps. \<exists>j. climb cd certs n i = Some j \<and> is_self_signed (certs ! j)) \<longleftrightarrow>
            (\<exists>n \<le> max_steps - (steps + 1). \<exists>j. climb cd certs n p = Some j \<and> is_self_signed (certs ! j))"
          (is "?L \<longleftrightarrow> ?R")
        proof
          assume ?L
          then obtain n j where n: "n \<le> max_steps - steps" "climb cd certs n i = Some j" "is_self_signed (certs ! j)"
            by blast
          with pos obtain k where "n = Suc k" by blast
          with n Some show ?R by (intro exI [of _ k]) auto
        next
          assume ?R
          then obtain n j where "n \<le> max_steps - (steps + 1)" "climb cd certs n p = Some j" "is_self_signed (certs ! j)"
            by blast
          with Some False show ?L by (intro exI [of _ "Suc n"]) auto
        qed
        with not False Some 1 show ?thesis unfolding unf by simp
      qed
    qed
  qed
qed

lemma climb_shortest:
  assumes "climb cd certs n i = Some j" and "P j"
    and shortest: "\<And>m k. climb cd certs m i = Some k \<Longrightarrow> P k \<Longrightarrow> n \<le> m" and i: "i < length certs"
  shows "n < length certs"
proof -
  have defined: "climb cd certs m i \<noteq> None" if "m \<le> n" for m
    using that assms(1) climb_add [of cd certs m "n - m" i] by (auto split: option.splits)
  define node where "node = (\<lambda>m. the (climb cd certs m i))"
  have node: "climb cd certs m i = Some (node m)" if "m \<le> n" for m
    using defined [OF that] by (auto simp: node_def)
  have "inj_on node {..n}"
  proof (rule linorder_inj_onI)
    fix a b assume ab: "a < b" "a \<in> {..n}" "b \<in> {..n}"
    show "node a \<noteq> node b"
    proof
      assume eq: "node a = node b"
      have "climb cd certs (b + (n - b)) i = climb cd certs (n - b) (node b)"
        using node [of b] ab by (simp only: climb_add) simp
      then have "climb cd certs (n - b) (node b) = Some j" using ab assms(1) by simp
      then have "climb cd certs (a + (n - b)) i = Some j"
        using node [of a] ab eq by (simp only: climb_add) simp
      then have "n \<le> a + (n - b)" using shortest assms(2) by blast
      with ab show False by simp
    qed
  qed auto
  then have "card (node ` {..n}) = n + 1" by (simp add: card_image)
  moreover have "node ` {..n} \<subseteq> {..<length certs}"
    using climb_index [OF node i] by auto
  then have "card (node ` {..n}) \<le> length certs" using card_mono [of "{..<length certs}"] by fastforce
  ultimately show ?thesis by simp
qed

text \<open>
  The walk from a discovered CRL signer to a self-signed certificate, which gives up after one step
  more than the bundle has certificates, misses nothing: it succeeds iff some number of parent steps
  leads to a self-signed certificate at all, so cycles in the bundle only ever cost the bounded walk.
\<close>

theorem reaches_self_signed_decides:
  assumes "signer < length certs" and "length certs < usize_max"
  shows "reaches_self_signed cd certs signer \<longleftrightarrow>
     (\<exists>n j. climb cd certs n signer = Some j \<and> is_self_signed (certs ! j))"
proof
  define Q where "Q = (\<lambda>n. \<exists>j. climb cd certs n signer = Some j \<and> is_self_signed (certs ! j))"
  assume "\<exists>n j. climb cd certs n signer = Some j \<and> is_self_signed (certs ! j)"
  then have n: "Q (LEAST n. Q n)" unfolding Q_def by (rule exE) (rule LeastI)
  then obtain j where j: "climb cd certs (LEAST n. Q n) signer = Some j" "is_self_signed (certs ! j)"
    unfolding Q_def by blast
  have "(LEAST n. Q n) < length certs"
    by (rule climb_shortest [where P = "\<lambda>j. is_self_signed (certs ! j)", OF j _ assms(1)])
      (auto simp: Q_def intro: Least_le)
  then have "(LEAST n. Q n) \<le> min (length certs + 1) usize_max - 0" using assms(2) by simp
  with j show "reaches_self_signed cd certs signer" unfolding reaches_self_signed_def reaches_loop by blast
qed (auto simp: reaches_self_signed_def reaches_loop)

theorem reaches_self_signed_decides_witness:
  "\<exists>n j. climb ex_revocation_codec [ex_ca 5 1 [], ex_ca 1 7 [], ex_ca 7 7 []] n 0 = Some j \<and>
     is_self_signed ([ex_ca 5 1 [], ex_ca 1 7 [], ex_ca 7 7 []] ! j)"
proof -
  have "length [ex_ca 5 1 [], ex_ca 1 7 [], ex_ca 7 7 []] < usize_max" by code_simp
  moreover have "reaches_self_signed ex_revocation_codec [ex_ca 5 1 [], ex_ca 1 7 [], ex_ca 7 7 []] 0" by code_simp
  ultimately show ?thesis
    using reaches_self_signed_decides [of 0 "[ex_ca 5 1 [], ex_ca 1 7 [], ex_ca 7 7 []]" ex_revocation_codec]
    by (simp del: climb.simps)
qed

text \<open>
  A checker built by signer discovery answers ``not revoked'' for a certificate of another issuer,
  although the CRL is a direct CRL that says nothing about that issuer; the ordinary constructor
  refuses the pair.
\<close>

theorem discovery_skips_issuer:
  "(case new_with_signer_discovery ex_revocation_codec [7] [ex_ca 7 7 []] (ex_cert 5 1 []) 150 ex_verifier of
      Inl _ \<Rightarrow> False
    | Inr ck \<Rightarrow>
        parse_issuing_dp ex_revocation_codec (ck_crl ck) = Ok None \<and>
        \<not> names_match (crl_issuer (tbs_list (ck_crl ck))) (issuer (tbs (ex_cert 5 1 []))) \<and>
        crl_check_revocation ex_revocation_codec ck (ex_cert 5 1 []) (ex_ca 1 0 []) = Ok ()) \<and>
   (case crl_checker_new ex_revocation_codec [7] 150 ex_verifier of
      Inl _ \<Rightarrow> False
    | Inr ck \<Rightarrow>
        crl_check_revocation ex_revocation_codec ck (ex_cert 5 1 []) (ex_ca 1 0 []) = Err CrlIssuerMismatch)"
  by code_simp

text \<open>
  The flag \<open>indirectCRL\<close> is never read in the delta: a direct delta is accepted beside an indirect
  base.
\<close>

lemma delta_indirect_flag_unchecked:
  "case with_delta_and_crl_issuer ex_revocation_codec [4] [5] (ex_ca 7 7 []) 150 ex_verifier of
     Inl _ \<Rightarrow> False
   | Inr ck \<Rightarrow>
       map_option (parse_issuing_dp ex_revocation_codec) (ck_delta_crl ck) = Some (Ok None) \<and>
       crl_check_revocation ex_revocation_codec ck (ex_cert 5 1 []) (ex_ca 1 0 []) = Ok ()"
  by code_simp

end
