(* ===== verification/Ocsp.thy ===== *)
theory Ocsp
  imports Revocation PathChecks
begin

text \<open>
  The OCSP checker of \<open>pkix-revocation/src/ocsp.rs\<close>: parsing of a response, the resolution of the key
  that signs it (the issuer's own or that of a designated responder), the match of the certificate
  and the freshness of its status. The lemmas show what a determination rests on.
\<close>

section \<open>Object identifiers\<close>

definition OID_PKIX_OCSP_BASIC :: oid where "OID_PKIX_OCSP_BASIC = [1, 3, 6, 1, 5, 5, 7, 48, 1, 1]"
definition OID_SHA1 :: oid where "OID_SHA1 = [1, 3, 14, 3, 2, 26]"
definition OID_SHA256 :: oid where "OID_SHA256 = [2, 16, 840, 1, 101, 3, 4, 2, 1]"
definition OID_SHA384 :: oid where "OID_SHA384 = [2, 16, 840, 1, 101, 3, 4, 2, 2]"
definition OID_SHA512 :: oid where "OID_SHA512 = [2, 16, 840, 1, 101, 3, 4, 2, 3]"
definition OID_KP_OCSP_SIGNING :: oid where "OID_KP_OCSP_SIGNING = [1, 3, 6, 1, 5, 5, 7, 3, 9]"

section \<open>The checker\<close>

record ocsp_checker =
  oc_basic :: basic_ocsp_response
  oc_now_unix :: u64
  oc_verifier :: sig_verifier

definition parse_basic_response ::
  "'x revocation_codec_scheme \<Rightarrow> bytes \<Rightarrow> basic_ocsp_response revocation_result" where
  "parse_basic_response cd response_der =
     and_then (map_err OcspParseError (dec_ocsp_response cd response_der)) (\<lambda>resp.
       if response_status resp \<noteq> Successful then Err OcspMalformed
       else and_then (ok_or OcspMalformed (ocsp_response_bytes resp)) (\<lambda>resp_bytes.
         if response_type resp_bytes \<noteq> OID_PKIX_OCSP_BASIC then Err OcspMalformed
         else map_err OcspParseError (dec_basic_ocsp cd (rb_response resp_bytes))))"

definition ocsp_checker_new ::
  "'x revocation_codec_scheme \<Rightarrow> bytes \<Rightarrow> u64 \<Rightarrow> sig_verifier \<Rightarrow> ocsp_checker revocation_result" where
  "ocsp_checker_new cd response_der now_unix verifier =
     and_then (parse_basic_response cd response_der) (\<lambda>basic.
       Ok \<lparr> oc_basic = basic, oc_now_unix = now_unix, oc_verifier = verifier \<rparr>)"

definition hash_certid_input ::
  "'x revocation_codec_scheme \<Rightarrow> oid \<Rightarrow> bytes \<Rightarrow> bytes revocation_result" where
  "hash_certid_input cd oid data =
     (if oid = OID_SHA1 then Ok (sha1 cd data)
      else if oid = OID_SHA256 then Ok (sha256 cd data)
      else if oid = OID_SHA384 then Ok (sha384 cd data)
      else if oid = OID_SHA512 then Ok (sha512 cd data)
      else Err OcspMalformed)"

fun responder_id_matches ::
  "'x revocation_codec_scheme \<Rightarrow> responder_id \<Rightarrow> dname \<Rightarrow> bytes \<Rightarrow> bool" where
  "responder_id_matches cd (ByName name) subj spki_raw = names_match name subj"
| "responder_id_matches cd (ByKey key_hash) subj spki_raw = (key_hash = sha1 cd spki_raw)"

definition cert_has_ocsp_signing_eku :: "'x x509_codec_scheme \<Rightarrow> certificate \<Rightarrow> bool revocation_result" where
  "cert_has_ocsp_signing_eku cd cert =
     (case find_ext cert OID_EXTENDED_KEY_USAGE of
        None \<Rightarrow> Ok False
      | Some extn \<Rightarrow>
          and_then (map_err (\<lambda>_. OcspResponderEkuMalformed) (dec_extended_key_usage cd (extn_value extn)))
            (\<lambda>eku. Ok (OID_KP_OCSP_SIGNING \<in> set eku)))"

definition validate_delegate_responder_cert ::
  "'x revocation_codec_scheme \<Rightarrow> certificate \<Rightarrow> dname \<Rightarrow> spki \<Rightarrow> sig_verifier \<Rightarrow> u64
    \<Rightarrow> unit revocation_result" where
  "validate_delegate_responder_cert cd delegate issuer_subject issuer_spki verifier produced_at_unix =
     (if \<not> names_match (issuer (tbs delegate)) issuer_subject then Err OcspResponderCertNotIssuedByCa
      else and_then (cert_has_ocsp_signing_eku cd delegate) (\<lambda>has_eku.
        if \<not> has_eku then Err OcspResponderEkuMissing
        else if produced_at_unix < not_before (tbs_validity (tbs delegate)) \<or>
                produced_at_unix > not_after (tbs_validity (tbs delegate))
        then Err OcspResponderCertExpired
        else and_then (map_err OcspParseError (enc_tbs cd (tbs delegate))) (\<lambda>tbs_bytes.
          map_err (\<lambda>_. OcspResponderCertSigInvalid)
            (verifier (signature_algorithm delegate) issuer_spki tbs_bytes
              (raw_bytes (cert_signature delegate))))))"

text \<open>The loop over the embedded certificates stops at the first whose identity matches.\<close>

fun resolve_delegate ::
  "'x revocation_codec_scheme \<Rightarrow> responder_id \<Rightarrow> dname \<Rightarrow> spki \<Rightarrow> sig_verifier \<Rightarrow> u64
    \<Rightarrow> certificate list \<Rightarrow> spki revocation_result" where
  "resolve_delegate cd rid issuer_subject issuer_spki verifier produced_at_unix [] =
     Err OcspResponderIdMismatch"
| "resolve_delegate cd rid issuer_subject issuer_spki verifier produced_at_unix (delegate # rest) =
     (if \<not> responder_id_matches cd rid (subject (tbs delegate))
            (raw_bytes (subject_public_key (subject_public_key_info (tbs delegate))))
      then resolve_delegate cd rid issuer_subject issuer_spki verifier produced_at_unix rest
      else and_then (validate_delegate_responder_cert cd delegate issuer_subject issuer_spki verifier
                       produced_at_unix)
             (\<lambda>_. Ok (subject_public_key_info (tbs delegate))))"

definition resolve_signing_key_for_response ::
  "'x revocation_codec_scheme \<Rightarrow> basic_ocsp_response \<Rightarrow> dname \<Rightarrow> spki \<Rightarrow> bytes \<Rightarrow> sig_verifier \<Rightarrow> u64
    \<Rightarrow> spki revocation_result" where
  "resolve_signing_key_for_response cd basic issuer_subject issuer_spki issuer_spki_raw verifier
       produced_at_unix =
     (let rid = rd_responder_id (tbs_response_data basic)
      in if responder_id_matches cd rid issuer_subject issuer_spki_raw then Ok issuer_spki
         else resolve_delegate cd rid issuer_subject issuer_spki verifier produced_at_unix
                (unwrap_or [] (ocsp_certs basic)))"

definition check_cert_id ::
  "'x revocation_codec_scheme \<Rightarrow> cert_id \<Rightarrow> dname \<Rightarrow> spki \<Rightarrow> unit revocation_result" where
  "check_cert_id cd cid issuer_subject issuer_spki =
     (let hash_oid = alg_oid (hash_algorithm cid)
      in and_then (map_err OcspParseError (enc_name cd issuer_subject)) (\<lambda>name_der.
         and_then (hash_certid_input cd hash_oid name_der) (\<lambda>expected_name_hash.
         and_then (hash_certid_input cd hash_oid (raw_bytes (subject_public_key issuer_spki))) (\<lambda>expected_key_hash.
           if issuer_name_hash cid \<noteq> expected_name_hash \<or> issuer_key_hash cid \<noteq> expected_key_hash
           then Err OcspCertIdMismatch else Ok ()))))"

definition check_ocsp_window ::
  "basic_ocsp_response \<Rightarrow> single_response \<Rightarrow> u64 \<Rightarrow> unit revocation_result" where
  "check_ocsp_window basic single now_unix =
     (if now_unix < produced_at (tbs_response_data basic) then Err OcspMalformed
      else if now_unix < sr_this_update single then Err OcspExpired
      else and_then (ok_or OcspExpired (sr_next_update single)) (\<lambda>next_update.
        if now_unix > next_update then Err OcspExpired else Ok ()))"

definition status_result :: "bytes \<Rightarrow> cert_status \<Rightarrow> unit revocation_result" where
  "status_result cert_serial status =
     (case status of
        Good \<Rightarrow> Ok ()
      | Revoked_status reason \<Rightarrow> Err (Revoked cert_serial reason)
      | Unknown \<Rightarrow> Err OcspStatusUnknown)"

definition verify_response_signature ::
  "'x revocation_codec_scheme \<Rightarrow> sig_verifier \<Rightarrow> basic_ocsp_response \<Rightarrow> spki \<Rightarrow> unit revocation_result" where
  "verify_response_signature cd verifier basic signing_spki =
     and_then (map_err OcspParseError (enc_response_data cd (tbs_response_data basic))) (\<lambda>tbs_bytes.
       map_err (\<lambda>_. OcspSignatureInvalid)
         (verifier (ocsp_signature_algorithm basic) signing_spki tbs_bytes (raw_bytes (ocsp_signature basic))))"

text \<open>The first entry for the certificate's serial number.\<close>

definition find_single :: "basic_ocsp_response \<Rightarrow> certificate \<Rightarrow> single_response option" where
  "find_single basic cert =
     find (\<lambda>r. cid_serial_number (sr_cert_id r) = serial_number (tbs cert)) (responses (tbs_response_data basic))"

text \<open>Both trait methods past their first check, for an issuer given by its name and key.\<close>

definition ocsp_determine ::
  "'x revocation_codec_scheme \<Rightarrow> ocsp_checker \<Rightarrow> certificate \<Rightarrow> dname \<Rightarrow> spki \<Rightarrow> unit revocation_result" where
  "ocsp_determine cd ck cert issuer_subject issuer_spki =
     (let basic = oc_basic ck
      in and_then (resolve_signing_key_for_response cd basic issuer_subject issuer_spki
            (raw_bytes (subject_public_key issuer_spki)) (oc_verifier ck)
            (produced_at (tbs_response_data basic))) (\<lambda>signing_spki.
         and_then (verify_response_signature cd (oc_verifier ck) basic signing_spki) (\<lambda>_.
         and_then (ok_or OcspStatusUnknown (find_single basic cert)) (\<lambda>single.
         and_then (check_cert_id cd (sr_cert_id single) issuer_subject issuer_spki) (\<lambda>_.
         and_then (check_ocsp_window basic single (oc_now_unix ck)) (\<lambda>_.
         status_result (serial_number (tbs cert)) (sr_cert_status single)))))))"

definition ocsp_check_revocation ::
  "'x revocation_codec_scheme \<Rightarrow> ocsp_checker \<Rightarrow> certificate \<Rightarrow> certificate \<Rightarrow> unit revocation_result" where
  "ocsp_check_revocation cd ck cert iss =
     (if \<not> names_match (subject (tbs iss)) (issuer (tbs cert)) then Err OcspIssuerCertMismatch
      else ocsp_determine cd ck cert (subject (tbs iss)) (subject_public_key_info (tbs iss)))"

definition ocsp_check_revocation_against_anchor ::
  "'x revocation_codec_scheme \<Rightarrow> ocsp_checker \<Rightarrow> certificate \<Rightarrow> trust_anchor \<Rightarrow> unit revocation_result" where
  "ocsp_check_revocation_against_anchor cd ck cert anchor =
     (if \<not> names_match (ta_subject anchor) (issuer (tbs cert)) then Err OcspIssuerCertMismatch
      else ocsp_determine cd ck cert (ta_subject anchor) (ta_spki anchor))"

definition ocsp_revocation_checker :: "'x revocation_codec_scheme \<Rightarrow> ocsp_checker \<Rightarrow> revocation_checker" where
  "ocsp_revocation_checker cd ck =
     \<lparr> check_revocation = ocsp_check_revocation cd ck,
       check_revocation_against_anchor = ocsp_check_revocation_against_anchor cd ck \<rparr>"

section \<open>What a determination rests on\<close>

text \<open>A designated responder: issued by the same CA, for that purpose, valid when the response was made.\<close>

definition designated ::
  "'x revocation_codec_scheme \<Rightarrow> sig_verifier \<Rightarrow> dname \<Rightarrow> spki \<Rightarrow> u64 \<Rightarrow> certificate \<Rightarrow> bool" where
  "designated cd v name key at d \<longleftrightarrow>
     names_match (issuer (tbs d)) name \<and>
     (\<exists>ext eku. find_ext d OID_EXTENDED_KEY_USAGE = Some ext \<and>
        dec_extended_key_usage cd (extn_value ext) = Ok eku \<and> OID_KP_OCSP_SIGNING \<in> set eku) \<and>
     not_before (tbs_validity (tbs d)) \<le> at \<and> at \<le> not_after (tbs_validity (tbs d)) \<and>
     (\<exists>m. enc_tbs cd (tbs d) = Ok m \<and> v (signature_algorithm d) key m (raw_bytes (cert_signature d)) = Ok ())"

lemma validate_delegate_Ok:
  "validate_delegate_responder_cert cd d name key v at = Inr u \<longleftrightarrow> designated cd v name key at d"
  by (auto simp: validate_delegate_responder_cert_def designated_def cert_has_ocsp_signing_eku_def
      and_then_Ok_iff not_less split: option.splits)

lemma resolve_delegate_Ok:
  "resolve_delegate cd rid name key v at certs = Inr k \<Longrightarrow>
     \<exists>d\<in>set certs. k = subject_public_key_info (tbs d) \<and> designated cd v name key at d \<and>
       responder_id_matches cd rid (subject (tbs d)) (raw_bytes (subject_public_key k))"
  by (induction cd rid name key v at certs rule: resolve_delegate.induct)
    (auto simp: and_then_Ok_iff validate_delegate_Ok split: if_splits)

text \<open>The keys that may sign a response of the issuer \<open>name\<close> with \<open>key\<close>.\<close>

definition response_key ::
  "'x revocation_codec_scheme \<Rightarrow> sig_verifier \<Rightarrow> basic_ocsp_response \<Rightarrow> dname \<Rightarrow> spki \<Rightarrow> spki \<Rightarrow> bool" where
  "response_key cd v basic name key k \<longleftrightarrow>
     (k = key \<and> responder_id_matches cd (rd_responder_id (tbs_response_data basic)) name
        (raw_bytes (subject_public_key key))) \<or>
     (\<exists>d\<in>set (unwrap_or [] (ocsp_certs basic)).
        k = subject_public_key_info (tbs d) \<and>
        designated cd v name key (produced_at (tbs_response_data basic)) d \<and>
        responder_id_matches cd (rd_responder_id (tbs_response_data basic)) (subject (tbs d))
          (raw_bytes (subject_public_key k)))"

definition response_signed :: "'x revocation_codec_scheme \<Rightarrow> sig_verifier \<Rightarrow> basic_ocsp_response \<Rightarrow> spki \<Rightarrow> bool" where
  "response_signed cd v basic k \<longleftrightarrow>
     (\<exists>m. enc_response_data cd (tbs_response_data basic) = Ok m \<and>
        v (ocsp_signature_algorithm basic) k m (raw_bytes (ocsp_signature basic)) = Ok ())"

definition cert_id_matches :: "'x revocation_codec_scheme \<Rightarrow> cert_id \<Rightarrow> dname \<Rightarrow> spki \<Rightarrow> bool" where
  "cert_id_matches cd cid name key \<longleftrightarrow>
     (\<exists>der. enc_name cd name = Ok der \<and>
        hash_certid_input cd (alg_oid (hash_algorithm cid)) der = Ok (issuer_name_hash cid) \<and>
        hash_certid_input cd (alg_oid (hash_algorithm cid)) (raw_bytes (subject_public_key key)) =
          Ok (issuer_key_hash cid))"

definition response_fresh :: "basic_ocsp_response \<Rightarrow> single_response \<Rightarrow> u64 \<Rightarrow> bool" where
  "response_fresh basic single now \<longleftrightarrow>
     produced_at (tbs_response_data basic) \<le> now \<and> sr_this_update single \<le> now \<and>
     (\<exists>n. sr_next_update single = Some n \<and> now \<le> n)"

lemma check_cert_id_Ok: "check_cert_id cd cid name key = Inr u \<longleftrightarrow> cert_id_matches cd cid name key"
  by (auto simp: check_cert_id_def cert_id_matches_def and_then_Ok_iff Let_def)

lemma check_ocsp_window_Ok: "check_ocsp_window basic single now = Inr u \<longleftrightarrow> response_fresh basic single now"
  by (auto simp: check_ocsp_window_def response_fresh_def and_then_Ok_iff not_less)

lemma verify_response_signature_Ok:
  "verify_response_signature cd v basic k = Inr u \<longleftrightarrow> response_signed cd v basic k"
  by (auto simp: verify_response_signature_def response_signed_def and_then_Ok_iff)

lemma resolve_signing_key_Ok:
  "resolve_signing_key_for_response cd basic name key (raw_bytes (subject_public_key key)) v
      (produced_at (tbs_response_data basic)) = Inr k \<Longrightarrow> response_key cd v basic name key k"
  by (auto simp: resolve_signing_key_for_response_def response_key_def Let_def
      split: if_splits dest!: resolve_delegate_Ok)

lemma ocsp_no_verdict_delegate:
  "validate_delegate_responder_cert cd d name key v at = Inl e \<Longrightarrow> verdict (Inl e) = None"
  by (auto simp: validate_delegate_responder_cert_def cert_has_ocsp_signing_eku_def and_then_Err_iff map_err_def
      split: option.splits sum.splits if_splits)

lemma ocsp_no_verdict_resolve:
  "resolve_delegate cd rid name key v at certs = Inl e \<Longrightarrow> verdict (Inl e) = None"
  by (induction cd rid name key v at certs rule: resolve_delegate.induct)
    (auto simp: and_then_Err_iff split: if_splits dest: ocsp_no_verdict_delegate)

lemma ocsp_no_verdict:
  "resolve_signing_key_for_response cd basic name key raw v at = Inl e \<Longrightarrow> verdict (Inl e) = None"
  "verify_response_signature cd v basic k = Inl e \<Longrightarrow> verdict (Inl e) = None"
  "ok_or OcspStatusUnknown q = Inl e \<Longrightarrow> verdict (Inl e) = None"
  "check_cert_id cd cid name key = Inl e \<Longrightarrow> verdict (Inl e) = None"
  "check_ocsp_window basic single now = Inl e \<Longrightarrow> verdict (Inl e) = None"
  by (auto simp: resolve_signing_key_for_response_def verify_response_signature_def check_cert_id_def
      hash_certid_input_def check_ocsp_window_def and_then_Err_iff map_err_def ok_or_def Let_def
      split: if_splits sum.splits option.splits dest: ocsp_no_verdict_resolve)

lemma ocsp_determine_verdict:
  assumes "verdict (ocsp_determine cd ck cert name key) = Some b"
  shows "\<exists>k single. response_key cd (oc_verifier ck) (oc_basic ck) name key k \<and>
     response_signed cd (oc_verifier ck) (oc_basic ck) k \<and>
     find_single (oc_basic ck) cert = Some single \<and> cert_id_matches cd (sr_cert_id single) name key \<and>
     response_fresh (oc_basic ck) single (oc_now_unix ck) \<and>
     sr_cert_status single \<noteq> Unknown \<and> (b \<longleftrightarrow> sr_cert_status single \<noteq> Good)"
proof -
  from assms obtain k single where
    "resolve_signing_key_for_response cd (oc_basic ck) name key (raw_bytes (subject_public_key key))
        (oc_verifier ck) (produced_at (tbs_response_data (oc_basic ck))) = Inr k"
    "response_signed cd (oc_verifier ck) (oc_basic ck) k"
    "find_single (oc_basic ck) cert = Some single" "cert_id_matches cd (sr_cert_id single) name key"
    "response_fresh (oc_basic ck) single (oc_now_unix ck)"
    and status: "verdict (status_result (serial_number (tbs cert)) (sr_cert_status single)) = Some b"
    unfolding ocsp_determine_def Let_def
    by (auto simp: verdict_and_then [OF ocsp_no_verdict(1)] verdict_and_then [OF ocsp_no_verdict(2)]
        verdict_and_then [OF ocsp_no_verdict(3)] verdict_and_then [OF ocsp_no_verdict(4)]
        verdict_and_then [OF ocsp_no_verdict(5)] check_cert_id_Ok check_ocsp_window_Ok verify_response_signature_Ok)
  moreover have "sr_cert_status single \<noteq> Unknown \<and> (b \<longleftrightarrow> sr_cert_status single \<noteq> Good)"
    using status by (cases "sr_cert_status single") (auto simp: status_result_def)
  ultimately show ?thesis using resolve_signing_key_Ok by blast
qed

text \<open>What a response lists: certificates whose first entry is not \<open>Good\<close>.\<close>

definition ocsp_lists :: "ocsp_checker \<Rightarrow> certificate \<Rightarrow> bool" where
  "ocsp_lists ck cert \<longleftrightarrow> (\<exists>single. find_single (oc_basic ck) cert = Some single \<and> sr_cert_status single \<noteq> Good)"

interpretation ocsp: revocation_source "ocsp_revocation_checker cd ck" "\<lambda>_. ocsp_lists ck" for cd ck
  by unfold_locales
    (auto simp: ocsp_revocation_checker_def ocsp_check_revocation_def ocsp_check_revocation_against_anchor_def
      ocsp_lists_def Ok_verdict split: if_splits dest!: ocsp_determine_verdict)

section \<open>Properties\<close>

text \<open>An example response by entity 1, direct or through the designated responder 8.\<close>

definition ex_single :: "u8 \<Rightarrow> cert_status \<Rightarrow> single_response" where
  "ex_single serial status =
     \<lparr> sr_cert_id = \<lparr> hash_algorithm = \<lparr> alg_oid = OID_SHA1, alg_parameters = None \<rparr>,
         issuer_name_hash = [1, 1], issuer_key_hash = [1, 1], cid_serial_number = [serial] \<rparr>,
       sr_cert_status = status, sr_this_update = 120, sr_next_update = Some 180, single_extensions = None \<rparr>"

definition ex_basic :: "responder_id \<Rightarrow> u8 \<Rightarrow> single_response list \<Rightarrow> certificate list \<Rightarrow> basic_ocsp_response" where
  "ex_basic rid signer rs certs =
     \<lparr> tbs_response_data = \<lparr> rd_responder_id = rid, produced_at = 130, responses = rs, response_extensions = None \<rparr>,
       ocsp_signature_algorithm = \<lparr> alg_oid = [1, 9], alg_parameters = None \<rparr>,
       ocsp_signature = \<lparr> raw_bytes = [0xDD, signer], unused_bits = 0 \<rparr>, ocsp_certs = Some certs \<rparr>"

definition ex_ocsp_codec :: revocation_codec where
  "ex_ocsp_codec = identity_codec.extend ex_identity_codec
     (revocation_codec.fields
        (table_dec []) (\<lambda>t. Ok [0xCC]) (\<lambda>b. Ok b) (table_dec []) (table_dec []) (table_dec [])
        (table_dec []) (table_dec []) (\<lambda>t. Ok [0xDD])
        (\<lambda>n. Ok (concat (concat (map (map (\<lambda>a. any_value (ava_value a))) n))))
        (\<lambda>b. 1 # b) (\<lambda>b. 2 # b) (\<lambda>b. 3 # b) (\<lambda>b. 4 # b))
     \<lparr> dec_extended_key_usage := table_dec [([9], [OID_KP_OCSP_SIGNING])] \<rparr>"

definition ex_responder :: certificate where
  "ex_responder = ex_cert 8 1 [ex_ext OID_EXTENDED_KEY_USAGE [9]]"

definition ex_ocsp :: "basic_ocsp_response \<Rightarrow> ocsp_checker" where
  "ex_ocsp basic = \<lparr> oc_basic = basic, oc_now_unix = 150, oc_verifier = ex_verifier \<rparr>"

text \<open>
  C12. The OCSP checker determines a certificate's status only from a response that is signed by the
  certificate's issuer or by a responder this issuer designated (a certificate it issued and signed
  for OCSP signing, valid when the response was made), that is neither stale nor from the future, and
  whose first entry for the serial number carries the hashes of the issuer's name and key; the
  determination is that entry's status.
\<close>

theorem ocsp_verdict_authentic:
  assumes "verdict (ocsp_check_revocation cd ck cert iss) = Some b"
  shows "names_match (subject (tbs iss)) (issuer (tbs cert)) \<and>
     (\<exists>k single.
        response_key cd (oc_verifier ck) (oc_basic ck) (subject (tbs iss)) (subject_public_key_info (tbs iss)) k \<and>
        response_signed cd (oc_verifier ck) (oc_basic ck) k \<and>
        find_single (oc_basic ck) cert = Some single \<and>
        cert_id_matches cd (sr_cert_id single) (subject (tbs iss)) (subject_public_key_info (tbs iss)) \<and>
        response_fresh (oc_basic ck) single (oc_now_unix ck) \<and>
        sr_cert_status single \<noteq> Unknown \<and> (b \<longleftrightarrow> sr_cert_status single \<noteq> Good))"
  using assms ocsp_determine_verdict
  by (auto simp: ocsp_check_revocation_def split: if_splits)

theorem ocsp_verdict_authentic_witness:
  "\<exists>k. response_key ex_ocsp_codec ex_verifier (ex_basic (ByKey [1, 8]) 8 [ex_single 5 Good] [ex_responder])
      (ex_name 1) (ex_key 1) k \<and>
     response_signed ex_ocsp_codec ex_verifier (ex_basic (ByKey [1, 8]) 8 [ex_single 5 Good] [ex_responder]) k"
proof -
  let ?ck = "ex_ocsp (ex_basic (ByKey [1, 8]) 8 [ex_single 5 Good] [ex_responder])"
  have "verdict (ocsp_check_revocation ex_ocsp_codec ?ck (ex_cert 5 1 []) (ex_ca 1 0 [])) = Some False"
    by code_simp
  moreover have "subject (tbs (ex_ca 1 0 [])) = ex_name 1" "subject_public_key_info (tbs (ex_ca 1 0 [])) = ex_key 1"
    "oc_verifier ?ck = ex_verifier" "oc_basic ?ck = ex_basic (ByKey [1, 8]) 8 [ex_single 5 Good] [ex_responder]"
    by (simp_all add: ex_ca_def ex_cert_def ex_ocsp_def)
  ultimately show ?thesis using ocsp_verdict_authentic by metis
qed

text \<open>
  Only the serial number selects the entry: a response that answers for another CA's certificate of
  the same serial number first is refused, although the right entry follows.
\<close>

lemma ocsp_first_serial_decides:
  "ocsp_check_revocation ex_ocsp_codec (ex_ocsp (ex_basic (ByName (ex_name 1)) 1
       [ex_single 5 Good \<lparr> sr_cert_id := (sr_cert_id (ex_single 5 Good))\<lparr> issuer_key_hash := [1, 2] \<rparr> \<rparr>,
        ex_single 5 Good] [])) (ex_cert 5 1 []) (ex_ca 1 0 []) = Err OcspCertIdMismatch"
  by code_simp

end
