(* ===== verification/Aia.thy ===== *)
theory Aia
  imports Revocation
begin

text \<open>
  Fetching of issuer certificates: the error type, the fetcher trait and its null implementation of
  \<open>pkix-aia/src/lib.rs\<close>, and the extraction of \<open>caIssuers\<close> URIs of \<open>pkix-chain/src/aia_extract.rs\<close>. A
  fetcher is code outside the repository: a parameter, given by what its two methods return.
\<close>

section \<open>Errors\<close>

text \<open>
  \<open>std::io::ErrorKind\<close>: the variants the deserialiser knows, and one constructor for the variants newer
  compilers add, by name.
\<close>

datatype io_error_kind =
    NotFound
  | PermissionDenied
  | ConnectionRefused
  | ConnectionReset
  | ConnectionAborted
  | NotConnected
  | AddrInUse
  | AddrNotAvailable
  | BrokenPipe
  | AlreadyExists
  | WouldBlock
  | InvalidInput
  | InvalidData
  | TimedOut
  | WriteZero
  | Interrupted
  | Unsupported
  | UnexpectedEof
  | OutOfMemory
  | Other_kind
  | Newer_kind string

text \<open>The derived \<open>Debug\<close> rendering, which is what the serialiser writes.\<close>

fun io_kind_label :: "io_error_kind \<Rightarrow> string" where
  "io_kind_label NotFound = ''NotFound''"
| "io_kind_label PermissionDenied = ''PermissionDenied''"
| "io_kind_label ConnectionRefused = ''ConnectionRefused''"
| "io_kind_label ConnectionReset = ''ConnectionReset''"
| "io_kind_label ConnectionAborted = ''ConnectionAborted''"
| "io_kind_label NotConnected = ''NotConnected''"
| "io_kind_label AddrInUse = ''AddrInUse''"
| "io_kind_label AddrNotAvailable = ''AddrNotAvailable''"
| "io_kind_label BrokenPipe = ''BrokenPipe''"
| "io_kind_label AlreadyExists = ''AlreadyExists''"
| "io_kind_label WouldBlock = ''WouldBlock''"
| "io_kind_label InvalidInput = ''InvalidInput''"
| "io_kind_label InvalidData = ''InvalidData''"
| "io_kind_label TimedOut = ''TimedOut''"
| "io_kind_label WriteZero = ''WriteZero''"
| "io_kind_label Interrupted = ''Interrupted''"
| "io_kind_label Unsupported = ''Unsupported''"
| "io_kind_label UnexpectedEof = ''UnexpectedEof''"
| "io_kind_label OutOfMemory = ''OutOfMemory''"
| "io_kind_label Other_kind = ''Other''"
| "io_kind_label (Newer_kind label) = label"

definition io_kinds :: "io_error_kind list" where
  "io_kinds = [NotFound, PermissionDenied, ConnectionRefused, ConnectionReset, ConnectionAborted,
     NotConnected, AddrInUse, AddrNotAvailable, BrokenPipe, AlreadyExists, WouldBlock, InvalidInput,
     InvalidData, TimedOut, WriteZero, Interrupted, Unsupported, UnexpectedEof, OutOfMemory]"

definition kind_for :: "string \<Rightarrow> io_error_kind" where
  "kind_for label =
     (case find (\<lambda>k. io_kind_label k = label) io_kinds of
        Some k \<Rightarrow> k
      | None \<Rightarrow> Other_kind)"

datatype aia_error =
    FetchingDisabled
  | HttpStatus u16
  | ResponseTooLarge (limit: nat) (actual: nat)
  | MalformedCertificate_aia string
  | Timeout
  | UriUnsupported string
  | IoFailure io_error_kind string

fun display_aia_error :: "aia_error \<Rightarrow> string" where
  "display_aia_error FetchingDisabled = ''AIA fetching is disabled''"
| "display_aia_error (HttpStatus code) = ''AIA fetch returned HTTP status '' @ show_nat (unat code)"
| "display_aia_error (ResponseTooLarge lim act) =
     ''AIA response exceeded size cap: limit '' @ show_nat lim @ '' bytes, observed ''
       @ show_nat act @ '' bytes''"
| "display_aia_error (MalformedCertificate_aia msg) =
     ''AIA-fetched bytes did not parse as a certificate: '' @ msg"
| "display_aia_error Timeout = ''AIA fetch timed out''"
| "display_aia_error (UriUnsupported uri) = ''AIA URI scheme not supported: '' @ uri"
| "display_aia_error (IoFailure kind message) =
     ''AIA fetch I/O failure ('' @ io_kind_label kind @ ''): '' @ message"

section \<open>The trait AiaFetcher\<close>

record aia_fetcher =
  fetch :: "string \<Rightarrow> aia_error + bytes"
  batch_fetch :: "string list \<Rightarrow> (aia_error + bytes) list"

text \<open>The default \<open>batch_fetch\<close> of the trait, and the fetcher that inherits it.\<close>

definition default_batch_fetch :: "(string \<Rightarrow> aia_error + bytes) \<Rightarrow> string list \<Rightarrow> (aia_error + bytes) list" where
  "default_batch_fetch f uris = map f uris"

definition no_aia_fetcher :: aia_fetcher where
  "no_aia_fetcher =
     \<lparr> fetch = (\<lambda>uri. Err FetchingDisabled), batch_fetch = default_batch_fetch (\<lambda>uri. Err FetchingDisabled) \<rparr>"

section \<open>The caIssuers URIs of a certificate\<close>

definition OID_AUTHORITY_INFO_ACCESS :: oid where "OID_AUTHORITY_INFO_ACCESS = [1, 3, 6, 1, 5, 5, 7, 1, 1]"
definition OID_AD_CA_ISSUERS :: oid where "OID_AD_CA_ISSUERS = [1, 3, 6, 1, 5, 5, 7, 48, 2]"

record access_description =
  access_method :: oid
  access_location :: general_name

record chain_codec = revocation_codec +
  dec_aia :: "bytes \<Rightarrow> der_error + access_description list"
  dec_certificate :: "bytes \<Rightarrow> der_error + certificate"

definition lower_prefix :: "string \<Rightarrow> string \<Rightarrow> bool" where
  "lower_prefix uri p \<longleftrightarrow> length uri > length p \<and> map ascii_lower (take (length p) uri) = p"

definition is_http_scheme :: "string \<Rightarrow> bool" where
  "is_http_scheme uri \<longleftrightarrow> lower_prefix uri ''http://'' \<or> lower_prefix uri ''https://''"

fun http_uri :: "access_description \<Rightarrow> string option" where
  "http_uri ad =
     (if access_method ad \<noteq> OID_AD_CA_ISSUERS then None
      else case access_location ad of
             UniformResourceIdentifier uri \<Rightarrow> if is_http_scheme uri then Some uri else None
           | _ \<Rightarrow> None)"

definition ca_issuers_http_uris :: "'x chain_codec_scheme \<Rightarrow> certificate \<Rightarrow> string list" where
  "ca_issuers_http_uris cd cert =
     (case find_cert_ext (dec_aia cd) cert OID_AUTHORITY_INFO_ACCESS of
        None \<Rightarrow> []
      | Some aia \<Rightarrow> List.map_filter http_uri aia)"

section \<open>Lemmas\<close>

text \<open>Every kind the deserialiser knows survives; the others become \<open>Other\<close>.\<close>

lemma kind_for_label:
  "kind_for (io_kind_label k) = (case k of Newer_kind l \<Rightarrow> kind_for l | _ \<Rightarrow> k)"
  by (cases k) (simp_all add: kind_for_def io_kinds_def)

lemma ca_issuers_http:
  assumes "u \<in> set (ca_issuers_http_uris cd cert)"
  shows "is_http_scheme u"
  using assms
  by (auto simp: ca_issuers_http_uris_def List.map_filter_def split: option.splits general_name.splits if_splits)

lemma batch_fetch_no_aia: "batch_fetch no_aia_fetcher uris = map (\<lambda>_. Err FetchingDisabled) uris"
  by (simp add: no_aia_fetcher_def default_batch_fetch_def)

end
