(* ===== verification/Chain.thy ===== *)
theory Chain
  imports PathBuilder Backends Identity Crl Ocsp Aia
begin

text \<open>
  The top-level crate, \<open>pkix-chain/src/lib.rs\<close>: \<open>Verifier\<close> composes path validation, the path builder,
  AIA fetching and revocation checking, and the purpose-specific entry points add the binding of the
  leaf to an identity or to a role. Calls of the path builder can panic in the model (\<open>None\<close>); the
  lemmas show that none does.
\<close>

section \<open>Errors\<close>

datatype chain_error =
    Path path_error
  | Revocation revocation_error
  | Identity identity_error
  | ProfileViolation string
  | OcspDelegation string
  | Aia aia_error
  | PathBuild builder_error
  | AiaDepthExceeded

type_synonym 'a chain_result = "chain_error + 'a"

definition AIA_MAX_DEPTH :: nat where "AIA_MAX_DEPTH = 5"

fun display_chain_error :: "(bytes \<Rightarrow> string) \<Rightarrow> chain_error \<Rightarrow> string" where
  "display_chain_error show_serial (Path e) = ''path validation: '' @ display_path_error e"
| "display_chain_error show_serial (Revocation e) = ''revocation: '' @ display_revocation_error show_serial e"
| "display_chain_error show_serial (Identity e) = ''identity binding: '' @ display_identity_error e"
| "display_chain_error show_serial (ProfileViolation reason) = ''profile violation: '' @ reason"
| "display_chain_error show_serial (OcspDelegation reason) = ''ocsp responder delegation: '' @ reason"
| "display_chain_error show_serial (Aia e) = ''aia fetch: '' @ display_aia_error e"
| "display_chain_error show_serial (PathBuild e) = ''path build: '' @ display_builder_error e"
| "display_chain_error show_serial AiaDepthExceeded =
     ''aia fetch recursion cap reached ('' @ show_nat AIA_MAX_DEPTH @ '' iterations)''"

text \<open>The error below, for the variants that wrap one.\<close>

datatype error_source =
    PathSource path_error
  | RevocationSource revocation_error
  | IdentitySource identity_error
  | AiaSource aia_error
  | PathBuildSource builder_error

fun chain_error_source :: "chain_error \<Rightarrow> error_source option" where
  "chain_error_source (Path e) = Some (PathSource e)"
| "chain_error_source (Revocation e) = Some (RevocationSource e)"
| "chain_error_source (Identity e) = Some (IdentitySource e)"
| "chain_error_source (Aia e) = Some (AiaSource e)"
| "chain_error_source (PathBuild e) = Some (PathBuildSource e)"
| "chain_error_source (ProfileViolation _) = None"
| "chain_error_source (OcspDelegation _) = None"
| "chain_error_source AiaDepthExceeded = None"

definition is_aia_recoverable :: "path_error \<Rightarrow> bool" where
  "is_aia_recoverable e =
     (case e of ChainBroken _ \<Rightarrow> True | NoTrustedPath \<Rightarrow> True | SignatureInvalid _ \<Rightarrow> True | _ \<Rightarrow> False)"

text \<open>The \<open>?\<close> operator behind a call that can panic.\<close>

definition panic_then :: "('e + 'a) option \<Rightarrow> ('a \<Rightarrow> ('e + 'b) option) \<Rightarrow> ('e + 'b) option" where
  "panic_then r f =
     (case r of
        None \<Rightarrow> None
      | Some (Inl e) \<Rightarrow> Some (Err e)
      | Some (Inr x) \<Rightarrow> f x)"

text \<open>The indexing \<open>xs[i]\<close>, which panics out of range.\<close>

definition index_or_panic :: "'a list \<Rightarrow> nat \<Rightarrow> ('a \<Rightarrow> 'b option) \<Rightarrow> 'b option" where
  "index_or_panic xs i f = (if i < length xs then f (xs ! i) else None)"

section \<open>The verifier\<close>

record chain_verifier =
  cv_anchors :: "trust_anchor list"
  cv_sig_verifier :: sig_verifier
  cv_rev_checker :: revocation_checker
  cv_policy :: validation_policy
  cv_aia :: aia_fetcher

definition verifier_new ::
  "trust_anchor list \<Rightarrow> sig_verifier \<Rightarrow> revocation_checker \<Rightarrow> validation_policy \<Rightarrow> aia_fetcher \<Rightarrow> chain_verifier" where
  "verifier_new anchors sig_verifier rev_checker policy aia =
     \<lparr> cv_anchors = anchors, cv_sig_verifier = sig_verifier, cv_rev_checker = rev_checker,
       cv_policy = policy, cv_aia = aia \<rparr>"

definition verifier_new_no_aia ::
  "trust_anchor list \<Rightarrow> sig_verifier \<Rightarrow> revocation_checker \<Rightarrow> validation_policy \<Rightarrow> chain_verifier" where
  "verifier_new_no_aia anchors sig_verifier rev_checker policy =
     verifier_new anchors sig_verifier rev_checker policy no_aia_fetcher"

text \<open>
  The loop over \<open>chain.iter().enumerate()\<close> from position \<open>i\<close>: every certificate against \<open>chain[i + 1]\<close>, the last
  against \<open>anchors[anchor_index]\<close>. \<open>None\<close> is the panic of an index out of range.
\<close>

fun revocation_loop ::
  "revocation_checker \<Rightarrow> trust_anchor list \<Rightarrow> nat \<Rightarrow> certificate list \<Rightarrow> nat \<Rightarrow> certificate list
    \<Rightarrow> unit revocation_result option" where
  "revocation_loop rc anchors anchor_index chain i [] = Some (Ok ())"
| "revocation_loop rc anchors anchor_index chain i (cert # rest) =
     panic_then
       (if i + 1 < length chain
        then index_or_panic chain (i + 1) (\<lambda>iss. Some (check_revocation rc cert iss))
        else index_or_panic anchors anchor_index (\<lambda>anchor. Some (check_revocation_against_anchor rc cert anchor)))
       (\<lambda>_. revocation_loop rc anchors anchor_index chain (i + 1) rest)"

definition run_revocation_checks ::
  "chain_verifier \<Rightarrow> certificate list \<Rightarrow> validated_path \<Rightarrow> unit chain_result option" where
  "run_revocation_checks vf chain validated =
     map_option (map_err Revocation)
       (revocation_loop (cv_rev_checker vf) (cv_anchors vf) (vp_anchor_index validated) chain 0 chain)"

definition issuer_resolvable :: "certificate \<Rightarrow> cert_pool \<Rightarrow> trust_anchor list \<Rightarrow> bool" where
  "issuer_resolvable cert pool anchors =
     (let target = issuer (tbs cert)
      in list_ex (\<lambda>c. names_match (subject (tbs c)) target) pool \<or>
         list_ex (\<lambda>a. names_match (ta_subject a) target) anchors)"

section \<open>Reassembly of a chain\<close>

text \<open>
  The state of the fetch loop. \<open>aia_requests\<close>, the batches handed to the fetcher in order, is not a
  variable of the code: it records the calls of \<open>batch_fetch\<close>.
\<close>

record aia_state =
  aia_pool :: cert_pool
  tried_uris :: "string set"
  last_aia_error :: "aia_error option"
  aia_requests :: "string list list"

text \<open>\<open>HashSet::insert\<close> in the loop over the URIs: only new ones are kept, in order.\<close>

fun collect_new :: "string set \<Rightarrow> string list \<Rightarrow> string list \<Rightarrow> string set \<times> string list" where
  "collect_new tried new_uris [] = (tried, new_uris)"
| "collect_new tried new_uris (uri # rest) =
     (if uri \<in> tried then collect_new tried new_uris rest
      else collect_new (insert uri tried) (new_uris @ [uri]) rest)"

definition orphan_uris :: "'x chain_codec_scheme \<Rightarrow> trust_anchor list \<Rightarrow> cert_pool \<Rightarrow> string list" where
  "orphan_uris cd anchors pool =
     concat (map (\<lambda>cert. if issuer_resolvable cert pool anchors then [] else ca_issuers_http_uris cd cert) pool)"

text \<open>The loop over the results: certificates join the pool, failures are remembered.\<close>

fun absorb ::
  "'x chain_codec_scheme \<Rightarrow> cert_pool \<Rightarrow> aia_error option \<Rightarrow> bool \<Rightarrow> (string \<times> (aia_error + bytes)) list
    \<Rightarrow> cert_pool \<times> aia_error option \<times> bool" where
  "absorb cd pool last_error added_any [] = (pool, last_error, added_any)"
| "absorb cd pool last_error added_any ((uri, Inr der) # rest) =
     (case dec_certificate cd der of
        Inr cert \<Rightarrow> absorb cd (cert_pool_add cert pool) last_error True rest
      | Inl e \<Rightarrow> absorb cd pool (Some (MalformedCertificate_aia (display_der_error e))) added_any rest)"
| "absorb cd pool last_error added_any ((uri, Inl e) # rest) = absorb cd pool (Some e) added_any rest"

text \<open>
  The part of an iteration after the builder found no path: the state it leaves, and the error it
  returns when it ends the loop.
\<close>

definition aia_fetch_round ::
  "'x chain_codec_scheme \<Rightarrow> chain_verifier \<Rightarrow> aia_state \<Rightarrow> aia_state \<times> chain_error option" where
  "aia_fetch_round cd vf st =
     (let (tried, new_uris) = collect_new (tried_uris st) [] (orphan_uris cd (cv_anchors vf) (aia_pool st))
      in if new_uris = []
         then (st, Some (case last_aia_error st of Some e \<Rightarrow> Aia e | None \<Rightarrow> PathBuild NoPathFound))
         else let results = batch_fetch (cv_aia vf) new_uris;
                  (pool, last_error, added_any) =
                    absorb cd (aia_pool st) (last_aia_error st) False (zip new_uris results);
                  st' = \<lparr> aia_pool = pool, tried_uris = tried, last_aia_error = last_error,
                          aia_requests = aia_requests st @ [new_uris] \<rparr>
              in (st', if added_any then None else Some (Aia (unwrap_or FetchingDisabled last_error))))"

text \<open>
  An attempt with the current pool: \<open>Some None\<close> when the builder finds no path, otherwise what
  \<open>build_with_aia\<close> returns.
\<close>

definition attempt_build ::
  "'x chain_codec_scheme \<Rightarrow> chain_verifier \<Rightarrow> certificate \<Rightarrow> cert_pool
    \<Rightarrow> certificate list chain_result option option" where
  "attempt_build cd vf leaf pool =
     (case build_first_valid_path cd leaf pool (cv_anchors vf) (cv_policy vf) (cv_sig_verifier vf) of
        None \<Rightarrow> None
      | Some (Inr built) \<Rightarrow> Some (Some (Ok built))
      | Some (Inl NoPathFound) \<Rightarrow> Some None
      | Some (Inl (NoValidPath _ _)) \<Rightarrow>
          map_option (\<lambda>r. Some (map_err PathBuild r)) (build_path cd leaf pool (cv_anchors vf))
      | Some (Inl e) \<Rightarrow> Some (Some (Err (PathBuild e))))"

text \<open>The attempt after the loop: every error but \<open>NoValidPath\<close> falls through to the depth error.\<close>

definition final_build ::
  "'x chain_codec_scheme \<Rightarrow> chain_verifier \<Rightarrow> certificate \<Rightarrow> cert_pool \<Rightarrow> certificate list chain_result option" where
  "final_build cd vf leaf pool =
     (case build_first_valid_path cd leaf pool (cv_anchors vf) (cv_policy vf) (cv_sig_verifier vf) of
        None \<Rightarrow> None
      | Some (Inr built) \<Rightarrow> Some (Ok built)
      | Some (Inl (NoValidPath _ _)) \<Rightarrow> map_option (map_err PathBuild) (build_path cd leaf pool (cv_anchors vf))
      | Some (Inl _) \<Rightarrow> Some (Err AiaDepthExceeded))"

primrec aia_loop ::
  "'x chain_codec_scheme \<Rightarrow> chain_verifier \<Rightarrow> certificate \<Rightarrow> nat \<Rightarrow> aia_state
    \<Rightarrow> certificate list chain_result option \<times> aia_state" where
  "aia_loop cd vf leaf 0 st = (final_build cd vf leaf (aia_pool st), st)"
| "aia_loop cd vf leaf (Suc n) st =
     (case attempt_build cd vf leaf (aia_pool st) of
        None \<Rightarrow> (None, st)
      | Some (Some r) \<Rightarrow> (Some r, st)
      | Some None \<Rightarrow>
          (case aia_fetch_round cd vf st of
             (st', Some e) \<Rightarrow> (Some (Err e), st')
           | (st', None) \<Rightarrow> aia_loop cd vf leaf n st'))"

definition aia_init :: "certificate list \<Rightarrow> aia_state" where
  "aia_init supplied_chain =
     \<lparr> aia_pool = cert_pool_extend supplied_chain cert_pool_new, tried_uris = {}, last_aia_error = None,
       aia_requests = [] \<rparr>"

definition build_with_aia ::
  "'x chain_codec_scheme \<Rightarrow> chain_verifier \<Rightarrow> certificate list
    \<Rightarrow> certificate list chain_result option \<times> aia_state" where
  "build_with_aia cd vf supplied_chain =
     (case supplied_chain of
        [] \<Rightarrow> (Some (Err (PathBuild NoPathFound)), aia_init supplied_chain)
      | leaf # _ \<Rightarrow> aia_loop cd vf leaf AIA_MAX_DEPTH (aia_init supplied_chain))"

section \<open>Verification of a chain\<close>

definition verify_one ::
  "'x chain_codec_scheme \<Rightarrow> chain_verifier \<Rightarrow> certificate list \<Rightarrow> validated_path chain_result option" where
  "verify_one cd vf chain =
     (case validate_path cd chain (cv_anchors vf) (cv_policy vf) (cv_sig_verifier vf) of
        Inr validated \<Rightarrow> panic_then (run_revocation_checks vf chain validated) (\<lambda>_. Some (Ok validated))
      | Inl e \<Rightarrow>
          if \<not> is_aia_recoverable e then Some (Err (Path e))
          else panic_then (fst (build_with_aia cd vf chain)) (\<lambda>built.
               panic_then (Some (map_err Path
                    (validate_path cd built (cv_anchors vf) (cv_policy vf) (cv_sig_verifier vf)))) (\<lambda>validated.
               panic_then (run_revocation_checks vf built validated) (\<lambda>_. Some (Ok validated)))))"

definition verify_batch ::
  "'x chain_codec_scheme \<Rightarrow> chain_verifier \<Rightarrow> certificate list list \<Rightarrow> validated_path chain_result option list" where
  "verify_batch cd vf chain_list = map (verify_one cd vf) chain_list"

definition verify_chain ::
  "'x chain_codec_scheme \<Rightarrow> certificate list \<Rightarrow> trust_anchor list \<Rightarrow> validation_policy \<Rightarrow> sig_verifier
    \<Rightarrow> revocation_checker \<Rightarrow> aia_fetcher \<Rightarrow> validated_path chain_result option" where
  "verify_chain cd chain anchors policy verifier revocation aia =
     verify_one cd (verifier_new anchors verifier revocation policy aia) chain"

definition verify_chain_default ::
  "'x chain_codec_scheme \<Rightarrow> crypto_backends \<Rightarrow> certificate list \<Rightarrow> trust_anchor list \<Rightarrow> validation_policy
    \<Rightarrow> revocation_checker \<Rightarrow> validated_path chain_result option" where
  "verify_chain_default cd cb chain anchors policy revocation =
     verify_chain cd chain anchors policy (default_verifier cb) revocation no_aia_fetcher"

section \<open>Purposes\<close>

text \<open>\<open>profile.policy(now_unix)\<close>: a profile is the function from the clock to a policy.\<close>

type_synonym profile = "u64 \<Rightarrow> validation_policy"

definition verify_tls_server ::
  "'x chain_codec_scheme \<Rightarrow> certificate list \<Rightarrow> trust_anchor list \<Rightarrow> server_name \<Rightarrow> profile \<Rightarrow> u64
    \<Rightarrow> sig_verifier \<Rightarrow> revocation_checker \<Rightarrow> aia_fetcher \<Rightarrow> validated_path chain_result option" where
  "verify_tls_server cd chain anchors name profile now_unix verifier revocation aia =
     panic_then (verify_chain cd chain anchors (profile now_unix) verifier revocation aia) (\<lambda>validated.
     index_or_panic chain 0 (\<lambda>leaf. Some
       (and_then (map_err Identity (verify_dns_name cd leaf name)) (\<lambda>_. Ok validated))))"

definition verify_tls_client_dns ::
  "'x chain_codec_scheme \<Rightarrow> certificate list \<Rightarrow> trust_anchor list \<Rightarrow> server_name option \<Rightarrow> profile \<Rightarrow> u64
    \<Rightarrow> sig_verifier \<Rightarrow> revocation_checker \<Rightarrow> aia_fetcher \<Rightarrow> validated_path chain_result option" where
  "verify_tls_client_dns cd chain anchors identity profile now_unix verifier revocation aia =
     panic_then (verify_chain cd chain anchors (profile now_unix) verifier revocation aia) (\<lambda>validated.
       case identity of
         None \<Rightarrow> Some (Ok validated)
       | Some name \<Rightarrow>
           index_or_panic chain 0 (\<lambda>leaf. Some
             (and_then (map_err Identity (verify_dns_name cd leaf name)) (\<lambda>_. Ok validated))))"

definition verify_tls_client_mailbox ::
  "'x chain_codec_scheme \<Rightarrow> certificate list \<Rightarrow> trust_anchor list \<Rightarrow> mailbox_name option \<Rightarrow> profile \<Rightarrow> u64
    \<Rightarrow> sig_verifier \<Rightarrow> revocation_checker \<Rightarrow> aia_fetcher \<Rightarrow> validated_path chain_result option" where
  "verify_tls_client_mailbox cd chain anchors identity profile now_unix verifier revocation aia =
     panic_then (verify_chain cd chain anchors (profile now_unix) verifier revocation aia) (\<lambda>validated.
       case identity of
         None \<Rightarrow> Some (Ok validated)
       | Some mailbox \<Rightarrow>
           index_or_panic chain 0 (\<lambda>leaf. Some
             (and_then (map_err Identity (verify_mailbox cd leaf mailbox)) (\<lambda>_. Ok validated))))"

definition verify_smime_signer ::
  "'x chain_codec_scheme \<Rightarrow> certificate list \<Rightarrow> trust_anchor list \<Rightarrow> mailbox_name \<Rightarrow> profile \<Rightarrow> u64
    \<Rightarrow> sig_verifier \<Rightarrow> revocation_checker \<Rightarrow> aia_fetcher \<Rightarrow> validated_path chain_result option" where
  "verify_smime_signer cd chain anchors mailbox profile now_unix verifier revocation aia =
     panic_then (verify_chain cd chain anchors (profile now_unix) verifier revocation aia) (\<lambda>validated.
     index_or_panic chain 0 (\<lambda>leaf. Some
       (and_then (map_err Identity (verify_mailbox cd leaf mailbox)) (\<lambda>_. Ok validated))))"

definition verify_smime_recipient ::
  "'x chain_codec_scheme \<Rightarrow> certificate list \<Rightarrow> trust_anchor list \<Rightarrow> mailbox_name \<Rightarrow> profile \<Rightarrow> u64
    \<Rightarrow> sig_verifier \<Rightarrow> revocation_checker \<Rightarrow> aia_fetcher \<Rightarrow> validated_path chain_result option" where
  "verify_smime_recipient cd chain anchors mailbox profile now_unix verifier revocation aia =
     panic_then (verify_chain cd chain anchors (profile now_unix) verifier revocation aia) (\<lambda>validated.
     index_or_panic chain 0 (\<lambda>leaf. Some
       (and_then (map_err Identity (verify_mailbox cd leaf mailbox)) (\<lambda>_. Ok validated))))"

definition verify_code_signer ::
  "'x chain_codec_scheme \<Rightarrow> certificate list \<Rightarrow> trust_anchor list \<Rightarrow> profile \<Rightarrow> u64
    \<Rightarrow> sig_verifier \<Rightarrow> revocation_checker \<Rightarrow> aia_fetcher \<Rightarrow> validated_path chain_result option" where
  "verify_code_signer cd chain anchors profile now_unix verifier revocation aia =
     verify_chain cd chain anchors (profile now_unix) verifier revocation aia"

section \<open>Time stamping\<close>

definition ID_KP_TIME_STAMPING :: oid where "ID_KP_TIME_STAMPING = [1, 3, 6, 1, 5, 5, 7, 3, 8]"

definition enforce_timestamping_eku_critical_and_sole ::
  "'x x509_codec_scheme \<Rightarrow> certificate \<Rightarrow> unit chain_result" where
  "enforce_timestamping_eku_critical_and_sole cd leaf =
     (let no_eku = ProfileViolation ''TSA certificate has no ExtendedKeyUsage extension'';
          not_sole = ProfileViolation ''TSA ExtendedKeyUsage must contain only id-kp-timeStamping (RFC 3161 sec. 2.3)''
      in and_then (ok_or no_eku (extensions (tbs leaf))) (\<lambda>exts.
         and_then (ok_or no_eku (find (\<lambda>e. extn_id e = OID_EXTENDED_KEY_USAGE) exts)) (\<lambda>ext.
           if \<not> critical ext
           then Err (ProfileViolation ''TSA ExtendedKeyUsage extension must be marked critical (RFC 3161 sec. 2.3)'')
           else and_then (map_err (\<lambda>_. ProfileViolation ''TSA ExtendedKeyUsage extension is malformed'')
                  (dec_extended_key_usage cd (extn_value ext))) (\<lambda>eku.
             case eku of
               [oid] \<Rightarrow> if oid = ID_KP_TIME_STAMPING then Ok () else Err not_sole
             | _ \<Rightarrow> Err not_sole))))"

definition enforce_timestamping_ku_shape :: "'x x509_codec_scheme \<Rightarrow> certificate \<Rightarrow> unit chain_result" where
  "enforce_timestamping_ku_shape cd leaf =
     (case extensions (tbs leaf) of
        None \<Rightarrow> Ok ()
      | Some exts \<Rightarrow>
          (case find (\<lambda>e. extn_id e = OID_KEY_USAGE) exts of
             None \<Rightarrow> Ok ()
           | Some ext \<Rightarrow>
               and_then (map_err (\<lambda>_. ProfileViolation ''TSA KeyUsage extension is malformed'')
                 (dec_key_usage cd (extn_value ext))) (\<lambda>ku.
                 if ku_key_encipherment ku \<or> ku_data_encipherment ku \<or> ku_key_agreement ku \<or>
                    ku_key_cert_sign ku \<or> ku_crl_sign ku \<or> ku_encipher_only ku \<or> ku_decipher_only ku
                 then Err (ProfileViolation ''TSA KeyUsage must contain only digitalSignature and/or nonRepudiation (RFC 3161 sec. 2.1 #10; matches OpenSSL `-purpose timestampsign`)'')
                 else Ok ())))"

definition verify_time_stamper ::
  "'x chain_codec_scheme \<Rightarrow> certificate list \<Rightarrow> trust_anchor list \<Rightarrow> profile \<Rightarrow> u64
    \<Rightarrow> sig_verifier \<Rightarrow> revocation_checker \<Rightarrow> aia_fetcher \<Rightarrow> validated_path chain_result option" where
  "verify_time_stamper cd chain anchors profile now_unix verifier revocation aia =
     panic_then (verify_chain cd chain anchors (profile now_unix) verifier revocation aia) (\<lambda>validated.
     index_or_panic chain 0 (\<lambda>leaf. Some
       (and_then (enforce_timestamping_eku_critical_and_sole cd leaf) (\<lambda>_.
        and_then (enforce_timestamping_ku_shape cd leaf) (\<lambda>_. Ok validated)))))"

section \<open>OCSP responders\<close>

definition OID_OCSP_NO_CHECK :: oid where "OID_OCSP_NO_CHECK = [1, 3, 6, 1, 5, 5, 7, 48, 1, 5]"

definition has_ocsp_no_check :: "certificate \<Rightarrow> bool" where
  "has_ocsp_no_check cert =
     (case extensions (tbs cert) of
        None \<Rightarrow> False
      | Some exts \<Rightarrow> list_ex (\<lambda>e. extn_id e = OID_OCSP_NO_CHECK) exts)"

record leaf_ident =
  li_issuer :: dname
  li_serial :: bytes

definition leaf_ident_of :: "certificate \<Rightarrow> leaf_ident" where
  "leaf_ident_of cert = \<lparr> li_issuer = issuer (tbs cert), li_serial = serial_number (tbs cert) \<rparr>"

definition leaf_ident_matches :: "leaf_ident \<Rightarrow> certificate \<Rightarrow> bool" where
  "leaf_ident_matches leaf cert \<longleftrightarrow>
     li_serial leaf = serial_number (tbs cert) \<and> li_issuer leaf = issuer (tbs cert)"

record no_check_shim =
  shim_inner :: revocation_checker
  shim_leaf_id :: "leaf_ident option"

definition shim_skips :: "no_check_shim \<Rightarrow> certificate \<Rightarrow> bool" where
  "shim_skips shim cert = (case shim_leaf_id shim of None \<Rightarrow> False | Some leaf \<Rightarrow> leaf_ident_matches leaf cert)"

definition shim_checker :: "no_check_shim \<Rightarrow> revocation_checker" where
  "shim_checker shim =
     \<lparr> check_revocation = (\<lambda>cert iss.
         if shim_skips shim cert then Ok () else check_revocation (shim_inner shim) cert iss),
       check_revocation_against_anchor = (\<lambda>cert anchor.
         if shim_skips shim cert then Ok () else check_revocation_against_anchor (shim_inner shim) cert anchor) \<rparr>"

definition verify_responder_is_delegated_by ::
  "'x x509_codec_scheme \<Rightarrow> crypto_backends \<Rightarrow> certificate \<Rightarrow> certificate \<Rightarrow> unit chain_result" where
  "verify_responder_is_delegated_by cd cb responder iss =
     (if \<not> names_match (issuer (tbs responder)) (subject (tbs iss))
      then Err (OcspDelegation ''OCSP responder cert issuer DN does not match the supplied issuer's subject DN (RFC 6960 sec. 4.2.2.2 delegation requirement)'')
      else and_then (map_err (\<lambda>_. OcspDelegation ''OCSP responder cert TBSCertificate re-encoding failed (cannot verify delegation signature)'')
             (enc_tbs cd (tbs responder))) (\<lambda>tbs_der.
           map_err (\<lambda>_. OcspDelegation ''OCSP responder cert signature does not verify under the supplied issuer's public key (RFC 6960 sec. 4.2.2.2: responder must be issued directly by the named CA - DN match without cryptographic binding is insufficient)'')
             (default_verifier cb (signature_algorithm responder) (subject_public_key_info (tbs iss)) tbs_der
               (raw_bytes (cert_signature responder)))))"

definition verify_ocsp_responder ::
  "'x chain_codec_scheme \<Rightarrow> crypto_backends \<Rightarrow> certificate list \<Rightarrow> trust_anchor list \<Rightarrow> certificate
    \<Rightarrow> profile \<Rightarrow> u64 \<Rightarrow> sig_verifier \<Rightarrow> revocation_checker \<Rightarrow> aia_fetcher
    \<Rightarrow> validated_path chain_result option" where
  "verify_ocsp_responder cd cb chain anchors iss profile now_unix verifier revocation aia =
     (if chain = []
      then Some (Err (OcspDelegation ''OCSP responder chain must contain at least the responder cert''))
      else index_or_panic chain 0 (\<lambda>leaf.
           let shim = \<lparr> shim_inner = revocation,
                        shim_leaf_id = (if has_ocsp_no_check leaf then Some (leaf_ident_of leaf) else None) \<rparr>
           in panic_then (verify_chain cd chain anchors (profile now_unix) verifier (shim_checker shim) aia)
                (\<lambda>validated. Some
                  (and_then (verify_responder_is_delegated_by cd cb leaf iss) (\<lambda>_. Ok validated)))))"

section \<open>Lemmas: builder calls and revocation\<close>

lemma panic_then_Ok: "panic_then r f = Some (Inr y) \<longleftrightarrow> (\<exists>x. r = Some (Inr x) \<and> f x = Some (Inr y))"
  by (simp add: panic_then_def split: option.splits sum.splits)

lemma panic_then_None: "panic_then r f = None \<longleftrightarrow> r = None \<or> (\<exists>x. r = Some (Inr x) \<and> f x = None)"
  by (simp add: panic_then_def split: option.splits sum.splits)

lemma index_or_panic_eq [simp]: "i < length xs \<Longrightarrow> index_or_panic xs i f = f (xs ! i)"
  by (simp add: index_or_panic_def)

lemma index_or_panic_Some: "index_or_panic xs i f = Some y \<longleftrightarrow> i < length xs \<and> f (xs ! i) = Some y"
  by (simp add: index_or_panic_def)

text \<open>Every certificate of the chain passes, against the next one or, the last, against the anchor.\<close>

definition revocation_passed :: "revocation_checker \<Rightarrow> certificate list \<Rightarrow> trust_anchor \<Rightarrow> bool" where
  "revocation_passed rc chain anchor \<longleftrightarrow>
     (\<forall>i. i + 1 < length chain \<longrightarrow> check_revocation rc (chain ! i) (chain ! (i + 1)) = Ok ()) \<and>
     (chain \<noteq> [] \<longrightarrow> check_revocation_against_anchor rc (last chain) anchor = Ok ())"

text \<open>In range, the loop makes the checks in order and stops at the first that fails.\<close>

fun checks_in_order :: "revocation_checker \<Rightarrow> trust_anchor \<Rightarrow> certificate list \<Rightarrow> unit revocation_result" where
  "checks_in_order rc anchor [] = Ok ()"
| "checks_in_order rc anchor [cert] = check_revocation_against_anchor rc cert anchor"
| "checks_in_order rc anchor (cert # iss # rest) =
     and_then (check_revocation rc cert iss) (\<lambda>_. checks_in_order rc anchor (iss # rest))"

lemma panic_then_Some [simp]:
  "panic_then (Some r) (\<lambda>x. Some (f x)) = Some (and_then r f)"
  "panic_then (Some (Inr x)) g = g x"
  "panic_then (Some (Inl e)) g = Some (Inl e)"
  by (cases r) (simp_all add: panic_then_def)

lemma revocation_loop_in_range:
  assumes "anchor_index < length anchors"
  shows "drop i chain = rest \<Longrightarrow>
    revocation_loop rc anchors anchor_index chain i rest = Some (checks_in_order rc (anchors ! anchor_index) rest)"
proof (induction rest arbitrary: i)
  case (Cons cert rest)
  have tl: "drop (i + 1) chain = rest" using Cons.prems by (metis drop_drop drop_Suc_Cons drop_0 add.commute One_nat_def)
  have i: "i < length chain" using Cons.prems by (metis drop_all list.distinct(1) not_le)
  show ?case
  proof (cases rest)
    case Nil
    then have "\<not> i + 1 < length chain" using tl by simp
    then show ?thesis using assms Nil by (cases "check_revocation_against_anchor rc cert (anchors ! anchor_index)") simp_all
  next
    case (Cons iss rest')
    then have "i + 1 < length chain" "chain ! (i + 1) = iss" using tl by (metis drop_all list.distinct(1) not_le, metis nth_via_drop)
    then show ?thesis using Cons.IH [OF tl] Cons by (cases "check_revocation rc cert iss") simp_all
  qed
qed simp

lemma checks_in_order_Ok: "checks_in_order rc anchor chain = Inr u \<longleftrightarrow> revocation_passed rc chain anchor"
proof (induction rc anchor chain rule: checks_in_order.induct)
  case (3 rc anchor cert iss rest)
  have "(\<forall>i. i + 1 < length (cert # iss # rest) \<longrightarrow>
           check_revocation rc ((cert # iss # rest) ! i) ((cert # iss # rest) ! (i + 1)) = Ok ()) \<longleftrightarrow>
        check_revocation rc cert iss = Ok () \<and>
        (\<forall>i. i + 1 < length (iss # rest) \<longrightarrow>
           check_revocation rc ((iss # rest) ! i) ((iss # rest) ! (i + 1)) = Ok ())"
    (is "?all \<longleftrightarrow> ?hd \<and> ?tl")
  proof
    assume a: ?all
    from a [rule_format, of 0] have ?hd by simp
    moreover have ?tl using a [rule_format, of "Suc i" for i] by auto
    ultimately show "?hd \<and> ?tl" ..
  next
    assume h: "?hd \<and> ?tl"
    show ?all
    proof (intro allI impI)
      fix i assume "i + 1 < length (cert # iss # rest)"
      then show "check_revocation rc ((cert # iss # rest) ! i) ((cert # iss # rest) ! (i + 1)) = Ok ()"
        using h by (cases i) auto
    qed
  qed
  then show ?case using 3 by (auto simp: revocation_passed_def and_then_Ok_iff)
qed (auto simp: revocation_passed_def)

lemma run_revocation_checks_in_range:
  assumes "vp_anchor_index vp < length (cv_anchors vf)"
  shows "run_revocation_checks vf chain vp =
    Some (map_err Revocation (checks_in_order (cv_rev_checker vf) (cv_anchors vf ! vp_anchor_index vp) chain))"
  by (simp add: run_revocation_checks_def revocation_loop_in_range [OF assms, of 0])

lemma run_revocation_checks_Ok:
  assumes "vp_anchor_index vp < length (cv_anchors vf)"
  shows "run_revocation_checks vf chain vp = Some (Inr u) \<longleftrightarrow>
     revocation_passed (cv_rev_checker vf) chain (cv_anchors vf ! vp_anchor_index vp)"
  by (simp add: run_revocation_checks_in_range [OF assms] map_err_Ok_iff checks_in_order_Ok)

lemma steps_from_subset: "steps_from cd pool path cs \<Longrightarrow> set cs \<subseteq> set pool"
  by (induction cd pool path cs rule: steps_from.induct) auto

lemma topological_leaf:
  assumes "topological cd leaf pool anchors chain"
  shows "chain \<noteq> []" and "chain ! 0 = leaf" and "set chain \<subseteq> insert leaf (set pool)"
  using assms by (auto simp: topological_def split: list.splits dest: steps_from_subset)

text \<open>What a call of the builder gives in \<open>build_with_aia\<close>.\<close>

lemma first_valid_path_topological:
  assumes "build_first_valid_path cd leaf pool anchors policy v = Some (Inr built)"
  shows "topological cd leaf pool anchors built"
  using first_valid_path_cases [where cd = cd and target = leaf and pool = pool and anchors = anchors
      and policy = policy and v = v and config = path_builder_config_new] assms
  by (simp add: build_first_valid_path_def)

lemma build_path_topological:
  assumes "build_path cd leaf pool anchors = Some (Inr built)"
  shows "topological cd leaf pool anchors built"
  using assms build_path_first unfolding build_path_def by blast

lemma builders_defined:
  "build_first_valid_path cd leaf pool anchors policy v \<noteq> None"
  "build_path cd leaf pool anchors \<noteq> None"
  using first_valid_path_cases [where cd = cd and target = leaf and pool = pool and anchors = anchors
      and policy = policy and v = v and config = path_builder_config_new]
  by (auto simp: build_first_valid_path_def build_path_def build_path_defined split: option.splits)

lemma attempt_build_defined: "attempt_build cd vf leaf pool \<noteq> None"
  using builders_defined(1) [of cd leaf pool "cv_anchors vf" "cv_policy vf" "cv_sig_verifier vf"]
    builders_defined(2) [of cd leaf pool "cv_anchors vf"]
  by (auto simp: attempt_build_def split: sum.splits builder_error.splits)

lemma final_build_defined: "final_build cd vf leaf pool \<noteq> None"
  using builders_defined(1) [of cd leaf pool "cv_anchors vf" "cv_policy vf" "cv_sig_verifier vf"]
    builders_defined(2) [of cd leaf pool "cv_anchors vf"]
  by (auto simp: final_build_def split: sum.splits builder_error.splits)

lemma attempt_build_topological:
  assumes "attempt_build cd vf leaf pool = Some (Some (Inr built))"
  shows "topological cd leaf pool (cv_anchors vf) built"
  using assms
  by (auto simp: attempt_build_def map_err_Ok_iff
      split: option.splits sum.splits builder_error.splits
      intro: first_valid_path_topological build_path_topological)

lemma final_build_topological:
  assumes "final_build cd vf leaf pool = Some (Inr built)"
  shows "topological cd leaf pool (cv_anchors vf) built"
  using assms
  by (auto simp: final_build_def map_err_Ok_iff
      split: option.splits sum.splits builder_error.splits
      intro: first_valid_path_topological build_path_topological)

section \<open>Lemmas: fetching\<close>

text \<open>
  The certificates that can join the pool: those supplied, and those decoded from a response to a
  request for URIs that certificates already obtained name as their \<open>caIssuers\<close>.
\<close>

inductive aia_cert :: "'x chain_codec_scheme \<Rightarrow> aia_fetcher \<Rightarrow> certificate list \<Rightarrow> certificate \<Rightarrow> bool"
  for cd aia supplied where
  supplied: "c \<in> set supplied \<Longrightarrow> aia_cert cd aia supplied c"
| fetched: "\<forall>u \<in> set uris. \<exists>c'. aia_cert cd aia supplied c' \<and> u \<in> set (ca_issuers_http_uris cd c') \<Longrightarrow>
     Ok der \<in> set (batch_fetch aia uris) \<Longrightarrow> dec_certificate cd der = Ok c \<Longrightarrow>
     aia_cert cd aia supplied c"

lemma collect_new_spec:
  "collect_new tried new_uris uris = (tried', new_uris') \<Longrightarrow>
     tried' = tried \<union> set uris \<and> (\<exists>f. new_uris' = new_uris @ f \<and> distinct f \<and> set f = set uris - tried)"
proof (induction tried new_uris uris rule: collect_new.induct)
  case (2 tried new_uris uri rest)
  show ?case
  proof (cases "uri \<in> tried")
    case True
    then show ?thesis using 2 by auto
  next
    case False
    with 2 obtain f where "new_uris' = (new_uris @ [uri]) @ f" "distinct f" "set f = set rest - insert uri tried"
      and t: "tried' = insert uri tried \<union> set rest"
      by auto
    then have "new_uris' = new_uris @ (uri # f)" "distinct (uri # f)" "set (uri # f) = set (uri # rest) - tried"
      using False by auto
    with t show ?thesis by auto
  qed
qed simp

definition decoded :: "'x chain_codec_scheme \<Rightarrow> (string \<times> (aia_error + bytes)) list \<Rightarrow> certificate set" where
  "decoded cd rs = {c. \<exists>u der. (u, Inr der) \<in> set rs \<and> dec_certificate cd der = Inr c}"

lemma decoded_Cons: "decoded cd rs \<subseteq> decoded cd (x # rs)"
  by (auto simp: decoded_def)

lemma absorb_spec:
  "absorb cd pool last_error added rs = (pool', last_error', added') \<Longrightarrow>
     \<exists>cs. pool' = pool @ cs \<and> (added' \<longleftrightarrow> added \<or> cs \<noteq> []) \<and> set cs \<subseteq> decoded cd rs"
proof (induction cd pool last_error added rs rule: absorb.induct)
  case (2 cd pool last_error added_any uri der rest)
  show ?case
  proof (cases "dec_certificate cd der")
    case (Inl e)
    then show ?thesis using 2 decoded_Cons [of cd rest "(uri, Inr der)"] by auto
  next
    case (Inr c)
    with 2 obtain cs where "pool' = (pool @ [c]) @ cs" "added'" "set cs \<subseteq> decoded cd rest"
      by (auto simp: cert_pool_add_def)
    moreover have "c \<in> decoded cd ((uri, Inr der) # rest)" using Inr by (auto simp: decoded_def)
    ultimately show ?thesis using decoded_Cons [of cd rest "(uri, Inr der)"]
      by (intro exI [of _ "c # cs"]) auto
  qed
next
  case (3 cd pool last_error added_any uri e rest)
  then show ?case using decoded_Cons [of cd rest "(uri, Inl e)"] by auto
qed auto

text \<open>The invariant of the loop after \<open>n\<close> batches.\<close>

definition aia_ok :: "'x chain_codec_scheme \<Rightarrow> aia_fetcher \<Rightarrow> certificate list \<Rightarrow> nat \<Rightarrow> aia_state \<Rightarrow> bool" where
  "aia_ok cd aia supplied n st \<longleftrightarrow>
     set (aia_pool st) \<subseteq> Collect (aia_cert cd aia supplied) \<and>
     tried_uris st = set (concat (aia_requests st)) \<and>
     distinct (concat (aia_requests st)) \<and> [] \<notin> set (aia_requests st) \<and> length (aia_requests st) = n \<and>
     set (concat (aia_requests st)) \<subseteq>
       {u. \<exists>c. aia_cert cd aia supplied c \<and> u \<in> set (ca_issuers_http_uris cd c)}"

lemma aia_ok_init: "aia_ok cd aia supplied 0 (aia_init supplied)"
  by (auto simp: aia_ok_def aia_init_def cert_pool_extend_def cert_pool_new_def intro: aia_cert.supplied)

lemma orphan_uris_sources:
  "u \<in> set (orphan_uris cd anchors pool) \<Longrightarrow> \<exists>c \<in> set pool. u \<in> set (ca_issuers_http_uris cd c)"
  by (auto simp: orphan_uris_def split: if_splits)

lemma aia_fetch_round_ok:
  assumes "aia_fetch_round cd vf st = (st', r)" and ok: "aia_ok cd (cv_aia vf) supplied n st"
  shows "(aia_ok cd (cv_aia vf) supplied n st' \<and> r \<noteq> None) \<or> aia_ok cd (cv_aia vf) supplied (Suc n) st'"
proof -
  obtain tried new_uris where
    c: "collect_new (tried_uris st) [] (orphan_uris cd (cv_anchors vf) (aia_pool st)) = (tried, new_uris)"
    by fastforce
  show ?thesis
  proof (cases "new_uris = []")
    case True
    with assms c show ?thesis by (auto simp: aia_fetch_round_def)
  next
    case False
    obtain pool e added where
      a: "absorb cd (aia_pool st) (last_aia_error st) False (zip new_uris (batch_fetch (cv_aia vf) new_uris))
            = (pool, e, added)"
      by (rule prod_cases3)
    with assms(1) c False have st': "st' = \<lparr> aia_pool = pool, tried_uris = tried, last_aia_error = e,
        aia_requests = aia_requests st @ [new_uris] \<rparr>"
      by (auto simp: aia_fetch_round_def)
    from collect_new_spec [OF c] have new: "distinct new_uris" "tried = tried_uris st \<union> set new_uris"
        "set new_uris = set (orphan_uris cd (cv_anchors vf) (aia_pool st)) - tried_uris st"
      by auto
    have src: "\<forall>u \<in> set new_uris. \<exists>c'. aia_cert cd (cv_aia vf) supplied c' \<and> u \<in> set (ca_issuers_http_uris cd c')"
      using new(3) ok orphan_uris_sources unfolding aia_ok_def by blast
    from absorb_spec [OF a] obtain cs where cs: "pool = aia_pool st @ cs"
        "set cs \<subseteq> decoded cd (zip new_uris (batch_fetch (cv_aia vf) new_uris))"
      by auto
    then have "set cs \<subseteq> Collect (aia_cert cd (cv_aia vf) supplied)"
      by (auto simp: decoded_def subset_iff dest!: set_zip_rightD intro: aia_cert.fetched [OF src])
    moreover have "set new_uris \<inter> tried_uris st = {}" using new(3) by blast
    ultimately show ?thesis using cs(1) new(1,2) ok src False unfolding aia_ok_def st' by auto
  qed
qed

lemma aia_loop_ok:
  assumes "aia_ok cd (cv_aia vf) supplied k st" and "aia_loop cd vf leaf n st = (r, st')"
  shows "r \<noteq> None \<and> (\<exists>m \<le> k + n. aia_ok cd (cv_aia vf) supplied m st') \<and>
     (\<forall>built. r = Some (Inr built) \<longrightarrow> topological cd leaf (aia_pool st') (cv_anchors vf) built)"
  using assms
proof (induction n arbitrary: k st)
  case 0
  then show ?case using final_build_defined [of cd vf leaf "aia_pool st"]
    by (auto intro: final_build_topological)
next
  case (Suc n)
  show ?case
  proof (cases "attempt_build cd vf leaf (aia_pool st)")
    case None
    then show ?thesis using attempt_build_defined [of cd vf leaf "aia_pool st"] by simp
  next
    case (Some a)
    show ?thesis
    proof (cases a)
      case (Some x)
      with \<open>attempt_build cd vf leaf (aia_pool st) = Some a\<close> Suc.prems have "r = Some x" "st' = st"
          "attempt_build cd vf leaf (aia_pool st) = Some r"
        by auto
      moreover have "k \<le> k + Suc n" by simp
      ultimately show ?thesis using Suc.prems(1) attempt_build_topological by blast
    next
      case None
      obtain st1 e where round: "aia_fetch_round cd vf st = (st1, e)" by fastforce
      from aia_fetch_round_ok [OF round Suc.prems(1)]
      show ?thesis
      proof (cases e)
        case (Some err)
        with round None \<open>attempt_build cd vf leaf (aia_pool st) = Some a\<close> Suc.prems
        have "r = Some (Err err)" "st' = st1" by auto
        moreover have "k \<le> k + Suc n" "Suc k \<le> k + Suc n" by simp_all
        ultimately show ?thesis using aia_fetch_round_ok [OF round Suc.prems(1)] by blast
      next
        case none: None
        with aia_fetch_round_ok [OF round Suc.prems(1)]
        have "aia_ok cd (cv_aia vf) supplied (Suc k) st1" by simp
        moreover have "aia_loop cd vf leaf n st1 = (r, st')"
          using Suc.prems(2) round None none \<open>attempt_build cd vf leaf (aia_pool st) = Some a\<close> by simp
        ultimately show ?thesis using Suc.IH [of "Suc k" st1] by simp
      qed
    qed
  qed
qed

lemma build_with_aia_ok:
  assumes "build_with_aia cd vf supplied = (r, st)"
  shows "r \<noteq> None" and "\<exists>m \<le> AIA_MAX_DEPTH. aia_ok cd (cv_aia vf) supplied m st"
    and "r = Some (Inr built) \<Longrightarrow> supplied \<noteq> [] \<and> built \<noteq> [] \<and> built ! 0 = supplied ! 0 \<and>
      set built \<subseteq> Collect (aia_cert cd (cv_aia vf) supplied)"
proof -
  have "r \<noteq> None \<and> (\<exists>m \<le> AIA_MAX_DEPTH. aia_ok cd (cv_aia vf) supplied m st) \<and>
      (r = Some (Inr built) \<longrightarrow> supplied \<noteq> [] \<and> built \<noteq> [] \<and> built ! 0 = supplied ! 0 \<and>
        set built \<subseteq> Collect (aia_cert cd (cv_aia vf) supplied))"
  proof (cases supplied)
    case Nil
    then show ?thesis using assms aia_ok_init [of cd "cv_aia vf" supplied]
      by (auto simp: build_with_aia_def)
  next
    case (Cons leaf rest)
    then have loop: "aia_loop cd vf leaf AIA_MAX_DEPTH (aia_init supplied) = (r, st)"
      using assms by (simp add: build_with_aia_def)
    from aia_loop_ok [OF aia_ok_init loop] obtain m where m: "m \<le> AIA_MAX_DEPTH"
        "aia_ok cd (cv_aia vf) supplied m st" "r \<noteq> None"
        "r = Some (Inr built) \<Longrightarrow> topological cd leaf (aia_pool st) (cv_anchors vf) built"
      by auto
    moreover have "aia_cert cd (cv_aia vf) supplied leaf" using Cons by (simp add: aia_cert.supplied)
    ultimately show ?thesis using Cons topological_leaf unfolding aia_ok_def by fastforce
  qed
  then show "r \<noteq> None" "\<exists>m \<le> AIA_MAX_DEPTH. aia_ok cd (cv_aia vf) supplied m st"
    "r = Some (Inr built) \<Longrightarrow> supplied \<noteq> [] \<and> built \<noteq> [] \<and> built ! 0 = supplied ! 0 \<and>
      set built \<subseteq> Collect (aia_cert cd (cv_aia vf) supplied)"
    by auto
qed

section \<open>What an accepted chain means\<close>

text \<open>
  A chain from the leaf of the supplied one, made of obtained certificates, that path validation
  accepts from an anchor and of which every certificate passed the revocation checker.
\<close>

definition chain_vouched ::
  "'x chain_codec_scheme \<Rightarrow> chain_verifier \<Rightarrow> certificate list \<Rightarrow> validated_path \<Rightarrow> certificate list \<Rightarrow> bool" where
  "chain_vouched cd vf supplied vp built \<longleftrightarrow>
     supplied \<noteq> [] \<and> built \<noteq> [] \<and> built ! 0 = supplied ! 0 \<and>
     set built \<subseteq> Collect (aia_cert cd (cv_aia vf) supplied) \<and>
     vp_anchor_index vp < length (cv_anchors vf) \<and>
     path_accepted cd (cv_sig_verifier vf) (cv_policy vf) built (cv_anchors vf ! vp_anchor_index vp) \<and>
     revocation_passed (cv_rev_checker vf) built (cv_anchors vf ! vp_anchor_index vp)"

lemma chain_vouchedI:
  assumes "validate_path cd built (cv_anchors vf) (cv_policy vf) (cv_sig_verifier vf) = Inr vp"
    and "run_revocation_checks vf built vp = Some (Inr u)"
    and "built ! 0 = supplied ! 0" "supplied \<noteq> []"
    and "set built \<subseteq> Collect (aia_cert cd (cv_aia vf) supplied)"
  shows "chain_vouched cd vf supplied vp built"
  using assms validate_path_accepted [OF assms(1)]
  by (auto simp: chain_vouched_def run_revocation_checks_Ok path_accepted_def)

lemma verify_one_vouched:
  assumes "verify_one cd vf chain = Some (Inr vp)"
  shows "\<exists>built. chain_vouched cd vf chain vp built"
proof (cases "validate_path cd chain (cv_anchors vf) (cv_policy vf) (cv_sig_verifier vf)")
  case (Inr vp')
  with assms have "run_revocation_checks vf chain vp = Some (Inr ())" and vp: "vp' = vp"
    by (auto simp: verify_one_def panic_then_Ok)
  moreover have "chain \<noteq> []"
    using validate_path_accepted [OF Inr] by (simp add: path_accepted_def)
  ultimately have "chain_vouched cd vf chain vp chain"
    using Inr by (intro chain_vouchedI) (auto intro: aia_cert.supplied)
  then show ?thesis ..
next
  case (Inl e)
  obtain r st where b: "build_with_aia cd vf chain = (r, st)" by fastforce
  with assms Inl obtain built where r: "r = Some (Inr built)"
    and v: "validate_path cd built (cv_anchors vf) (cv_policy vf) (cv_sig_verifier vf) = Inr vp"
      "run_revocation_checks vf built vp = Some (Inr ())"
    by (auto simp: verify_one_def panic_then_Ok and_then_Ok_iff map_err_Ok_iff split: if_splits)
  from chain_vouchedI [OF v] build_with_aia_ok(3) [OF b r] show ?thesis by blast
qed

lemma validated_checks_defined:
  assumes "validate_path cd chain (cv_anchors vf) (cv_policy vf) (cv_sig_verifier vf) = Inr vp"
  shows "run_revocation_checks vf built vp \<noteq> None"
  using validate_path_accepted [OF assms] by (simp add: run_revocation_checks_in_range)

lemma verify_one_defined: "verify_one cd vf chain \<noteq> None"
proof -
  obtain r st where b: "build_with_aia cd vf chain = (r, st)" by fastforce
  from build_with_aia_ok(1) [OF b] b show ?thesis
    by (auto simp: verify_one_def panic_then_None map_err_Ok_iff simp del: not_None_eq
        dest: validated_checks_defined split: sum.split)
qed

text \<open>With a checker that keeps the interface's contract, an accepted chain is covered.\<close>

context revocation_source begin

lemma revocation_passed_covered: "revocation_passed rc chain anchor \<Longrightarrow> covered revoked_by chain anchor"
  unfolding revocation_passed_def by (rule checks_cover) auto

lemma verify_chain_covered:
  assumes "verify_chain cd chain anchors policy v rc aia = Some (Inr vp)"
  shows "\<exists>built. chain_vouched cd (verifier_new anchors v rc policy aia) chain vp built \<and>
     covered revoked_by built (anchors ! vp_anchor_index vp)"
  using verify_one_vouched [OF assms [unfolded verify_chain_def]] revocation_passed_covered
  by (auto simp: chain_vouched_def verifier_new_def)

end

section \<open>Properties\<close>

text \<open>
  C1. When \<open>verify_chain\<close> accepts, there is a chain with the supplied leaf, made of supplied
  certificates and of certificates fetched from \<open>caIssuers\<close> URIs, that path validation accepts from
  the reported anchor, and every certificate of that chain passed the revocation checker, the last one
  against the anchor; fetched certificates are trusted only through that validation.
\<close>

theorem verify_chain_sound:
  assumes "verify_chain cd chain anchors policy v rc aia = Some (Ok vp)"
  shows "\<exists>built. chain \<noteq> [] \<and> built \<noteq> [] \<and> built ! 0 = chain ! 0 \<and>
     set built \<subseteq> Collect (aia_cert cd aia chain) \<and> vp_anchor_index vp < length anchors \<and>
     path_accepted cd v policy built (anchors ! vp_anchor_index vp) \<and>
     revocation_passed rc built (anchors ! vp_anchor_index vp)"
  using verify_one_vouched [OF assms [unfolded verify_chain_def]]
  by (simp add: chain_vouched_def verifier_new_def)

text \<open>The codec of the examples, in which the AIA extension of \<open>[2]\<close> names the CA \<open>[2]\<close>.\<close>

definition ex_aia :: "access_description list" where
  "ex_aia = [\<lparr> access_method = OID_AD_CA_ISSUERS, access_location = UniformResourceIdentifier ''ldap://ca'' \<rparr>,
     \<lparr> access_method = OID_AD_CA_ISSUERS, access_location = UniformResourceIdentifier ''HTTP://ca/2'' \<rparr>]"

definition ex_chain_codec :: chain_codec where
  "ex_chain_codec = revocation_codec.extend ex_revocation_codec
     (chain_codec.fields (table_dec [([2], ex_aia)]) (table_dec [([2], ex_ca 2 1 [])]))"

definition ex_fetch :: "string \<Rightarrow> aia_error + bytes" where
  "ex_fetch uri = (if uri = ''HTTP://ca/2'' then Ok [2] else Err (HttpStatus 404))"

definition ex_fetcher :: aia_fetcher where
  "ex_fetcher = \<lparr> fetch = ex_fetch, batch_fetch = default_batch_fetch ex_fetch \<rparr>"

definition ex_leaf_aia :: certificate where
  "ex_leaf_aia = ex_cert 3 2 [(ex_ext OID_AUTHORITY_INFO_ACCESS [2])\<lparr> critical := False \<rparr>]"

lemma ex_verify_chain_ok:
  "map_option is_ok (verify_chain ex_chain_codec [ex_leaf_aia] [ex_anchor 1] ex_policy_150 ex_verifier
     no_revocation ex_fetcher) = Some True"
  by code_simp

theorem verify_chain_sound_witness:
  "\<exists>built k. built ! 0 = ex_leaf_aia \<and> set built \<subseteq> Collect (aia_cert ex_chain_codec ex_fetcher [ex_leaf_aia]) \<and>
     path_accepted ex_chain_codec ex_verifier ex_policy_150 built ([ex_anchor 1] ! k)"
proof -
  obtain vp where "verify_chain ex_chain_codec [ex_leaf_aia] [ex_anchor 1] ex_policy_150 ex_verifier
      no_revocation ex_fetcher = Some (Ok vp)"
    using ex_verify_chain_ok by (auto simp: is_ok_iff)
  from verify_chain_sound [OF this] show ?thesis by auto
qed

lemma accepted_nonempty:
  "verify_chain cd chain anchors policy v rc aia = Some (Inr vp) \<Longrightarrow> chain \<noteq> []"
  unfolding verify_chain_def using verify_one_vouched by (fastforce simp: chain_vouched_def)

lemma verify_chain_defined: "verify_chain cd chain anchors policy v rc aia \<noteq> None"
  unfolding verify_chain_def by (rule verify_one_defined)

lemma leaf_check_defined:
  "panic_then (verify_chain cd chain anchors policy v rc aia) (\<lambda>vp. index_or_panic chain 0 (\<lambda>c. Some (f vp c))) \<noteq> None"
  using verify_chain_defined [of cd chain anchors policy v rc aia]
  by (auto simp: panic_then_None index_or_panic_def simp del: not_None_eq dest: accepted_nonempty)

lemma optional_check_defined:
  "panic_then (verify_chain cd chain anchors policy v rc aia)
     (\<lambda>vp. case identity of None \<Rightarrow> Some (Ok vp) | Some n \<Rightarrow> index_or_panic chain 0 (\<lambda>c. Some (f vp n c))) \<noteq> None"
  using verify_chain_defined [of cd chain anchors policy v rc aia]
  by (cases identity) (auto simp: panic_then_None index_or_panic_def simp del: not_None_eq dest: accepted_nonempty)

text \<open>
  C24. No entry point of \<open>pkix-chain\<close> panics in this crate or in the path builder. An index is checked and out of
  range gives \<open>None\<close>: \<open>chain[i + 1]\<close> and
  \<open>anchors[anchor_index]\<close> in the revocation pass, which also runs on reassembled chains, \<open>chain[0]\<close> after
  verification in the entry points, and the \<open>expect\<close>s and indices of the path builder, which the fetch loop calls on
  pools of any content.
\<close>

theorem verifiers_never_panic:
  "verify_chain cd chain anchors policy v rc aia \<noteq> None \<and>
   verify_tls_server cd chain anchors name profile now_unix v rc aia \<noteq> None \<and>
   verify_tls_client_dns cd chain anchors dns_identity profile now_unix v rc aia \<noteq> None \<and>
   verify_tls_client_mailbox cd chain anchors mailbox_identity profile now_unix v rc aia \<noteq> None \<and>
   verify_smime_signer cd chain anchors mailbox profile now_unix v rc aia \<noteq> None \<and>
   verify_smime_recipient cd chain anchors mailbox profile now_unix v rc aia \<noteq> None \<and>
   verify_code_signer cd chain anchors profile now_unix v rc aia \<noteq> None \<and>
   verify_time_stamper cd chain anchors profile now_unix v rc aia \<noteq> None \<and>
   verify_ocsp_responder cd cb chain anchors iss profile now_unix v rc aia \<noteq> None"
proof -
  have "verify_ocsp_responder cd cb chain anchors iss profile now_unix v rc aia \<noteq> None"
    by (cases chain) (simp_all add: verify_ocsp_responder_def panic_then_None Let_def verify_chain_defined del: not_None_eq)
  then show ?thesis
    unfolding verify_tls_server_def verify_tls_client_dns_def verify_tls_client_mailbox_def verify_smime_signer_def
      verify_smime_recipient_def verify_code_signer_def verify_time_stamper_def
    by (intro conjI verify_chain_defined leaf_check_defined optional_check_defined)
qed

text \<open>
  C9. Fetching is bounded whatever the fetcher answers: at most five batches, none of them empty, no
  URI requested twice, and every requested URI is an \<open>http\<close> or \<open>https\<close> URI that the AIA extension of
  a supplied or fetched certificate names as \<open>caIssuers\<close>.
\<close>

theorem aia_requests_bounded:
  "let requests = aia_requests (snd (build_with_aia cd vf chain))
   in length requests \<le> 5 \<and> [] \<notin> set requests \<and> distinct (concat requests) \<and>
      set (concat requests) \<subseteq> {u. is_http_scheme u \<and>
        (\<exists>c. aia_cert cd (cv_aia vf) chain c \<and> u \<in> set (ca_issuers_http_uris cd c))}"
proof -
  obtain r st where b: "build_with_aia cd vf chain = (r, st)" by fastforce
  from build_with_aia_ok(2) [OF b] obtain m where "m \<le> AIA_MAX_DEPTH" "aia_ok cd (cv_aia vf) chain m st"
    by blast
  moreover have "{u. \<exists>c. aia_cert cd (cv_aia vf) chain c \<and> u \<in> set (ca_issuers_http_uris cd c)} \<subseteq>
      Collect is_http_scheme"
    using ca_issuers_http by blast
  ultimately show ?thesis unfolding b Let_def aia_ok_def AIA_MAX_DEPTH_def snd_conv by blast
qed

text \<open>
  C10. With a CRL checker every certificate of the accepted chain is issued by the next one or by the
  anchor and is not listed as revoked in the CRL or its delta.
\<close>

theorem verify_chain_crl_covered:
  assumes "verify_chain cd chain anchors policy v (crl_revocation_checker cd ck) aia = Some (Ok vp)"
  shows "\<exists>built. built \<noteq> [] \<and> built ! 0 = chain ! 0 \<and>
     path_accepted cd v policy built (anchors ! vp_anchor_index vp) \<and>
     covered (\<lambda>_. crl_lists cd ck) built (anchors ! vp_anchor_index vp)"
  using crl.verify_chain_covered [OF assms] by (auto simp: chain_vouched_def verifier_new_def)

theorem verify_chain_crl_covered_witness:
  "\<exists>built k. built ! 0 = ex_cert 5 1 [] \<and>
     covered (\<lambda>_. crl_lists ex_chain_codec
       \<lparr> ck_crl = ex_crl 1 [ex_entry 9] [], ck_delta_crl = None, ck_crl_issuer_cert = None,
         signer_discovered = False, ck_now_unix = 150, ck_verifier = ex_verifier \<rparr>) built ([ex_anchor 1] ! k)"
proof -
  have "map_option is_ok (verify_chain ex_chain_codec [ex_cert 5 1 []] [ex_anchor 1] ex_policy_150 ex_verifier
      (crl_revocation_checker ex_chain_codec
       \<lparr> ck_crl = ex_crl 1 [ex_entry 9] [], ck_delta_crl = None, ck_crl_issuer_cert = None,
         signer_discovered = False, ck_now_unix = 150, ck_verifier = ex_verifier \<rparr>) no_aia_fetcher) = Some True"
    by code_simp
  then obtain vp where "verify_chain ex_chain_codec [ex_cert 5 1 []] [ex_anchor 1] ex_policy_150 ex_verifier
      (crl_revocation_checker ex_chain_codec
       \<lparr> ck_crl = ex_crl 1 [ex_entry 9] [], ck_delta_crl = None, ck_crl_issuer_cert = None,
         signer_discovered = False, ck_now_unix = 150, ck_verifier = ex_verifier \<rparr>) no_aia_fetcher = Some (Ok vp)"
    by (auto simp: is_ok_iff)
  from verify_chain_crl_covered [OF this] show ?thesis by auto
qed

lemma verify_tls_server_accepted:
  assumes "verify_tls_server cd chain anchors (Dns target) profile now_unix v rc aia = Some (Ok vp)"
  shows "\<exists>built san d. built \<noteq> [] \<and> built ! 0 = chain ! 0 \<and>
     path_accepted cd v (profile now_unix) built (anchors ! vp_anchor_index vp) \<and>
     revocation_passed rc built (anchors ! vp_anchor_index vp) \<and>
     find_san cd (chain ! 0) = Ok san \<and> DnsName d \<in> set san \<and> dns_covers d target"
proof -
  from assms have c: "verify_chain cd chain anchors (profile now_unix) v rc aia = Some (Inr vp)"
    and n: "verify_dns_name cd (chain ! 0) (Dns target) = Inr ()"
    by (auto simp: verify_tls_server_def panic_then_Ok index_or_panic_Some and_then_Ok_iff map_err_Ok_iff)
  from n obtain san d where "find_san cd (chain ! 0) = Ok san" "DnsName d \<in> set san" "dns_covers d target"
    by (auto simp: verify_dns_name_def result_simps list_ex_iff dns_entry_matches_iff split: if_splits)
  with verify_one_vouched [OF c [unfolded verify_chain_def]] show ?thesis
    by (auto simp: chain_vouched_def verifier_new_def)
qed

text \<open>
  C13. A TLS server is accepted only when its chain is accepted and the leaf presents the name: a
  \<open>dNSName\<close> of its subject alternative names covers it label by label.
\<close>

theorem verify_tls_server_sound:
  assumes "verify_tls_server cd chain anchors (Dns target) profile now_unix v rc aia = Some (Ok vp)"
  shows "\<exists>built san d. built \<noteq> [] \<and> built ! 0 = chain ! 0 \<and>
     path_accepted cd v (profile now_unix) built (anchors ! vp_anchor_index vp) \<and>
     revocation_passed rc built (anchors ! vp_anchor_index vp) \<and>
     find_san cd (chain ! 0) = Ok san \<and> DnsName d \<in> set san \<and> dns_covers d target"
  using assms by (rule verify_tls_server_accepted)

theorem verify_tls_server_sound_witness:
  "\<exists>san d. find_san ex_chain_codec (ex_cert 5 1 [ex_ext OID_SUBJECT_ALT_NAME [1]]) = Ok san \<and>
     DnsName d \<in> set san \<and> dns_covers d ''A.com''"
proof -
  have "map_option is_ok (verify_tls_server ex_chain_codec [ex_cert 5 1 [ex_ext OID_SUBJECT_ALT_NAME [1]]]
      [ex_anchor 1] (Dns ''A.com'') validation_policy_new 150 ex_verifier no_revocation no_aia_fetcher) = Some True"
    by code_simp
  then obtain vp where "verify_tls_server ex_chain_codec [ex_cert 5 1 [ex_ext OID_SUBJECT_ALT_NAME [1]]]
      [ex_anchor 1] (Dns ''A.com'') validation_policy_new 150 ex_verifier no_revocation no_aia_fetcher = Some (Ok vp)"
    by (auto simp: is_ok_iff)
  from verify_tls_server_sound [OF this] show ?thesis by auto
qed

text \<open>The check of a single position of the chain.\<close>

definition cert_checked :: "revocation_checker \<Rightarrow> certificate list \<Rightarrow> trust_anchor \<Rightarrow> nat \<Rightarrow> bool" where
  "cert_checked rc chain anchor i \<longleftrightarrow>
     (if i + 1 < length chain then check_revocation rc (chain ! i) (chain ! (i + 1)) = Ok ()
      else check_revocation_against_anchor rc (chain ! i) anchor = Ok ())"

lemma revocation_passed_checked:
  assumes "revocation_passed rc chain anchor" and "i < length chain"
  shows "cert_checked rc chain anchor i"
proof (cases "i + 1 < length chain")
  case False
  with assms(2) have "i = length chain - 1" "chain \<noteq> []" by auto
  then show ?thesis using assms False by (simp add: revocation_passed_def cert_checked_def last_conv_nth)
qed (use assms in \<open>simp add: revocation_passed_def cert_checked_def\<close>)

lemma cert_checked_shim:
  assumes "cert_checked (shim_checker shim) chain anchor i"
  shows "shim_skips shim (chain ! i) \<or> cert_checked (shim_inner shim) chain anchor i"
  using assms by (auto simp: cert_checked_def shim_checker_def split: if_split_asm)

text \<open>
  An OCSP responder is accepted only when its chain is accepted, it is issued by the given issuer
  (by name, and by a signature that one of the five supported algorithms verifies under that issuer's
  key), and every certificate of the chain passed the revocation checker, with the one exception of the
  responder itself when it carries \<open>id-pkix-ocsp-nocheck\<close>: no other certificate is exempt.
\<close>

theorem verify_ocsp_responder_sound:
  assumes "verify_ocsp_responder cd cb chain anchors iss profile now_unix v rc aia = Some (Ok vp)"
  shows "\<exists>built b tbs_der. chain \<noteq> [] \<and> built \<noteq> [] \<and> built ! 0 = chain ! 0 \<and>
     path_accepted cd v (profile now_unix) built (anchors ! vp_anchor_index vp) \<and>
     list_all (\<lambda>i. (i = 0 \<and> has_ocsp_no_check (chain ! 0)) \<or>
         cert_checked rc built (anchors ! vp_anchor_index vp) i) [0..<length built] \<and>
     names_match (issuer (tbs (chain ! 0))) (subject (tbs iss)) \<and>
     map_of (supported_backends cb) (alg_oid (signature_algorithm (chain ! 0))) = Some b \<and>
     enc_tbs cd (tbs (chain ! 0)) = Ok tbs_der \<and>
     backend_accepts b (subject_public_key_info (tbs iss)) tbs_der (raw_bytes (cert_signature (chain ! 0)))"
proof -
  let ?leaf = "chain ! 0"
  define shim where "shim = \<lparr> shim_inner = rc,
      shim_leaf_id = (if has_ocsp_no_check ?leaf then Some (leaf_ident_of ?leaf) else None) \<rparr>"
  from assms have c: "verify_chain cd chain anchors (profile now_unix) v (shim_checker shim) aia = Some (Inr vp)"
    and d: "verify_responder_is_delegated_by cd cb ?leaf iss = Inr ()"
    by (auto simp: verify_ocsp_responder_def shim_def Let_def panic_then_Ok and_then_Ok_iff split: if_splits)
  from verify_one_vouched [OF c [unfolded verify_chain_def]] obtain built where
    b: "chain \<noteq> []" "built \<noteq> []" "built ! 0 = ?leaf"
      "path_accepted cd v (profile now_unix) built (anchors ! vp_anchor_index vp)"
      "revocation_passed (shim_checker shim) built (anchors ! vp_anchor_index vp)"
    by (auto simp: chain_vouched_def verifier_new_def)
  have "(i = 0 \<and> has_ocsp_no_check ?leaf) \<or> cert_checked rc built (anchors ! vp_anchor_index vp) i"
    if i: "i < length built" for i
  proof -
    have "i = 0 \<and> has_ocsp_no_check ?leaf" if "shim_skips shim (built ! i)"
    proof -
      from that have "has_ocsp_no_check ?leaf" "leaf_ident_matches (leaf_ident_of ?leaf) (built ! i)"
        by (auto simp: shim_skips_def shim_def split: if_splits)
      then have "same_issuer_serial (built ! 0) (built ! i)"
        by (simp add: b(3) leaf_ident_matches_def leaf_ident_of_def same_issuer_serial_def names_match_refl)
      then show ?thesis using b(4) i \<open>has_ocsp_no_check ?leaf\<close> by (auto simp: path_accepted_def)
    qed
    then show ?thesis
      using cert_checked_shim [OF revocation_passed_checked [OF b(5) i]] by (auto simp: shim_def)
  qed
  moreover from d obtain tbs_der where "names_match (issuer (tbs ?leaf)) (subject (tbs iss))"
      "enc_tbs cd (tbs ?leaf) = Ok tbs_der"
      "default_verifier cb (signature_algorithm ?leaf) (subject_public_key_info (tbs iss)) tbs_der
         (raw_bytes (cert_signature ?leaf)) = Inr ()"
    by (auto simp: verify_responder_is_delegated_by_def and_then_Ok_iff map_err_Ok_iff split: if_splits)
  moreover from this(3) obtain bk where "map_of (supported_backends cb) (alg_oid (signature_algorithm ?leaf)) = Some bk"
      "backend_accepts bk (subject_public_key_info (tbs iss)) tbs_der (raw_bytes (cert_signature ?leaf))"
    by (auto simp: default_verifier_Ok)
  ultimately show ?thesis using b
    by (intro exI [of _ built] exI [of _ bk] exI [of _ tbs_der]) (auto simp: list_all_iff)
qed

definition ex_backend :: sig_backend where
  "ex_backend = \<lparr> vk_try_from = (\<lambda>k. Some (raw_bytes (subject_public_key k))), sig_try_from = Some,
     vk_verify = (\<lambda>k m s. s = m @ k) \<rparr>"

definition ex_backends :: crypto_backends where
  "ex_backends = \<lparr> p256 = ex_backend, p384 = ex_backend, rsa_sha256 = ex_backend, rsa_sha384 = ex_backend,
     rsa_sha512 = ex_backend \<rparr>"

definition ex_p256_cert :: "u8 \<Rightarrow> u8 \<Rightarrow> extension list \<Rightarrow> certificate" where
  "ex_p256_cert k i exts =
     (let alg = \<lparr> alg_oid = OID_ECDSA_P256_SHA256, alg_parameters = None \<rparr>; c = ex_cert k i exts
      in c\<lparr> signature_algorithm := alg, tbs := (tbs c)\<lparr> tbs_signature := alg \<rparr> \<rparr>)"

definition ex_responder_cert :: certificate where
  "ex_responder_cert = ex_p256_cert 8 1 [(ex_ext OID_OCSP_NO_CHECK [])\<lparr> critical := False \<rparr>]"

theorem verify_ocsp_responder_sound_witness:
  "\<exists>b tbs_der. map_of (supported_backends ex_backends) OID_ECDSA_P256_SHA256 = Some b \<and>
     backend_accepts b (ex_key 1) tbs_der [8, 1]"
proof -
  have "map_option is_ok (verify_ocsp_responder ex_chain_codec ex_backends [ex_responder_cert] [ex_anchor 1]
      (ex_ca 1 0 []) validation_policy_new 150 (default_verifier ex_backends) no_revocation no_aia_fetcher)
      = Some True"
    by code_simp
  then obtain vp where "verify_ocsp_responder ex_chain_codec ex_backends [ex_responder_cert] [ex_anchor 1]
      (ex_ca 1 0 []) validation_policy_new 150 (default_verifier ex_backends) no_revocation no_aia_fetcher
      = Some (Ok vp)"
    by (auto simp: is_ok_iff)
  from verify_ocsp_responder_sound [OF this] show ?thesis
    by (auto simp: ex_responder_cert_def ex_p256_cert_def ex_ca_def ex_cert_def Let_def)
qed

lemma sole_purpose_Ok:
  "(case eku of [oid] \<Rightarrow> if oid = p then Ok () else Err e | _ \<Rightarrow> Err e) = Inr u \<longleftrightarrow> eku = [p]"
  by (auto split: list.splits)

text \<open>
  A time stamping authority is accepted only when its chain is accepted and the leaf carries a
  critical extended key usage extension with time stamping as its only purpose, and a key usage, when
  present, for signing only.
\<close>

theorem verify_time_stamper_sound:
  assumes "verify_time_stamper cd chain anchors profile now_unix v rc aia = Some (Ok vp)"
  shows "(\<exists>built. built \<noteq> [] \<and> built ! 0 = chain ! 0 \<and>
       path_accepted cd v (profile now_unix) built (anchors ! vp_anchor_index vp) \<and>
       revocation_passed rc built (anchors ! vp_anchor_index vp)) \<and>
     (\<exists>e. find_ext (chain ! 0) OID_EXTENDED_KEY_USAGE = Some e \<and> critical e \<and>
        dec_extended_key_usage cd (extn_value e) = Ok [ID_KP_TIME_STAMPING]) \<and>
     (find_ext (chain ! 0) OID_KEY_USAGE = None \<or>
      (\<exists>e ku. find_ext (chain ! 0) OID_KEY_USAGE = Some e \<and> dec_key_usage cd (extn_value e) = Ok ku \<and>
         list_all (\<lambda>bit. bit ku = False) [ku_key_encipherment, ku_data_encipherment, ku_key_agreement,
           ku_key_cert_sign, ku_crl_sign, ku_encipher_only, ku_decipher_only]))"
proof -
  from assms have c: "verify_chain cd chain anchors (profile now_unix) v rc aia = Some (Inr vp)"
    and eku: "enforce_timestamping_eku_critical_and_sole cd (chain ! 0) = Inr ()"
    and ku: "enforce_timestamping_ku_shape cd (chain ! 0) = Inr ()"
    by (auto simp: verify_time_stamper_def panic_then_Ok index_or_panic_Some and_then_Ok_iff)
  have "\<exists>e. find_ext (chain ! 0) OID_EXTENDED_KEY_USAGE = Some e \<and> critical e \<and>
      dec_extended_key_usage cd (extn_value e) = Ok [ID_KP_TIME_STAMPING]"
    using eku by (auto simp: enforce_timestamping_eku_critical_and_sole_def Let_def and_then_Ok_iff ok_or_Ok_iff
        map_err_Ok_iff find_ext_def cert_exts_def sole_purpose_Ok split: if_split_asm)
  moreover have "find_ext (chain ! 0) OID_KEY_USAGE = None \<or>
      (\<exists>e ku. find_ext (chain ! 0) OID_KEY_USAGE = Some e \<and> dec_key_usage cd (extn_value e) = Ok ku \<and>
         list_all (\<lambda>bit. bit ku = False) [ku_key_encipherment, ku_data_encipherment, ku_key_agreement,
           ku_key_cert_sign, ku_crl_sign, ku_encipher_only, ku_decipher_only])"
    using ku by (auto simp: enforce_timestamping_ku_shape_def and_then_Ok_iff map_err_Ok_iff find_ext_def
        cert_exts_def split: option.splits if_split_asm)
  ultimately show ?thesis
    using verify_one_vouched [OF c [unfolded verify_chain_def]] by (auto simp: chain_vouched_def verifier_new_def)
qed

theorem verify_time_stamper_sound_witness:
  "\<exists>e. find_ext (ex_cert 5 1 [ex_ext OID_EXTENDED_KEY_USAGE [8], ex_ext OID_KEY_USAGE [1]]) OID_EXTENDED_KEY_USAGE
      = Some e \<and> dec_extended_key_usage ex_chain_codec (extn_value e) = Ok [ID_KP_TIME_STAMPING]"
proof -
  have "map_option is_ok (verify_time_stamper ex_chain_codec
      [ex_cert 5 1 [ex_ext OID_EXTENDED_KEY_USAGE [8], ex_ext OID_KEY_USAGE [1]]] [ex_anchor 1]
      validation_policy_new 150 ex_verifier no_revocation no_aia_fetcher) = Some True"
    by code_simp
  then obtain vp where "verify_time_stamper ex_chain_codec
      [ex_cert 5 1 [ex_ext OID_EXTENDED_KEY_USAGE [8], ex_ext OID_KEY_USAGE [1]]] [ex_anchor 1]
      validation_policy_new 150 ex_verifier no_revocation no_aia_fetcher = Some (Ok vp)"
    by (auto simp: is_ok_iff)
  from verify_time_stamper_sound [OF this] show ?thesis by auto
qed

text \<open>
  Without a fetcher the verifier still reassembles: a chain with a stray certificate in the middle,
  which fails positionally, is accepted after reordering, although the documentation of \<open>verify_one\<close>
  says that \<open>NoAiaFetcher\<close> keeps the semantics of a complete supplied chain; and without URIs to try
  the error is the builder's, not \<open>Aia(FetchingDisabled)\<close> as it says.
\<close>

theorem no_aia_still_reassembles:
  "let verify = (\<lambda>chain. verify_chain ex_chain_codec chain [ex_anchor 1] ex_policy_150 ex_verifier
         no_revocation no_aia_fetcher);
       stray = [ex_cert 3 2 [], ex_ca 4 1 [], ex_ca 2 1 []]
   in \<not> is_ok (validate_path ex_chain_codec stray [ex_anchor 1] ex_policy_150 ex_verifier) \<and>
      map_option is_ok (verify stray) = Some True \<and>
      verify [ex_cert 3 2 []] = Some (Err (PathBuild NoPathFound))"
  unfolding Let_def by code_simp

end
