(* ===== verification/Sct.thy ===== *)
theory Sct
  imports Aia
begin

text \<open>
  Signed certificate timestamps, \<open>pkix-ct\<close>: the error type of \<open>lib.rs\<close>, the wire parser of \<open>sct.rs\<close>
  and the delivery channels of \<open>delivery.rs\<close>. A cursor is the slice still to be read. The parser is
  shown to accept exactly the encodings of well-formed lists.
\<close>

section \<open>Errors\<close>

datatype ct_error =
    NoScts
  | InvalidSignature
  | ParseError
  | UnsupportedVersion u8
  | TruncatedOrTrailing
  | UnknownLog
  | UnsupportedSignatureAlgorithm u8 u8
  | LogKeyMalformed
  | SctTimestampOutsideLogWindow
  | CertDerTooLong
  | LeafMissingSctList
  | MerkleProofInvalid
  | MerkleProofMalformed

type_synonym 'a ct_result = "ct_error + 'a"

fun display_ct_error :: "ct_error \<Rightarrow> string" where
  "display_ct_error NoScts = ''certificate contains no SCTs''"
| "display_ct_error InvalidSignature = ''SCT signature invalid''"
| "display_ct_error ParseError = ''SCT list parse error''"
| "display_ct_error (UnsupportedVersion v) =
     ''unsupported SCT version: '' @ show_nat (unat v) @ '' (only v1 / version=0 is supported)''"
| "display_ct_error TruncatedOrTrailing = ''SCT or SCT list bytes were truncated or had trailing data''"
| "display_ct_error UnknownLog = ''SCT log_id not present in the log list''"
| "display_ct_error (UnsupportedSignatureAlgorithm hash_alg sig_alg) =
     ''SCT signature algorithm not supported: hash_alg='' @ show_nat (unat hash_alg)
       @ '', sig_alg='' @ show_nat (unat sig_alg)"
| "display_ct_error LogKeyMalformed = ''CT log key_der is not a valid SubjectPublicKeyInfo''"
| "display_ct_error SctTimestampOutsideLogWindow = ''SCT timestamp falls outside the log's usable window''"
| "display_ct_error CertDerTooLong = ''certificate DER exceeds the 2^24 - 1 octet ASN.1Cert limit''"
| "display_ct_error LeafMissingSctList = ''leaf certificate does not contain the SCT-list extension''"
| "display_ct_error MerkleProofInvalid = ''Merkle inclusion proof failed verification''"
| "display_ct_error MerkleProofMalformed = ''Merkle inclusion proof has invalid shape''"

section \<open>Big-endian integers\<close>

text \<open>\<open>to_be_bytes\<close> and \<open>from_be_bytes\<close> at any width, on naturals; a byte is the value modulo 256.\<close>

primrec be_bytes :: "nat \<Rightarrow> nat \<Rightarrow> bytes" where
  "be_bytes 0 v = []"
| "be_bytes (Suc n) v = be_bytes n (v div 256) @ [of_nat v]"

definition from_be :: "bytes \<Rightarrow> nat" where
  "from_be bs = foldl (\<lambda>acc b. acc * 256 + unat b) 0 bs"

section \<open>The cursor\<close>

definition read_bytes :: "nat \<Rightarrow> bytes \<Rightarrow> (bytes \<times> bytes) ct_result" where
  "read_bytes n data = (if length data < n then Err TruncatedOrTrailing else Ok (take n data, drop n data))"

definition read_u8 :: "bytes \<Rightarrow> (u8 \<times> bytes) ct_result" where
  "read_u8 data = and_then (read_bytes 1 data) (\<lambda>(bs, data). Ok (bs ! 0, data))"

definition read_u16_be :: "bytes \<Rightarrow> (u16 \<times> bytes) ct_result" where
  "read_u16_be data = and_then (read_bytes 2 data) (\<lambda>(bs, data). Ok (of_nat (from_be bs), data))"

definition read_u64_be :: "bytes \<Rightarrow> (u64 \<times> bytes) ct_result" where
  "read_u64_be data = and_then (read_bytes 8 data) (\<lambda>(bs, data). Ok (of_nat (from_be bs), data))"

definition read_u16_prefixed :: "bytes \<Rightarrow> (bytes \<times> bytes) ct_result" where
  "read_u16_prefixed data = and_then (read_u16_be data) (\<lambda>(len, data). read_bytes (unat len) data)"

section \<open>Signed certificate timestamps\<close>

record sct =
  sct_version :: u8
  log_id :: bytes
  timestamp_ms :: u64
  sct_extensions :: bytes
  hash_alg :: u8
  sig_alg :: u8
  sct_signature :: bytes

definition sct_new :: "u8 \<Rightarrow> bytes \<Rightarrow> u64 \<Rightarrow> bytes \<Rightarrow> u8 \<Rightarrow> u8 \<Rightarrow> bytes \<Rightarrow> sct" where
  "sct_new version lid ts exts hash sig signature =
     \<lparr> sct_version = version, log_id = lid, timestamp_ms = ts, sct_extensions = exts, hash_alg = hash,
       sig_alg = sig, sct_signature = signature \<rparr>"

definition sct_read :: "bytes \<Rightarrow> (sct \<times> bytes) ct_result" where
  "sct_read cur =
     and_then (read_u8 cur) (\<lambda>(version, cur).
     if version \<noteq> 0 then Err (UnsupportedVersion version)
     else and_then (read_bytes 32 cur) (\<lambda>(lid, cur).
     and_then (read_u64_be cur) (\<lambda>(ts, cur).
     and_then (read_u16_prefixed cur) (\<lambda>(exts, cur).
     and_then (read_u8 cur) (\<lambda>(hash, cur).
     and_then (read_u8 cur) (\<lambda>(sig, cur).
     and_then (read_u16_prefixed cur) (\<lambda>(signature, cur).
     Ok (\<lparr> sct_version = version, log_id = lid, timestamp_ms = ts, sct_extensions = exts, hash_alg = hash,
           sig_alg = sig, sct_signature = signature \<rparr>, cur))))))))"

definition sct_from_bytes :: "bytes \<Rightarrow> sct ct_result" where
  "sct_from_bytes input =
     and_then (sct_read input) (\<lambda>(sct, cur). if cur \<noteq> [] then Err TruncatedOrTrailing else Ok sct)"

lemma read_u16_prefixed_shorter:
  "read_u16_prefixed data = Inr (bs, rest) \<Longrightarrow> length rest < length data"
  by (auto simp: read_u16_prefixed_def read_u16_be_def read_bytes_def and_then_Ok_iff split: if_splits)

function sct_list_loop :: "bytes \<Rightarrow> sct list \<Rightarrow> sct list ct_result" where
  "sct_list_loop inner scts =
     (if inner = [] then Ok scts
      else case read_u16_prefixed inner of
             Inl e \<Rightarrow> Err e
           | Inr (sct_bytes, inner') \<Rightarrow>
               (case sct_read sct_bytes of
                  Inl e \<Rightarrow> Err e
                | Inr (sct, sct_cur) \<Rightarrow>
                    if sct_cur \<noteq> [] then Err TruncatedOrTrailing else sct_list_loop inner' (scts @ [sct])))"
  by pat_completeness auto
termination by (relation "measure (\<lambda>(inner, _). length inner)") (auto dest: read_u16_prefixed_shorter)

declare sct_list_loop.simps [simp del]

definition from_serialized_list :: "bytes \<Rightarrow> sct list ct_result" where
  "from_serialized_list bs =
     and_then (read_u16_prefixed bs) (\<lambda>(body, outer).
       if outer \<noteq> [] then Err TruncatedOrTrailing
       else if body = [] then Err ParseError
       else sct_list_loop body [])"

record ct_codec = chain_codec +
  dec_octet_string :: "bytes \<Rightarrow> der_error + bytes"
  dec_spki :: "bytes \<Rightarrow> der_error + spki"
  enc_certificate :: "certificate \<Rightarrow> der_error + bytes"

definition from_extension_value :: "'x ct_codec_scheme \<Rightarrow> bytes \<Rightarrow> sct list ct_result" where
  "from_extension_value cd ext_value =
     and_then (map_err (\<lambda>_. ParseError) (dec_octet_string cd ext_value)) from_serialized_list"

section \<open>Delivery channels\<close>

definition sct_list_from_tls_extension :: "bytes \<Rightarrow> sct list ct_result" where
  "sct_list_from_tls_extension tls_ext_payload = from_serialized_list tls_ext_payload"

definition SCT_OCSP_OID :: oid where "SCT_OCSP_OID = [1, 3, 6, 1, 4, 1, 11129, 2, 4, 5]"

text \<open>The extensions searched, in order: those of every single response, then those of the response.\<close>

definition sct_candidates :: "response_data \<Rightarrow> extension list" where
  "sct_candidates rd =
     concat (map (\<lambda>single. unwrap_or [] (single_extensions single)) (responses rd))
       @ unwrap_or [] (response_extensions rd)"

definition sct_list_from_ocsp_response :: "'x ct_codec_scheme \<Rightarrow> bytes \<Rightarrow> sct list option ct_result" where
  "sct_list_from_ocsp_response cd ocsp_response_der =
     and_then (map_err (\<lambda>_. ParseError) (dec_ocsp_response cd ocsp_response_der)) (\<lambda>response.
       if response_status response \<noteq> Successful then Ok None
       else and_then (ok_or ParseError (ocsp_response_bytes response)) (\<lambda>response_bytes.
         and_then (map_err (\<lambda>_. ParseError) (dec_basic_ocsp cd (rb_response response_bytes))) (\<lambda>basic.
           case find (\<lambda>e. extn_id e = SCT_OCSP_OID) (sct_candidates (tbs_response_data basic)) of
             Some ext \<Rightarrow> map_ok Some (from_extension_value cd (extn_value ext))
           | None \<Rightarrow> Ok None)))"

section \<open>The encoding\<close>

definition enc_u16_prefixed :: "bytes \<Rightarrow> bytes" where
  "enc_u16_prefixed bs = be_bytes 2 (length bs) @ bs"

definition enc_sct :: "sct \<Rightarrow> bytes" where
  "enc_sct s =
     sct_version s # log_id s @ be_bytes 8 (unat (timestamp_ms s)) @ enc_u16_prefixed (sct_extensions s)
       @ [hash_alg s, sig_alg s] @ enc_u16_prefixed (sct_signature s)"

definition enc_sct_list :: "sct list \<Rightarrow> bytes" where
  "enc_sct_list scts = enc_u16_prefixed (concat (map (\<lambda>s. enc_u16_prefixed (enc_sct s)) scts))"

definition sct_wf :: "sct \<Rightarrow> bool" where
  "sct_wf s \<longleftrightarrow> sct_version s = 0 \<and> length (log_id s) = 32 \<and> length (sct_extensions s) < 2 ^ 16 \<and>
     length (sct_signature s) < 2 ^ 16 \<and> length (enc_sct s) < 2 ^ 16"

section \<open>Lemmas\<close>

lemma length_be_bytes [simp]: "length (be_bytes n v) = n"
  by (induction n arbitrary: v) simp_all

lemma from_be_snoc: "from_be (bs @ [b]) = from_be bs * 256 + unat b"
  by (simp add: from_be_def)

lemma unat_u8_mod: "unat (of_nat v :: u8) = v mod 256"
  by (simp add: unat_of_nat)

lemma from_be_be_bytes: "from_be (be_bytes n v) = v mod 256 ^ n"
proof (induction n arbitrary: v)
  case 0
  then show ?case by (simp add: from_be_def)
next
  case (Suc n)
  have "v mod 256 ^ Suc n = v div 256 mod 256 ^ n * 256 + v mod 256"
    by (metis mod_mult2_eq mult.commute power_Suc add.commute)
  then show ?case by (simp add: from_be_snoc Suc unat_u8_mod)
qed

lemma from_be_bound: "from_be bs < 256 ^ length bs"
proof (induction bs rule: rev_induct)
  case Nil
  then show ?case by (simp add: from_be_def)
next
  case (snoc b bs)
  have "unat b < 256" by (rule unat_u8_less)
  with snoc show ?case by (simp add: from_be_snoc)
qed

lemma from_be_Cons: "from_be (b # bs) = unat b * 256 ^ length bs + from_be bs"
proof -
  have "foldl (\<lambda>acc b. acc * 256 + unat b) k bs = k * 256 ^ length bs + foldl (\<lambda>acc b. acc * 256 + unat b) 0 bs"
    for k and bs :: bytes
  proof (induction bs arbitrary: k)
    case (Cons c bs)
    show ?case by (subst (1 2) foldl.simps, subst (1 2) Cons.IH) (simp add: algebra_simps)
  qed simp
  from this [of "unat b" bs] show ?thesis by (simp add: from_be_def)
qed

lemma from_be_Nil [simp]: "from_be [] = 0"
  by (simp add: from_be_def)

lemma be_bytes_from_be: "be_bytes (length bs) (from_be bs) = bs"
proof (induction bs rule: rev_induct)
  case (snoc b bs)
  have b: "unat b < 256" by (rule unat_u8_less)
  then have "(from_be bs * 256 + unat b) div 256 = from_be bs" by simp
  moreover have "(of_nat (from_be bs * 256 + unat b) :: u8) = b"
  proof (rule word_unat_eq_iff [THEN iffD2])
    have "unat (of_nat (from_be bs * 256 + unat b) :: u8) = (from_be bs * 256 + unat b) mod 256"
      by (rule unat_u8_mod)
    also have "\<dots> = unat b" using b by simp
    finally show "unat (of_nat (from_be bs * 256 + unat b) :: u8) = unat b" .
  qed
  ultimately show ?case using snoc by (simp add: from_be_snoc)
qed simp

lemma be_bytes_iff: "bs = be_bytes n v \<longleftrightarrow> length bs = n \<and> from_be bs = v mod 256 ^ n"
  by (metis be_bytes_from_be from_be_be_bytes length_be_bytes)

text \<open>What each reader accepts.\<close>

lemma and_then_pair_Ok: "and_then r (\<lambda>(a, b). f a b) = Inr y \<longleftrightarrow> (\<exists>a b. r = Inr (a, b) \<and> f a b = Inr y)"
  by (auto simp: and_then_Ok_iff)

lemma read_bytes_Ok: "read_bytes n data = Inr (bs, rest) \<longleftrightarrow> length bs = n \<and> data = bs @ rest"
  by (auto simp: read_bytes_def)

lemma read_u8_Ok: "read_u8 data = Inr (b, rest) \<longleftrightarrow> data = b # rest"
proof -
  have "length bs = 1 \<longleftrightarrow> (\<exists>x. bs = [x])" for bs :: bytes by (cases bs) auto
  then show ?thesis by (auto simp: read_u8_def and_then_Ok_iff read_bytes_Ok)
qed

lemma read_word_Ok:
  assumes "LENGTH('a::len) = 8 * n"
  shows "length bs = n \<and> (x :: 'a word) = of_nat (from_be bs) \<longleftrightarrow> bs = be_bytes n (unat x)"
proof -
  have pow: "(256::nat) ^ n = 2 ^ LENGTH('a)" unfolding assms by (simp add: power_mult)
  have x: "unat x < 256 ^ n" unfolding pow by (rule unsigned_less)
  show ?thesis
  proof
    assume h: "length bs = n \<and> x = of_nat (from_be bs)"
    then have "from_be bs < 2 ^ LENGTH('a)" using from_be_bound [of bs] pow by simp
    then have "unat x = from_be bs" using h by (simp add: unat_of_nat)
    then show "bs = be_bytes n (unat x)" using h be_bytes_from_be [of bs] by simp
  next
    assume "bs = be_bytes n (unat x)"
    then show "length bs = n \<and> x = of_nat (from_be bs)"
      using x by (simp add: from_be_be_bytes)
  qed
qed

lemma read_u64_be_Ok: "read_u64_be data = Inr (x, rest) \<longleftrightarrow> data = be_bytes 8 (unat x) @ rest"
proof -
  have "length bs = 8 \<and> x = of_nat (from_be bs) \<longleftrightarrow> bs = be_bytes 8 (unat x)" for bs
    by (rule read_word_Ok) simp
  from this this [of "be_bytes 8 (unat x)"] show ?thesis
    unfolding read_u64_be_def and_then_pair_Ok read_bytes_Ok by (metis Inr_inject prod.inject length_be_bytes)
qed

lemma read_u16_be_Ok: "read_u16_be data = Inr (x, rest) \<longleftrightarrow> data = be_bytes 2 (unat x) @ rest"
proof -
  have "length bs = 2 \<and> x = of_nat (from_be bs) \<longleftrightarrow> bs = be_bytes 2 (unat x)" for bs
    by (rule read_word_Ok) simp
  from this this [of "be_bytes 2 (unat x)"] show ?thesis
    unfolding read_u16_be_def and_then_pair_Ok read_bytes_Ok by (metis Inr_inject prod.inject length_be_bytes)
qed

lemma read_u16_prefixed_Ok:
  "read_u16_prefixed data = Inr (bs, rest) \<longleftrightarrow> length bs < 2 ^ 16 \<and> data = enc_u16_prefixed bs @ rest"
proof
  assume "read_u16_prefixed data = Inr (bs, rest)"
  then obtain len :: u16 where "data = be_bytes 2 (unat len) @ bs @ rest" "length bs = unat len"
    by (auto simp: read_u16_prefixed_def and_then_Ok_iff read_u16_be_Ok read_bytes_Ok)
  moreover have "unat len < 2 ^ 16" using unsigned_less [of len] by simp
  ultimately show "length bs < 2 ^ 16 \<and> data = enc_u16_prefixed bs @ rest"
    by (simp add: enc_u16_prefixed_def)
next
  assume h: "length bs < 2 ^ 16 \<and> data = enc_u16_prefixed bs @ rest"
  then have "unat (of_nat (length bs) :: u16) = length bs" by (simp add: unat_of_nat)
  then have "read_u16_be data = Inr (of_nat (length bs), bs @ rest)"
    using h by (simp add: read_u16_be_Ok enc_u16_prefixed_def)
  then show "read_u16_prefixed data = Inr (bs, rest)"
    using \<open>unat (of_nat (length bs) :: u16) = length bs\<close>
    by (simp add: read_u16_prefixed_def read_bytes_Ok)
qed

lemma sct_read_Ok:
  "sct_read data = Inr (s, rest) \<longleftrightarrow>
     data = enc_sct s @ rest \<and> sct_version s = 0 \<and> length (log_id s) = 32 \<and>
     length (sct_extensions s) < 2 ^ 16 \<and> length (sct_signature s) < 2 ^ 16" (is "_ \<longleftrightarrow> ?wf")
proof
  assume "sct_read data = Inr (s, rest)"
  then show ?wf
    unfolding sct_read_def enc_sct_def
    by (clarsimp simp: and_then_pair_Ok read_u8_Ok read_bytes_Ok read_u64_be_Ok read_u16_prefixed_Ok
        split: if_split_asm)
next
  assume wf: ?wf
  define d6 where "d6 = enc_u16_prefixed (sct_signature s) @ rest"
  define d3 where "d3 = enc_u16_prefixed (sct_extensions s) @ hash_alg s # sig_alg s # d6"
  have r: "read_u8 data = Inr (0, log_id s @ be_bytes 8 (unat (timestamp_ms s)) @ d3)"
      "read_bytes 32 (log_id s @ be_bytes 8 (unat (timestamp_ms s)) @ d3)
         = Inr (log_id s, be_bytes 8 (unat (timestamp_ms s)) @ d3)"
      "read_u64_be (be_bytes 8 (unat (timestamp_ms s)) @ d3) = Inr (timestamp_ms s, d3)"
      "read_u16_prefixed d3 = Inr (sct_extensions s, hash_alg s # sig_alg s # d6)"
      "\<And>b d. read_u8 (b # d) = Inr (b, d)"
      "read_u16_prefixed d6 = Inr (sct_signature s, rest)"
    using wf by (simp_all add: read_u8_Ok read_bytes_Ok read_u64_be_Ok read_u16_prefixed_Ok d3_def d6_def enc_sct_def)
  have "\<lparr> sct_version = 0, log_id = log_id s, timestamp_ms = timestamp_ms s, sct_extensions = sct_extensions s,
      hash_alg = hash_alg s, sig_alg = sig_alg s, sct_signature = sct_signature s \<rparr> = s"
    using wf by (cases s) simp
  then show "sct_read data = Inr (s, rest)" by (simp add: sct_read_def r)
qed

lemma enc_u16_prefixed_not_Nil: "enc_u16_prefixed bs \<noteq> []"
  by (simp add: enc_u16_prefixed_def flip: length_0_conv)

lemma sct_list_loop_Ok:
  "sct_list_loop inner acc = Inr scts \<longleftrightarrow>
     (\<exists>more. scts = acc @ more \<and> list_all sct_wf more \<and>
        inner = concat (map (\<lambda>s. enc_u16_prefixed (enc_sct s)) more))"
proof (induction inner acc rule: sct_list_loop.induct)
  case (1 inner acc)
  let ?enc = "\<lambda>s. enc_u16_prefixed (enc_sct s)"
  show ?case
  proof (cases "inner = []")
    case True
    have "concat (map ?enc more) = [] \<longleftrightarrow> more = []" for more
      by (cases more) (simp_all add: enc_u16_prefixed_not_Nil)
    with True show ?thesis by (auto simp: sct_list_loop.simps [of "[]"])
  next
    case False
    have step: "sct_list_loop inner acc = Inr scts \<longleftrightarrow>
        (\<exists>s inner'. inner = ?enc s @ inner' \<and> sct_wf s \<and> sct_list_loop inner' (acc @ [s]) = Inr scts)"
      (is "_ \<longleftrightarrow> ?step")
    proof
      assume "sct_list_loop inner acc = Inr scts"
      with False obtain bs inner' s where "read_u16_prefixed inner = Inr (bs, inner')"
          "sct_read bs = Inr (s, [])" "sct_list_loop inner' (acc @ [s]) = Inr scts"
        by (auto simp: sct_list_loop.simps [of inner] split: sum.splits if_splits)
      then show ?step by (auto simp: read_u16_prefixed_Ok sct_read_Ok sct_wf_def)
    next
      assume ?step
      then obtain s inner' where "inner = ?enc s @ inner'" "sct_wf s" "sct_list_loop inner' (acc @ [s]) = Inr scts"
        by blast
      moreover from this have "read_u16_prefixed inner = Inr (enc_sct s, inner')" "sct_read (enc_sct s) = Inr (s, [])"
        by (simp_all add: read_u16_prefixed_Ok sct_read_Ok sct_wf_def)
      ultimately show "sct_list_loop inner acc = Inr scts"
        using False by (subst sct_list_loop.simps) (simp add: enc_u16_prefixed_not_Nil)
    qed
    have IH: "sct_list_loop inner' (acc @ [s]) = Inr scts \<longleftrightarrow>
        (\<exists>more. scts = acc @ s # more \<and> list_all sct_wf more \<and> inner' = concat (map ?enc more))"
      if "inner = ?enc s @ inner'" "sct_wf s" for s inner'
    proof -
      from that have "read_u16_prefixed inner = Inr (enc_sct s, inner')" "sct_read (enc_sct s) = Inr (s, [])"
        by (simp_all add: read_u16_prefixed_Ok sct_read_Ok sct_wf_def)
      from 1 [OF False this(1) refl this(2) refl] show ?thesis by simp
    qed
    show ?thesis
    proof
      assume "sct_list_loop inner acc = Inr scts"
      with step obtain s inner' where s: "inner = ?enc s @ inner'" "sct_wf s" "sct_list_loop inner' (acc @ [s]) = Inr scts"
        by blast
      with IH obtain more where "scts = acc @ s # more" "list_all sct_wf more" "inner' = concat (map ?enc more)"
        by blast
      with s show "\<exists>more. scts = acc @ more \<and> list_all sct_wf more \<and> inner = concat (map ?enc more)"
        by (intro exI [of _ "s # more"]) simp
    next
      assume "\<exists>more. scts = acc @ more \<and> list_all sct_wf more \<and> inner = concat (map ?enc more)"
      then obtain more where m: "scts = acc @ more" "list_all sct_wf more" "inner = concat (map ?enc more)"
        by blast
      with False obtain s more' where "more = s # more'" by (cases more) auto
      with m IH [of s "concat (map ?enc more')"] step show "sct_list_loop inner acc = Inr scts" by auto
    qed
  qed
qed

section \<open>Properties\<close>

text \<open>
  C26. The SCT list parser accepts exactly the encodings of non-empty lists of well-formed version 1
  timestamps, and gives back the list encoded: nothing truncated, nothing trailing, and no second
  encoding of the same list.
\<close>

theorem sct_list_parse_exact:
  "from_serialized_list bs = Ok scts \<longleftrightarrow>
     scts \<noteq> [] \<and> list_all sct_wf scts \<and> length (enc_sct_list scts) < 2 ^ 16 + 2 \<and> bs = enc_sct_list scts"
proof -
  define body where "body = concat (map (\<lambda>s. enc_u16_prefixed (enc_sct s)) scts)"
  have e: "enc_sct_list scts = enc_u16_prefixed body" by (simp add: enc_sct_list_def body_def)
  have l: "length (enc_sct_list scts) = length body + 2" by (simp add: e enc_u16_prefixed_def)
  have n: "body = [] \<longleftrightarrow> scts = []"
    unfolding body_def by (cases scts) (simp_all add: enc_u16_prefixed_not_Nil)
  have loop: "sct_list_loop b [] = Inr scts \<longleftrightarrow> list_all sct_wf scts \<and> b = body" for b
    unfolding body_def by (simp add: sct_list_loop_Ok)
  have "from_serialized_list bs = Ok scts \<longleftrightarrow>
      (\<exists>b. read_u16_prefixed bs = Inr (b, []) \<and> b \<noteq> [] \<and> sct_list_loop b [] = Inr scts)"
    by (auto simp: from_serialized_list_def and_then_pair_Ok split: if_split_asm)
  then show ?thesis
    unfolding loop read_u16_prefixed_Ok using n l e by auto
qed

text \<open>
  An empty list is a parse error, so the documented \<open>NoScts\<close> for an empty serialised list does not
  occur.
\<close>

lemma empty_sct_list: "from_serialized_list [0, 0] = Err ParseError"
  by code_simp

end
