(* ===== verification/Merkle.thy ===== *)
theory Merkle
  imports Sct
begin

text \<open>
  Merkle inclusion proofs, the hash-only part of \<open>pkix-ct/src/verify.rs\<close>. The verifier is the bottom-up
  loop of RFC 9162 on 64-bit counters; the specification is the recursive tree hash and audit path of
  RFC 6962, section 2.1, split at the largest power of two. Between them stands a tree computed level
  by level, which both are shown to agree with.
\<close>

section \<open>The verifier\<close>

definition inner_hash :: "'x revocation_codec_scheme \<Rightarrow> bytes \<Rightarrow> bytes \<Rightarrow> bytes" where
  "inner_hash cd left right = sha256 cd (0x01 # left @ right)"

definition merkle_leaf_hash :: "'x revocation_codec_scheme \<Rightarrow> bytes \<Rightarrow> bytes" where
  "merkle_leaf_hash cd leaf_bytes = sha256 cd (0x00 # leaf_bytes)"

record merkle_audit_path =
  leaf_index :: u64
  tree_size :: u64
  audit_path :: "bytes list"

definition merkle_audit_path_new :: "u64 \<Rightarrow> u64 \<Rightarrow> bytes list \<Rightarrow> merkle_audit_path" where
  "merkle_audit_path_new i n path = \<lparr> leaf_index = i, tree_size = n, audit_path = path \<rparr>"

text \<open>\<open>u64::leading_zeros\<close>.\<close>

fun bit_len :: "nat \<Rightarrow> nat" where
  "bit_len n = (if n = 0 then 0 else Suc (bit_len (n div 2)))"

declare bit_len.simps [simp del]

definition leading_zeros :: "u64 \<Rightarrow> nat" where
  "leading_zeros w = 64 - bit_len (unat w)"

definition max_audit_len :: "u64 \<Rightarrow> nat" where
  "max_audit_len n = (if n \<le> 1 then 0 else 64 - leading_zeros (n - 1))"

lemma unat_shift [simp]: "unat (drop_bit (Suc 0) w) = unat w div 2" for w :: u64
  by (simp add: drop_bit_Suc unat_div)

text \<open>\<open>while (fn_ & 1) == 0 && fn_ != 0\<close>.\<close>

function shift_both :: "u64 \<Rightarrow> u64 \<Rightarrow> u64 \<times> u64" where
  "shift_both fn sn =
     (if fn AND 1 = 0 \<and> fn \<noteq> 0 then shift_both (drop_bit 1 fn) (drop_bit 1 sn) else (fn, sn))"
  by pat_completeness auto
termination
proof (relation "measure (\<lambda>(fn, _). unat fn)")
  fix fn sn :: u64
  assume "fn AND 1 = 0 \<and> fn \<noteq> 0"
  then have "0 < unat fn" by (simp add: unat_gt_0)
  then show "((drop_bit 1 fn, drop_bit 1 sn), (fn, sn)) \<in> measure (\<lambda>(fn, _). unat fn)"
    by (simp del: drop_bit_Suc)
qed simp

declare shift_both.simps [simp del]

fun inclusion_loop ::
  "'x revocation_codec_scheme \<Rightarrow> u64 \<Rightarrow> u64 \<Rightarrow> bytes \<Rightarrow> bytes list \<Rightarrow> (u64 \<times> bytes) ct_result" where
  "inclusion_loop cd fn sn r [] = Ok (sn, r)"
| "inclusion_loop cd fn sn r (p # path) =
     (if sn = 0 then Err MerkleProofMalformed
      else let (r, fn, sn) =
                 (if fn AND 1 = 1 \<or> fn = sn
                  then let (fn', sn') = shift_both fn sn in (inner_hash cd p r, fn', sn')
                  else (inner_hash cd r p, fn, sn))
           in inclusion_loop cd (drop_bit 1 fn) (drop_bit 1 sn) r path)"

definition verify_inclusion_inner ::
  "'x revocation_codec_scheme \<Rightarrow> bytes \<Rightarrow> merkle_audit_path \<Rightarrow> bytes \<Rightarrow> unit ct_result" where
  "verify_inclusion_inner cd leaf_hash proof expected_root =
     (if tree_size proof = 0 then Err MerkleProofMalformed
      else if leaf_index proof \<ge> tree_size proof then Err MerkleProofInvalid
      else if length (audit_path proof) > max_audit_len (tree_size proof) then Err MerkleProofMalformed
      else and_then (inclusion_loop cd (leaf_index proof) (tree_size proof - 1) leaf_hash (audit_path proof))
             (\<lambda>(sn, r). if sn \<noteq> 0 then Err MerkleProofMalformed
                       else if r \<noteq> expected_root then Err MerkleProofInvalid
                       else Ok ()))"

section \<open>The recursive specification\<close>

text \<open>The largest power of two below \<open>n\<close>, for \<open>n > 1\<close>.\<close>

definition split_point :: "nat \<Rightarrow> nat" where
  "split_point n = 2 ^ (bit_len (n - 1) - 1)"

lemma bit_len_bounds: "0 < n \<Longrightarrow> 2 ^ (bit_len n - 1) \<le> n \<and> n < 2 ^ bit_len n \<and> 0 < bit_len n"
proof (induction n rule: bit_len.induct)
  case (1 n)
  show ?case
  proof (cases "n div 2 = 0")
    case True
    with 1 have "n = 1" by linarith
    then show ?thesis by (simp add: bit_len.simps)
  next
    case False
    with 1 obtain m where m: "bit_len (n div 2) = Suc m" "2 ^ m \<le> n div 2" "n div 2 < 2 ^ Suc m"
      by (cases "bit_len (n div 2)") auto
    have "bit_len n = Suc (Suc m)" using 1 m(1) by (subst bit_len.simps) simp
    moreover have "2 ^ Suc m \<le> n" "n < 2 ^ Suc (Suc m)" using m(2,3) by simp_all
    ultimately show ?thesis by simp
  qed
qed

lemma split_point_less: "1 < n \<Longrightarrow> 0 < split_point n \<and> split_point n < n \<and> n \<le> 2 * split_point n"
proof -
  assume "1 < n"
  then obtain m where "bit_len (n - 1) = Suc m" "2 ^ m \<le> n - 1" "n - 1 < 2 ^ Suc m"
    using bit_len_bounds [of "n - 1"] by (cases "bit_len (n - 1)") simp_all
  moreover have "2 ^ m < n" "n \<le> 2 * 2 ^ m"
    using \<open>1 < n\<close> calculation(2,3) unfolding power_Suc by linarith+
  ultimately show ?thesis by (simp add: split_point_def)
qed

lemma split_point_rest: "1 < n \<Longrightarrow> n - split_point n < n"
  using split_point_less [of n] by simp

text \<open>\<open>MTH\<close> and \<open>PATH\<close> of RFC 6962 over a list of leaf hashes and a hash of two nodes.\<close>

function tree_hash :: "('h \<Rightarrow> 'h \<Rightarrow> 'h) \<Rightarrow> 'h list \<Rightarrow> 'h" where
  "tree_hash node xs =
     (if length xs \<le> 1 then hd xs
      else let k = split_point (length xs) in node (tree_hash node (take k xs)) (tree_hash node (drop k xs)))"
  by pat_completeness auto
termination
  by (relation "measure (\<lambda>(_, xs). length xs)") (auto simp: not_le split_point_less split_point_rest)

function tree_path :: "('h \<Rightarrow> 'h \<Rightarrow> 'h) \<Rightarrow> nat \<Rightarrow> 'h list \<Rightarrow> 'h list" where
  "tree_path node i xs =
     (if length xs \<le> 1 then []
      else let k = split_point (length xs)
           in if i < k then tree_path node i (take k xs) @ [tree_hash node (drop k xs)]
              else tree_path node (i - k) (drop k xs) @ [tree_hash node (take k xs)])"
  by pat_completeness auto
termination
  by (relation "measure (\<lambda>(_, _, xs). length xs)") (auto simp: not_le split_point_less split_point_rest)

declare tree_hash.simps [simp del] tree_path.simps [simp del]

section \<open>The tree level by level\<close>

fun pair_up :: "('h \<Rightarrow> 'h \<Rightarrow> 'h) \<Rightarrow> 'h list \<Rightarrow> 'h list" where
  "pair_up node (x # y # rest) = node x y # pair_up node rest"
| "pair_up node xs = xs"

lemma length_pair_up: "length (pair_up node xs) = (length xs + 1) div 2"
  by (induction node xs rule: pair_up.induct) auto

function level_hash :: "('h \<Rightarrow> 'h \<Rightarrow> 'h) \<Rightarrow> 'h list \<Rightarrow> 'h" where
  "level_hash node xs = (if length xs \<le> 1 then hd xs else level_hash node (pair_up node xs))"
  by pat_completeness auto
termination by (relation "measure (\<lambda>(_, xs). length xs)") (auto simp: length_pair_up)

text \<open>The siblings on the way up: none on a level where the node is the odd one out.\<close>

function level_path :: "('h \<Rightarrow> 'h \<Rightarrow> 'h) \<Rightarrow> nat \<Rightarrow> 'h list \<Rightarrow> 'h list" where
  "level_path node i xs =
     (if length xs \<le> 1 then []
      else (if odd i then [xs ! (i - 1)] else if i + 1 < length xs then [xs ! (i + 1)] else [])
             @ level_path node (i div 2) (pair_up node xs))"
  by pat_completeness auto
termination by (relation "measure (\<lambda>(_, _, xs). length xs)") (auto simp: length_pair_up)

declare level_hash.simps [simp del] level_path.simps [simp del]

section \<open>The two trees agree\<close>

lemma pair_up_append: "even (length xs) \<Longrightarrow> pair_up node (xs @ ys) = pair_up node xs @ pair_up node ys"
  by (induction node xs rule: pair_up.induct) auto

lemma level_hash_single: "level_hash node [x] = x"
  by (simp add: level_hash.simps)

lemma level_hash_pair_up: "xs \<noteq> [] \<Longrightarrow> level_hash node (pair_up node xs) = level_hash node xs"
proof (cases "length xs \<le> 1")
  case True
  moreover assume "xs \<noteq> []"
  ultimately obtain x where "xs = [x]" by (cases xs) auto
  then show ?thesis by simp
next
  case False
  then show ?thesis by (subst (2) level_hash.simps) simp
qed

lemma level_hash_append:
  "length xs = 2 ^ m \<Longrightarrow> 0 < length ys \<Longrightarrow> length ys \<le> 2 ^ m \<Longrightarrow>
     level_hash node (xs @ ys) = node (level_hash node xs) (level_hash node ys)"
proof (induction m arbitrary: xs ys)
  case 0
  then obtain x y where "xs = [x]" "ys = [y]" by (cases xs; cases ys) auto
  then show ?case by (simp add: level_hash.simps [of node "[x, y]"] level_hash_single)
next
  case (Suc m)
  have ne: "xs \<noteq> []" "ys \<noteq> []" and ev: "even (length xs)" using Suc.prems by auto
  have "level_hash node (xs @ ys) = level_hash node (pair_up node xs @ pair_up node ys)"
    using level_hash_pair_up [of "xs @ ys" node] ne ev by (simp add: pair_up_append)
  also have "\<dots> = node (level_hash node (pair_up node xs)) (level_hash node (pair_up node ys))"
    by (rule Suc.IH) (use Suc.prems in \<open>auto simp: length_pair_up\<close>)
  finally show ?case using ne by (simp add: level_hash_pair_up)
qed

lemma split_point_power: "\<exists>m. split_point n = 2 ^ m"
  by (simp add: split_point_def)

lemma tree_hash_level: "tree_hash node xs = level_hash node xs"
proof (induction node xs rule: tree_hash.induct)
  case (1 node xs)
  show ?case
  proof (cases "length xs \<le> 1")
    case True
    then show ?thesis by (simp add: tree_hash.simps level_hash.simps)
  next
    case False
    let ?k = "split_point (length xs)"
    have k: "0 < ?k" "?k < length xs" "length xs \<le> 2 * ?k" using False split_point_less [of "length xs"] by auto
    obtain m where m: "?k = 2 ^ m" using split_point_power by blast
    have "level_hash node (take ?k xs @ drop ?k xs) =
        node (level_hash node (take ?k xs)) (level_hash node (drop ?k xs))"
      by (rule level_hash_append [where m = m]) (use k m in auto)
    then show ?thesis using 1 [OF False refl] False by (subst tree_hash.simps) (simp add: Let_def)
  qed
qed

text \<open>The same for the paths.\<close>

lemma nth_pair_up:
  assumes "i < length (pair_up node xs)"
  shows "pair_up node xs ! i =
     (if 2 * i + 1 < length xs then node (xs ! (2 * i)) (xs ! (2 * i + 1)) else xs ! (2 * i))"
  using assms
proof (induction node xs arbitrary: i rule: pair_up.induct)
  case (1 node x y rest)
  then show ?case by (cases i) auto
qed auto

lemma level_path_append:
  "length xs = 2 ^ m \<Longrightarrow> 0 < length ys \<Longrightarrow> length ys \<le> 2 ^ m \<Longrightarrow> i < length xs + length ys \<Longrightarrow>
     level_path node i (xs @ ys) =
       (if i < 2 ^ m then level_path node i xs @ [level_hash node ys]
        else level_path node (i - 2 ^ m) ys @ [level_hash node xs])"
proof (induction m arbitrary: xs ys i)
  case 0
  then obtain x y where "xs = [x]" "ys = [y]" by (cases xs; cases ys) auto
  then show ?case using 0
    by (cases i) (auto simp: level_path.simps level_hash_single)
next
  case (Suc m)
  have ne: "xs \<noteq> []" "ys \<noteq> []" and ev: "even (length xs)" using Suc.prems by auto
  have "(1::nat) \<le> 2 ^ m" by simp
  then have big: "\<not> length xs \<le> 1" using Suc.prems(1) unfolding power_Suc by linarith
  have l: "length (pair_up node xs) = 2 ^ m" "0 < length (pair_up node ys)" "length (pair_up node ys) \<le> 2 ^ m"
    using Suc.prems by (auto simp: length_pair_up)
  have half: "i div 2 < length (pair_up node xs) + length (pair_up node ys)"
    using Suc.prems ev by (auto simp: length_pair_up)
  have ih: "level_path node (i div 2) (pair_up node xs @ pair_up node ys) =
      (if i div 2 < 2 ^ m then level_path node (i div 2) (pair_up node xs) @ [level_hash node ys]
       else level_path node (i div 2 - 2 ^ m) (pair_up node ys) @ [level_hash node xs])"
    using Suc.IH [OF l half] ne by (simp add: level_hash_pair_up)
  have top: "level_path node i (xs @ ys) =
      (if odd i then [(xs @ ys) ! (i - 1)] else if i + 1 < length (xs @ ys) then [(xs @ ys) ! (i + 1)] else [])
        @ level_path node (i div 2) (pair_up node xs @ pair_up node ys)"
    using ev big by (subst level_path.simps) (simp add: pair_up_append)
  show ?case
  proof (cases "i < 2 ^ Suc m")
    case True
    have "level_path node i xs =
        (if odd i then [xs ! (i - 1)] else [xs ! (i + 1)]) @ level_path node (i div 2) (pair_up node xs)"
      using True Suc.prems(1) big by (subst level_path.simps) (auto elim!: evenE)
    moreover have "i div 2 < 2 ^ m" using True by simp
    moreover have "i + 1 < length xs" if "even i" using True that Suc.prems(1) by (auto elim!: evenE)
    ultimately show ?thesis using True top ih Suc.prems(1) by (auto simp: nth_append)
  next
    case False
    define j where "j = i - 2 ^ Suc m"
    have i: "i = j + 2 * 2 ^ m" using False by (simp add: j_def)
    have j: "i div 2 - 2 ^ m = j div 2" "odd i \<longleftrightarrow> odd j" "j < length ys" "\<not> i div 2 < 2 ^ m"
      using i Suc.prems(1,4) by auto
    have sib: "(if odd i then [(xs @ ys) ! (i - 1)] else if i + 1 < length (xs @ ys) then [(xs @ ys) ! (i + 1)] else [])
        = (if odd j then [ys ! (j - 1)] else if j + 1 < length ys then [ys ! (j + 1)] else [])"
    proof -
      have "i + 1 = length xs + (j + 1)" using i Suc.prems(1) by simp
      moreover have "i - 1 = length xs + (j - 1)" if "odd j"
        using i Suc.prems(1) odd_pos [OF that] by simp
      ultimately show ?thesis
        by (cases "odd j") (simp_all only: j(2) nth_append_length_plus length_append nat_add_left_cancel_less if_True if_False not_True_eq_False not_False_eq_True simp_thms)
    qed
    have "level_path node j ys =
        (if odd j then [ys ! (j - 1)] else if j + 1 < length ys then [ys ! (j + 1)] else [])
          @ level_path node (j div 2) (pair_up node ys)"
    proof (cases "length ys \<le> 1")
      case True
      with ne obtain y where "ys = [y]" by (cases ys) auto
      with j(3) show ?thesis by (simp add: level_path.simps)
    next
      case False
      then show ?thesis by (subst level_path.simps) simp
    qed
    moreover have "i - 2 * 2 ^ m = j" using i by simp
    ultimately show ?thesis using False top ih sib j by simp
  qed
qed

lemma tree_path_level: "i < length xs \<Longrightarrow> tree_path node i xs = level_path node i xs"
proof (induction node i xs rule: tree_path.induct)
  case (1 node i xs)
  show ?case
  proof (cases "length xs \<le> 1")
    case True
    then show ?thesis by (simp add: tree_path.simps level_path.simps)
  next
    case False
    let ?k = "split_point (length xs)"
    have k: "0 < ?k" "?k < length xs" "length xs \<le> 2 * ?k" using False split_point_less [of "length xs"] by auto
    obtain m where m: "?k = 2 ^ m" using split_point_power by blast
    have "level_path node i (take ?k xs @ drop ?k xs) =
       (if i < 2 ^ m then level_path node i (take ?k xs) @ [level_hash node (drop ?k xs)]
        else level_path node (i - 2 ^ m) (drop ?k xs) @ [level_hash node (take ?k xs)])"
      by (rule level_path_append) (use k m 1(3) in auto)
    then show ?thesis using 1 False k m
      by (subst tree_path.simps) (auto simp: Let_def tree_hash_level)
  qed
qed

section \<open>The pairs that are hashed\<close>

text \<open>In the recursive tree, and level by level.\<close>

function tree_pairs :: "('h \<Rightarrow> 'h \<Rightarrow> 'h) \<Rightarrow> 'h list \<Rightarrow> ('h \<times> 'h) set" where
  "tree_pairs node xs =
     (if length xs \<le> 1 then {}
      else let k = split_point (length xs)
           in insert (tree_hash node (take k xs), tree_hash node (drop k xs))
                (tree_pairs node (take k xs) \<union> tree_pairs node (drop k xs)))"
  by pat_completeness auto
termination
  by (relation "measure (\<lambda>(_, xs). length xs)") (auto simp: not_le split_point_less split_point_rest)

fun adjacent :: "'h list \<Rightarrow> ('h \<times> 'h) list" where
  "adjacent (x # y # rest) = (x, y) # adjacent rest"
| "adjacent xs = []"

function level_pairs :: "('h \<Rightarrow> 'h \<Rightarrow> 'h) \<Rightarrow> 'h list \<Rightarrow> ('h \<times> 'h) set" where
  "level_pairs node xs =
     (if length xs \<le> 1 then {} else set (adjacent xs) \<union> level_pairs node (pair_up node xs))"
  by pat_completeness auto
termination by (relation "measure (\<lambda>(_, xs). length xs)") (auto simp: length_pair_up)

declare tree_pairs.simps [simp del] level_pairs.simps [simp del]

lemma adjacent_append: "even (length xs) \<Longrightarrow> adjacent (xs @ ys) = adjacent xs @ adjacent ys"
  by (induction xs rule: adjacent.induct) auto

lemma level_pairs_step: "level_pairs node xs = set (adjacent xs) \<union> level_pairs node (pair_up node xs)"
proof (cases "length xs \<le> 1")
  case True
  then have "xs = [] \<or> (\<exists>x. xs = [x])" by (cases xs) auto
  then show ?thesis by (elim disjE exE) (simp_all add: level_pairs.simps [of _ "[]"] level_pairs.simps [of _ "[x]" for x])
qed (subst level_pairs.simps, simp)

lemma level_pairs_append:
  "length xs = 2 ^ m \<Longrightarrow> 0 < length ys \<Longrightarrow> length ys \<le> 2 ^ m \<Longrightarrow>
     level_pairs node (xs @ ys) =
       insert (level_hash node xs, level_hash node ys) (level_pairs node xs \<union> level_pairs node ys)"
proof (induction m arbitrary: xs ys)
  case 0
  then obtain x y where "xs = [x]" "ys = [y]" by (cases xs; cases ys) auto
  then show ?case by (simp add: level_pairs.simps level_hash_single)
next
  case (Suc m)
  have ne: "xs \<noteq> []" "ys \<noteq> []" and ev: "even (length xs)" using Suc.prems by auto
  have l: "length (pair_up node xs) = 2 ^ m" "0 < length (pair_up node ys)" "length (pair_up node ys) \<le> 2 ^ m"
    using Suc.prems by (auto simp: length_pair_up)
  have "level_pairs node (xs @ ys) =
      set (adjacent (xs @ ys)) \<union> level_pairs node (pair_up node (xs @ ys))"
    by (rule level_pairs_step)
  also have "\<dots> = set (adjacent xs) \<union> set (adjacent ys) \<union> level_pairs node (pair_up node xs @ pair_up node ys)"
    using ev by (simp add: adjacent_append pair_up_append)
  also have "level_pairs node (pair_up node xs @ pair_up node ys) =
      insert (level_hash node xs, level_hash node ys)
        (level_pairs node (pair_up node xs) \<union> level_pairs node (pair_up node ys))"
    using Suc.IH [OF l] ne by (simp add: level_hash_pair_up)
  finally show ?case
    unfolding level_pairs_step [of node xs] level_pairs_step [of node ys] by blast
qed

lemma tree_pairs_level: "tree_pairs node xs = level_pairs node xs"
proof (induction node xs rule: tree_pairs.induct)
  case (1 node xs)
  show ?case
  proof (cases "length xs \<le> 1")
    case True
    then show ?thesis by (simp add: tree_pairs.simps level_pairs.simps)
  next
    case False
    let ?k = "split_point (length xs)"
    have k: "0 < ?k" "?k < length xs" "length xs \<le> 2 * ?k" using False split_point_less [of "length xs"] by auto
    obtain m where m: "?k = 2 ^ m" using split_point_power by blast
    have "level_pairs node (take ?k xs @ drop ?k xs) =
        insert (level_hash node (take ?k xs), level_hash node (drop ?k xs))
          (level_pairs node (take ?k xs) \<union> level_pairs node (drop ?k xs))"
      by (rule level_pairs_append [where m = m]) (use k m in auto)
    then show ?thesis using 1 [OF False refl] False
      by (subst tree_pairs.simps) (simp add: Let_def tree_hash_level)
  qed
qed

text \<open>By the verifier: the arguments of the calls of \<open>inner_hash\<close>.\<close>

fun loop_pairs ::
  "'x revocation_codec_scheme \<Rightarrow> u64 \<Rightarrow> u64 \<Rightarrow> bytes \<Rightarrow> bytes list \<Rightarrow> (bytes \<times> bytes) set" where
  "loop_pairs cd fn sn r [] = {}"
| "loop_pairs cd fn sn r (p # path) =
     (if sn = 0 then {}
      else let (pair, fn, sn) =
                 (if fn AND 1 = 1 \<or> fn = sn
                  then let (fn', sn') = shift_both fn sn in ((p, r), fn', sn')
                  else ((r, p), fn, sn))
           in insert pair
                (loop_pairs cd (drop_bit 1 fn) (drop_bit 1 sn) (inner_hash cd (fst pair) (snd pair)) path))"

section \<open>The loop climbs the levels\<close>

text \<open>The climb on naturals, one level per step.\<close>

function climb_to_root :: "('h \<Rightarrow> 'h \<Rightarrow> 'h) \<Rightarrow> nat \<Rightarrow> nat \<Rightarrow> 'h \<Rightarrow> 'h list \<Rightarrow> 'h option \<times> ('h \<times> 'h) set" where
  "climb_to_root node fn sn r path =
     (if sn = 0 then (if path = [] then Some r else None, {})
      else if even fn \<and> fn = sn then climb_to_root node (fn div 2) (sn div 2) r path
      else case path of
             [] \<Rightarrow> (None, {})
           | p # ps \<Rightarrow>
               let pair = (if odd fn then (p, r) else (r, p));
                   (root, pairs) = climb_to_root node (fn div 2) (sn div 2) (node (fst pair) (snd pair)) ps
               in (root, insert pair pairs))"
  by pat_completeness auto
termination by (relation "measure (\<lambda>(_, _, sn, _, _). sn)") auto

declare climb_to_root.simps [simp del]

lemma climb_Nil: "climb_to_root node fn sn r [] = (if sn = 0 then Some r else None, {})"
proof (induction sn arbitrary: fn rule: less_induct)
  case (less sn)
  show ?case
  proof (cases "sn \<noteq> 0 \<and> even fn \<and> fn = sn")
    case True
    then have "sn div 2 < sn" "sn div 2 \<noteq> 0" by auto
    with True less show ?thesis by (subst climb_to_root.simps) simp
  next
    case False
    then show ?thesis by (subst climb_to_root.simps) auto
  qed
qed

lemma word_odd: "(w AND 1 = 1) = odd (unat w)" and word_even: "(w AND 1 = 0) = even (unat w)" for w :: u64
proof -
  have "unat (w mod 2) = unat w mod 2" by (simp add: unat_mod)
  then show "(w AND 1 = 1) = odd (unat w)" "(w AND 1 = 0) = even (unat w)"
    unfolding and_one_eq word_unat_eq_iff [of "w mod 2"] by (simp_all add: odd_iff_mod_2_eq_one even_iff_mod_2_eq_zero)
qed

lemma shift_both_climb:
  assumes "w \<noteq> 0"
  shows "\<exists>v. shift_both w w = (v, v) \<and> odd (unat v) \<and>
     climb_to_root node (unat w) (unat w) r path = climb_to_root node (unat v) (unat v) r path"
  using assms
proof (induction "unat w" arbitrary: w rule: less_induct)
  case less
  show ?case
  proof (cases "odd (unat w)")
    case True
    then have "shift_both w w = (w, w)" using word_even [of w] by (subst shift_both.simps) simp
    with True show ?thesis by blast
  next
    case False
    have pos: "0 < unat w" using less.prems by (simp add: unat_gt_0)
    have "unat (drop_bit 1 w) < unat w" "unat (drop_bit 1 w) \<noteq> 0"
      using False pos by (auto elim!: evenE simp del: drop_bit_Suc)
    moreover from this(2) have "drop_bit 1 w \<noteq> 0" by (metis unat_0)
    ultimately obtain v where "shift_both (drop_bit 1 w) (drop_bit 1 w) = (v, v)" "odd (unat v)"
        "climb_to_root node (unat (drop_bit 1 w)) (unat (drop_bit 1 w)) r path = climb_to_root node (unat v) (unat v) r path"
      using less.hyps by blast
    moreover have "shift_both w w = shift_both (drop_bit 1 w) (drop_bit 1 w)"
      using False less.prems word_even [of w] by (subst shift_both.simps) (simp del: drop_bit_Suc)
    moreover have "climb_to_root node (unat w) (unat w) r path =
        climb_to_root node (unat (drop_bit 1 w)) (unat (drop_bit 1 w)) r path"
      using False pos by (subst climb_to_root.simps) (simp del: drop_bit_Suc)
    ultimately show ?thesis by auto
  qed
qed

text \<open>The loop on 64-bit counters is the climb.\<close>

definition loop_root :: "(u64 \<times> bytes) ct_result \<Rightarrow> bytes option" where
  "loop_root res = (case res of Inr (sn, r) \<Rightarrow> if sn = 0 then Some r else None | Inl _ \<Rightarrow> None)"

lemma inclusion_loop_climb:
  "fn \<le> sn \<Longrightarrow>
     (loop_root (inclusion_loop cd fn sn r path), loop_pairs cd fn sn r path) =
       climb_to_root (inner_hash cd) (unat fn) (unat sn) r path"
proof (induction path arbitrary: fn sn r)
  case Nil
  then show ?case by (simp add: climb_Nil loop_root_def unat_eq_0)
next
  case (Cons p path)
  have shifted: "drop_bit 1 a \<le> drop_bit 1 b" if "a \<le> b" for a b :: u64
    using that by (simp add: word_le_nat_alt div_le_mono del: drop_bit_Suc)
  consider (zero) "sn = 0" | (odd) "sn \<noteq> 0" "odd (unat fn)" | (top) "sn \<noteq> 0" "even (unat fn)" "fn = sn"
    | (left) "sn \<noteq> 0" "even (unat fn)" "fn \<noteq> sn"
    by blast
  then show ?case
  proof cases
    case zero
    then show ?thesis by (simp add: climb_to_root.simps loop_root_def)
  next
    case odd
    have "shift_both fn sn = (fn, sn)" using odd word_even [of fn] by (subst shift_both.simps) simp
    moreover have "unat sn \<noteq> 0" using odd by (simp add: unat_eq_0)
    ultimately show ?thesis
      using odd Cons.IH [OF shifted [OF Cons.prems], of "inner_hash cd p r", symmetric] word_odd [of fn]
      by (subst climb_to_root.simps) (simp add: Let_def del: drop_bit_Suc split: prod.splits)
  next
    case top
    then obtain v where v: "shift_both fn sn = (v, v)" "odd (unat v)"
        "climb_to_root (inner_hash cd) (unat fn) (unat sn) r (p # path) =
         climb_to_root (inner_hash cd) (unat v) (unat v) r (p # path)"
      using shift_both_climb [of fn "inner_hash cd" r "p # path"] by auto
    have "climb_to_root (inner_hash cd) (unat v) (unat v) r (p # path) =
        (let (root, pairs) = climb_to_root (inner_hash cd) (unat v div 2) (unat v div 2) (inner_hash cd p r) path
         in (root, insert (p, r) pairs))"
      using v(2) odd_pos [OF v(2)] by (subst climb_to_root.simps) (simp add: Let_def)
    moreover have "inclusion_loop cd fn sn r (p # path) =
        inclusion_loop cd (drop_bit 1 v) (drop_bit 1 v) (inner_hash cd p r) path"
      "loop_pairs cd fn sn r (p # path) =
        insert (p, r) (loop_pairs cd (drop_bit 1 v) (drop_bit 1 v) (inner_hash cd p r) path)"
      using top v(1) by (simp_all del: drop_bit_Suc)
    moreover have "climb_to_root (inner_hash cd) (unat v div 2) (unat v div 2) (inner_hash cd p r) path =
        (loop_root (inclusion_loop cd (drop_bit 1 v) (drop_bit 1 v) (inner_hash cd p r) path),
         loop_pairs cd (drop_bit 1 v) (drop_bit 1 v) (inner_hash cd p r) path)"
      using Cons.IH [OF order.refl, of "drop_bit 1 v" "inner_hash cd p r"] by (simp del: drop_bit_Suc)
    ultimately show ?thesis unfolding v(3) by simp
  next
    case left
    moreover have "unat sn \<noteq> 0" "unat fn \<noteq> unat sn" using left word_unat_eq_iff [of fn sn] by (auto simp: unat_eq_0)
    ultimately show ?thesis
      using Cons.IH [OF shifted [OF Cons.prems], of "inner_hash cd r p", symmetric] word_odd [of fn]
      by (subst climb_to_root.simps) (simp add: Let_def del: drop_bit_Suc split: prod.splits)
  qed
qed

text \<open>The step from a level to the next.\<close>

lemma climb_level:
  assumes "1 < length xs" and "i < length xs"
  obtains (single) "even i" "i + 1 = length xs" "pair_up node xs ! (i div 2) = xs ! i"
      "level_path node i xs = level_path node (i div 2) (pair_up node xs)"
    | (pair) s where "(if odd i then (s, xs ! i) else (xs ! i, s)) \<in> set (adjacent xs)"
      "even i \<Longrightarrow> i + 1 < length xs"
      "pair_up node xs ! (i div 2) = (if odd i then node s (xs ! i) else node (xs ! i) s)"
      "level_path node i xs = s # level_path node (i div 2) (pair_up node xs)"
proof -
  have len: "i div 2 < length (pair_up node xs)" using assms by (simp add: length_pair_up)
  have adj: "2 * k + 1 < length xs \<Longrightarrow> (xs ! (2 * k), xs ! (2 * k + 1)) \<in> set (adjacent xs)" for k
  proof (induction xs arbitrary: k rule: adjacent.induct)
    case (1 x y rest)
    then show ?case by (cases k) auto
  qed auto
  have path: "level_path node i xs =
      (if odd i then [xs ! (i - 1)] else if i + 1 < length xs then [xs ! (i + 1)] else [])
        @ level_path node (i div 2) (pair_up node xs)"
    using assms by (subst level_path.simps) simp
  show ?thesis
  proof (cases "odd i")
    case True
    then obtain k where k: "i = 2 * k + 1" by (elim oddE)
    then show ?thesis using True path nth_pair_up [OF len] adj [of k] assms
      by (intro pair [of "xs ! (i - 1)"]) auto
  next
    case False
    then obtain k where k: "i = 2 * k" by (auto elim: evenE)
    show ?thesis
    proof (cases "i + 1 < length xs")
      case True
      then show ?thesis using False k path nth_pair_up [OF len] adj [of k]
        by (intro pair [of "xs ! (i + 1)"]) auto
    next
      case last_one: False
      then show ?thesis using False k path nth_pair_up [OF len] assms by (intro single) auto
    qed
  qed
qed

lemma climb_step:
  assumes "1 < length xs" and "i < length xs"
  shows "climb_to_root node i (length xs - 1) r path =
     (if even i \<and> i + 1 = length xs
      then climb_to_root node (i div 2) (length (pair_up node xs) - 1) r path
      else case path of
             [] \<Rightarrow> (None, {})
           | p # ps \<Rightarrow>
               let pair = (if odd i then (p, r) else (r, p));
                   (root, pairs) = climb_to_root node (i div 2) (length (pair_up node xs) - 1)
                     (node (fst pair) (snd pair)) ps
               in (root, insert pair pairs))"
proof -
  have "length (pair_up node xs) - 1 = (length xs - 1) div 2"
    using assms by (simp add: length_pair_up)
  moreover have "(length xs - 1 = 0) = False" and "(i = length xs - 1) = (i + 1 = length xs)"
    using assms by auto
  ultimately show ?thesis by (subst climb_to_root.simps) (simp only: if_False)
qed

lemma climb_complete:
  "i < length xs \<Longrightarrow>
     fst (climb_to_root node i (length xs - 1) (xs ! i) (level_path node i xs)) = Some (level_hash node xs)"
proof (induction node i xs rule: level_path.induct)
  case (1 node i xs)
  show ?case
  proof (cases "length xs \<le> 1")
    case True
    with 1 obtain x where "xs = [x]" "i = 0" by (cases xs) auto
    then show ?thesis by (simp add: climb_to_root.simps level_path.simps level_hash_single)
  next
    case False
    then have len: "1 < length xs" by simp
    have half: "i div 2 < length (pair_up node xs)" using 1 by (simp add: length_pair_up)
    have "xs \<noteq> []" using False by auto
    note ih = 1(1) [OF False half, unfolded level_hash_pair_up [OF \<open>xs \<noteq> []\<close>]]
    from len 1(2) show ?thesis
    proof (cases rule: climb_level [where node = node])
      case single
      then show ?thesis using ih unfolding climb_step [OF len 1(2)] by simp
    next
      case (pair s)
      then show ?thesis using ih unfolding climb_step [OF len 1(2)]
        by (auto simp: Let_def split: prod.splits)
    qed
  qed
qed

text \<open>A pair the verifier hashes and a pair of the tree that collide.\<close>

definition collision :: "('h \<Rightarrow> 'h \<Rightarrow> 'h) \<Rightarrow> ('h \<times> 'h) set \<Rightarrow> ('h \<times> 'h) set \<Rightarrow> bool" where
  "collision node V T \<longleftrightarrow>
     (\<exists>(a, b) \<in> V. \<exists>(c, d) \<in> T. (a, b) \<noteq> (c, d) \<and> node a b = node c d)"

lemma collision_mono: "collision node V T \<Longrightarrow> V \<subseteq> V' \<Longrightarrow> T \<subseteq> T' \<Longrightarrow> collision node V' T'"
  unfolding collision_def by blast

lemma climb_sound:
  "i < length xs \<Longrightarrow> climb_to_root node i (length xs - 1) r path = (Some (level_hash node xs), V) \<Longrightarrow>
     (r = xs ! i \<and> path = level_path node i xs) \<or> collision node V (level_pairs node xs)"
proof (induction node i xs arbitrary: r path V rule: level_path.induct)
  case (1 node i xs)
  show ?case
  proof (cases "length xs \<le> 1")
    case True
    with 1 obtain x where "xs = [x]" "i = 0" by (cases xs) auto
    then show ?thesis using 1(3) by (simp add: climb_to_root.simps level_path.simps level_hash_single split: if_splits)
  next
    case False
    then have len: "1 < length xs" by simp
    have half: "i div 2 < length (pair_up node xs)" using 1 by (simp add: length_pair_up)
    have "xs \<noteq> []" using False by auto
    note ih = 1(1) [OF False half, unfolded level_hash_pair_up [OF \<open>xs \<noteq> []\<close>]]
    have sub: "level_pairs node (pair_up node xs) \<subseteq> level_pairs node xs" "set (adjacent xs) \<subseteq> level_pairs node xs"
      using level_pairs_step [of node xs] by auto
    from len 1(2) show ?thesis
    proof (cases rule: climb_level [where node = node])
      case single
      with 1(3) have "climb_to_root node (i div 2) (length (pair_up node xs) - 1) r path = (Some (level_hash node xs), V)"
        unfolding climb_step [OF len 1(2)] by simp
      from ih [OF this] single sub show ?thesis by (auto intro: collision_mono)
    next
      case (pair s)
      have "\<not> (even i \<and> i + 1 = length xs)" using pair(2) by auto
      with 1(3) [unfolded climb_step [OF len 1(2)]] obtain p ps V' where path: "path = p # ps"
        and c: "climb_to_root node (i div 2) (length (pair_up node xs) - 1)
          (if odd i then node p r else node r p) ps = (Some (level_hash node xs), V')"
        and V: "V = insert (if odd i then (p, r) else (r, p)) V'"
        by (auto simp: Let_def split: list.splits prod.splits if_splits)
      from ih [OF c] show ?thesis
      proof
        assume h: "(if odd i then node p r else node r p) = pair_up node xs ! (i div 2) \<and>
            ps = level_path node (i div 2) (pair_up node xs)"
        show ?thesis
        proof (cases "p = s \<and> r = xs ! i")
          case True
          then show ?thesis using h pair(4) path by simp
        next
          case False
          have "collision node {if odd i then (p, r) else (r, p)} {if odd i then (s, xs ! i) else (xs ! i, s)}"
            using False h pair(3) by (auto simp: collision_def split: if_splits)
          then have "collision node V (level_pairs node xs)"
            by (rule collision_mono) (use V pair(1) sub in auto)
          then show ?thesis ..
        qed
      next
        assume "collision node V' (level_pairs node (pair_up node xs))"
        then have "collision node V (level_pairs node xs)" by (rule collision_mono) (use V sub in auto)
        then show ?thesis ..
      qed
    qed
  qed
qed

lemma bit_len_half: "0 < n \<Longrightarrow> bit_len n = Suc (bit_len (n div 2))"
  by (subst bit_len.simps) simp

lemma length_level_path: "i < length xs \<Longrightarrow> length (level_path node i xs) \<le> bit_len (length xs - 1)"
proof (induction node i xs rule: level_path.induct)
  case (1 node i xs)
  show ?case
  proof (cases "length xs \<le> 1")
    case True
    then show ?thesis by (simp add: level_path.simps)
  next
    case False
    then have len: "1 < length xs" by simp
    have half: "i div 2 < length (pair_up node xs)" using 1 by (simp add: length_pair_up)
    have "length (pair_up node xs) - 1 = (length xs - 1) div 2"
      using len by (simp add: length_pair_up)
    then have "bit_len (length xs - 1) = Suc (bit_len (length (pair_up node xs) - 1))"
      using len bit_len_half [of "length xs - 1"] by simp
    then show ?thesis using 1(1) [OF False half] len 1(2)
      by (cases rule: climb_level [OF len 1(2), where node = node]) auto
  qed
qed

lemma max_audit_len_bits: "w \<noteq> 0 \<Longrightarrow> max_audit_len w = bit_len (unat w - 1)"
proof (cases "w \<le> 1")
  case True
  moreover assume "w \<noteq> 0"
  ultimately have "unat w = 1" by (simp add: word_le_nat_alt unat_eq_0 le_Suc_eq)
  with True show ?thesis by (simp add: max_audit_len_def bit_len.simps)
next
  case False
  assume "w \<noteq> 0"
  then have u: "unat (w - 1) = unat w - 1" by (simp add: unat_minus_one)
  have "bit_len n \<le> k" if "n < 2 ^ k" for n k
    using that
  proof (induction k arbitrary: n)
    case 0
    then show ?case by (simp add: bit_len.simps)
  next
    case (Suc k)
    then show ?case using Suc.IH [of "n div 2"] by (subst bit_len.simps) auto
  qed
  moreover have "unat (w - 1) < 2 ^ 64" using unsigned_less [of "w - 1"] by simp
  ultimately have "bit_len (unat (w - 1)) \<le> 64" by blast
  with False u show ?thesis by (simp add: max_audit_len_def leading_zeros_def)
qed

section \<open>What the verifier accepts\<close>

lemma verify_inclusion_Ok:
  "verify_inclusion_inner cd leaf_hash proof root = Inr u \<longleftrightarrow>
     tree_size proof \<noteq> 0 \<and> leaf_index proof < tree_size proof \<and>
     length (audit_path proof) \<le> max_audit_len (tree_size proof) \<and>
     loop_root (inclusion_loop cd (leaf_index proof) (tree_size proof - 1) leaf_hash (audit_path proof)) = Some root"
proof -
  have "and_then res (\<lambda>(sn, r). if sn \<noteq> 0 then Err MerkleProofMalformed
          else if r \<noteq> root then Err MerkleProofInvalid else Ok ()) = Inr u \<longleftrightarrow> loop_root res = Some root" for res
    by (cases res) (auto simp: loop_root_def split: if_splits)
  then show ?thesis by (auto simp: verify_inclusion_inner_def not_le)
qed

lemma loop_is_climb:
  assumes "tree_size proof \<noteq> 0" and "leaf_index proof < tree_size proof"
  shows "(loop_root (inclusion_loop cd (leaf_index proof) (tree_size proof - 1) h path),
       loop_pairs cd (leaf_index proof) (tree_size proof - 1) h path) =
     climb_to_root (inner_hash cd) (unat (leaf_index proof)) (unat (tree_size proof) - 1) h path"
proof -
  have "leaf_index proof \<le> tree_size proof - 1" 
    using assms by (simp add: word_le_nat_alt word_less_nat_alt unat_minus_one)
  from inclusion_loop_climb [OF this] show ?thesis using assms(1) by (simp add: unat_minus_one)
qed

definition proof_pairs :: "'x revocation_codec_scheme \<Rightarrow> bytes \<Rightarrow> merkle_audit_path \<Rightarrow> (bytes \<times> bytes) set" where
  "proof_pairs cd leaf_hash proof =
     loop_pairs cd (leaf_index proof) (tree_size proof - 1) leaf_hash (audit_path proof)"

lemma verified_inclusion:
  assumes "verify_inclusion_inner cd leaf_hash proof (tree_hash (inner_hash cd) leaves) = Ok ()"
    and "length leaves = unat (tree_size proof)"
  shows "unat (leaf_index proof) < length leaves \<and>
     ((leaf_hash = leaves ! unat (leaf_index proof) \<and>
       audit_path proof = tree_path (inner_hash cd) (unat (leaf_index proof)) leaves) \<or>
      collision (inner_hash cd) (proof_pairs cd leaf_hash proof) (tree_pairs (inner_hash cd) leaves))"
proof -
  from assms(1) have ok: "tree_size proof \<noteq> 0" "leaf_index proof < tree_size proof"
    and root: "loop_root (inclusion_loop cd (leaf_index proof) (tree_size proof - 1) leaf_hash (audit_path proof))
       = Some (level_hash (inner_hash cd) leaves)"
    by (simp_all add: verify_inclusion_Ok tree_hash_level)
  have i: "unat (leaf_index proof) < length leaves" using ok(2) assms(2) by (simp add: word_less_nat_alt)
  have "climb_to_root (inner_hash cd) (unat (leaf_index proof)) (length leaves - 1) leaf_hash (audit_path proof) =
      (Some (level_hash (inner_hash cd) leaves), proof_pairs cd leaf_hash proof)"
    using loop_is_climb [OF ok, of cd leaf_hash "audit_path proof"] root assms(2) by (simp add: proof_pairs_def)
  from climb_sound [OF i this] i show ?thesis by (simp add: tree_path_level tree_pairs_level)
qed

text \<open>
  Soundness of inclusion proofs. Let the root be the RFC 6962 tree hash of a list of leaf hashes
  of the claimed size. When a proof verifies against it, the leaf hash is the one at the claimed index
  and the proof is the RFC 6962 audit path, or else a pair of nodes the verifier hashed and a different
  pair of nodes of the tree have the same SHA-256 hash.
\<close>

theorem inclusion_sound:
  assumes "verify_inclusion_inner cd leaf_hash proof (tree_hash (inner_hash cd) leaves) = Ok ()"
    and "length leaves = unat (tree_size proof)"
  shows "unat (leaf_index proof) < length leaves \<and>
     ((leaf_hash = leaves ! unat (leaf_index proof) \<and>
       audit_path proof = tree_path (inner_hash cd) (unat (leaf_index proof)) leaves) \<or>
      collision (inner_hash cd) (proof_pairs cd leaf_hash proof) (tree_pairs (inner_hash cd) leaves))"
  by (rule verified_inclusion [OF assms])

text \<open>A codec whose hash is the identity behind a tag byte, for the examples.\<close>

definition ex_hash_codec :: revocation_codec where
  "ex_hash_codec = identity_codec.extend ex_identity_codec
     (revocation_codec.fields (table_dec []) (\<lambda>t. Ok []) (\<lambda>b. Ok b) (table_dec []) (table_dec []) (table_dec [])
        (table_dec []) (table_dec []) (\<lambda>t. Ok []) (\<lambda>n. Ok []) (\<lambda>b. 1 # b) (\<lambda>b. 2 # b) (\<lambda>b. 3 # b) (\<lambda>b. 4 # b))"

definition ex_leaves :: "bytes list" where
  "ex_leaves = [[10], [20], [30]]"

definition ex_proof :: merkle_audit_path where
  "ex_proof = \<lparr> leaf_index = 2, tree_size = 3, audit_path = [inner_hash ex_hash_codec [10] [20]] \<rparr>"

theorem inclusion_sound_witness:
  "(2::nat) < length ex_leaves \<and>
     (([30] = ex_leaves ! 2 \<and> audit_path ex_proof = tree_path (inner_hash ex_hash_codec) 2 ex_leaves) \<or>
      collision (inner_hash ex_hash_codec) (proof_pairs ex_hash_codec [30] ex_proof)
        (tree_pairs (inner_hash ex_hash_codec) ex_leaves))"
proof -
  have "verify_inclusion_inner ex_hash_codec [30] ex_proof (tree_hash (inner_hash ex_hash_codec) ex_leaves) = Ok ()"
    by code_simp
  moreover have "length ex_leaves = unat (tree_size ex_proof)" "unat (leaf_index ex_proof) = 2" by code_simp+
  ultimately show ?thesis using inclusion_sound [of ex_hash_codec "[30]" ex_proof ex_leaves] by simp
qed

text \<open>
  C25. Completeness: for every list of up to 2^64 - 1 leaf hashes and every index, the RFC 6962 audit
  path verifies against the RFC 6962 tree hash; in particular the length bound refuses no honest proof.
\<close>

theorem inclusion_complete:
  assumes "length leaves < 2 ^ 64" and "i < length leaves"
  shows "verify_inclusion_inner cd (leaves ! i)
     \<lparr> leaf_index = of_nat i, tree_size = of_nat (length leaves),
       audit_path = tree_path (inner_hash cd) i leaves \<rparr> (tree_hash (inner_hash cd) leaves) = Ok ()"
proof -
  let ?p = "\<lparr> leaf_index = of_nat i, tree_size = of_nat (length leaves),
       audit_path = tree_path (inner_hash cd) i leaves \<rparr>"
  have n: "unat (tree_size ?p) = length leaves" and k: "unat (leaf_index ?p) = i"
    using assms by (simp_all add: unat_of_nat)
  have ok: "tree_size ?p \<noteq> 0" "leaf_index ?p < tree_size ?p"
    using assms n k by (auto simp: word_less_nat_alt simp flip: unat_eq_0)
  have "loop_root (inclusion_loop cd (leaf_index ?p) (tree_size ?p - 1) (leaves ! i) (audit_path ?p)) =
      Some (level_hash (inner_hash cd) leaves)"
    using loop_is_climb [OF ok, of cd "leaves ! i" "audit_path ?p"] climb_complete [OF assms(2), of "inner_hash cd"]
    unfolding n k by (metis assms(2) fst_conv merkle_audit_path.select_convs(3) tree_path_level)
  moreover have "length (audit_path ?p) \<le> max_audit_len (tree_size ?p)"
    using length_level_path [OF assms(2), of "inner_hash cd"] max_audit_len_bits [OF ok(1)] n
    by (simp add: tree_path_level [OF assms(2)])
  ultimately show ?thesis using ok by (simp add: verify_inclusion_Ok tree_hash_level)
qed

theorem inclusion_complete_witness:
  "verify_inclusion_inner ex_hash_codec (ex_leaves ! 2)
     \<lparr> leaf_index = of_nat 2, tree_size = of_nat (length ex_leaves),
       audit_path = tree_path (inner_hash ex_hash_codec) 2 ex_leaves \<rparr>
     (tree_hash (inner_hash ex_hash_codec) ex_leaves) = Ok ()"
  by (rule inclusion_complete) (simp_all add: ex_leaves_def)

text \<open>
  A path too short for the tree size is reported as malformed, although the documentation of
  \<open>MerkleProofInvalid\<close> claims the lengths inconsistent with the tree size.
\<close>

lemma short_path_malformed:
  "verify_inclusion_inner ex_hash_codec [30] (ex_proof\<lparr> audit_path := [] \<rparr>)
     (tree_hash (inner_hash ex_hash_codec) ex_leaves) = Err MerkleProofMalformed"
  by code_simp

end
