(* ===== verification/CtLog.thy ===== *)
theory CtLog
  imports Merkle "HOL-Library.Signed_Division"
begin

text \<open>
  The list of trusted Certificate Transparency logs, \<open>pkix-ct/src/log_list.rs\<close>: the map from log
  identifiers to logs, the import of Google's \<open>log_list.json\<close> with its RFC 3339 timestamps, and the
  window in which a log's timestamps count. JSON and base64 decoding are parameters.
\<close>

section \<open>Logs and the log list\<close>

record ct_log =
  cl_log_id :: bytes
  key_der :: bytes
  description :: string
  cl_url :: string
  usable_from_ms :: "u64 option"
  retired_at_ms :: "u64 option"

definition ct_log_new ::
  "bytes \<Rightarrow> bytes \<Rightarrow> string \<Rightarrow> string \<Rightarrow> u64 option \<Rightarrow> u64 option \<Rightarrow> ct_log" where
  "ct_log_new lid key descr url usable retired =
     \<lparr> cl_log_id = lid, key_der = key, description = descr, cl_url = url, usable_from_ms = usable,
       retired_at_ms = retired \<rparr>"

text \<open>A \<open>BTreeMap\<close> is its list of entries in the order of the keys.\<close>

fun lex_less :: "bytes \<Rightarrow> bytes \<Rightarrow> bool" where
  "lex_less _ [] = False"
| "lex_less [] (_ # _) = True"
| "lex_less (a # as) (b # bs) = (a < b \<or> (a = b \<and> lex_less as bs))"

fun btree_insert :: "bytes \<Rightarrow> 'v \<Rightarrow> (bytes \<times> 'v) list \<Rightarrow> (bytes \<times> 'v) list" where
  "btree_insert k v [] = [(k, v)]"
| "btree_insert k v ((k', v') # rest) =
     (if k = k' then (k, v) # rest
      else if lex_less k k' then (k, v) # (k', v') # rest
      else (k', v') # btree_insert k v rest)"

type_synonym ct_log_list = "(bytes \<times> ct_log) list"

definition log_list_new :: ct_log_list where "log_list_new = []"

definition log_list_insert :: "'x revocation_codec_scheme \<Rightarrow> ct_log \<Rightarrow> ct_log_list \<Rightarrow> ct_log_list ct_result" where
  "log_list_insert cd log logs =
     (if sha256 cd (key_der log) \<noteq> cl_log_id log then Err ParseError
      else Ok (btree_insert (cl_log_id log) log logs))"

definition log_list_get :: "ct_log_list \<Rightarrow> bytes \<Rightarrow> ct_log option" where
  "log_list_get logs lid = map_of logs lid"

definition log_list_len :: "ct_log_list \<Rightarrow> nat" where "log_list_len logs = length logs"
definition log_list_is_empty :: "ct_log_list \<Rightarrow> bool" where "log_list_is_empty logs \<longleftrightarrow> logs = []"
definition log_list_iter :: "ct_log_list \<Rightarrow> ct_log list" where "log_list_iter logs = map snd logs"

definition log_window_contains :: "ct_log \<Rightarrow> u64 \<Rightarrow> bool" where
  "log_window_contains log ts =
     (case usable_from_ms log of
        None \<Rightarrow> False
      | Some lo \<Rightarrow>
          if ts < lo then False
          else (case retired_at_ms log of None \<Rightarrow> True | Some hi \<Rightarrow> \<not> ts \<ge> hi))"

section \<open>Timestamps\<close>

definition is_ascii_digit :: "char \<Rightarrow> bool" where
  "is_ascii_digit c \<longleftrightarrow> 48 \<le> (of_char c :: nat) \<and> (of_char c :: nat) \<le> 57"

fun parse_digits_loop :: "nat \<Rightarrow> string \<Rightarrow> nat ct_result" where
  "parse_digits_loop out [] = Ok out"
| "parse_digits_loop out (b # bs) =
     (if \<not> is_ascii_digit b then Err ParseError
      else let v = out * 10 + (of_char b - 48)
           in if v \<ge> 2 ^ 32 then Err ParseError else parse_digits_loop v bs)"

definition parse_digits :: "string \<Rightarrow> nat ct_result" where
  "parse_digits bs = parse_digits_loop 0 bs"

definition days_from_civil :: "int \<Rightarrow> int \<Rightarrow> int \<Rightarrow> int ct_result" where
  "days_from_civil year month day =
     (if \<not> (1 \<le> month \<and> month \<le> 12) \<or> \<not> (1 \<le> day \<and> day \<le> 31) then Err ParseError
      else let y = (if month \<le> 2 then year - 1 else year);
               era = (if y \<ge> 0 then y else y - 399) sdiv 400;
               yoe = y - era * 400;
               doy = (153 * (if month > 2 then month - 3 else month + 9) + 2) div 5 + day - 1;
               doe = yoe * 365 + yoe div 4 - yoe div 100 + doy
           in Ok (era * 146097 + doe - 719468))"

definition slice :: "nat \<Rightarrow> nat \<Rightarrow> 'a list \<Rightarrow> 'a list" where
  "slice from until xs = take (until - from) (drop from xs)"

definition parse_fraction :: "string \<Rightarrow> nat ct_result" where
  "parse_fraction s =
     (if s ! 19 = CHR ''.''
      then let frac_str = slice 20 (length s - 1) s
           in if frac_str = [] \<or> length frac_str > 6 then Err ParseError
              else parse_digits (take 3 (take 3 frac_str @ ''000''))
      else if s ! 19 \<noteq> CHR ''Z'' then Err ParseError
      else Ok 0)"

definition parse_rfc3339_to_unix_ms :: "string \<Rightarrow> u64 ct_result" where
  "parse_rfc3339_to_unix_ms s =
     (if length s < 20 \<or> s ! 10 \<noteq> CHR ''T'' \<or> last s \<noteq> CHR ''Z'' then Err ParseError
      else and_then (parse_digits (slice 0 4 s)) (\<lambda>year.
           and_then (parse_digits (slice 5 7 s)) (\<lambda>month.
           and_then (parse_digits (slice 8 10 s)) (\<lambda>day.
           and_then (parse_digits (slice 11 13 s)) (\<lambda>hour.
           and_then (parse_digits (slice 14 16 s)) (\<lambda>minute.
           and_then (parse_digits (slice 17 19 s)) (\<lambda>sec.
           and_then (parse_fraction s) (\<lambda>frac_ms.
           and_then (days_from_civil (int year) (int month) (int day)) (\<lambda>days.
           let secs = days * 86400 + int hour * 3600 + int minute * 60 + int sec
           in if secs < 0 then Err ParseError
              else Ok (of_int secs * 1000 + of_nat frac_ms))))))))))"

section \<open>Import of Google's list\<close>

text \<open>The state object, by the timestamps of its entries.\<close>

record log_state_json =
  st_pending :: "string option"
  st_qualified :: "string option"
  st_usable :: "string option"
  st_readonly :: "string option"
  st_retired :: "string option"
  st_rejected :: "string option"

record log_json =
  lj_description :: string
  lj_log_id :: string
  lj_key :: string
  lj_url :: string
  lj_state :: "log_state_json option"

record log_list_codec = ct_codec +
  dec_log_list_json :: "string \<Rightarrow> log_json list list option"
  base64_decode :: "string \<Rightarrow> bytes option"

definition is_excluded :: "log_state_json \<Rightarrow> bool" where
  "is_excluded st \<longleftrightarrow> st_rejected st \<noteq> None \<or> st_pending st \<noteq> None"

text \<open>\<open>.map(parse).transpose()\<close>.\<close>

definition parse_entry :: "string option \<Rightarrow> u64 option ct_result" where
  "parse_entry ts = (case ts of None \<Rightarrow> Ok None | Some s \<Rightarrow> map_ok Some (parse_rfc3339_to_unix_ms s))"

definition retirement_entry :: "log_state_json \<Rightarrow> string option" where
  "retirement_entry st = (case st_retired st of Some e \<Rightarrow> Some e | None \<Rightarrow> st_readonly st)"

definition import_log :: "'x log_list_codec_scheme \<Rightarrow> log_json \<Rightarrow> ct_log_list \<Rightarrow> ct_log_list ct_result" where
  "import_log cd log out =
     (if (case lj_state log of None \<Rightarrow> False | Some st \<Rightarrow> is_excluded st) then Ok out
      else and_then (ok_or ParseError (base64_decode cd (lj_log_id log))) (\<lambda>lid.
        if length lid \<noteq> 32 then Err ParseError
        else and_then (ok_or ParseError (base64_decode cd (lj_key log))) (\<lambda>key.
             and_then (parse_entry (Option.bind (lj_state log) st_usable)) (\<lambda>usable_from.
             and_then (parse_entry (Option.bind (lj_state log) retirement_entry)) (\<lambda>retired_at.
             log_list_insert cd
               \<lparr> cl_log_id = lid, key_der = key, description = lj_description log, cl_url = lj_url log,
                 usable_from_ms = usable_from, retired_at_ms = retired_at \<rparr> out)))))"

fun import_logs :: "'x log_list_codec_scheme \<Rightarrow> log_json list \<Rightarrow> ct_log_list \<Rightarrow> ct_log_list ct_result" where
  "import_logs cd [] out = Ok out"
| "import_logs cd (log # logs) out = and_then (import_log cd log out) (import_logs cd logs)"

definition from_google_log_list_json :: "'x log_list_codec_scheme \<Rightarrow> string \<Rightarrow> ct_log_list ct_result" where
  "from_google_log_list_json cd json =
     and_then (ok_or ParseError (dec_log_list_json cd json)) (\<lambda>operators.
       import_logs cd (concat operators) log_list_new)"

section \<open>The map of logs\<close>

text \<open>What the clients of the map rely on.\<close>

locale log_map =
  fixes ins :: "'k \<Rightarrow> 'v \<Rightarrow> 'm \<Rightarrow> 'm" and lookup :: "'m \<Rightarrow> 'k \<Rightarrow> 'v option" and empty :: 'm
  assumes lookup_empty: "lookup empty k = None"
    and lookup_insert: "lookup (ins k v m) = (lookup m)(k \<mapsto> v)"
begin

lemma lookup_inserts: "lookup (fold (\<lambda>(k, v). ins k v) kvs empty) k = map_of (rev kvs) k"
proof -
  have "lookup (fold (\<lambda>(k, v). ins k v) kvs m) = (lookup m) ++ map_of (rev kvs)" for m
    by (induction kvs arbitrary: m) (auto simp: lookup_insert)
  then show ?thesis by (simp add: lookup_empty map_add_def split: option.splits)
qed

lemma lookup_insert_mem:
  assumes "lookup (ins k v m) k' = Some w"
  shows "(k' = k \<and> w = v) \<or> lookup m k' = Some w"
  using assms by (auto simp: lookup_insert split: if_splits)

end

lemma map_of_btree_insert: "map_of (btree_insert k v m) = (map_of m)(k \<mapsto> v)"
  by (induction k v m rule: btree_insert.induct) (auto simp: fun_eq_iff)

interpretation logs: log_map btree_insert map_of "[]"
  by unfold_locales (auto simp: map_of_btree_insert)

text \<open>Iteration is in the order of the keys, each once.\<close>

lemma lex_less_irrefl: "\<not> lex_less a a"
  by (induction a) auto

lemma lex_less_total: "a = b \<or> lex_less a b \<or> lex_less b a"
proof (induction a b rule: lex_less.induct)
  case (1 a)
  then show ?case by (cases a) auto
qed auto

lemma lex_less_trans: "lex_less a b \<Longrightarrow> lex_less b c \<Longrightarrow> lex_less a c"
proof (induction a b arbitrary: c rule: lex_less.induct)
  case (2 b bs)
  then show ?case by (cases c) auto
next
  case (3 a as b bs)
  then show ?case by (cases c) auto
qed simp

lemma keys_btree_insert: "fst ` set (btree_insert k v m) = insert k (fst ` set m)"
  by (induction k v m rule: btree_insert.induct) auto

lemma sorted_btree_insert:
  "sorted_wrt lex_less (map fst m) \<Longrightarrow> sorted_wrt lex_less (map fst (btree_insert k v m))"
proof (induction k v m rule: btree_insert.induct)
  case (2 k v k' v' rest)
  have "lex_less k' k'' \<Longrightarrow> lex_less k k' \<Longrightarrow> lex_less k k''" for k'' by (rule lex_less_trans)
  moreover have "k \<noteq> k' \<Longrightarrow> \<not> lex_less k k' \<Longrightarrow> lex_less k' k" using lex_less_total by blast
  ultimately show ?case using 2 keys_btree_insert [of k v rest] by (auto simp: image_iff)
qed simp

section \<open>The calendar\<close>

definition leap_year :: "int \<Rightarrow> bool" where
  "leap_year y \<longleftrightarrow> 4 dvd y \<and> (\<not> 100 dvd y \<or> 400 dvd y)"

definition days_in_month :: "int \<Rightarrow> int \<Rightarrow> int" where
  "days_in_month y m =
     (if m = 2 then if leap_year y then 29 else 28 else if m \<in> {4, 6, 9, 11} then 30 else 31)"

definition valid_date :: "int \<Rightarrow> int \<Rightarrow> int \<Rightarrow> bool" where
  "valid_date y m d \<longleftrightarrow> 1 \<le> m \<and> m \<le> 12 \<and> 1 \<le> d \<and> d \<le> days_in_month y m"

definition next_date :: "int \<Rightarrow> int \<Rightarrow> int \<Rightarrow> int \<times> int \<times> int" where
  "next_date y m d =
     (if d < days_in_month y m then (y, m, d + 1) else if m < 12 then (y, m + 1, 1) else (y + 1, 1, 1))"

text \<open>The number of days before the March of a year, in closed form.\<close>

definition march_days :: "int \<Rightarrow> int" where
  "march_days y = 365 * y + y div 4 - y div 100 + y div 400"

lemma era_days:
  assumes "0 \<le> (y :: int)"
  shows "y div 400 * 146097 + (y - y div 400 * 400) * 365 + (y - y div 400 * 400) div 4
    - (y - y div 400 * 400) div 100 = march_days y"
proof -
  define e r where "e = y div 400" and "r = y mod 400"
  have y: "y = 400 * e + r" and r: "0 \<le> r" "r < 400" by (simp_all add: e_def r_def)
  have "y div 4 = 100 * e + r div 4" "y div 100 = 4 * e + r div 100" "y div 400 = e"
    using y r by simp_all
  then show ?thesis using y by (simp add: march_days_def algebra_simps)
qed

definition month_days :: "int \<Rightarrow> int" where
  "month_days m = (153 * (if m > 2 then m - 3 else m + 9) + 2) div 5"

lemma days_from_civil_closed:
  assumes "1 \<le> m" "m \<le> 12" "1 \<le> d" "d \<le> 31" and "0 \<le> (if m \<le> 2 then y - 1 else y)"
  shows "days_from_civil y m d =
    Ok (march_days (if m \<le> 2 then y - 1 else y) + month_days m + d - 719469)"
proof -
  define z where "z = (if m \<le> 2 then y - 1 else y)"
  have "0 \<le> z" using assms(5) by (simp add: z_def)
  then have "z sdiv 400 = z div 400" by (cases "z = 0") (simp_all add: signed_divide_int_def)
  then show ?thesis using assms(1-4) \<open>0 \<le> z\<close> era_days [OF \<open>0 \<le> z\<close>]
    by (simp add: days_from_civil_def Let_def z_def [symmetric] month_days_def [symmetric])
qed

lemma div_pred:
  assumes "0 < (k :: int)"
  shows "y div k = (y - 1) div k + (if k dvd y then 1 else 0)"
proof -
  define q r where "q = y div k" and "r = y mod k"
  have y: "y = k * q + r" and r: "0 \<le> r" "r < k" using assms by (simp_all add: q_def r_def)
  have "(y - 1) div k = (if r = 0 then q - 1 else q)"
    by (rule int_div_pos_eq [of _ _ _ "if r = 0 then k - 1 else r - 1"])
      (use y r assms in \<open>auto simp: algebra_simps\<close>)
  moreover have "k dvd y \<longleftrightarrow> r = 0" by (simp add: r_def dvd_eq_mod_eq_0)
  ultimately show ?thesis by (simp add: q_def)
qed

lemma march_days_Suc:
  "march_days y = march_days (y - 1) + (if leap_year y then 366 else 365)"
proof -
  have centuries: "100 dvd y \<Longrightarrow> 4 dvd y" "400 dvd y \<Longrightarrow> 100 dvd y"
    using dvd_trans [of 4 100 y] dvd_trans [of 100 400 y] by auto
  have quotients: "y div 4 = (y - 1) div 4 + (if 4 dvd y then 1 else 0)"
    "y div 100 = (y - 1) div 100 + (if 100 dvd y then 1 else 0)"
    "y div 400 = (y - 1) div 400 + (if 400 dvd y then 1 else 0)"
    by (rule div_pred; simp)+
  show ?thesis unfolding march_days_def leap_year_def quotients
    by (cases "4 dvd y"; cases "100 dvd y"; cases "400 dvd y") (simp_all add: centuries)
qed

text \<open>
  The day count of the timestamp parser is the proleptic Gregorian calendar: the first of January
  1970 is day 0, and from every date of every year since 1 the next date is one day later, through the
  ends of months, of Februaries in leap and common years, and of years.
\<close>

theorem days_from_civil_calendar:
  assumes "valid_date y m d" and "1 \<le> y"
  shows "days_from_civil 1970 1 1 = Ok 0 \<and>
     (\<exists>n. days_from_civil y m d = Ok n \<and>
        (case next_date y m d of (y', m', d') \<Rightarrow> days_from_civil y' m' d' = Ok (n + 1)))"
proof -
  have epoch: "days_from_civil 1970 1 1 = Ok 0" by code_simp
  have md: "1 \<le> m" "m \<le> 12" "1 \<le> d" "d \<le> days_in_month y m" "d \<le> 31"
    using assms(1) by (auto simp: valid_date_def days_in_month_def split: if_splits)
  have this_day: "days_from_civil y m d = Ok (march_days (if m \<le> 2 then y - 1 else y) + month_days m + d - 719469)"
    by (rule days_from_civil_closed) (use md assms(2) in auto)
  consider (day) "d < days_in_month y m" | (month) "d = days_in_month y m" "m < 12" | (year) "d = 31" "m = 12"
  proof (cases "d < days_in_month y m \<or> m < 12")
    case True
    then show ?thesis using that(1,2) md(4) by (cases "d < days_in_month y m") auto
  next
    case False
    then have "m = 12" "d = days_in_month y m" using md by auto
    then show ?thesis using that(3) by (simp add: days_in_month_def)
  qed
  then show ?thesis
  proof cases
    case day
    moreover have "d + 1 \<le> 31" using day by (auto simp: days_in_month_def split: if_splits)
    moreover have "days_from_civil y m (d + 1) =
        Ok (march_days (if m \<le> 2 then y - 1 else y) + month_days m + (d + 1) - 719469)"
      by (rule days_from_civil_closed) (use md assms(2) calculation in auto)
    ultimately show ?thesis using epoch this_day by (simp add: next_date_def)
  next
    case month
    have "days_from_civil y (m + 1) 1 =
        Ok (march_days (if m + 1 \<le> 2 then y - 1 else y) + month_days (m + 1) + 1 - 719469)"
      by (rule days_from_civil_closed) (use md assms(2) month in auto)
    moreover have "march_days (if m + 1 \<le> 2 then y - 1 else y) + month_days (m + 1) + 1 =
        march_days (if m \<le> 2 then y - 1 else y) + month_days m + d + 1"
    proof -
      have "m \<in> {1, 2, 3, 4, 5, 6, 7, 8, 9, 10, 11}" using md(1) month(2) by (simp, presburger)
      then show ?thesis using month(1) march_days_Suc [of y]
        by (elim insertE emptyE) (auto simp: month_days_def days_in_month_def)
    qed
    ultimately show ?thesis using epoch this_day month by (simp add: next_date_def)
  next
    case year
    have "days_from_civil (y + 1) 1 1 = Ok (march_days y + month_days 1 + 1 - 719469)"
      using days_from_civil_closed [of 1 1 "y + 1"] assms(2) by simp
    then show ?thesis using epoch this_day year by (simp add: next_date_def days_in_month_def month_days_def)
  qed
qed

theorem days_from_civil_calendar_witness:
  "\<exists>n. days_from_civil 2024 2 29 = Ok n \<and> days_from_civil 2024 3 1 = Ok (n + 1)"
proof -
  have "valid_date 2024 2 29" "next_date 2024 2 29 = (2024, 3, 1)" by code_simp+
  with days_from_civil_calendar [of 2024 2 29] show ?thesis by simp
qed

section \<open>Imported logs\<close>

text \<open>Every log of an imported list stems from an entry that is not excluded.\<close>

definition imported_from :: "'x log_list_codec_scheme \<Rightarrow> log_json \<Rightarrow> ct_log \<Rightarrow> bool" where
  "imported_from cd entry log \<longleftrightarrow>
     (case lj_state entry of None \<Rightarrow> True | Some st \<Rightarrow> \<not> is_excluded st) \<and>
     base64_decode cd (lj_log_id entry) = Some (cl_log_id log) \<and> length (cl_log_id log) = 32 \<and>
     base64_decode cd (lj_key entry) = Some (key_der log) \<and> sha256 cd (key_der log) = cl_log_id log \<and>
     parse_entry (Option.bind (lj_state entry) st_usable) = Ok (usable_from_ms log) \<and>
     parse_entry (Option.bind (lj_state entry) retirement_entry) = Ok (retired_at_ms log)"

lemma import_log_get:
  assumes "import_log cd entry out = Inr logs" and "map_of logs lid = Some log"
  shows "map_of out lid = Some log \<or> (cl_log_id log = lid \<and> imported_from cd entry log)"
proof (cases "case lj_state entry of None \<Rightarrow> False | Some st \<Rightarrow> is_excluded st")
  case True
  then show ?thesis using assms by (simp add: import_log_def)
next
  case False
  with assms(1) obtain lid key usable retired where
      "base64_decode cd (lj_log_id entry) = Some lid" "length lid = 32"
      "base64_decode cd (lj_key entry) = Some key"
      "parse_entry (Option.bind (lj_state entry) st_usable) = Ok usable"
      "parse_entry (Option.bind (lj_state entry) retirement_entry) = Ok retired"
      and ins: "log_list_insert cd
        \<lparr> cl_log_id = lid, key_der = key, description = lj_description entry, cl_url = lj_url entry,
          usable_from_ms = usable, retired_at_ms = retired \<rparr> out = Ok logs"
    by (auto simp: import_log_def and_then_Ok_iff ok_or_Ok_iff split: if_splits)
  moreover define l where "l = \<lparr> cl_log_id = lid, key_der = key, description = lj_description entry,
    cl_url = lj_url entry, usable_from_ms = usable, retired_at_ms = retired \<rparr>"
  ultimately have l: "imported_from cd entry l" and logs: "logs = btree_insert (cl_log_id l) l out"
    using False by (auto simp: imported_from_def log_list_insert_def split: if_splits option.splits)
  from logs.lookup_insert_mem [OF assms(2) [unfolded logs]] l show ?thesis by auto
qed

lemma import_logs_get:
  "import_logs cd entries out = Inr logs \<Longrightarrow> map_of logs lid = Some log \<Longrightarrow>
     map_of out lid = Some log \<or> (cl_log_id log = lid \<and> (\<exists>entry \<in> set entries. imported_from cd entry log))"
proof (induction cd entries out rule: import_logs.induct)
  case (2 cd entry entries out)
  then obtain mid where "import_log cd entry out = Inr mid" "import_logs cd entries mid = Inr logs"
    by (auto simp: and_then_Ok_iff)
  with 2 import_log_get show ?case by fastforce
qed simp

lemma from_google_get:
  assumes "from_google_log_list_json cd json = Inr logs" and "log_list_get logs lid = Some log"
  shows "cl_log_id log = lid \<and>
     (\<exists>ops. dec_log_list_json cd json = Some ops \<and> (\<exists>entry \<in> set (concat ops). imported_from cd entry log))"
  using assms import_logs_get [where out = "[]" and cd = cd]
  by (fastforce simp: from_google_log_list_json_def log_list_new_def log_list_get_def and_then_Ok_iff ok_or_Ok_iff)

text \<open>
  A log imported from Google's list in the state \<open>readonly\<close> or \<open>retired\<close> (an entry has one state,
  so it has no \<open>usable\<close> entry) accepts no timestamp at all, although the documentation promises that
  its existing timestamps stay trusted.
\<close>

lemma retired_logs_accept_nothing:
  assumes "from_google_log_list_json cd json = Ok logs" and "dec_log_list_json cd json = Some ops"
    and "list_all (\<lambda>e. base64_decode cd (lj_log_id e) = Some lid \<longrightarrow>
           (\<exists>st. lj_state e = Some st \<and> st_usable st = None)) (concat ops)"
    and "log_list_get logs lid = Some log"
  shows "\<not> log_window_contains log ts"
proof -
  from from_google_get [OF assms(1,4)] assms(2) obtain entry where
    "cl_log_id log = lid" "entry \<in> set (concat ops)" "imported_from cd entry log"
    by auto
  then have "base64_decode cd (lj_log_id entry) = Some lid"
    by (simp add: imported_from_def)
  with assms(3) \<open>entry \<in> set (concat ops)\<close> obtain st where "lj_state entry = Some st" "st_usable st = None"
    unfolding list_all_iff by blast
  with \<open>imported_from cd entry log\<close> have "usable_from_ms log = None"
    by (simp add: imported_from_def parse_entry_def)
  then show ?thesis by (simp add: log_window_contains_def)
qed

text \<open>A codec of one log with the one JSON document \<open>logs\<close>, whose only log is retired.\<close>

definition ex_retired_log :: log_json where
  "ex_retired_log =
     \<lparr> lj_description = ''old'', lj_log_id = ''ID'', lj_key = ''KEY'', lj_url = ''u'',
       lj_state = Some \<lparr> st_pending = None, st_qualified = None, st_usable = None, st_readonly = None,
         st_retired = Some ''2022-01-01T00:00:00Z'', st_rejected = None \<rparr> \<rparr>"

definition ex_log_codec :: log_list_codec where
  "ex_log_codec = ct_codec.extend
     (chain_codec.extend
       (revocation_codec.extend ex_hash_codec (chain_codec.fields (table_dec []) (table_dec [])))
       (ct_codec.fields (table_dec []) (table_dec []) (\<lambda>c. Ok [])))
     (log_list_codec.fields
       (\<lambda>json. if json = ''logs'' then Some [[ex_retired_log]] else None)
       (\<lambda>s. if s = ''ID'' then Some (2 # replicate 31 7) else if s = ''KEY'' then Some (replicate 31 7) else None))"

definition ex_old_log :: ct_log where
  "ex_old_log = ct_log_new (2 # replicate 31 7) (replicate 31 7) ''old'' ''u'' None (Some 1640995200000)"

lemma retired_logs_accept_nothing_witness:
  "from_google_log_list_json ex_log_codec ''logs'' = Ok [(2 # replicate 31 7, ex_old_log)] \<and>
     \<not> log_window_contains ex_old_log 1600000000000"
proof -
  have logs: "from_google_log_list_json ex_log_codec ''logs'' = Ok [(2 # replicate 31 7, ex_old_log)]"
    by code_simp
  have "\<not> log_window_contains ex_old_log 1600000000000"
    by (rule retired_logs_accept_nothing [where lid = "2 # replicate 31 7" and ops = "[[ex_retired_log]]", OF logs])
      (simp_all add: ex_log_codec_def log_list_codec.defs ct_codec.defs ex_retired_log_def log_list_get_def)
  with logs show ?thesis by blast
qed

end
