(* ===== verification/CtVerify.thy ===== *)
theory CtVerify
  imports CtLog
begin

text \<open>
  SCT and tree-head verification, \<open>pkix-ct/src/verify.rs\<close>: the structures a log signs, rebuilt byte by
  byte, the reconstruction of the precertificate, and the verifier that looks the log up, checks its
  window and dispatches on the algorithm tags. Merkle proofs are in \<open>Merkle\<close>.
\<close>

section \<open>Algorithms\<close>

definition OID_SCT_LIST :: oid where "OID_SCT_LIST = [1, 3, 6, 1, 4, 1, 11129, 2, 4, 2]"
definition CT_ECDSA_WITH_SHA256 :: oid where "CT_ECDSA_WITH_SHA256 = [1, 2, 840, 10045, 4, 3, 2]"
definition CT_ECDSA_WITH_SHA384 :: oid where "CT_ECDSA_WITH_SHA384 = [1, 2, 840, 10045, 4, 3, 3]"
definition CT_SHA256_WITH_RSA :: oid where "CT_SHA256_WITH_RSA = [1, 2, 840, 113549, 1, 1, 11]"
definition CT_SHA384_WITH_RSA :: oid where "CT_SHA384_WITH_RSA = [1, 2, 840, 113549, 1, 1, 12]"
definition CT_SHA512_WITH_RSA :: oid where "CT_SHA512_WITH_RSA = [1, 2, 840, 113549, 1, 1, 13]"

definition tls_alg_to_x509_oid :: "u8 \<Rightarrow> u8 \<Rightarrow> oid option" where
  "tls_alg_to_x509_oid hash sig =
     (if (hash, sig) = (4, 3) then Some CT_ECDSA_WITH_SHA256
      else if (hash, sig) = (5, 3) then Some CT_ECDSA_WITH_SHA384
      else if (hash, sig) = (4, 1) then Some CT_SHA256_WITH_RSA
      else if (hash, sig) = (5, 1) then Some CT_SHA384_WITH_RSA
      else if (hash, sig) = (6, 1) then Some CT_SHA512_WITH_RSA
      else None)"

section \<open>The signed structures\<close>

text \<open>The length prefix of three bytes: the top byte, then the lower two.\<close>

definition u24_prefix :: "nat \<Rightarrow> bytes" where
  "u24_prefix n = of_nat (n div 2 ^ 16 mod 256) # be_bytes 2 (n mod 2 ^ 16)"

definition build_signed_input_x509_entry :: "sct \<Rightarrow> bytes \<Rightarrow> bytes ct_result" where
  "build_signed_input_x509_entry sct cert_der =
     (if length cert_der > 0xFFFFFF then Err CertDerTooLong
      else Ok ([0, 0] @ be_bytes 8 (unat (timestamp_ms sct)) @ be_bytes 2 0
        @ u24_prefix (length cert_der) @ cert_der
        @ be_bytes 2 (length (sct_extensions sct) mod 2 ^ 16) @ sct_extensions sct))"

definition build_signed_input_precert_entry :: "sct \<Rightarrow> bytes \<Rightarrow> bytes \<Rightarrow> bytes ct_result" where
  "build_signed_input_precert_entry sct key_hash tbs_no_sct =
     (if length tbs_no_sct > 0xFFFFFF then Err CertDerTooLong
      else Ok ([0, 0] @ be_bytes 8 (unat (timestamp_ms sct)) @ be_bytes 2 1 @ key_hash
        @ u24_prefix (length tbs_no_sct) @ tbs_no_sct
        @ be_bytes 2 (length (sct_extensions sct) mod 2 ^ 16) @ sct_extensions sct))"

definition tbs_without_sct_list :: "'x ct_codec_scheme \<Rightarrow> bytes \<Rightarrow> bytes ct_result" where
  "tbs_without_sct_list cd leaf_cert_der =
     and_then (map_err (\<lambda>_. ParseError) (dec_certificate cd leaf_cert_der)) (\<lambda>cert.
     and_then (ok_or LeafMissingSctList (extensions (tbs cert))) (\<lambda>exts.
       let kept = filter (\<lambda>ext. extn_id ext \<noteq> OID_SCT_LIST) exts
       in if length kept = length exts then Err LeafMissingSctList
          else let stripped = (tbs cert)\<lparr> extensions := if kept = [] then None else Some kept \<rparr>
               in and_then (map_err (\<lambda>_. ParseError) (enc_tbs cd stripped)) (\<lambda>buf.
                    if length buf > 0xFFFFFF then Err CertDerTooLong else Ok buf)))"

definition issuer_key_hash_from_cert :: "'x ct_codec_scheme \<Rightarrow> bytes \<Rightarrow> bytes ct_result" where
  "issuer_key_hash_from_cert cd issuer_cert_der =
     and_then (map_err (\<lambda>_. ParseError) (dec_certificate cd issuer_cert_der)) (\<lambda>issuer.
     and_then (map_err (\<lambda>_. ParseError) (enc_spki cd (subject_public_key_info (tbs issuer)))) (\<lambda>spki_buf.
       Ok (sha256 cd spki_buf)))"

record signed_tree_head =
  sth_tree_size :: u64
  sth_timestamp_ms :: u64
  sth_root_hash :: bytes
  sth_hash_alg :: u8
  sth_sig_alg :: u8
  sth_signature :: bytes

definition signed_tree_head_new :: "u64 \<Rightarrow> u64 \<Rightarrow> bytes \<Rightarrow> u8 \<Rightarrow> u8 \<Rightarrow> bytes \<Rightarrow> signed_tree_head" where
  "signed_tree_head_new n ts root hash sig signature =
     \<lparr> sth_tree_size = n, sth_timestamp_ms = ts, sth_root_hash = root, sth_hash_alg = hash,
       sth_sig_alg = sig, sth_signature = signature \<rparr>"

definition build_signed_input_tree_head :: "signed_tree_head \<Rightarrow> bytes" where
  "build_signed_input_tree_head sth =
     [0, 1] @ be_bytes 8 (unat (sth_timestamp_ms sth)) @ be_bytes 8 (unat (sth_tree_size sth)) @ sth_root_hash sth"

section \<open>Merkle tree leaves\<close>

definition build_merkle_tree_leaf_x509_entry :: "sct \<Rightarrow> bytes \<Rightarrow> bytes ct_result" where
  "build_merkle_tree_leaf_x509_entry sct cert_der =
     (if length cert_der > 0xFFFFFF then Err CertDerTooLong
      else Ok ([0, 0] @ be_bytes 8 (unat (timestamp_ms sct)) @ be_bytes 2 0
        @ u24_prefix (length cert_der) @ cert_der
        @ be_bytes 2 (length (sct_extensions sct) mod 2 ^ 16) @ sct_extensions sct))"

definition build_merkle_tree_leaf_precert_entry :: "sct \<Rightarrow> bytes \<Rightarrow> bytes \<Rightarrow> bytes ct_result" where
  "build_merkle_tree_leaf_precert_entry sct key_hash tbs_no_sct =
     (if length tbs_no_sct > 0xFFFFFF then Err CertDerTooLong
      else Ok ([0, 0] @ be_bytes 8 (unat (timestamp_ms sct)) @ be_bytes 2 1 @ key_hash
        @ u24_prefix (length tbs_no_sct) @ tbs_no_sct
        @ be_bytes 2 (length (sct_extensions sct) mod 2 ^ 16) @ sct_extensions sct))"

definition merkle_tree_leaf_for_cert :: "sct \<Rightarrow> bytes \<Rightarrow> bytes ct_result" where
  "merkle_tree_leaf_for_cert sct cert_der = build_merkle_tree_leaf_x509_entry sct cert_der"

definition merkle_tree_leaf_for_precert :: "'x ct_codec_scheme \<Rightarrow> sct \<Rightarrow> bytes \<Rightarrow> bytes \<Rightarrow> bytes ct_result" where
  "merkle_tree_leaf_for_precert cd sct leaf_cert_der issuer_cert_der =
     and_then (tbs_without_sct_list cd leaf_cert_der) (\<lambda>tbs_no_sct.
     and_then (issuer_key_hash_from_cert cd issuer_cert_der) (\<lambda>key_hash.
       build_merkle_tree_leaf_precert_entry sct key_hash tbs_no_sct))"

section \<open>The verifier\<close>

record sct_verifier =
  sv_logs :: ct_log_list
  sv_verifier :: sig_verifier

definition sct_verifier_new :: "ct_log_list \<Rightarrow> sig_verifier \<Rightarrow> sct_verifier" where
  "sct_verifier_new logs v = \<lparr> sv_logs = logs, sv_verifier = v \<rparr>"

definition verify_sct_for_cert ::
  "'x ct_codec_scheme \<Rightarrow> sct_verifier \<Rightarrow> sct \<Rightarrow> bytes \<Rightarrow> ct_log ct_result" where
  "verify_sct_for_cert cd sv sct cert_der =
     (if sct_version sct \<noteq> 0 then Err (UnsupportedVersion (sct_version sct))
      else and_then (ok_or UnknownLog (log_list_get (sv_logs sv) (log_id sct))) (\<lambda>log.
        if \<not> log_window_contains log (timestamp_ms sct) then Err SctTimestampOutsideLogWindow
        else and_then (ok_or (UnsupportedSignatureAlgorithm (hash_alg sct) (sig_alg sct))
                 (tls_alg_to_x509_oid (hash_alg sct) (sig_alg sct))) (\<lambda>oid.
             and_then (build_signed_input_x509_entry sct cert_der) (\<lambda>signed_input.
             and_then (map_err (\<lambda>_. LogKeyMalformed) (dec_spki cd (key_der log))) (\<lambda>key.
             and_then (map_err (\<lambda>_. InvalidSignature)
                 (sv_verifier sv \<lparr> alg_oid = oid, alg_parameters = None \<rparr> key signed_input (sct_signature sct)))
               (\<lambda>_. Ok log))))))"

definition verify_sct_for_precert ::
  "'x ct_codec_scheme \<Rightarrow> sct_verifier \<Rightarrow> sct \<Rightarrow> bytes \<Rightarrow> bytes \<Rightarrow> ct_log ct_result" where
  "verify_sct_for_precert cd sv sct leaf_cert_der issuer_cert_der =
     (if sct_version sct \<noteq> 0 then Err (UnsupportedVersion (sct_version sct))
      else and_then (ok_or UnknownLog (log_list_get (sv_logs sv) (log_id sct))) (\<lambda>log.
        if \<not> log_window_contains log (timestamp_ms sct) then Err SctTimestampOutsideLogWindow
        else and_then (ok_or (UnsupportedSignatureAlgorithm (hash_alg sct) (sig_alg sct))
                 (tls_alg_to_x509_oid (hash_alg sct) (sig_alg sct))) (\<lambda>oid.
             and_then (tbs_without_sct_list cd leaf_cert_der) (\<lambda>tbs_no_sct.
             and_then (issuer_key_hash_from_cert cd issuer_cert_der) (\<lambda>key_hash.
             and_then (build_signed_input_precert_entry sct key_hash tbs_no_sct) (\<lambda>signed_input.
             and_then (map_err (\<lambda>_. LogKeyMalformed) (dec_spki cd (key_der log))) (\<lambda>key.
             and_then (map_err (\<lambda>_. InvalidSignature)
                 (sv_verifier sv \<lparr> alg_oid = oid, alg_parameters = None \<rparr> key signed_input (sct_signature sct)))
               (\<lambda>_. Ok log))))))))"

definition verify_embedded_scts ::
  "'x ct_codec_scheme \<Rightarrow> sct_verifier \<Rightarrow> certificate \<Rightarrow> certificate \<Rightarrow> nat ct_result" where
  "verify_embedded_scts cd sv leaf_cert issuer_cert =
     and_then (ok_or NoScts (extensions (tbs leaf_cert))) (\<lambda>exts.
     and_then (ok_or NoScts (find (\<lambda>e. extn_id e = OID_SCT_LIST) exts)) (\<lambda>ext.
     and_then (from_extension_value cd (extn_value ext)) (\<lambda>scts.
       if scts = [] then Err NoScts
       else and_then (map_err (\<lambda>_. ParseError) (enc_certificate cd leaf_cert)) (\<lambda>leaf_der.
            and_then (map_err (\<lambda>_. ParseError) (enc_certificate cd issuer_cert)) (\<lambda>issuer_der.
              Ok (foldl (\<lambda>valid sct. if is_ok (verify_sct_for_precert cd sv sct leaf_der issuer_der)
                                      then valid + 1 else valid) 0 scts))))))"

definition verify_inclusion ::
  "'x ct_codec_scheme \<Rightarrow> sct_verifier \<Rightarrow> bytes \<Rightarrow> merkle_audit_path \<Rightarrow> bytes \<Rightarrow> unit ct_result" where
  "verify_inclusion cd sv leaf_hash proof root_hash = verify_inclusion_inner cd leaf_hash proof root_hash"

definition verify_sth ::
  "'x ct_codec_scheme \<Rightarrow> sct_verifier \<Rightarrow> bytes \<Rightarrow> signed_tree_head \<Rightarrow> ct_log ct_result" where
  "verify_sth cd sv lid sth =
     and_then (ok_or UnknownLog (log_list_get (sv_logs sv) lid)) (\<lambda>log.
     and_then (ok_or (UnsupportedSignatureAlgorithm (sth_hash_alg sth) (sth_sig_alg sth))
         (tls_alg_to_x509_oid (sth_hash_alg sth) (sth_sig_alg sth))) (\<lambda>oid.
     and_then (map_err (\<lambda>_. LogKeyMalformed) (dec_spki cd (key_der log))) (\<lambda>key.
     and_then (map_err (\<lambda>_. InvalidSignature)
         (sv_verifier sv \<lparr> alg_oid = oid, alg_parameters = None \<rparr> key (build_signed_input_tree_head sth)
            (sth_signature sth)))
       (\<lambda>_. Ok log))))"

section \<open>The entry a log signed\<close>

text \<open>The two kinds of log entries, and what is signed and hashed for each.\<close>

datatype log_entry =
    X509Entry bytes
  | PrecertEntry bytes bytes

fun signed_input :: "sct \<Rightarrow> log_entry \<Rightarrow> bytes ct_result" where
  "signed_input sct (X509Entry der) = build_signed_input_x509_entry sct der"
| "signed_input sct (PrecertEntry kh body) = build_signed_input_precert_entry sct kh body"

fun leaf_input :: "sct \<Rightarrow> log_entry \<Rightarrow> bytes ct_result" where
  "leaf_input sct (X509Entry der) = build_merkle_tree_leaf_x509_entry sct der"
| "leaf_input sct (PrecertEntry kh body) = build_merkle_tree_leaf_precert_entry sct kh body"

text \<open>Key hashes have 32 bytes, and the extensions of a parsed timestamp fit their prefix.\<close>

fun entry_wf :: "sct \<Rightarrow> log_entry \<Rightarrow> bool" where
  "entry_wf sct (X509Entry der) \<longleftrightarrow> length (sct_extensions sct) < 2 ^ 16"
| "entry_wf sct (PrecertEntry kh body) \<longleftrightarrow> length (sct_extensions sct) < 2 ^ 16 \<and> length kh = 32"

lemma leaf_input_is_signed_input: "leaf_input sct e = signed_input sct e"
  by (cases e) (simp_all add: build_merkle_tree_leaf_x509_entry_def build_merkle_tree_leaf_precert_entry_def
      build_signed_input_x509_entry_def build_signed_input_precert_entry_def)

lemma be_bytes_inj: "be_bytes n v = be_bytes n w \<Longrightarrow> v < 256 ^ n \<Longrightarrow> w < 256 ^ n \<Longrightarrow> v = w"
  by (metis from_be_be_bytes mod_less)

lemma u24_prefix_be: "u24_prefix n = be_bytes 3 n"
proof -
  have u8: "(of_nat (k mod 256) :: u8) = of_nat k" for k
    by (rule word_unat_eq_iff [THEN iffD2]) (simp add: unat_u8_mod)
  have "n mod 65536 div 256 = n div 256 mod 256" using mod_mult2_eq [of n 256 256] by simp
  then have "(of_nat (n mod 65536 div 256) :: u8) = of_nat (n div 256)"
    using u8 [of "n div 256"] by simp
  moreover have "(of_nat (n mod 65536) :: u8) = of_nat n"
    using u8 [of "n mod 65536"] u8 [of n] by (simp add: mod_mod_cancel)
  moreover have "be_bytes 2 k = [of_nat (k div 256), of_nat k]" "be_bytes 3 k = [of_nat (k div 256 div 256), of_nat (k div 256), of_nat k]" for k
    by (simp_all add: numeral_2_eq_2 numeral_3_eq_3)
  ultimately show ?thesis using u8 [of "n div 65536"]
    by (simp add: u24_prefix_def div_mult2_eq [symmetric])
qed

text \<open>A field behind its length prefix is determined by the bytes.\<close>

lemma prefixed_inj:
  assumes "be_bytes n (length a) @ a @ r = be_bytes n (length b) @ b @ r'"
    and "length a < 256 ^ n" "length b < 256 ^ n"
  shows "a = b \<and> r = r'"
proof -
  from assms(1) have "be_bytes n (length a) = be_bytes n (length b)" and rest: "a @ r = b @ r'"
    by (auto simp: append_eq_append_conv)
  with be_bytes_inj assms(2,3) have "length a = length b" by blast
  with rest show ?thesis by simp
qed

text \<open>The layout of a signed structure, the length prefixes at their width.\<close>

fun entry_body :: "log_entry \<Rightarrow> bytes" where
  "entry_body (X509Entry der) = be_bytes 2 0 @ be_bytes 3 (length der) @ der"
| "entry_body (PrecertEntry kh body) = be_bytes 2 1 @ kh @ be_bytes 3 (length body) @ body"

fun entry_small :: "log_entry \<Rightarrow> bool" where
  "entry_small (X509Entry der) \<longleftrightarrow> length der < 256 ^ 3"
| "entry_small (PrecertEntry kh body) \<longleftrightarrow> length body < 256 ^ 3"

lemma signed_input_Ok:
  assumes "entry_wf sct e"
  shows "signed_input sct e = Inr m \<longleftrightarrow> entry_small e \<and>
    m = [0, 0] @ be_bytes 8 (unat (timestamp_ms sct)) @ entry_body e
      @ be_bytes 2 (length (sct_extensions sct)) @ sct_extensions sct"
  using assms
  by (cases e) (auto simp: build_signed_input_x509_entry_def build_signed_input_precert_entry_def u24_prefix_be)

lemma entry_body_inj:
  assumes "entry_body e @ r = entry_body e' @ r'" and "entry_small e" "entry_small e'"
    and "entry_wf s e" "entry_wf s' e'"
  shows "e = e' \<and> r = r'"
proof -
  have kind: "be_bytes 2 0 @ a \<noteq> be_bytes 2 1 @ b" for a b
    by (simp add: numeral_2_eq_2)
  show ?thesis
  proof (cases e; cases e')
    fix der der' assume "e = X509Entry der" "e' = X509Entry der'"
    then show ?thesis using assms prefixed_inj [of 3 der r der' r'] by simp
  next
    fix kh body kh' body' assume "e = PrecertEntry kh body" "e' = PrecertEntry kh' body'"
    then show ?thesis using assms prefixed_inj [of 3 body r body' r'] by (auto simp: append_eq_append_conv)
  qed (use assms(1) kind in auto)
qed

lemma signed_input_inj:
  assumes "signed_input s e = Inr m" "signed_input s' e' = Inr m" and "entry_wf s e" "entry_wf s' e'"
  shows "timestamp_ms s = timestamp_ms s' \<and> e = e' \<and> sct_extensions s = sct_extensions s'"
proof -
  have small: "entry_small e" "entry_small e'" using assms by (simp_all add: signed_input_Ok)
  have "be_bytes 8 (unat (timestamp_ms s)) = be_bytes 8 (unat (timestamp_ms s'))"
    and "entry_body e @ be_bytes 2 (length (sct_extensions s)) @ sct_extensions s =
      entry_body e' @ be_bytes 2 (length (sct_extensions s')) @ sct_extensions s'"
    using assms by (auto simp: signed_input_Ok append_eq_append_conv)
  moreover from this(2) entry_body_inj small assms(3,4) have "e = e'"
    "be_bytes 2 (length (sct_extensions s)) @ sct_extensions s @ [] =
     be_bytes 2 (length (sct_extensions s')) @ sct_extensions s' @ []"
    by (metis append_Nil2)+
  moreover have "length (sct_extensions s) < 256 ^ 2" "length (sct_extensions s') < 256 ^ 2"
    using assms(3,4) by (cases e; cases e'; simp)+
  moreover have "unat (timestamp_ms w) < 256 ^ 8" for w
  proof -
    have "unat (timestamp_ms w) < 2 ^ LENGTH(64)" by (rule unsigned_less)
    then show ?thesis by simp
  qed
  ultimately show ?thesis using prefixed_inj be_bytes_inj by (metis word_unat_eq_iff)
qed

text \<open>
  C16. The bytes a log signs determine what it signed: two timestamps whose signed structures coincide
  agree on the time, on the kind of the entry and its contents, and on the extensions, so a signature
  for one certificate is never one for another, nor one for a precertificate; and no timestamp's
  structure is a tree head's.
\<close>

theorem signed_input_binds:
  assumes "signed_input s e = Ok m" and "signed_input s' e' = Ok m" and "entry_wf s e" and "entry_wf s' e'"
  shows "timestamp_ms s = timestamp_ms s' \<and> e = e' \<and> sct_extensions s = sct_extensions s' \<and>
     m \<noteq> build_signed_input_tree_head sth"
proof -
  have "m \<noteq> build_signed_input_tree_head sth"
    using assms(1,3) by (simp add: signed_input_Ok build_signed_input_tree_head_def)
  with signed_input_inj [OF assms] show ?thesis by blast
qed

definition ex_sct :: sct where
  "ex_sct = sct_new 0 (2 # replicate 31 7) 160 [] 4 3 [7]"

theorem signed_input_binds_witness:
  "[0, 0] @ be_bytes 8 160 @ [0, 0, 0, 0, 1, 5, 0, 0] \<noteq>
     build_signed_input_tree_head (signed_tree_head_new 1 160 [7] 4 3 [])"
proof -
  have "signed_input ex_sct (X509Entry [5]) = Ok ([0, 0] @ be_bytes 8 160 @ [0, 0, 0, 0, 1, 5, 0, 0])"
    by code_simp
  moreover have "entry_wf ex_sct (X509Entry [5])" by code_simp
  ultimately show ?thesis using signed_input_binds [of ex_sct "X509Entry [5]" _ ex_sct "X509Entry [5]"] by blast
qed

section \<open>What the verifier accepts\<close>

text \<open>The log the timestamp names signed the entry, within its window.\<close>

definition log_signed :: "'x ct_codec_scheme \<Rightarrow> sct_verifier \<Rightarrow> sct \<Rightarrow> log_entry \<Rightarrow> ct_log \<Rightarrow> bool" where
  "log_signed cd sv sct e log \<longleftrightarrow>
     sct_version sct = 0 \<and> log_list_get (sv_logs sv) (log_id sct) = Some log \<and>
     log_window_contains log (timestamp_ms sct) \<and>
     (\<exists>oid key m. tls_alg_to_x509_oid (hash_alg sct) (sig_alg sct) = Some oid \<and>
        dec_spki cd (key_der log) = Inr key \<and> signed_input sct e = Inr m \<and>
        sv_verifier sv \<lparr> alg_oid = oid, alg_parameters = None \<rparr> key m (sct_signature sct) = Inr ())"

lemma verify_sct_for_cert_Ok:
  "verify_sct_for_cert cd sv sct der = Inr log \<longleftrightarrow> log_signed cd sv sct (X509Entry der) log"
  by (auto simp: verify_sct_for_cert_def log_signed_def and_then_Ok_iff)

lemma verify_sct_for_precert_Ok:
  "verify_sct_for_precert cd sv sct leaf issuer_der = Inr log \<longleftrightarrow>
     (\<exists>body kh. tbs_without_sct_list cd leaf = Inr body \<and> issuer_key_hash_from_cert cd issuer_der = Inr kh \<and>
        log_signed cd sv sct (PrecertEntry kh body) log)"
  by (auto simp: verify_sct_for_precert_def log_signed_def and_then_Ok_iff)

text \<open>
  The precertificate of a certificate: the extension that carries the timestamps is gone, and an empty
  extension list is absent.
\<close>

definition precert_tbs :: "extension list \<Rightarrow> tbs_certificate \<Rightarrow> tbs_certificate" where
  "precert_tbs exts t = t\<lparr> extensions := if exts = [] then None else Some exts \<rparr>"

lemma tbs_without_sct_list_strips:
  assumes "dec_certificate cd leaf = Inr cert" "extensions (tbs cert) = Some (before @ ext # after)"
    and "extn_id ext = OID_SCT_LIST" and "OID_SCT_LIST \<notin> extn_id ` set (before @ after)"
  shows "tbs_without_sct_list cd leaf = Inr body \<longleftrightarrow>
     enc_tbs cd (precert_tbs (before @ after) (tbs cert)) = Inr body \<and> length body < 256 ^ 3"
proof -
  have keep: "filter (\<lambda>e. extn_id e \<noteq> OID_SCT_LIST) xs = xs" if "OID_SCT_LIST \<notin> extn_id ` set xs" for xs :: "extension list"
    using that by (auto simp: filter_id_conv image_iff)
  have "OID_SCT_LIST \<notin> extn_id ` set before" "OID_SCT_LIST \<notin> extn_id ` set after" using assms(4) by auto
  then have "filter (\<lambda>e. extn_id e \<noteq> OID_SCT_LIST) (before @ ext # after) = before @ after"
    using assms(3) keep by simp
  with assms(1,2) have "tbs_without_sct_list cd leaf =
      and_then (map_err (\<lambda>_. ParseError) (enc_tbs cd (precert_tbs (before @ after) (tbs cert)))) (\<lambda>buf.
        if length buf > 0xFFFFFF then Err CertDerTooLong else Ok buf)"
    by (simp only: tbs_without_sct_list_def precert_tbs_def) (simp add: Let_def)
  then show ?thesis by (cases "enc_tbs cd (precert_tbs (before @ after) (tbs cert))") auto
qed

lemma foldl_count: "foldl (\<lambda>n x. if P x then n + 1 else n) k xs = k + length (filter P xs)"
  by (induction xs arbitrary: k) auto

lemma find_middle:
  "P x \<Longrightarrow> filter P before = [] \<Longrightarrow> find P (before @ x # after) = Some x"
  by (induction before) (auto split: if_splits)

text \<open>
  C14. The count of the embedded timestamps that verify, for a certificate carrying one SCT-list
  extension and two certificates that survive their own encoding: it is the number of timestamps of the
  list whose log is trusted, within its window, and signed the precertificate, which is the certificate
  without the extension, under the hash of the issuer's key. A timestamp repeated in the list counts
  each time.
\<close>

theorem embedded_scts_authentic:
  assumes "extensions (tbs leaf) = Some (before @ ext # after)"
    and "extn_id ext = OID_SCT_LIST" and "OID_SCT_LIST \<notin> extn_id ` set (before @ after)"
    and "map_ok (dec_certificate cd) (enc_certificate cd leaf) = Inr (Inr leaf)"
    and "map_ok (dec_certificate cd) (enc_certificate cd issuer_cert) = Inr (Inr issuer_cert)"
    and "verify_embedded_scts cd sv leaf issuer_cert = Inr n"
  shows "\<exists>scts. from_extension_value cd (extn_value ext) = Inr scts \<and>
     n = length (filter (\<lambda>sct. \<exists>kh body log.
        enc_tbs cd (precert_tbs (before @ after) (tbs leaf)) = Inr body \<and>
        map_ok (sha256 cd) (enc_spki cd (subject_public_key_info (tbs issuer_cert))) = Inr kh \<and>
        log_signed cd sv sct (PrecertEntry kh body) log) scts)"
proof -
  have none: "filter (\<lambda>e. extn_id e = OID_SCT_LIST) before = []"
    using assms(3) by (auto simp: filter_empty_conv) (metis UnI1 image_eqI)
  have found: "find (\<lambda>e. extn_id e = OID_SCT_LIST) (before @ ext # after) = Some ext"
    using assms(2) none by (rule find_middle)
  from assms(1,6) found obtain scts leaf_der issuer_der where
      scts: "from_extension_value cd (extn_value ext) = Inr scts"
      and ders: "enc_certificate cd leaf = Inr leaf_der" "enc_certificate cd issuer_cert = Inr issuer_der"
      and n: "n = length (filter (\<lambda>sct. is_ok (verify_sct_for_precert cd sv sct leaf_der issuer_der)) scts)"
    by (auto simp: verify_embedded_scts_def and_then_Ok_iff foldl_count split: if_splits)
  have strip: "tbs_without_sct_list cd leaf_der = Inr body \<longleftrightarrow>
      enc_tbs cd (precert_tbs (before @ after) (tbs leaf)) = Inr body \<and> length body < 256 ^ 3" for body
    by (rule tbs_without_sct_list_strips) (use assms ders in auto)
  have key: "issuer_key_hash_from_cert cd issuer_der = Inr kh \<longleftrightarrow>
      map_ok (sha256 cd) (enc_spki cd (subject_public_key_info (tbs issuer_cert))) = Inr kh" for kh
    using assms(5) ders(2) by (cases "enc_spki cd (subject_public_key_info (tbs issuer_cert))")
      (auto simp: issuer_key_hash_from_cert_def and_then_Ok_iff)
  have small: "length body < 256 ^ 3" if "log_signed cd sv sct (PrecertEntry kh body) log" for sct kh body log
    using that by (auto simp: log_signed_def build_signed_input_precert_entry_def split: if_splits)
  have "is_ok (verify_sct_for_precert cd sv sct leaf_der issuer_der) \<longleftrightarrow>
      (\<exists>kh body log. enc_tbs cd (precert_tbs (before @ after) (tbs leaf)) = Inr body \<and>
        map_ok (sha256 cd) (enc_spki cd (subject_public_key_info (tbs issuer_cert))) = Inr kh \<and>
        log_signed cd sv sct (PrecertEntry kh body) log)" for sct
    unfolding is_ok_iff verify_sct_for_precert_Ok strip key using small by blast
  with scts n show ?thesis by simp
qed

text \<open>A certificate carrying one timestamp twice, the log that signed it, and a codec for both.\<close>

definition ex_log :: ct_log where
  "ex_log = ct_log_new (2 # replicate 31 7) (replicate 31 7) ''log'' ''u'' (Some 100) None"

definition ex_embedded_sct :: sct where
  "ex_embedded_sct = sct_new 0 (2 # replicate 31 7) 160 [] 4 3
     ([0, 0] @ be_bytes 8 160 @ [0, 1, 2, 1, 0, 0, 1, 5, 0, 0, 7])"

definition ex_sct_leaf :: certificate where "ex_sct_leaf = ex_cert 5 1 [ex_ext OID_SCT_LIST [9]]"

definition ex_ct_codec :: ct_codec where
  "ex_ct_codec = chain_codec.extend
     (revocation_codec.extend ex_hash_codec
       (chain_codec.fields (table_dec []) (table_dec [([5], ex_sct_leaf), ([1], ex_ca 1 1 [])])))
     (ct_codec.fields (table_dec [([9], enc_sct_list [ex_embedded_sct, ex_embedded_sct])])
       (table_dec [(replicate 31 7, ex_key 7)]) (\<lambda>c. Ok (serial_number (tbs c))))"

definition ex_sct_verifier :: sct_verifier where
  "ex_sct_verifier = sct_verifier_new [(2 # replicate 31 7, ex_log)] ex_verifier"

text \<open>
  One timestamp repeated in the list counts twice, so the count says nothing about the number of
  distinct logs that a policy asks for.
\<close>

lemma embedded_duplicates_counted: "verify_embedded_scts ex_ct_codec ex_sct_verifier ex_sct_leaf (ex_ca 1 1 []) = Ok 2"
  by code_simp

theorem embedded_scts_authentic_witness:
  "\<exists>scts. from_extension_value ex_ct_codec [9] = Ok scts \<and>
     2 = length (filter (\<lambda>sct. \<exists>kh body log.
        enc_tbs ex_ct_codec (precert_tbs [] (tbs ex_sct_leaf)) = Ok body \<and>
        map_ok (sha256 ex_ct_codec) (enc_spki ex_ct_codec (ex_key 1)) = Ok kh \<and>
        log_signed ex_ct_codec ex_sct_verifier sct (PrecertEntry kh body) log) scts)"
proof -
  have issuer_key: "subject_public_key_info (tbs (ex_ca 1 1 [])) = ex_key 1"
    and ext_value: "extn_value (ex_ext OID_SCT_LIST [9]) = [9]" by code_simp+
  have exts: "extensions (tbs ex_sct_leaf) = Some ([] @ ex_ext OID_SCT_LIST [9] # [])" by code_simp
  have "extn_id (ex_ext OID_SCT_LIST [9]) = OID_SCT_LIST" by code_simp
  moreover have "OID_SCT_LIST \<notin> extn_id ` set ([] @ [] :: extension list)" by simp
  moreover have "map_ok (dec_certificate ex_ct_codec) (enc_certificate ex_ct_codec ex_sct_leaf) = Ok (Ok ex_sct_leaf)"
    by code_simp
  moreover have "map_ok (dec_certificate ex_ct_codec) (enc_certificate ex_ct_codec (ex_ca 1 1 [])) = Ok (Ok (ex_ca 1 1 []))"
    by code_simp
  ultimately show ?thesis
    using embedded_scts_authentic [OF exts _ _ _ _ embedded_duplicates_counted] unfolding issuer_key ext_value by simp
qed

section \<open>Inclusion of entries\<close>

text \<open>The leaf hash of an entry.\<close>

definition entry_leaf :: "'x ct_codec_scheme \<Rightarrow> sct \<Rightarrow> log_entry \<Rightarrow> bytes ct_result" where
  "entry_leaf cd sct e = map_ok (merkle_leaf_hash cd) (leaf_input sct e)"

text \<open>
  C15. An inclusion proof for a certificate or precertificate, from the entry to the root: let the root
  be that of a log of entries. If the proof verifies for the leaf hash of an entry and a timestamp, the
  log has at the claimed index an entry of the same kind, contents, time and extensions, or two
  different inputs, named by the proof and the log, have the same SHA-256 hash.
\<close>

theorem entry_inclusion:
  assumes "entry_leaf cd s e = Ok h" and "entry_wf s e"
    and "list_all2 (\<lambda>(s', e') h'. entry_wf s' e' \<and> entry_leaf cd s' e' = Ok h') entries leaves"
    and "verify_inclusion cd sv h proof (tree_hash (inner_hash cd) leaves) = Ok ()"
    and "length leaves = unat (tree_size proof)"
  shows "unat (leaf_index proof) < length entries \<and>
     (case entries ! unat (leaf_index proof) of (s', e') \<Rightarrow>
        (e' = e \<and> timestamp_ms s' = timestamp_ms s \<and> sct_extensions s' = sct_extensions s) \<or>
        (\<exists>a b. leaf_input s e = Ok a \<and> leaf_input s' e' = Ok b \<and> a \<noteq> b \<and>
           sha256 cd (0 # a) = sha256 cd (0 # b)) \<or>
        collision (inner_hash cd) (proof_pairs cd h proof) (tree_pairs (inner_hash cd) leaves))"
proof -
  let ?i = "unat (leaf_index proof)"
  from verified_inclusion [OF assms(4) [unfolded verify_inclusion_def] assms(5)]
  have i: "?i < length leaves" and
    incl: "h = leaves ! ?i \<or> collision (inner_hash cd) (proof_pairs cd h proof) (tree_pairs (inner_hash cd) leaves)"
    by auto
  obtain s' e' where at: "entries ! ?i = (s', e')" by force
  from assms(3) i at have wf': "entry_wf s' e'" and leaf': "entry_leaf cd s' e' = Inr (leaves ! ?i)"
    and len: "length entries = length leaves"
    by (auto simp: list_all2_conv_all_nth split: prod.splits)
  from assms(1) leaf' obtain a b where a: "leaf_input s e = Inr a" "h = sha256 cd (0 # a)"
    and b: "leaf_input s' e' = Inr b" "leaves ! ?i = sha256 cd (0 # b)"
    by (cases "leaf_input s e"; cases "leaf_input s' e'") (auto simp: entry_leaf_def merkle_leaf_hash_def)
  have "e' = e \<and> timestamp_ms s' = timestamp_ms s \<and> sct_extensions s' = sct_extensions s" if "a = b"
    using signed_input_inj [of s e b s' e'] a(1) b(1) assms(2) wf' that by (simp add: leaf_input_is_signed_input)
  with incl a b i len at show ?thesis by auto
qed

theorem entry_inclusion_witness:
  "case [(ex_sct, X509Entry [5])] ! 0 of (s', e') \<Rightarrow>
     (e' = X509Entry [5] \<and> timestamp_ms s' = timestamp_ms ex_sct \<and> sct_extensions s' = sct_extensions ex_sct) \<or>
     (\<exists>a b. leaf_input ex_sct (X509Entry [5]) = Ok a \<and> leaf_input s' e' = Ok b \<and> a \<noteq> b \<and>
        sha256 ex_ct_codec (0 # a) = sha256 ex_ct_codec (0 # b)) \<or>
     collision (inner_hash ex_ct_codec)
       (proof_pairs ex_ct_codec ([2, 0, 0, 0] @ be_bytes 8 160 @ [0, 0, 0, 0, 1, 5, 0, 0]) (merkle_audit_path_new 0 1 []))
       (tree_pairs (inner_hash ex_ct_codec) [[2, 0, 0, 0] @ be_bytes 8 160 @ [0, 0, 0, 0, 1, 5, 0, 0]])"
proof -
  let ?h = "[2, 0, 0, 0] @ be_bytes 8 160 @ [0, 0, 0, 0, 1, 5, 0, 0]"
  have leaf: "entry_leaf ex_ct_codec ex_sct (X509Entry [5]) = Ok ?h" and wf: "entry_wf ex_sct (X509Entry [5])"
    by code_simp+
  have "verify_inclusion ex_ct_codec ex_sct_verifier ?h (merkle_audit_path_new 0 1 [])
      (tree_hash (inner_hash ex_ct_codec) [?h]) = Ok ()"
    by code_simp
  from entry_inclusion [OF leaf wf _ this, of "[(ex_sct, X509Entry [5])]"] leaf wf
  show ?thesis by (simp add: merkle_audit_path_new_def)
qed

end
