(* ===== verification/Lint.thy ===== *)
theory Lint
  imports Chain Sct "HOL-Library.Char_ord" "HOL-Library.List_Lexorder"
begin

text \<open>
  The lint engine, \<open>pkix-lint/src/lib.rs\<close>: severities, results, lints as objects with a mutable
  parameter, findings with their provenance, the runner and its stop at a fatal result, the selection of
  lints by identifier, the atomic parameter overrides, and \<open>check_shape\<close>. A lint is a value of a
  codatatype: \<open>set_parameter\<close> of the code updates the object, here it returns the updated lint.
\<close>

section \<open>Results\<close>

datatype severity = Info | Notice | SevWarn | SevError | SevFatal

fun severity_rank :: "severity \<Rightarrow> u8" where
  "severity_rank Info = 10"
| "severity_rank Notice = 20"
| "severity_rank SevWarn = 30"
| "severity_rank SevError = 40"
| "severity_rank SevFatal = 50"

fun display_severity :: "severity \<Rightarrow> string" where
  "display_severity Info = ''info''"
| "display_severity Notice = ''notice''"
| "display_severity SevWarn = ''warn''"
| "display_severity SevError = ''error''"
| "display_severity SevFatal = ''fatal''"

datatype lint_scope = CertificateScope | PathScope

datatype subject_kind = Leaf | IntermediateCa | AnchorIssued | AnyKind

definition kind_matches :: "subject_kind \<Rightarrow> subject_kind \<Rightarrow> bool" where
  "kind_matches kind filter_kind =
     (case filter_kind of
        AnyKind \<Rightarrow> True
      | IntermediateCa \<Rightarrow> kind = IntermediateCa \<or> kind = AnchorIssued
      | other \<Rightarrow> kind = other)"

datatype lint_result =
    LintPass
  | NotApplicable
  | LintWarn string
  | LintError string
  | LintFatal string

fun is_pass :: "lint_result \<Rightarrow> bool" where
  "is_pass LintPass = True"
| "is_pass _ = False"

fun result_is_finding :: "lint_result \<Rightarrow> bool" where
  "result_is_finding (LintWarn _) = True"
| "result_is_finding (LintError _) = True"
| "result_is_finding (LintFatal _) = True"
| "result_is_finding _ = False"

fun is_fatal :: "lint_result \<Rightarrow> bool" where
  "is_fatal (LintFatal _) = True"
| "is_fatal _ = False"

fun result_detail :: "lint_result \<Rightarrow> string option" where
  "result_detail (LintWarn d) = Some d"
| "result_detail (LintError d) = Some d"
| "result_detail (LintFatal d) = Some d"
| "result_detail _ = None"

fun display_lint_result :: "lint_result \<Rightarrow> string" where
  "display_lint_result LintPass = ''Pass''"
| "display_lint_result NotApplicable = ''NotApplicable''"
| "display_lint_result (LintWarn msg) = ''Warn: '' @ msg"
| "display_lint_result (LintError msg) = ''Error: '' @ msg"
| "display_lint_result (LintFatal msg) = ''Fatal: '' @ msg"

section \<open>Parameters\<close>

record lint_parameter =
  lp_id :: string
  lp_label :: string
  lp_default_value :: string

definition lint_parameter_new :: "string \<Rightarrow> string \<Rightarrow> string \<Rightarrow> lint_parameter" where
  "lint_parameter_new pid label default_value =
     \<lparr> lp_id = pid, lp_label = label, lp_default_value = default_value \<rparr>"

datatype parameter_error =
    UnknownParameter string
  | InvalidValue string string

fun display_parameter_error :: "parameter_error \<Rightarrow> string" where
  "display_parameter_error (UnknownParameter pid) = ''unknown lint parameter '' @ [CHR 0x27] @ pid @ [CHR 0x27]"
| "display_parameter_error (InvalidValue pid reason) =
     ''invalid value for lint parameter '' @ [CHR 0x27] @ pid @ [CHR 0x27] @ '': '' @ reason"

section \<open>Details in audit records\<close>

definition DETAIL_MAX_BYTES :: nat where "DETAIL_MAX_BYTES = 256"

text \<open>A \<open>str\<close> is its UTF-8 bytes; a boundary is any index not inside a character.\<close>

definition is_char_boundary :: "string \<Rightarrow> nat \<Rightarrow> bool" where
  "is_char_boundary s i \<longleftrightarrow>
     i = 0 \<or> i = length s \<or> (i < length s \<and> \<not> (0x80 \<le> (of_char (s ! i) :: nat) \<and> (of_char (s ! i) :: nat) < 0xC0))"

function cut_at_boundary :: "string \<Rightarrow> nat \<Rightarrow> nat" where
  "cut_at_boundary s n = (if is_char_boundary s n then n else cut_at_boundary s (n - 1))"
  by pat_completeness auto
termination by (relation "measure snd") (auto simp: is_char_boundary_def)

declare cut_at_boundary.simps [simp del]

definition truncate_for_detail :: "string \<Rightarrow> string" where
  "truncate_for_detail s =
     (if length s \<le> DETAIL_MAX_BYTES then s
      else take (cut_at_boundary s DETAIL_MAX_BYTES) s
             @ ''... (truncated, '' @ show_nat (length s) @ '' bytes total)'')"

section \<open>Hexadecimal digests\<close>

text \<open>The serde shim of \<open>cert_sha256\<close>; the deserialisation error carries no content of its own.\<close>

datatype hex_error = InvalidLength nat | NonHexChar

definition hex_digit :: "nat \<Rightarrow> char" where
  "hex_digit d = (if d < 10 then char_of (48 + d) else char_of (87 + d))"

definition hex_serialize :: "bytes option \<Rightarrow> string option" where
  "hex_serialize v = map_option (\<lambda>bs. concat (map (\<lambda>b. [hex_digit (unat b div 16), hex_digit (unat b mod 16)]) bs)) v"

definition nibble :: "char \<Rightarrow> nat option" where
  "nibble c =
     (let b = of_char c :: nat
      in if 48 \<le> b \<and> b \<le> 57 then Some (b - 48)
         else if 97 \<le> b \<and> b \<le> 102 then Some (b - 97 + 10)
         else if 65 \<le> b \<and> b \<le> 70 then Some (b - 65 + 10)
         else None)"

fun hex_pairs :: "string \<Rightarrow> hex_error + bytes" where
  "hex_pairs (h # l # rest) =
     and_then (ok_or NonHexChar (nibble h)) (\<lambda>hi.
     and_then (ok_or NonHexChar (nibble l)) (\<lambda>lo.
       map_ok (\<lambda>out. of_nat (hi * 16 + lo) # out) (hex_pairs rest)))"
| "hex_pairs _ = Ok []"

definition hex_deserialize :: "string option \<Rightarrow> hex_error + bytes option" where
  "hex_deserialize v =
     (case v of
        None \<Rightarrow> Ok None
      | Some hex \<Rightarrow>
          if length hex \<noteq> 64 then Err (InvalidLength (length hex)) else map_ok Some (hex_pairs hex))"

section \<open>Lints\<close>

codatatype lint = Lint
  (l_id: string)
  (l_citation: string)
  (l_severity: severity)
  (l_scope: lint_scope)
  (l_applies_to: subject_kind)
  (l_title: "string option")
  (l_description: "string option")
  (l_spec_section_id: "string option")
  (l_rfc_section_id: "string option")
  (l_spec_url: "string option")
  (l_rfc_url: "string option")
  (l_parameters: "lint_parameter list")
  (l_set_parameter: "string \<Rightarrow> string \<Rightarrow> parameter_error + lint")
  (l_check_cert: "certificate \<Rightarrow> subject_kind \<Rightarrow> u64 \<Rightarrow> lint_result")
  (l_check_path: "certificate list \<Rightarrow> validated_path \<Rightarrow> u64 \<Rightarrow> lint_result")

text \<open>The methods the trait provides when an implementation does not.\<close>

definition lint_title :: "lint \<Rightarrow> string" where
  "lint_title l = unwrap_or (l_id l) (l_title l)"

definition lint_spec_section_id :: "lint \<Rightarrow> string option" where
  "lint_spec_section_id l = (case l_spec_section_id l of Some s \<Rightarrow> Some s | None \<Rightarrow> l_rfc_section_id l)"

definition lint_spec_url :: "lint \<Rightarrow> string option" where
  "lint_spec_url l = (case l_spec_url l of Some s \<Rightarrow> Some s | None \<Rightarrow> l_rfc_url l)"

definition default_set_parameter :: "string \<Rightarrow> string \<Rightarrow> parameter_error + lint" where
  "default_set_parameter pid new_value = Err (UnknownParameter pid)"

definition default_check_path :: "certificate list \<Rightarrow> validated_path \<Rightarrow> u64 \<Rightarrow> lint_result" where
  "default_check_path chain path now_unix = NotApplicable"

definition default_check_cert :: "certificate \<Rightarrow> subject_kind \<Rightarrow> u64 \<Rightarrow> lint_result" where
  "default_check_cert cert kind now_unix = NotApplicable"

section \<open>Findings\<close>

record finding =
  fd_lint_id :: string
  fd_citation :: string
  fd_rule_bundle_version :: string
  fd_result :: lint_result
  fd_cert_index :: "nat option"
  fd_evaluated_at_unix :: u64
  fd_cert_sha256 :: "bytes option"

definition finding_is_finding :: "finding \<Rightarrow> bool" where
  "finding_is_finding f = result_is_finding (fd_result f)"

definition finding_new :: "string \<Rightarrow> string \<Rightarrow> string \<Rightarrow> lint_result \<Rightarrow> u64 \<Rightarrow> finding" where
  "finding_new lid cit version res at =
     \<lparr> fd_lint_id = lid, fd_citation = cit, fd_rule_bundle_version = version, fd_result = res,
       fd_cert_index = None, fd_evaluated_at_unix = at, fd_cert_sha256 = None \<rparr>"

definition with_cert_index :: "nat \<Rightarrow> finding \<Rightarrow> finding" where
  "with_cert_index i f = f\<lparr> fd_cert_index := Some i \<rparr>"

definition with_cert_sha256 :: "bytes \<Rightarrow> finding \<Rightarrow> finding" where
  "with_cert_sha256 h f = f\<lparr> fd_cert_sha256 := Some h \<rparr>"

fun severity_label :: "lint_result \<Rightarrow> string" where
  "severity_label (LintWarn _) = ''warn''"
| "severity_label (LintError _) = ''error''"
| "severity_label (LintFatal _) = ''fatal''"
| "severity_label LintPass = ''pass''"
| "severity_label NotApplicable = ''n/a''"

definition display_finding :: "finding \<Rightarrow> string" where
  "display_finding f =
     (case result_detail (fd_result f) of
        Some msg \<Rightarrow> fd_lint_id f @ '' ['' @ severity_label (fd_result f) @ '']: '' @ msg
      | None \<Rightarrow> fd_lint_id f @ '' ['' @ severity_label (fd_result f) @ '']'')"

text \<open>The digest of the re-encoded certificate, absent when it does not encode.\<close>

definition cert_sha256_of :: "'x ct_codec_scheme \<Rightarrow> certificate \<Rightarrow> bytes option" where
  "cert_sha256_of cd cert =
     (case enc_certificate cd cert of Inl _ \<Rightarrow> None | Inr der \<Rightarrow> Some (sha256 cd der))"

section \<open>The runner\<close>

text \<open>The panics of the engine: a repeated identifier, lists of different lengths, and the unreachable arm.\<close>

datatype lint_panic =
    DuplicateLintId string
  | KindsLengthMismatch nat nat
  | UnreachableDuplicate

record lint_runner =
  rn_lints :: "lint list"
  rn_bundle_version :: string

fun first_duplicate :: "string list \<Rightarrow> string set \<Rightarrow> string option" where
  "first_duplicate [] seen = None"
| "first_duplicate (i # ids) seen = (if i \<in> seen then Some i else first_duplicate ids (insert i seen))"

definition check_unique_ids :: "lint list \<Rightarrow> lint_panic + unit" where
  "check_unique_ids lints =
     (let ids = map l_id lints
      in if length (remdups_adj (sort ids)) \<noteq> length ids
         then case first_duplicate ids {} of
                Some i \<Rightarrow> Err (DuplicateLintId i)
              | None \<Rightarrow> Err UnreachableDuplicate
         else Ok ())"

definition lint_runner_new :: "lint list \<Rightarrow> lint_panic + lint_runner" where
  "lint_runner_new lints =
     and_then (check_unique_ids lints) (\<lambda>_. Ok \<lparr> rn_lints = lints, rn_bundle_version = [] \<rparr>)"

definition with_bundle_version :: "lint list \<Rightarrow> string \<Rightarrow> lint_panic + lint_runner" where
  "with_bundle_version lints version =
     and_then (check_unique_ids lints) (\<lambda>_. Ok \<lparr> rn_lints = lints, rn_bundle_version = version \<rparr>)"

fun run_cert_loop ::
  "string \<Rightarrow> bytes option \<Rightarrow> certificate \<Rightarrow> subject_kind \<Rightarrow> nat \<Rightarrow> u64 \<Rightarrow> lint list \<Rightarrow> finding list" where
  "run_cert_loop version digest cert kind i now_unix [] = []"
| "run_cert_loop version digest cert kind i now_unix (l # ls) =
     (if l_scope l \<noteq> CertificateScope then run_cert_loop version digest cert kind i now_unix ls
      else let res = (if kind_matches kind (l_applies_to l) then l_check_cert l cert kind now_unix
                      else NotApplicable);
               f = \<lparr> fd_lint_id = l_id l, fd_citation = l_citation l, fd_rule_bundle_version = version,
                     fd_result = res, fd_cert_index = Some i, fd_evaluated_at_unix = now_unix,
                     fd_cert_sha256 = digest \<rparr>
           in if is_fatal res then [f]
              else f # run_cert_loop version digest cert kind i now_unix ls)"

definition run_cert ::
  "'x ct_codec_scheme \<Rightarrow> lint_runner \<Rightarrow> certificate \<Rightarrow> subject_kind \<Rightarrow> nat \<Rightarrow> u64 \<Rightarrow> finding list" where
  "run_cert cd rn cert kind i now_unix =
     run_cert_loop (rn_bundle_version rn) (cert_sha256_of cd cert) cert kind i now_unix (rn_lints rn)"

definition run_cert_at_issuance ::
  "'x ct_codec_scheme \<Rightarrow> lint_runner \<Rightarrow> certificate \<Rightarrow> subject_kind \<Rightarrow> nat \<Rightarrow> finding list" where
  "run_cert_at_issuance cd rn cert kind i = run_cert cd rn cert kind i (not_before (tbs_validity (tbs cert)))"

definition run_chain ::
  "'x ct_codec_scheme \<Rightarrow> lint_runner \<Rightarrow> certificate list \<Rightarrow> subject_kind list \<Rightarrow> u64 \<Rightarrow> lint_panic + finding list" where
  "run_chain cd rn chain kinds now_unix =
     (if length kinds \<noteq> length chain then Err (KindsLengthMismatch (length kinds) (length chain))
      else Ok (concat (map (\<lambda>i. run_cert cd rn (chain ! i) (kinds ! i) i now_unix) [0..<length chain])))"

fun run_path_loop ::
  "string \<Rightarrow> certificate list \<Rightarrow> validated_path \<Rightarrow> u64 \<Rightarrow> lint list \<Rightarrow> finding list" where
  "run_path_loop version chain path now_unix [] = []"
| "run_path_loop version chain path now_unix (l # ls) =
     (if l_scope l \<noteq> PathScope then run_path_loop version chain path now_unix ls
      else let res = l_check_path l chain path now_unix;
               f = \<lparr> fd_lint_id = l_id l, fd_citation = l_citation l, fd_rule_bundle_version = version,
                     fd_result = res, fd_cert_index = None, fd_evaluated_at_unix = now_unix,
                     fd_cert_sha256 = None \<rparr>
           in if is_fatal res then [f] else f # run_path_loop version chain path now_unix ls)"

definition run_path :: "lint_runner \<Rightarrow> certificate list \<Rightarrow> validated_path \<Rightarrow> u64 \<Rightarrow> finding list" where
  "run_path rn chain path now_unix =
     run_path_loop (rn_bundle_version rn) chain path now_unix (rn_lints rn)"

section \<open>Selection and overrides\<close>

record parameter_override =
  po_param_id :: string
  po_value :: string

datatype override_error =
    UnknownLintId string
  | UnknownParameterOverride string
  | InvalidParameterOverride string parameter_error

text \<open>The slots by identifier; a slot is emptied when its lint is taken.\<close>

definition lints_by_id :: "lint list \<Rightarrow> string \<Rightarrow> lint option option" where
  "lints_by_id lints = fold (\<lambda>l m. m(l_id l \<mapsto> Some l)) lints (\<lambda>_. None)"

fun filter_loop ::
  "(string \<Rightarrow> lint option option) \<Rightarrow> string list \<Rightarrow> lint list \<Rightarrow> override_error + lint list" where
  "filter_loop by_id [] out = Ok out"
| "filter_loop by_id (i # ids) out =
     (case by_id i of
        None \<Rightarrow> Err (UnknownLintId i)
      | Some slot \<Rightarrow>
          filter_loop (by_id(i \<mapsto> None)) ids (case slot of Some l \<Rightarrow> out @ [l] | None \<Rightarrow> out))"

definition filter_to_ids :: "lint_runner \<Rightarrow> string list \<Rightarrow> override_error + lint_runner" where
  "filter_to_ids rn ids =
     map_ok (\<lambda>lints. \<lparr> rn_lints = lints, rn_bundle_version = rn_bundle_version rn \<rparr>)
       (filter_loop (lints_by_id (rn_lints rn)) ids [])"

text \<open>
  \<open>max_by_key\<close> gives the last of the greatest elements. A candidate is an index, the length of the
  identifier that is the prefix, and the rest of the parameter identifier.
\<close>

fun max_by_len :: "(nat \<times> nat \<times> string) list \<Rightarrow> (nat \<times> nat \<times> string) option" where
  "max_by_len [] = None"
| "max_by_len (c # cs) =
     (case max_by_len cs of
        None \<Rightarrow> Some c
      | Some best \<Rightarrow> Some (if fst (snd c) > fst (snd best) then c else best))"

definition override_candidates :: "lint list \<Rightarrow> string \<Rightarrow> (nat \<times> nat \<times> string) list" where
  "override_candidates lints param_id =
     List.map_filter (\<lambda>(i, l).
       case Option.bind (strip_prefix (l_id l) param_id) (strip_prefix ''.'') of
         None \<Rightarrow> None
       | Some rest \<Rightarrow> Some (i, length (l_id l), rest)) (enumerate 0 lints)"

fun resolve_overrides ::
  "lint list \<Rightarrow> parameter_override list \<Rightarrow> override_error + (nat \<times> string \<times> parameter_override) list" where
  "resolve_overrides lints [] = Ok []"
| "resolve_overrides lints (over # overs) =
     (case max_by_len (override_candidates lints (po_param_id over)) of
        None \<Rightarrow> Err (UnknownParameterOverride (po_param_id over))
      | Some (i, _, param_id) \<Rightarrow> map_ok (\<lambda>rs. (i, param_id, over) # rs) (resolve_overrides lints overs))"

fun apply_to_clones ::
  "lint list \<Rightarrow> (nat \<times> string \<times> parameter_override) list \<Rightarrow> (nat \<Rightarrow> lint option) \<Rightarrow> override_error + (nat \<Rightarrow> lint option)"
where
  "apply_to_clones lints [] clones = Ok clones"
| "apply_to_clones lints ((i, param_id, over) # rs) clones =
     (case l_set_parameter (unwrap_or (lints ! i) (clones i)) param_id (po_value over) of
        Inl source \<Rightarrow> Err (InvalidParameterOverride (po_param_id over) source)
      | Inr l \<Rightarrow> apply_to_clones lints rs (clones(i \<mapsto> l)))"

text \<open>
  The method changes the runner in place and returns a result: here the runner afterwards and the
  result.
\<close>

definition apply_parameter_overrides ::
  "lint_runner \<Rightarrow> parameter_override list \<Rightarrow> lint_runner \<times> (override_error + unit)" where
  "apply_parameter_overrides rn overs =
     (case resolve_overrides (rn_lints rn) overs of
        Inl e \<Rightarrow> (rn, Err e)
      | Inr resolved \<Rightarrow>
          (case apply_to_clones (rn_lints rn) resolved (\<lambda>_. None) of
             Inl e \<Rightarrow> (rn, Err e)
           | Inr clones \<Rightarrow>
               (rn\<lparr> rn_lints := map (\<lambda>(i, l). unwrap_or l (clones i)) (enumerate 0 (rn_lints rn)) \<rparr>, Ok ())))"

section \<open>Profiles with lints\<close>

text \<open>The trait \<open>Profile\<close> of \<open>pkix-path\<close>, and \<open>LintProfile\<close>, which extends it.\<close>

record profile_impl =
  pf_id :: string
  pf_version :: string
  pf_policy :: "u64 \<Rightarrow> validation_policy"
  pf_policy_oids :: "oid list"

record lint_profile = profile_impl +
  pf_lints :: "lint list"
  pf_lint_runner :: "lint_panic + lint_runner"

fun is_failure :: "lint_result \<Rightarrow> bool" where
  "is_failure (LintError _) = True"
| "is_failure (LintFatal _) = True"
| "is_failure _ = False"

text \<open>The outer sum is the panic of the runner's construction.\<close>

definition check_shape ::
  "'x ct_codec_scheme \<Rightarrow> certificate \<Rightarrow> subject_kind \<Rightarrow> u64 \<Rightarrow> lint_profile \<Rightarrow> lint_panic + (finding list + unit)" where
  "check_shape cd cert kind now_unix pf =
     map_ok (\<lambda>rn.
       let findings = run_cert cd rn cert kind 0 now_unix
       in if list_ex (\<lambda>f. is_failure (fd_result f)) findings then Err findings else Ok ()) (pf_lint_runner pf)"

section \<open>Audit details\<close>

lemma cut_at_boundary_props: "is_char_boundary s (cut_at_boundary s n) \<and> cut_at_boundary s n \<le> n"
proof (induction s n rule: cut_at_boundary.induct)
  case (1 s n)
  have "cut_at_boundary s n = (if is_char_boundary s n then n else cut_at_boundary s (n - 1))"
    by (rule cut_at_boundary.simps)
  then show ?case using 1 by (cases "is_char_boundary s n") auto
qed

lemma truncate_for_detail_prefix:
  "\<exists>n. n \<le> DETAIL_MAX_BYTES \<and> is_char_boundary s n \<and>
     truncate_for_detail s = take n s @ ''... (truncated, '' @ show_nat (length s) @ '' bytes total)''
   \<or> truncate_for_detail s = s \<and> length s \<le> DETAIL_MAX_BYTES"
  using cut_at_boundary_props [of s DETAIL_MAX_BYTES] by (auto simp: truncate_for_detail_def)

section \<open>Hexadecimal digests\<close>

lemma nibble_hex_digit: "d < 16 \<Longrightarrow> nibble (hex_digit d) = Some d"
  by (auto simp: nibble_def hex_digit_def Let_def)

lemma hex_pairs_serialize:
  "hex_pairs (concat (map (\<lambda>b. [hex_digit (unat b div 16), hex_digit (unat b mod 16)]) bs)) = Ok bs"
proof (induction bs)
  case (Cons b bs)
  have "unat b div 16 < 16" using unat_u8_less [of b] by auto
  moreover have "of_nat (unat b div 16) * 16 + of_nat (unat b mod 16) = (of_nat (unat b div 16 * 16 + unat b mod 16) :: u8)"
    by (simp only: of_nat_add of_nat_mult of_nat_numeral)
  then have "of_nat (unat b div 16) * 16 + of_nat (unat b mod 16) = b"
    by (simp only: div_mult_mod_eq) simp
  ultimately show ?case using Cons by (simp add: nibble_hex_digit)
qed simp

lemma length_hex: "length (concat (map (\<lambda>b. [f b, g b]) bs)) = 2 * length bs"
  by (induction bs) auto

lemma hex_pairs_Ok_length: "hex_pairs s = Inr bs \<Longrightarrow> even (length s) \<Longrightarrow> length s = 2 * length bs"
proof (induction s arbitrary: bs rule: hex_pairs.induct)
  case (1 h l rest)
  then show ?case by (cases "hex_pairs rest") (auto simp: and_then_Ok_iff)
qed auto

text \<open>
  The digest of a certificate survives its JSON form: serialising 32 bytes and reading them back
  gives the same digest, reading yields only digests of 32 bytes, and absence stays absence.
\<close>

lemma cert_sha256_roundtrip:
  "hex_deserialize (hex_serialize (Some bs)) =
     (if length bs = 32 then Ok (Some bs) else Err (InvalidLength (2 * length bs))) \<and>
   hex_deserialize (hex_serialize None) = Ok None \<and>
   (case hex_deserialize (Some s) of Inr read \<Rightarrow> map_option length read = Some 32
      | Inl e \<Rightarrow> e = (if length s = 64 then NonHexChar else InvalidLength (length s)))"
proof -
  have err: "hex_pairs t = Inl e \<Longrightarrow> e = NonHexChar" for t e
  proof (induction t arbitrary: e rule: hex_pairs.induct)
    case (1 h l rest)
    then show ?case by (cases "nibble h"; cases "nibble l"; cases "hex_pairs rest") auto
  qed auto
  show ?thesis using hex_pairs_Ok_length [of s] err [of s]
    by (auto simp: hex_deserialize_def hex_serialize_def hex_pairs_serialize length_hex map_ok_def split: sum.splits)
qed

section \<open>Unique identifiers\<close>

lemma length_remdups_adj_sorted:
  "sorted xs \<Longrightarrow> length (remdups_adj xs) = length xs \<longleftrightarrow> distinct xs" for xs :: "'a::linorder list"
proof (induction xs rule: remdups_adj.induct)
  case (3 x y xs)
  have "length (remdups_adj (x # xs)) \<le> length (x # xs)" by (rule remdups_adj_length)
  with 3 show ?case by (cases "x = y") (auto dest: order_antisym)
qed auto

lemma first_duplicate_None: "first_duplicate ids seen = None \<longleftrightarrow> distinct ids \<and> set ids \<inter> seen = {}"
  by (induction ids arbitrary: seen) auto

lemma check_unique_ids_iff: "check_unique_ids lints = Inr u \<longleftrightarrow> distinct (map l_id lints)"
  using length_remdups_adj_sorted [of "sort (map l_id lints)"]
  by (auto simp: check_unique_ids_def Let_def split: option.splits)

lemma no_unreachable: "check_unique_ids lints \<noteq> Inl UnreachableDuplicate"
  using length_remdups_adj_sorted [of "sort (map l_id lints)"]
  by (auto simp: check_unique_ids_def Let_def first_duplicate_None split: option.splits)

lemma lint_runner_new_Ok:
  "lint_runner_new lints = Inr rn \<longleftrightarrow> distinct (map l_id lints) \<and> rn = \<lparr> rn_lints = lints, rn_bundle_version = [] \<rparr>"
  by (auto simp: lint_runner_new_def and_then_Ok_iff check_unique_ids_iff)

section \<open>What a run reports\<close>

definition lint_verdict :: "certificate \<Rightarrow> subject_kind \<Rightarrow> u64 \<Rightarrow> lint \<Rightarrow> lint_result" where
  "lint_verdict cert kind now_unix l =
     (if kind_matches kind (l_applies_to l) then l_check_cert l cert kind now_unix else NotApplicable)"

text \<open>The elements up to the first that stops, that one included.\<close>

fun upto_stop :: "('a \<Rightarrow> bool) \<Rightarrow> 'a list \<Rightarrow> 'a list" where
  "upto_stop stop [] = []"
| "upto_stop stop (x # xs) = (if stop x then [x] else x # upto_stop stop xs)"

lemma list_ex_upto_stop: "(\<And>x. stop x \<Longrightarrow> P x) \<Longrightarrow> list_ex P (upto_stop stop xs) = list_ex P xs"
  by (induction xs) auto

lemma run_cert_loop_upto:
  "run_cert_loop version digest cert kind i now_unix ls =
     map (\<lambda>l. \<lparr> fd_lint_id = l_id l, fd_citation = l_citation l, fd_rule_bundle_version = version,
               fd_result = lint_verdict cert kind now_unix l, fd_cert_index = Some i,
               fd_evaluated_at_unix = now_unix, fd_cert_sha256 = digest \<rparr>)
       (upto_stop (\<lambda>l. is_fatal (lint_verdict cert kind now_unix l)) (filter (\<lambda>l. l_scope l = CertificateScope) ls))"
  by (induction ls) (auto simp: Let_def lint_verdict_def)

lemma is_fatal_failure: "is_fatal r \<Longrightarrow> is_failure r"
  by (cases r) auto

lemma is_failure_NotApplicable [simp]: "\<not> is_failure NotApplicable"
  by simp

lemma check_shape_cases:
  assumes "pf_lint_runner pf = lint_runner_new lints"
  shows
  "(case check_shape cd cert kind now_unix pf of
      Inl panic \<Rightarrow> \<not> distinct (map l_id lints)
    | Inr res \<Rightarrow> distinct (map l_id lints) \<and>
        (is_ok res \<longleftrightarrow> list_all (\<lambda>l. \<not> is_failure (l_check_cert l cert kind now_unix))
           (filter (\<lambda>l. l_scope l = CertificateScope \<and> kind_matches kind (l_applies_to l)) lints)))"
proof (cases "lint_runner_new lints")
  case (Inl p)
  then have "\<not> distinct (map l_id lints)" by (metis Inl_Inr_False lint_runner_new_Ok)
  with Inl show ?thesis using assms by (simp add: check_shape_def)
next
  case (Inr rn)
  then have d: "distinct (map l_id lints)" and rn: "rn_lints rn = lints" by (auto simp: lint_runner_new_Ok)
  let ?V = "lint_verdict cert kind now_unix"
  have "list_ex (\<lambda>f. is_failure (fd_result f)) (run_cert cd rn cert kind 0 now_unix) =
      list_ex (\<lambda>l. is_failure (?V l)) (upto_stop (\<lambda>l. is_fatal (?V l)) (filter (\<lambda>l. l_scope l = CertificateScope) lints))"
    by (simp add: run_cert_def run_cert_loop_upto rn list_ex_iff)
  also have "\<dots> = list_ex (\<lambda>l. is_failure (?V l)) (filter (\<lambda>l. l_scope l = CertificateScope) lints)"
    by (rule list_ex_upto_stop) (rule is_fatal_failure)
  also have "\<dots> \<longleftrightarrow> \<not> list_all (\<lambda>l. \<not> is_failure (l_check_cert l cert kind now_unix))
           (filter (\<lambda>l. l_scope l = CertificateScope \<and> kind_matches kind (l_applies_to l)) lints)"
    by (auto simp: list_ex_iff list_all_iff lint_verdict_def)
  finally show ?thesis using assms Inr d by (simp add: check_shape_def Let_def)
qed

text \<open>
  C19. A certificate has the shape of a profile iff no lint of the profile that looks at certificates and
  applies to its kind finds an error or worse: a fatal result, which stops the run, hides no other
  outcome of the check. A runner cannot be built exactly when two lints share an identifier.
\<close>

theorem check_shape_decides:
  "(case check_shape cd cert kind now_unix (pf\<lparr> pf_lint_runner := lint_runner_new lints \<rparr>) of
      Inl panic \<Rightarrow> \<not> distinct (map l_id lints)
    | Inr res \<Rightarrow> distinct (map l_id lints) \<and>
        (is_ok res \<longleftrightarrow> list_all (\<lambda>l. \<not> is_failure (l_check_cert l cert kind now_unix))
           (filter (\<lambda>l. l_scope l = CertificateScope \<and> kind_matches kind (l_applies_to l)) lints)))"
  by (rule check_shape_cases) simp

section \<open>Parameter overrides\<close>

fun configure :: "lint \<Rightarrow> (string \<times> string) list \<Rightarrow> parameter_error + lint" where
  "configure l [] = Ok l"
| "configure l ((p, v) # ps) = and_then (l_set_parameter l p v) (\<lambda>l'. configure l' ps)"

definition settings_for :: "nat \<Rightarrow> (nat \<times> string \<times> parameter_override) list \<Rightarrow> (string \<times> string) list" where
  "settings_for i rs = map (\<lambda>(_, p, ov). (p, po_value ov)) (filter (\<lambda>r. fst r = i) rs)"

lemma apply_to_clones_configure:
  "apply_to_clones lints rs clones = Inr clones' \<Longrightarrow>
     configure (unwrap_or (lints ! i) (clones i)) (settings_for i rs) = Inr (unwrap_or (lints ! i) (clones' i))"
proof (induction lints rs clones rule: apply_to_clones.induct)
  case (2 lints j p ov rs clones)
  then obtain b where b: "l_set_parameter (unwrap_or (lints ! j) (clones j)) p (po_value ov) = Inr b"
    by (auto split: sum.splits)
  then have "apply_to_clones lints rs (clones(j \<mapsto> b)) = Inr clones'" using "2.prems" by simp
  note "2.IH" [OF b this]
  then show ?case using b by (cases "i = j") (simp_all add: settings_for_def unwrap_or_def)
qed (simp add: settings_for_def)

lemma max_by_len_Some:
  "max_by_len cs = Some c \<Longrightarrow> c \<in> set cs \<and> list_all (\<lambda>c'. fst (snd c') \<le> fst (snd c)) cs"
proof (induction cs arbitrary: c)
  case (Cons d cs)
  then show ?case
    by (cases "max_by_len cs") (auto simp: list_all_iff split: if_splits option.splits elim: max_by_len.elims)
qed simp

lemma strip_prefix_dot:
  "Option.bind (strip_prefix a s) (strip_prefix ''.'') = Some r \<longleftrightarrow> s = a @ ''.'' @ r"
  by (auto simp: strip_prefix_Some bind_eq_Some_conv)

lemma override_candidates_mem:
  "(i, n, r) \<in> set (override_candidates lints pid) \<longleftrightarrow>
     i < length lints \<and> n = length (l_id (lints ! i)) \<and> pid = l_id (lints ! i) @ ''.'' @ r"
proof -
  have "(i, n, r) \<in> set (override_candidates lints pid) \<longleftrightarrow>
      (\<exists>l. (i, l) \<in> set (enumerate 0 lints) \<and> n = length (l_id l) \<and>
         Option.bind (strip_prefix (l_id l) pid) (strip_prefix ''.'') = Some r)"
    unfolding override_candidates_def List.map_filter_def
    by (auto simp: image_iff split: option.splits) (force split: option.splits)+
  then show ?thesis by (auto simp: strip_prefix_dot in_set_enumerate_eq)
qed

definition resolved_to_longest :: "lint list \<Rightarrow> nat \<times> string \<times> parameter_override \<Rightarrow> bool" where
  "resolved_to_longest lints = (\<lambda>(i, p, ov).
     i < length lints \<and> po_param_id ov = l_id (lints ! i) @ ''.'' @ p \<and>
     list_all (\<lambda>l. length (l_id l) \<le> length (l_id (lints ! i)))
       (filter (\<lambda>l. take (Suc (length (l_id l))) (po_param_id ov) = l_id l @ ''.'') lints))"

lemma resolve_overrides_Ok:
  "resolve_overrides lints overs = Inr rs \<Longrightarrow>
     map (\<lambda>(_, _, ov). ov) rs = overs \<and> list_all (resolved_to_longest lints) rs"
proof (induction overs arbitrary: rs)
  case (Cons ov overs)
  then obtain i n p rs' where c: "max_by_len (override_candidates lints (po_param_id ov)) = Some (i, n, p)"
    and rs': "resolve_overrides lints overs = Inr rs'" "rs = (i, p, ov) # rs'"
    by (auto simp: map_ok_def split: option.splits sum.splits)
  have at: "i < length lints" "n = length (l_id (lints ! i))" "po_param_id ov = l_id (lints ! i) @ ''.'' @ p"
    using max_by_len_Some [OF c] by (auto simp: override_candidates_mem)
  have "length (l_id l) \<le> n" if "l \<in> set lints" "take (Suc (length (l_id l))) (po_param_id ov) = l_id l @ ''.''" for l
  proof -
    from that(1) obtain j where j: "j < length lints" "lints ! j = l" by (auto simp: in_set_conv_nth)
    have "po_param_id ov = l_id l @ ''.'' @ drop (Suc (length (l_id l))) (po_param_id ov)"
      using that(2) by (metis append.assoc append_take_drop_id)
    then have "(j, length (l_id l), drop (Suc (length (l_id l))) (po_param_id ov))
        \<in> set (override_candidates lints (po_param_id ov))"
      using j by (simp add: override_candidates_mem)
    then show ?thesis using max_by_len_Some [OF c] by (auto simp: list_all_iff)
  qed
  then have "resolved_to_longest lints (i, p, ov)" using at by (auto simp: resolved_to_longest_def list_all_iff)
  then show ?case using Cons.IH [OF rs'(1)] rs'(2) by simp
qed simp

text \<open>
  C18. Parameter overrides are atomic and go where they should: on an error the runner is unchanged; on
  success every lint is the one it was with exactly the overrides applied, in order, whose identifier
  starts with its own identifier and a dot, no registered identifier being a longer such prefix.
\<close>

theorem overrides_atomic:
  "case apply_parameter_overrides rn overs of
     (rn', Inl e) \<Rightarrow> rn' = rn
   | (rn', Inr _) \<Rightarrow>
       rn_bundle_version rn' = rn_bundle_version rn \<and> length (rn_lints rn') = length (rn_lints rn) \<and>
       (\<exists>rs. map (\<lambda>(_, _, ov). ov) rs = overs \<and> list_all (resolved_to_longest (rn_lints rn)) rs \<and>
          list_all (\<lambda>i. configure (rn_lints rn ! i) (settings_for i rs) = Ok (rn_lints rn' ! i))
            [0..<length (rn_lints rn)])"
proof (cases "resolve_overrides (rn_lints rn) overs")
  case (Inr rs)
  show ?thesis
  proof (cases "apply_to_clones (rn_lints rn) rs (\<lambda>_. None)")
    case clones: (Inr clones)
    have "configure (rn_lints rn ! i) (settings_for i rs) = Inr (unwrap_or (rn_lints rn ! i) (clones i))" for i
      using apply_to_clones_configure [OF clones, of i] by (simp add: unwrap_or_def)
    then show ?thesis using Inr clones resolve_overrides_Ok [OF Inr]
      by (auto simp: apply_parameter_overrides_def list_all_iff nth_enumerate_eq)
  qed (simp add: apply_parameter_overrides_def Inr)
qed (simp add: apply_parameter_overrides_def)

section \<open>Selection by identifier\<close>

lemma lints_by_id_unique:
  assumes "distinct (map l_id lints)"
  shows "lints_by_id lints i = map_option Some (find (\<lambda>l. l_id l = i) lints)"
proof -
  have "fold (\<lambda>l m. m(l_id l \<mapsto> Some l)) ls m i =
      (case find (\<lambda>l. l_id l = i) ls of Some l \<Rightarrow> Some (Some l) | None \<Rightarrow> m i)"
    if "distinct (map l_id ls)" for ls m
    using that
  proof (induction ls arbitrary: m)
    case (Cons l ls)
    have "find (\<lambda>l. l_id l = i) ls = None" if "l_id l = i" using Cons.prems that by (auto simp: find_None_iff) (metis image_eqI)
    then show ?case using Cons by auto
  qed simp
  from this [OF assms] show ?thesis by (auto simp: lints_by_id_def split: option.splits)
qed

lemma filter_loop_Ok:
  assumes "distinct ids"
    and "list_all (\<lambda>i. \<exists>l. l_id l = i \<and> by_id i = Some (Some l)) ids"
  shows "\<exists>ls. filter_loop by_id ids out = Inr (out @ ls) \<and> map l_id ls = ids \<and>
     list_all (\<lambda>l. by_id (l_id l) = Some (Some l)) ls"
  using assms
proof (induction ids arbitrary: by_id out)
  case (Cons i ids)
  then obtain l where l: "l_id l = i" "by_id i = Some (Some l)" by auto
  have "list_all (\<lambda>j. \<exists>l. l_id l = j \<and> (by_id(i \<mapsto> None)) j = Some (Some l)) ids"
    using Cons.prems by (auto simp: list_all_iff)
  moreover have "distinct ids" using Cons.prems by simp
  ultimately obtain ls where ls: "filter_loop (by_id(i \<mapsto> None)) ids (out @ [l]) = Inr ((out @ [l]) @ ls)"
    "map l_id ls = ids" "list_all (\<lambda>l. (by_id(i \<mapsto> None)) (l_id l) = Some (Some l)) ls"
    using Cons.IH by blast
  from ls(3) have "list_all (\<lambda>l. by_id (l_id l) = Some (Some l)) ls"
    by (auto simp: list_all_iff split: if_splits)
  with l ls show ?case by (intro exI [of _ "l # ls"]) auto
qed simp

lemma filter_to_ids_selects:
  assumes "distinct (map l_id (rn_lints rn))" and "distinct ids" and "set ids \<subseteq> l_id ` set (rn_lints rn)"
  shows "\<exists>ls. filter_to_ids rn ids = Inr \<lparr> rn_lints = ls, rn_bundle_version = rn_bundle_version rn \<rparr> \<and>
     map l_id ls = ids \<and> set ls \<subseteq> set (rn_lints rn)"
proof -
  let ?by = "lints_by_id (rn_lints rn)"
  have "\<exists>l. l_id l = i \<and> ?by i = Some (Some l)" if "i \<in> set ids" for i
  proof -
    from that assms(3) have "find (\<lambda>l. l_id l = i) (rn_lints rn) \<noteq> None" by (auto simp: find_None_iff)
    then obtain l where "find (\<lambda>l. l_id l = i) (rn_lints rn) = Some l" by auto
    then show ?thesis using find_Some_mem lints_by_id_unique [OF assms(1), of i] by fastforce
  qed
  with filter_loop_Ok [OF assms(2), of ?by "[]"] obtain ls where ls: "filter_loop ?by ids [] = Inr ls"
    "map l_id ls = ids" "list_all (\<lambda>l. ?by (l_id l) = Some (Some l)) ls"
    by (auto simp: list_all_iff)
  from ls(3) have "set ls \<subseteq> set (rn_lints rn)"
    using find_Some_mem by (fastforce simp: list_all_iff lints_by_id_unique [OF assms(1)])
  with ls show ?thesis by (auto simp: filter_to_ids_def)
qed

end
