(* ===== verification/Deviation.thy ===== *)
theory Deviation
  imports Lint
begin

text \<open>
  Deviations, \<open>pkix-lint/src/deviation.rs\<close>: authorised, scoped and time-limited waivers of lint findings,
  the store that validates and keeps them, the resolution of the waiver that applies, and the runner that
  splits the findings of the lint engine into those that stand and those that are waived.
\<close>

section \<open>Scopes\<close>

datatype deviation_add_error =
    DuplicateId string
  | EmptyField string
  | MalformedScope string string

definition quoted :: "string \<Rightarrow> string" where "quoted s = [CHR 0x27] @ s @ [CHR 0x27]"

fun display_deviation_add_error :: "deviation_add_error \<Rightarrow> string" where
  "display_deviation_add_error (DuplicateId i) = ''deviation id '' @ quoted i @ '' already exists in the store''"
| "display_deviation_add_error (EmptyField field) = ''deviation field '' @ quoted field @ '' must not be empty''"
| "display_deviation_add_error (MalformedScope kind reason) =
     ''deviation scope kind '' @ quoted kind @ '' is malformed: '' @ reason"

definition SCOPE_KIND_ANY :: string where "SCOPE_KIND_ANY = ''pkix-lint.scope.any''"
definition SCOPE_KIND_ISSUER_DN_CONTAINS :: string where
  "SCOPE_KIND_ISSUER_DN_CONTAINS = ''pkix-lint.scope.issuer-dn-contains''"
definition SCOPE_KIND_ISSUER_DN_EXACT :: string where
  "SCOPE_KIND_ISSUER_DN_EXACT = ''pkix-lint.scope.issuer-dn-exact''"
definition SCOPE_KIND_SERIAL_RANGE :: string where
  "SCOPE_KIND_SERIAL_RANGE = ''pkix-lint.scope.serial-range''"
definition PROP_ISSUER_DN_SUBSTRING :: string where "PROP_ISSUER_DN_SUBSTRING = ''pkix-lint.issuer-dn-substring''"
definition PROP_ISSUER_DN_DER :: string where "PROP_ISSUER_DN_DER = ''pkix-lint.issuer-dn-der''"
definition PROP_SERIAL_START :: string where "PROP_SERIAL_START = ''pkix-lint.serial-start''"
definition PROP_SERIAL_END :: string where "PROP_SERIAL_END = ''pkix-lint.serial-end''"

lemmas scope_names =
  SCOPE_KIND_ANY_def SCOPE_KIND_ISSUER_DN_CONTAINS_def SCOPE_KIND_ISSUER_DN_EXACT_def SCOPE_KIND_SERIAL_RANGE_def
  PROP_ISSUER_DN_SUBSTRING_def PROP_ISSUER_DN_DER_def PROP_SERIAL_START_def PROP_SERIAL_END_def

datatype scope_prop_value = Text string | Bytes bytes

record deviation_scope =
  ds_kind :: string
  ds_props :: "(string \<times> scope_prop_value) list"

definition scope_any :: deviation_scope where
  "scope_any = \<lparr> ds_kind = SCOPE_KIND_ANY, ds_props = [] \<rparr>"

definition scope_issuer_dn_contains :: "string \<Rightarrow> deviation_scope" where
  "scope_issuer_dn_contains substring =
     \<lparr> ds_kind = SCOPE_KIND_ISSUER_DN_CONTAINS, ds_props = [(PROP_ISSUER_DN_SUBSTRING, Text substring)] \<rparr>"

definition scope_issuer_dn_exact :: "bytes \<Rightarrow> deviation_scope" where
  "scope_issuer_dn_exact issuer_der =
     \<lparr> ds_kind = SCOPE_KIND_ISSUER_DN_EXACT, ds_props = [(PROP_ISSUER_DN_DER, Bytes issuer_der)] \<rparr>"

definition scope_serial_range :: "bytes \<Rightarrow> bytes \<Rightarrow> bytes \<Rightarrow> deviation_scope" where
  "scope_serial_range issuer_der start stop =
     \<lparr> ds_kind = SCOPE_KIND_SERIAL_RANGE,
       ds_props = [(PROP_ISSUER_DN_DER, Bytes issuer_der), (PROP_SERIAL_START, Bytes start),
                   (PROP_SERIAL_END, Bytes stop)] \<rparr>"

definition get_prop :: "deviation_scope \<Rightarrow> string \<Rightarrow> scope_prop_value option" where
  "get_prop sc name = map_option snd (find (\<lambda>(k, v). k = name) (ds_props sc))"

definition get_text :: "deviation_scope \<Rightarrow> string \<Rightarrow> string option" where
  "get_text sc name = (case get_prop sc name of Some (Text s) \<Rightarrow> Some s | _ \<Rightarrow> None)"

definition get_bytes :: "deviation_scope \<Rightarrow> string \<Rightarrow> bytes option" where
  "get_bytes sc name = (case get_prop sc name of Some (Bytes b) \<Rightarrow> Some b | _ \<Rightarrow> None)"

section \<open>Serial numbers\<close>

datatype cmp_ordering = Less | Equal | Greater

definition cmp :: "'a::linorder \<Rightarrow> 'a \<Rightarrow> cmp_ordering" where
  "cmp a b = (if a < b then Less else if a = b then Equal else Greater)"

fun then_with :: "cmp_ordering \<Rightarrow> cmp_ordering \<Rightarrow> cmp_ordering" where
  "then_with Equal o2 = o2"
| "then_with o1 o2 = o1"

definition is_ge :: "cmp_ordering \<Rightarrow> bool" where "is_ge r \<longleftrightarrow> r \<noteq> Less"
definition is_le :: "cmp_ordering \<Rightarrow> bool" where "is_le r \<longleftrightarrow> r \<noteq> Greater"

text \<open>The order of slices: the first difference decides, else the shorter one is less.\<close>

fun cmp_slices :: "bytes \<Rightarrow> bytes \<Rightarrow> cmp_ordering" where
  "cmp_slices [] [] = Equal"
| "cmp_slices [] (_ # _) = Less"
| "cmp_slices (_ # _) [] = Greater"
| "cmp_slices (a # as) (b # bs) = then_with (cmp a b) (cmp_slices as bs)"

definition strip_leading_zeros :: "bytes \<Rightarrow> bytes" where
  "strip_leading_zeros bs = dropWhile (\<lambda>b. b = 0) bs"

definition serial_cmp :: "bytes \<Rightarrow> bytes \<Rightarrow> cmp_ordering" where
  "serial_cmp a b =
     (let a = strip_leading_zeros a; b = strip_leading_zeros b
      in then_with (cmp (length a) (length b)) (cmp_slices a b))"

section \<open>Matching\<close>

text \<open>
  The decoder of a name, its RFC 4514 rendering (both of \<open>x509-cert\<close>) and the Unicode lower-casing of
  the standard library, whose case tables are data, are parameters.
\<close>

record lint_codec = ct_codec +
  dec_name :: "bytes \<Rightarrow> der_error + dname"
  name_to_string :: "dname \<Rightarrow> string"
  str_to_lowercase :: "string \<Rightarrow> string"

definition scope_matches :: "'x lint_codec_scheme \<Rightarrow> deviation_scope \<Rightarrow> certificate \<Rightarrow> bool" where
  "scope_matches cd sc cert =
     (if ds_kind sc = SCOPE_KIND_ANY then True
      else if ds_kind sc = SCOPE_KIND_ISSUER_DN_CONTAINS then
        (case get_text sc PROP_ISSUER_DN_SUBSTRING of
           None \<Rightarrow> False
         | Some substring \<Rightarrow>
             contains_str (str_to_lowercase cd (name_to_string cd (issuer (tbs cert)))) substring)
      else if ds_kind sc = SCOPE_KIND_ISSUER_DN_EXACT then
        (case get_bytes sc PROP_ISSUER_DN_DER of
           None \<Rightarrow> False
         | Some der \<Rightarrow>
             (case dec_name cd der of
                Inl _ \<Rightarrow> False
              | Inr name \<Rightarrow> names_match name (issuer (tbs cert))))
      else if ds_kind sc = SCOPE_KIND_SERIAL_RANGE then
        (case get_bytes sc PROP_ISSUER_DN_DER of
           None \<Rightarrow> False
         | Some der \<Rightarrow>
        (case get_bytes sc PROP_SERIAL_START of
           None \<Rightarrow> False
         | Some start \<Rightarrow>
        (case get_bytes sc PROP_SERIAL_END of
           None \<Rightarrow> False
         | Some stop \<Rightarrow>
        (case dec_name cd der of
           Inl _ \<Rightarrow> False
         | Inr name \<Rightarrow>
             if \<not> names_match name (issuer (tbs cert)) then False
             else let serial = serial_number (tbs cert)
                  in is_ge (serial_cmp serial start) \<and> is_le (serial_cmp serial stop)))))
      else False)"

definition missing_prop :: "string \<Rightarrow> string \<Rightarrow> deviation_add_error" where
  "missing_prop kind prop = MalformedScope kind (''missing required prop '' @ quoted prop)"

definition wrong_type :: "string \<Rightarrow> string \<Rightarrow> string \<Rightarrow> deviation_add_error" where
  "wrong_type kind prop expected =
     MalformedScope kind (''prop '' @ quoted prop @ '' has wrong type (expected '' @ expected @ '')'')"

definition require_bytes :: "deviation_scope \<Rightarrow> string \<Rightarrow> deviation_add_error + unit" where
  "require_bytes sc prop =
     (case get_prop sc prop of
        None \<Rightarrow> Err (missing_prop (ds_kind sc) prop)
      | Some (Bytes _) \<Rightarrow> Ok ()
      | Some _ \<Rightarrow> Err (wrong_type (ds_kind sc) prop ''Bytes''))"

definition validate_scope :: "deviation_scope \<Rightarrow> deviation_add_error + unit" where
  "validate_scope sc =
     (if ds_kind sc = SCOPE_KIND_ANY then Ok ()
      else if ds_kind sc = SCOPE_KIND_ISSUER_DN_CONTAINS then
        (case get_prop sc PROP_ISSUER_DN_SUBSTRING of
           None \<Rightarrow> Err (missing_prop (ds_kind sc) PROP_ISSUER_DN_SUBSTRING)
         | Some (Text _) \<Rightarrow> Ok ()
         | Some _ \<Rightarrow> Err (wrong_type (ds_kind sc) PROP_ISSUER_DN_SUBSTRING ''Text''))
      else if ds_kind sc = SCOPE_KIND_ISSUER_DN_EXACT then require_bytes sc PROP_ISSUER_DN_DER
      else if ds_kind sc = SCOPE_KIND_SERIAL_RANGE then
        try_all (require_bytes sc) [PROP_ISSUER_DN_DER, PROP_SERIAL_START, PROP_SERIAL_END]
      else Ok ())"

section \<open>Deviations\<close>

datatype deviation_action = DowngradeSeverityTo severity | Suppress

record deviation =
  dv_id :: string
  target_lint :: string
  dv_scope :: deviation_scope
  effective_start :: "u64 option"
  effective_end :: "u64 option"
  dv_action :: deviation_action
  justification :: string
  authorized_by :: string
  evidence_uri :: "string option"
  priority :: int

definition deviation_new ::
  "string \<Rightarrow> string \<Rightarrow> deviation_scope \<Rightarrow> deviation_action \<Rightarrow> string \<Rightarrow> string \<Rightarrow> deviation_add_error + deviation" where
  "deviation_new i target sc action just auth =
     (if i = [] then Err (EmptyField ''id'')
      else if target = [] then Err (EmptyField ''target_lint'')
      else if just = [] then Err (EmptyField ''justification'')
      else if auth = [] then Err (EmptyField ''authorized_by'')
      else Ok \<lparr> dv_id = i, target_lint = target, dv_scope = sc, effective_start = None, effective_end = None,
                dv_action = action, justification = just, authorized_by = auth, evidence_uri = None,
                priority = 0 \<rparr>)"

definition with_effective_start :: "u64 \<Rightarrow> deviation \<Rightarrow> deviation" where
  "with_effective_start t d = d\<lparr> effective_start := Some t \<rparr>"

definition with_effective_end :: "u64 \<Rightarrow> deviation \<Rightarrow> deviation" where
  "with_effective_end t d = d\<lparr> effective_end := Some t \<rparr>"

definition with_evidence_uri :: "string \<Rightarrow> deviation \<Rightarrow> deviation" where
  "with_evidence_uri uri d = d\<lparr> evidence_uri := Some uri \<rparr>"

definition with_priority :: "int \<Rightarrow> deviation \<Rightarrow> deviation" where
  "with_priority p d = d\<lparr> priority := p \<rparr>"

definition is_active_at :: "deviation \<Rightarrow> u64 \<Rightarrow> bool" where
  "is_active_at d now_unix \<longleftrightarrow>
     (case effective_start d of None \<Rightarrow> True | Some start \<Rightarrow> now_unix \<ge> start) \<and>
     (case effective_end d of None \<Rightarrow> True | Some stop \<Rightarrow> now_unix < stop)"

definition deviation_applies_to :: "'x lint_codec_scheme \<Rightarrow> deviation \<Rightarrow> certificate \<Rightarrow> u64 \<Rightarrow> bool" where
  "deviation_applies_to cd d cert now_unix =
     (if \<not> is_active_at d now_unix then False else scope_matches cd (dv_scope d) cert)"

section \<open>The store\<close>

type_synonym deviation_store = "deviation list"

definition store_new :: deviation_store where "store_new = []"

text \<open>The substring is lower-cased when the deviation is added, the issuer when it is matched.\<close>

definition normalize_scope :: "'x lint_codec_scheme \<Rightarrow> deviation_scope \<Rightarrow> deviation_scope" where
  "normalize_scope cd sc =
     (if ds_kind sc = SCOPE_KIND_ISSUER_DN_CONTAINS
      then sc\<lparr> ds_props := map (\<lambda>(name, v).
             if name = PROP_ISSUER_DN_SUBSTRING
             then (name, case v of Text s \<Rightarrow> Text (str_to_lowercase cd s) | Bytes b \<Rightarrow> Bytes b)
             else (name, v)) (ds_props sc) \<rparr>
      else sc)"

text \<open>The method changes the store in place: here the store afterwards and the result.\<close>

definition store_add ::
  "'x lint_codec_scheme \<Rightarrow> deviation \<Rightarrow> deviation_store \<Rightarrow> deviation_store \<times> (deviation_add_error + unit)" where
  "store_add cd d store =
     (if justification d = [] then (store, Err (EmptyField ''justification''))
      else if authorized_by d = [] then (store, Err (EmptyField ''authorized_by''))
      else if list_ex (\<lambda>d'. dv_id d' = dv_id d) store then (store, Err (DuplicateId (dv_id d)))
      else case validate_scope (dv_scope d) of
             Inl e \<Rightarrow> (store, Err e)
           | Inr _ \<Rightarrow> (store @ [d\<lparr> dv_scope := normalize_scope cd (dv_scope d) \<rparr>], Ok ()))"

definition store_all :: "deviation_store \<Rightarrow> deviation list" where "store_all store = store"

definition active_at :: "deviation_store \<Rightarrow> u64 \<Rightarrow> deviation list" where
  "active_at store now_unix = filter (\<lambda>d. is_active_at d now_unix) store"

definition active_for_lint :: "deviation_store \<Rightarrow> string \<Rightarrow> u64 \<Rightarrow> deviation list" where
  "active_for_lint store lid now_unix = filter (\<lambda>d. target_lint d = lid \<and> is_active_at d now_unix) store"

definition expired_at :: "deviation_store \<Rightarrow> u64 \<Rightarrow> deviation list" where
  "expired_at store now_unix =
     filter (\<lambda>d. case effective_end d of None \<Rightarrow> False | Some stop \<Rightarrow> now_unix \<ge> stop) store"

fun best_loop :: "(deviation \<Rightarrow> bool) \<Rightarrow> deviation list \<Rightarrow> deviation option \<Rightarrow> deviation option" where
  "best_loop hit [] best = best"
| "best_loop hit (d # ds) best =
     best_loop hit ds
       (if hit d
        then case best of None \<Rightarrow> Some d | Some prev \<Rightarrow> if priority d > priority prev then Some d else Some prev
        else best)"

definition find_deviation ::
  "'x lint_codec_scheme \<Rightarrow> deviation_store \<Rightarrow> string \<Rightarrow> certificate \<Rightarrow> u64 \<Rightarrow> deviation option" where
  "find_deviation cd store lid cert now_unix =
     best_loop (\<lambda>d. target_lint d = lid \<and> deviation_applies_to cd d cert now_unix) store None"

definition find_deviation_for_chain ::
  "'x lint_codec_scheme \<Rightarrow> deviation_store \<Rightarrow> string \<Rightarrow> certificate list \<Rightarrow> u64 \<Rightarrow> deviation option" where
  "find_deviation_for_chain cd store lid chain now_unix =
     best_loop (\<lambda>d. target_lint d = lid \<and> list_ex (\<lambda>cert. deviation_applies_to cd d cert now_unix) chain) store None"

section \<open>The runner\<close>

record deviated_finding =
  df_lint_id :: string
  df_citation :: string
  df_original_result :: lint_result
  df_deviation_id :: string
  df_action :: deviation_action
  df_justification :: string
  df_evidence_uri :: "string option"
  df_cert_index :: "nat option"
  df_evaluated_at_unix :: u64

definition effective_severity :: "deviated_finding \<Rightarrow> severity option" where
  "effective_severity f = (case df_action f of DowngradeSeverityTo s \<Rightarrow> Some s | Suppress \<Rightarrow> None)"

record deviation_run_result =
  rr_findings :: "finding list"
  rr_deviated :: "deviated_finding list"

record deviation_runner =
  dr_runner :: lint_runner
  dr_store :: deviation_store

definition deviation_runner_new :: "lint_runner \<Rightarrow> deviation_store \<Rightarrow> deviation_runner" where
  "deviation_runner_new rn store = \<lparr> dr_runner = rn, dr_store = store \<rparr>"

definition make_deviated :: "finding \<Rightarrow> deviation \<Rightarrow> deviated_finding" where
  "make_deviated f d =
     \<lparr> df_lint_id = fd_lint_id f, df_citation = fd_citation f, df_original_result = fd_result f,
       df_deviation_id = dv_id d, df_action = dv_action d, df_justification = justification d,
       df_evidence_uri = evidence_uri d, df_cert_index = fd_cert_index f,
       df_evaluated_at_unix = fd_evaluated_at_unix f \<rparr>"

text \<open>The loop both variants share, over how the waiver of a lint is found.\<close>

fun deviate_loop :: "(string \<Rightarrow> deviation option) \<Rightarrow> finding list \<Rightarrow> deviation_run_result \<Rightarrow> deviation_run_result" where
  "deviate_loop waiver [] res = res"
| "deviate_loop waiver (f # fs) res =
     deviate_loop waiver fs
       (if \<not> result_is_finding (fd_result f) then res\<lparr> rr_findings := rr_findings res @ [f] \<rparr>
        else case waiver (fd_lint_id f) of
               None \<Rightarrow> res\<lparr> rr_findings := rr_findings res @ [f] \<rparr>
             | Some d \<Rightarrow> res\<lparr> rr_deviated := rr_deviated res @ [make_deviated f d] \<rparr>)"

definition empty_result :: deviation_run_result where
  "empty_result = \<lparr> rr_findings = [], rr_deviated = [] \<rparr>"

definition apply_deviations ::
  "'x lint_codec_scheme \<Rightarrow> deviation_runner \<Rightarrow> finding list \<Rightarrow> certificate \<Rightarrow> u64 \<Rightarrow> deviation_run_result" where
  "apply_deviations cd dr raw cert now_unix =
     deviate_loop (\<lambda>lid. find_deviation cd (dr_store dr) lid cert now_unix) raw empty_result"

definition apply_deviations_for_chain ::
  "'x lint_codec_scheme \<Rightarrow> deviation_runner \<Rightarrow> finding list \<Rightarrow> certificate list \<Rightarrow> u64 \<Rightarrow> deviation_run_result" where
  "apply_deviations_for_chain cd dr raw chain now_unix =
     deviate_loop (\<lambda>lid. find_deviation_for_chain cd (dr_store dr) lid chain now_unix) raw empty_result"

definition deviation_run_cert ::
  "'x lint_codec_scheme \<Rightarrow> deviation_runner \<Rightarrow> certificate \<Rightarrow> subject_kind \<Rightarrow> nat \<Rightarrow> u64 \<Rightarrow> deviation_run_result" where
  "deviation_run_cert cd dr cert kind i now_unix =
     apply_deviations cd dr (run_cert cd (dr_runner dr) cert kind i now_unix) cert now_unix"

definition deviation_run_cert_at_issuance ::
  "'x lint_codec_scheme \<Rightarrow> deviation_runner \<Rightarrow> certificate \<Rightarrow> subject_kind \<Rightarrow> nat \<Rightarrow> deviation_run_result" where
  "deviation_run_cert_at_issuance cd dr cert kind i =
     deviation_run_cert cd dr cert kind i (not_before (tbs_validity (tbs cert)))"

definition deviation_run_chain ::
  "'x lint_codec_scheme \<Rightarrow> deviation_runner \<Rightarrow> certificate list \<Rightarrow> subject_kind list \<Rightarrow> u64
     \<Rightarrow> lint_panic + deviation_run_result" where
  "deviation_run_chain cd dr chain kinds now_unix =
     (if length kinds \<noteq> length chain then Err (KindsLengthMismatch (length kinds) (length chain))
      else Ok (foldl (\<lambda>res i.
             let part = apply_deviations cd dr (run_cert cd (dr_runner dr) (chain ! i) (kinds ! i) i now_unix)
                          (chain ! i) now_unix
             in \<lparr> rr_findings = rr_findings res @ rr_findings part,
                  rr_deviated = rr_deviated res @ rr_deviated part \<rparr>) empty_result [0..<length chain]))"

definition deviation_run_path ::
  "'x lint_codec_scheme \<Rightarrow> deviation_runner \<Rightarrow> certificate list \<Rightarrow> validated_path \<Rightarrow> u64 \<Rightarrow> deviation_run_result" where
  "deviation_run_path cd dr chain path now_unix =
     apply_deviations_for_chain cd dr (run_path (dr_runner dr) chain path now_unix) chain now_unix"

section \<open>Serial numbers are numbers\<close>

lemma from_be_strip: "from_be (strip_leading_zeros bs) = from_be bs"
  by (induction bs) (auto simp: strip_leading_zeros_def from_be_Cons)

lemma from_be_stripped_ge:
  assumes "strip_leading_zeros bs = b # cs"
  shows "256 ^ length cs \<le> from_be (b # cs)"
proof -
  have "b \<noteq> 0" using assms hd_dropWhile [of "\<lambda>b. b = 0" bs] by (force simp: strip_leading_zeros_def)
  then have "0 < unat b" by (simp add: unat_gt_0)
  then have "256 ^ length cs \<le> unat b * 256 ^ length cs" by (cases "unat b") auto
  then show ?thesis by (simp add: from_be_Cons trans_le_add1)
qed

lemma cmp_nat_scale:
  assumes "(x :: nat) < k" "y < k"
  shows "cmp (a * k + x) (b * k + y) = then_with (cmp a b) (cmp x y)"
proof -
  consider "a < b" | "a = b" | "b < a" by linarith
  then show ?thesis
  proof cases
    case 1
    then have "Suc a * k \<le> b * k" by (intro mult_le_mono1) simp
    then have "a * k + x < b * k + y" using assms by simp
    then show ?thesis using 1 by (simp add: cmp_def)
  next
    case 3
    then have "Suc b * k \<le> a * k" by (intro mult_le_mono1) simp
    then have "b * k + y < a * k + x" using assms by simp
    then show ?thesis using 3 by (simp add: cmp_def)
  qed (simp add: cmp_def)
qed

lemma cmp_slices_from_be: "length as = length bs \<Longrightarrow> cmp_slices as bs = cmp (from_be as) (from_be bs)"
proof (induction as bs rule: cmp_slices.induct)
  case (4 a as b bs)
  have "cmp a b = cmp (unat a) (unat b)" by (auto simp: cmp_def word_less_nat_alt word_unat_eq_iff [of a b])
  then show ?case using 4 from_be_bound [of as] from_be_bound [of bs]
    by (simp add: from_be_Cons cmp_nat_scale)
qed (auto simp: cmp_def)

lemma serial_cmp_numeric: "serial_cmp a b = cmp (from_be a) (from_be b)"
proof -
  define x y where "x = strip_leading_zeros a" and "y = strip_leading_zeros b"
  have less: "from_be u < from_be v"
    if "length u < length v" "v = strip_leading_zeros c" for u v c
  proof -
    from that(1) obtain d ds where v: "v = d # ds" by (cases v) auto
    have "from_be u < 256 ^ length u" by (rule from_be_bound)
    also have "\<dots> \<le> 256 ^ length ds" using that(1) v by (intro power_increasing) auto
    also have "\<dots> \<le> from_be v" using from_be_stripped_ge that(2) v by metis
    finally show ?thesis .
  qed
  have "then_with (cmp (length x) (length y)) (cmp_slices x y) = cmp (from_be x) (from_be y)"
  proof -
    consider "length x < length y" | "length x = length y" | "length y < length x" by linarith
    then show ?thesis
    proof cases
      case 1
      with less [OF 1 y_def] show ?thesis by (simp add: cmp_def)
    next
      case 3
      with less [OF 3 x_def] show ?thesis by (simp add: cmp_def)
    qed (simp add: cmp_slices_from_be cmp_def [of "length y"])
  qed
  then show ?thesis by (simp add: serial_cmp_def Let_def x_def y_def from_be_strip)
qed

text \<open>
  A serial-range scope matches exactly the certificates of the named issuer whose serial number,
  read as an unsigned number of any length and any number of leading zeros, lies between the bounds,
  both included.
\<close>

theorem serial_range_numeric:
  "scope_matches cd (scope_serial_range der start stop) cert \<longleftrightarrow>
     (\<exists>name. dec_name cd der = Ok name \<and> names_match name (issuer (tbs cert)) \<and>
        from_be start \<le> from_be (serial_number (tbs cert)) \<and>
        from_be (serial_number (tbs cert)) \<le> from_be stop)"
proof -
  have props: "get_bytes (scope_serial_range der start stop) PROP_ISSUER_DN_DER = Some der"
    "get_bytes (scope_serial_range der start stop) PROP_SERIAL_START = Some start"
    "get_bytes (scope_serial_range der start stop) PROP_SERIAL_END = Some stop"
    by (simp_all add: get_bytes_def get_prop_def scope_serial_range_def scope_names)
  have kind: "ds_kind (scope_serial_range der start stop) = SCOPE_KIND_SERIAL_RANGE"
    "SCOPE_KIND_SERIAL_RANGE \<noteq> SCOPE_KIND_ANY" "SCOPE_KIND_SERIAL_RANGE \<noteq> SCOPE_KIND_ISSUER_DN_CONTAINS"
    "SCOPE_KIND_SERIAL_RANGE \<noteq> SCOPE_KIND_ISSUER_DN_EXACT"
    by (simp_all add: scope_serial_range_def scope_names)
  have ge: "is_ge (serial_cmp a b) \<longleftrightarrow> from_be b \<le> from_be a"
    and le: "is_le (serial_cmp a b) \<longleftrightarrow> from_be a \<le> from_be b" for a b
    by (auto simp: serial_cmp_numeric is_ge_def is_le_def cmp_def)
  show ?thesis
    unfolding scope_matches_def kind(1) using kind(2-4) by (auto simp: props ge le Let_def split: sum.splits)
qed

text \<open>The documented range in the byte-wise order would be empty here.\<close>

lemma serial_range_not_lexicographic:
  "cmp_slices [0xFF] [2] \<noteq> Less \<and> cmp_slices [0xFF] [1, 0] = Greater \<and>
   is_ge (serial_cmp [0xFF] [2]) \<and> is_le (serial_cmp [0xFF] [1, 0])"
  by code_simp

section \<open>Which waiver applies\<close>

text \<open>
  The waiver in force for a predicate on deviations: the first, in the order of insertion, of those of
  the highest priority.
\<close>

definition in_force :: "(deviation \<Rightarrow> bool) \<Rightarrow> deviation list \<Rightarrow> deviation \<Rightarrow> bool" where
  "in_force hit store d \<longleftrightarrow>
     (\<exists>before after. store = before @ d # after \<and> hit d \<and>
        (\<forall>d' \<in> set before. hit d' \<longrightarrow> priority d' < priority d) \<and>
        (\<forall>d' \<in> set after. hit d' \<longrightarrow> priority d' \<le> priority d))"

lemma best_loop_invariant:
  assumes "case best of None \<Rightarrow> \<forall>d \<in> set seen. \<not> hit d | Some b \<Rightarrow> in_force hit seen b"
  shows "case best_loop hit ds best of None \<Rightarrow> \<forall>d \<in> set (seen @ ds). \<not> hit d
     | Some b \<Rightarrow> in_force hit (seen @ ds) b"
  using assms
proof (induction ds arbitrary: seen best)
  case (Cons d ds)
  let ?best = "if hit d
        then case best of None \<Rightarrow> Some d | Some prev \<Rightarrow> if priority d > priority prev then Some d else Some prev
        else best"
  have "case ?best of None \<Rightarrow> \<forall>d \<in> set (seen @ [d]). \<not> hit d | Some b \<Rightarrow> in_force hit (seen @ [d]) b"
  proof (cases best)
    case None
    with Cons.prems have "in_force hit (seen @ [d]) d" if "hit d"
      unfolding in_force_def using that by (intro exI [of _ seen] exI [of _ "[]"]) auto
    with None Cons.prems show ?thesis by auto
  next
    case (Some prev)
    with Cons.prems have p: "in_force hit seen prev" by simp
    then have top: "\<forall>d' \<in> set seen. hit d' \<longrightarrow> priority d' \<le> priority prev"
      by (fastforce simp: in_force_def)
    show ?thesis
    proof (cases "hit d \<and> priority d > priority prev")
      case True
      with top have "in_force hit (seen @ [d]) d" unfolding in_force_def by fastforce
      with True Some show ?thesis by simp
    next
      case False
      from p obtain before after where split: "seen = before @ prev # after" "hit prev"
        "\<forall>d' \<in> set before. hit d' \<longrightarrow> priority d' < priority prev"
        "\<forall>d' \<in> set after. hit d' \<longrightarrow> priority d' \<le> priority prev"
        by (auto simp: in_force_def)
      have "in_force hit (seen @ [d]) prev"
        unfolding in_force_def using split False
        by (intro exI [of _ before] exI [of _ "after @ [d]"]) auto
      with False Some show ?thesis by auto
    qed
  qed
  note Cons.IH [OF this]
  moreover have "(seen @ [d]) @ ds = seen @ d # ds" by simp
  ultimately show ?case by (simp only: best_loop.simps)
next
  case Nil
  then show ?case by (simp only: best_loop.simps append_Nil2)
qed

lemma best_loop_in_force:
  "case best_loop hit ds None of None \<Rightarrow> \<forall>d \<in> set ds. \<not> hit d | Some b \<Rightarrow> in_force hit ds b"
  using best_loop_invariant [where best = None and seen = "[]" and hit = hit and ds = ds]
  unfolding append_Nil by simp

section \<open>What the runner waives\<close>

lemma deviate_loop_split:
  "deviate_loop waiver fs res =
     \<lparr> rr_findings = rr_findings res
         @ filter (\<lambda>f. \<not> (result_is_finding (fd_result f) \<and> waiver (fd_lint_id f) \<noteq> None)) fs,
       rr_deviated = rr_deviated res
         @ map (\<lambda>f. make_deviated f (the (waiver (fd_lint_id f))))
             (filter (\<lambda>f. result_is_finding (fd_result f) \<and> waiver (fd_lint_id f) \<noteq> None) fs) \<rparr>"
  by (induction fs arbitrary: res) (auto split: option.splits)

definition waiver_for ::
  "'x lint_codec_scheme \<Rightarrow> deviation_store \<Rightarrow> certificate \<Rightarrow> u64 \<Rightarrow> finding \<Rightarrow> deviation \<Rightarrow> bool" where
  "waiver_for cd store cert now_unix f d \<longleftrightarrow>
     result_is_finding (fd_result f) \<and>
     in_force (\<lambda>d. target_lint d = fd_lint_id f \<and> is_active_at d now_unix \<and> scope_matches cd (dv_scope d) cert) store d"

text \<open>
  C17. Linting a certificate under deviations loses and duplicates nothing: the findings that stand are,
  in order, the findings of the engine that no deviation in force covers, passes and inapplicable lints
  always among them, and the waived ones are the rest, in order, each with its original result and the
  identifier, action and justification of the deviation in force for its lint and certificate: active at
  that time, scoped to that certificate, of the highest priority and, among those, added first.
\<close>

theorem deviation_run_exact:
  "let raw = run_cert cd (dr_runner dr) cert kind i now_unix;
       res = deviation_run_cert cd dr cert kind i now_unix;
       waived = (\<lambda>f. \<exists>d. waiver_for cd (dr_store dr) cert now_unix f d)
   in rr_findings res = filter (\<lambda>f. \<not> waived f) raw \<and>
      list_all2 (\<lambda>f df. \<exists>d. waiver_for cd (dr_store dr) cert now_unix f d \<and> df = make_deviated f d)
        (filter waived raw) (rr_deviated res)"
proof -
  let ?hit = "\<lambda>f d. target_lint d = fd_lint_id f \<and> is_active_at d now_unix \<and> scope_matches cd (dv_scope d) cert"
  let ?find = "\<lambda>f. find_deviation cd (dr_store dr) (fd_lint_id f) cert now_unix"
  let ?waived = "\<lambda>f. \<exists>d. waiver_for cd (dr_store dr) cert now_unix f d"
  have find_eq: "?find f = best_loop (?hit f) (dr_store dr) None" for f
    by (simp add: find_deviation_def deviation_applies_to_def) (meson)
  have some: "result_is_finding (fd_result f) \<and> ?find f \<noteq> None \<longleftrightarrow> ?waived f" for f
    using best_loop_in_force [where hit = "?hit f" and ds = "dr_store dr"]
    by (auto simp: find_eq waiver_for_def in_force_def split: option.splits)
  have found: "waiver_for cd (dr_store dr) cert now_unix f (the (?find f))" if "?waived f" for f
  proof -
    from that some obtain d where "?find f = Some d" "result_is_finding (fd_result f)" by blast
    then show ?thesis using best_loop_in_force [where hit = "?hit f" and ds = "dr_store dr"] by (simp add: find_eq waiver_for_def)
  qed
  let ?raw = "run_cert cd (dr_runner dr) cert kind i now_unix"
  have "deviation_run_cert cd dr cert kind i now_unix =
      \<lparr> rr_findings = filter (\<lambda>f. \<not> ?waived f) ?raw,
        rr_deviated = map (\<lambda>f. make_deviated f (the (?find f))) (filter ?waived ?raw) \<rparr>"
    by (simp add: deviation_run_cert_def apply_deviations_def deviate_loop_split empty_result_def some [symmetric])
  then show ?thesis using found by (auto simp: Let_def list_all2_map2 list_all2_same)
qed

section \<open>The store\<close>

text \<open>Every store is built by additions; an addition that fails leaves it as it was.\<close>

inductive reachable_store :: "'x lint_codec_scheme \<Rightarrow> deviation_store \<Rightarrow> bool" for cd where
  reachable_new: "reachable_store cd store_new"
| reachable_add: "reachable_store cd store \<Longrightarrow> reachable_store cd (fst (store_add cd d store))"

definition store_wf :: "deviation_store \<Rightarrow> bool" where
  "store_wf store \<longleftrightarrow> distinct (map dv_id store) \<and>
     list_all (\<lambda>d. justification d \<noteq> [] \<and> authorized_by d \<noteq> [] \<and> validate_scope (dv_scope d) = Inr ()) store"

lemma map_snd_find:
  "map_option snd (find (\<lambda>(k, v). k = name) (map (\<lambda>(n, v). if n = q then (n, f v) else (n, v)) ps)) =
     map_option (\<lambda>v. if name = q then f v else v) (map_option snd (find (\<lambda>(k, v). k = name) ps))"
  by (induction ps) (auto split: if_splits)

lemma get_prop_normalize:
  "get_prop (normalize_scope cd sc) name =
     (case get_prop sc name of
        Some (Text s) \<Rightarrow>
          Some (Text (if ds_kind sc = SCOPE_KIND_ISSUER_DN_CONTAINS \<and> name = PROP_ISSUER_DN_SUBSTRING
                      then str_to_lowercase cd s else s))
      | q \<Rightarrow> q)"
proof (cases "ds_kind sc = SCOPE_KIND_ISSUER_DN_CONTAINS")
  case True
  let ?low = "\<lambda>v. case v of Text s \<Rightarrow> Text (str_to_lowercase cd s) | Bytes b \<Rightarrow> Bytes b"
  have "get_prop (normalize_scope cd sc) name =
      map_option (\<lambda>v. if name = PROP_ISSUER_DN_SUBSTRING then ?low v else v) (get_prop sc name)"
    unfolding get_prop_def using True by (simp add: normalize_scope_def map_snd_find)
  then show ?thesis using True by (auto split: option.splits scope_prop_value.splits)
next
  case False
  then show ?thesis by (auto simp: normalize_scope_def split: option.splits scope_prop_value.splits)
qed

lemma validate_normalized: "validate_scope (normalize_scope cd sc) = validate_scope sc"
proof -
  have kind: "ds_kind (normalize_scope cd sc) = ds_kind sc" by (simp add: normalize_scope_def)
  have "require_bytes (normalize_scope cd sc) q = require_bytes sc q" for q
    by (auto simp: require_bytes_def get_prop_normalize kind split: option.splits scope_prop_value.splits)
  then show ?thesis
    by (auto simp: validate_scope_def get_prop_normalize kind split: option.splits scope_prop_value.splits)
qed

lemma store_add_wf: "store_wf store \<Longrightarrow> store_wf (fst (store_add cd d store))"
  by (auto simp: store_add_def store_wf_def list_ex_iff validate_normalized split: sum.splits)

text \<open>
  Every store that additions can build has distinct deviation identifiers, a justification and an
  authoriser for each deviation, and only well-formed scopes; an addition that is refused leaves the
  store as it was, and one that is accepted appends one deviation and changes none.
\<close>

theorem store_invariant:
  assumes "reachable_store cd store"
  shows "store_wf store \<and>
     (case store_add cd d store of
        (store', Inl _) \<Rightarrow> store' = store
      | (store', Inr _) \<Rightarrow> butlast store' = store \<and> store_wf store' \<and>
          (\<lambda>d'. d'\<lparr> dv_scope := dv_scope d \<rparr>) (last store') = d)"
proof -
  have wf: "store_wf store" using assms
  proof (induction rule: reachable_store.induct)
    case reachable_new
    show ?case by (simp add: store_wf_def store_new_def)
  qed (rule store_add_wf)
  have unchanged: "fst (store_add cd d store) = store" if "snd (store_add cd d store) = Inl e" for e
    using that by (auto simp: store_add_def split: if_splits sum.splits)
  have appended: "fst (store_add cd d store) = store @ [d\<lparr> dv_scope := normalize_scope cd (dv_scope d) \<rparr>]"
    if "snd (store_add cd d store) = Inr u" for u
    using that by (auto simp: store_add_def split: if_splits sum.splits)
  show ?thesis
    using wf unchanged appended store_add_wf [OF wf, of cd d]
    by (cases "store_add cd d store"; cases "snd (store_add cd d store)") auto
qed

definition ex_lint_codec :: lint_codec where
  "ex_lint_codec = ct_codec.extend
     (chain_codec.extend ex_chain_codec
       (ct_codec.fields (table_dec []) (table_dec []) (\<lambda>c. Ok (serial_number (tbs c)))))
     (lint_codec.fields (table_dec [([1], ex_name 1)])
       (\<lambda>n. concat (map (concat \<circ> map (\<lambda>a. ex_ia5 (any_value (ava_value a)))) n)) (map ascii_lower))"

definition ex_deviation :: deviation where
  "ex_deviation =
     \<lparr> dv_id = ''D1'', target_lint = ''x.lint'', dv_scope = scope_issuer_dn_contains ''AB'', effective_start = Some 100,
       effective_end = Some 200, dv_action = Suppress, justification = ''why'', authorized_by = ''who'',
       evidence_uri = None, priority = 0 \<rparr>"

theorem store_invariant_witness:
  "store_wf (fst (store_add ex_lint_codec ex_deviation store_new)) \<and>
   fst (store_add ex_lint_codec ex_deviation store_new) =
     [ex_deviation\<lparr> dv_scope := scope_issuer_dn_contains ''ab'' \<rparr>] \<and>
   snd (store_add ex_lint_codec ex_deviation (fst (store_add ex_lint_codec ex_deviation store_new))) =
     Err (DuplicateId ''D1'')"
proof -
  have "store_wf (fst (store_add ex_lint_codec ex_deviation store_new))"
    using store_invariant [OF reachable_add [OF reachable_new], of ex_lint_codec ex_deviation ex_deviation] by blast
  moreover have "fst (store_add ex_lint_codec ex_deviation store_new) =
      [ex_deviation\<lparr> dv_scope := scope_issuer_dn_contains ''ab'' \<rparr>]"
    by code_simp
  moreover have "snd (store_add ex_lint_codec ex_deviation (fst (store_add ex_lint_codec ex_deviation store_new))) =
      Err (DuplicateId ''D1'')"
    by code_simp
  ultimately show ?thesis by blast
qed

end
