(* ===== verification/LintRules.thy ===== *)
theory LintRules
  imports Deviation Merkle
begin

text \<open>
  The shipped lints: RFC 5280 (\<open>pkix-lint/src/rfc5280.rs\<close>), RFC 6125, RFC 8398 and RFC 8551, and the CA/B
  Forum TLS baseline requirements (\<open>pkix-lint-cabf/src/cabf_tls_br.rs\<close>) with their reader of RSA moduli.
  Extension decoders are fields of the codec; IDNA is the parameter of \<open>Identity\<close>.
\<close>

section \<open>Building lints\<close>

text \<open>The section sign of the citations, in UTF-8.\<close>

definition sec :: string where "sec = [CHR 0xC2, CHR 0xA7]"

definition error_lint ::
  "string \<Rightarrow> string \<Rightarrow> subject_kind \<Rightarrow> string \<Rightarrow> string \<Rightarrow> string option
     \<Rightarrow> (certificate \<Rightarrow> subject_kind \<Rightarrow> u64 \<Rightarrow> lint_result) \<Rightarrow> lint" where
  "error_lint lid citation kind title section_id url check =
     Lint lid citation SevError CertificateScope kind (Some title) None (Some section_id) None url None []
       default_set_parameter check default_check_path"

lemma error_lint_sel [simp]:
  "l_id (error_lint lid citation kind title section_id url check) = lid"
  "l_scope (error_lint lid citation kind title section_id url check) = CertificateScope"
  "l_applies_to (error_lint lid citation kind title section_id url check) = kind"
  "l_check_cert (error_lint lid citation kind title section_id url check) = check"
  by (simp_all add: error_lint_def)

definition rfc_url :: "string \<Rightarrow> string \<Rightarrow> string option" where
  "rfc_url rfc anchor = Some (''https://www.rfc-editor.org/rfc/'' @ rfc @ ''#section-'' @ anchor)"

definition malformed_der :: "string \<Rightarrow> der_error \<Rightarrow> lint_result" where
  "malformed_der what e =
     LintError (what @ '' extension value is malformed DER: '' @ truncate_for_detail (display_der_error e))"

section \<open>RFC 5280\<close>

definition validate_max_octets :: "nat \<Rightarrow> string + unit" where
  "validate_max_octets v =
     (if 1 \<le> v \<and> v \<le> 21 then Ok ()
      else Err (''max-octets must be in the range 1..=21 (got '' @ show_nat v @ ''); RFC 5280 '' @ sec
        @ ''4.1.2.2 mandates serials of 1..=20 octets (encoded-content reading) ''
        @ ''or 1..=21 octets (unsigned-value reading). Wire a custom Lint impl for wider/narrower bounds.''))"

definition max_octets_of :: "string \<Rightarrow> string \<Rightarrow> parameter_error + nat" where
  "max_octets_of pid v =
     (if pid = ''max-octets'' then
        (case parse_uint 10 (2 ^ 64) v of
           None \<Rightarrow> Err (InvalidValue pid (''expected non-negative integer, got '' @ quoted v))
         | Some n \<Rightarrow> map_ok (\<lambda>_. n) (map_err (InvalidValue pid) (validate_max_octets n)))
      else Err (UnknownParameter pid))"

definition check_serial_length :: "nat \<Rightarrow> certificate \<Rightarrow> subject_kind \<Rightarrow> u64 \<Rightarrow> lint_result" where
  "check_serial_length cap cert kind now_unix =
     (let len = length (serial_number (tbs cert))
      in if len > cap
         then LintError (''certificate serialNumber is '' @ show_nat len @ '' octets, exceeds cap of ''
                @ show_nat cap @ '' octets'')
         else LintPass)"

primcorec max_serial_length_lint :: "nat \<Rightarrow> lint" where
  "max_serial_length_lint cap =
     Lint ''rfc5280.cert.serial_number.max_octets'' (''RFC 5280 '' @ sec @ ''4.1.2.2'') SevError CertificateScope
       AnyKind (Some ''Certificate serialNumber must not exceed 20 octets'') None (Some ''rfc5280-4.1.2.2'') None
       (rfc_url ''rfc5280'' ''4.1.2.2'') None
       [\<lparr> lp_id = ''max-octets'', lp_label = ''Maximum allowed serial number length in octets'',
          lp_default_value = ''20'' \<rparr>]
       (\<lambda>pid v. map_sum (\<lambda>e. e) max_serial_length_lint (max_octets_of pid v))
       (check_serial_length cap) default_check_path"

text \<open>The constructor panics on a value out of range; \<open>Err\<close> is the message of the panic.\<close>

definition with_max_octets :: "nat \<Rightarrow> string + lint" where
  "with_max_octets cap =
     map_err (\<lambda>reason. ''Rfc5280MaxSerialLengthLint::with_max_octets: '' @ reason)
       (map_ok (\<lambda>_. max_serial_length_lint cap) (validate_max_octets cap))"

definition default_max_serial_length_lint :: lint where
  "default_max_serial_length_lint = max_serial_length_lint 20"

definition check_bc_ca_leaf ::
  "'x x509_codec_scheme \<Rightarrow> certificate \<Rightarrow> subject_kind \<Rightarrow> u64 \<Rightarrow> lint_result" where
  "check_bc_ca_leaf cd cert kind now_unix =
     (case extensions (tbs cert) of
        None \<Rightarrow> LintPass
      | Some exts \<Rightarrow>
     (case find (\<lambda>e. extn_id e = OID_BASIC_CONSTRAINTS) exts of
        None \<Rightarrow> LintPass
      | Some ext \<Rightarrow>
     (case dec_basic_constraints cd (extn_value ext) of
        Inr bc \<Rightarrow>
          if bc_ca bc
          then LintError (''end-entity certificate asserts BasicConstraints.cA=TRUE; ''
                 @ ''only CA certificates may assert cA'')
          else LintPass
      | Inl e \<Rightarrow> malformed_der ''BasicConstraints'' e)))"

definition rfc5280_basic_constraints_ca_leaf_lint :: "'x x509_codec_scheme \<Rightarrow> lint" where
  "rfc5280_basic_constraints_ca_leaf_lint cd =
     error_lint ''rfc5280.cert.bc.ca_false_for_leaf'' (''RFC 5280 '' @ sec @ ''4.2.1.9'') Leaf
       ''End-entity certificate must not assert BasicConstraints.cA=TRUE'' ''rfc5280-4.2.1.9''
       (rfc_url ''rfc5280'' ''4.2.1.9'') (check_bc_ca_leaf cd)"

definition LINT_SERVER_AUTH :: oid where "LINT_SERVER_AUTH = [1, 3, 6, 1, 5, 5, 7, 3, 1]"
definition LINT_EMAIL_PROTECTION :: oid where "LINT_EMAIL_PROTECTION = [1, 3, 6, 1, 5, 5, 7, 3, 4]"

definition check_eku_server_auth ::
  "'x x509_codec_scheme \<Rightarrow> certificate \<Rightarrow> subject_kind \<Rightarrow> u64 \<Rightarrow> lint_result" where
  "check_eku_server_auth cd cert kind now_unix =
     (case extensions (tbs cert) of
        None \<Rightarrow> LintError ''leaf certificate has no extensions; ExtendedKeyUsage absent''
      | Some exts \<Rightarrow>
     (case find (\<lambda>e. extn_id e = OID_EXTENDED_KEY_USAGE) exts of
        None \<Rightarrow> LintError ''ExtendedKeyUsage extension absent from leaf certificate''
      | Some ext \<Rightarrow>
     (case dec_extended_key_usage cd (extn_value ext) of
        Inr eku \<Rightarrow>
          if LINT_SERVER_AUTH \<in> set eku then LintPass
          else LintError ''ExtendedKeyUsage does not include id-kp-serverAuth (1.3.6.1.5.5.7.3.1)''
      | Inl e \<Rightarrow> malformed_der ''ExtendedKeyUsage'' e)))"

definition rfc5280_eku_server_auth_lint :: "'x x509_codec_scheme \<Rightarrow> lint" where
  "rfc5280_eku_server_auth_lint cd =
     error_lint ''rfc5280.cert.eku.server_auth_required'' (''RFC 5280 '' @ sec @ ''4.2.1.12'') Leaf
       ''TLS server certificate must include id-kp-serverAuth EKU'' ''rfc5280-4.2.1.12''
       (rfc_url ''rfc5280'' ''4.2.1.12'') (check_eku_server_auth cd)"

definition check_san_when_subject_empty :: "certificate \<Rightarrow> subject_kind \<Rightarrow> u64 \<Rightarrow> lint_result" where
  "check_san_when_subject_empty cert kind now_unix =
     (if subject (tbs cert) \<noteq> [] then LintPass
      else case extensions (tbs cert) of
        None \<Rightarrow> LintError (''empty-subject certificate has no extensions; RFC 5280 '' @ sec
                  @ ''4.2.1.6 requires a critical subjectAltName'')
      | Some exts \<Rightarrow>
     (case find (\<lambda>e. extn_id e = OID_SUBJECT_ALT_NAME) exts of
        None \<Rightarrow> LintError (''empty-subject certificate omits subjectAltName; RFC 5280 '' @ sec
                  @ ''4.2.1.6 requires it to be present and critical'')
      | Some san_ext \<Rightarrow>
          if \<not> critical san_ext
          then LintError (''empty-subject certificate carries subjectAltName but it is not marked critical; RFC 5280 ''
                 @ sec @ ''4.2.1.6 requires the extension to be critical when the Subject is empty'')
          else LintPass))"

definition rfc5280_san_required_when_subject_empty_lint :: lint where
  "rfc5280_san_required_when_subject_empty_lint =
     error_lint ''rfc5280.cert.san.required_when_subject_empty'' (''RFC 5280 '' @ sec @ ''4.2.1.6'') AnyKind
       ''Empty-subject certificate must include a critical subjectAltName'' ''rfc5280-4.2.1.6''
       (rfc_url ''rfc5280'' ''4.2.1.6'') check_san_when_subject_empty"

definition check_signature_algorithm_match :: "certificate \<Rightarrow> subject_kind \<Rightarrow> u64 \<Rightarrow> lint_result" where
  "check_signature_algorithm_match cert kind now_unix =
     (let outer = signature_algorithm cert; inner = tbs_signature (tbs cert)
      in if outer = inner then LintPass
         else LintError (''outer signatureAlgorithm ('' @ display_oid (alg_oid outer)
                @ '') does not match tbsCertificate.signature ('' @ display_oid (alg_oid inner)
                @ ''); RFC 5280 '' @ sec @ ''4.1.1.2 requires both to be identical''))"

definition rfc5280_signature_algorithm_match_lint :: lint where
  "rfc5280_signature_algorithm_match_lint =
     error_lint ''rfc5280.cert.signature_algorithm_match'' (''RFC 5280 '' @ sec @ ''4.1.1.2'') AnyKind
       ''Outer signatureAlgorithm must equal tbsCertificate.signature'' ''rfc5280-4.1.1.2''
       (rfc_url ''rfc5280'' ''4.1.1.2'') check_signature_algorithm_match"

section \<open>RFC 6125 and RFC 8551\<close>

fun is_dns_or_ip :: "general_name \<Rightarrow> bool" where
  "is_dns_or_ip (DnsName _) = True"
| "is_dns_or_ip (IpAddress _) = True"
| "is_dns_or_ip _ = False"

definition check_tls_server_san ::
  "'x x509_codec_scheme \<Rightarrow> certificate \<Rightarrow> subject_kind \<Rightarrow> u64 \<Rightarrow> lint_result" where
  "check_tls_server_san cd cert kind now_unix =
     (case extensions (tbs cert) of
        None \<Rightarrow> LintError ''leaf certificate has no extensions; SubjectAltName absent''
      | Some exts \<Rightarrow>
     (case find (\<lambda>e. extn_id e = OID_SUBJECT_ALT_NAME) exts of
        None \<Rightarrow> LintError (''SubjectAltName extension absent from leaf certificate; RFC 6125 '' @ sec
                  @ ''6.4.1 requires a dNSName or iPAddress entry'')
      | Some san_ext \<Rightarrow>
     (case dec_general_names cd (extn_value san_ext) of
        Inl e \<Rightarrow> malformed_der ''SubjectAltName'' e
      | Inr san \<Rightarrow>
          if san = [] then LintError ''SubjectAltName extension is present but contains no names''
          else if list_ex is_dns_or_ip san then LintPass
          else LintError (''SubjectAltName does not contain a dNSName or iPAddress entry; RFC 6125 '' @ sec
                 @ ''6.4.1 requires at least one for TLS server identity''))))"

definition rfc6125_tls_server_san_lint :: "'x x509_codec_scheme \<Rightarrow> lint" where
  "rfc6125_tls_server_san_lint cd =
     error_lint ''rfc6125.cert.san.tls_server_dns_or_ip_required'' (''RFC 6125 '' @ sec @ ''6.4.1'') Leaf
       ''TLS server certificate must include SAN dNSName or iPAddress'' ''rfc6125-6.4.1''
       (rfc_url ''rfc6125'' ''6.4.1'') (check_tls_server_san cd)"

definition check_eku_email_protection ::
  "'x x509_codec_scheme \<Rightarrow> certificate \<Rightarrow> subject_kind \<Rightarrow> u64 \<Rightarrow> lint_result" where
  "check_eku_email_protection cd cert kind now_unix =
     (case extensions (tbs cert) of
        None \<Rightarrow> LintError ''leaf certificate has no extensions; ExtendedKeyUsage absent''
      | Some exts \<Rightarrow>
     (case find (\<lambda>e. extn_id e = OID_EXTENDED_KEY_USAGE) exts of
        None \<Rightarrow> LintError ''ExtendedKeyUsage extension absent from leaf certificate''
      | Some ext \<Rightarrow>
     (case dec_extended_key_usage cd (extn_value ext) of
        Inr eku \<Rightarrow>
          if LINT_EMAIL_PROTECTION \<in> set eku then LintPass
          else LintError ''ExtendedKeyUsage does not include id-kp-emailProtection (1.3.6.1.5.5.7.3.4)''
      | Inl e \<Rightarrow> malformed_der ''ExtendedKeyUsage'' e)))"

definition rfc8551_eku_email_protection_lint :: "'x x509_codec_scheme \<Rightarrow> lint" where
  "rfc8551_eku_email_protection_lint cd =
     error_lint ''rfc8551.cert.eku.email_protection_required''
       (''RFC 8551 '' @ sec @ ''3.3 (+ RFC 5280 '' @ sec @ ''4.2.1.12)'') Leaf
       ''S/MIME certificate must include id-kp-emailProtection EKU'' ''rfc8551-3.3''
       (rfc_url ''rfc8551'' ''3.3'') (check_eku_email_protection cd)"

section \<open>RFC 8398\<close>

fun is_mailbox_name :: "general_name \<Rightarrow> bool" where
  "is_mailbox_name (Rfc822Name _) = True"
| "is_mailbox_name (OtherName type_id _) = (type_id = OID_SMTP_UTF8_MAILBOX)"
| "is_mailbox_name _ = False"

definition check_smime_san ::
  "'x x509_codec_scheme \<Rightarrow> certificate \<Rightarrow> subject_kind \<Rightarrow> u64 \<Rightarrow> lint_result" where
  "check_smime_san cd cert kind now_unix =
     (case extensions (tbs cert) of
        None \<Rightarrow> LintError ''leaf certificate has no extensions; SubjectAltName absent''
      | Some exts \<Rightarrow>
     (case find (\<lambda>e. extn_id e = OID_SUBJECT_ALT_NAME) exts of
        None \<Rightarrow> LintError (''SubjectAltName extension absent from leaf certificate; RFC 8398 '' @ sec
                  @ ''3 requires an rfc822Name or id-on-SmtpUTF8Mailbox otherName entry'')
      | Some san_ext \<Rightarrow>
     (case dec_general_names cd (extn_value san_ext) of
        Inl e \<Rightarrow> malformed_der ''SubjectAltName'' e
      | Inr san \<Rightarrow>
          if san = [] then LintError ''SubjectAltName extension is present but contains no names''
          else if list_ex is_mailbox_name san then LintPass
          else LintError (''SubjectAltName does not contain an rfc822Name or id-on-SmtpUTF8Mailbox ''
                 @ ''otherName; RFC 8398 '' @ sec @ ''3 requires at least one for S/MIME identity''))))"

definition rfc8398_smime_san_lint :: "'x x509_codec_scheme \<Rightarrow> lint" where
  "rfc8398_smime_san_lint cd =
     error_lint ''rfc8398.cert.san.smime_mailbox_required''
       (''RFC 8398 '' @ sec @ ''3 (+ RFC 5280 '' @ sec @ ''4.2.1.6)'') Leaf
       ''S/MIME certificate must include SAN rfc822Name or SmtpUTF8Mailbox'' ''rfc8398-3''
       (rfc_url ''rfc8398'' ''3'') (check_smime_san cd)"

text \<open>A mailbox is split at its last commercial at.\<close>

definition split_mailbox :: "string \<Rightarrow> (string \<times> string) option" where
  "split_mailbox addr = rsplit_once (CHR 0x40) addr"

definition validate_mailbox_for_equivalence :: "'x identity_codec_scheme \<Rightarrow> string \<Rightarrow> string + unit" where
  "validate_mailbox_for_equivalence cd addr =
     and_then (ok_or (''no '' @ quoted ''@'' @ '' delimiter'') (split_mailbox addr)) (\<lambda>(local, domain).
       if local = [] then Err ''empty local-part''
       else if domain = [] then Err ''empty domain''
       else case domain_to_ascii cd domain of
              None \<Rightarrow> Err ''domain failed IDN A-label conversion''
            | Some _ \<Rightarrow> Ok ())"

definition mailbox_equivalent :: "'x identity_codec_scheme \<Rightarrow> string \<Rightarrow> string \<Rightarrow> string + bool" where
  "mailbox_equivalent cd rfc822 smtputf8 =
     and_then (ok_or (''rfc822Name has no '' @ quoted ''@'' @ '' delimiter'') (split_mailbox rfc822))
       (\<lambda>(r_local, r_domain).
     and_then (ok_or (''SmtpUTF8Mailbox has no '' @ quoted ''@'' @ '' delimiter'') (split_mailbox smtputf8))
       (\<lambda>(u_local, u_domain).
       if r_local = [] \<or> u_local = [] \<or> r_domain = [] \<or> u_domain = []
       then Err ''mailbox address has empty local-part or domain''
       else if r_local \<noteq> u_local then Ok False
       else case domain_to_ascii cd u_domain of
              None \<Rightarrow> Err (''U-label '' @ [CHR 0xE2, CHR 0x86, CHR 0x92] @ '' A-label conversion failed'')
            | Some u_ascii \<Rightarrow> Ok (eq_ignore_ascii_case u_ascii r_domain)))"

fun collect_mailboxes ::
  "'x identity_codec_scheme \<Rightarrow> general_name list \<Rightarrow> string list \<Rightarrow> string list \<Rightarrow> lint_result + (string list \<times> string list)"
where
  "collect_mailboxes cd [] rs us = Ok (rs, us)"
| "collect_mailboxes cd (gn # gns) rs us =
     (case gn of
        Rfc822Name addr \<Rightarrow> collect_mailboxes cd gns (rs @ [addr]) us
      | OtherName type_id v \<Rightarrow>
          if type_id = OID_SMTP_UTF8_MAILBOX
          then (case dec_utf8_any cd v of
                  Inr u \<Rightarrow> collect_mailboxes cd gns rs (us @ [u])
                | Inl _ \<Rightarrow> Err (LintError (''SubjectAltName id-on-SmtpUTF8Mailbox otherName value ''
                             @ ''is not a valid UTF8String'')))
          else collect_mailboxes cd gns rs us
      | _ \<Rightarrow> collect_mailboxes cd gns rs us)"

definition mailbox_valid :: "'x identity_codec_scheme \<Rightarrow> string \<Rightarrow> string \<Rightarrow> lint_result + unit" where
  "mailbox_valid cd what addr =
     map_err (\<lambda>reason. LintError (what @ '' SAN entry '' @ quoted (truncate_for_detail addr)
         @ '' is malformed for equivalence checking ('' @ reason @ ''); RFC 8398 '' @ sec
         @ ''3 presupposes well-formed RFC 5322 mailbox addresses''))
       (validate_mailbox_for_equivalence cd addr)"

text \<open>
  The \<open>expect\<close> of the code, which panics on an error; the validation before it excludes the error, as
  \<open>mailboxes_never_panic\<close> below shows.
\<close>

definition mailbox_matched :: "'x identity_codec_scheme \<Rightarrow> string \<Rightarrow> string \<Rightarrow> bool" where
  "mailbox_matched cd r u = (case mailbox_equivalent cd r u of Inr b \<Rightarrow> b | Inl _ \<Rightarrow> False)"

definition orphan :: "string \<Rightarrow> string \<Rightarrow> string \<Rightarrow> lint_result" where
  "orphan what other addr =
     LintError (what @ '' SAN entry '' @ quoted (truncate_for_detail addr) @ '' has no matching '' @ other
       @ ''; RFC 8398 '' @ sec @ ''3 requires byte-identical local-part and A-label/U-label-equivalent domain'')"

definition check_mailboxes ::
  "'x identity_codec_scheme \<Rightarrow> string list \<Rightarrow> string list \<Rightarrow> lint_result + unit" where
  "check_mailboxes cd rs us =
     (if rs = [] \<or> us = [] then Ok ()
      else and_then (try_all (mailbox_valid cd ''rfc822Name'') rs) (\<lambda>_.
           and_then (try_all (mailbox_valid cd ''SmtpUTF8Mailbox'') us) (\<lambda>_.
           and_then (try_all (\<lambda>r. guard_or (list_ex (mailbox_matched cd r) us)
             (orphan ''rfc822Name'' ''SmtpUTF8Mailbox'' r)) rs) (\<lambda>_.
           try_all (\<lambda>u. guard_or (list_ex (\<lambda>r. mailbox_matched cd r u) rs)
             (orphan ''SmtpUTF8Mailbox'' ''rfc822Name'' u)) us))))"

definition check_mailbox_equivalence ::
  "'x identity_codec_scheme \<Rightarrow> certificate \<Rightarrow> subject_kind \<Rightarrow> u64 \<Rightarrow> lint_result" where
  "check_mailbox_equivalence cd cert kind now_unix =
     (case extensions (tbs cert) of
        None \<Rightarrow> LintPass
      | Some exts \<Rightarrow>
     (case find (\<lambda>e. extn_id e = OID_SUBJECT_ALT_NAME) exts of
        None \<Rightarrow> LintPass
      | Some san_ext \<Rightarrow>
     (case dec_general_names cd (extn_value san_ext) of
        Inl e \<Rightarrow> malformed_der ''SubjectAltName'' e
      | Inr san \<Rightarrow>
          (case and_then (collect_mailboxes cd san [] []) (\<lambda>(rs, us). check_mailboxes cd rs us) of
             Inl r \<Rightarrow> r
           | Inr _ \<Rightarrow> LintPass))))"

definition rfc8398_smime_mailbox_equivalence_lint :: "'x identity_codec_scheme \<Rightarrow> lint" where
  "rfc8398_smime_mailbox_equivalence_lint cd =
     error_lint ''rfc8398.cert.san.smime_mailbox_equivalent'' (''RFC 8398 '' @ sec @ ''3'') Leaf
       ''rfc822Name and SmtpUTF8Mailbox SAN entries must agree on the same address'' ''rfc8398-3''
       (rfc_url ''rfc8398'' ''3'') (check_mailbox_equivalence cd)"

section \<open>CA/B Forum TLS baseline requirements\<close>

definition SECS_PER_DAY :: u64 where "SECS_PER_DAY = 86400"
definition SC081_200D_EPOCH :: u64 where "SC081_200D_EPOCH = 1773532800"
definition SC081_100D_EPOCH :: u64 where "SC081_100D_EPOCH = 1805068800"
definition SC081_47D_EPOCH :: u64 where "SC081_47D_EPOCH = 1868227200"

definition sc081_validity_cap :: "u64 \<Rightarrow> u64" where
  "sc081_validity_cap not_before_unix =
     (if not_before_unix \<ge> SC081_47D_EPOCH then 47 * SECS_PER_DAY
      else if not_before_unix \<ge> SC081_100D_EPOCH then 100 * SECS_PER_DAY
      else if not_before_unix \<ge> SC081_200D_EPOCH then 200 * SECS_PER_DAY
      else 398 * SECS_PER_DAY)"

definition check_validity_max :: "certificate \<Rightarrow> subject_kind \<Rightarrow> u64 \<Rightarrow> lint_result" where
  "check_validity_max cert kind now_unix =
     (let start = not_before (tbs_validity (tbs cert)); stop = not_after (tbs_validity (tbs cert))
      in if stop < start
         then LintError ''leaf certificate notAfter precedes notBefore (inverted validity period)''
         else let duration = stop - start; cap = sc081_validity_cap start
              in if duration > cap
                 then LintError (''leaf certificate validity period '' @ show_nat (unat duration div 86400)
                        @ '' days exceeds SC-081 cap of '' @ show_nat (unat cap div 86400) @ '' days at issuance'')
                 else LintPass)"

definition validity_max_lint :: lint where
  "validity_max_lint =
     error_lint ''cabf.br.tls.validity.max'' (''CA/B Forum TLS BR '' @ sec @ ''6.3.2 (SC-081)'') Leaf
       ''Leaf certificate validity must not exceed SC-081 cap'' ''cabf-tls-br-6.3.2'' None check_validity_max"

definition SHA1_WITH_RSA :: oid where "SHA1_WITH_RSA = [1, 2, 840, 113549, 1, 1, 5]"
definition ECDSA_WITH_SHA1 :: oid where "ECDSA_WITH_SHA1 = [1, 2, 840, 10045, 4, 1]"
definition RSA_ENCRYPTION :: oid where "RSA_ENCRYPTION = [1, 2, 840, 113549, 1, 1, 1]"

definition check_sha1_prohibited :: "certificate \<Rightarrow> subject_kind \<Rightarrow> u64 \<Rightarrow> lint_result" where
  "check_sha1_prohibited cert kind now_unix =
     (if alg_oid (signature_algorithm cert) = SHA1_WITH_RSA \<or> alg_oid (signature_algorithm cert) = ECDSA_WITH_SHA1
      then LintError (''certificate uses SHA-1 signature algorithm, prohibited by TLS BR '' @ sec @ ''7.1.3'')
      else LintPass)"

definition sha1_prohibited_lint :: lint where
  "sha1_prohibited_lint =
     error_lint ''cabf.br.tls.alg.sha1_prohibited'' (''CA/B Forum TLS BR '' @ sec @ ''7.1.3'') AnyKind
       ''SHA-1 signature algorithm prohibited'' ''cabf-tls-br-7.1.3'' None check_sha1_prohibited"

text \<open>
  \<open>parse_der_length\<close>: \<open>checked_shl\<close> by eight bits never fails on a \<open>usize\<close>, it drops the bits shifted out.
\<close>

fun der_length_loop :: "nat \<Rightarrow> bytes \<Rightarrow> nat option" where
  "der_length_loop len [] = Some len"
| "der_length_loop len (b # bs) =
     (let v = len * 256 mod 2 ^ 64 + unat b
      in if v \<ge> 2 ^ 64 then None else der_length_loop v bs)"

definition parse_der_length :: "bytes \<Rightarrow> (nat \<times> bytes) option" where
  "parse_der_length input =
     (case input of
        [] \<Rightarrow> None
      | first # rest \<Rightarrow>
          if first < 0x80 then Some (unat first, rest)
          else let n = unat (first AND 0x7F)
               in if n = 0 \<or> n > 4 \<or> length rest < n then None
                  else map_option (\<lambda>len. (len, drop n rest)) (der_length_loop 0 (take n rest)))"

definition der_peel_tlv :: "bytes \<Rightarrow> u8 \<Rightarrow> (bytes \<times> bytes) option" where
  "der_peel_tlv input expected_tag =
     (case input of
        [] \<Rightarrow> None
      | tag # rest \<Rightarrow>
          if tag \<noteq> expected_tag then None
          else case parse_der_length rest of
                 None \<Rightarrow> None
               | Some (len, rest) \<Rightarrow> if length rest < len then None else Some (take len rest, drop len rest))"

definition strip_sign_byte :: "bytes \<Rightarrow> bytes" where
  "strip_sign_byte v = (if length v \<ge> 2 \<and> v ! 0 = 0 \<and> v ! 1 AND 0x80 \<noteq> 0 then tl v else v)"

definition rsa_modulus_bit_len :: "bytes \<Rightarrow> nat option" where
  "rsa_modulus_bit_len der =
     (case der_peel_tlv der 0x30 of
        None \<Rightarrow> None
      | Some (seq_content, _) \<Rightarrow>
     (case der_peel_tlv seq_content 0x02 of
        None \<Rightarrow> None
      | Some (int_value, _) \<Rightarrow>
     (case dropWhile (\<lambda>b. b = 0) (strip_sign_byte int_value) of
        [] \<Rightarrow> None
      | high # rest \<Rightarrow>
          if high = 0 then None else Some (length rest * 8 + (8 - (8 - bit_len (unat high)))))))"

definition check_rsa_min_key_size :: "certificate \<Rightarrow> subject_kind \<Rightarrow> u64 \<Rightarrow> lint_result" where
  "check_rsa_min_key_size cert kind now_unix =
     (let key = subject_public_key_info (tbs cert)
      in if alg_oid (spki_algorithm key) \<noteq> RSA_ENCRYPTION then NotApplicable
         else case rsa_modulus_bit_len (raw_bytes (subject_public_key key)) of
                None \<Rightarrow> LintError ''RSA public key structure is unparseable''
              | Some n_bits \<Rightarrow>
                  if n_bits \<ge> 2048 then LintPass else LintError ''RSA key modulus is less than 2048 bits'')"

definition rsa_min_key_size_lint :: lint where
  "rsa_min_key_size_lint =
     error_lint ''cabf.br.tls.rsa.min_key_size'' (''CA/B Forum TLS BR '' @ sec @ ''6.1.5'') AnyKind
       ''RSA modulus must be at least 2048 bits'' ''cabf-tls-br-6.1.5'' None check_rsa_min_key_size"

definition check_san_required ::
  "'x x509_codec_scheme \<Rightarrow> certificate \<Rightarrow> subject_kind \<Rightarrow> u64 \<Rightarrow> lint_result" where
  "check_san_required cd cert kind now_unix =
     (case extensions (tbs cert) of
        None \<Rightarrow> LintError ''leaf certificate has no extensions; SubjectAltName absent''
      | Some exts \<Rightarrow>
     (case find (\<lambda>e. extn_id e = OID_SUBJECT_ALT_NAME) exts of
        None \<Rightarrow> LintError ''SubjectAltName extension absent from leaf certificate''
      | Some san_ext \<Rightarrow>
     (case dec_general_names cd (extn_value san_ext) of
        Inr san \<Rightarrow>
          if san = [] then LintError ''SubjectAltName extension is present but contains no names'' else LintPass
      | Inl _ \<Rightarrow> LintError ''SubjectAltName extension value is malformed DER'')))"

definition san_required_lint :: "'x x509_codec_scheme \<Rightarrow> lint" where
  "san_required_lint cd =
     error_lint ''cabf.br.tls.san.required'' (''CA/B Forum TLS BR '' @ sec @ ''7.1.2.7.12'') Leaf
       ''Leaf certificate must include subjectAltName'' ''cabf-tls-br-7.1.2.7.12'' None (check_san_required cd)"

definition check_cabf_eku_server_auth ::
  "'x x509_codec_scheme \<Rightarrow> certificate \<Rightarrow> subject_kind \<Rightarrow> u64 \<Rightarrow> lint_result" where
  "check_cabf_eku_server_auth cd cert kind now_unix =
     (case extensions (tbs cert) of
        None \<Rightarrow> LintError ''leaf certificate has no extensions; ExtendedKeyUsage absent''
      | Some exts \<Rightarrow>
     (case find (\<lambda>e. extn_id e = OID_EXTENDED_KEY_USAGE) exts of
        None \<Rightarrow> LintError ''ExtendedKeyUsage extension absent from leaf certificate''
      | Some ext \<Rightarrow>
     (case dec_extended_key_usage cd (extn_value ext) of
        Inr eku \<Rightarrow>
          if LINT_SERVER_AUTH \<in> set eku then LintPass
          else LintError ''ExtendedKeyUsage does not include id-kp-serverAuth (1.3.6.1.5.5.7.3.1)''
      | Inl _ \<Rightarrow> LintError ''ExtendedKeyUsage extension value is malformed DER'')))"

definition eku_server_auth_lint :: "'x x509_codec_scheme \<Rightarrow> lint" where
  "eku_server_auth_lint cd =
     error_lint ''cabf.br.tls.eku.server_auth'' (''CA/B Forum TLS BR '' @ sec @ ''7.1.2.7.10'') Leaf
       ''Leaf certificate must include id-kp-serverAuth EKU'' ''cabf-tls-br-7.1.2.7.10'' None
       (check_cabf_eku_server_auth cd)"

definition check_bc_ca_flag ::
  "'x x509_codec_scheme \<Rightarrow> certificate \<Rightarrow> subject_kind \<Rightarrow> u64 \<Rightarrow> lint_result" where
  "check_bc_ca_flag cd cert kind now_unix =
     (case extensions (tbs cert) of
        None \<Rightarrow> LintError ''intermediate CA certificate has no extensions; BasicConstraints absent''
      | Some exts \<Rightarrow>
     (case find (\<lambda>e. extn_id e = OID_BASIC_CONSTRAINTS) exts of
        None \<Rightarrow> LintError ''BasicConstraints extension absent from intermediate CA certificate''
      | Some ext \<Rightarrow>
     (case dec_basic_constraints cd (extn_value ext) of
        Inl _ \<Rightarrow> LintError ''BasicConstraints extension value is malformed DER''
      | Inr bc \<Rightarrow>
          if bc_ca bc then LintPass else LintError ''BasicConstraints present but cA flag is not TRUE'')))"

definition bc_ca_flag_lint :: "'x x509_codec_scheme \<Rightarrow> lint" where
  "bc_ca_flag_lint cd =
     error_lint ''cabf.br.tls.bc.ca_flag'' (''CA/B Forum TLS BR '' @ sec @ ''7.1.2.10.4'') IntermediateCa
       ''CA certificates must set BasicConstraints.cA=TRUE'' ''cabf-tls-br-7.1.2.10.4'' None (check_bc_ca_flag cd)"

definition all_lints :: "'x x509_codec_scheme \<Rightarrow> lint list" where
  "all_lints cd =
     [validity_max_lint, sha1_prohibited_lint, rsa_min_key_size_lint, san_required_lint cd,
      eku_server_auth_lint cd, bc_ca_flag_lint cd]"

section \<open>The mailbox rule\<close>

text \<open>The mailbox with a given U-label domain is the one with a given A-label domain.\<close>

definition same_mailbox :: "'x identity_codec_scheme \<Rightarrow> string \<Rightarrow> string \<Rightarrow> bool" where
  "same_mailbox cd r u =
     (case (split_mailbox r, split_mailbox u) of
        (Some (r_local, r_domain), Some (u_local, u_domain)) \<Rightarrow>
          r_local = u_local \<and>
          (case domain_to_ascii cd u_domain of None \<Rightarrow> False | Some a \<Rightarrow> eq_ignore_ascii_case a r_domain)
      | _ \<Rightarrow> False)"

definition well_formed_mailbox :: "'x identity_codec_scheme \<Rightarrow> string \<Rightarrow> bool" where
  "well_formed_mailbox cd addr = (validate_mailbox_for_equivalence cd addr = Ok ())"

lemma well_formed_mailbox_iff:
  "well_formed_mailbox cd addr \<longleftrightarrow>
     (\<exists>l d a. split_mailbox addr = Some (l, d) \<and> l \<noteq> [] \<and> d \<noteq> [] \<and> domain_to_ascii cd d = Some a)"
  by (cases "split_mailbox addr")
    (auto simp: well_formed_mailbox_def validate_mailbox_for_equivalence_def split: option.splits prod.splits)

lemma mailboxes_never_panic:
  assumes "well_formed_mailbox cd r" and "well_formed_mailbox cd u"
  shows "mailbox_equivalent cd r u = Ok (same_mailbox cd r u)"
  using assms by (auto simp: well_formed_mailbox_iff mailbox_equivalent_def same_mailbox_def split: option.splits)

lemma mailbox_matched_iff:
  assumes "well_formed_mailbox cd r" and "well_formed_mailbox cd u"
  shows "mailbox_matched cd r u \<longleftrightarrow> same_mailbox cd r u"
  by (simp add: mailbox_matched_def mailboxes_never_panic [OF assms])

lemma mailbox_valid_Ok_iff: "mailbox_valid cd what addr = Ok () \<longleftrightarrow> well_formed_mailbox cd addr"
  by (simp add: mailbox_valid_def well_formed_mailbox_def)

lemma check_mailboxes_Ok_iff:
  "check_mailboxes cd rs us = Ok () \<longleftrightarrow>
     rs = [] \<or> us = [] \<or>
     (list_all (well_formed_mailbox cd) (rs @ us)
      \<and> list_all (\<lambda>r. list_ex (same_mailbox cd r) us) rs \<and> list_all (\<lambda>u. list_ex (\<lambda>r. same_mailbox cd r u) rs) us)"
proof (cases "rs = [] \<or> us = []")
  case True
  then show ?thesis by (auto simp: check_mailboxes_def)
next
  case False
  then have "check_mailboxes cd rs us = Ok () \<longleftrightarrow>
     list_all (well_formed_mailbox cd) (rs @ us)
      \<and> list_all (\<lambda>r. list_ex (mailbox_matched cd r) us) rs \<and> list_all (\<lambda>u. list_ex (\<lambda>r. mailbox_matched cd r u) rs) us"
    by (auto simp: check_mailboxes_def result_simps mailbox_valid_Ok_iff list_all_iff)
  also have "\<dots> \<longleftrightarrow> list_all (well_formed_mailbox cd) (rs @ us)
      \<and> list_all (\<lambda>r. list_ex (same_mailbox cd r) us) rs \<and> list_all (\<lambda>u. list_ex (\<lambda>r. same_mailbox cd r u) rs) us"
    by (auto simp: list_all_iff list_ex_iff mailbox_matched_iff)
  finally show ?thesis using False by blast
qed

lemma collect_mailboxes_Ok:
  "collect_mailboxes cd gns rs us = Ok (rs', us') \<longleftrightarrow>
     rs' = rs @ concat (map (\<lambda>gn. case gn of Rfc822Name a \<Rightarrow> [a] | _ \<Rightarrow> []) gns) \<and>
     (\<exists>vs. map (dec_utf8_any cd)
             (concat (map (\<lambda>gn. case gn of OtherName t v \<Rightarrow> (if t = OID_SMTP_UTF8_MAILBOX then [v] else []) | _ \<Rightarrow> []) gns))
           = map Inr vs \<and> us' = us @ vs)"
proof (induction gns arbitrary: rs us)
  case Nil
  then show ?case by auto
next
  case (Cons gn gns)
  show ?case
  proof (cases gn)
    case (OtherName t v)
    show ?thesis
    proof (cases "dec_utf8_any cd v")
      case (Inr u)
      then show ?thesis using OtherName
        by (auto simp: Cons.IH Cons_eq_map_conv)
    qed (use OtherName in \<open>auto simp: Cons.IH Cons_eq_map_conv\<close>)
  qed (auto simp: Cons.IH)
qed

text \<open>
  The mailbox lint accepts a subject alternative name with both kinds of mailbox exactly when all are
  well formed and each rfc822Name has an equal SmtpUTF8Mailbox and conversely; the \<open>expect\<close> inside its
  loops, evaluated on well-formed addresses only, never panics.
\<close>

theorem mailbox_lint_decides:
  "(check_mailboxes cd rs us = Ok () \<longleftrightarrow>
      rs = [] \<or> us = [] \<or>
      (list_all (well_formed_mailbox cd) (rs @ us)
       \<and> list_all (\<lambda>r. list_ex (same_mailbox cd r) us) rs
       \<and> list_all (\<lambda>u. list_ex (\<lambda>r. same_mailbox cd r u) rs) us))
   \<and> filter (\<lambda>(r, u). \<not> is_ok (mailbox_equivalent cd r u))
       (List.product (filter (well_formed_mailbox cd) rs) (filter (well_formed_mailbox cd) us)) = []"
  by (auto simp: check_mailboxes_Ok_iff filter_empty_conv mailboxes_never_panic)

section \<open>The size of an RSA modulus\<close>

text \<open>The length octets the reader admits: the short form, and long forms of one to four octets.\<close>

fun is_der_length :: "bytes \<Rightarrow> nat \<Rightarrow> bool" where
  "is_der_length [] k = False"
| "is_der_length (b # bs) k =
     (if b < 0x80 then bs = [] \<and> k = unat b
      else bs \<noteq> [] \<and> length bs \<le> 4 \<and> unat (b AND 0x7F) = length bs \<and> k = from_be bs)"

lemma der_length_loop_from_be:
  assumes "(len + 1) * 256 ^ length bs \<le> 2 ^ 64"
  shows "der_length_loop len bs = Some (len * 256 ^ length bs + from_be bs)"
  using assms
proof (induction bs arbitrary: len)
  case Nil
  then show ?case by simp
next
  case (Cons b bs)
  let ?v = "len * 256 + unat b"
  have b: "unat b < 256" by (rule unat_u8_less)
  have pos: "(0::nat) < 256 ^ length bs" by simp
  have "(?v + 1) * 256 ^ length bs \<le> (len + 1) * 256 * 256 ^ length bs"
    using b by (intro mult_right_mono) simp_all
  also have "\<dots> \<le> 2 ^ 64" using Cons.prems by (simp add: algebra_simps)
  finally have le: "(?v + 1) * 256 ^ length bs \<le> 2 ^ 64" .
  have "?v + 1 \<le> (?v + 1) * 256 ^ length bs" using pos by (cases "256 ^ length bs :: nat") simp_all
  with le have v: "?v < 2 ^ 64" by linarith
  then have "len * 256 mod 2 ^ 64 = len * 256" by simp
  then have "der_length_loop len (b # bs) = der_length_loop ?v bs" using v by (simp add: Let_def)
  also have "\<dots> = Some (?v * 256 ^ length bs + from_be bs)" by (rule Cons.IH [OF le])
  finally show ?case by (simp add: from_be_Cons algebra_simps)
qed

lemma parse_der_length_iff:
  "parse_der_length input = Some (k, rest) \<longleftrightarrow> (\<exists>lb. is_der_length lb k \<and> input = lb @ rest)"
proof (cases input)
  case Nil
  then show ?thesis by (auto simp: parse_der_length_def)
next
  case (Cons b bs)
  show ?thesis
  proof (cases "b < 0x80")
    case True
    then have "parse_der_length input = Some (unat b, bs)" by (simp add: parse_der_length_def Cons)
    moreover have "(\<exists>lb. is_der_length lb k \<and> input = lb @ rest) \<longleftrightarrow> k = unat b \<and> rest = bs"
      using True unfolding Cons by (auto simp: Cons_eq_append_conv)
    ultimately show ?thesis by auto
  next
    case False
    define n where "n = unat (b AND 0x7F)"
    have loop: "der_length_loop 0 (take n bs) = Some (from_be (take n bs))" if "n \<le> 4" "n \<le> length bs"
    proof -
      have "(0 + 1) * 256 ^ length (take n bs) \<le> (256::nat) ^ 4" using that
        by (simp del: power_numeral add: power_increasing)
      then show ?thesis by (subst der_length_loop_from_be) simp_all
    qed
    have "parse_der_length input = Some (k, rest) \<longleftrightarrow>
        n \<noteq> 0 \<and> n \<le> 4 \<and> n \<le> length bs \<and> k = from_be (take n bs) \<and> rest = drop n bs"
      using False loop by (auto simp: parse_der_length_def Cons Let_def n_def [symmetric])
    also have "\<dots> \<longleftrightarrow> (\<exists>lb. is_der_length lb k \<and> input = lb @ rest)"
    proof
      assume h: "n \<noteq> 0 \<and> n \<le> 4 \<and> n \<le> length bs \<and> k = from_be (take n bs) \<and> rest = drop n bs"
      then have "is_der_length (b # take n bs) k \<and> input = (b # take n bs) @ rest"
        using False by (auto simp: Cons n_def [symmetric])
      then show "\<exists>lb. is_der_length lb k \<and> input = lb @ rest" by blast
    next
      assume "\<exists>lb. is_der_length lb k \<and> input = lb @ rest"
      then obtain cs where "is_der_length (b # cs) k" "bs = cs @ rest"
        unfolding Cons by (auto simp: Cons_eq_append_conv)
      then show "n \<noteq> 0 \<and> n \<le> 4 \<and> n \<le> length bs \<and> k = from_be (take n bs) \<and> rest = drop n bs"
        using False by (auto simp: n_def)
    qed
    finally show ?thesis .
  qed
qed

lemma der_peel_tlv_iff:
  "der_peel_tlv input t = Some (c, rest) \<longleftrightarrow>
     (\<exists>lb. is_der_length lb (length c) \<and> input = t # lb @ c @ rest)"
proof
  assume "der_peel_tlv input t = Some (c, rest)"
  then obtain inner len r where "input = t # inner" "parse_der_length inner = Some (len, r)" "len \<le> length r"
    "c = take len r" "rest = drop len r"
    by (auto simp: der_peel_tlv_def split: list.splits if_splits option.splits)
  then show "\<exists>lb. is_der_length lb (length c) \<and> input = t # lb @ c @ rest"
    by (auto simp: parse_der_length_iff)
next
  assume "\<exists>lb. is_der_length lb (length c) \<and> input = t # lb @ c @ rest"
  then obtain inner where "input = t # inner" "parse_der_length inner = Some (length c, c @ rest)"
    by (auto simp: parse_der_length_iff)
  then show "der_peel_tlv input t = Some (c, rest)" by (simp add: der_peel_tlv_def)
qed

lemma bit_len_le_iff: "bit_len n \<le> k \<longleftrightarrow> n < 2 ^ k"
proof (cases "n = 0")
  case True
  then show ?thesis by (simp add: bit_len.simps)
next
  case False
  then have b: "2 ^ (bit_len n - 1) \<le> n" "n < 2 ^ bit_len n" "0 < bit_len n" using bit_len_bounds [of n] by simp_all
  show ?thesis
  proof
    assume "bit_len n \<le> k"
    then have "(2::nat) ^ bit_len n \<le> 2 ^ k" by (simp add: power_increasing)
    with b(2) show "n < 2 ^ k" by linarith
  next
    assume "n < 2 ^ k"
    with b(1) have "(2::nat) ^ (bit_len n - 1) < 2 ^ k" by linarith
    then have "bit_len n - 1 < k" by (simp add: power_strict_increasing_iff)
    with b(3) show "bit_len n \<le> k" by linarith
  qed
qed

lemma bit_len_shift:
  assumes "0 < a" and "r < 2 ^ m"
  shows "bit_len (a * 2 ^ m + r) = bit_len a + m"
proof (rule le_antisym)
  have "a + 1 \<le> 2 ^ bit_len a" using bit_len_bounds [OF assms(1)] by simp
  then have "(a + 1) * 2 ^ m \<le> 2 ^ bit_len a * 2 ^ m" by (rule mult_right_mono) simp
  then have "a * 2 ^ m + r < 2 ^ (bit_len a + m)" using assms(2) by (simp add: power_add)
  then show "bit_len (a * 2 ^ m + r) \<le> bit_len a + m" by (simp add: bit_len_le_iff)
next
  have "2 ^ (bit_len a - 1) * 2 ^ m \<le> a * (2::nat) ^ m" using bit_len_bounds [OF assms(1)] by simp
  then have "\<not> a * 2 ^ m + r < 2 ^ (bit_len a - 1 + m)" unfolding power_add by linarith
  then have "\<not> bit_len (a * 2 ^ m + r) \<le> bit_len a - 1 + m" by (simp add: bit_len_le_iff)
  then show "bit_len a + m \<le> bit_len (a * 2 ^ m + r)" using bit_len_bounds [OF assms(1)] by linarith
qed

lemma from_be_strip_sign: "from_be (strip_sign_byte v) = from_be v"
  by (cases v) (auto simp: strip_sign_byte_def from_be_Cons)

lemma from_be_dropWhile: "from_be (dropWhile (\<lambda>b. b = 0) v) = from_be v"
  by (induction v) (simp_all add: from_be_Cons)

lemma bit_len_from_be:
  assumes "h \<noteq> 0"
  shows "bit_len (from_be (h # bs)) = length bs * 8 + (8 - (8 - bit_len (unat h)))"
proof -
  have "bit_len (unat h) \<le> 8" using unat_u8_less [of h] by (simp add: bit_len_le_iff)
  moreover have "(256::nat) ^ length bs = 2 ^ (8 * length bs)" by (simp add: power_mult)
  moreover have "0 < unat h" using assms by (simp add: unat_gt_0)
  ultimately show ?thesis
    using bit_len_shift [of "unat h" "from_be bs" "8 * length bs"] from_be_bound [of bs]
    by (simp add: from_be_Cons mult.commute)
qed

lemma modulus_bits:
  "(case dropWhile (\<lambda>b. b = 0) (strip_sign_byte v) of
      [] \<Rightarrow> None
    | high # rest \<Rightarrow> if high = 0 then None else Some (length rest * 8 + (8 - (8 - bit_len (unat high)))))
   = (if from_be v = 0 then None else Some (bit_len (from_be v)))"
proof -
  have v0: "from_be v = from_be (dropWhile (\<lambda>b. b = 0) (strip_sign_byte v))"
    by (simp only: from_be_dropWhile from_be_strip_sign)
  show ?thesis
  proof (cases "dropWhile (\<lambda>b. b = 0) (strip_sign_byte v)")
    case Nil
    then have "from_be v = 0" unfolding v0 Nil by simp
    then show ?thesis unfolding Nil by simp
  next
    case (Cons h bs)
    have h: "h \<noteq> 0" using hd_dropWhile [of "\<lambda>b. b = 0" "strip_sign_byte v"] by (simp add: Cons)
    have v: "from_be v = from_be (h # bs)" using v0 Cons by simp
    have "0 < unat h * 256 ^ length bs" using h by (simp add: unat_gt_0)
    then have "from_be v \<noteq> 0" unfolding v from_be_Cons by linarith
    with h show ?thesis by (simp add: Cons v bit_len_from_be)
  qed
qed

text \<open>
  C20. The reader of RSA moduli returns a bit length exactly on a SEQUENCE that begins with an INTEGER whose
  value, read without sign, is not zero, in any admitted form of the two lengths; it is the position of the
  most significant bit of that value, whatever zero octets precede it.
\<close>

theorem rsa_modulus_bit_len_exact:
  "rsa_modulus_bit_len der = Some n \<longleftrightarrow>
     (\<exists>seq_len content tail int_len modulus rest.
        der = 0x30 # seq_len @ content @ tail \<and> is_der_length seq_len (length content)
        \<and> content = 0x02 # int_len @ modulus @ rest \<and> is_der_length int_len (length modulus)
        \<and> from_be modulus \<noteq> 0 \<and> n = bit_len (from_be modulus))"
proof -
  have "rsa_modulus_bit_len der = Some n \<longleftrightarrow>
      (\<exists>content tail modulus rest. der_peel_tlv der 0x30 = Some (content, tail)
         \<and> der_peel_tlv content 0x02 = Some (modulus, rest) \<and> from_be modulus \<noteq> 0 \<and> n = bit_len (from_be modulus))"
    unfolding rsa_modulus_bit_len_def modulus_bits by (auto split: option.splits)
  then show ?thesis unfolding der_peel_tlv_iff by blast
qed

end
