(* ===== verification/Profiles.thy ===== *)
theory Profiles
  imports LintRules CtLog
begin

text \<open>
  The shipped profiles: the RFC baselines of \<open>pkix-profiles/src/lib.rs\<close> and the CA/B Forum profiles of
  \<open>pkix-profiles-cabf/src/lib.rs\<close>, their policies, their lint sets and their shape checks, and what a
  certificate or chain they accept is known to satisfy. A profile is a record of the methods of \<open>Profile\<close>; one
  with lints extends it with those of \<open>LintProfile\<close>, whose runner is built anew, with its panic, on each call.
\<close>

section \<open>RFC baselines\<close>

definition ID_KP_SERVER_AUTH :: oid where "ID_KP_SERVER_AUTH = [1, 3, 6, 1, 5, 5, 7, 3, 1]"
definition ID_KP_CLIENT_AUTH :: oid where "ID_KP_CLIENT_AUTH = [1, 3, 6, 1, 5, 5, 7, 3, 2]"
definition ID_KP_CODE_SIGNING :: oid where "ID_KP_CODE_SIGNING = [1, 3, 6, 1, 5, 5, 7, 3, 3]"
definition ID_KP_EMAIL_PROTECTION :: oid where "ID_KP_EMAIL_PROTECTION = [1, 3, 6, 1, 5, 5, 7, 3, 4]"
definition BASIC_KP_TIME_STAMPING :: oid where "BASIC_KP_TIME_STAMPING = [1, 3, 6, 1, 5, 5, 7, 3, 8]"
definition ID_KP_OCSP_SIGNING :: oid where "ID_KP_OCSP_SIGNING = [1, 3, 6, 1, 5, 5, 7, 3, 9]"

definition rfc5280_profile :: profile_impl where
  "rfc5280_profile =
     \<lparr> pf_id = ''ietf.rfc5280'', pf_version = ''RFC 5280'', pf_policy = validation_policy_new, pf_policy_oids = [] \<rparr>"

definition basic_tls_profile :: profile_impl where
  "basic_tls_profile =
     \<lparr> pf_id = ''ietf.tls-basic'', pf_version = ''RFC 5280 + RFC 6125'',
       pf_policy = (\<lambda>now_unix. (validation_policy_new now_unix)
         \<lparr> require_subject_alt_name := True, required_leaf_eku := Some [ID_KP_SERVER_AUTH] \<rparr>),
       pf_policy_oids = [] \<rparr>"

definition basic_tls_lints :: "'x x509_codec_scheme \<Rightarrow> lint list" where
  "basic_tls_lints cd =
     [rfc6125_tls_server_san_lint cd, rfc5280_eku_server_auth_lint cd, rfc5280_basic_constraints_ca_leaf_lint cd,
      rfc5280_san_required_when_subject_empty_lint, rfc5280_signature_algorithm_match_lint,
      default_max_serial_length_lint]"

definition basic_tls_lint_profile :: "'x x509_codec_scheme \<Rightarrow> lint_profile" where
  "basic_tls_lint_profile cd =
     profile_impl.extend basic_tls_profile
       (lint_profile.fields (basic_tls_lints cd) (lint_runner_new (basic_tls_lints cd)))"

definition basic_tls_client_profile :: profile_impl where
  "basic_tls_client_profile =
     \<lparr> pf_id = ''ietf.tls-client-basic'', pf_version = ''RFC 5280 '' @ sec @ ''4.2.1.12'',
       pf_policy = (\<lambda>now_unix. (validation_policy_new now_unix) \<lparr> required_leaf_eku := Some [ID_KP_CLIENT_AUTH] \<rparr>),
       pf_policy_oids = [] \<rparr>"

definition basic_smime_profile :: profile_impl where
  "basic_smime_profile =
     \<lparr> pf_id = ''ietf.smime-basic'', pf_version = ''RFC 8551'',
       pf_policy = (\<lambda>now_unix. (validation_policy_new now_unix)
         \<lparr> required_leaf_eku := Some [ID_KP_EMAIL_PROTECTION], require_subject_alt_name := True,
           require_rfc822_san := True \<rparr>),
       pf_policy_oids = [] \<rparr>"

definition basic_smime_lints :: "'x identity_codec_scheme \<Rightarrow> lint list" where
  "basic_smime_lints cd =
     [rfc8398_smime_san_lint cd, rfc8551_eku_email_protection_lint cd, rfc8398_smime_mailbox_equivalence_lint cd,
      rfc5280_signature_algorithm_match_lint, default_max_serial_length_lint]"

definition basic_smime_lint_profile :: "'x identity_codec_scheme \<Rightarrow> lint_profile" where
  "basic_smime_lint_profile cd =
     profile_impl.extend basic_smime_profile
       (lint_profile.fields (basic_smime_lints cd) (lint_runner_new (basic_smime_lints cd)))"

definition basic_code_signing_profile :: profile_impl where
  "basic_code_signing_profile =
     \<lparr> pf_id = ''ietf.code-signing-basic'', pf_version = ''RFC 5280 '' @ sec @ ''4.2.1.12'',
       pf_policy = (\<lambda>now_unix. (validation_policy_new now_unix) \<lparr> required_leaf_eku := Some [ID_KP_CODE_SIGNING] \<rparr>),
       pf_policy_oids = [] \<rparr>"

definition basic_time_stamping_profile :: profile_impl where
  "basic_time_stamping_profile =
     \<lparr> pf_id = ''ietf.time-stamping-basic'', pf_version = ''RFC 3161 '' @ sec @ ''2.3'',
       pf_policy = (\<lambda>now_unix. (validation_policy_new now_unix) \<lparr> required_leaf_eku := Some [BASIC_KP_TIME_STAMPING] \<rparr>),
       pf_policy_oids = [] \<rparr>"

definition basic_ocsp_responder_profile :: profile_impl where
  "basic_ocsp_responder_profile =
     \<lparr> pf_id = ''ietf.ocsp-responder-basic'', pf_version = ''RFC 6960 '' @ sec @ ''4.2.2.2'',
       pf_policy = (\<lambda>now_unix. (validation_policy_new now_unix) \<lparr> required_leaf_eku := Some [ID_KP_OCSP_SIGNING] \<rparr>),
       pf_policy_oids = [] \<rparr>"

definition rfc5280_policy :: "u64 \<Rightarrow> validation_policy" where
  "rfc5280_policy now_unix = pf_policy rfc5280_profile now_unix"

definition basic_tls_policy :: "u64 \<Rightarrow> validation_policy" where
  "basic_tls_policy now_unix = pf_policy basic_tls_profile now_unix"

definition basic_tls_client_policy :: "u64 \<Rightarrow> validation_policy" where
  "basic_tls_client_policy now_unix = pf_policy basic_tls_client_profile now_unix"

definition basic_smime_policy :: "u64 \<Rightarrow> validation_policy" where
  "basic_smime_policy now_unix = pf_policy basic_smime_profile now_unix"

definition basic_code_signing_policy :: "u64 \<Rightarrow> validation_policy" where
  "basic_code_signing_policy now_unix = pf_policy basic_code_signing_profile now_unix"

definition basic_time_stamping_policy :: "u64 \<Rightarrow> validation_policy" where
  "basic_time_stamping_policy now_unix = pf_policy basic_time_stamping_profile now_unix"

definition basic_ocsp_responder_policy :: "u64 \<Rightarrow> validation_policy" where
  "basic_ocsp_responder_policy now_unix = pf_policy basic_ocsp_responder_profile now_unix"

text \<open>The outer sum of a shape check is the panic of the runner's construction.\<close>

definition check_basic_tls_shape ::
  "'x ct_codec_scheme \<Rightarrow> certificate \<Rightarrow> u64 \<Rightarrow> lint_panic + (finding list + unit)" where
  "check_basic_tls_shape cd cert now_unix = check_shape cd cert Leaf now_unix (basic_tls_lint_profile cd)"

definition check_basic_smime_shape ::
  "'x ct_codec_scheme \<Rightarrow> certificate \<Rightarrow> u64 \<Rightarrow> lint_panic + (finding list + unit)" where
  "check_basic_smime_shape cd cert now_unix = check_shape cd cert Leaf now_unix (basic_smime_lint_profile cd)"

section \<open>CA/B Forum profiles\<close>

definition SHA256_WITH_RSA :: oid where "SHA256_WITH_RSA = [1, 2, 840, 113549, 1, 1, 11]"
definition SHA384_WITH_RSA :: oid where "SHA384_WITH_RSA = [1, 2, 840, 113549, 1, 1, 12]"
definition SHA512_WITH_RSA :: oid where "SHA512_WITH_RSA = [1, 2, 840, 113549, 1, 1, 13]"
definition ECDSA_WITH_SHA256 :: oid where "ECDSA_WITH_SHA256 = [1, 2, 840, 10045, 4, 3, 2]"
definition ECDSA_WITH_SHA384 :: oid where "ECDSA_WITH_SHA384 = [1, 2, 840, 10045, 4, 3, 3]"
definition ECDSA_WITH_SHA512 :: oid where "ECDSA_WITH_SHA512 = [1, 2, 840, 10045, 4, 3, 4]"

definition CABF_TLS_BR_ALLOWED_ALGS :: "oid list" where
  "CABF_TLS_BR_ALLOWED_ALGS =
     [SHA256_WITH_RSA, SHA384_WITH_RSA, SHA512_WITH_RSA, ECDSA_WITH_SHA256, ECDSA_WITH_SHA384, ECDSA_WITH_SHA512]"

definition CABF_SMIME_BR_ALLOWED_ALGS :: "oid list" where
  "CABF_SMIME_BR_ALLOWED_ALGS =
     [SHA256_WITH_RSA, SHA384_WITH_RSA, SHA512_WITH_RSA, ECDSA_WITH_SHA256, ECDSA_WITH_SHA384, ECDSA_WITH_SHA512]"

definition CABF_CS_BR_ALLOWED_ALGS :: "oid list" where
  "CABF_CS_BR_ALLOWED_ALGS =
     [SHA256_WITH_RSA, SHA384_WITH_RSA, SHA512_WITH_RSA, ECDSA_WITH_SHA256, ECDSA_WITH_SHA384, ECDSA_WITH_SHA512]"

definition CABF_KP_SERVER_AUTH :: oid where "CABF_KP_SERVER_AUTH = [1, 3, 6, 1, 5, 5, 7, 3, 1]"
definition CABF_KP_EMAIL_PROTECTION :: oid where "CABF_KP_EMAIL_PROTECTION = [1, 3, 6, 1, 5, 5, 7, 3, 4]"
definition CABF_KP_CODE_SIGNING :: oid where "CABF_KP_CODE_SIGNING = [1, 3, 6, 1, 5, 5, 7, 3, 3]"

definition OID_SURNAME :: oid where "OID_SURNAME = [2, 5, 4, 4]"
definition OID_ORGANIZATION_NAME :: oid where "OID_ORGANIZATION_NAME = [2, 5, 4, 10]"
definition OID_GIVEN_NAME :: oid where "OID_GIVEN_NAME = [2, 5, 4, 42]"
definition OID_PSEUDONYM :: oid where "OID_PSEUDONYM = [2, 5, 4, 65]"
definition OID_ORGANIZATION_IDENTIFIER :: oid where "OID_ORGANIZATION_IDENTIFIER = [2, 5, 4, 97]"

definition CABF_SMIME_SPONSOR_VALIDATED_STRICT_POLICY :: oid where
  "CABF_SMIME_SPONSOR_VALIDATED_STRICT_POLICY = [2, 23, 140, 1, 5, 3, 3]"
definition CABF_SMIME_INDIVIDUAL_VALIDATED_STRICT_POLICY :: oid where
  "CABF_SMIME_INDIVIDUAL_VALIDATED_STRICT_POLICY = [2, 23, 140, 1, 5, 4, 3]"
definition CABF_SMIME_INDIVIDUAL_VALIDATED_MULTIPURPOSE_POLICY :: oid where
  "CABF_SMIME_INDIVIDUAL_VALIDATED_MULTIPURPOSE_POLICY = [2, 23, 140, 1, 5, 4, 2]"
definition CABF_SMIME_SPONSOR_VALIDATED_MULTIPURPOSE_POLICY :: oid where
  "CABF_SMIME_SPONSOR_VALIDATED_MULTIPURPOSE_POLICY = [2, 23, 140, 1, 5, 3, 2]"

definition web_pki_profile :: profile_impl where
  "web_pki_profile =
     \<lparr> pf_id = ''cabf.br.tls'', pf_version = ''2.2.6'',
       pf_policy = (\<lambda>now_unix. (validation_policy_new now_unix)
         \<lparr> allowed_signature_algs := Some CABF_TLS_BR_ALLOWED_ALGS, min_rsa_key_bits := Some 2048,
           require_subject_alt_name := True, required_leaf_eku := Some [CABF_KP_SERVER_AUTH] \<rparr>),
       pf_policy_oids = [] \<rparr>"

definition web_pki_lint_profile :: "'x x509_codec_scheme \<Rightarrow> lint_profile" where
  "web_pki_lint_profile cd =
     profile_impl.extend web_pki_profile (lint_profile.fields (all_lints cd) (lint_runner_new (all_lints cd)))"

definition smime_profile :: profile_impl where
  "smime_profile =
     \<lparr> pf_id = ''cabf.smime'', pf_version = ''1.0.14'',
       pf_policy = (\<lambda>now_unix. (validation_policy_new now_unix)
         \<lparr> max_validity_secs := Some (825 * SECS_PER_DAY), allowed_signature_algs := Some CABF_SMIME_BR_ALLOWED_ALGS,
           min_rsa_key_bits := Some 2048, require_subject_alt_name := True, require_rfc822_san := True,
           required_leaf_eku := Some [CABF_KP_EMAIL_PROTECTION] \<rparr>),
       pf_policy_oids = [] \<rparr>"

definition smime_individual_validated :: profile_impl where
  "smime_individual_validated =
     \<lparr> pf_id = ''cabf.smime.individual'', pf_version = ''1.0.14'',
       pf_policy = (\<lambda>now_unix. (validation_policy_new now_unix)
         \<lparr> max_validity_secs := Some (825 * SECS_PER_DAY), allowed_signature_algs := Some CABF_SMIME_BR_ALLOWED_ALGS,
           min_rsa_key_bits := Some 2048, require_subject_alt_name := True, require_rfc822_san := True,
           required_leaf_eku := Some [CABF_KP_EMAIL_PROTECTION],
           required_leaf_policy_oids := Some [CABF_SMIME_INDIVIDUAL_VALIDATED_STRICT_POLICY],
           required_leaf_subject_dn_attrs := Some (
             AnyOf [Field OID_PSEUDONYM, AllOf [Field OID_GIVEN_NAME, Field OID_SURNAME]]) \<rparr>),
       pf_policy_oids = [] \<rparr>"

definition smime_individual_validated_multipurpose :: profile_impl where
  "smime_individual_validated_multipurpose =
     \<lparr> pf_id = ''cabf.smime.individual.multipurpose'', pf_version = ''1.0.14'',
       pf_policy = (\<lambda>now_unix. (validation_policy_new now_unix)
         \<lparr> max_validity_secs := Some (825 * SECS_PER_DAY), allowed_signature_algs := Some CABF_SMIME_BR_ALLOWED_ALGS,
           min_rsa_key_bits := Some 2048, require_subject_alt_name := True, require_rfc822_san := True,
           required_leaf_eku := Some [CABF_KP_EMAIL_PROTECTION],
           required_leaf_policy_oids := Some [CABF_SMIME_INDIVIDUAL_VALIDATED_MULTIPURPOSE_POLICY],
           required_leaf_subject_dn_attrs := Some (
             AnyOf [Field OID_PSEUDONYM, AllOf [Field OID_GIVEN_NAME, Field OID_SURNAME]]) \<rparr>),
       pf_policy_oids = [] \<rparr>"

definition smime_sponsor_validated :: profile_impl where
  "smime_sponsor_validated =
     \<lparr> pf_id = ''cabf.smime.sponsor'', pf_version = ''1.0.14'',
       pf_policy = (\<lambda>now_unix. (validation_policy_new now_unix)
         \<lparr> max_validity_secs := Some (825 * SECS_PER_DAY), allowed_signature_algs := Some CABF_SMIME_BR_ALLOWED_ALGS,
           min_rsa_key_bits := Some 2048, require_subject_alt_name := True, require_rfc822_san := True,
           required_leaf_eku := Some [CABF_KP_EMAIL_PROTECTION],
           required_leaf_policy_oids := Some [CABF_SMIME_SPONSOR_VALIDATED_STRICT_POLICY],
           required_leaf_subject_dn_attrs := Some (
             AllOf [Field OID_ORGANIZATION_NAME, Field OID_ORGANIZATION_IDENTIFIER,
               AnyOf [Field OID_PSEUDONYM, AllOf [Field OID_GIVEN_NAME, Field OID_SURNAME]]]) \<rparr>),
       pf_policy_oids = [] \<rparr>"

definition smime_sponsor_validated_multipurpose :: profile_impl where
  "smime_sponsor_validated_multipurpose =
     \<lparr> pf_id = ''cabf.smime.sponsor.multipurpose'', pf_version = ''1.0.14'',
       pf_policy = (\<lambda>now_unix. (validation_policy_new now_unix)
         \<lparr> max_validity_secs := Some (825 * SECS_PER_DAY), allowed_signature_algs := Some CABF_SMIME_BR_ALLOWED_ALGS,
           min_rsa_key_bits := Some 2048, require_subject_alt_name := True, require_rfc822_san := True,
           required_leaf_eku := Some [CABF_KP_EMAIL_PROTECTION],
           required_leaf_policy_oids := Some [CABF_SMIME_SPONSOR_VALIDATED_MULTIPURPOSE_POLICY],
           required_leaf_subject_dn_attrs := Some (
             AllOf [Field OID_ORGANIZATION_NAME, Field OID_ORGANIZATION_IDENTIFIER,
               AnyOf [Field OID_PSEUDONYM, AllOf [Field OID_GIVEN_NAME, Field OID_SURNAME]]]) \<rparr>),
       pf_policy_oids = [] \<rparr>"

definition code_signing_profile :: profile_impl where
  "code_signing_profile =
     \<lparr> pf_id = ''cabf.cs'', pf_version = ''3.10.0'',
       pf_policy = (\<lambda>now_unix. (validation_policy_new now_unix)
         \<lparr> max_validity_secs := Some (460 * SECS_PER_DAY), allowed_signature_algs := Some CABF_CS_BR_ALLOWED_ALGS,
           min_rsa_key_bits := Some 3072, require_subject_alt_name := False,
           required_leaf_eku := Some [CABF_KP_CODE_SIGNING] \<rparr>),
       pf_policy_oids = [] \<rparr>"

text \<open>The lint set of the S/MIME and code signing profiles is empty.\<close>

definition without_lints :: "profile_impl \<Rightarrow> lint_profile" where
  "without_lints pf = profile_impl.extend pf (lint_profile.fields [] (lint_runner_new []))"

definition smime_lint_profile :: lint_profile where "smime_lint_profile = without_lints smime_profile"

definition smime_individual_validated_lint_profile :: lint_profile where
  "smime_individual_validated_lint_profile = without_lints smime_individual_validated"

definition smime_individual_validated_multipurpose_lint_profile :: lint_profile where
  "smime_individual_validated_multipurpose_lint_profile = without_lints smime_individual_validated_multipurpose"

definition smime_sponsor_validated_lint_profile :: lint_profile where
  "smime_sponsor_validated_lint_profile = without_lints smime_sponsor_validated"

definition smime_sponsor_validated_multipurpose_lint_profile :: lint_profile where
  "smime_sponsor_validated_multipurpose_lint_profile = without_lints smime_sponsor_validated_multipurpose"

definition code_signing_lint_profile :: lint_profile where
  "code_signing_lint_profile = without_lints code_signing_profile"

text \<open>The public copy of the SC-081 schedule.\<close>

definition public_sc081_validity_cap :: "u64 \<Rightarrow> u64" where
  "public_sc081_validity_cap not_before_unix =
     (if not_before_unix \<ge> 1868227200 then 47 * 86400
      else if not_before_unix \<ge> 1805068800 then 100 * 86400
      else if not_before_unix \<ge> 1773532800 then 200 * 86400
      else 398 * 86400)"

definition web_pki_policy :: "u64 \<Rightarrow> validation_policy" where
  "web_pki_policy now_unix = pf_policy web_pki_profile now_unix"

definition smime_policy :: "u64 \<Rightarrow> validation_policy" where
  "smime_policy now_unix = pf_policy smime_profile now_unix"

definition smime_individual_policy :: "u64 \<Rightarrow> validation_policy" where
  "smime_individual_policy now_unix = pf_policy smime_individual_validated now_unix"

definition smime_individual_multipurpose_policy :: "u64 \<Rightarrow> validation_policy" where
  "smime_individual_multipurpose_policy now_unix = pf_policy smime_individual_validated_multipurpose now_unix"

definition smime_sponsor_policy :: "u64 \<Rightarrow> validation_policy" where
  "smime_sponsor_policy now_unix = pf_policy smime_sponsor_validated now_unix"

definition smime_sponsor_multipurpose_policy :: "u64 \<Rightarrow> validation_policy" where
  "smime_sponsor_multipurpose_policy now_unix = pf_policy smime_sponsor_validated_multipurpose now_unix"

definition code_signing_policy :: "u64 \<Rightarrow> validation_policy" where
  "code_signing_policy now_unix = pf_policy code_signing_profile now_unix"

definition check_web_pki_shape ::
  "'x ct_codec_scheme \<Rightarrow> certificate \<Rightarrow> u64 \<Rightarrow> lint_panic + (finding list + unit)" where
  "check_web_pki_shape cd cert now_unix = check_shape cd cert Leaf now_unix (web_pki_lint_profile cd)"

definition check_smime_shape ::
  "'x ct_codec_scheme \<Rightarrow> certificate \<Rightarrow> u64 \<Rightarrow> lint_panic + (finding list + unit)" where
  "check_smime_shape cd cert now_unix = check_shape cd cert Leaf now_unix smime_lint_profile"

definition check_code_signing_shape ::
  "'x ct_codec_scheme \<Rightarrow> certificate \<Rightarrow> u64 \<Rightarrow> lint_panic + (finding list + unit)" where
  "check_code_signing_shape cd cert now_unix = check_shape cd cert Leaf now_unix code_signing_lint_profile"

section \<open>Lint sets\<close>

lemmas lint_ids =
  validity_max_lint_def sha1_prohibited_lint_def rsa_min_key_size_lint_def san_required_lint_def
  eku_server_auth_lint_def bc_ca_flag_lint_def rfc6125_tls_server_san_lint_def rfc5280_eku_server_auth_lint_def
  rfc5280_basic_constraints_ca_leaf_lint_def rfc5280_san_required_when_subject_empty_lint_def
  rfc5280_signature_algorithm_match_lint_def rfc8398_smime_san_lint_def rfc8551_eku_email_protection_lint_def
  rfc8398_smime_mailbox_equivalence_lint_def default_max_serial_length_lint_def

lemma distinct_all_lints: "distinct (map l_id (all_lints cd))"
  by (simp add: all_lints_def lint_ids)

lemma distinct_basic_tls_lints: "distinct (map l_id (basic_tls_lints cd))"
  by (simp add: basic_tls_lints_def lint_ids)

lemma distinct_basic_smime_lints: "distinct (map l_id (basic_smime_lints cd))"
  by (simp add: basic_smime_lints_def lint_ids)

lemma extended_runner [simp]:
  "pf_lint_runner (profile_impl.extend pf (lint_profile.fields ls rn)) = rn"
  by (simp add: profile_impl.defs lint_profile.defs)

text \<open>With distinct identifiers the shape check ends without a panic and accepts as its lints do.\<close>

lemma shape_accepts_iff:
  assumes "pf_lint_runner pf = lint_runner_new lints" and "distinct (map l_id lints)"
  shows "check_shape cd cert kind now_unix pf = Ok (Ok ()) \<longleftrightarrow>
     list_all (\<lambda>l. \<not> is_failure (l_check_cert l cert kind now_unix))
       (filter (\<lambda>l. l_scope l = CertificateScope \<and> kind_matches kind (l_applies_to l)) lints)"
  using check_shape_cases [OF assms(1), where cd = cd and cert = cert and kind = kind and now_unix = now_unix] assms(2)
  by (auto simp: is_ok_iff split: sum.splits)

lemma shape_no_panic:
  assumes "pf_lint_runner pf = lint_runner_new lints" and "distinct (map l_id lints)"
  shows "is_ok (check_shape cd cert kind now_unix pf)"
  using check_shape_cases [OF assms(1), where cd = cd and cert = cert and kind = kind and now_unix = now_unix] assms(2) by (auto split: sum.splits)

text \<open>What each lint accepts.\<close>

lemma extension_cases:
  "(case extensions (tbs cert) of None \<Rightarrow> N | Some exts \<Rightarrow>
      (case find (\<lambda>e. extn_id e = oid) exts of None \<Rightarrow> M | Some ext \<Rightarrow> S ext)) =
   (case find_ext cert oid of
      None \<Rightarrow> (if extensions (tbs cert) = None then N else M)
    | Some ext \<Rightarrow> S ext)"
  by (auto simp: find_ext_def cert_exts_def split: option.splits)

lemma check_validity_max_passes:
  "\<not> is_failure (check_validity_max cert kind now_unix) \<longleftrightarrow>
     (let nb = not_before (tbs_validity (tbs cert)); na = not_after (tbs_validity (tbs cert))
      in nb \<le> na \<and> unat na - unat nb \<le> unat (sc081_validity_cap nb))"
proof (cases "not_after (tbs_validity (tbs cert)) < not_before (tbs_validity (tbs cert))")
  case True
  then show ?thesis by (simp add: check_validity_max_def Let_def)
next
  case False
  then have le: "not_before (tbs_validity (tbs cert)) \<le> not_after (tbs_validity (tbs cert))" by simp
  then show ?thesis by (simp add: check_validity_max_def Let_def word_less_nat_alt [of "sc081_validity_cap _"] unat_sub)
qed

lemma check_rsa_passes:
  "\<not> is_failure (check_rsa_min_key_size cert kind now_unix) \<longleftrightarrow>
     (let key = subject_public_key_info (tbs cert)
      in if alg_oid (spki_algorithm key) = RSA_ENCRYPTION
         then (case rsa_modulus_bit_len (raw_bytes (subject_public_key key)) of None \<Rightarrow> False | Some n \<Rightarrow> 2048 \<le> n)
         else True)"
  by (auto simp: check_rsa_min_key_size_def Let_def split: option.splits)

lemma check_san_passes:
  "\<not> is_failure (check_san_required cd cert kind now_unix) \<longleftrightarrow>
     (\<exists>ext san. find_ext cert OID_SUBJECT_ALT_NAME = Some ext \<and> dec_general_names cd (extn_value ext) = Ok san \<and> san \<noteq> [])"
  unfolding check_san_required_def extension_cases by (auto split: option.splits sum.splits)

lemma check_eku_passes:
  "\<not> is_failure (check_cabf_eku_server_auth cd cert kind now_unix) \<longleftrightarrow>
     (\<exists>ext eku. find_ext cert OID_EXTENDED_KEY_USAGE = Some ext \<and>
        dec_extended_key_usage cd (extn_value ext) = Ok eku \<and> LINT_SERVER_AUTH \<in> set eku)"
  unfolding check_cabf_eku_server_auth_def extension_cases by (auto split: option.splits sum.splits)

text \<open>
  The web PKI shape check never panics, and accepts a leaf exactly when its validity period is not
  inverted and not longer than the SC-081 cap in force at its issuance, its signature does not use SHA-1, an
  RSA key has a modulus of at least 2048 bits, its subject alternative name is present and not empty, and
  its extended key usage includes server authentication. The time of the check is not consulted, and the
  lint for CA certificates is not applied.
\<close>

theorem web_pki_shape_decides:
  "is_ok (check_web_pki_shape cd cert now_unix) \<and>
   (check_web_pki_shape cd cert now_unix = Ok (Ok ()) \<longleftrightarrow>
     (let nb = not_before (tbs_validity (tbs cert)); na = not_after (tbs_validity (tbs cert));
          key = subject_public_key_info (tbs cert)
      in nb \<le> na \<and> unat na - unat nb \<le> unat (sc081_validity_cap nb) \<and>
         alg_oid (signature_algorithm cert) \<notin> {SHA1_WITH_RSA, ECDSA_WITH_SHA1} \<and>
         (if alg_oid (spki_algorithm key) = RSA_ENCRYPTION
          then (case rsa_modulus_bit_len (raw_bytes (subject_public_key key)) of None \<Rightarrow> False | Some n \<Rightarrow> 2048 \<le> n)
          else True) \<and>
         (\<exists>ext san. find_ext cert OID_SUBJECT_ALT_NAME = Some ext \<and>
            dec_general_names cd (extn_value ext) = Ok san \<and> san \<noteq> []) \<and>
         (\<exists>ext eku. find_ext cert OID_EXTENDED_KEY_USAGE = Some ext \<and>
            dec_extended_key_usage cd (extn_value ext) = Ok eku \<and> LINT_SERVER_AUTH \<in> set eku)))"
proof -
  have r: "pf_lint_runner (web_pki_lint_profile cd) = lint_runner_new (all_lints cd)"
    by (simp add: web_pki_lint_profile_def)
  have "check_web_pki_shape cd cert now_unix = Ok (Ok ()) \<longleftrightarrow>
      list_all (\<lambda>check. \<not> is_failure (check cert Leaf now_unix))
        [check_validity_max, check_sha1_prohibited, check_rsa_min_key_size, check_san_required cd,
         check_cabf_eku_server_auth cd]"
    unfolding check_web_pki_shape_def shape_accepts_iff [OF r distinct_all_lints]
    by (simp add: all_lints_def validity_max_lint_def sha1_prohibited_lint_def rsa_min_key_size_lint_def
        san_required_lint_def eku_server_auth_lint_def bc_ca_flag_lint_def kind_matches_def)
  moreover have "\<not> is_failure (check_sha1_prohibited cert Leaf now_unix) \<longleftrightarrow>
      alg_oid (signature_algorithm cert) \<notin> {SHA1_WITH_RSA, ECDSA_WITH_SHA1}"
    by (simp add: check_sha1_prohibited_def)
  ultimately show ?thesis
    using shape_no_panic [OF r distinct_all_lints]
    by (simp add: check_web_pki_shape_def check_validity_max_passes check_rsa_passes check_san_passes
        check_eku_passes Let_def)
qed

section \<open>Chains accepted under a profile\<close>

text \<open>The limits a policy puts on every certificate of a chain.\<close>

definition cert_limits ::
  "'x x509_codec_scheme \<Rightarrow> oid list \<Rightarrow> u32 \<Rightarrow> u64 option \<Rightarrow> certificate \<Rightarrow> bool" where
  "cert_limits cd algs bits validity cert \<longleftrightarrow>
     alg_oid (signature_algorithm cert) \<in> set algs \<and>
     (case rsa_public_key_bits cd (subject_public_key_info (tbs cert)) of None \<Rightarrow> True | Some b \<Rightarrow> bits \<le> b) \<and>
     (case validity of None \<Rightarrow> True
      | Some m \<Rightarrow> unat (not_after (tbs_validity (tbs cert))) - unat (not_before (tbs_validity (tbs cert))) \<le> unat m)"

lemma accepted_limits:
  assumes "path_accepted cd v policy chain anchor"
    and "allowed_signature_algs policy = Some algs" and "min_rsa_key_bits policy = Some bits"
  shows "list_all (cert_limits cd algs bits (max_validity_secs policy)) chain"
proof -
  have "cert_limits cd algs bits (max_validity_secs policy) (chain ! i)" if "i < length chain" for i
  proof -
    from that assms(1) have "cert_valid cd v policy chain anchor i" by (simp add: path_accepted_def list_all_iff)
    with assms(2,3) show ?thesis
      by (auto simp: cert_valid_def cert_limits_def within_limits_def Let_def split: option.splits)
  qed
  then show ?thesis by (simp add: list_all_length)
qed

lemma accepted_leaf:
  "path_accepted cd v policy chain anchor \<Longrightarrow> chain \<noteq> [] \<and> leaf_meets cd policy (chain ! 0)"
  by (simp add: path_accepted_def)

lemma leaf_eku:
  assumes "leaf_meets cd policy cert" and "required_leaf_eku policy = Some ekus" and "e \<in> set ekus"
  shows "\<exists>eku. find_cert_ext (dec_extended_key_usage cd) cert OID_EXTENDED_KEY_USAGE = Some eku \<and> e \<in> set eku"
  using assms
  by (cases "find_cert_ext (dec_extended_key_usage cd) cert OID_EXTENDED_KEY_USAGE") (auto simp: leaf_meets_def Let_def)

lemma leaf_policy:
  assumes "leaf_meets cd policy cert" and "required_leaf_policy_oids policy = Some ps" and "p \<in> set ps"
  shows "\<exists>cps. find_cert_ext (dec_certificate_policies cd) cert OID_CERTIFICATE_POLICIES = Some cps \<and> p \<in> policy_ids cps"
  using assms
  by (cases "find_cert_ext (dec_certificate_policies cd) cert OID_CERTIFICATE_POLICIES")
    (auto simp: leaf_meets_def Let_def policy_ids_def)

lemma leaf_rfc822:
  assumes "leaf_meets cd policy cert" and "require_subject_alt_name policy" and "require_rfc822_san policy"
  shows "\<exists>san. find_cert_ext (dec_general_names cd) cert OID_SUBJECT_ALT_NAME = Some san \<and> list_ex is_rfc822 san"
  using assms
  by (cases "find_cert_ext (dec_general_names cd) cert OID_SUBJECT_ALT_NAME") (auto simp: leaf_meets_def Let_def)

lemma web_pki_policy_sel:
  "allowed_signature_algs (web_pki_policy now_unix) = Some CABF_TLS_BR_ALLOWED_ALGS"
  "min_rsa_key_bits (web_pki_policy now_unix) = Some 2048"
  "max_validity_secs (web_pki_policy now_unix) = None"
  "required_leaf_eku (web_pki_policy now_unix) = Some [CABF_KP_SERVER_AUTH]"
  by (simp_all add: web_pki_policy_def web_pki_profile_def validation_policy_new_def)

text \<open>
  C21. A TLS server accepted for a host name under the web PKI profile has an accepted chain in which no
  certificate is signed with SHA-1 or carries an RSA key measured below 2048 bits, a leaf whose extended key
  usage includes server authentication, and a \<open>dNSName\<close> that covers the host name.
\<close>

theorem web_pki_server_accepted:
  assumes "verify_tls_server cd chain anchors (Dns target) web_pki_policy now_unix v rc aia = Some (Ok vp)"
  shows "\<exists>built san eku d. built \<noteq> [] \<and> built ! 0 = chain ! 0 \<and>
     path_accepted cd v (web_pki_policy now_unix) built (anchors ! vp_anchor_index vp) \<and>
     list_all (cert_limits cd CABF_TLS_BR_ALLOWED_ALGS 2048 None) built \<and>
     find_cert_ext (dec_extended_key_usage cd) (chain ! 0) OID_EXTENDED_KEY_USAGE = Some eku \<and>
     CABF_KP_SERVER_AUTH \<in> set eku \<and>
     find_san cd (chain ! 0) = Ok san \<and> DnsName d \<in> set san \<and> dns_covers d target"
proof -
  from verify_tls_server_accepted [OF assms] obtain built san d where
    b: "built \<noteq> []" "built ! 0 = chain ! 0" and
    p: "path_accepted cd v (web_pki_policy now_unix) built (anchors ! vp_anchor_index vp)" and
    n: "find_san cd (chain ! 0) = Ok san" "DnsName d \<in> set san" "dns_covers d target"
    by blast
  have l: "list_all (cert_limits cd CABF_TLS_BR_ALLOWED_ALGS 2048 None) built"
    using accepted_limits [OF p web_pki_policy_sel(1,2)] by (simp add: web_pki_policy_sel)
  obtain eku where "find_cert_ext (dec_extended_key_usage cd) (chain ! 0) OID_EXTENDED_KEY_USAGE = Some eku"
    "CABF_KP_SERVER_AUTH \<in> set eku"
    using accepted_leaf [OF p] leaf_eku [OF _ web_pki_policy_sel(4)] b(2) by fastforce
  with b p n l show ?thesis by blast
qed

definition with_alg :: "oid \<Rightarrow> certificate \<Rightarrow> certificate" where
  "with_alg a cert =
     cert\<lparr> tbs := (tbs cert)\<lparr> tbs_signature := \<lparr> alg_oid = a, alg_parameters = None \<rparr> \<rparr>,
           signature_algorithm := \<lparr> alg_oid = a, alg_parameters = None \<rparr> \<rparr>"

definition ex_web_pki_leaf :: certificate where
  "ex_web_pki_leaf =
     with_alg SHA256_WITH_RSA (ex_cert 5 1 [ex_ext OID_SUBJECT_ALT_NAME [1], ex_ext OID_EXTENDED_KEY_USAGE [1]])"

theorem web_pki_server_accepted_witness:
  "\<exists>built san eku d. list_all (cert_limits ex_chain_codec CABF_TLS_BR_ALLOWED_ALGS 2048 None) built \<and>
     built ! 0 = ex_web_pki_leaf \<and> CABF_KP_SERVER_AUTH \<in> set eku \<and> DnsName d \<in> set san \<and> dns_covers d ''A.com''"
proof -
  have "map_option is_ok (verify_tls_server ex_chain_codec [ex_web_pki_leaf] [ex_anchor 1] (Dns ''A.com'')
      web_pki_policy 150 ex_verifier no_revocation no_aia_fetcher) = Some True"
    by code_simp
  then obtain vp where "verify_tls_server ex_chain_codec [ex_web_pki_leaf] [ex_anchor 1] (Dns ''A.com'')
      web_pki_policy 150 ex_verifier no_revocation no_aia_fetcher = Some (Ok vp)"
    by (auto simp: is_ok_iff)
  from web_pki_server_accepted [OF this] show ?thesis by auto
qed

text \<open>The four tiers of S/MIME profiles with a policy identifier; the last component tells the sponsored ones.\<close>

definition smime_tiers :: "((u64 \<Rightarrow> validation_policy) \<times> oid \<times> bool) list" where
  "smime_tiers =
     [(smime_individual_policy, CABF_SMIME_INDIVIDUAL_VALIDATED_STRICT_POLICY, False),
      (smime_individual_multipurpose_policy, CABF_SMIME_INDIVIDUAL_VALIDATED_MULTIPURPOSE_POLICY, False),
      (smime_sponsor_policy, CABF_SMIME_SPONSOR_VALIDATED_STRICT_POLICY, True),
      (smime_sponsor_multipurpose_policy, CABF_SMIME_SPONSOR_VALIDATED_MULTIPURPOSE_POLICY, True)]"

lemmas smime_policy_defs =
  smime_individual_policy_def smime_individual_multipurpose_policy_def smime_sponsor_policy_def
  smime_sponsor_multipurpose_policy_def smime_individual_validated_def
  smime_individual_validated_multipurpose_def smime_sponsor_validated_def
  smime_sponsor_validated_multipurpose_def

lemma smime_tier_policy:
  assumes "(policy, tier, sponsored) \<in> set smime_tiers"
  shows "allowed_signature_algs (policy now_unix) = Some CABF_SMIME_BR_ALLOWED_ALGS"
    and "min_rsa_key_bits (policy now_unix) = Some 2048"
    and "max_validity_secs (policy now_unix) = Some (825 * SECS_PER_DAY)"
    and "required_leaf_eku (policy now_unix) = Some [CABF_KP_EMAIL_PROTECTION]"
    and "required_leaf_policy_oids (policy now_unix) = Some [tier]"
    and "require_subject_alt_name (policy now_unix)" and "require_rfc822_san (policy now_unix)"
    and "\<exists>r. required_leaf_subject_dn_attrs (policy now_unix) = Some r \<and>
      (\<forall>dn. evaluate_dn_attr_rule dn r \<longleftrightarrow>
        (dn_contains_oid dn OID_PSEUDONYM \<or> dn_contains_oid dn OID_GIVEN_NAME \<and> dn_contains_oid dn OID_SURNAME) \<and>
        (sponsored \<longrightarrow> dn_contains_oid dn OID_ORGANIZATION_NAME \<and> dn_contains_oid dn OID_ORGANIZATION_IDENTIFIER))"
  using assms by (auto simp: smime_tiers_def smime_policy_defs validation_policy_new_def)

text \<open>
  A chain accepted under one of the four tiered S/MIME profiles has a leaf that asserts the policy
  identifier of the tier, is for e-mail protection, has an rfc822Name, and whose subject has a pseudonym or
  both a given name and a surname, under a sponsor also the name and the identifier of the organisation;
  every certificate of the chain, not only the leaf, is valid for at most 825 days and signed with an allowed
  algorithm.
\<close>

theorem smime_tiers_enforced:
  assumes "(policy, tier, sponsored) \<in> set smime_tiers"
    and "validate_path cd chain anchors (policy now_unix) v = Ok vp"
  shows "let leaf = chain ! 0; has = dn_contains_oid (subject (tbs leaf)) in
     (\<exists>cps. find_cert_ext (dec_certificate_policies cd) leaf OID_CERTIFICATE_POLICIES = Some cps \<and> tier \<in> policy_ids cps) \<and>
     (\<exists>eku. find_cert_ext (dec_extended_key_usage cd) leaf OID_EXTENDED_KEY_USAGE = Some eku \<and>
        CABF_KP_EMAIL_PROTECTION \<in> set eku) \<and>
     (\<exists>san. find_cert_ext (dec_general_names cd) leaf OID_SUBJECT_ALT_NAME = Some san \<and> list_ex is_rfc822 san) \<and>
     (has OID_PSEUDONYM \<or> has OID_GIVEN_NAME \<and> has OID_SURNAME) \<and>
     (if sponsored then has OID_ORGANIZATION_NAME \<and> has OID_ORGANIZATION_IDENTIFIER else True) \<and>
     list_all (cert_limits cd CABF_SMIME_BR_ALLOWED_ALGS 2048 (Some (825 * SECS_PER_DAY))) chain"
proof -
  from validate_path_accepted [OF assms(2)]
  have p: "path_accepted cd v (policy now_unix) chain (anchors ! vp_anchor_index vp)" by blast
  then have leaf: "leaf_meets cd (policy now_unix) (chain ! 0)" by (simp add: accepted_leaf)
  note t = smime_tier_policy [OF assms(1), where now_unix = now_unix]
  from t(8) leaf have dn: "(\<lambda>has. (has OID_PSEUDONYM \<or> has OID_GIVEN_NAME \<and> has OID_SURNAME) \<and>
     (sponsored \<longrightarrow> has OID_ORGANIZATION_NAME \<and> has OID_ORGANIZATION_IDENTIFIER))
     (dn_contains_oid (subject (tbs (chain ! 0))))"
    by (auto simp: leaf_meets_def Let_def)
  show ?thesis
    using dn accepted_limits [OF p t(1,2)] leaf_policy [OF leaf t(5)] leaf_eku [OF leaf t(4)] leaf_rfc822 [OF leaf t(6,7)]
    by (simp add: Let_def t(3))
qed

definition ex_ava :: "oid \<Rightarrow> ava" where
  "ex_ava a = \<lparr> ava_oid = a, ava_value = \<lparr> any_tag = Utf8String, any_value = [1] \<rparr> \<rparr>"

definition ex_sponsored_leaf :: certificate where
  "ex_sponsored_leaf =
     (let cert = with_alg SHA256_WITH_RSA
            (ex_cert 5 1 [ex_ext OID_SUBJECT_ALT_NAME [3], ex_ext OID_EXTENDED_KEY_USAGE [4],
               ex_ext OID_CERTIFICATE_POLICIES [9]])
      in cert\<lparr> tbs := (tbs cert)\<lparr> subject :=
           [map ex_ava [OID_ORGANIZATION_NAME, OID_ORGANIZATION_IDENTIFIER], [ex_ava OID_PSEUDONYM]] \<rparr> \<rparr>)"

definition ex_smime_codec :: x509_codec where
  "ex_smime_codec =
     ex_codec\<lparr> dec_extended_key_usage := table_dec [([4], [CABF_KP_EMAIL_PROTECTION])],
       dec_certificate_policies := table_dec [([9], [ex_policy CABF_SMIME_SPONSOR_VALIDATED_STRICT_POLICY])] \<rparr>"

theorem smime_tiers_enforced_witness:
  "list_ex (dn_contains_oid (subject (tbs ex_sponsored_leaf))) [OID_PSEUDONYM, OID_GIVEN_NAME] \<and>
   list_all (dn_contains_oid (subject (tbs ex_sponsored_leaf))) [OID_ORGANIZATION_NAME, OID_ORGANIZATION_IDENTIFIER] \<and>
   list_all (cert_limits ex_smime_codec CABF_SMIME_BR_ALLOWED_ALGS 2048 (Some (825 * SECS_PER_DAY))) [ex_sponsored_leaf]"
proof -
  have "is_ok (validate_path ex_smime_codec [ex_sponsored_leaf] [ex_anchor 1] (smime_sponsor_policy 150) ex_verifier)"
    by code_simp
  then obtain vp where
    "validate_path ex_smime_codec [ex_sponsored_leaf] [ex_anchor 1] (smime_sponsor_policy 150) ex_verifier = Ok vp"
    by (auto simp: is_ok_iff)
  moreover have "(smime_sponsor_policy, CABF_SMIME_SPONSOR_VALIDATED_STRICT_POLICY, True) \<in> set smime_tiers"
    by (simp add: smime_tiers_def)
  ultimately show ?thesis using smime_tiers_enforced by (fastforce simp: Let_def)
qed

section \<open>The two measures of an RSA key, and the SC-081 schedule\<close>

text \<open>
  The path validator counts the bits of whole octets: it exceeds the position of the highest bit by at most
  seven, and is exact for sizes that are multiples of eight.
\<close>

lemma rsa_bits_rounding:
  assumes "h \<noteq> 0"
  shows "bit_len (from_be (h # bs)) \<le> length (h # bs) * 8 \<and> length (h # bs) * 8 < bit_len (from_be (h # bs)) + 8"
proof -
  have "bit_len (unat h) \<le> 8" using unat_u8_less [of h] by (simp add: bit_len_le_iff)
  moreover have "0 < bit_len (unat h)" using assms bit_len_bounds [of "unat h"] by (simp add: unat_gt_0)
  ultimately show ?thesis by (simp add: bit_len_from_be [OF assms])
qed

lemma rsa_bits_exact_octets:
  assumes "h \<noteq> 0" and "bit_len (from_be (h # bs)) = 2040"
  shows "length (h # bs) * 8 = 2040"
  using rsa_bits_rounding [OF assms(1), of bs] assms(2) by presburger

lemma sc081_copies_agree: "public_sc081_validity_cap nb = sc081_validity_cap nb"
  by (simp add: public_sc081_validity_cap_def sc081_validity_cap_def SC081_47D_EPOCH_def SC081_100D_EPOCH_def
      SC081_200D_EPOCH_def SECS_PER_DAY_def)

lemma sc081_epochs:
  "map_ok (\<lambda>d. d * 86400) (days_from_civil 2026 3 15) = Ok (uint SC081_200D_EPOCH)"
  "map_ok (\<lambda>d. d * 86400) (days_from_civil 2027 3 15) = Ok (uint SC081_100D_EPOCH)"
  "map_ok (\<lambda>d. d * 86400) (days_from_civil 2029 3 15) = Ok (uint SC081_47D_EPOCH)"
  by code_simp+

end
