(* ===== verification/RevHttp.thy ===== *)
theory RevHttp
  imports Chain Sct
begin

text \<open>
  Revocation checking over HTTP, \<open>pkix-revocation-http\<close>: the URLs a certificate advertises (\<open>extract.rs\<close>), the
  OCSP request (\<open>ocsp_request.rs\<close>), the checkers that try the URLs in turn (\<open>crl.rs\<close>, \<open>ocsp.rs\<close>),
  and the cache with its protection against rollback (\<open>cache.rs\<close>). The transport is a
  parameter: a function from the request to the response. A \<open>SystemTime\<close> is its number of seconds since the
  Unix epoch. A cache is a state with the methods of the trait \<open>RevocationCache\<close>; a poisoned lock, which makes a
  write a no-op, needs a panic inside a method and cannot occur. The clock is within the range of a \<open>SystemTime\<close>.
\<close>

section \<open>Extraction of URLs\<close>

definition OID_AD_OCSP :: oid where "OID_AD_OCSP = [1, 3, 6, 1, 5, 5, 7, 48, 1]"

record aia_urls =
  aia_ocsp :: "string list"
  aia_ca_issuers :: "string list"

definition aia_urls_is_empty :: "aia_urls \<Rightarrow> bool" where
  "aia_urls_is_empty urls \<longleftrightarrow> aia_ocsp urls = [] \<and> aia_ca_issuers urls = []"

datatype extract_error = ExtractDer der_error

fun display_extract_error :: "extract_error \<Rightarrow> string" where
  "display_extract_error (ExtractDer e) = ''extension DER decode error: '' @ display_der_error e"

definition find_extension_value :: "certificate \<Rightarrow> oid \<Rightarrow> bytes option" where
  "find_extension_value cert oid =
     map_option extn_value (find (\<lambda>e. extn_id e = oid) (unwrap_or [] (extensions (tbs cert))))"

definition starts_with_ci :: "string \<Rightarrow> string \<Rightarrow> bool" where
  "starts_with_ci s p \<longleftrightarrow>
     length s \<ge> length p \<and> list_all (\<lambda>(a, b). ascii_lower a = ascii_lower b) (zip s p)"

definition is_http_uri :: "string \<Rightarrow> bool" where
  "is_http_uri s \<longleftrightarrow> starts_with_ci s ''http://'' \<or> starts_with_ci s ''https://''"

fun push_if_http_uri :: "string list \<Rightarrow> general_name \<Rightarrow> string list" where
  "push_if_http_uri out (UniformResourceIdentifier uri) = (if is_http_uri uri then out @ [uri] else out)"
| "push_if_http_uri out _ = out"

fun push_dp :: "string list \<Rightarrow> distribution_point \<Rightarrow> string list" where
  "push_dp urls dp =
     (case dp_distribution_point dp of
        Some (FullName gns) \<Rightarrow> foldl push_if_http_uri urls gns
      | _ \<Rightarrow> urls)"

definition extract_cdp_http_urls :: "'x revocation_codec_scheme \<Rightarrow> certificate \<Rightarrow> extract_error + string list" where
  "extract_cdp_http_urls cd cert =
     (case find_extension_value cert OID_CRL_DISTRIBUTION_POINTS of
        None \<Rightarrow> Ok []
      | Some v \<Rightarrow> and_then (map_err ExtractDer (dec_crl_dps cd v)) (\<lambda>cdps. Ok (foldl push_dp [] cdps)))"

fun push_ad :: "aia_urls \<Rightarrow> access_description \<Rightarrow> aia_urls" where
  "push_ad out ad =
     (if access_method ad = OID_AD_OCSP
      then out\<lparr> aia_ocsp := push_if_http_uri (aia_ocsp out) (access_location ad) \<rparr>
      else if access_method ad = OID_AD_CA_ISSUERS
      then out\<lparr> aia_ca_issuers := push_if_http_uri (aia_ca_issuers out) (access_location ad) \<rparr>
      else out)"

definition extract_aia_http_urls :: "'x chain_codec_scheme \<Rightarrow> certificate \<Rightarrow> extract_error + aia_urls" where
  "extract_aia_http_urls cd cert =
     (case find_extension_value cert OID_AUTHORITY_INFO_ACCESS of
        None \<Rightarrow> Ok \<lparr> aia_ocsp = [], aia_ca_issuers = [] \<rparr>
      | Some v \<Rightarrow> and_then (map_err ExtractDer (dec_aia cd v)) (\<lambda>aia.
          Ok (foldl push_ad \<lparr> aia_ocsp = [], aia_ca_issuers = [] \<rparr> aia)))"

section \<open>Requests\<close>

datatype ocsp_hash_alg = Sha1_alg | Sha256_alg

record ocsp_request_bytes =
  orb_body :: bytes
  orb_content_type :: string

datatype build_error = BuildAsn1 der_error

fun display_build_error :: "build_error \<Rightarrow> string" where
  "display_build_error (BuildAsn1 e) = ''OCSP request encoding error: '' @ display_der_error e"

text \<open>The error and the calls of the request builder of \<open>x509-ocsp\<close>, and the rendering of serial numbers.\<close>

datatype builder_error' = Asn1 der_error | PublicKeyError | SignatureBuildError

record http_codec = chain_codec +
  request_from_cert :: "ocsp_hash_alg \<Rightarrow> certificate \<Rightarrow> certificate \<Rightarrow> builder_error' + cert_id"
  enc_ocsp_request :: "cert_id list \<Rightarrow> der_error + bytes"
  dec_ocsp_request :: "bytes \<Rightarrow> der_error + cert_id list"
  show_serial_number :: "bytes \<Rightarrow> string"

definition OCSP_REQUEST_CT :: string where "OCSP_REQUEST_CT = ''application/ocsp-request''"

definition der_failed :: der_error where "der_failed = DerError ''operation failed''"

fun map_builder_err :: "builder_error' \<Rightarrow> build_error" where
  "map_builder_err (Asn1 d) = BuildAsn1 d"
| "map_builder_err PublicKeyError = BuildAsn1 der_failed"
| "map_builder_err SignatureBuildError = BuildAsn1 der_failed"

definition build_ocsp_request ::
  "'x http_codec_scheme \<Rightarrow> certificate \<Rightarrow> certificate \<Rightarrow> ocsp_hash_alg \<Rightarrow> build_error + ocsp_request_bytes" where
  "build_ocsp_request cd cert iss alg =
     and_then (map_err map_builder_err (request_from_cert cd alg iss cert)) (\<lambda>request.
     and_then (map_err BuildAsn1 (enc_ocsp_request cd [request])) (\<lambda>body.
       Ok \<lparr> orb_body = body, orb_content_type = ''application/ocsp-request'' \<rparr>))"

datatype fetch_method = Get | Post bytes string

record fetch_request =
  rq_url :: string
  rq_method :: fetch_method

definition fetch_request_get :: "string \<Rightarrow> fetch_request" where
  "fetch_request_get url = \<lparr> rq_url = url, rq_method = Get \<rparr>"

definition fetch_request_post :: "string \<Rightarrow> bytes \<Rightarrow> string \<Rightarrow> fetch_request" where
  "fetch_request_post url body content_type = \<lparr> rq_url = url, rq_method = Post body content_type \<rparr>"

record fetch_response =
  rs_bytes :: bytes
  rs_content_type :: "string option"

datatype fetch_error = Transport string | FetchHttpStatus u16 | TooLarge

fun display_fetch_error :: "fetch_error \<Rightarrow> string" where
  "display_fetch_error (Transport e) = ''transport error: '' @ e"
| "display_fetch_error (FetchHttpStatus code) = ''HTTP '' @ show_nat (unat code)"
| "display_fetch_error TooLarge = ''response too large''"

type_synonym revocation_fetcher = "fetch_request \<Rightarrow> fetch_error + fetch_response"

section \<open>The checkers without a cache\<close>

record http_crl_fetcher =
  hc_fetcher :: revocation_fetcher
  hc_verifier :: sig_verifier
  hc_now_unix :: u64

definition http_crl_fetcher_new :: "revocation_fetcher \<Rightarrow> sig_verifier \<Rightarrow> u64 \<Rightarrow> http_crl_fetcher" where
  "http_crl_fetcher_new fetcher verifier now_unix =
     \<lparr> hc_fetcher = fetcher, hc_verifier = verifier, hc_now_unix = now_unix \<rparr>"

record http_ocsp_fetcher =
  ho_fetcher :: revocation_fetcher
  ho_verifier :: sig_verifier
  ho_now_unix :: u64
  ho_hash_alg :: ocsp_hash_alg

definition http_ocsp_fetcher_new :: "revocation_fetcher \<Rightarrow> sig_verifier \<Rightarrow> u64 \<Rightarrow> http_ocsp_fetcher" where
  "http_ocsp_fetcher_new fetcher verifier now_unix =
     \<lparr> ho_fetcher = fetcher, ho_verifier = verifier, ho_now_unix = now_unix, ho_hash_alg = Sha256_alg \<rparr>"

definition with_hash_alg :: "http_ocsp_fetcher \<Rightarrow> ocsp_hash_alg \<Rightarrow> http_ocsp_fetcher" where
  "with_hash_alg f alg = f\<lparr> ho_hash_alg := alg \<rparr>"

fun join_strings :: "string \<Rightarrow> string list \<Rightarrow> string" where
  "join_strings sep [] = []"
| "join_strings sep [s] = s"
| "join_strings sep (s # ss) = s @ sep @ join_strings sep ss"

definition all_failed :: "string list \<Rightarrow> string list \<Rightarrow> revocation_error" where
  "all_failed urls failures =
     RevocationFetchFailed (''all '' @ show_nat (length urls) @ '' URL(s) failed: '' @ join_strings ''; '' failures)"

definition cdp_failed :: "extract_error \<Rightarrow> revocation_error" where
  "cdp_failed e = RevocationFetchFailed (''cRLDistributionPoints extension parse failed: '' @ display_extract_error e)"

definition aia_failed :: "extract_error \<Rightarrow> revocation_error" where
  "aia_failed e = RevocationFetchFailed (''authorityInfoAccess extension parse failed: '' @ display_extract_error e)"

definition request_failed :: "build_error \<Rightarrow> revocation_error" where
  "request_failed e = RevocationFetchFailed (''OCSP request build failed: '' @ display_build_error e)"

text \<open>
  A turn of the loop over the URLs either returns the verdict of the checker or records a failure and goes on.
\<close>

fun http_crl_loop ::
  "'x http_codec_scheme \<Rightarrow> http_crl_fetcher \<Rightarrow> certificate \<Rightarrow> certificate \<Rightarrow> string list \<Rightarrow> string list \<Rightarrow> string list
     \<Rightarrow> unit revocation_result" where
  "http_crl_loop cd hc cert iss all [] failures = Err (all_failed all failures)"
| "http_crl_loop cd hc cert iss all (url # urls) failures =
     (case hc_fetcher hc (fetch_request_get url) of
        Inr resp \<Rightarrow>
          (case crl_checker_new cd (rs_bytes resp) (hc_now_unix hc) (hc_verifier hc) of
             Inr ck \<Rightarrow> crl_check_revocation cd ck cert iss
           | Inl e \<Rightarrow> http_crl_loop cd hc cert iss all urls
               (failures @ [url @ '': CRL parse: '' @ display_revocation_error (show_serial_number cd) e]))
      | Inl e \<Rightarrow> http_crl_loop cd hc cert iss all urls (failures @ [url @ '': '' @ display_fetch_error e]))"

definition http_crl_check ::
  "'x http_codec_scheme \<Rightarrow> http_crl_fetcher \<Rightarrow> certificate \<Rightarrow> certificate \<Rightarrow> unit revocation_result" where
  "http_crl_check cd hc cert iss =
     and_then (map_err cdp_failed (extract_cdp_http_urls cd cert)) (\<lambda>urls.
       if urls = [] then Ok () else http_crl_loop cd hc cert iss urls urls [])"

fun http_ocsp_loop ::
  "'x http_codec_scheme \<Rightarrow> http_ocsp_fetcher \<Rightarrow> certificate \<Rightarrow> certificate \<Rightarrow> bytes \<Rightarrow> string list \<Rightarrow> string list
     \<Rightarrow> string list \<Rightarrow> unit revocation_result" where
  "http_ocsp_loop cd ho cert iss body all [] failures = Err (all_failed all failures)"
| "http_ocsp_loop cd ho cert iss body all (url # urls) failures =
     (case ho_fetcher ho (fetch_request_post url body OCSP_REQUEST_CT) of
        Inr resp \<Rightarrow>
          (case ocsp_checker_new cd (rs_bytes resp) (ho_now_unix ho) (ho_verifier ho) of
             Inr oc \<Rightarrow> ocsp_check_revocation cd oc cert iss
           | Inl e \<Rightarrow> http_ocsp_loop cd ho cert iss body all urls
               (failures @ [url @ '': OCSP parse: '' @ display_revocation_error (show_serial_number cd) e]))
      | Inl e \<Rightarrow> http_ocsp_loop cd ho cert iss body all urls (failures @ [url @ '': '' @ display_fetch_error e]))"

definition http_ocsp_check ::
  "'x http_codec_scheme \<Rightarrow> http_ocsp_fetcher \<Rightarrow> certificate \<Rightarrow> certificate \<Rightarrow> unit revocation_result" where
  "http_ocsp_check cd ho cert iss =
     and_then (map_err request_failed (build_ocsp_request cd cert iss (ho_hash_alg ho))) (\<lambda>req.
     and_then (map_err aia_failed (extract_aia_http_urls cd cert)) (\<lambda>aia.
       if aia_ocsp aia = [] then Ok ()
       else http_ocsp_loop cd ho cert iss (orb_body req) (aia_ocsp aia) (aia_ocsp aia) []))"

definition http_crl_revocation_checker :: "'x http_codec_scheme \<Rightarrow> http_crl_fetcher \<Rightarrow> revocation_checker" where
  "http_crl_revocation_checker cd hc =
     \<lparr> check_revocation = http_crl_check cd hc, check_revocation_against_anchor = default_check_against_anchor \<rparr>"

definition http_ocsp_revocation_checker :: "'x http_codec_scheme \<Rightarrow> http_ocsp_fetcher \<Rightarrow> revocation_checker" where
  "http_ocsp_revocation_checker cd ho =
     \<lparr> check_revocation = http_ocsp_check cd ho, check_revocation_against_anchor = default_check_against_anchor \<rparr>"

section \<open>The cache\<close>

record crl_cache_key =
  issuer_dn_der :: bytes
  distribution_point_uri :: "string option"

record ocsp_cache_key =
  ock_cert_serial :: bytes
  ock_issuer_key_hash :: bytes
  responder_url :: string

record cached_crl =
  cc_crl_number :: "bytes option"
  cc_this_update :: u64
  cc_next_update :: "u64 option"
  cc_bytes :: bytes

record cached_ocsp_response =
  co_produced_at :: u64
  co_this_update :: u64
  co_next_update :: "u64 option"
  co_bytes :: bytes

text \<open>The trait: methods that read the state \<open>'c\<close> of the cache or return it changed.\<close>

record 'c revocation_cache =
  get_crl :: "'c \<Rightarrow> crl_cache_key \<Rightarrow> cached_crl option"
  put_crl :: "'c \<Rightarrow> crl_cache_key \<Rightarrow> cached_crl \<Rightarrow> 'c"
  invalidate_crl :: "'c \<Rightarrow> crl_cache_key \<Rightarrow> 'c"
  get_ocsp :: "'c \<Rightarrow> ocsp_cache_key \<Rightarrow> cached_ocsp_response option"
  put_ocsp :: "'c \<Rightarrow> ocsp_cache_key \<Rightarrow> cached_ocsp_response \<Rightarrow> 'c"
  invalidate_ocsp :: "'c \<Rightarrow> ocsp_cache_key \<Rightarrow> 'c"

text \<open>
  \<open>crl_number_gt\<close> pads the shorter number with zeros on the left and compares; the order of Rust on slices
  of equal length is lexicographic.
\<close>

fun lex_gt :: "bytes \<Rightarrow> bytes \<Rightarrow> bool" where
  "lex_gt (a # as) (b # bs) = (a > b \<or> a = b \<and> lex_gt as bs)"
| "lex_gt as [] = (as \<noteq> [])"
| "lex_gt [] bs = False"

definition crl_number_gt :: "bytes \<Rightarrow> bytes \<Rightarrow> bool" where
  "crl_number_gt incoming stored =
     (let len = max (length incoming) (length stored);
          a = replicate (len - length incoming) 0 @ incoming;
          b = replicate (len - length stored) 0 @ stored
      in lex_gt a b)"

definition is_rollback :: "cached_crl option \<Rightarrow> bytes option \<Rightarrow> bool" where
  "is_rollback prior incoming =
     (case (prior, incoming) of
        (Some p, Some inc) \<Rightarrow>
          (case cc_crl_number p of Some prior_num \<Rightarrow> crl_number_gt prior_num inc | None \<Rightarrow> False)
      | _ \<Rightarrow> False)"

record in_memory_cache =
  im_crl :: "crl_cache_key \<Rightarrow> cached_crl option"
  im_ocsp :: "ocsp_cache_key \<Rightarrow> cached_ocsp_response option"

definition in_memory_cache_new :: in_memory_cache where
  "in_memory_cache_new = \<lparr> im_crl = (\<lambda>_. None), im_ocsp = (\<lambda>_. None) \<rparr>"

definition put_crl_if_not_rollback ::
  "in_memory_cache \<Rightarrow> crl_cache_key \<Rightarrow> cached_crl \<Rightarrow> in_memory_cache \<times> bool" where
  "put_crl_if_not_rollback c key entry =
     (if is_rollback (im_crl c key) (cc_crl_number entry) then (c, False)
      else (c\<lparr> im_crl := (im_crl c)(key \<mapsto> entry) \<rparr>, True))"

definition in_memory :: "in_memory_cache revocation_cache" where
  "in_memory =
     \<lparr> get_crl = im_crl,
       put_crl = (\<lambda>c key entry. c\<lparr> im_crl := (im_crl c)(key \<mapsto> entry) \<rparr>),
       invalidate_crl = (\<lambda>c key. c\<lparr> im_crl := (im_crl c)(key := None) \<rparr>),
       get_ocsp = im_ocsp,
       put_ocsp = (\<lambda>c key entry. c\<lparr> im_ocsp := (im_ocsp c)(key \<mapsto> entry) \<rparr>),
       invalidate_ocsp = (\<lambda>c key. c\<lparr> im_ocsp := (im_ocsp c)(key := None) \<rparr>) \<rparr>"

text \<open>The guarded insertion of a trait object: a read, then, in a second access, a write.\<close>

definition dyn_put_crl_guarded ::
  "'c revocation_cache \<Rightarrow> 'c \<Rightarrow> crl_cache_key \<Rightarrow> cached_crl \<Rightarrow> 'c \<times> bool" where
  "dyn_put_crl_guarded ops c key entry =
     (if is_rollback (get_crl ops c key) (cc_crl_number entry) then (c, False)
      else (put_crl ops c key entry, True))"

definition is_live :: "u64 option \<Rightarrow> u64 \<Rightarrow> bool" where
  "is_live next_update now = (case next_update of None \<Rightarrow> True | Some nu \<Rightarrow> nu > now)"

section \<open>Metadata\<close>

record crl_metadata =
  cm_crl_number :: "bytes option"
  cm_this_update :: u64
  cm_next_update :: "u64 option"

definition parse_crl_metadata :: "'x revocation_codec_scheme \<Rightarrow> bytes \<Rightarrow> der_error + crl_metadata" where
  "parse_crl_metadata cd der_bytes =
     and_then (dec_crl cd der_bytes) (\<lambda>crl.
       let t = tbs_list crl;
           number = (case find (\<lambda>e. extn_id e = OID_CRL_NUMBER) (unwrap_or [] (crl_extensions t)) of
                       None \<Rightarrow> None
                     | Some ext \<Rightarrow> result_ok (dec_uint cd (extn_value ext)))
       in Ok \<lparr> cm_crl_number = number, cm_this_update = crl_this_update t, cm_next_update = crl_next_update t \<rparr>)"

record ocsp_metadata =
  om_produced_at :: u64
  om_this_update :: u64
  om_next_update :: "u64 option"

definition parse_ocsp_metadata :: "'x revocation_codec_scheme \<Rightarrow> bytes \<Rightarrow> der_error + ocsp_metadata" where
  "parse_ocsp_metadata cd der_bytes =
     and_then (dec_ocsp_response cd der_bytes) (\<lambda>outer.
       if response_status outer \<noteq> Successful then Err der_failed
       else and_then (ok_or der_failed (ocsp_response_bytes outer)) (\<lambda>resp_bytes.
            and_then (dec_basic_ocsp cd (rb_response resp_bytes)) (\<lambda>basic.
              case responses (tbs_response_data basic) of
                [] \<Rightarrow> Err der_failed
              | single # _ \<Rightarrow>
                  Ok \<lparr> om_produced_at = produced_at (tbs_response_data basic), om_this_update = sr_this_update single,
                       om_next_update = sr_next_update single \<rparr>)))"

definition extract_cert_id_identity :: "'x http_codec_scheme \<Rightarrow> bytes \<Rightarrow> der_error + (bytes \<times> bytes)" where
  "extract_cert_id_identity cd req_body =
     and_then (dec_ocsp_request cd req_body) (\<lambda>requests.
       case requests of
         [] \<Rightarrow> Err der_failed
       | cert_id # _ \<Rightarrow> Ok (cid_serial_number cert_id, issuer_key_hash cert_id))"

section \<open>The checkers with a cache\<close>

text \<open>\<open>put_guarded\<close> is the guarded insertion of the cache's type: atomic in memory, in two steps behind a trait object.\<close>

type_synonym 'c put_guarded = "'c \<Rightarrow> crl_cache_key \<Rightarrow> cached_crl \<Rightarrow> 'c \<times> bool"

definition crl_populate_cache ::
  "'x revocation_codec_scheme \<Rightarrow> 'c put_guarded \<Rightarrow> 'c \<Rightarrow> fetch_response \<Rightarrow> crl_cache_key option \<Rightarrow> 'c" where
  "crl_populate_cache cd put c resp key =
     (case key of
        None \<Rightarrow> c
      | Some k \<Rightarrow>
          (case parse_crl_metadata cd (rs_bytes resp) of
             Inl _ \<Rightarrow> c
           | Inr meta \<Rightarrow>
               fst (put c k \<lparr> cc_crl_number = cm_crl_number meta, cc_this_update = cm_this_update meta,
                              cc_next_update = cm_next_update meta, cc_bytes = rs_bytes resp \<rparr>)))"

definition live_crl :: "'c revocation_cache \<Rightarrow> 'c \<Rightarrow> crl_cache_key option \<Rightarrow> u64 \<Rightarrow> cached_crl option" where
  "live_crl ops c key now =
     (case key of
        None \<Rightarrow> None
      | Some k \<Rightarrow>
          (case get_crl ops c k of
             Some e \<Rightarrow> if is_live (cc_next_update e) now then Some e else None
           | None \<Rightarrow> None))"

definition crl_key :: "bytes option \<Rightarrow> string \<Rightarrow> crl_cache_key option" where
  "crl_key dn url = map_option (\<lambda>d. \<lparr> issuer_dn_der = d, distribution_point_uri = Some url \<rparr>) dn"

text \<open>
  A turn: a live entry that parses decides; one that does not is dropped and its failure recorded; then the
  URL is fetched, and a CRL that parses is offered to the cache and decides.
\<close>

fun cached_crl_loop ::
  "'x http_codec_scheme \<Rightarrow> 'c revocation_cache \<Rightarrow> 'c put_guarded \<Rightarrow> http_crl_fetcher \<Rightarrow> certificate \<Rightarrow> certificate
     \<Rightarrow> bytes option \<Rightarrow> string list \<Rightarrow> string list \<Rightarrow> string list \<Rightarrow> 'c \<Rightarrow> 'c \<times> unit revocation_result" where
  "cached_crl_loop cd ops put hc cert iss dn all [] failures c = (c, Err (all_failed all failures))"
| "cached_crl_loop cd ops put hc cert iss dn all (url # urls) failures c =
     (let key = crl_key dn url;
          fetch_it = (\<lambda>failures c.
            case hc_fetcher hc (fetch_request_get url) of
              Inr resp \<Rightarrow>
                (case crl_checker_new cd (rs_bytes resp) (hc_now_unix hc) (hc_verifier hc) of
                   Inr ck \<Rightarrow> (crl_populate_cache cd put c resp key, crl_check_revocation cd ck cert iss)
                 | Inl e \<Rightarrow> cached_crl_loop cd ops put hc cert iss dn all urls
                     (failures @ [url @ '': CRL parse: '' @ display_revocation_error (show_serial_number cd) e]) c)
            | Inl e \<Rightarrow> cached_crl_loop cd ops put hc cert iss dn all urls
                (failures @ [url @ '': '' @ display_fetch_error e]) c)
      in case live_crl ops c key (hc_now_unix hc) of
           None \<Rightarrow> fetch_it failures c
         | Some cached \<Rightarrow>
             (case crl_checker_new cd (cc_bytes cached) (hc_now_unix hc) (hc_verifier hc) of
                Inr ck \<Rightarrow> (c, crl_check_revocation cd ck cert iss)
              | Inl e \<Rightarrow>
                  fetch_it (failures @ [url @ '': cached CRL parse: '' @ display_revocation_error (show_serial_number cd) e])
                    (case key of None \<Rightarrow> c | Some k \<Rightarrow> invalidate_crl ops c k)))"

definition cached_crl_check ::
  "'x http_codec_scheme \<Rightarrow> 'c revocation_cache \<Rightarrow> 'c put_guarded \<Rightarrow> http_crl_fetcher \<Rightarrow> 'c \<Rightarrow> certificate \<Rightarrow> certificate
     \<Rightarrow> 'c \<times> unit revocation_result" where
  "cached_crl_check cd ops put hc c cert iss =
     (case extract_cdp_http_urls cd cert of
        Inl e \<Rightarrow> (c, Err (cdp_failed e))
      | Inr urls \<Rightarrow>
          if urls = [] then (c, Ok ())
          else cached_crl_loop cd ops put hc cert iss (result_ok (enc_name cd (subject (tbs iss)))) urls urls [] c)"

definition ocsp_populate_cache ::
  "'x revocation_codec_scheme \<Rightarrow> 'c revocation_cache \<Rightarrow> 'c \<Rightarrow> fetch_response \<Rightarrow> ocsp_cache_key \<Rightarrow> 'c" where
  "ocsp_populate_cache cd ops c resp key =
     (case parse_ocsp_metadata cd (rs_bytes resp) of
        Inl _ \<Rightarrow> c
      | Inr meta \<Rightarrow>
          put_ocsp ops c key \<lparr> co_produced_at = om_produced_at meta, co_this_update = om_this_update meta,
                               co_next_update = om_next_update meta, co_bytes = rs_bytes resp \<rparr>)"

definition live_ocsp :: "'c revocation_cache \<Rightarrow> 'c \<Rightarrow> ocsp_cache_key \<Rightarrow> u64 \<Rightarrow> cached_ocsp_response option" where
  "live_ocsp ops c key now =
     (case get_ocsp ops c key of
        Some e \<Rightarrow> if is_live (co_next_update e) now then Some e else None
      | None \<Rightarrow> None)"

fun cached_ocsp_loop ::
  "'x http_codec_scheme \<Rightarrow> 'c revocation_cache \<Rightarrow> http_ocsp_fetcher \<Rightarrow> certificate \<Rightarrow> certificate \<Rightarrow> bytes
     \<Rightarrow> bytes \<times> bytes \<Rightarrow> string list \<Rightarrow> string list \<Rightarrow> string list \<Rightarrow> 'c \<Rightarrow> 'c \<times> unit revocation_result" where
  "cached_ocsp_loop cd ops ho cert iss body ident all [] failures c = (c, Err (all_failed all failures))"
| "cached_ocsp_loop cd ops ho cert iss body ident all (url # urls) failures c =
     (let key = \<lparr> ock_cert_serial = fst ident, ock_issuer_key_hash = snd ident, responder_url = url \<rparr>;
          fetch_it = (\<lambda>failures c.
            case ho_fetcher ho (fetch_request_post url body ''application/ocsp-request'') of
              Inr resp \<Rightarrow>
                (case ocsp_checker_new cd (rs_bytes resp) (ho_now_unix ho) (ho_verifier ho) of
                   Inr oc \<Rightarrow> (ocsp_populate_cache cd ops c resp key, ocsp_check_revocation cd oc cert iss)
                 | Inl e \<Rightarrow> cached_ocsp_loop cd ops ho cert iss body ident all urls
                     (failures @ [url @ '': OCSP parse: '' @ display_revocation_error (show_serial_number cd) e]) c)
            | Inl e \<Rightarrow> cached_ocsp_loop cd ops ho cert iss body ident all urls
                (failures @ [url @ '': '' @ display_fetch_error e]) c)
      in case live_ocsp ops c key (ho_now_unix ho) of
           None \<Rightarrow> fetch_it failures c
         | Some cached \<Rightarrow>
             (case ocsp_checker_new cd (co_bytes cached) (ho_now_unix ho) (ho_verifier ho) of
                Inr oc \<Rightarrow> (c, ocsp_check_revocation cd oc cert iss)
              | Inl e \<Rightarrow>
                  fetch_it (failures @ [url @ '': cached OCSP parse: '' @ display_revocation_error (show_serial_number cd) e])
                    (invalidate_ocsp ops c key)))"

definition cached_ocsp_check ::
  "'x http_codec_scheme \<Rightarrow> 'c revocation_cache \<Rightarrow> http_ocsp_fetcher \<Rightarrow> 'c \<Rightarrow> certificate \<Rightarrow> certificate
     \<Rightarrow> 'c \<times> unit revocation_result" where
  "cached_ocsp_check cd ops ho c cert iss =
     (case build_ocsp_request cd cert iss (ho_hash_alg ho) of
        Inl e \<Rightarrow> (c, Err (request_failed e))
      | Inr req \<Rightarrow>
     (case extract_aia_http_urls cd cert of
        Inl e \<Rightarrow> (c, Err (aia_failed e))
      | Inr aia \<Rightarrow>
          if aia_ocsp aia = [] then (c, Ok ())
          else (case extract_cert_id_identity cd (orb_body req) of
                  Inl e \<Rightarrow> (c, Err (RevocationFetchFailed (''OCSP request CertID extract failed: '' @ display_der_error e)))
                | Inr ident \<Rightarrow>
                    cached_ocsp_loop cd ops ho cert iss (orb_body req) ident (aia_ocsp aia) (aia_ocsp aia) [] c)))"

section \<open>The first usable URL decides\<close>

text \<open>What one URL yields: a checker, or the description of the failure.\<close>

definition crl_attempt :: "'x http_codec_scheme \<Rightarrow> http_crl_fetcher \<Rightarrow> string \<Rightarrow> string + crl_checker" where
  "crl_attempt cd hc url =
     (case hc_fetcher hc (fetch_request_get url) of
        Inl e \<Rightarrow> Err (url @ '': '' @ display_fetch_error e)
      | Inr resp \<Rightarrow>
          map_err (\<lambda>e. url @ '': CRL parse: '' @ display_revocation_error (show_serial_number cd) e)
            (crl_checker_new cd (rs_bytes resp) (hc_now_unix hc) (hc_verifier hc)))"

definition ocsp_attempt ::
  "'x http_codec_scheme \<Rightarrow> http_ocsp_fetcher \<Rightarrow> bytes \<Rightarrow> string \<Rightarrow> string + ocsp_checker" where
  "ocsp_attempt cd ho body url =
     (case ho_fetcher ho (fetch_request_post url body OCSP_REQUEST_CT) of
        Inl e \<Rightarrow> Err (url @ '': '' @ display_fetch_error e)
      | Inr resp \<Rightarrow>
          map_err (\<lambda>e. url @ '': OCSP parse: '' @ display_revocation_error (show_serial_number cd) e)
            (ocsp_checker_new cd (rs_bytes resp) (ho_now_unix ho) (ho_verifier ho)))"

text \<open>The first attempt that succeeds decides; when none does, all failures are reported in order.\<close>

definition first_decides ::
  "string list \<Rightarrow> (string + 'k) list \<Rightarrow> ('k \<Rightarrow> unit revocation_result) \<Rightarrow> string list \<Rightarrow> unit revocation_result" where
  "first_decides all attempts check failures =
     (case find is_ok attempts of
        Some (Inr ck) \<Rightarrow> check ck
      | _ \<Rightarrow> Err (all_failed all (failures @ map projl attempts)))"

lemma first_decides_Cons:
  "first_decides all (a # as) check fs =
     (case a of Inr ck \<Rightarrow> check ck | Inl e \<Rightarrow> first_decides all as check (fs @ [e]))"
  by (cases a) (auto simp: first_decides_def split: option.splits sum.splits)

lemma first_decides_Nil: "first_decides all [] check fs = Err (all_failed all fs)"
  by (simp add: first_decides_def)

lemma http_crl_loop_first:
  "http_crl_loop cd hc cert iss all urls fs =
     first_decides all (map (crl_attempt cd hc) urls) (\<lambda>ck. crl_check_revocation cd ck cert iss) fs"
  by (induction urls arbitrary: fs)
    (auto simp: first_decides_Cons first_decides_Nil crl_attempt_def split: sum.splits)

lemma http_ocsp_loop_first:
  "http_ocsp_loop cd ho cert iss body all urls fs =
     first_decides all (map (ocsp_attempt cd ho body) urls) (\<lambda>oc. ocsp_check_revocation cd oc cert iss) fs"
  by (induction urls arbitrary: fs)
    (auto simp: first_decides_Cons first_decides_Nil ocsp_attempt_def split: sum.splits)

text \<open>
  C34. The CRL checker over HTTP answers with the verdict of the first advertised URL, in document order, that
  serves a CRL that parses: what the URLs before it do (errors, refusals, garbage) cannot withhold the
  verdict, and those after it are not consulted. Only when every URL has failed is the failure of each
  reported, in order; a certificate that advertises none is passed.
\<close>

theorem http_crl_check_decides:
  "http_crl_check cd hc cert iss =
     (case extract_cdp_http_urls cd cert of
        Inl e \<Rightarrow> Err (cdp_failed e)
      | Inr urls \<Rightarrow>
          if urls = [] then Ok ()
          else first_decides urls (map (crl_attempt cd hc) urls) (\<lambda>ck. crl_check_revocation cd ck cert iss) [])"
  by (simp add: http_crl_check_def http_crl_loop_first split: sum.splits)

section \<open>The URLs\<close>

lemma starts_with_ci_iff: "starts_with_ci s p \<longleftrightarrow> (\<exists>a b. s = a @ b \<and> eq_ignore_ascii_case a p)"
proof -
  have "starts_with_ci s p \<longleftrightarrow> length p \<le> length s \<and> map ascii_lower (take (length p) s) = map ascii_lower p"
    by (induction s p rule: list_induct2') (auto simp: starts_with_ci_def)
  also have "\<dots> \<longleftrightarrow> (\<exists>a b. s = a @ b \<and> eq_ignore_ascii_case a p)"
  proof
    assume "length p \<le> length s \<and> map ascii_lower (take (length p) s) = map ascii_lower p"
    then have "s = take (length p) s @ drop (length p) s \<and> eq_ignore_ascii_case (take (length p) s) p"
      by (simp add: eq_ignore_ascii_case_def)
    then show "\<exists>a b. s = a @ b \<and> eq_ignore_ascii_case a p" by blast
  next
    assume "\<exists>a b. s = a @ b \<and> eq_ignore_ascii_case a p"
    then obtain a b where "s = a @ b" "map ascii_lower a = map ascii_lower p"
      by (auto simp: eq_ignore_ascii_case_def)
    moreover from this(2) have "length a = length p" by (rule map_eq_imp_length_eq)
    ultimately show "length p \<le> length s \<and> map ascii_lower (take (length p) s) = map ascii_lower p" by simp
  qed
  finally show ?thesis .
qed

lemma push_if_http_uri_iff: "u \<in> set (push_if_http_uri out gn) \<longleftrightarrow>
    u \<in> set out \<or> gn = UniformResourceIdentifier u \<and> is_http_uri u"
  by (cases gn) auto

lemma foldl_push_iff: "u \<in> set (foldl push_if_http_uri out gns) \<longleftrightarrow>
    u \<in> set out \<or> UniformResourceIdentifier u \<in> set gns \<and> is_http_uri u"
  by (induction gns arbitrary: out) (auto simp: push_if_http_uri_iff)

lemma foldl_push_dp_iff: "u \<in> set (foldl push_dp out dps) \<longleftrightarrow>
    u \<in> set out \<or> is_http_uri u \<and>
      (\<exists>dp gns. dp \<in> set dps \<and> dp_distribution_point dp = Some (FullName gns) \<and> UniformResourceIdentifier u \<in> set gns)"
proof (induction dps arbitrary: out)
  case (Cons dp dps)
  have eq: "u \<in> set (push_dp out dp) \<longleftrightarrow> u \<in> set out \<or> is_http_uri u \<and>
      (\<exists>gns. dp_distribution_point dp = Some (FullName gns) \<and> UniformResourceIdentifier u \<in> set gns)"
    by (auto simp: foldl_push_iff split: option.splits distribution_point_name.splits)
  show ?case by (simp only: foldl_Cons Cons.IH eq) auto
qed simp

section \<open>Numbers of CRLs\<close>

lemma lex_gt_from_be: "length a = length b \<Longrightarrow> lex_gt a b \<longleftrightarrow> from_be b < from_be a"
proof (induction a b rule: lex_gt.induct)
  case (1 a as b bs)
  have ba: "from_be as < 256 ^ length as" "from_be bs < 256 ^ length as"
    using from_be_bound [of as] from_be_bound [of bs] 1(2) by simp_all
  have less: "from_be (x # xs) < from_be (y # ys)"
    if "unat x < unat y" "from_be xs < 256 ^ n" "length xs = n" "length ys = n" for x y :: u8 and xs ys n
  proof -
    have "Suc (unat x) * 256 ^ n \<le> unat y * 256 ^ n" using that(1) by (intro mult_right_mono) simp_all
    then show ?thesis using that(2-4) by (simp add: from_be_Cons)
  qed
  show ?case
  proof (cases "a = b")
    case True
    then show ?thesis using 1 by (simp add: from_be_Cons)
  next
    case False
    then consider "unat b < unat a" | "unat a < unat b" by (metis linorder_neqE_nat word_unat_eq_iff)
    then show ?thesis
    proof cases
      case 1
      then show ?thesis using less [of b a bs "length as" as] ba \<open>length (a # as) = length (b # bs)\<close>
        by (simp add: word_less_nat_alt)
    next
      case 2
      then show ?thesis using less [of a b as "length as" bs] ba \<open>length (a # as) = length (b # bs)\<close>
        by (auto simp: word_less_nat_alt)
    qed
  qed
qed simp_all

lemma from_be_padded: "from_be (replicate n 0 @ bs) = from_be bs"
  by (induction n) (simp_all add: from_be_Cons)

lemma crl_number_gt_iff: "crl_number_gt a b \<longleftrightarrow> from_be b < from_be a"
  by (simp add: crl_number_gt_def Let_def lex_gt_from_be from_be_padded)

section \<open>Rollback\<close>

text \<open>Every access to the cache: the methods of the trait, and the guarded insertion of the wrapper.\<close>

datatype cache_op =
    GetCrl crl_cache_key
  | PutCrl crl_cache_key cached_crl
  | GuardedPut crl_cache_key cached_crl
  | InvalidateCrl crl_cache_key
  | GetOcsp ocsp_cache_key
  | PutOcsp ocsp_cache_key cached_ocsp_response
  | InvalidateOcsp ocsp_cache_key

fun apply_op :: "cache_op \<Rightarrow> in_memory_cache \<Rightarrow> in_memory_cache" where
  "apply_op (GetCrl k) c = c"
| "apply_op (PutCrl k e) c = put_crl in_memory c k e"
| "apply_op (GuardedPut k e) c = fst (put_crl_if_not_rollback c k e)"
| "apply_op (InvalidateCrl k) c = invalidate_crl in_memory c k"
| "apply_op (GetOcsp k) c = c"
| "apply_op (PutOcsp k e) c = put_ocsp in_memory c k e"
| "apply_op (InvalidateOcsp k) c = invalidate_ocsp in_memory c k"

text \<open>The accesses the guard does not cover: a plain insertion under the key, its removal, a CRL without a number.\<close>

fun unguarded :: "crl_cache_key \<Rightarrow> cache_op \<Rightarrow> bool" where
  "unguarded k (PutCrl k' e) \<longleftrightarrow> k' = k"
| "unguarded k (GuardedPut k' e) \<longleftrightarrow> k' = k \<and> cc_crl_number e = None"
| "unguarded k (InvalidateCrl k') \<longleftrightarrow> k' = k"
| "unguarded k _ \<longleftrightarrow> False"

text \<open>The numbers the guarded insertions offer under a key.\<close>

fun offered :: "crl_cache_key \<Rightarrow> cache_op list \<Rightarrow> nat list" where
  "offered k [] = []"
| "offered k (GuardedPut k' e # ops) =
     (case cc_crl_number e of
        Some n \<Rightarrow> if k' = k then from_be n # offered k ops else offered k ops
      | None \<Rightarrow> offered k ops)"
| "offered k (_ # ops) = offered k ops"

definition stored_number :: "crl_cache_key \<Rightarrow> in_memory_cache \<Rightarrow> nat option" where
  "stored_number k c = Option.bind (im_crl c k) (\<lambda>e. map_option from_be (cc_crl_number e))"

lemma apply_guarded:
  assumes "\<not> unguarded k oper" "stored_number k c = Some n"
  shows "stored_number k (apply_op oper c) = Some (fold max (offered k [oper]) n)"
proof (cases oper)
  case (GuardedPut k' e')
  obtain e m where e: "im_crl c k = Some e" "cc_crl_number e = Some m" "n = from_be m"
    using assms(2) by (auto simp: stored_number_def split: bind_splits)
  show ?thesis
  proof (cases "cc_crl_number e'")
    case None
    then show ?thesis using assms GuardedPut by (auto simp: put_crl_if_not_rollback_def stored_number_def)
  next
    case (Some m')
    then show ?thesis using GuardedPut e
      by (auto simp: put_crl_if_not_rollback_def is_rollback_def crl_number_gt_iff stored_number_def max_def)
  qed
qed (use assms in \<open>auto simp: in_memory_def stored_number_def\<close>)

lemma offered_Cons: "offered k (oper # ops) = offered k [oper] @ offered k ops"
  by (cases oper) (simp_all split: option.split)

text \<open>
  C33. The guarded insertion protects against rollback: in any interleaving of accesses to the in-memory cache, by any
  number of threads and each access being atomic, that contains no plain insertion under a key, no removal of the key
  and no guarded insertion of a CRL without a number, the CRL number stored under the key ends as the greatest of the
  number it had and all the numbers offered. Any other access may occur, also to other keys.
\<close>

theorem in_memory_rollback_free:
  assumes "\<not> list_ex (unguarded k) ops" and "stored_number k c = Some n"
  shows "stored_number k (fold apply_op ops c) = Some (fold max (offered k ops) n)"
  using assms
proof (induction ops arbitrary: c n)
  case (Cons oper ops)
  then have "stored_number k (apply_op oper c) = Some (fold max (offered k [oper]) n)"
    by (simp add: apply_guarded)
  with Cons show ?case by (simp add: offered_Cons [of k oper ops])
qed simp

definition ex_key_a :: crl_cache_key where
  "ex_key_a = \<lparr> issuer_dn_der = [1], distribution_point_uri = Some ''http://a'' \<rparr>"

definition ex_cached :: "u8 \<Rightarrow> bytes \<Rightarrow> cached_crl" where
  "ex_cached n bs = \<lparr> cc_crl_number = Some [n], cc_this_update = 100, cc_next_update = Some 140, cc_bytes = bs \<rparr>"

theorem in_memory_rollback_free_witness:
  "stored_number ex_key_a (fold apply_op
     [GuardedPut ex_key_a (ex_cached 3 [1]), GetCrl ex_key_a, GuardedPut ex_key_a (ex_cached 6 [1])]
     (in_memory_cache_new\<lparr> im_crl := [ex_key_a \<mapsto> ex_cached 5 [2]] \<rparr>)) = Some 6"
  using in_memory_rollback_free [of ex_key_a
      "[GuardedPut ex_key_a (ex_cached 3 [1]), GetCrl ex_key_a, GuardedPut ex_key_a (ex_cached 6 [1])]"
      "in_memory_cache_new\<lparr> im_crl := [ex_key_a \<mapsto> ex_cached 5 [2]] \<rparr>" 5]
  by (simp add: ex_cached_def from_be_def stored_number_def)

text \<open>Each of the accesses left out lets an older CRL in.\<close>

lemma unguarded_accesses_roll_back:
  "stored_number ex_key_a (apply_op (PutCrl ex_key_a (ex_cached 3 [1]))
     (in_memory_cache_new\<lparr> im_crl := [ex_key_a \<mapsto> ex_cached 5 [2]] \<rparr>)) = Some 3"
  "stored_number ex_key_a (fold apply_op
     [GuardedPut ex_key_a ((ex_cached 4 [1])\<lparr> cc_crl_number := None \<rparr>), GuardedPut ex_key_a (ex_cached 3 [1])]
     (in_memory_cache_new\<lparr> im_crl := [ex_key_a \<mapsto> ex_cached 5 [2]] \<rparr>)) = Some 3"
  "stored_number ex_key_a (fold apply_op [InvalidateCrl ex_key_a, GuardedPut ex_key_a (ex_cached 3 [1])]
     (in_memory_cache_new\<lparr> im_crl := [ex_key_a \<mapsto> ex_cached 5 [2]] \<rparr>)) = Some 3"
  by (simp_all add: ex_cached_def from_be_def stored_number_def put_crl_if_not_rollback_def is_rollback_def in_memory_def)

text \<open>
  Behind a trait object the check and the write are two accesses, and other threads can come between them: the
  state is the cache and the insertions that have passed their check.
\<close>

inductive dyn_step ::
  "in_memory_cache \<times> (crl_cache_key \<times> cached_crl) list \<Rightarrow> in_memory_cache \<times> (crl_cache_key \<times> cached_crl) list \<Rightarrow> bool" where
  dyn_check: "\<not> is_rollback (im_crl c k) (cc_crl_number e) \<Longrightarrow> dyn_step (c, w) (c, (k, e) # w)"
| dyn_write: "(k, e) \<in> set w \<Longrightarrow> dyn_step (c, w) (put_crl in_memory c k e, remove1 (k, e) w)"

lemma dyn_put_races:
  "\<exists>c w. dyn_step\<^sup>*\<^sup>* (in_memory_cache_new, []) (c, w) \<and>
     map_option cc_crl_number (im_crl c ex_key_a) = Some (Some [6]) \<and>
     (\<exists>c' w'. dyn_step (c, w) (c', w') \<and> map_option cc_crl_number (im_crl c' ex_key_a) = Some (Some [3]))"
proof -
  let ?a = "(ex_key_a, ex_cached 3 [1])" and ?b = "(ex_key_a, ex_cached 6 [1])"
  let ?c = "put_crl in_memory in_memory_cache_new ex_key_a (ex_cached 6 [1])"
  have "dyn_step (in_memory_cache_new, []) (in_memory_cache_new, [?a])"
    by (rule dyn_check) (simp add: is_rollback_def in_memory_cache_new_def)
  moreover have "dyn_step (in_memory_cache_new, [?a]) (in_memory_cache_new, [?b, ?a])"
    by (rule dyn_check) (simp add: is_rollback_def in_memory_cache_new_def)
  moreover have "dyn_step (in_memory_cache_new, [?b, ?a]) (?c, [?a])"
    using dyn_write [of ex_key_a "ex_cached 6 [1]" "[?b, ?a]"] by simp
  ultimately have "dyn_step\<^sup>*\<^sup>* (in_memory_cache_new, []) (?c, [?a])"
    by (blast intro: converse_rtranclp_into_rtranclp rtranclp.rtrancl_refl)
  moreover have "dyn_step (?c, [?a]) (put_crl in_memory ?c ex_key_a (ex_cached 3 [1]), [])"
    using dyn_write [of ex_key_a "ex_cached 3 [1]" "[?a]"] by simp
  moreover have "map_option cc_crl_number (im_crl ?c ex_key_a) = Some (Some [6])"
    "map_option cc_crl_number (im_crl (put_crl in_memory ?c ex_key_a (ex_cached 3 [1])) ex_key_a) = Some (Some [3])"
    by (simp_all add: in_memory_def ex_cached_def)
  ultimately show ?thesis by blast
qed

section \<open>What a cached verdict rests on\<close>

text \<open>The bytes of a live entry, or those the URL serves.\<close>

definition crl_source ::
  "'c revocation_cache \<Rightarrow> http_crl_fetcher \<Rightarrow> 'c \<Rightarrow> bytes option \<Rightarrow> string \<Rightarrow> bytes \<Rightarrow> bool" where
  "crl_source ops hc c dn url bs \<longleftrightarrow>
     map_option cc_bytes (live_crl ops c (crl_key dn url) (hc_now_unix hc)) = Some bs \<or>
     map_ok rs_bytes (hc_fetcher hc (fetch_request_get url)) = Ok bs"

definition sourced_from ::
  "'c revocation_cache \<Rightarrow> http_crl_fetcher \<Rightarrow> 'c \<Rightarrow> bytes option \<Rightarrow> 'x http_codec_scheme \<Rightarrow> certificate \<Rightarrow> certificate
     \<Rightarrow> string list \<Rightarrow> unit revocation_result \<Rightarrow> bool" where
  "sourced_from ops hc c dn cd cert iss urls r \<longleftrightarrow>
     (\<exists>all fs. r = Err (all_failed all fs)) \<or>
     (\<exists>url bs ck. url \<in> set urls \<and> crl_source ops hc c dn url bs \<and>
        crl_checker_new cd bs (hc_now_unix hc) (hc_verifier hc) = Ok ck \<and> r = crl_check_revocation cd ck cert iss)"

lemma sourced_fromI:
  "\<lbrakk>url \<in> set urls; crl_source ops hc c dn url bs; crl_checker_new cd bs (hc_now_unix hc) (hc_verifier hc) = Ok ck\<rbrakk>
   \<Longrightarrow> sourced_from ops hc c dn cd cert iss urls (crl_check_revocation cd ck cert iss)"
  unfolding sourced_from_def by blast

lemma sourced_from_mono:
  assumes "sourced_from ops hc c1 dn cd cert iss urls r"
    and "\<And>url bs. crl_source ops hc c1 dn url bs \<Longrightarrow> crl_source ops hc c dn url bs"
  shows "sourced_from ops hc c dn cd cert iss (url # urls) r"
  using assms(1) unfolding sourced_from_def
proof (elim disjE exE conjE)
  fix u bs ck
  assume "u \<in> set urls" "crl_source ops hc c1 dn u bs"
    "crl_checker_new cd bs (hc_now_unix hc) (hc_verifier hc) = Ok ck" "r = crl_check_revocation cd ck cert iss"
  with assms(2) [of u bs] show "(\<exists>all fs. r = Err (all_failed all fs)) \<or>
     (\<exists>u bs ck. u \<in> set (url # urls) \<and> crl_source ops hc c dn u bs \<and>
        crl_checker_new cd bs (hc_now_unix hc) (hc_verifier hc) = Ok ck \<and> r = crl_check_revocation cd ck cert iss)"
    by (intro disjI2 exI [of _ u] exI [of _ bs] exI [of _ ck]) simp
qed blast

text \<open>What the cached checker relies on: reading gives what was written last, unless dropped or refused.\<close>

locale crl_store =
  fixes ops :: "'c revocation_cache" and put :: "'c put_guarded"
  assumes get_invalidate: "get_crl ops (invalidate_crl ops c k) k' = (if k' = k then None else get_crl ops c k')"
    and get_put_guarded: "get_crl ops (fst (put c k e)) k' =
       (if k' = k \<and> \<not> is_rollback (get_crl ops c k) (cc_crl_number e) then Some e else get_crl ops c k')"
begin

lemma live_invalidate:
  assumes "live_crl ops (case key' of None \<Rightarrow> c | Some k \<Rightarrow> invalidate_crl ops c k) key now = Some e"
  shows "live_crl ops c key now = Some e"
  using assms by (auto simp: live_crl_def get_invalidate split: option.splits if_splits)

lemma source_invalidate:
  assumes "crl_source ops hc (case key' of None \<Rightarrow> c | Some k \<Rightarrow> invalidate_crl ops c k) dn url bs"
  shows "crl_source ops hc c dn url bs"
  using assms unfolding crl_source_def map_option_eq_Some by (metis live_invalidate)

lemma loop_sourced:
  "sourced_from ops hc c dn cd cert iss urls (snd (cached_crl_loop cd ops put hc cert iss dn all urls fs c))"
proof (induction urls arbitrary: fs c)
  case Nil
  then show ?case by (auto simp: sourced_from_def)
next
  case (Cons url urls)
  let ?key = "crl_key dn url"
  let ?dropped = "case ?key of None \<Rightarrow> c | Some k \<Rightarrow> invalidate_crl ops c k"
  have mono: "sourced_from ops hc c dn cd cert iss (url # urls) r"
    if "sourced_from ops hc c1 dn cd cert iss urls r" "c1 = c \<or> c1 = ?dropped" for c1 r
    using that(1) by (rule sourced_from_mono) (use that(2) source_invalidate in metis)
  define go where "go fs1 c1 = (case hc_fetcher hc (fetch_request_get url) of
      Inr resp \<Rightarrow>
        (case crl_checker_new cd (rs_bytes resp) (hc_now_unix hc) (hc_verifier hc) of
           Inr ck \<Rightarrow> (crl_populate_cache cd put c1 resp ?key, crl_check_revocation cd ck cert iss)
         | Inl e \<Rightarrow> cached_crl_loop cd ops put hc cert iss dn all urls
             (fs1 @ [url @ '': CRL parse: '' @ display_revocation_error (show_serial_number cd) e]) c1)
    | Inl e \<Rightarrow> cached_crl_loop cd ops put hc cert iss dn all urls (fs1 @ [url @ '': '' @ display_fetch_error e]) c1)"
    for fs1 c1
  have go: "sourced_from ops hc c dn cd cert iss (url # urls) (snd (go fs1 c1))" if "c1 = c \<or> c1 = ?dropped" for fs1 c1
  proof (cases "hc_fetcher hc (fetch_request_get url)")
    case (Inl e)
    show ?thesis unfolding go_def Inl sum.case by (rule mono [OF Cons.IH that])
  next
    case resp: (Inr resp)
    show ?thesis
    proof (cases "crl_checker_new cd (rs_bytes resp) (hc_now_unix hc) (hc_verifier hc)")
      case (Inl e)
      show ?thesis unfolding go_def resp Inl sum.case by (rule mono [OF Cons.IH that])
    next
      case (Inr ck)
      have "crl_source ops hc c dn url (rs_bytes resp)" by (simp add: crl_source_def resp)
      then show ?thesis unfolding go_def resp sum.case Inr snd_conv using Inr by (intro sourced_fromI) simp_all
    qed
  qed
  have eq: "cached_crl_loop cd ops put hc cert iss dn all (url # urls) fs c =
      (case live_crl ops c ?key (hc_now_unix hc) of
         None \<Rightarrow> go fs c
       | Some cached \<Rightarrow>
           (case crl_checker_new cd (cc_bytes cached) (hc_now_unix hc) (hc_verifier hc) of
              Inr ck \<Rightarrow> (c, crl_check_revocation cd ck cert iss)
            | Inl e \<Rightarrow> go (fs @ [url @ '': cached CRL parse: '' @ display_revocation_error (show_serial_number cd) e]) ?dropped))"
    unfolding go_def by (simp only: cached_crl_loop.simps Let_def)
  show ?case
  proof (cases "live_crl ops c ?key (hc_now_unix hc)")
    case None
    show ?thesis unfolding eq None option.case by (rule go) simp
  next
    case cached: (Some cached)
    show ?thesis
    proof (cases "crl_checker_new cd (cc_bytes cached) (hc_now_unix hc) (hc_verifier hc)")
      case (Inl e)
      show ?thesis unfolding eq cached Inl option.case sum.case by (rule go) simp
    next
      case (Inr ck)
      have "crl_source ops hc c dn url (cc_bytes cached)" by (simp add: crl_source_def cached)
      then show ?thesis unfolding eq cached option.case Inr sum.case snd_conv using Inr by (intro sourced_fromI) simp_all
    qed
  qed
qed

end

interpretation memory: crl_store in_memory put_crl_if_not_rollback
  by unfold_locales (auto simp: in_memory_def put_crl_if_not_rollback_def)

interpretation trait_object: crl_store in_memory "dyn_put_crl_guarded in_memory"
  by unfold_locales (auto simp: in_memory_def dyn_put_crl_guarded_def)


text \<open>
  C32. A verdict of the CRL checker with a cache, whatever the state of the cache, rests on bytes of one of the
  HTTP URLs the certificate advertises, cached under that URL and the issuer's name and not past their
  next update, or fetched now; they are a current CRL, signed by the issuer, and the verdict agrees with its
  entries.
\<close>

theorem cached_crl_verdict:
  assumes "verdict (snd (cached_crl_check cd in_memory put_crl_if_not_rollback hc c cert iss)) = Some b"
    and "extract_cdp_http_urls cd cert = Ok urls" and "urls \<noteq> []"
  shows "\<exists>url bs ck signer. url \<in> set urls \<and> is_http_uri url \<and>
     crl_source in_memory hc c (result_ok (enc_name cd (subject (tbs iss)))) url bs \<and>
     crl_checker_new cd bs (hc_now_unix hc) (hc_verifier hc) = Ok ck \<and>
     crl_authentic cd ck signer \<and> names_match (subject (tbs iss)) (issuer (tbs cert)) \<and> (b \<longleftrightarrow> crl_lists cd ck cert)"
proof -
  let ?dn = "result_ok (enc_name cd (subject (tbs iss)))"
  let ?r = "snd (cached_crl_loop cd in_memory put_crl_if_not_rollback hc cert iss ?dn urls urls [] c)"
  from assms have v: "verdict ?r = Some b" by (simp add: cached_crl_check_def)
  from memory.loop_sourced [of hc c ?dn cd cert iss urls urls "[]"] v obtain url bs ck where
    u: "url \<in> set urls" "crl_source in_memory hc c ?dn url bs"
      "crl_checker_new cd bs (hc_now_unix hc) (hc_verifier hc) = Ok ck" "?r = crl_check_revocation cd ck cert iss"
    unfolding sourced_from_def by (auto simp: all_failed_def)
  from u(1) assms(2) have "is_http_uri url"
    by (auto simp: extract_cdp_http_urls_def and_then_Ok_iff foldl_push_dp_iff split: option.splits)
  with u v crl_check_verdict [of cd ck cert iss b] show ?thesis by metis
qed

text \<open>Two CRLs of authority 1: number 5 revokes certificate 5, the older number 3 revokes nothing.\<close>

definition ex_http_codec :: http_codec where
  "ex_http_codec = chain_codec.extend
     (ex_chain_codec\<lparr> dec_crl := table_dec
          [([2], ex_crl 1 [ex_entry 5] [ex_ext OID_CRL_NUMBER [5]]), ([3], ex_crl 1 [] [ex_ext OID_CRL_NUMBER [3]])],
        dec_crl_dps := table_dec
          [([1], [\<lparr> dp_distribution_point = Some (FullName [UniformResourceIdentifier ''http://a'']) \<rparr>])] \<rparr>)
     (http_codec.fields (\<lambda>alg ic c. Err PublicKeyError) (\<lambda>ids. Err der_failed) (\<lambda>b. Err der_failed) (\<lambda>b. []))"

definition ex_cdp_cert :: certificate where
  "ex_cdp_cert = ex_cert 5 1 [(ex_ext OID_CRL_DISTRIBUTION_POINTS [1])\<lparr> critical := False \<rparr>]"

definition ex_stale_fetcher :: http_crl_fetcher where
  "ex_stale_fetcher = http_crl_fetcher_new (\<lambda>_. Ok \<lparr> rs_bytes = [3], rs_content_type = None \<rparr>) ex_verifier 150"

definition ex_cache :: in_memory_cache where
  "ex_cache = in_memory_cache_new\<lparr> im_crl := [ex_key_a \<mapsto> ex_cached 5 [2]] \<rparr>"

theorem cached_crl_verdict_witness:
  "\<exists>ck signer. crl_authentic ex_http_codec ck signer \<and> crl_lists ex_http_codec ck ex_cdp_cert"
proof -
  let ?c = "in_memory_cache_new\<lparr> im_crl := [ex_key_a \<mapsto> (ex_cached 5 [2])\<lparr> cc_next_update := Some 200 \<rparr>] \<rparr>"
  have "verdict (snd (cached_crl_check ex_http_codec in_memory put_crl_if_not_rollback ex_stale_fetcher ?c
      ex_cdp_cert (ex_ca 1 0 []))) = Some True" by code_simp
  moreover have "extract_cdp_http_urls ex_http_codec ex_cdp_cert = Ok [''http://a'']" by code_simp
  ultimately show ?thesis using cached_crl_verdict [of ex_http_codec ex_stale_fetcher ?c ex_cdp_cert "ex_ca 1 0 []" True "[''http://a'']"] by simp blast
qed

text \<open>
  The cache refuses a CRL with a lower number, but the checker still answers from it: the cached CRL
  revokes the certificate, its refresh goes backwards, and the certificate passes.
\<close>

lemma rolled_back_crl_decides:
  "is_rollback (im_crl ex_cache ex_key_a) (Some [3])"
  "map_ok (\<lambda>ck. crl_lists ex_http_codec ck ex_cdp_cert) (crl_checker_new ex_http_codec [2] 150 ex_verifier) = Ok True"
  "map_option cc_crl_number (im_crl (fst (cached_crl_check ex_http_codec in_memory put_crl_if_not_rollback
     ex_stale_fetcher ex_cache ex_cdp_cert (ex_ca 1 0 []))) ex_key_a) = Some (Some [5])"
  "snd (cached_crl_check ex_http_codec in_memory put_crl_if_not_rollback ex_stale_fetcher ex_cache
     ex_cdp_cert (ex_ca 1 0 [])) = Ok ()"
  by code_simp+

text \<open>
  The checkers over HTTP keep the default for a certificate issued by the anchor itself, so such a certificate
  is never looked up: the CRL its URL serves revokes it, and the chain is accepted.
\<close>

lemma anchored_leaf_unchecked:
  "map_ok (\<lambda>ck. crl_lists ex_http_codec ck ex_cdp_cert) (crl_checker_new ex_http_codec [2] 150 ex_verifier) = Ok True"
  "map_option is_ok (verify_chain ex_http_codec [ex_cdp_cert] [ex_anchor 1] ex_policy_150 ex_verifier
     (http_crl_revocation_checker ex_http_codec
       (http_crl_fetcher_new (\<lambda>_. Ok \<lparr> rs_bytes = [2], rs_content_type = None \<rparr>) ex_verifier 150))
     no_aia_fetcher) = Some True"
  by code_simp+

section \<open>An empty cache\<close>

lemma no_live_crl_loop:
  assumes "\<And>url. live_crl ops c (crl_key dn url) (hc_now_unix hc) = None"
  shows "snd (cached_crl_loop cd ops put hc cert iss dn all urls fs c) = http_crl_loop cd hc cert iss all urls fs"
  by (induction urls arbitrary: fs) (simp_all add: assms Let_def split: sum.splits)

lemma no_live_ocsp_loop:
  assumes "\<And>key. live_ocsp ops c key (ho_now_unix ho) = None"
  shows "snd (cached_ocsp_loop cd ops ho cert iss body ident all urls fs c) = http_ocsp_loop cd ho cert iss body all urls fs"
  by (induction urls arbitrary: fs) (simp_all add: assms Let_def OCSP_REQUEST_CT_def split: sum.splits)

text \<open>
  Over an empty cache the checkers with a cache answer as those without: the CRL checker always, the OCSP
  checker unless the request it has just built does not parse back.
\<close>

theorem empty_cache_transparent:
  "snd (cached_crl_check cd in_memory put hc in_memory_cache_new cert iss) = http_crl_check cd hc cert iss \<and>
   snd (cached_ocsp_check cd in_memory ho in_memory_cache_new cert iss) \<in>
     {http_ocsp_check cd ho cert iss} \<union>
     range (\<lambda>e. Err (RevocationFetchFailed (''OCSP request CertID extract failed: '' @ display_der_error e)))"
proof -
  have "live_crl in_memory in_memory_cache_new key now = None" "live_ocsp in_memory in_memory_cache_new key' now = None"
    for key key' now
    by (simp_all add: live_crl_def live_ocsp_def in_memory_def in_memory_cache_new_def split: option.splits)
  then show ?thesis
    by (simp add: cached_crl_check_def http_crl_check_def cached_ocsp_check_def http_ocsp_check_def
        no_live_crl_loop no_live_ocsp_loop split: sum.splits)
qed

end
