(* ===== verification/Simple.thy ===== *)
theory Simple
  imports ChainWalk Backends
begin

text \<open>
  The strict verifier \<open>pkix-chain-simple\<close>: a gate on the shape of the chain, on the algorithms and on the
  extensions of each certificate, before \<open>validate_path\<close> with the default signature verifier. The lemmas say
  what passes the gate, and that the gate lets no critical extension through that \<open>pkix-path\<close> does not handle.
\<close>

definition OID_RSA_PKCS1V15_SHA256 :: oid where "OID_RSA_PKCS1V15_SHA256 = [1, 2, 840, 113549, 1, 1, 11]"
definition OID_ECDSA_P256_SHA256_simple :: oid where "OID_ECDSA_P256_SHA256_simple = [1, 2, 840, 10045, 4, 3, 2]"

definition ALLOWED_SIG_ALGS :: "oid list" where
  "ALLOWED_SIG_ALGS = [OID_RSA_PKCS1V15_SHA256, OID_ECDSA_P256_SHA256_simple]"

definition OID_EXT_BASIC_CONSTRAINTS :: oid where "OID_EXT_BASIC_CONSTRAINTS = [2, 5, 29, 19]"
definition OID_EXT_KEY_USAGE :: oid where "OID_EXT_KEY_USAGE = [2, 5, 29, 15]"
definition OID_EXT_EXTENDED_KEY_USAGE :: oid where "OID_EXT_EXTENDED_KEY_USAGE = [2, 5, 29, 37]"
definition OID_EXT_SUBJECT_ALT_NAME :: oid where "OID_EXT_SUBJECT_ALT_NAME = [2, 5, 29, 17]"
definition OID_EXT_SUBJECT_KEY_ID :: oid where "OID_EXT_SUBJECT_KEY_ID = [2, 5, 29, 14]"
definition OID_EXT_AUTHORITY_KEY_ID :: oid where "OID_EXT_AUTHORITY_KEY_ID = [2, 5, 29, 35]"
definition OID_EXT_CRL_DISTRIBUTION_POINTS :: oid where "OID_EXT_CRL_DISTRIBUTION_POINTS = [2, 5, 29, 31]"
definition OID_EXT_AUTHORITY_INFO_ACCESS :: oid where "OID_EXT_AUTHORITY_INFO_ACCESS = [1, 3, 6, 1, 5, 5, 7, 1, 1]"
definition OID_EXT_CERTIFICATE_POLICIES :: oid where "OID_EXT_CERTIFICATE_POLICIES = [2, 5, 29, 32]"
definition OID_EXT_POLICY_MAPPINGS :: oid where "OID_EXT_POLICY_MAPPINGS = [2, 5, 29, 33]"
definition OID_EXT_NAME_CONSTRAINTS :: oid where "OID_EXT_NAME_CONSTRAINTS = [2, 5, 29, 30]"
definition OID_EXT_POLICY_CONSTRAINTS :: oid where "OID_EXT_POLICY_CONSTRAINTS = [2, 5, 29, 36]"
definition OID_EXT_INHIBIT_ANY_POLICY :: oid where "OID_EXT_INHIBIT_ANY_POLICY = [2, 5, 29, 54]"
definition OID_EXT_ISSUER_ALT_NAME :: oid where "OID_EXT_ISSUER_ALT_NAME = [2, 5, 29, 18]"

lemmas ext_oid_defs =
  OID_EXT_BASIC_CONSTRAINTS_def OID_EXT_KEY_USAGE_def OID_EXT_EXTENDED_KEY_USAGE_def OID_EXT_SUBJECT_ALT_NAME_def
  OID_EXT_SUBJECT_KEY_ID_def OID_EXT_AUTHORITY_KEY_ID_def OID_EXT_CRL_DISTRIBUTION_POINTS_def
  OID_EXT_AUTHORITY_INFO_ACCESS_def OID_EXT_CERTIFICATE_POLICIES_def OID_EXT_POLICY_MAPPINGS_def
  OID_EXT_NAME_CONSTRAINTS_def OID_EXT_POLICY_CONSTRAINTS_def OID_EXT_INHIBIT_ANY_POLICY_def
  OID_EXT_ISSUER_ALT_NAME_def

definition ALLOWED_LEAF_EXTENSIONS :: "oid list" where
  "ALLOWED_LEAF_EXTENSIONS =
     [OID_EXT_BASIC_CONSTRAINTS, OID_EXT_KEY_USAGE, OID_EXT_EXTENDED_KEY_USAGE, OID_EXT_SUBJECT_ALT_NAME,
      OID_EXT_SUBJECT_KEY_ID, OID_EXT_AUTHORITY_KEY_ID, OID_EXT_CRL_DISTRIBUTION_POINTS,
      OID_EXT_AUTHORITY_INFO_ACCESS]"

definition ALLOWED_INTERMEDIATE_EXTENSIONS :: "oid list" where
  "ALLOWED_INTERMEDIATE_EXTENSIONS =
     [OID_EXT_BASIC_CONSTRAINTS, OID_EXT_KEY_USAGE, OID_EXT_SUBJECT_KEY_ID, OID_EXT_AUTHORITY_KEY_ID,
      OID_EXT_CRL_DISTRIBUTION_POINTS, OID_EXT_AUTHORITY_INFO_ACCESS, OID_EXT_CERTIFICATE_POLICIES,
      OID_EXT_POLICY_MAPPINGS, OID_EXT_NAME_CONSTRAINTS, OID_EXT_POLICY_CONSTRAINTS,
      OID_EXT_INHIBIT_ANY_POLICY, OID_EXT_EXTENDED_KEY_USAGE, OID_EXT_SUBJECT_ALT_NAME,
      OID_EXT_ISSUER_ALT_NAME]"

definition CRITICAL_OK_LEAF_EXTENSIONS :: "oid list" where
  "CRITICAL_OK_LEAF_EXTENSIONS =
     [OID_EXT_BASIC_CONSTRAINTS, OID_EXT_KEY_USAGE, OID_EXT_SUBJECT_ALT_NAME, OID_EXT_EXTENDED_KEY_USAGE]"

definition CRITICAL_OK_INTERMEDIATE_EXTENSIONS :: "oid list" where
  "CRITICAL_OK_INTERMEDIATE_EXTENSIONS =
     [OID_EXT_BASIC_CONSTRAINTS, OID_EXT_KEY_USAGE, OID_EXT_CERTIFICATE_POLICIES, OID_EXT_NAME_CONSTRAINTS,
      OID_EXT_POLICY_CONSTRAINTS, OID_EXT_INHIBIT_ANY_POLICY, OID_EXT_POLICY_MAPPINGS,
      OID_EXT_EXTENDED_KEY_USAGE, OID_EXT_SUBJECT_ALT_NAME]"

definition MAX_INTERMEDIATES :: nat where "MAX_INTERMEDIATES = 2"

datatype simple_error =
    EmptyChain
  | ChainTooLong nat
  | NoTrustAnchors
  | SimpleAlgorithmNotAllowed nat
  | SimpleUnhandledCriticalExtension nat
  | UnexpectedExtension nat
  | MissingRequiredExtension nat
  | LeafIsCA
  | SimplePath path_error

fun display_simple_error :: "simple_error \<Rightarrow> string" where
  "display_simple_error EmptyChain = ''chain is empty''"
| "display_simple_error (ChainTooLong len) =
     ''chain has '' @ show_nat len @ '' certificates; maximum is '' @ show_nat (1 + MAX_INTERMEDIATES)"
| "display_simple_error NoTrustAnchors = ''no trust anchors provided''"
| "display_simple_error (SimpleAlgorithmNotAllowed index) =
     ''certificate at index '' @ show_nat index @ '' uses a disallowed signature algorithm''"
| "display_simple_error (SimpleUnhandledCriticalExtension index) =
     ''certificate at index '' @ show_nat index @ '' has an unhandled critical extension''"
| "display_simple_error (UnexpectedExtension index) =
     ''certificate at index '' @ show_nat index @ '' has an unexpected extension''"
| "display_simple_error (MissingRequiredExtension index) =
     ''intermediate at index '' @ show_nat index @
     '' is missing a required extension (BasicConstraints cA=TRUE or KeyUsage keyCertSign)''"
| "display_simple_error LeafIsCA = ''end-entity certificate has BasicConstraints cA=TRUE''"
| "display_simple_error (SimplePath e) = ''path validation: '' @ display_path_error e"

definition check_algorithm :: "nat \<Rightarrow> certificate \<Rightarrow> simple_error + unit" where
  "check_algorithm index cert =
     (if alg_oid (signature_algorithm cert) \<notin> set ALLOWED_SIG_ALGS then Err (SimpleAlgorithmNotAllowed index)
      else Ok ())"

text \<open>The scan over all extensions: an unexpected and an unhandled critical one.\<close>

fun scan_extensions :: "oid list \<Rightarrow> oid list \<Rightarrow> extension list \<Rightarrow> bool \<times> bool \<Rightarrow> bool \<times> bool" where
  "scan_extensions allowed critical_ok [] flags = flags"
| "scan_extensions allowed critical_ok (ext # exts) (unexpected, unhandled_critical) =
     scan_extensions allowed critical_ok exts
       (if extn_id ext \<notin> set allowed then
          (if critical ext then (unexpected, True) else (True, unhandled_critical))
        else if critical ext \<and> extn_id ext \<notin> set critical_ok then (unexpected, True)
        else (unexpected, unhandled_critical))"

definition check_extensions :: "'x x509_codec_scheme \<Rightarrow> nat \<Rightarrow> certificate \<Rightarrow> bool \<Rightarrow> simple_error + unit" where
  "check_extensions cd index cert is_leaf =
     (let allowed = (if is_leaf then ALLOWED_LEAF_EXTENSIONS else ALLOWED_INTERMEDIATE_EXTENSIONS);
          critical_ok = (if is_leaf then CRITICAL_OK_LEAF_EXTENSIONS else CRITICAL_OK_INTERMEDIATE_EXTENSIONS)
      in case extensions (tbs cert) of
           None \<Rightarrow> if is_leaf then Ok () else Err (MissingRequiredExtension index)
         | Some exts \<Rightarrow>
             (let (unexpected, unhandled_critical) = scan_extensions allowed critical_ok exts (False, False)
              in if unhandled_critical then Err (SimpleUnhandledCriticalExtension index)
                 else if unexpected then Err (UnexpectedExtension index)
                 else if is_leaf then
                   (case find (\<lambda>e. extn_id e = OID_EXT_BASIC_CONSTRAINTS) exts of
                      None \<Rightarrow> Ok ()
                    | Some ext \<Rightarrow>
                        and_then (map_err (\<lambda>e. SimplePath (Der e)) (dec_basic_constraints cd (extn_value ext))) (\<lambda>bc.
                          if bc_ca bc then Err LeafIsCA else Ok ()))
                 else
                   and_then (ok_or (MissingRequiredExtension index)
                     (find (\<lambda>e. extn_id e = OID_EXT_BASIC_CONSTRAINTS) exts)) (\<lambda>bc_ext.
                   and_then (map_err (\<lambda>e. SimplePath (Der e)) (dec_basic_constraints cd (extn_value bc_ext))) (\<lambda>bc.
                     if \<not> bc_ca bc then Err (MissingRequiredExtension index)
                     else
                       and_then (ok_or (MissingRequiredExtension index)
                         (find (\<lambda>e. extn_id e = OID_EXT_KEY_USAGE) exts)) (\<lambda>ku_ext.
                       and_then (map_err (\<lambda>e. SimplePath (Der e)) (dec_key_usage cd (extn_value ku_ext))) (\<lambda>ku.
                         if \<not> ku_key_cert_sign ku then Err (MissingRequiredExtension index) else Ok ()))))))"

definition verify_simple ::
  "'x x509_codec_scheme \<Rightarrow> crypto_backends \<Rightarrow> certificate list \<Rightarrow> trust_anchor list \<Rightarrow> u64
     \<Rightarrow> simple_error + validated_path" where
  "verify_simple cd cb chain anchors now_unix =
     (if chain = [] then Err EmptyChain
      else if length chain > 1 + MAX_INTERMEDIATES then Err (ChainTooLong (length chain))
      else if anchors = [] then Err NoTrustAnchors
      else
        and_then (try_all (\<lambda>(i, cert).
            and_then (check_algorithm i cert) (\<lambda>_. check_extensions cd i cert (i = 0))) (enumerate 0 chain)) (\<lambda>_.
          let policy = (validation_policy_new now_unix)\<lparr> max_path_len := word_of_nat MAX_INTERMEDIATES \<rparr>
          in map_err SimplePath (validate_path cd chain anchors policy (default_verifier cb))))"

section \<open>What passes the gate\<close>

lemma scan_extensions_iff:
  "scan_extensions allowed critical_ok exts flags = (False, False) \<longleftrightarrow>
     flags = (False, False) \<and>
     list_all (\<lambda>e. extn_id e \<in> set allowed \<and> (if critical e then extn_id e \<in> set critical_ok else True)) exts"
  by (induction exts flags rule: scan_extensions.induct) auto

definition alg_allowed :: "certificate \<Rightarrow> bool" where
  "alg_allowed cert \<longleftrightarrow> alg_oid (signature_algorithm cert) \<in> {[1, 2, 840, 113549, 1, 1, 11], [1, 2, 840, 10045, 4, 3, 2]}"

definition exts_within :: "oid list \<Rightarrow> oid list \<Rightarrow> certificate \<Rightarrow> bool" where
  "exts_within allowed critical_ok cert \<longleftrightarrow>
     list_all (\<lambda>e. extn_id e \<in> set (if critical e then critical_ok else allowed)) (cert_exts cert)"

text \<open>A leaf of a simple chain, and an intermediate.\<close>

definition simple_leaf :: "'x x509_codec_scheme \<Rightarrow> certificate \<Rightarrow> bool" where
  "simple_leaf cd cert \<longleftrightarrow>
     alg_allowed cert \<and> exts_within ALLOWED_LEAF_EXTENSIONS CRITICAL_OK_LEAF_EXTENSIONS cert \<and>
     (case try_find_cert_ext (dec_basic_constraints cd) cert OID_BASIC_CONSTRAINTS of
        Inl _ \<Rightarrow> False | Inr None \<Rightarrow> True | Inr (Some bc) \<Rightarrow> \<not> bc_ca bc)"

definition simple_intermediate :: "'x x509_codec_scheme \<Rightarrow> certificate \<Rightarrow> bool" where
  "simple_intermediate cd cert \<longleftrightarrow>
     alg_allowed cert \<and> exts_within ALLOWED_INTERMEDIATE_EXTENSIONS CRITICAL_OK_INTERMEDIATE_EXTENSIONS cert \<and>
     (\<exists>bc. try_find_cert_ext (dec_basic_constraints cd) cert OID_BASIC_CONSTRAINTS = Ok (Some bc) \<and> bc_ca bc) \<and>
     (\<exists>ku. try_find_cert_ext (dec_key_usage cd) cert OID_KEY_USAGE = Ok (Some ku) \<and> ku_key_cert_sign ku)"

lemma critical_ok_allowed:
  "oid \<in> set CRITICAL_OK_LEAF_EXTENSIONS \<Longrightarrow> oid \<in> set ALLOWED_LEAF_EXTENSIONS"
  "oid \<in> set CRITICAL_OK_INTERMEDIATE_EXTENSIONS \<Longrightarrow> oid \<in> set ALLOWED_INTERMEDIATE_EXTENSIONS"
  by (auto simp: CRITICAL_OK_LEAF_EXTENSIONS_def ALLOWED_LEAF_EXTENSIONS_def
      CRITICAL_OK_INTERMEDIATE_EXTENSIONS_def ALLOWED_INTERMEDIATE_EXTENSIONS_def)

lemma scan_exts_within:
  assumes "set critical_ok \<subseteq> set allowed" and "extensions (tbs cert) = Some exts"
  shows "scan_extensions allowed critical_ok exts (False, False) = (False, False) \<longleftrightarrow> exts_within allowed critical_ok cert"
  using assms(1) by (auto simp: scan_extensions_iff exts_within_def cert_exts_def assms(2) list_all_iff)

lemma check_algorithm_Ok: "check_algorithm i cert = Inr u \<longleftrightarrow> alg_allowed cert"
  by (auto simp: check_algorithm_def alg_allowed_def ALLOWED_SIG_ALGS_def OID_RSA_PKCS1V15_SHA256_def
      OID_ECDSA_P256_SHA256_simple_def)

lemma find_ext_of_extensions:
  assumes "extensions (tbs cert) = Some exts"
  shows "find (\<lambda>e. extn_id e = OID_EXT_BASIC_CONSTRAINTS) exts = find_ext cert OID_BASIC_CONSTRAINTS"
    and "find (\<lambda>e. extn_id e = OID_EXT_KEY_USAGE) exts = find_ext cert OID_KEY_USAGE"
  by (simp_all add: find_ext_def cert_exts_def assms ext_oid_defs oid_defs)

lemma check_extensions_leaf:
  "check_extensions cd i cert True = Inr u \<and> alg_allowed cert \<longleftrightarrow> simple_leaf cd cert"
proof (cases "extensions (tbs cert)")
  case None
  then show ?thesis
    by (simp add: check_extensions_def simple_leaf_def exts_within_def cert_exts_def try_find_cert_ext_def find_ext_def)
next
  case (Some exts)
  have within: "scan_extensions ALLOWED_LEAF_EXTENSIONS CRITICAL_OK_LEAF_EXTENSIONS exts (False, False) = (False, False)
      \<longleftrightarrow> exts_within ALLOWED_LEAF_EXTENSIONS CRITICAL_OK_LEAF_EXTENSIONS cert"
    using Some critical_ok_allowed(1) by (intro scan_exts_within) auto
  show ?thesis
    by (auto simp: check_extensions_def Some find_ext_of_extensions [OF Some] simple_leaf_def within [symmetric]
        try_find_cert_ext_def map_ok_def and_then_Ok_iff split: option.splits prod.splits sum.splits)
qed

lemma check_extensions_intermediate:
  "check_extensions cd i cert False = Inr u \<and> alg_allowed cert \<longleftrightarrow> simple_intermediate cd cert"
proof (cases "extensions (tbs cert)")
  case None
  then show ?thesis
    by (simp add: check_extensions_def simple_intermediate_def try_find_cert_ext_def find_ext_def cert_exts_def)
next
  case (Some exts)
  have within: "scan_extensions ALLOWED_INTERMEDIATE_EXTENSIONS CRITICAL_OK_INTERMEDIATE_EXTENSIONS exts (False, False) = (False, False)
      \<longleftrightarrow> exts_within ALLOWED_INTERMEDIATE_EXTENSIONS CRITICAL_OK_INTERMEDIATE_EXTENSIONS cert"
    using Some critical_ok_allowed(2) by (intro scan_exts_within) auto
  show ?thesis
    by (auto simp: check_extensions_def Some find_ext_of_extensions [OF Some] simple_intermediate_def within [symmetric]
        try_find_cert_ext_Some_iff and_then_Ok_iff split: prod.splits if_splits)
qed

lemma gate_Ok:
  "try_all (\<lambda>(i, cert). and_then (check_algorithm i cert) (\<lambda>_. check_extensions cd i cert (i = 0)))
     (enumerate 0 (leaf # cas)) = Inr u \<longleftrightarrow>
   simple_leaf cd leaf \<and> list_all (simple_intermediate cd) cas"
proof -
  let ?f = "\<lambda>(i, cert). and_then (check_algorithm i cert) (\<lambda>_. check_extensions cd i cert (i = 0))"
  have leaf: "?f (0, leaf) = Ok () \<longleftrightarrow> simple_leaf cd leaf"
    using check_extensions_leaf [of cd 0 leaf "()"] by (auto simp: and_then_Ok_iff check_algorithm_Ok)
  have "?f x = Ok () \<longleftrightarrow> simple_intermediate cd (snd x)" if "x \<in> set (enumerate 1 cas)" for x
    using that check_extensions_intermediate [of cd "fst x" "snd x" "()"]
    by (auto simp: and_then_Ok_iff check_algorithm_Ok in_set_enumerate_eq split: prod.splits)
  then have tail: "(\<forall>x\<in>set (enumerate 1 cas). ?f x = Ok ()) \<longleftrightarrow> list_all (simple_intermediate cd) (map snd (enumerate 1 cas))"
    unfolding list_all_iff set_map by blast
  have "try_all ?f (enumerate 0 (leaf # cas)) = Inr u \<longleftrightarrow>
      ?f (0, leaf) = Ok () \<and> (\<forall>x\<in>set (enumerate 1 cas). ?f x = Ok ())"
    unfolding try_all_Ok_iff by simp
  then show ?thesis unfolding leaf tail map_snd_enumerate .
qed

text \<open>
  C35. The strict verifier accepts a chain exactly when it has one to three certificates, its first is a simple
  leaf and the others are simple intermediates, and \<open>pkix-path\<close> accepts it, with at most two intermediates
  and the default signature verifier; the result is then that of \<open>pkix-path\<close>. A leaf may have eight extension types
  and an intermediate fourteen, the allowlists of the code and of the documentation in \<open>lib.rs\<close>; the README lists six
  for intermediates. The name constraints and policies of \<open>pkix-path\<close> apply, as the table of the README says and
  the limitations in \<open>lib.rs\<close> deny.
\<close>

theorem verify_simple_exact:
  "verify_simple cd cb chain anchors now_unix = Ok vp \<longleftrightarrow>
     length chain \<in> {1, 2, 3} \<and> anchors \<noteq> [] \<and>
     simple_leaf cd (hd chain) \<and> list_all (simple_intermediate cd) (tl chain) \<and>
     validate_path cd chain anchors ((validation_policy_new now_unix)\<lparr> max_path_len := 2 \<rparr>) (default_verifier cb) = Ok vp"
proof (cases chain)
  case Nil
  then show ?thesis by (simp add: verify_simple_def)
next
  case (Cons leaf cas)
  have len: "length chain > 1 + MAX_INTERMEDIATES \<longleftrightarrow> length chain \<notin> {1, 2, 3}"
    by (cases cas; cases "tl cas"; cases "tl (tl cas)") (simp_all add: Cons MAX_INTERMEDIATES_def)
  have policy: "(validation_policy_new now_unix)\<lparr> max_path_len := word_of_nat MAX_INTERMEDIATES \<rparr> =
      (validation_policy_new now_unix)\<lparr> max_path_len := 2 \<rparr>"
    by (simp add: MAX_INTERMEDIATES_def)
  show ?thesis
    unfolding verify_simple_def Let_def policy len unfolding Cons
    by (simp add: and_then_Ok_iff gate_Ok del: enumerate_simps)
qed

text \<open>A key identifier, distribution points or access information is refused when it is critical.\<close>

lemma critical_pointers_refused:
  assumes "e \<in> set (cert_exts cert)" "critical e"
    "extn_id e \<in> {OID_EXT_SUBJECT_KEY_ID, OID_EXT_AUTHORITY_KEY_ID, OID_EXT_CRL_DISTRIBUTION_POINTS, OID_EXT_AUTHORITY_INFO_ACCESS}"
  shows "\<not> simple_leaf cd cert \<and> \<not> simple_intermediate cd cert"
proof -
  have "extn_id e \<notin> set CRITICAL_OK_LEAF_EXTENSIONS \<union> set CRITICAL_OK_INTERMEDIATE_EXTENSIONS"
    using assms(3) by (auto simp: CRITICAL_OK_LEAF_EXTENSIONS_def CRITICAL_OK_INTERMEDIATE_EXTENSIONS_def ext_oid_defs)
  with assms(1,2) show ?thesis
    unfolding simple_leaf_def simple_intermediate_def exts_within_def list_all_iff by (metis UnCI)
qed

text \<open>What passes the gate is never refused by \<open>pkix-path\<close> for an unhandled critical extension.\<close>

lemma simple_criticals_handled:
  assumes "simple_leaf cd cert \<or> simple_intermediate cd cert"
  shows "check_critical_extensions cert i = Ok ()"
  using assms
  by (auto simp: check_critical_extensions_Ok simple_leaf_def simple_intermediate_def exts_within_def list_all_iff
      CRITICAL_OK_LEAF_EXTENSIONS_def CRITICAL_OK_INTERMEDIATE_EXTENSIONS_def HANDLED_CRITICAL_OIDS_def
      ext_oid_defs oid_defs split: if_splits)

end
