(* ===== verification/TrustStore.thy ===== *)
theory TrustStore
  imports PathTypes Aia
begin

text \<open>
  Loading of trust anchors, \<open>pkix-truststore\<close>: from PEM, from DER, from an iterator of DER items and from files
  read under a size cap. The file system and the decoders of \<open>x509-cert\<close> are parameters. The lemmas say what
  each loader accepts and which entry an error names, and that a file over the cap is never read further
  than one byte beyond it.
\<close>

section \<open>Errors\<close>

text \<open>The kinds of input and output errors, and their serialised form, are those of \<open>pkix-aia\<close>: the module is duplicated.\<close>

record io_error =
  ie_kind :: io_error_kind
  ie_message :: string

record io_failure =
  if_kind :: io_error_kind
  if_message :: string

definition io_failure_from_io :: "io_error \<Rightarrow> io_failure" where
  "io_failure_from_io e = \<lparr> if_kind = ie_kind e, if_message = ie_message e \<rparr>"

datatype store_error =
    StoreIo io_failure
  | StorePem der_error
  | StoreDer der_error
  | NoCertificates
  | MalformedAnchor nat der_error

fun display_store_error :: "store_error \<Rightarrow> string" where
  "display_store_error (StoreIo e) = ''i/o error: '' @ if_message e"
| "display_store_error (StorePem e) = ''PEM decoding failed: '' @ display_der_error e"
| "display_store_error (StoreDer e) = ''DER decoding failed: '' @ display_der_error e"
| "display_store_error NoCertificates =
     ''input contained no certificates (no `-----BEGIN CERTIFICATE-----` marker; '' @
     ''if the input is non-PEM the loader cannot tell)''"
| "display_store_error (MalformedAnchor index e) =
     ''malformed certificate at position '' @ show_nat index @ '': '' @ display_der_error e"

section \<open>Decoding\<close>

text \<open>
  \<open>Certificate::from_der\<close>, and \<open>Certificate::load_pem_chain\<close> with, for an error, whether its kind is of the
  \<open>Pem\<close> family.
\<close>

record store_codec = x509_codec +
  cert_from_der :: "bytes \<Rightarrow> der_error + certificate"
  load_pem_chain :: "bytes \<Rightarrow> (bool \<times> der_error) + certificate list"

definition UTF8_BOM :: bytes where "UTF8_BOM = [0xEF, 0xBB, 0xBF]"

definition BEGIN_BOUNDARY :: bytes where "BEGIN_BOUNDARY = map of_char ''-----BEGIN CERTIFICATE-----''"

fun strip_prefix_bytes :: "bytes \<Rightarrow> bytes \<Rightarrow> bytes option" where
  "strip_prefix_bytes [] bs = Some bs"
| "strip_prefix_bytes (p # ps) [] = None"
| "strip_prefix_bytes (p # ps) (b # bs) = (if p = b then strip_prefix_bytes ps bs else None)"

definition strip_bom :: "bytes \<Rightarrow> bytes" where
  "strip_bom bs = unwrap_or bs (strip_prefix_bytes UTF8_BOM bs)"

fun any_window :: "bytes \<Rightarrow> bytes \<Rightarrow> bool" where
  "any_window w [] = (w = [])"
| "any_window w (b # bs) = (take (length w) (b # bs) = w \<or> any_window w bs)"

definition map_pem_chain_error :: "bool \<times> der_error \<Rightarrow> store_error" where
  "map_pem_chain_error e = (if fst e then StorePem (snd e) else StoreDer (snd e))"

fun collect_results :: "('a \<Rightarrow> 'e + 'b) \<Rightarrow> 'a list \<Rightarrow> 'e + 'b list" where
  "collect_results f [] = Ok []"
| "collect_results f (x # xs) = and_then (f x) (\<lambda>y. map_ok ((#) y) (collect_results f xs))"

definition store_from_pem :: "'x store_codec_scheme \<Rightarrow> bytes \<Rightarrow> store_error + trust_anchor list" where
  "store_from_pem cd input =
     (let bs = strip_bom input
      in if \<not> any_window BEGIN_BOUNDARY bs then Err NoCertificates
         else and_then (map_err map_pem_chain_error (load_pem_chain cd bs)) (\<lambda>certs.
           if certs = [] then Err NoCertificates
           else collect_results (\<lambda>c. map_err StoreDer (trust_anchor_try_from cd c)) certs))"

definition store_from_der :: "'x store_codec_scheme \<Rightarrow> bytes \<Rightarrow> store_error + trust_anchor" where
  "store_from_der cd bs =
     and_then (map_err StoreDer (cert_from_der cd bs)) (\<lambda>cert. map_err StoreDer (trust_anchor_try_from cd cert))"

definition decode_item :: "'x store_codec_scheme \<Rightarrow> nat \<times> bytes \<Rightarrow> store_error + trust_anchor" where
  "decode_item cd ib =
     and_then (map_err (MalformedAnchor (fst ib)) (cert_from_der cd (snd ib))) (\<lambda>cert.
       map_err (MalformedAnchor (fst ib)) (trust_anchor_try_from cd cert))"

definition from_der_iter :: "'x store_codec_scheme \<Rightarrow> bytes list \<Rightarrow> store_error + trust_anchor list" where
  "from_der_iter cd items =
     and_then (collect_results (decode_item cd) (enumerate 0 items)) (\<lambda>anchors.
       if anchors = [] then Err NoCertificates else Ok anchors)"

section \<open>Files\<close>

text \<open>
  An open file: its length according to its metadata, which can fail, and the read of at most \<open>n\<close> bytes
  (\<open>take(n).read_to_end\<close>). \<open>fs_open\<close> is \<open>File::open\<close>.
\<close>

record open_file =
  meta_len :: "io_error + u64"
  take_read :: "u64 \<Rightarrow> io_error + bytes"

type_synonym fs_open = "string \<Rightarrow> io_error + open_file"

definition DEFAULT_FILE_SIZE_CAP :: u64 where "DEFAULT_FILE_SIZE_CAP = 64 * 1024 * 1024"

definition store_io :: "io_error \<Rightarrow> store_error" where
  "store_io e = StoreIo (io_failure_from_io e)"

definition read_file_capped :: "fs_open \<Rightarrow> string \<Rightarrow> u64 \<Rightarrow> store_error + bytes" where
  "read_file_capped fs path cap =
     and_then (map_err store_io (fs path)) (\<lambda>file.
     and_then (case meta_len file of
         Inl _ \<Rightarrow> Ok ()
       | Inr len \<Rightarrow>
           if len > cap
           then Err (store_io \<lparr> ie_kind = InvalidData,
                  ie_message = ''trust-anchor file is '' @ show_nat (unat len) @ '' bytes; exceeds '' @
                    show_nat (unat cap) @ ''-byte cap'' \<rparr>)
           else Ok ()) (\<lambda>_.
     and_then (map_err store_io (take_read file (saturating_add cap 1))) (\<lambda>bs.
       if length bs > unat cap
       then Err (store_io \<lparr> ie_kind = InvalidData,
              ie_message = ''trust-anchor file exceeds '' @ show_nat (unat cap) @ ''-byte cap during read'' \<rparr>)
       else Ok bs)))"

definition from_pem_file_with_cap :: "'x store_codec_scheme \<Rightarrow> fs_open \<Rightarrow> string \<Rightarrow> u64 \<Rightarrow> store_error + trust_anchor list" where
  "from_pem_file_with_cap cd fs path cap = and_then (read_file_capped fs path cap) (store_from_pem cd)"

definition from_pem_file :: "'x store_codec_scheme \<Rightarrow> fs_open \<Rightarrow> string \<Rightarrow> store_error + trust_anchor list" where
  "from_pem_file cd fs path = from_pem_file_with_cap cd fs path DEFAULT_FILE_SIZE_CAP"

definition from_der_file_with_cap :: "'x store_codec_scheme \<Rightarrow> fs_open \<Rightarrow> string \<Rightarrow> u64 \<Rightarrow> store_error + trust_anchor" where
  "from_der_file_with_cap cd fs path cap = and_then (read_file_capped fs path cap) (store_from_der cd)"

definition from_der_file :: "'x store_codec_scheme \<Rightarrow> fs_open \<Rightarrow> string \<Rightarrow> store_error + trust_anchor" where
  "from_der_file cd fs path = from_der_file_with_cap cd fs path DEFAULT_FILE_SIZE_CAP"

section \<open>What the loaders accept\<close>

lemma collect_results_Ok:
  "collect_results f xs = Inr ys \<longleftrightarrow> list_all2 (\<lambda>x y. f x = Inr y) xs ys"
proof (induction xs arbitrary: ys)
  case (Cons x xs)
  have "collect_results f (x # xs) = Inr ys \<longleftrightarrow> (\<exists>z zs. f x = Inr z \<and> collect_results f xs = Inr zs \<and> ys = z # zs)"
    by (cases "collect_results f xs") (auto simp: and_then_Ok_iff)
  then show ?case by (auto simp: Cons.IH list_all2_Cons1)
qed auto

lemma collect_results_Err:
  "collect_results f xs = Inl e \<longleftrightarrow> (\<exists>as x bs. xs = as @ x # bs \<and> f x = Inl e \<and> list_all (\<lambda>a. is_ok (f a)) as)"
proof (induction xs)
  case (Cons y ys)
  show ?case
  proof (cases "f y")
    case (Inl e')
    have "(\<exists>as x bs. y # ys = as @ x # bs \<and> f x = Inl e \<and> list_all (\<lambda>a. is_ok (f a)) as) \<longleftrightarrow> e' = e"
    proof
      assume "\<exists>as x bs. y # ys = as @ x # bs \<and> f x = Inl e \<and> list_all (\<lambda>a. is_ok (f a)) as"
      then obtain as x bs where *: "y # ys = as @ x # bs" "f x = Inl e" "list_all (\<lambda>a. is_ok (f a)) as" by blast
      then show "e' = e" using Inl by (cases as) auto
    next
      assume "e' = e"
      then show "\<exists>as x bs. y # ys = as @ x # bs \<and> f x = Inl e \<and> list_all (\<lambda>a. is_ok (f a)) as"
        using Inl by (intro exI [of _ "[]"]) auto
    qed
    then show ?thesis using Inl by simp
  next
    case (Inr z)
    then have eq: "collect_results f (y # ys) = Inl e \<longleftrightarrow> collect_results f ys = Inl e"
      by (auto simp: map_ok_def split: sum.splits)
    show ?thesis unfolding eq Cons.IH
    proof safe
      fix as x bs
      assume "f x = Inl e" "list_all (\<lambda>a. is_ok (f a)) as" "ys = as @ x # bs"
      with Inr show "\<exists>as' x' bs'. y # as @ x # bs = as' @ x' # bs' \<and> f x' = Inl e \<and> list_all (\<lambda>a. is_ok (f a)) as'"
        by (intro exI [of _ "y # as"] exI [of _ x] exI [of _ bs]) simp
    next
      fix as x bs
      assume *: "y # ys = as @ x # bs" "f x = Inl e" "list_all (\<lambda>a. is_ok (f a)) as"
      with Inr show "\<exists>as x bs. ys = as @ x # bs \<and> f x = Inl e \<and> list_all (\<lambda>a. is_ok (f a)) as"
        by (cases as) auto
    qed
  qed
qed simp

lemma any_window_iff: "any_window w bs \<longleftrightarrow> (\<exists>as cs. bs = as @ w @ cs)"
proof (induction bs)
  case (Cons b bs)
  have "take (length w) (b # bs) = w \<longleftrightarrow> (\<exists>cs. b # bs = w @ cs)"
    by (metis append_eq_conv_conj append_take_drop_id)
  with Cons.IH show ?case by (auto simp: Cons_eq_append_conv)
qed simp

lemma strip_bom_at_most_once: "strip_bom (UTF8_BOM @ bs) = bs"
  by (simp add: strip_bom_def UTF8_BOM_def)

text \<open>
  Loading from an iterator keeps order and duplicates; an error names the position of the first malformed
  item, and everything before it was well formed.
\<close>

definition anchor_of :: "'x store_codec_scheme \<Rightarrow> bytes \<Rightarrow> der_error + trust_anchor" where
  "anchor_of cd bs = and_then (cert_from_der cd bs) (trust_anchor_try_from cd)"

lemma decode_item_eq: "decode_item cd (i, bs) = map_err (MalformedAnchor i) (anchor_of cd bs)"
  by (auto simp: decode_item_def anchor_of_def map_err_def and_then_def split: sum.splits)

lemma from_der_iter_Ok:
  "from_der_iter cd items = Ok anchors \<longleftrightarrow> items \<noteq> [] \<and> list_all2 (\<lambda>bs a. anchor_of cd bs = Ok a) items anchors"
proof -
  have "list_all2 (\<lambda>x y. decode_item cd x = Inr y) (enumerate n items) ys \<longleftrightarrow>
      list_all2 (\<lambda>bs a. anchor_of cd bs = Ok a) items ys" for n ys
    by (induction items arbitrary: n ys) (auto simp: list_all2_Cons1 decode_item_eq)
  then have "from_der_iter cd items = Ok anchors \<longleftrightarrow>
      list_all2 (\<lambda>bs a. anchor_of cd bs = Ok a) items anchors \<and> anchors \<noteq> []"
    by (auto simp: from_der_iter_def and_then_Ok_iff collect_results_Ok split: if_split_asm)
  then show ?thesis by auto
qed

lemma from_der_iter_malformed:
  assumes "from_der_iter cd items = Err (MalformedAnchor i e)"
  shows "i < length items \<and> anchor_of cd (items ! i) = Err e \<and> list_all (\<lambda>bs. is_ok (anchor_of cd bs)) (take i items)"
proof -
  from assms obtain as x bs where split: "enumerate 0 items = as @ x # bs"
    and x: "decode_item cd x = Inl (MalformedAnchor i e)" and as: "list_all (\<lambda>a. is_ok (decode_item cd a)) as"
    unfolding from_der_iter_def and_then_Err_iff collect_results_Err by (auto split: if_splits)
  let ?k = "length as"
  have k: "?k < length items" using arg_cong [OF split, of length] by simp
  have "x = enumerate 0 items ! ?k" unfolding split by simp
  with k have "x = (?k, items ! ?k)" by (simp add: nth_enumerate_eq)
  with x have i: "i = ?k" "anchor_of cd (items ! ?k) = Err e"
    by (auto simp: decode_item_eq map_err_def split: sum.splits)
  have "items = map snd (as @ x # bs)" by (metis split map_snd_enumerate)
  then have "take ?k items = map snd as" by simp
  moreover have "is_ok (anchor_of cd (snd a))" if "a \<in> set as" for a
    using as that by (cases a) (auto simp: list_all_iff decode_item_eq is_ok_iff)
  ultimately show ?thesis using i k by (auto simp: list_all_iff)
qed

text \<open>
  Reading under a cap, over a file whose bounded read of \<open>n\<close> bytes gives the first \<open>n\<close> of its content, returns
  the whole content when that fits and the metadata does not claim more, and otherwise fails; it never
  returns a truncated file.
\<close>

lemma read_file_capped_exact:
  assumes "fs path = Ok file" and "\<And>n. take_read file n = Ok (take (unat n) content)"
    and "length content < 2 ^ 64" and "case meta_len file of Inl _ \<Rightarrow> True | Inr len \<Rightarrow> unat len \<le> length content"
  shows "read_file_capped fs path cap =
     (if length content \<le> unat cap then Ok content
      else Err (StoreIo \<lparr> if_kind = InvalidData, if_message =
        (case meta_len file of
           Inr len \<Rightarrow> if cap < len
             then ''trust-anchor file is '' @ show_nat (unat len) @ '' bytes; exceeds '' @ show_nat (unat cap) @ ''-byte cap''
             else ''trust-anchor file exceeds '' @ show_nat (unat cap) @ ''-byte cap during read''
         | Inl _ \<Rightarrow> ''trust-anchor file exceeds '' @ show_nat (unat cap) @ ''-byte cap during read'') \<rparr>))"
proof -
  have less: "unat w < 2 ^ 64" for w :: u64 by (rule order.strict_trans2 [OF unsigned_less]) simp
  have bound: "unat (saturating_add cap 1) = min (unat cap + 1) (2 ^ 64 - 1)"
  proof (cases "cap = - 1")
    case True
    then show ?thesis
      by (simp add: saturating_add_def word_less_nat_alt unsigned_minus_1_eq_mask mask_eq_exp_minus_1)
  next
    case False
    then have "unat (cap + 1) = unat cap + 1" by (metis add.commute add.inverse_unique unatSuc Suc_eq_plus1)
    moreover from this have "\<not> cap + 1 < cap" by (simp add: word_less_nat_alt)
    moreover have "unat cap + 1 \<le> 2 ^ 64 - 1"
      using \<open>unat (cap + 1) = unat cap + 1\<close> less [of "cap + 1"] by simp
    ultimately show ?thesis by (simp add: saturating_add_def)
  qed
  have content: "length (take (unat (saturating_add cap 1)) content) > unat cap \<longleftrightarrow> length content > unat cap"
    using assms(3) less [of cap] unfolding bound by auto
  moreover have "take (unat (saturating_add cap 1)) content = content" if "length content \<le> unat cap"
    using that assms(3) unfolding bound by auto
  ultimately show ?thesis
    using assms(1,2,4)
    by (auto simp: read_file_capped_def store_io_def io_failure_from_io_def word_less_nat_alt simp del: length_take split: sum.splits)
qed

end
