(* ===== verification/OscalEmit.thy ===== *)
theory OscalEmit
  imports Deviation
begin

unbundle bit_operations_syntax

text \<open>
  The OSCAL documents \<open>pkix-lint\<close> writes: assessment results from an evaluation report, the risks of a store of
  deviations (\<open>oscal/emit.rs\<close>), the catalog of a set of lints (\<open>oscal/catalog.rs\<close>), and the report itself
  (\<open>report.rs\<close>). A JSON value is a datatype whose objects are finite maps, so that equality is that of
  \<open>serde_json\<close>; how a value is printed is not part of the model.
\<close>

section \<open>JSON\<close>

datatype json =
    JNull
  | JBool bool
  | JNumber int
  | JString string
  | JArray "json list"
  | JObject "string \<Rightarrow> json option"

fun as_str :: "json \<Rightarrow> string option" where
  "as_str (JString s) = Some s"
| "as_str _ = None"

fun as_array :: "json \<Rightarrow> json list option" where
  "as_array (JArray xs) = Some xs"
| "as_array _ = None"

fun as_object :: "json \<Rightarrow> (string \<Rightarrow> json option) option" where
  "as_object (JObject m) = Some m"
| "as_object _ = None"

text \<open>The field of a value, as \<open>Value::get\<close>, and the update \<open>value[k] = v\<close> of an object.\<close>

definition json_get :: "string \<Rightarrow> json \<Rightarrow> json option" where
  "json_get k v = Option.bind (as_object v) (\<lambda>m. m k)"

fun json_set :: "string \<Rightarrow> json \<Rightarrow> json \<Rightarrow> json" where
  "json_set k v (JObject m) = JObject (m(k \<mapsto> v))"
| "json_set k v other = other"

definition str_bytes :: "string \<Rightarrow> bytes" where "str_bytes s = map of_char s"

definition le_bytes :: "nat \<Rightarrow> nat \<Rightarrow> bytes" where "le_bytes n v = rev (be_bytes n v)"

section \<open>The report\<close>

record evaluation_report =
  er_profile_id :: string
  er_profile_version :: string
  er_rule_bundle_version :: string
  er_chain_length :: nat
  er_evaluated_at_unix :: u64
  er_findings :: "finding list"
  er_deviated_findings :: "deviated_finding list"

fun severity_of :: "lint_result \<Rightarrow> severity option" where
  "severity_of (LintWarn _) = Some SevWarn"
| "severity_of (LintError _) = Some SevError"
| "severity_of (LintFatal _) = Some SevFatal"
| "severity_of _ = None"

definition evaluation_report_new :: "string \<Rightarrow> string \<Rightarrow> string \<Rightarrow> nat \<Rightarrow> u64 \<Rightarrow> evaluation_report" where
  "evaluation_report_new pid version bundle_version len at =
     \<lparr> er_profile_id = pid, er_profile_version = version, er_rule_bundle_version = bundle_version,
       er_chain_length = len, er_evaluated_at_unix = at, er_findings = [], er_deviated_findings = [] \<rparr>"

definition has_findings :: "evaluation_report \<Rightarrow> bool" where
  "has_findings r = list_ex finding_is_finding (er_findings r)"

definition findings_at_or_above :: "evaluation_report \<Rightarrow> severity \<Rightarrow> finding list" where
  "findings_at_or_above r min_severity =
     filter (\<lambda>f. case severity_of (fd_result f) of None \<Rightarrow> False
               | Some s \<Rightarrow> severity_rank s \<ge> severity_rank min_severity) (er_findings r)"

section \<open>Helpers of the emitters\<close>

definition OSCAL_VERSION :: string where "OSCAL_VERSION = ''1.1.2''"
definition SUPPORTED_OSCAL_VERSIONS :: "string list" where "SUPPORTED_OSCAL_VERSIONS = [OSCAL_VERSION]"

definition REPORT_TITLE :: string where "REPORT_TITLE = ''pkix-lint Assessment Results''"
definition NS_REPORT :: string where "NS_REPORT = ''pkix-lint.oscal.report''"
definition NS_RESULT :: string where "NS_RESULT = ''pkix-lint.oscal.result''"
definition NS_OBSERVATION :: string where "NS_OBSERVATION = ''pkix-lint.oscal.observation''"
definition NS_FINDING :: string where "NS_FINDING = ''pkix-lint.oscal.finding''"
definition NS_RISK :: string where "NS_RISK = ''pkix-lint.oscal.risk''"
definition NS_RISK_POLICY :: string where "NS_RISK_POLICY = ''pkix-lint.oscal.risk.policy''"

definition oscal_prop :: "string \<Rightarrow> string \<Rightarrow> json" where
  "oscal_prop name v =
     JObject [''name'' \<mapsto> JString name, ''value'' \<mapsto> JString v,
              ''ns'' \<mapsto> JString ''https://pkix.rs/oscal/pkix-lint'']"

definition hex :: "bytes \<Rightarrow> string" where
  "hex bs = concat (map (\<lambda>b. [hex_digit (unat (drop_bit 4 b)), hex_digit (unat (b AND 0x0F))]) bs)"

definition uuid_v8 :: "'x ct_codec_scheme \<Rightarrow> string \<Rightarrow> bytes \<Rightarrow> string" where
  "uuid_v8 cd namespace seed =
     (let digest = sha256 cd (str_bytes namespace @ [0] @ seed);
          bs = take 16 digest;
          bs = bs[6 := (bs ! 6 AND 0x0F) OR 0x80];
          bs = bs[8 := (bs ! 8 AND 0x3F) OR 0x80]
      in hex (take 4 bs) @ ''-'' @ hex (take 2 (drop 4 bs)) @ ''-'' @ hex (take 2 (drop 6 bs)) @ ''-'' @
         hex (take 2 (drop 8 bs)) @ ''-'' @ hex (take 6 (drop 10 bs)))"

definition pad0 :: "nat \<Rightarrow> string \<Rightarrow> string" where
  "pad0 n s = replicate (n - length s) (CHR ''0'') @ s"

text \<open>The computation in \<open>i64\<close>; every value is non-negative, where the division of Rust is \<open>div\<close>.\<close>

definition civil_from_days :: "nat \<Rightarrow> nat \<times> nat \<times> nat" where
  "civil_from_days days_since_epoch =
     (let z = days_since_epoch + 719468;
          era = z div 146097;
          doe = z - era * 146097;
          yoe = (doe - doe div 1460 + doe div 36524 - doe div 146096) div 365;
          y = yoe + era * 400;
          doy = doe - (365 * yoe + yoe div 4 - yoe div 100);
          mp = (5 * doy + 2) div 153;
          d = doy - (153 * mp + 2) div 5 + 1;
          m = (if mp < 10 then mp + 3 else mp - 9)
      in (if m \<le> 2 then y + 1 else y, m, d))"

definition unix_to_rfc3339 :: "u64 \<Rightarrow> string" where
  "unix_to_rfc3339 unix =
     (let unix_i64 = min (unat unix) (2 ^ 63 - 1);
          secs_of_day = unix_i64 mod 86400;
          (year, m, d) = civil_from_days (unix_i64 div 86400)
      in pad0 4 (show_nat year) @ ''-'' @ pad0 2 (show_nat m) @ ''-'' @ pad0 2 (show_nat d) @ ''T'' @
         pad0 2 (show_nat (secs_of_day div 3600)) @ '':'' @ pad0 2 (show_nat (secs_of_day mod 3600 div 60)) @ '':'' @
         pad0 2 (show_nat (secs_of_day mod 60)) @ ''Z'')"

fun lint_result_severity_label :: "lint_result \<Rightarrow> string" where
  "lint_result_severity_label LintPass = ''pass''"
| "lint_result_severity_label NotApplicable = ''not-applicable''"
| "lint_result_severity_label (LintWarn _) = ''warn''"
| "lint_result_severity_label (LintError _) = ''error''"
| "lint_result_severity_label (LintFatal _) = ''fatal''"

fun deviation_action_label :: "deviation_action \<Rightarrow> string" where
  "deviation_action_label Suppress = ''suppress''"
| "deviation_action_label (DowngradeSeverityTo _) = ''downgrade''"

fun oscal_severity_label :: "severity \<Rightarrow> string" where
  "oscal_severity_label Info = ''info''"
| "oscal_severity_label Notice = ''notice''"
| "oscal_severity_label SevWarn = ''warn''"
| "oscal_severity_label SevError = ''error''"
| "oscal_severity_label SevFatal = ''fatal''"

fun scope_label :: "lint_scope \<Rightarrow> string" where
  "scope_label CertificateScope = ''certificate''"
| "scope_label PathScope = ''path''"

fun subject_kind_label :: "subject_kind \<Rightarrow> string" where
  "subject_kind_label Leaf = ''leaf''"
| "subject_kind_label IntermediateCa = ''intermediate-ca''"
| "subject_kind_label AnchorIssued = ''anchor-issued''"
| "subject_kind_label AnyKind = ''any''"

section \<open>Seeds of the identifiers\<close>

definition report_seed :: "evaluation_report \<Rightarrow> bytes" where
  "report_seed r =
     str_bytes (er_profile_id r) @ [0] @ str_bytes (er_profile_version r) @ [0] @
     str_bytes (er_rule_bundle_version r) @ [0] @ le_bytes 8 (er_chain_length r) @
     le_bytes 8 (unat (er_evaluated_at_unix r))"

definition finding_seed :: "bytes \<Rightarrow> nat \<Rightarrow> finding \<Rightarrow> bytes" where
  "finding_seed rseed i f =
     rseed @ le_bytes 8 i @ str_bytes (fd_lint_id f) @ [0] @
     [of_char (hd (lint_result_severity_label (fd_result f)))] @
     (case result_detail (fd_result f) of None \<Rightarrow> [] | Some d \<Rightarrow> str_bytes d) @
     (case fd_cert_index f of None \<Rightarrow> [] | Some idx \<Rightarrow> le_bytes 8 idx) @
     (case fd_cert_sha256 f of None \<Rightarrow> [] | Some h \<Rightarrow> h)"

definition risk_seed :: "bytes \<Rightarrow> nat \<Rightarrow> deviated_finding \<Rightarrow> bytes" where
  "risk_seed rseed i df =
     rseed @ le_bytes 8 i @ str_bytes (df_lint_id df) @ [0] @ str_bytes (df_deviation_id df) @ [0] @
     str_bytes (deviation_action_label (df_action df))"

definition subject_seed :: "bytes \<Rightarrow> nat \<Rightarrow> bytes" where
  "subject_seed rseed cert_index = rseed @ le_bytes 8 cert_index"

section \<open>Assessment results\<close>

record evidence_key =
  ek_cert_sha256 :: "bytes option"
  ek_cert_index :: "nat option"

definition from_finding :: "finding \<Rightarrow> evidence_key" where
  "from_finding f = \<lparr> ek_cert_sha256 = fd_cert_sha256 f, ek_cert_index = fd_cert_index f \<rparr>"

definition evidence_seed :: "evidence_key \<Rightarrow> bytes \<Rightarrow> bytes" where
  "evidence_seed key rseed =
     rseed @ (case ek_cert_sha256 key of Some h \<Rightarrow> 1 # h | None \<Rightarrow> [0]) @
     (case ek_cert_index key of Some i \<Rightarrow> 1 # le_bytes 8 i | None \<Rightarrow> [0])"

fun evidence_loop :: "finding list \<Rightarrow> evidence_key list \<Rightarrow> evidence_key list" where
  "evidence_loop [] keys = keys"
| "evidence_loop (f # fs) keys =
     evidence_loop fs (let k = from_finding f in if k \<in> set keys then keys else keys @ [k])"

definition evidence_index_build :: "finding list \<Rightarrow> evidence_key list" where
  "evidence_index_build fs = evidence_loop fs []"

definition observation_uuid :: "'x ct_codec_scheme \<Rightarrow> bytes \<Rightarrow> finding \<Rightarrow> string" where
  "observation_uuid cd rseed f = uuid_v8 cd NS_OBSERVATION (evidence_seed (from_finding f) rseed)"

definition observation_for_evidence :: "'x ct_codec_scheme \<Rightarrow> evidence_key \<Rightarrow> bytes \<Rightarrow> string \<Rightarrow> json" where
  "observation_for_evidence cd key rseed collected =
     (let props =
            (case ek_cert_sha256 key of Some h \<Rightarrow> [oscal_prop ''pkix-lint.cert-sha256'' (hex h)] | None \<Rightarrow> []) @
            (case ek_cert_index key of Some i \<Rightarrow> [oscal_prop ''pkix-lint.cert-index'' (show_nat i)] | None \<Rightarrow> []);
          description =
            (case (ek_cert_index key, ek_cert_sha256 key) of
               (Some idx, Some _) \<Rightarrow> ''Certificate at chain index '' @ show_nat idx @ '' (identified by SHA-256 digest)''
             | (Some idx, None) \<Rightarrow> ''Certificate at chain index '' @ show_nat idx
             | (None, Some _) \<Rightarrow> ''Certificate identified by SHA-256 digest''
             | (None, None) \<Rightarrow> ''Path-scope evidence: the validated certificate chain as a whole'');
          obs = JObject
            [''uuid'' \<mapsto> JString (uuid_v8 cd NS_OBSERVATION (evidence_seed key rseed)),
             ''methods'' \<mapsto> JArray [JString ''EXAMINE''], ''collected'' \<mapsto> JString collected,
             ''description'' \<mapsto> JString description, ''props'' \<mapsto> JArray props]
      in case ek_cert_index key of
           None \<Rightarrow> obs
         | Some idx \<Rightarrow>
             json_set ''subjects'' (JArray [JObject
               [''type'' \<mapsto> JString ''component'',
                ''subject-uuid'' \<mapsto> JString (uuid_v8 cd ''pkix-lint.oscal.subject.cert'' (subject_seed rseed idx)),
                ''title'' \<mapsto> JString (''Certificate at chain index '' @ show_nat idx)]]) obs)"

definition finding_for :: "'x ct_codec_scheme \<Rightarrow> finding \<Rightarrow> bytes \<Rightarrow> nat \<Rightarrow> string \<Rightarrow> json" where
  "finding_for cd f rseed i obs_uuid =
     (let description = ''Evaluation of lint `'' @ fd_lint_id f @ ''` ('' @ fd_citation f @ '')'' @
            (case result_detail (fd_result f) of None \<Rightarrow> [] | Some detail \<Rightarrow> '': '' @ detail)
      in JObject
        [''uuid'' \<mapsto> JString (uuid_v8 cd NS_FINDING (finding_seed rseed i f)),
         ''title'' \<mapsto> JString (fd_lint_id f),
         ''description'' \<mapsto> JString description,
         ''target'' \<mapsto> JObject
           [''type'' \<mapsto> JString ''objective-id'', ''target-id'' \<mapsto> JString (fd_lint_id f),
            ''status'' \<mapsto> JObject
              [''state'' \<mapsto> JString (if finding_is_finding f then ''not-satisfied'' else ''satisfied'')]],
         ''props'' \<mapsto> JArray
           [oscal_prop ''pkix-lint.lint-id'' (fd_lint_id f), oscal_prop ''pkix-lint.citation'' (fd_citation f),
            oscal_prop ''pkix-lint.severity'' (lint_result_severity_label (fd_result f))],
         ''related-observations'' \<mapsto> JArray [JObject [''observation-uuid'' \<mapsto> JString obs_uuid]]])"

definition risk_for :: "'x ct_codec_scheme \<Rightarrow> deviated_finding \<Rightarrow> bytes \<Rightarrow> nat \<Rightarrow> json" where
  "risk_for cd df rseed i =
     (let risk = JObject
        [''uuid'' \<mapsto> JString (uuid_v8 cd NS_RISK (risk_seed rseed i df)),
         ''title'' \<mapsto> JString (''Deviation '' @ df_deviation_id df @ '' applied to '' @ df_lint_id df),
         ''description'' \<mapsto> JString (df_justification df),
         ''statement'' \<mapsto> JString (unwrap_or ''Original lint result'' (result_detail (df_original_result df))),
         ''status'' \<mapsto> JString ''deviation-approved'',
         ''props'' \<mapsto> JArray
           [oscal_prop ''pkix-lint.lint-id'' (df_lint_id df), oscal_prop ''pkix-lint.citation'' (df_citation df),
            oscal_prop ''pkix-lint.deviation-id'' (df_deviation_id df),
            oscal_prop ''pkix-lint.deviation-action'' (deviation_action_label (df_action df))]]
      in case df_evidence_uri df of
           None \<Rightarrow> risk
         | Some uri \<Rightarrow>
             json_set ''links'' (JArray [JObject
               [''href'' \<mapsto> JString uri, ''rel'' \<mapsto> JString ''reference'', ''text'' \<mapsto> JString ''Deviation evidence'']])
               risk)"

record assessment_results_options =
  import_ap_href :: string

definition default_options :: assessment_results_options where
  "default_options = \<lparr> import_ap_href = ''#assessment-plan-placeholder'' \<rparr>"

definition with_import_ap_href :: "string \<Rightarrow> assessment_results_options \<Rightarrow> assessment_results_options" where
  "with_import_ap_href href opts = opts\<lparr> import_ap_href := href \<rparr>"

text \<open>The version of the crate, which its build inserts.\<close>

definition CARGO_PKG_VERSION :: string where "CARGO_PKG_VERSION = ''0.9.1''"

definition emit_observations :: "'x ct_codec_scheme \<Rightarrow> evaluation_report \<Rightarrow> json list" where
  "emit_observations cd report =
     map (\<lambda>key. observation_for_evidence cd key (report_seed report) (unix_to_rfc3339 (er_evaluated_at_unix report)))
       (evidence_index_build (er_findings report))"

definition emit_findings :: "'x ct_codec_scheme \<Rightarrow> evaluation_report \<Rightarrow> json list" where
  "emit_findings cd report =
     map (\<lambda>(i, f). finding_for cd f (report_seed report) i (observation_uuid cd (report_seed report) f))
       (enumerate 0 (er_findings report))"

definition emit_risks :: "'x ct_codec_scheme \<Rightarrow> evaluation_report \<Rightarrow> json list" where
  "emit_risks cd report =
     map (\<lambda>(i, df). risk_for cd df (report_seed report) i) (enumerate 0 (er_deviated_findings report))"

definition set_unless_empty :: "string \<Rightarrow> json list \<Rightarrow> json \<Rightarrow> json" where
  "set_unless_empty k xs v = (if xs = [] then v else json_set k (JArray xs) v)"

definition assessment_results_with_options ::
  "'x ct_codec_scheme \<Rightarrow> evaluation_report \<Rightarrow> assessment_results_options \<Rightarrow> json" where
  "assessment_results_with_options cd report options =
     (let rseed = report_seed report;
          last_modified = unix_to_rfc3339 (er_evaluated_at_unix report);
          opt_prop = (\<lambda>name v. if v = [] then [] else [oscal_prop name v]);
          props = opt_prop ''pkix-lint.profile-id'' (er_profile_id report) @
                  opt_prop ''pkix-lint.profile-version'' (er_profile_version report) @
                  opt_prop ''pkix-lint.rule-bundle-version'' (er_rule_bundle_version report) @
                  [oscal_prop ''pkix-lint.chain-length'' (show_nat (er_chain_length report))];
          result = JObject
            [''uuid'' \<mapsto> JString (uuid_v8 cd NS_RESULT rseed), ''title'' \<mapsto> JString REPORT_TITLE,
             ''description'' \<mapsto> JString ''Findings emitted by pkix-lint for the evaluated certificate chain.'',
             ''start'' \<mapsto> JString last_modified, ''end'' \<mapsto> JString last_modified,
             ''reviewed-controls'' \<mapsto> JObject
               [''control-selections'' \<mapsto> JArray [JObject [''include-all'' \<mapsto> JObject Map.empty]]]];
          result = set_unless_empty ''observations'' (emit_observations cd report) result;
          result = set_unless_empty ''findings'' (emit_findings cd report) result;
          result = set_unless_empty ''risks'' (emit_risks cd report) result
      in JObject [''assessment-results'' \<mapsto> JObject
           [''uuid'' \<mapsto> JString (uuid_v8 cd NS_REPORT rseed),
            ''metadata'' \<mapsto> JObject
              [''title'' \<mapsto> JString REPORT_TITLE, ''last-modified'' \<mapsto> JString last_modified,
               ''version'' \<mapsto> JString CARGO_PKG_VERSION, ''oscal-version'' \<mapsto> JString OSCAL_VERSION,
               ''props'' \<mapsto> JArray props],
            ''import-ap'' \<mapsto> JObject [''href'' \<mapsto> JString (import_ap_href options)],
            ''results'' \<mapsto> JArray [result]]])"

definition assessment_results :: "'x ct_codec_scheme \<Rightarrow> evaluation_report \<Rightarrow> json" where
  "assessment_results cd report = assessment_results_with_options cd report default_options"

section \<open>Risks of a store\<close>

definition show_int :: "int \<Rightarrow> string" where
  "show_int i = (if i < 0 then ''-'' @ show_nat (nat (- i)) else show_nat (nat i))"

fun deviation_action_prop_value :: "deviation_action \<Rightarrow> string" where
  "deviation_action_prop_value Suppress = ''suppress''"
| "deviation_action_prop_value (DowngradeSeverityTo s) = ''downgrade:'' @ oscal_severity_label s"

definition scope_text :: "deviation_scope \<Rightarrow> string \<Rightarrow> string" where
  "scope_text sc name = (case get_prop sc name of Some (Text s) \<Rightarrow> s | _ \<Rightarrow> [])"

definition scope_bytes :: "deviation_scope \<Rightarrow> string \<Rightarrow> bytes" where
  "scope_bytes sc name = (case get_prop sc name of Some (Bytes b) \<Rightarrow> b | _ \<Rightarrow> [])"

definition decode_name_display :: "'x lint_codec_scheme \<Rightarrow> bytes \<Rightarrow> string" where
  "decode_name_display cd der =
     (case dec_name cd der of Inr n \<Rightarrow> name_to_string cd n | Inl _ \<Rightarrow> ''<malformed DN>'')"

fun prop_value_bytes :: "scope_prop_value \<Rightarrow> bytes" where
  "prop_value_bytes (Text s) = str_bytes s"
| "prop_value_bytes (Bytes b) = b"

fun prop_value_string :: "scope_prop_value \<Rightarrow> string" where
  "prop_value_string (Text s) = s"
| "prop_value_string (Bytes b) = hex b"

definition encode_scope :: "'x lint_codec_scheme \<Rightarrow> deviation_scope \<Rightarrow> json list" where
  "encode_scope cd sc =
     (if ds_kind sc = SCOPE_KIND_ANY then
        [JObject [''type'' \<mapsto> JString SCOPE_KIND_ANY,
           ''subject-uuid'' \<mapsto> JString (uuid_v8 cd ''pkix-lint.oscal.subject.scope-any'' []),
           ''title'' \<mapsto> JString ''All certificates'']]
      else if ds_kind sc = SCOPE_KIND_ISSUER_DN_CONTAINS then
        (let substring = scope_text sc PROP_ISSUER_DN_SUBSTRING
         in [JObject [''type'' \<mapsto> JString SCOPE_KIND_ISSUER_DN_CONTAINS,
               ''subject-uuid'' \<mapsto> JString (uuid_v8 cd ''pkix-lint.oscal.subject.issuer-dn-contains'' (str_bytes substring)),
               ''title'' \<mapsto> JString (''Issuer DN contains '' @ quoted substring),
               ''props'' \<mapsto> JArray [oscal_prop PROP_ISSUER_DN_SUBSTRING substring]]])
      else if ds_kind sc = SCOPE_KIND_ISSUER_DN_EXACT then
        (let der = scope_bytes sc PROP_ISSUER_DN_DER;
             name_str = decode_name_display cd der
         in [JObject [''type'' \<mapsto> JString SCOPE_KIND_ISSUER_DN_EXACT,
               ''subject-uuid'' \<mapsto> JString (uuid_v8 cd ''pkix-lint.oscal.subject.issuer-dn-exact'' der),
               ''title'' \<mapsto> JString (''Issuer DN equals '' @ name_str),
               ''props'' \<mapsto> JArray [oscal_prop ''pkix-lint.issuer-dn'' name_str, oscal_prop PROP_ISSUER_DN_DER (hex der)]]])
      else if ds_kind sc = SCOPE_KIND_SERIAL_RANGE then
        (let der = scope_bytes sc PROP_ISSUER_DN_DER;
             start = scope_bytes sc PROP_SERIAL_START;
             stop = scope_bytes sc PROP_SERIAL_END;
             name_str = decode_name_display cd der
         in [JObject [''type'' \<mapsto> JString SCOPE_KIND_SERIAL_RANGE,
               ''subject-uuid'' \<mapsto> JString (uuid_v8 cd ''pkix-lint.oscal.subject.serial-range''
                 (der @ [0] @ start @ [0] @ stop)),
               ''title'' \<mapsto> JString (''Serial range [0x'' @ hex start @ '', 0x'' @ hex stop @ ''] from issuer '' @ name_str),
               ''props'' \<mapsto> JArray
                 [oscal_prop ''pkix-lint.issuer-dn'' name_str, oscal_prop PROP_ISSUER_DN_DER (hex der),
                  oscal_prop PROP_SERIAL_START (hex start), oscal_prop PROP_SERIAL_END (hex stop)]]])
      else
        (let seed = str_bytes (ds_kind sc) @
               concat (map (\<lambda>(name, v). [0] @ str_bytes name @ [0] @ prop_value_bytes v) (ds_props sc))
         in [JObject [''type'' \<mapsto> JString (ds_kind sc),
               ''subject-uuid'' \<mapsto> JString (uuid_v8 cd ''pkix-lint.oscal.subject.custom'' seed),
               ''title'' \<mapsto> JString (''Custom scope '' @ quoted (ds_kind sc)),
               ''props'' \<mapsto> JArray (map (\<lambda>(name, v). oscal_prop name (prop_value_string v)) (ds_props sc))]]))"

definition deviation_props :: "deviation \<Rightarrow> json list" where
  "deviation_props d =
     [oscal_prop ''pkix-lint.deviation-id'' (dv_id d), oscal_prop ''pkix-lint.target-lint'' (target_lint d),
      oscal_prop ''pkix-lint.action'' (deviation_action_prop_value (dv_action d)),
      oscal_prop ''pkix-lint.authorized-by'' (authorized_by d)] @
     (case effective_start d of None \<Rightarrow> [] | Some t \<Rightarrow> [oscal_prop ''pkix-lint.effective-start'' (show_nat (unat t))]) @
     (case effective_end d of None \<Rightarrow> [] | Some t \<Rightarrow> [oscal_prop ''pkix-lint.effective-end'' (show_nat (unat t))]) @
     (if priority d \<noteq> 0 then [oscal_prop ''pkix-lint.deviation-priority'' (show_int (priority d))] else [])"

definition risk_for_deviation :: "'x lint_codec_scheme \<Rightarrow> deviation \<Rightarrow> json" where
  "risk_for_deviation cd d =
     (let risk = JObject
        [''uuid'' \<mapsto> JString (uuid_v8 cd NS_RISK_POLICY (str_bytes (dv_id d))),
         ''title'' \<mapsto> JString (''Deviation '' @ dv_id d @ '' for lint '' @ target_lint d),
         ''description'' \<mapsto> JString (justification d),
         ''statement'' \<mapsto> JString (justification d),
         ''status'' \<mapsto> JString ''deviation-approved'',
         ''props'' \<mapsto> JArray (deviation_props d),
         ''subjects'' \<mapsto> JArray (encode_scope cd (dv_scope d))]
      in case evidence_uri d of
           None \<Rightarrow> risk
         | Some uri \<Rightarrow>
             json_set ''links'' (JArray [JObject
               [''href'' \<mapsto> JString uri, ''rel'' \<mapsto> JString ''reference'',
                ''text'' \<mapsto> JString ''Deviation authorization document'']]) risk)"

definition risks_from_store :: "'x lint_codec_scheme \<Rightarrow> deviation_store \<Rightarrow> json list" where
  "risks_from_store cd store = map (risk_for_deviation cd) (store_all store)"

section \<open>The catalog of a set of lints\<close>

definition CATALOG_LAST_MODIFIED :: string where "CATALOG_LAST_MODIFIED = ''1970-01-01T00:00:00Z''"
definition NS_CATALOG :: string where "NS_CATALOG = ''pkix-lint.oscal.catalog''"
definition NS_CONTROL :: string where "NS_CONTROL = ''pkix-lint.oscal.catalog.control''"
definition NS_PARAM :: string where "NS_PARAM = ''pkix-lint.oscal.catalog.param''"

definition catalog_seed :: "string \<Rightarrow> string \<Rightarrow> bytes" where
  "catalog_seed catalog_id catalog_version = str_bytes catalog_id @ [0] @ str_bytes catalog_version"

definition control_seed :: "string \<Rightarrow> string \<Rightarrow> string \<Rightarrow> bytes" where
  "control_seed catalog_id catalog_version lint_id =
     str_bytes catalog_id @ [0] @ str_bytes catalog_version @ [0] @ str_bytes lint_id"

definition param_value :: "'x ct_codec_scheme \<Rightarrow> lint_parameter \<Rightarrow> string \<Rightarrow> string \<Rightarrow> string \<Rightarrow> json" where
  "param_value cd p catalog_id catalog_version lint_id =
     (let seed = str_bytes catalog_id @ [0] @ str_bytes catalog_version @ [0] @ str_bytes lint_id @ [0] @
            str_bytes (lp_id p)
      in JObject
        [''id'' \<mapsto> JString (lint_id @ ''.'' @ lp_id p), ''label'' \<mapsto> JString (lp_label p),
         ''values'' \<mapsto> JArray [JString (lp_default_value p)],
         ''props'' \<mapsto> JArray
           [oscal_prop ''pkix-lint.param-uuid'' (uuid_v8 cd NS_PARAM seed),
            oscal_prop ''pkix-lint.param-default'' (lp_default_value p)]])"

definition control_for_lint :: "'x ct_codec_scheme \<Rightarrow> lint \<Rightarrow> string \<Rightarrow> string \<Rightarrow> json" where
  "control_for_lint cd l catalog_id catalog_version =
     (let control_uuid = uuid_v8 cd NS_CONTROL (control_seed catalog_id catalog_version (l_id l));
          props =
            [oscal_prop ''pkix-lint.citation'' (l_citation l),
             oscal_prop ''pkix-lint.severity'' (oscal_severity_label (l_severity l)),
             oscal_prop ''pkix-lint.scope'' (scope_label (l_scope l)),
             oscal_prop ''pkix-lint.applies-to'' (subject_kind_label (l_applies_to l))] @
            (case lint_spec_section_id l of None \<Rightarrow> [] | Some s \<Rightarrow> [oscal_prop ''pkix-lint.section-id'' s]) @
            [oscal_prop ''pkix-lint.lint-id'' (l_id l), oscal_prop ''pkix-lint.control-uuid'' control_uuid];
          links = (case lint_spec_url l of
              None \<Rightarrow> []
            | Some url \<Rightarrow> [JObject [''href'' \<mapsto> JString url, ''rel'' \<mapsto> JString ''reference'']]);
          parts = (case l_description l of
              None \<Rightarrow> []
            | Some description \<Rightarrow>
                [JObject [''id'' \<mapsto> JString (l_id l @ ''_smt''), ''name'' \<mapsto> JString ''statement'',
                          ''prose'' \<mapsto> JString description]]);
          params = map (\<lambda>p. param_value cd p catalog_id catalog_version (l_id l)) (l_parameters l);
          control = JObject
            [''id'' \<mapsto> JString (l_id l), ''class'' \<mapsto> JString ''pkix-lint'', ''title'' \<mapsto> JString (lint_title l)];
          control = set_unless_empty ''params'' params control;
          control = json_set ''props'' (JArray props) control;
          control = set_unless_empty ''links'' links control
      in set_unless_empty ''parts'' parts control)"

definition catalog_from_lints :: "'x ct_codec_scheme \<Rightarrow> lint list \<Rightarrow> string \<Rightarrow> string \<Rightarrow> json" where
  "catalog_from_lints cd lints catalog_id catalog_version =
     (let controls = map (\<lambda>l. control_for_lint cd l catalog_id catalog_version) lints;
          props =
            (if catalog_id = [] then [] else [oscal_prop ''pkix-lint.catalog-id'' catalog_id]) @
            (if catalog_version = [] then [] else [oscal_prop ''pkix-lint.catalog-version'' catalog_version]);
          metadata = JObject
            [''title'' \<mapsto> JString ''pkix-lint Lint Catalog'', ''last-modified'' \<mapsto> JString CATALOG_LAST_MODIFIED,
             ''version'' \<mapsto> JString catalog_version, ''oscal-version'' \<mapsto> JString OSCAL_VERSION,
             ''props'' \<mapsto> JArray props]
      in JObject [''catalog'' \<mapsto> JObject
           [''uuid'' \<mapsto> JString (uuid_v8 cd NS_CATALOG (catalog_seed catalog_id catalog_version)),
            ''metadata'' \<mapsto> metadata, ''controls'' \<mapsto> JArray controls]])"

end
