(* ===== verification/OscalParse.thy ===== *)
theory OscalParse
  imports OscalEmit
begin

text \<open>
  The readers of OSCAL documents, \<open>oscal/parse.rs\<close>: a store of deviations from an array of risks, the
  identifiers of the lints from a catalog, and the check of the schema version. The three errors of
  \<open>ParseError\<close> that the lint engine itself returns are \<open>override_error\<close> of theory \<open>Lint\<close>.
\<close>

section \<open>Errors\<close>

datatype oscal_parse_error =
    NotArray
  | RiskNotObject nat
  | InvalidStatus nat string
  | MissingDescription nat
  | SubjectsNotArray nat
  | MissingSubject nat
  | SubjectNotObject nat
  | SubjectMissingType nat
  | UnknownSubjectType nat string
  | MissingProp nat string
  | MissingSubjectProp nat string
  | EmptyProp nat string
  | UnknownAction nat string
  | MalformedHex nat string
  | MalformedDer nat string
  | InvalidU64 nat string string
  | InvalidI32 nat string string
  | AddFailed nat deviation_add_error
  | MissingOscalVersion
  | UnsupportedOscalVersion string
  | CatalogNotObject
  | CatalogMissingWrapper
  | ControlsNotArray
  | ControlNotObject nat
  | ControlMissingId nat
  | ControlIdNotString nat
  | ControlIdEmpty nat
  | LintSetError override_error
  | ProfileNotObject
  | ProfileMissingWrapper
  | ProfileImportsNotArray
  | ProfileImportNotObject nat
  | ProfileImportMissingHref nat
  | ProfileImportHrefNotString nat
  | ProfileImportHrefEmpty nat
  | ProfileImportUnresolved nat string
  | ProfileImportSourceUnknown nat string
  | ProfileImportCycle string
  | ProfileIncludeControlsNotArray nat
  | ProfileExcludeControlsNotArray nat
  | ProfileWithIdsEntryNotObject nat nat
  | ProfileWithIdsNotArray nat nat
  | ProfileWithIdNotString nat nat
  | ProfileSetParametersNotArray
  | ProfileSetParameterNotObject nat
  | ProfileSetParameterMissingId nat
  | ProfileSetParameterIdEmpty nat
  | ProfileSetParameterValuesNotArray nat
  | ProfileSetParameterValuesEmpty nat
  | ProfileSetParameterValueNotString nat

definition risk_at :: "nat \<Rightarrow> string \<Rightarrow> string" where
  "risk_at index rest = ''Risk at index '' @ show_nat index @ rest"

definition control_at :: "nat \<Rightarrow> string \<Rightarrow> string" where
  "control_at index rest = ''Control at index '' @ show_nat index @ rest"

definition import_at :: "nat \<Rightarrow> string \<Rightarrow> string" where
  "import_at index rest = ''profile.imports['' @ show_nat index @ '']'' @ rest"

definition set_parameter_at :: "nat \<Rightarrow> string \<Rightarrow> string" where
  "set_parameter_at entry_index rest = ''profile.modify.set-parameters['' @ show_nat entry_index @ '']'' @ rest"

fun display_override_error :: "override_error \<Rightarrow> string" where
  "display_override_error (UnknownLintId i) = ''Catalog Control id '' @ quoted i @ '' has no matching registered Lint''"
| "display_override_error (UnknownParameterOverride param_id) =
     ''no registered Lint owns composite parameter id '' @ quoted param_id"
| "display_override_error (InvalidParameterOverride param_id source) =
     ''Lint rejected parameter override for '' @ quoted param_id @ '': '' @ display_parameter_error source"

fun display_oscal_parse_error :: "oscal_parse_error \<Rightarrow> string" where
  "display_oscal_parse_error NotArray = ''top-level OSCAL value is not a JSON array''"
| "display_oscal_parse_error (RiskNotObject i) = risk_at i '' is not a JSON object''"
| "display_oscal_parse_error (InvalidStatus i found) =
     risk_at i ('' has status '' @ quoted found @ '', expected '' @ quoted ''deviation-approved'')"
| "display_oscal_parse_error (MissingDescription i) = risk_at i '' has no description (justification)''"
| "display_oscal_parse_error (SubjectsNotArray i) = risk_at i '' has no subjects array''"
| "display_oscal_parse_error (MissingSubject i) = risk_at i '' has an empty subjects array''"
| "display_oscal_parse_error (SubjectNotObject i) = risk_at i '' has a subject entry that is not a JSON object''"
| "display_oscal_parse_error (SubjectMissingType i) =
     risk_at i ('' has a subject with no '' @ quoted ''type'' @ '' discriminator'')"
| "display_oscal_parse_error (UnknownSubjectType i found) = risk_at i ('' has unknown subject type '' @ quoted found)"
| "display_oscal_parse_error (MissingProp i name) = risk_at i ('' is missing required prop '' @ quoted name)"
| "display_oscal_parse_error (MissingSubjectProp i name) =
     risk_at i ('' subject is missing required prop '' @ quoted name)"
| "display_oscal_parse_error (EmptyProp i name) = risk_at i ('' has empty value for required prop '' @ quoted name)"
| "display_oscal_parse_error (UnknownAction i found) = risk_at i ('' has unrecognized action value '' @ quoted found)"
| "display_oscal_parse_error (MalformedHex i p) = risk_at i ('' prop '' @ quoted p @ '' is not valid hex'')"
| "display_oscal_parse_error (MalformedDer i p) =
     risk_at i ('' prop '' @ quoted p @ '' is empty or not a valid DER-encoded Name'')"
| "display_oscal_parse_error (InvalidU64 i p found) =
     risk_at i ('' prop '' @ quoted p @ '' is not a decimal u64: '' @ quoted found)"
| "display_oscal_parse_error (InvalidI32 i p found) =
     risk_at i ('' prop '' @ quoted p @ '' is not a decimal i32: '' @ quoted found)"
| "display_oscal_parse_error (AddFailed i source) =
     risk_at i ('' could not be added to the store: '' @ display_deviation_add_error source)"
| "display_oscal_parse_error MissingOscalVersion = ''OSCAL document is missing metadata.oscal-version''"
| "display_oscal_parse_error (UnsupportedOscalVersion found) =
     ''unsupported OSCAL version '' @ quoted found @ ''; pkix-lint accepts ['' @
     [CHR 0x22] @ OSCAL_VERSION @ [CHR 0x22] @ '']''"
| "display_oscal_parse_error CatalogNotObject = ''top-level OSCAL Catalog value is not a JSON object''"
| "display_oscal_parse_error CatalogMissingWrapper =
     ''OSCAL Catalog value is missing the '' @ quoted ''catalog'' @ '' wrapper''"
| "display_oscal_parse_error ControlsNotArray = ''catalog.controls is missing or not a JSON array''"
| "display_oscal_parse_error (ControlNotObject i) = control_at i '' is not a JSON object''"
| "display_oscal_parse_error (ControlMissingId i) = control_at i ('' is missing required '' @ quoted ''id'' @ '' field'')"
| "display_oscal_parse_error (ControlIdNotString i) = control_at i ('' '' @ quoted ''id'' @ '' is not a JSON string'')"
| "display_oscal_parse_error (ControlIdEmpty i) = control_at i ('' '' @ quoted ''id'' @ '' is an empty string'')"
| "display_oscal_parse_error (LintSetError e) = display_override_error e"
| "display_oscal_parse_error ProfileNotObject = ''top-level OSCAL Profile value is not a JSON object''"
| "display_oscal_parse_error ProfileMissingWrapper =
     ''OSCAL Profile value is missing the '' @ quoted ''profile'' @ '' wrapper''"
| "display_oscal_parse_error ProfileImportsNotArray = ''profile.imports is missing or not a JSON array''"
| "display_oscal_parse_error (ProfileImportNotObject i) = import_at i '' is not a JSON object''"
| "display_oscal_parse_error (ProfileImportMissingHref i) =
     import_at i ('' is missing required '' @ quoted ''href'' @ '' field'')"
| "display_oscal_parse_error (ProfileImportHrefNotString i) =
     import_at i ('' '' @ quoted ''href'' @ '' is not a JSON string'')"
| "display_oscal_parse_error (ProfileImportHrefEmpty i) = import_at i ('' '' @ quoted ''href'' @ '' is an empty string'')"
| "display_oscal_parse_error (ProfileImportUnresolved i href) =
     import_at i ('' href '' @ quoted href @ '' has no entry in sources'')"
| "display_oscal_parse_error (ProfileImportSourceUnknown i href) =
     import_at i ('' href '' @ quoted href @ '' source is neither a Catalog nor a Profile'')"
| "display_oscal_parse_error (ProfileImportCycle href) = ''profile import cycle detected at href '' @ quoted href"
| "display_oscal_parse_error (ProfileIncludeControlsNotArray i) = import_at i ''.include-controls is not a JSON array''"
| "display_oscal_parse_error (ProfileExcludeControlsNotArray i) = import_at i ''.exclude-controls is not a JSON array''"
| "display_oscal_parse_error (ProfileWithIdsEntryNotObject i j) =
     import_at i ('' include/exclude-controls['' @ show_nat j @ ''] is not a JSON object'')"
| "display_oscal_parse_error (ProfileWithIdsNotArray i j) =
     import_at i ('' include/exclude-controls['' @ show_nat j @ ''].with-ids is not a JSON array'')"
| "display_oscal_parse_error (ProfileWithIdNotString i j) =
     import_at i ('' include/exclude-controls['' @ show_nat j @ ''].with-ids contains a non-string id'')"
| "display_oscal_parse_error ProfileSetParametersNotArray = ''profile.modify.set-parameters is not a JSON array''"
| "display_oscal_parse_error (ProfileSetParameterNotObject j) = set_parameter_at j '' is not a JSON object''"
| "display_oscal_parse_error (ProfileSetParameterMissingId j) =
     set_parameter_at j ('' is missing required '' @ quoted ''param-id'')"
| "display_oscal_parse_error (ProfileSetParameterIdEmpty j) =
     set_parameter_at j ('' '' @ quoted ''param-id'' @ '' is an empty string'')"
| "display_oscal_parse_error (ProfileSetParameterValuesNotArray j) =
     set_parameter_at j ('' '' @ quoted ''values'' @ '' is missing or not a JSON array'')"
| "display_oscal_parse_error (ProfileSetParameterValuesEmpty j) =
     set_parameter_at j ('' '' @ quoted ''values'' @ '' is empty'')"
| "display_oscal_parse_error (ProfileSetParameterValueNotString j) =
     set_parameter_at j ('' '' @ quoted ''values[0]'' @ '' is not a JSON string'')"

type_synonym 'a oscal_result = "oscal_parse_error + 'a"

section \<open>Risks\<close>

definition find_prop_value :: "json list option \<Rightarrow> string \<Rightarrow> string option" where
  "find_prop_value props name =
     (case props of
        None \<Rightarrow> None
      | Some arr \<Rightarrow>
          Option.bind (find (\<lambda>m. Option.bind (m ''name'') as_str = Some name) (List.map_filter as_object arr))
            (\<lambda>m. Option.bind (m ''value'') as_str))"

definition required_nonempty_prop :: "nat \<Rightarrow> string option \<Rightarrow> string \<Rightarrow> string oscal_result" where
  "required_nonempty_prop idx v name =
     and_then (ok_or (MissingProp idx name) v) (\<lambda>s. if s = [] then Err (EmptyProp idx name) else Ok s)"

definition parse_severity :: "string \<Rightarrow> severity option" where
  "parse_severity rest =
     (if rest = ''info'' then Some Info else if rest = ''notice'' then Some Notice
      else if rest = ''warn'' then Some SevWarn else if rest = ''error'' then Some SevError
      else if rest = ''fatal'' then Some SevFatal else None)"

definition parse_action :: "nat \<Rightarrow> string \<Rightarrow> deviation_action oscal_result" where
  "parse_action idx s =
     (if s = ''suppress'' then Ok Suppress
      else case strip_prefix ''downgrade:'' s of
             Some rest \<Rightarrow> map_ok DowngradeSeverityTo (ok_or (UnknownAction idx s) (parse_severity rest))
           | None \<Rightarrow> Err (UnknownAction idx s))"

definition parse_u64 :: "string \<Rightarrow> u64 option" where
  "parse_u64 s = map_option of_nat (parse_uint 10 (2 ^ 64) s)"

text \<open>\<open>i32::from_str\<close>: as for unsigned integers, and after a minus sign down to the minimum.\<close>

definition parse_i32 :: "string \<Rightarrow> int option" where
  "parse_i32 s =
     (case strip_prefix ''-'' s of
        Some digits \<Rightarrow>
          if digits = [] then None
          else Option.bind (digits_value 10 0 digits) (\<lambda>v. if v \<le> 2 ^ 31 then Some (- int v) else None)
      | None \<Rightarrow> map_option int (parse_uint 10 (2 ^ 31) s))"

definition parse_optional_u64 :: "nat \<Rightarrow> string option \<Rightarrow> string \<Rightarrow> u64 option oscal_result" where
  "parse_optional_u64 idx v prop_name =
     (case v of None \<Rightarrow> Ok None | Some s \<Rightarrow> map_ok Some (ok_or (InvalidU64 idx prop_name s) (parse_u64 s)))"

definition parse_optional_i32 :: "nat \<Rightarrow> string option \<Rightarrow> string \<Rightarrow> int option oscal_result" where
  "parse_optional_i32 idx v prop_name =
     (case v of None \<Rightarrow> Ok None | Some s \<Rightarrow> map_ok Some (ok_or (InvalidI32 idx prop_name s) (parse_i32 s)))"

fun hex_decode_loop :: "string \<Rightarrow> bytes option" where
  "hex_decode_loop (h # l # rest) =
     Option.bind (Lint.nibble h) (\<lambda>hi. Option.bind (Lint.nibble l) (\<lambda>lo.
       map_option ((#) (push_bit 4 (of_nat hi) OR of_nat lo)) (hex_decode_loop rest)))"
| "hex_decode_loop _ = Some []"

definition hex_decode :: "string \<Rightarrow> bytes option" where
  "hex_decode s = (if length s mod 2 \<noteq> 0 then None else hex_decode_loop s)"

definition decode_name :: "'x lint_codec_scheme \<Rightarrow> nat \<Rightarrow> bytes \<Rightarrow> string \<Rightarrow> dname oscal_result" where
  "decode_name cd idx der p =
     (if der = [] then Err (MalformedDer idx p) else map_err (\<lambda>_. MalformedDer idx p) (dec_name cd der))"

definition parse_subject :: "'x lint_codec_scheme \<Rightarrow> nat \<Rightarrow> json \<Rightarrow> deviation_scope oscal_result" where
  "parse_subject cd idx subj =
     and_then (ok_or (SubjectNotObject idx) (as_object subj)) (\<lambda>obj.
     and_then (ok_or (SubjectMissingType idx) (Option.bind (obj ''type'') as_str)) (\<lambda>ty.
       let props = Option.bind (obj ''props'') as_array;
           required = (\<lambda>name. ok_or (MissingSubjectProp idx name) (find_prop_value props name));
           required_hex = (\<lambda>name. and_then (required name) (\<lambda>h. ok_or (MalformedHex idx name) (hex_decode h)))
       in if ty = SCOPE_KIND_ANY then Ok scope_any
          else if ty = SCOPE_KIND_ISSUER_DN_CONTAINS then
            map_ok scope_issuer_dn_contains (required PROP_ISSUER_DN_SUBSTRING)
          else if ty = SCOPE_KIND_ISSUER_DN_EXACT then
            and_then (required_hex PROP_ISSUER_DN_DER) (\<lambda>der.
            and_then (decode_name cd idx der PROP_ISSUER_DN_DER) (\<lambda>_. Ok (scope_issuer_dn_exact der)))
          else if ty = SCOPE_KIND_SERIAL_RANGE then
            and_then (required_hex PROP_ISSUER_DN_DER) (\<lambda>der.
            and_then (decode_name cd idx der PROP_ISSUER_DN_DER) (\<lambda>_.
            and_then (required_hex PROP_SERIAL_START) (\<lambda>start.
            and_then (required_hex PROP_SERIAL_END) (\<lambda>stop. Ok (scope_serial_range der start stop)))))
          else Err (UnknownSubjectType idx ty)))"

fun evidence_link_loop :: "json list \<Rightarrow> string option" where
  "evidence_link_loop [] = None"
| "evidence_link_loop (link # links) =
     (case as_object link of
        None \<Rightarrow> evidence_link_loop links
      | Some obj \<Rightarrow>
          if Option.bind (obj ''rel'') as_str = Some ''reference''
          then case Option.bind (obj ''href'') as_str of
                 Some href \<Rightarrow> Some href
               | None \<Rightarrow> evidence_link_loop links
          else evidence_link_loop links)"

definition parse_evidence_uri :: "json option \<Rightarrow> string option" where
  "parse_evidence_uri links = Option.bind (Option.bind links as_array) evidence_link_loop"

definition parse_risk :: "'x lint_codec_scheme \<Rightarrow> nat \<Rightarrow> json \<Rightarrow> deviation oscal_result" where
  "parse_risk cd idx risk =
     and_then (ok_or (RiskNotObject idx) (as_object risk)) (\<lambda>obj.
       let status = unwrap_or [] (Option.bind (obj ''status'') as_str)
       in if status \<noteq> ''deviation-approved'' then Err (InvalidStatus idx status)
          else
            and_then (ok_or (MissingDescription idx) (Option.bind (obj ''description'') as_str)) (\<lambda>just.
            let props = Option.bind (obj ''props'') as_array;
                prop_of = find_prop_value props
            in
            and_then (required_nonempty_prop idx (prop_of ''pkix-lint.deviation-id'') ''pkix-lint.deviation-id'') (\<lambda>did.
            and_then (required_nonempty_prop idx (prop_of ''pkix-lint.target-lint'') ''pkix-lint.target-lint'') (\<lambda>target.
            and_then (required_nonempty_prop idx (prop_of ''pkix-lint.action'') ''pkix-lint.action'') (\<lambda>action_str.
            and_then (parse_action idx action_str) (\<lambda>action.
            and_then (required_nonempty_prop idx (prop_of ''pkix-lint.authorized-by'') ''pkix-lint.authorized-by'') (\<lambda>auth.
            and_then (parse_optional_u64 idx (prop_of ''pkix-lint.effective-start'') ''pkix-lint.effective-start'') (\<lambda>start.
            and_then (parse_optional_u64 idx (prop_of ''pkix-lint.effective-end'') ''pkix-lint.effective-end'') (\<lambda>stop.
            and_then (parse_optional_i32 idx (prop_of ''pkix-lint.deviation-priority'') ''pkix-lint.deviation-priority'') (\<lambda>prio.
            and_then (ok_or (SubjectsNotArray idx) (Option.bind (obj ''subjects'') as_array)) (\<lambda>subjects.
            case subjects of
              [] \<Rightarrow> Err (MissingSubject idx)
            | first_subject # _ \<Rightarrow>
                and_then (parse_subject cd idx first_subject) (\<lambda>sc.
                  Ok \<lparr> dv_id = did, target_lint = target, dv_scope = sc, effective_start = start,
                       effective_end = stop, dv_action = action, justification = just, authorized_by = auth,
                       evidence_uri = parse_evidence_uri (obj ''links''), priority = unwrap_or 0 prio \<rparr>))))))))))))"

fun risk_loop :: "'x lint_codec_scheme \<Rightarrow> nat \<Rightarrow> json list \<Rightarrow> deviation_store \<Rightarrow> deviation_store oscal_result" where
  "risk_loop cd idx [] store = Ok store"
| "risk_loop cd idx (risk # risks) store =
     and_then (parse_risk cd idx risk) (\<lambda>d.
       case store_add cd d store of
         (store', Inl source) \<Rightarrow> Err (AddFailed idx source)
       | (store', Inr _) \<Rightarrow> risk_loop cd (idx + 1) risks store')"

definition deviation_store_from_risks :: "'x lint_codec_scheme \<Rightarrow> json \<Rightarrow> deviation_store oscal_result" where
  "deviation_store_from_risks cd v =
     and_then (ok_or NotArray (as_array v)) (\<lambda>arr. risk_loop cd 0 arr store_new)"

section \<open>Catalogs\<close>

definition check_oscal_version :: "(string \<Rightarrow> json option) \<Rightarrow> unit oscal_result" where
  "check_oscal_version container =
     and_then (ok_or MissingOscalVersion
         (Option.bind (Option.bind (container ''metadata'') (json_get ''oscal-version'')) as_str)) (\<lambda>version.
       if version \<notin> set SUPPORTED_OSCAL_VERSIONS then Err (UnsupportedOscalVersion version) else Ok ())"

fun control_loop :: "nat \<Rightarrow> json list \<Rightarrow> string list oscal_result" where
  "control_loop index [] = Ok []"
| "control_loop index (control # controls) =
     and_then (ok_or (ControlNotObject index) (as_object control)) (\<lambda>obj.
     and_then (ok_or (ControlMissingId index) (obj ''id'')) (\<lambda>id_value.
     and_then (ok_or (ControlIdNotString index) (as_str id_value)) (\<lambda>id_str.
       if id_str = [] then Err (ControlIdEmpty index)
       else map_ok ((#) id_str) (control_loop (index + 1) controls))))"

definition lint_ids_from_catalog :: "json \<Rightarrow> string list oscal_result" where
  "lint_ids_from_catalog v =
     and_then (ok_or CatalogNotObject (as_object v)) (\<lambda>obj.
     and_then (ok_or CatalogMissingWrapper (Option.bind (obj ''catalog'') as_object)) (\<lambda>catalog.
     and_then (check_oscal_version catalog) (\<lambda>_.
     and_then (ok_or ControlsNotArray (Option.bind (catalog ''controls'') as_array)) (control_loop 0))))"

section \<open>Numbers and octets come back\<close>

lemma show_nat_radix: "show_nat n = show_radix 10 n"
proof (induction n rule: show_nat.induct)
  case (1 n)
  then show ?case by (simp add: show_nat.simps [of n] show_radix.simps [of 10 n] digit_char_def)
qed

lemma show_nat_nonempty [simp]: "show_nat n \<noteq> []"
  by (simp add: show_nat.simps [of n])

lemma show_nat_digits: "c \<in> set (show_nat n) \<Longrightarrow> \<exists>d < 10. c = digit_char d"
  using show_radix_chars [of 10 c n] by (simp add: show_nat_radix)

lemma digit_char_no_sign: "d < 10 \<Longrightarrow> digit_char d \<noteq> CHR ''+'' \<and> digit_char d \<noteq> CHR ''-''"
  using digit_char_value [of d] by auto

lemma show_nat_no_sign: "show_nat n = c # cs \<Longrightarrow> c \<noteq> CHR ''+'' \<and> c \<noteq> CHR ''-''"
  using show_nat_digits [of c n] digit_char_no_sign by auto

lemma digits_value_show_nat: "digits_value 10 0 (show_nat n) = Some n"
  by (simp add: show_nat_radix digits_value_show)

lemma parse_uint_show_nat:
  assumes "n < bound"
  shows "parse_uint 10 bound (show_nat n) = Some n"
proof -
  obtain c cs where s: "show_nat n = c # cs" using show_nat_nonempty [of n] by (cases "show_nat n") auto
  with show_nat_no_sign [OF s] digits_value_show_nat [of n] assms show ?thesis
    by (simp add: parse_uint_def Let_def)
qed

lemma parse_u64_show: "parse_u64 (show_nat (unat t)) = Some t"
proof -
  have "unat t < 2 ^ 64" by (rule order.strict_trans2 [OF unsigned_less]) simp
  then show ?thesis by (simp add: parse_u64_def parse_uint_show_nat)
qed

lemma parse_i32_show:
  assumes "- (2 ^ 31) \<le> i" and "i < 2 ^ 31"
  shows "parse_i32 (show_int i) = Some i"
proof (cases "i < 0")
  case True
  moreover have "strip_prefix ''-'' (show_int i) = Some (show_nat (nat (- i)))"
    using True by (simp add: show_int_def strip_prefix_Some)
  moreover have "nat (- i) \<le> 2 ^ 31" using assms by simp
  ultimately show ?thesis by (simp add: parse_i32_def digits_value_show_nat)
next
  case False
  have "strip_prefix ''-'' (show_nat (nat i)) = None"
  proof (cases "strip_prefix ''-'' (show_nat (nat i))")
    case (Some r)
    then have "show_nat (nat i) = CHR ''-'' # r" by (simp add: strip_prefix_Some)
    from show_nat_no_sign [OF this] show ?thesis by simp
  qed
  moreover have "nat i < 2 ^ 31" using assms by simp
  ultimately show ?thesis using False by (simp add: parse_i32_def show_int_def parse_uint_show_nat)
qed

lemma byte_halves:
  fixes b :: u8
  shows "push_bit 4 (drop_bit 4 b) OR (b AND 15) = b" "unat (drop_bit 4 b) < 16" "unat (b AND 15) < 16"
proof -
  have low: "(15 :: u8) = mask 4" by (simp add: mask_eq_exp_minus_1)
  have "push_bit 4 (drop_bit 4 b) OR (b AND mask 4) = b"
    by (rule bit_word_eqI) (auto simp: bit_simps)
  then show "push_bit 4 (drop_bit 4 b) OR (b AND 15) = b" by (simp add: low)
  have "unat b < 256" by (rule unat_u8_less)
  then show "unat (drop_bit 4 b) < 16" unfolding unat_drop_bit_eq by (simp add: drop_bit_eq_div)
  have "unat (b AND 15) = take_bit 4 (unat b)"
    by (simp add: low take_bit_eq_mask [symmetric] unsigned_take_bit_eq)
  then show "unat (b AND 15) < 16" using take_bit_nat_less_exp [of 4 "unat b"] by simp
qed

lemma hex_decode_hex: "hex_decode (hex bs) = Some bs"
proof -
  have "length (hex bs) = 2 * length bs" by (induction bs) (simp_all add: hex_def)
  moreover have "hex_decode_loop (hex bs) = Some bs"
    by (induction bs) (simp_all add: hex_def nibble_hex_digit byte_halves)
  ultimately show ?thesis by (simp add: hex_decode_def)
qed

lemma parse_action_value: "parse_action idx (deviation_action_prop_value a) = Ok a"
proof (cases a)
  case (DowngradeSeverityTo s)
  then show ?thesis by (cases s) (simp_all add: parse_action_def strip_prefix_def parse_severity_def)
qed (simp add: parse_action_def)

section \<open>A store comes back from its risks\<close>

lemma find_prop_value_simps [simp]:
  "find_prop_value None name = None"
  "find_prop_value (Some []) name = None"
  "find_prop_value (Some (oscal_prop n v # ps)) name = (if n = name then Some v else find_prop_value (Some ps) name)"
  by (simp_all add: find_prop_value_def oscal_prop_def List.map_filter_def)

text \<open>Scopes the constructors make, normalised as the store does, with a name that decodes.\<close>

definition name_decodes :: "'x lint_codec_scheme \<Rightarrow> bytes \<Rightarrow> bool" where
  "name_decodes cd der \<longleftrightarrow> der \<noteq> [] \<and> is_ok (dec_name cd der)"

definition canonical_scope :: "'x lint_codec_scheme \<Rightarrow> deviation_scope \<Rightarrow> bool" where
  "canonical_scope cd sc \<longleftrightarrow>
     sc = scope_any \<or>
     (\<exists>s. sc = scope_issuer_dn_contains s \<and> str_to_lowercase cd s = s) \<or>
     (\<exists>der. sc = scope_issuer_dn_exact der \<and> name_decodes cd der) \<or>
     (\<exists>der start stop. sc = scope_serial_range der start stop \<and> name_decodes cd der)"

definition persistable :: "'x lint_codec_scheme \<Rightarrow> deviation \<Rightarrow> bool" where
  "persistable cd d \<longleftrightarrow>
     dv_id d \<noteq> [] \<and> target_lint d \<noteq> [] \<and> justification d \<noteq> [] \<and> authorized_by d \<noteq> [] \<and>
     - (2 ^ 31) \<le> priority d \<and> priority d < 2 ^ 31 \<and> canonical_scope cd (dv_scope d)"

lemma canonical_scopeI:
  "canonical_scope cd scope_any"
  "str_to_lowercase cd s = s \<Longrightarrow> canonical_scope cd (scope_issuer_dn_contains s)"
  "name_decodes cd der \<Longrightarrow> canonical_scope cd (scope_issuer_dn_exact der)"
  "name_decodes cd der \<Longrightarrow> canonical_scope cd (scope_serial_range der start stop)"
  unfolding canonical_scope_def by blast+

lemma name_decodes_Ok: "name_decodes cd der \<Longrightarrow> is_ok (decode_name cd idx der p)"
  by (auto simp: name_decodes_def decode_name_def is_ok_iff)

lemma subject_of_scope:
  assumes "canonical_scope cd sc"
  shows "\<exists>subj. encode_scope cd sc = [subj] \<and> parse_subject cd idx subj = Ok sc"
proof -
  consider "sc = scope_any" | s where "sc = scope_issuer_dn_contains s"
    | der where "sc = scope_issuer_dn_exact der" "name_decodes cd der"
    | der start stop where "sc = scope_serial_range der start stop" "name_decodes cd der"
    using assms by (auto simp: canonical_scope_def)
  then show ?thesis
  proof cases
    case 1
    then show ?thesis by (simp add: encode_scope_def scope_any_def parse_subject_def)
  next
    case 2
    then show ?thesis
      by (simp add: encode_scope_def scope_issuer_dn_contains_def parse_subject_def scope_text_def get_prop_def
          Let_def) (simp add: scope_names)
  next
    case 3
    then obtain n where "decode_name cd idx der PROP_ISSUER_DN_DER = Ok n"
      using name_decodes_Ok [of cd der idx PROP_ISSUER_DN_DER] by (auto simp: is_ok_iff)
    with 3 show ?thesis
      by (simp add: encode_scope_def scope_issuer_dn_exact_def parse_subject_def scope_bytes_def get_prop_def
          hex_decode_hex Let_def) (simp add: scope_names)
  next
    case 4
    then obtain n where "decode_name cd idx der PROP_ISSUER_DN_DER = Ok n"
      using name_decodes_Ok [of cd der idx PROP_ISSUER_DN_DER] by (auto simp: is_ok_iff)
    with 4 show ?thesis
      by (simp add: encode_scope_def scope_serial_range_def parse_subject_def scope_bytes_def get_prop_def
          hex_decode_hex Let_def) (simp add: scope_names)
  qed
qed

lemma parse_risk_for_deviation:
  assumes "persistable cd d"
  shows "parse_risk cd idx (risk_for_deviation cd d) = Ok d"
proof -
  have fields: "dv_id d \<noteq> []" "target_lint d \<noteq> []" "authorized_by d \<noteq> []" "canonical_scope cd (dv_scope d)"
    and prio: "parse_i32 (show_int (priority d)) = Some (priority d)"
    using assms by (auto simp: persistable_def intro: parse_i32_show)
  obtain subj where subj: "encode_scope cd (dv_scope d) = [subj]" "parse_subject cd idx subj = Ok (dv_scope d)"
    using subject_of_scope [OF fields(4)] by blast
  have action: "deviation_action_prop_value (dv_action d) \<noteq> []" by (cases "dv_action d") simp_all
  show ?thesis
    using fields action
    by (cases "effective_start d"; cases "effective_end d"; cases "evidence_uri d"; cases "priority d = 0")
      (simp_all add: parse_risk_def risk_for_deviation_def deviation_props_def required_nonempty_prop_def
        parse_action_value parse_optional_u64_def parse_optional_i32_def parse_u64_show prio subj
        parse_evidence_uri_def)
qed

lemma scope_kinds_distinct [simp]:
  "SCOPE_KIND_ANY \<noteq> SCOPE_KIND_ISSUER_DN_CONTAINS" "SCOPE_KIND_ANY \<noteq> SCOPE_KIND_ISSUER_DN_EXACT"
  "SCOPE_KIND_ANY \<noteq> SCOPE_KIND_SERIAL_RANGE" "SCOPE_KIND_ISSUER_DN_CONTAINS \<noteq> SCOPE_KIND_ANY"
  "SCOPE_KIND_ISSUER_DN_CONTAINS \<noteq> SCOPE_KIND_ISSUER_DN_EXACT" "SCOPE_KIND_ISSUER_DN_CONTAINS \<noteq> SCOPE_KIND_SERIAL_RANGE"
  "SCOPE_KIND_ISSUER_DN_EXACT \<noteq> SCOPE_KIND_ANY" "SCOPE_KIND_ISSUER_DN_EXACT \<noteq> SCOPE_KIND_ISSUER_DN_CONTAINS"
  "SCOPE_KIND_ISSUER_DN_EXACT \<noteq> SCOPE_KIND_SERIAL_RANGE" "SCOPE_KIND_SERIAL_RANGE \<noteq> SCOPE_KIND_ANY"
  "SCOPE_KIND_SERIAL_RANGE \<noteq> SCOPE_KIND_ISSUER_DN_CONTAINS" "SCOPE_KIND_SERIAL_RANGE \<noteq> SCOPE_KIND_ISSUER_DN_EXACT"
  by (simp_all add: scope_names)

lemma store_add_persistable:
  assumes "persistable cd d" and "dv_id d \<notin> dv_id ` set store"
  shows "store_add cd d store = (store @ [d], Ok ())"
proof -
  have sc: "canonical_scope cd (dv_scope d)" using assms(1) by (simp add: persistable_def)
  then have "validate_scope (dv_scope d) = Ok ()"
    by (auto simp: canonical_scope_def validate_scope_def scope_any_def scope_issuer_dn_contains_def
        scope_issuer_dn_exact_def scope_serial_range_def require_bytes_def get_prop_def scope_names)
  moreover have "normalize_scope cd (dv_scope d) = dv_scope d"
    using sc by (auto simp: canonical_scope_def normalize_scope_def scope_any_def scope_issuer_dn_contains_def
        scope_issuer_dn_exact_def scope_serial_range_def)
  moreover have "\<not> list_ex (\<lambda>d'. dv_id d' = dv_id d) store"
    using assms(2) unfolding list_ex_iff by (metis image_eqI)
  ultimately show ?thesis using assms(1) by (simp add: store_add_def persistable_def)
qed

lemma risk_loop_roundtrip:
  assumes "list_all (persistable cd) ds" and "distinct (map dv_id (store @ ds))"
  shows "risk_loop cd idx (map (risk_for_deviation cd) ds) store = Ok (store @ ds)"
  using assms
proof (induction ds arbitrary: idx store)
  case (Cons d ds)
  then have "store_add cd d store = (store @ [d], Ok ())" by (intro store_add_persistable) auto
  with Cons show ?case by (simp add: parse_risk_for_deviation)
qed simp

text \<open>
  C28. A store of deviations survives its OSCAL form: when every deviation has its required fields and a scope
  made by the constructors, and identifiers do not repeat, reading the emitted risks gives back the store,
  with its order, its time limits, its actions and its priorities.
\<close>

theorem risks_roundtrip:
  assumes "list_all (persistable cd) store" and "distinct (map dv_id store)"
  shows "deviation_store_from_risks cd (JArray (risks_from_store cd store)) = Ok store"
  using risk_loop_roundtrip [of cd store "[]" 0] assms
  by (simp add: deviation_store_from_risks_def risks_from_store_def store_all_def store_new_def)

text \<open>An example: a waiver of each kind of scope, over a name decoder that accepts one encoding.\<close>

definition ex_persisted :: "string \<Rightarrow> deviation_scope \<Rightarrow> deviation" where
  "ex_persisted i sc =
     \<lparr> dv_id = i, target_lint = ''l.1'', dv_scope = sc, effective_start = Some 100, effective_end = None,
       dv_action = DowngradeSeverityTo Notice, justification = ''j'', authorized_by = ''a'',
       evidence_uri = Some ''u'', priority = - 7 \<rparr>"

definition ex_deviations :: deviation_store where
  "ex_deviations =
     [ex_persisted ''d1'' scope_any, ex_persisted ''d2'' (scope_issuer_dn_contains ''acme''),
      ex_persisted ''d3'' (scope_issuer_dn_exact [0xAB, 0x01]),
      ex_persisted ''d4'' (scope_serial_range [0xAB, 0x01] [] [0xFF])]"

theorem risks_roundtrip_witness:
  "deviation_store_from_risks (ex_lint_codec\<lparr> dec_name := \<lambda>_. Ok [], str_to_lowercase := map ascii_lower \<rparr>)
     (JArray (risks_from_store (ex_lint_codec\<lparr> dec_name := \<lambda>_. Ok [], str_to_lowercase := map ascii_lower \<rparr>)
       ex_deviations)) = Ok ex_deviations"
  by (rule risks_roundtrip)
    (auto simp: ex_deviations_def ex_persisted_def persistable_def name_decodes_def ascii_lower_def
      intro!: canonical_scopeI)

text \<open>
  A scope of a custom kind, which the store accepts and the emitter writes, is refused by the reader: the round
  trip is not over every non-empty store.
\<close>

lemma custom_scope_not_reparsed:
  assumes "ds_kind (dv_scope d) \<notin> {SCOPE_KIND_ANY, SCOPE_KIND_ISSUER_DN_CONTAINS, SCOPE_KIND_ISSUER_DN_EXACT,
      SCOPE_KIND_SERIAL_RANGE}"
    and "dv_id d \<noteq> []" and "target_lint d \<noteq> []" and "justification d \<noteq> []" and "authorized_by d \<noteq> []"
    and "- (2 ^ 31) \<le> priority d" and "priority d < 2 ^ 31"
  shows "store_add cd d store_new = ([d], Ok ()) \<and>
     deviation_store_from_risks cd (JArray (risks_from_store cd [d])) = Err (UnknownSubjectType 0 (ds_kind (dv_scope d)))"
proof
  show "store_add cd d store_new = ([d], Ok ())"
    using assms by (simp add: store_add_def store_new_def validate_scope_def normalize_scope_def)
  have prio: "parse_i32 (show_int (priority d)) = Some (priority d)"
    using assms(6,7) by (rule parse_i32_show)
  have action: "deviation_action_prop_value (dv_action d) \<noteq> []" by (cases "dv_action d") simp_all
  obtain m where sc: "encode_scope cd (dv_scope d) = [JObject m]" "m ''type'' = Some (JString (ds_kind (dv_scope d)))"
    using assms(1) by (auto simp: encode_scope_def Let_def)
  have "parse_risk cd 0 (risk_for_deviation cd d) = Err (UnknownSubjectType 0 (ds_kind (dv_scope d)))"
    using assms(1-3,5) action
    by (cases "effective_start d"; cases "effective_end d"; cases "evidence_uri d"; cases "priority d = 0")
      (simp_all add: parse_risk_def risk_for_deviation_def deviation_props_def required_nonempty_prop_def
        parse_action_value parse_optional_u64_def parse_optional_i32_def parse_u64_show prio sc
        parse_evidence_uri_def parse_subject_def)
  then show "deviation_store_from_risks cd (JArray (risks_from_store cd [d])) =
      Err (UnknownSubjectType 0 (ds_kind (dv_scope d)))"
    by (simp add: deviation_store_from_risks_def risks_from_store_def store_all_def)
qed

section \<open>A catalog names its lints\<close>

lemma set_unless_empty_object [simp]:
  "set_unless_empty k xs (JObject m) = JObject (if xs = [] then m else m(k \<mapsto> JArray xs))"
  by (simp add: set_unless_empty_def)

lemma control_object:
  "\<exists>m. control_for_lint cd l cid ver = JObject m \<and> m ''id'' = Some (JString (l_id l))"
  unfolding control_for_lint_def Let_def set_unless_empty_object json_set.simps
  by (intro exI conjI, rule refl) simp

lemma catalog_controls:
  "control_loop i (map (\<lambda>l. control_for_lint cd l cid ver) lints) =
     (if list_all (\<lambda>l. l_id l \<noteq> []) lints then Ok (map l_id lints)
      else Err (ControlIdEmpty (i + length (takeWhile (\<lambda>l. l_id l \<noteq> []) lints))))"
proof (induction lints arbitrary: i)
  case (Cons l lints)
  obtain m where "control_for_lint cd l cid ver = JObject m" "m ''id'' = Some (JString (l_id l))"
    using control_object by blast
  then show ?case by (simp add: Cons.IH)
qed simp

text \<open>
  The catalog emitted for a set of lints gives back their identifiers in order; when one is empty, the
  reader names the first such control.
\<close>

theorem catalog_roundtrip:
  "lint_ids_from_catalog (catalog_from_lints cd lints cid ver) =
     (if list_all (\<lambda>l. l_id l \<noteq> []) lints then Ok (map l_id lints)
      else Err (ControlIdEmpty (length (takeWhile (\<lambda>l. l_id l \<noteq> []) lints))))"
  by (simp add: lint_ids_from_catalog_def catalog_from_lints_def check_oscal_version_def json_get_def
      SUPPORTED_OSCAL_VERSIONS_def Let_def catalog_controls)

end
