(* ===== verification/OscalProfile.thy ===== *)
theory OscalProfile
  imports OscalParse
begin

text \<open>
  OSCAL profiles, \<open>oscal/profile.rs\<close>: the resolution of a profile, through the catalogs and the profiles it
  imports, to the identifiers of the selected lints and the overrides of their parameters. The map of sources
  is an association list; the recursion through imported profiles ends because no reference is entered twice.
\<close>

record resolved_profile =
  control_ids :: "string list"
  parameter_overrides :: "parameter_override list"

definition resolved_profile_new :: "string list \<Rightarrow> parameter_override list \<Rightarrow> resolved_profile" where
  "resolved_profile_new ids overs = \<lparr> control_ids = ids, parameter_overrides = overs \<rparr>"

definition parameter_override_new :: "string \<Rightarrow> string \<Rightarrow> parameter_override" where
  "parameter_override_new param_id v = \<lparr> po_param_id = param_id, po_value = v \<rparr>"

section \<open>The directives of an import\<close>

fun id_loop :: "nat \<Rightarrow> nat \<Rightarrow> json list \<Rightarrow> string list oscal_result" where
  "id_loop index entry_index [] = Ok []"
| "id_loop index entry_index (v # vs) =
     and_then (ok_or (ProfileWithIdNotString index entry_index) (as_str v)) (\<lambda>i.
       map_ok ((#) i) (id_loop index entry_index vs))"

fun with_ids_loop :: "nat \<Rightarrow> nat \<Rightarrow> json list \<Rightarrow> string list oscal_result" where
  "with_ids_loop index entry_index [] = Ok []"
| "with_ids_loop index entry_index (entry # entries) =
     and_then (ok_or (ProfileWithIdsEntryNotObject index entry_index) (as_object entry)) (\<lambda>obj.
     and_then (case obj ''with-ids'' of
         None \<Rightarrow> Ok []
       | Some with_ids \<Rightarrow>
           and_then (ok_or (ProfileWithIdsNotArray index entry_index) (as_array with_ids)) (id_loop index entry_index)) (\<lambda>ids.
       map_ok ((@) ids) (with_ids_loop index (entry_index + 1) entries)))"

definition included_ids :: "nat \<Rightarrow> (string \<Rightarrow> json option) \<Rightarrow> string list \<Rightarrow> string list oscal_result" where
  "included_ids index import_obj available =
     (if import_obj ''include-all'' \<noteq> None then Ok available
      else case import_obj ''include-controls'' of
             None \<Rightarrow> Ok []
           | Some directives \<Rightarrow>
               and_then (ok_or (ProfileIncludeControlsNotArray index) (as_array directives)) (\<lambda>entries.
               and_then (with_ids_loop index 0 entries) (\<lambda>wanted.
                 Ok (filter (\<lambda>i. i \<in> set wanted) available))))"

definition excluded_ids :: "nat \<Rightarrow> (string \<Rightarrow> json option) \<Rightarrow> string list oscal_result" where
  "excluded_ids index import_obj =
     (case import_obj ''exclude-controls'' of
        None \<Rightarrow> Ok []
      | Some directives \<Rightarrow>
          and_then (ok_or (ProfileExcludeControlsNotArray index) (as_array directives)) (with_ids_loop index 0))"

text \<open>Ids are added in order unless excluded or seen: the seen ones are those already in the result.\<close>

fun add_ids :: "string list \<Rightarrow> string list \<Rightarrow> string list \<Rightarrow> string list" where
  "add_ids excluded [] ids = ids"
| "add_ids excluded (i # included) ids =
     add_ids excluded included (if i \<in> set excluded \<or> i \<in> set ids then ids else ids @ [i])"

definition import_href :: "nat \<Rightarrow> (string \<Rightarrow> json option) \<Rightarrow> string oscal_result" where
  "import_href index import_obj =
     and_then (ok_or (ProfileImportMissingHref index) (import_obj ''href'')) (\<lambda>href_value.
     and_then (ok_or (ProfileImportHrefNotString index) (as_str href_value)) (\<lambda>href.
       if href = [] then Err (ProfileImportHrefEmpty index) else Ok href))"

fun set_parameter_loop :: "nat \<Rightarrow> json list \<Rightarrow> parameter_override list oscal_result" where
  "set_parameter_loop entry_index [] = Ok []"
| "set_parameter_loop entry_index (entry # entries) =
     and_then (ok_or (ProfileSetParameterNotObject entry_index) (as_object entry)) (\<lambda>obj.
     and_then (ok_or (ProfileSetParameterMissingId entry_index) (Option.bind (obj ''param-id'') as_str)) (\<lambda>param_id.
     if param_id = [] then Err (ProfileSetParameterIdEmpty entry_index)
     else
       and_then (ok_or (ProfileSetParameterValuesNotArray entry_index) (Option.bind (obj ''values'') as_array)) (\<lambda>values.
       case values of
         [] \<Rightarrow> Err (ProfileSetParameterValuesEmpty entry_index)
       | v # _ \<Rightarrow>
           and_then (ok_or (ProfileSetParameterValueNotString entry_index) (as_str v)) (\<lambda>v.
             map_ok ((#) \<lparr> po_param_id = param_id, po_value = v \<rparr>) (set_parameter_loop (entry_index + 1) entries)))))"

definition own_overrides :: "(string \<Rightarrow> json option) \<Rightarrow> parameter_override list oscal_result" where
  "own_overrides prof =
     (case Option.bind (Option.bind (prof ''modify'') as_object) (\<lambda>m. m ''set-parameters'') of
        None \<Rightarrow> Ok []
      | Some set_params \<Rightarrow>
          and_then (ok_or ProfileSetParametersNotArray (as_array set_params)) (set_parameter_loop 0))"

section \<open>The recursion\<close>

lemma and_then_cong [fundef_cong]:
  "\<lbrakk>r = r'; \<And>x. r' = Inr x \<Longrightarrow> f x = g x\<rbrakk> \<Longrightarrow> and_then r f = and_then r' g"
  by (cases r') simp_all

text \<open>
  \<open>stack\<close> holds the references being resolved. A nested resolution that succeeds leaves it as it was, so it is
  only passed down.
\<close>

function (sequential)
  resolve_profile_inner :: "(string \<times> json) list \<Rightarrow> string set \<Rightarrow> json \<Rightarrow> resolved_profile oscal_result" and
  import_loop ::
    "(string \<times> json) list \<Rightarrow> string set \<Rightarrow> nat \<Rightarrow> json list \<Rightarrow> resolved_profile \<Rightarrow> resolved_profile oscal_result"
where
  "resolve_profile_inner sources stack profile =
     and_then (ok_or ProfileNotObject (as_object profile)) (\<lambda>obj.
     and_then (ok_or ProfileMissingWrapper (Option.bind (obj ''profile'') as_object)) (\<lambda>prof.
     and_then (check_oscal_version prof) (\<lambda>_.
     and_then (ok_or ProfileImportsNotArray (Option.bind (prof ''imports'') as_array)) (\<lambda>imports.
     and_then (import_loop sources stack 0 imports \<lparr> control_ids = [], parameter_overrides = [] \<rparr>) (\<lambda>res.
     and_then (own_overrides prof) (\<lambda>overs.
       Ok (res\<lparr> parameter_overrides := parameter_overrides res @ overs \<rparr>)))))))"
| "import_loop sources stack index [] res = Ok res"
| "import_loop sources stack index (import # imports) res =
     and_then (ok_or (ProfileImportNotObject index) (as_object import)) (\<lambda>import_obj.
     and_then (import_href index import_obj) (\<lambda>href.
     and_then (ok_or (ProfileImportUnresolved index href) (map_of sources href)) (\<lambda>source.
     and_then (ok_or (ProfileImportSourceUnknown index href) (as_object source)) (\<lambda>source_obj.
     and_then (if source_obj ''profile'' \<noteq> None then
                 (if href \<in> stack then Err (ProfileImportCycle href)
                  else resolve_profile_inner sources (insert href stack) source)
               else if source_obj ''catalog'' \<noteq> None then
                 map_ok (\<lambda>ids. \<lparr> control_ids = ids, parameter_overrides = [] \<rparr>) (lint_ids_from_catalog source)
               else Err (ProfileImportSourceUnknown index href)) (\<lambda>nested.
     and_then (included_ids index import_obj (control_ids nested)) (\<lambda>included.
     and_then (excluded_ids index import_obj) (\<lambda>excluded.
       import_loop sources stack (index + 1) imports
         \<lparr> control_ids = add_ids excluded included (control_ids res),
           parameter_overrides = parameter_overrides res @ parameter_overrides nested \<rparr>)))))))"
  by pat_completeness auto

termination
proof (relation "measures
    [\<lambda>x. case x of Inl (sources, stack, _) \<Rightarrow> card (fst ` set sources - stack)
                  | Inr (sources, stack, _, _, _) \<Rightarrow> card (fst ` set sources - stack),
     \<lambda>x. case x of Inl _ \<Rightarrow> 1 | Inr _ \<Rightarrow> 0,
     \<lambda>x. case x of Inl _ \<Rightarrow> 0 | Inr (_, _, _, imports, _) \<Rightarrow> length imports]", goal_cases)
  case (3 sources stack index import imps res import_obj href source source_obj)
  then have "href \<in> fst ` set sources - stack" by (auto dest: map_of_SomeD intro: rev_image_eqI)
  then have "card (fst ` set sources - insert href stack) < card (fst ` set sources - stack)"
    by (intro psubset_card_mono) auto
  then show ?case by simp
qed simp_all

declare resolve_profile_inner.simps [simp del] import_loop.simps(2) [simp del]

definition resolve_profile :: "json \<Rightarrow> (string \<times> json) list \<Rightarrow> resolved_profile oscal_result" where
  "resolve_profile profile sources = resolve_profile_inner sources {} profile"

section \<open>What a resolved profile selects\<close>

text \<open>An identifier that a catalog among the sources names.\<close>

definition names_control :: "string \<Rightarrow> json \<Rightarrow> bool" where
  "names_control i source \<longleftrightarrow> (case lint_ids_from_catalog source of Inr ids \<Rightarrow> i \<in> set ids | Inl _ \<Rightarrow> False)"

definition in_some_catalog :: "(string \<times> json) list \<Rightarrow> string \<Rightarrow> bool" where
  "in_some_catalog sources i \<longleftrightarrow> list_ex (names_control i) (map snd sources)"

lemma included_ids_subset: "included_ids index m available = Inr ids \<Longrightarrow> set ids \<subseteq> set available"
  by (auto simp: included_ids_def and_then_Ok_iff split: if_splits option.splits)

lemma set_add_ids: "set (add_ids ex ins ids) = set ids \<union> (set ins - set ex)"
  by (induction ex ins ids rule: add_ids.induct) auto

lemma distinct_add_ids: "distinct ids \<Longrightarrow> distinct (add_ids ex ins ids)"
  by (induction ex ins ids rule: add_ids.induct) auto

lemma catalog_source_known:
  assumes "map_of sources href = Some source" and "lint_ids_from_catalog source = Inr ids"
  shows "list_all (in_some_catalog sources) ids"
proof -
  have "(href, source) \<in> set sources" using assms(1) by (rule map_of_SomeD)
  then show ?thesis using assms(2)
    by (force simp: list_all_iff in_some_catalog_def list_ex_iff names_control_def)
qed

lemma resolved_known:
  "resolve_profile_inner sources stack profile = Inr r \<Longrightarrow>
     distinct (control_ids r) \<and> list_all (in_some_catalog sources) (control_ids r)"
  "import_loop sources stack index imps res = Inr r \<Longrightarrow>
     distinct (control_ids res) \<Longrightarrow> list_all (in_some_catalog sources) (control_ids res) \<Longrightarrow>
     distinct (control_ids r) \<and> list_all (in_some_catalog sources) (control_ids r)"
proof (induction sources stack profile and sources stack index imps res arbitrary: r and r
    rule: resolve_profile_inner_import_loop.induct)
  case (1 sources stack profile)
  from 1(2) obtain obj prof imps res overs where
    steps: "as_object profile = Some obj" "Option.bind (obj ''profile'') as_object = Some prof"
      "check_oscal_version prof = Inr ()" "Option.bind (prof ''imports'') as_array = Some imps"
    and loop: "import_loop sources stack 0 imps \<lparr> control_ids = [], parameter_overrides = [] \<rparr> = Inr res"
    and r: "control_ids r = control_ids res"
    by (subst (asm) resolve_profile_inner.simps) (auto simp: and_then_Ok_iff)
  show ?case using 1(1) [OF _ _ _ _ loop] steps r by simp
next
  case (3 sources stack index import imps res)
  from 3(3) obtain import_obj href source source_obj nested included excluded where
    steps: "as_object import = Some import_obj"
      "import_href index import_obj = Inr href" "map_of sources href = Some source"
      "as_object source = Some source_obj"
    and nested: "(if source_obj ''profile'' \<noteq> None then
                 (if href \<in> stack then Err (ProfileImportCycle href)
                  else resolve_profile_inner sources (insert href stack) source)
               else if source_obj ''catalog'' \<noteq> None then
                 map_ok (\<lambda>ids. \<lparr> control_ids = ids, parameter_overrides = [] \<rparr>) (lint_ids_from_catalog source)
               else Err (ProfileImportSourceUnknown index href)) = Inr nested"
    and inc: "included_ids index import_obj (control_ids nested) = Inr included"
    and exc: "excluded_ids index import_obj = Inr excluded"
    and rest: "import_loop sources stack (index + 1) imps
         \<lparr> control_ids = add_ids excluded included (control_ids res),
           parameter_overrides = parameter_overrides res @ parameter_overrides nested \<rparr> = Inr r"
    unfolding import_loop.simps and_then_Ok_iff ok_or_Ok_iff by blast
  have "list_all (in_some_catalog sources) (control_ids nested)"
  proof (cases "source_obj ''profile'' \<noteq> None")
    case True
    with nested have "href \<notin> stack" "resolve_profile_inner sources (insert href stack) source = Inr nested"
      by (auto split: if_splits)
    with 3(1) steps True show ?thesis by simp
  next
    case False
    with nested obtain ids where "lint_ids_from_catalog source = Inr ids" "control_ids nested = ids"
      by (auto simp: map_ok_def split: if_splits sum.splits)
    with catalog_source_known [OF steps(3)] show ?thesis by simp
  qed
  moreover from included_ids_subset [OF inc] have "set included \<subseteq> set (control_ids nested)" .
  ultimately have "list_all (in_some_catalog sources) (add_ids excluded included (control_ids res))"
    using 3(5) by (auto simp: list_all_iff set_add_ids)
  moreover have "distinct (add_ids excluded included (control_ids res))" using 3(4) by (rule distinct_add_ids)
  ultimately show ?case using 3(2) [OF _ _ _ _ _ _ _ rest] steps nested inc exc by simp
qed simp

text \<open>
  C29. Resolving a profile ends, whatever the sources refer to, and a resolved profile selects every control once
  and only controls that a catalog among the sources names.
\<close>

theorem resolve_profile_known:
  assumes "resolve_profile profile sources = Ok r"
  shows "distinct (control_ids r) \<and> list_all (in_some_catalog sources) (control_ids r)"
  using resolved_known(1) assms unfolding resolve_profile_def by blast

text \<open>
  An example: a catalog of two lints, a profile that takes both and sets a parameter of the first, and one that
  imports it and excludes the first.
\<close>

definition ex_metadata :: json where "ex_metadata = JObject [''oscal-version'' \<mapsto> JString ''1.1.2'']"

definition ex_catalog :: json where
  "ex_catalog = JObject [''catalog'' \<mapsto> JObject
     [''metadata'' \<mapsto> ex_metadata,
      ''controls'' \<mapsto> JArray [JObject [''id'' \<mapsto> JString ''a''], JObject [''id'' \<mapsto> JString ''b'']]]]"

definition ex_inner_profile :: json where
  "ex_inner_profile = JObject [''profile'' \<mapsto> JObject
     [''metadata'' \<mapsto> ex_metadata,
      ''imports'' \<mapsto> JArray [JObject [''href'' \<mapsto> JString ''c'', ''include-all'' \<mapsto> JObject Map.empty]],
      ''modify'' \<mapsto> JObject [''set-parameters'' \<mapsto> JArray
        [JObject [''param-id'' \<mapsto> JString ''a.p'', ''values'' \<mapsto> JArray [JString ''1'']]]]]]"

definition ex_outer_profile :: json where
  "ex_outer_profile = JObject [''profile'' \<mapsto> JObject
     [''metadata'' \<mapsto> ex_metadata,
      ''imports'' \<mapsto> JArray [JObject
        [''href'' \<mapsto> JString ''p'', ''include-all'' \<mapsto> JObject Map.empty,
         ''exclude-controls'' \<mapsto> JArray [JObject [''with-ids'' \<mapsto> JArray [JString ''a'']]]]]]]"

definition ex_sources :: "(string \<times> json) list" where
  "ex_sources = [(''c'', ex_catalog), (''p'', ex_inner_profile)]"

lemma ex_outer_resolved:
  "resolve_profile ex_outer_profile ex_sources =
     Ok \<lparr> control_ids = [''b''], parameter_overrides = [\<lparr> po_param_id = ''a.p'', po_value = ''1'' \<rparr>] \<rparr>"
  by code_simp

theorem resolve_profile_known_witness: "in_some_catalog ex_sources ''b''"
  using resolve_profile_known [OF ex_outer_resolved] by simp

lemma import_cycle_detected:
  "resolve_profile ex_cyclic [(''x'', ex_cyclic)] = Err (ProfileImportCycle ''x'')"
  if "ex_cyclic = JObject [''profile'' \<mapsto> JObject
     [''metadata'' \<mapsto> ex_metadata, ''imports'' \<mapsto> JArray [JObject [''href'' \<mapsto> JString ''x'']]]]"
  unfolding that by code_simp

text \<open>
  The overrides of an imported profile survive the exclusion of the lint they belong to: such a resolved profile
  cannot be applied, for the runner filtered to its controls refuses its overrides.
\<close>

lemma filter_loop_ids:
  assumes "filter_loop by_id ids out = Inr ls" and "\<And>i l. by_id i = Some (Some l) \<Longrightarrow> l_id l = i"
  shows "l_id ` set ls \<subseteq> set ids \<union> l_id ` set out"
  using assms
proof (induction by_id ids out rule: filter_loop.induct)
  case (2 by_id i ids out)
  from 2(2) obtain slot where slot: "by_id i = Some slot" by (auto split: option.splits)
  with 2(2) have loop: "filter_loop (by_id(i \<mapsto> None)) ids (case slot of Some l \<Rightarrow> out @ [l] | None \<Rightarrow> out) = Inr ls"
    by simp
  have "l_id ` set ls \<subseteq> set ids \<union> l_id ` set (case slot of Some l \<Rightarrow> out @ [l] | None \<Rightarrow> out)"
  proof (rule 2(1) [OF slot loop])
    fix j l
    assume "(by_id(i \<mapsto> None)) j = Some (Some l)"
    then show "l_id l = j" using 2(3) [of j l] by (simp split: if_splits)
  qed
  moreover have "l_id l = i" if "slot = Some l" for l using 2(3) slot that by simp
  ultimately show ?case by (cases slot) auto
qed simp

lemma filter_to_ids_subset:
  assumes "filter_to_ids rn ids = Ok rn'"
  shows "l_id ` set (rn_lints rn') \<subseteq> set ids"
proof -
  have "l_id l = i" if "lints_by_id ls i = Some (Some l)" for ls i l
  proof -
    have "l_id l = i" if "fold (\<lambda>l m. m(l_id l \<mapsto> Some l)) ls m i = Some (Some l)"
      and "\<forall>j k. m j = Some (Some k) \<longrightarrow> l_id k = j" for m
      using that
    proof (induction ls arbitrary: m)
      case (Cons a ls)
      from Cons.prems(1) have step: "fold (\<lambda>l m. m(l_id l \<mapsto> Some l)) ls (m(l_id a \<mapsto> Some a)) i = Some (Some l)"
        by (simp only: fold_simps)
      have "\<forall>j k. (m(l_id a \<mapsto> Some a)) j = Some (Some k) \<longrightarrow> l_id k = j" using Cons.prems(2) by simp
      with step show ?case by (rule Cons.IH)
    qed simp
    from this [of "\<lambda>_. None"] that show ?thesis by (simp add: lints_by_id_def)
  qed
  note keyed = this
  from assms obtain ls where "filter_loop (lints_by_id (rn_lints rn)) ids [] = Inr ls" "rn_lints rn' = ls"
    by (auto simp: filter_to_ids_def map_ok_def split: sum.splits)
  with filter_loop_ids [of "lints_by_id (rn_lints rn)" ids "[]" ls] keyed [of "rn_lints rn"] show ?thesis by simp
qed

lemma excluded_override_refused:
  assumes "filter_to_ids rn [''b''] = Ok rn'"
  shows "apply_parameter_overrides rn' [\<lparr> po_param_id = ''a.p'', po_value = ''1'' \<rparr>] =
     (rn', Err (UnknownParameterOverride ''a.p''))"
proof -
  have "l_id l = ''b''" if "l \<in> set (rn_lints rn')" for l
    using filter_to_ids_subset [OF assms] that by auto
  moreover have False if "c \<in> set (override_candidates (rn_lints rn') ''a.p'')" for c
  proof -
    obtain i n r where c: "c = (i, n, r)" by (cases c)
    with that have "i < length (rn_lints rn')" "''a.p'' = l_id (rn_lints rn' ! i) @ ''.'' @ r"
      by (simp_all add: override_candidates_mem)
    with calculation [of "rn_lints rn' ! i"] show False by simp
  qed
  ultimately have "override_candidates (rn_lints rn') ''a.p'' = []"
    by (cases "override_candidates (rn_lints rn') ''a.p''") auto
  then show ?thesis by (simp add: apply_parameter_overrides_def)
qed

end
