(* ===== verification/OscalTime.thy ===== *)
theory OscalTime
  imports OscalEmit CtLog
begin

text \<open>
  The timestamps of the OSCAL emitter against the timestamp parser of \<open>pkix-ct\<close>: two independent
  implementations of the civil calendar, which agree for every time before the year 10000.
\<close>

section \<open>Cycles of the calendar\<close>

text \<open>
  A day of a 400-year cycle by its century, its four-year period in the century, and its year and day in that
  period, years beginning in March.
\<close>

lemma cycle_parts:
  assumes "doe < (146097 :: nat)"
  obtains c q a b where "doe = 36524 * c + 1461 * q + 365 * a + b" "c \<le> 3" "q \<le> 24" "a \<le> 3" "b \<le> 365"
    "b = 365 \<longrightarrow> a = 3" "q = 24 \<and> a = 3 \<and> b = 365 \<longrightarrow> c = 3"
proof -
  define c where "c = (if doe = 146096 then 3 else doe div 36524)"
  define r where "r = doe - 36524 * c"
  define q where "q = r div 1461"
  define s where "s = r mod 1461"
  define a where "a = (if s = 1460 then 3 else s div 365)"
  define b where "b = s - 365 * a"
  have c: "c \<le> 3" "36524 * c \<le> doe" "r \<le> 36524" "r = 36524 \<longrightarrow> c = 3"
    using assms by (auto simp: c_def r_def)
  have r: "r = 1461 * q + s" "s \<le> 1460" by (simp_all add: q_def s_def)
  have q: "q \<le> 24" using c(3) by (simp add: q_def)
  have s: "s = 365 * a + b" "a \<le> 3" "b \<le> 365" "b = 365 \<longrightarrow> a = 3"
    using r(2) by (auto simp: a_def b_def)
  have "q = 24 \<and> a = 3 \<and> b = 365 \<longrightarrow> r = 36524" using r(1) s(1) by simp
  with c(4) have last: "q = 24 \<and> a = 3 \<and> b = 365 \<longrightarrow> c = 3" by blast
  have "doe = 36524 * c + 1461 * q + 365 * a + b" using c(2) r(1) s(1) by (simp add: r_def)
  from that [OF this c(1) q s(2-4) last] show ?thesis .
qed

lemma year_of_cycle:
  assumes "doe = 36524 * c + 1461 * q + 365 * a + b" "c \<le> 3" "q \<le> 24" "a \<le> 3" "b \<le> 365"
    "b = 365 \<longrightarrow> a = 3" "q = 24 \<and> a = 3 \<and> b = 365 \<longrightarrow> c = 3"
  shows "(doe - doe div 1460 + doe div 36524 - doe div 146096) div 365 = 100 * c + 4 * q + (a :: nat)"
proof -
  define e where "e = (if 24 * c + q + 365 * a + b < 1460 then 0 else 1 :: nat)"
  have "doe div 1460 = 25 * c + q + e"
  proof (rule div_nat_eqI)
    show "1460 * (25 * c + q + e) \<le> doe" using assms(1) by (auto simp: e_def)
    show "doe < 1460 * Suc (25 * c + q + e)" using assms(1-5) by (auto simp: e_def)
  qed
  moreover have "doe div 36524 = c + doe div 146096"
  proof (cases "doe = 146096")
    case True
    then have "c = 3" using assms(1-5) by simp
    then show ?thesis using True by simp
  next
    case False
    have "1461 * q + 365 * a + b < 36524 \<or> c = 3 \<and> 1461 * q + 365 * a + b = 36524"
      using assms(3-7) by auto
    then have less: "1461 * q + 365 * a + b < 36524" using False assms(1) by auto
    then have "doe div 36524 = c" using assms(1) by (intro div_nat_eqI) simp_all
    moreover have "doe < 146096" using less assms(1,2) by simp
    ultimately show ?thesis by simp
  qed
  ultimately have "doe - doe div 1460 + doe div 36524 - doe div 146096 = doe - (25 * c + q + e) + c" by linarith
  also have "\<dots> = 365 * (100 * c + 4 * q + a) + b - e" using assms(1-5) by (auto simp: e_def)
  finally have "doe - doe div 1460 + doe div 36524 - doe div 146096 = 365 * (100 * c + 4 * q + a) + b - e" .
  moreover have "(365 * (100 * c + 4 * q + a) + b - e) div 365 = 100 * c + 4 * q + a"
  proof (rule div_nat_eqI)
    have "e = 0 \<or> e = 1" "e = 1 \<longrightarrow> 1 \<le> b" using assms(2-5) by (auto simp: e_def)
    moreover have "b = 365 \<longrightarrow> e = 1" using assms(6) by (auto simp: e_def)
    ultimately show "365 * (100 * c + 4 * q + a) \<le> 365 * (100 * c + 4 * q + a) + b - e"
      and "365 * (100 * c + 4 * q + a) + b - e < 365 * Suc (100 * c + 4 * q + a)"
      using assms(5) by (elim disjE; simp)+
  qed
  ultimately show ?thesis by simp
qed

lemma day_of_month:
  assumes "153 * mp \<le> 5 * doy + 2" and "5 * doy + 2 < 153 * mp + 153" and "doy \<le> (365 :: nat)"
    and "m = (if mp < 10 then mp + 3 else mp - 9)" and "d = doy - (153 * mp + 2) div 5 + 1"
  shows "1 \<le> m \<and> m \<le> 12 \<and> 1 \<le> d \<and> d \<le> 31 \<and> (m \<le> 2 \<longleftrightarrow> 306 \<le> doy) \<and>
    (153 * (if m > 2 then m - 3 else m + 9) + 2) div 5 + d - 1 = doy"
proof -
  have "mp \<le> 11" using assms(1,3) by linarith
  then consider "mp = 0" | "mp = 1" | "mp = 2" | "mp = 3" | "mp = 4" | "mp = 5" | "mp = 6" | "mp = 7" | "mp = 8"
    | "mp = 9" | "mp = 10" | "mp = 11"
    by atomize_elim arith
  then show ?thesis using assms by cases auto
qed

text \<open>A day count by the year, March to February, and the day in it.\<close>

lemma civil_parts:
  obtains era c q a b where "n + 719468 = 146097 * era + 36524 * c + 1461 * q + 365 * a + b"
    "c \<le> 3" "q \<le> 24" "a \<le> 3" "b \<le> 365"
    "civil_from_days n =
       (let mp = (5 * b + 2) div 153; m = (if mp < 10 then mp + 3 else mp - 9);
            y = 400 * era + 100 * c + 4 * q + a
        in (if m \<le> 2 then y + 1 else y, m, b - (153 * mp + 2) div 5 + 1))"
proof -
  define z era doe where "z = n + 719468" and "era = z div 146097" and "doe = z - era * 146097"
  have doe: "doe < 146097" "z = 146097 * era + doe"
    by (simp_all add: doe_def era_def minus_div_mult_eq_mod)
  from doe(1) obtain c q a b where parts: "doe = 36524 * c + 1461 * q + 365 * a + b" "c \<le> 3" "q \<le> 24" "a \<le> 3"
      "b \<le> 365" "b = 365 \<longrightarrow> a = 3" "q = 24 \<and> a = 3 \<and> b = 365 \<longrightarrow> c = 3"
    by (rule cycle_parts)
  define yoe where "yoe = 100 * c + 4 * q + a"
  have yoe: "(doe - doe div 1460 + doe div 36524 - doe div 146096) div 365 = yoe"
    unfolding yoe_def using parts by (rule year_of_cycle)
  have "yoe div 4 = 25 * c + q" using parts(4) by (intro div_nat_eqI) (simp_all add: yoe_def)
  moreover have "yoe div 100 = c" using parts(3,4) by (intro div_nat_eqI) (simp_all add: yoe_def)
  ultimately have doy: "doe - (365 * yoe + yoe div 4 - yoe div 100) = b" using parts(1) by (simp add: yoe_def)
  have "civil_from_days n =
       (let mp = (5 * b + 2) div 153; m = (if mp < 10 then mp + 3 else mp - 9);
            y = 400 * era + 100 * c + 4 * q + a
        in (if m \<le> 2 then y + 1 else y, m, b - (153 * mp + 2) div 5 + 1))"
    unfolding civil_from_days_def Let_def z_def [symmetric] era_def [symmetric] doe_def [symmetric] yoe doy
    by (simp add: yoe_def algebra_simps)
  with parts(2-5) show ?thesis by (intro that [of era c q a b]) (use doe(2) parts(1) in \<open>simp_all add: z_def\<close>)
qed

lemma civil_from_days_inverse:
  assumes "civil_from_days n = (y, m, d)"
  shows "days_from_civil (int y) (int m) (int d) = Ok (int n)" and "1 \<le> m" "m \<le> 12" "1 \<le> d" "d \<le> 31"
proof -
  obtain era c q a b where n: "n + 719468 = 146097 * era + 36524 * c + 1461 * q + 365 * a + b"
    and small: "c \<le> 3" "q \<le> 24" "a \<le> 3" "b \<le> 365"
    and civil: "civil_from_days n =
       (let mp = (5 * b + 2) div 153; m = (if mp < 10 then mp + 3 else mp - 9);
            y = 400 * era + 100 * c + 4 * q + a
        in (if m \<le> 2 then y + 1 else y, m, b - (153 * mp + 2) div 5 + 1))"
    by (rule civil_parts)
  define mp y' where "mp = (5 * b + 2) div 153" and "y' = 400 * era + 100 * c + 4 * q + a"
  have y: "m = (if mp < 10 then mp + 3 else mp - 9)" "d = b - (153 * mp + 2) div 5 + 1"
    "y = (if m \<le> 2 then y' + 1 else y')"
    using assms unfolding civil Let_def mp_def [symmetric] y'_def [symmetric] by auto
  have "153 * mp \<le> 5 * b + 2" "5 * b + 2 < 153 * mp + 153"
    unfolding mp_def by (simp_all add: dividend_less_times_div algebra_simps)
  note md = day_of_month [OF this small(4) y(1,2)]
  then show range: "1 \<le> m" "m \<le> 12" "1 \<le> d" "d \<le> 31" by blast+
  have march: "(if int m \<le> 2 then int y - 1 else int y) = int y'" using y(3) by auto
  have "month_days (int m) = int ((153 * (if m > 2 then m - 3 else m + 9) + 2) div 5)"
    by (auto simp: month_days_def zdiv_int of_nat_diff)
  then have month: "month_days (int m) + int d = int b + 1" using md by linarith
  have "y' div 4 = 100 * era + 25 * c + q" "y' div 100 = 4 * era + c" "y' div 400 = era"
    using small by (auto simp: y'_def intro!: div_nat_eqI)
  then have "int y' div 4 = int (100 * era + 25 * c + q)" "int y' div 100 = int (4 * era + c)" "int y' div 400 = int era"
    by (metis zdiv_int of_nat_numeral)+
  then have "march_days (int y') = int (146097 * era + 36524 * c + 1461 * q + 365 * a)"
    by (simp add: march_days_def y'_def)
  moreover have "days_from_civil (int y) (int m) (int d) = Ok (march_days (int y') + month_days (int m) + int d - 719469)"
    using days_from_civil_closed [of "int m" "int d" "int y"] range unfolding march by simp
  ultimately have "days_from_civil (int y) (int m) (int d) =
      Ok (int (146097 * era + 36524 * c + 1461 * q + 365 * a) + (int b + 1) - 719469)"
    using month by (simp add: add.assoc)
  also have "int (146097 * era + 36524 * c + 1461 * q + 365 * a) + (int b + 1) - 719469 = int n" using n by linarith
  finally show "days_from_civil (int y) (int m) (int d) = Ok (int n)" .
qed

lemma civil_year_bound:
  assumes "civil_from_days n = (y, m, d)" and "n < 2932897"
  shows "y \<le> 9999"
proof -
  obtain era c q a b where n: "n + 719468 = 146097 * era + 36524 * c + 1461 * q + 365 * a + b"
    and small: "c \<le> 3" "q \<le> 24" "a \<le> 3" "b \<le> 365"
    and civil: "civil_from_days n =
       (let mp = (5 * b + 2) div 153; m = (if mp < 10 then mp + 3 else mp - 9);
            y = 400 * era + 100 * c + 4 * q + a
        in (if m \<le> 2 then y + 1 else y, m, b - (153 * mp + 2) div 5 + 1))"
    by (rule civil_parts)
  define mp y' where "mp = (5 * b + 2) div 153" and "y' = 400 * era + 100 * c + 4 * q + a"
  have y: "m = (if mp < 10 then mp + 3 else mp - 9)" "y = (if m \<le> 2 then y' + 1 else y')"
    using assms(1) unfolding civil Let_def mp_def [symmetric] y'_def [symmetric] by auto
  have "153 * mp \<le> 5 * b + 2" "5 * b + 2 < 153 * mp + 153"
    unfolding mp_def by (simp_all add: dividend_less_times_div algebra_simps)
  from day_of_month [OF this small(4) y(1) refl] have m: "m \<le> 2 \<longleftrightarrow> 306 \<le> b" by blast
  have "era \<le> 24" using n assms(2) by linarith
  show ?thesis
  proof (cases "y' \<le> 9998")
    case True
    then show ?thesis using y(2) by simp
  next
    case False
    with small \<open>era \<le> 24\<close> have "era = 24" "c = 3" "q = 24" "a = 3" unfolding y'_def by linarith+
    with n assms(2) have "b < 306" by simp
    with m have "y = y'" using y(2) by simp
    with small \<open>era \<le> 24\<close> show ?thesis unfolding y'_def by linarith
  qed
qed

section \<open>Fields of fixed width\<close>

lemma length_show_nat: "v < 10 ^ n \<Longrightarrow> 0 < n \<Longrightarrow> length (show_nat v) \<le> n"
proof (induction v arbitrary: n rule: show_nat.induct)
  case (1 v)
  show ?case
  proof (cases "v < 10")
    case True
    with 1(3) show ?thesis by (simp add: show_nat.simps [of v])
  next
    case False
    from 1(2,3) obtain k where n: "n = Suc k" by (cases n) auto
    with False 1(2) have "v div 10 < 10 ^ k" "0 < k" by (auto intro!: Nat.gr0I)
    from 1(1) [OF False this] False n show ?thesis by (simp add: show_nat.simps [of v])
  qed
qed

lemma length_pad0: "v < 10 ^ n \<Longrightarrow> 0 < n \<Longrightarrow> length (pad0 n (show_nat v)) = n"
  using length_show_nat [of v n] by (simp add: pad0_def)

lemma parse_digits_loop_append:
  "parse_digits_loop out (xs @ ys) = and_then (parse_digits_loop out xs) (\<lambda>v. parse_digits_loop v ys)"
  by (induction out xs rule: parse_digits_loop.induct) (simp_all add: Let_def)

lemma parse_digits_loop_show: "v < 2 ^ 32 \<Longrightarrow> parse_digits_loop 0 (show_nat v) = Ok v"
proof (induction v rule: show_nat.induct)
  case (1 v)
  show ?case
  proof (cases "v < 10")
    case True
    then show ?thesis by (simp add: show_nat.simps [of v] is_ascii_digit_def)
  next
    case False
    with 1 have "parse_digits_loop 0 (show_nat (v div 10)) = Ok (v div 10)" by simp
    with False 1(2) show ?thesis
      by (simp add: show_nat.simps [of v] parse_digits_loop_append is_ascii_digit_def)
  qed
qed

lemma parse_digits_pad0: "v < 2 ^ 32 \<Longrightarrow> parse_digits (pad0 n (show_nat v)) = Ok v"
proof -
  assume v: "v < 2 ^ 32"
  have "parse_digits_loop 0 (replicate k (CHR ''0'') @ s) = parse_digits_loop 0 s" for k s
    by (induction k) (simp_all add: is_ascii_digit_def)
  then show ?thesis using parse_digits_loop_show [OF v] by (simp add: parse_digits_def pad0_def)
qed

lemma two_chars: "length s = 2 \<Longrightarrow> \<exists>a b. s = [a, b]"
  by (auto simp: numeral_eq_Suc length_Suc_conv)

lemma four_chars: "length s = 4 \<Longrightarrow> \<exists>a b c d. s = [a, b, c, d]"
  by (auto simp: numeral_eq_Suc length_Suc_conv)

lemma parse_rfc3339_fields:
  assumes "length ys = 4" "length ms = 2" "length ds = 2" "length hs = 2" "length mi = 2" "length ss = 2"
    and "parse_digits ys = Ok y" "parse_digits ms = Ok m" "parse_digits ds = Ok d" "parse_digits hs = Ok h"
      "parse_digits mi = Ok mn" "parse_digits ss = Ok sc"
    and "days_from_civil (int y) (int m) (int d) = Ok (int n)"
  shows "parse_rfc3339_to_unix_ms (ys @ ''-'' @ ms @ ''-'' @ ds @ ''T'' @ hs @ '':'' @ mi @ '':'' @ ss @ ''Z'') =
     Ok (of_nat (n * 86400 + h * 3600 + mn * 60 + sc) * 1000)"
proof -
  obtain y1 y2 y3 y4 m1 m2 d1 d2 h1 h2 i1 i2 s1 s2 where
    "ys = [y1, y2, y3, y4]" "ms = [m1, m2]" "ds = [d1, d2]" "hs = [h1, h2]" "mi = [i1, i2]" "ss = [s1, s2]"
    using assms(1-6) two_chars four_chars by metis
  with assms(7-) show ?thesis
    by (simp add: parse_rfc3339_to_unix_ms_def slice_def parse_fraction_def)
qed

text \<open>
  The timestamps the OSCAL emitter writes are read back by the timestamp parser of the log lists as the same
  instant, for every second up to the end of the year 9999.
\<close>

theorem rfc3339_roundtrip:
  assumes "unat unix < 253402300800"
  shows "parse_rfc3339_to_unix_ms (unix_to_rfc3339 unix) = Ok (unix * 1000)"
proof -
  obtain y m d where civil: "civil_from_days (unat unix div 86400) = (y, m, d)" by (metis prod_cases3)
  have range: "m \<le> 12" "d \<le> 31" and days: "days_from_civil (int y) (int m) (int d) = Ok (int (unat unix div 86400))"
    using civil_from_days_inverse [OF civil] by blast+
  have "unat unix div 86400 < 2932897" using assms by simp
  from civil_year_bound [OF civil this] have y: "y \<le> 9999" .
  let ?s = "unat unix mod 86400"
  have t: "?s div 3600 < 24" "?s mod 3600 div 60 < 60" "?s mod 60 < 60" by simp_all
  have split: "unat unix div 86400 * 86400 + ?s div 3600 * 3600 + ?s mod 3600 div 60 * 60 + ?s mod 60 = unat unix"
  proof -
    have "?s mod 3600 mod 60 = ?s mod 60" by (rule mod_mod_cancel) simp
    then show ?thesis
      using div_mult_mod_eq [of "unat unix" 86400] div_mult_mod_eq [of ?s 3600] div_mult_mod_eq [of "?s mod 3600" 60]
      by linarith
  qed
  let ?text = "pad0 4 (show_nat y) @ ''-'' @ pad0 2 (show_nat m) @ ''-'' @ pad0 2 (show_nat d) @ ''T'' @
      pad0 2 (show_nat (?s div 3600)) @ '':'' @ pad0 2 (show_nat (?s mod 3600 div 60)) @ '':'' @
      pad0 2 (show_nat (?s mod 60)) @ ''Z''"
  have rendered: "unix_to_rfc3339 unix = ?text"
    using assms civil by (simp add: unix_to_rfc3339_def Let_def)
  have "parse_rfc3339_to_unix_ms ?text =
      Ok (of_nat (unat unix div 86400 * 86400 + ?s div 3600 * 3600 + ?s mod 3600 div 60 * 60 + ?s mod 60) * 1000)"
    using y range t days by (intro parse_rfc3339_fields length_pad0) (simp_all add: parse_digits_pad0)
  then show ?thesis unfolding rendered split by simp
qed

theorem rfc3339_roundtrip_witness: "parse_rfc3339_to_unix_ms (unix_to_rfc3339 253402300799) = Ok 253402300799000"
  using rfc3339_roundtrip [of 253402300799] by simp

end
