(* ===== verification/ZlintBridge.thy ===== *)
theory ZlintBridge
  imports OscalParse
begin

text \<open>
  The bridge to the external linter zlint, \<open>pkix-zlint-bridge/src/lib.rs\<close>: the run of a child process with a
  deadline, the readers of its output, the verdict cache, and the batch that goes on past certificates zlint
  cannot parse. The operating system, zlint, SHA-256, and the JSON parser are the fields of \<open>zlint_world\<close>.
\<close>

section \<open>Verdicts and errors\<close>

datatype zlint_verdict = ZNotApplicable | ZPass | ZNotice | ZWarn | ZError | ZFatal

type_synonym verdict_map = "string \<Rightarrow> zlint_verdict option"

record zlint_lint_info =
  zi_check_id :: string
  zi_description :: string
  zi_citation :: string
  zi_source :: string
  zi_severity :: severity

datatype bridge_error =
    BinaryNotFound string
  | BinaryNotExecutable string
  | SubprocessFailed "int option" string
  | SubprocessKilled "int option"
  | SubprocessTimeout nat
  | OutputParseError string

datatype per_cert_error =
    MalformedDer string
  | UnsupportedCertType string
  | OtherCertError string

datatype zlint_error = ZBridge bridge_error | ZCert per_cert_error

type_synonym cert_result = "per_cert_error + verdict_map"

text \<open>A duration is its nanoseconds.\<close>

record bridge_config =
  bc_zlint_path :: string
  bc_timeout :: nat

definition default_bridge_config :: bridge_config where
  "default_bridge_config = \<lparr> bc_zlint_path = ''zlint'', bc_timeout = 60 * 10 ^ 9 \<rparr>"

section \<open>The world outside\<close>

datatype exit_status = Exited int | Signalled int

fun status_success :: "exit_status \<Rightarrow> bool" where
  "status_success (Exited c) \<longleftrightarrow> c = 0"
| "status_success (Signalled s) \<longleftrightarrow> False"

fun status_code :: "exit_status \<Rightarrow> int option" where
  "status_code (Exited c) = Some c"
| "status_code (Signalled s) = None"

fun status_signal :: "exit_status \<Rightarrow> int option" where
  "status_signal (Exited c) = None"
| "status_signal (Signalled s) = Some s"

record process_output =
  out_status :: exit_status
  out_stdout :: bytes
  out_stderr :: bytes

record io_fault =
  io_kind :: io_error_kind
  io_text :: string

text \<open>
  A spawned process: what the poll number \<open>k\<close> finds, the nanoseconds that pass before the clock is read after it
  (besides the sleep between two polls, which lasts at least as long as asked for), and what the two reader
  threads collect, nothing when the thread panics.
\<close>

record child =
  ch_stdout_pipe :: bool
  ch_stderr_pipe :: bool
  ch_try_wait :: "nat \<Rightarrow> io_fault + exit_status option"
  ch_delay :: "nat \<Rightarrow> nat"
  ch_stdout :: "(io_fault + bytes) option"
  ch_stderr :: "(io_fault + bytes) option"

text \<open>
  \<open>zw_spawn\<close> starts the binary at a path on its arguments, with the files of the scratch directory, as the process
  number it is given. \<open>zw_entries\<close> lists the keys of a JSON object in the order of its iteration.
\<close>

record zlint_world =
  zw_sha256 :: "bytes \<Rightarrow> bytes"
  zw_temp_root :: string
  zw_pid :: nat
  zw_now_nanos :: "nat \<Rightarrow> nat"
  zw_create_dir :: "string \<Rightarrow> io_fault option"
  zw_write :: "string \<Rightarrow> io_fault option"
  zw_spawn :: "nat \<Rightarrow> string \<Rightarrow> string list \<Rightarrow> (string \<Rightarrow> bytes option) \<Rightarrow> io_fault + child"
  zw_from_utf8 :: "bytes \<Rightarrow> string + string"
  zw_from_utf8_lossy :: "bytes \<Rightarrow> string"
  zw_from_json :: "string \<Rightarrow> string + json"
  zw_entries :: "(string \<Rightarrow> json option) \<Rightarrow> string list"
  zw_debug_str :: "string \<Rightarrow> string"
  zw_debug_duration :: "nat \<Rightarrow> string"

text \<open>
  The handle: its configuration, the cache behind a mutex, and whether the mutex is poisoned. The counter of
  scratch directories is a static of the crate; \<open>zb_spawned\<close> counts the processes started and is not in the code.
\<close>

record zlint_bridge =
  zb_config :: bridge_config
  zb_cache :: "bytes \<Rightarrow> verdict_map option"
  zb_poisoned :: bool
  zb_temp_counter :: u64
  zb_spawned :: nat

definition zlint_bridge_new :: "bridge_config \<Rightarrow> bridge_error + zlint_bridge" where
  "zlint_bridge_new config =
     Ok \<lparr> zb_config = config, zb_cache = (\<lambda>_. None), zb_poisoned = False, zb_temp_counter = 0, zb_spawned = 0 \<rparr>"

section \<open>Text\<close>

text \<open>The line splitting and trimming of \<open>str\<close>, on UTF-8: the characters of the Unicode property White_Space.\<close>

definition whitespace_chars :: "string list" where
  "whitespace_chars =
     map (\<lambda>c. [char_of (c :: nat)]) [9, 10, 11, 12, 13, 32] @
     map (map (char_of :: nat \<Rightarrow> char))
       ([[0xC2, 0x85], [0xC2, 0xA0], [0xE1, 0x9A, 0x80], [0xE2, 0x80, 0xA8], [0xE2, 0x80, 0xA9], [0xE2, 0x80, 0xAF],
         [0xE2, 0x81, 0x9F], [0xE3, 0x80, 0x80]] @
        map (\<lambda>c. [0xE2, 0x80, c]) [0x80, 0x81, 0x82, 0x83, 0x84, 0x85, 0x86, 0x87, 0x88, 0x89, 0x8A])"

definition leading_space :: "string list \<Rightarrow> string \<Rightarrow> nat" where
  "leading_space ws s = (case find (\<lambda>w. w \<noteq> [] \<and> take (length w) s = w) ws of Some w \<Rightarrow> length w | None \<Rightarrow> 0)"

function drop_spaces :: "string list \<Rightarrow> string \<Rightarrow> string" where
  "drop_spaces ws s = (if leading_space ws s = 0 then s else drop_spaces ws (drop (leading_space ws s) s))"
  by pat_completeness auto
termination
proof (relation "measure (length \<circ> snd)", simp)
  fix ws s
  assume n: "leading_space ws s \<noteq> 0"
  then have "s \<noteq> []" by (auto simp: leading_space_def find_Some_iff split: option.splits)
  with n show "((ws, drop (leading_space ws s) s), ws, s) \<in> measure (length \<circ> snd)" by simp
qed

declare drop_spaces.simps [simp del]

definition str_trim :: "string \<Rightarrow> string" where
  "str_trim s = rev (drop_spaces (map rev whitespace_chars) (rev (drop_spaces whitespace_chars s)))"

definition strip_cr :: "string \<Rightarrow> string" where
  "strip_cr s = (case strip_suffix [CHR 0x0D] s of Some l \<Rightarrow> l | None \<Rightarrow> s)"

definition str_lines :: "string \<Rightarrow> string list" where
  "str_lines s =
     (let ps = split_on (CHR 0x0A) s
      in map strip_cr (butlast ps) @ (if last ps = [] then [] else [last ps]))"

definition is_continuation :: "char \<Rightarrow> bool" where
  "is_continuation c \<longleftrightarrow> 0x80 \<le> (of_char c :: nat) \<and> (of_char c :: nat) < 0xC0"

fun take_chars :: "nat \<Rightarrow> string \<Rightarrow> string" where
  "take_chars n [] = []"
| "take_chars n (c # cs) =
     (if is_continuation c then c # take_chars n cs
      else case n of 0 \<Rightarrow> [] | Suc m \<Rightarrow> c # take_chars m cs)"

definition truncate_for_display :: "string \<Rightarrow> string" where
  "truncate_for_display s = (if length s \<le> 512 then s else take_chars 512 s @ ''... (truncated)'')"

fun display_bridge_error :: "zlint_world \<Rightarrow> bridge_error \<Rightarrow> string" where
  "display_bridge_error w (BinaryNotFound path) = ''zlint binary not found at '' @ path"
| "display_bridge_error w (BinaryNotExecutable path) = ''zlint binary at '' @ path @ '' is not executable''"
| "display_bridge_error w (SubprocessFailed (Some code) stderr) =
     ''zlint subprocess exited with code '' @ show_int code @ '': '' @ truncate_for_display stderr"
| "display_bridge_error w (SubprocessFailed None stderr) =
     ''zlint subprocess exited abnormally: '' @ truncate_for_display stderr"
| "display_bridge_error w (SubprocessKilled (Some sig)) = ''zlint subprocess killed by signal '' @ show_int sig"
| "display_bridge_error w (SubprocessKilled None) = ''zlint subprocess killed by unknown signal''"
| "display_bridge_error w (SubprocessTimeout t) = ''zlint subprocess exceeded timeout '' @ zw_debug_duration w t"
| "display_bridge_error w (OutputParseError detail) = ''zlint output parse error: '' @ detail"

fun display_per_cert_error :: "per_cert_error \<Rightarrow> string" where
  "display_per_cert_error (MalformedDer detail) = ''malformed certificate DER: '' @ detail"
| "display_per_cert_error (UnsupportedCertType detail) = ''unsupported certificate type: '' @ detail"
| "display_per_cert_error (OtherCertError detail) = ''per-cert error: '' @ detail"

fun display_zlint_error :: "zlint_world \<Rightarrow> zlint_error \<Rightarrow> string" where
  "display_zlint_error w (ZBridge e) = ''zlint bridge error: '' @ display_bridge_error w e"
| "display_zlint_error w (ZCert e) = ''zlint cert error: '' @ display_per_cert_error e"

section \<open>The child process\<close>

definition spawn_error :: "string \<Rightarrow> io_fault \<Rightarrow> bridge_error" where
  "spawn_error path err =
     (case io_kind err of
        NotFound \<Rightarrow> BinaryNotFound path
      | PermissionDenied \<Rightarrow> BinaryNotExecutable path
      | _ \<Rightarrow> SubprocessFailed None (io_text err))"

definition POLL_SLEEP :: nat where "POLL_SLEEP = 10 * 10 ^ 6"

text \<open>
  The poll loop; \<open>elapsed\<close> is the reading of the clock since the loop was entered. It ends because every round
  sleeps. A timeout so large that the deadline is not an instant of the clock is outside the model.
\<close>

function wait_loop :: "child \<Rightarrow> nat \<Rightarrow> nat \<Rightarrow> nat \<Rightarrow> bridge_error + exit_status" where
  "wait_loop ch timeout k elapsed =
     (case ch_try_wait ch k of
        Inl e \<Rightarrow> Err (SubprocessFailed None (io_text e))
      | Inr (Some status) \<Rightarrow> Ok status
      | Inr None \<Rightarrow>
          if elapsed + ch_delay ch k \<ge> timeout then Err (SubprocessTimeout timeout)
          else wait_loop ch timeout (Suc k) (elapsed + ch_delay ch k + POLL_SLEEP))"
  by pat_completeness auto
termination by (relation "measure (\<lambda>(ch, timeout, k, elapsed). timeout - elapsed)") (auto simp: POLL_SLEEP_def)

declare wait_loop.simps [simp del]

definition wait_for_child :: "child \<Rightarrow> nat \<Rightarrow> bridge_error + exit_status" where
  "wait_for_child ch timeout = wait_loop ch timeout 0 0"

definition join_reader :: "exit_status \<Rightarrow> string \<Rightarrow> (io_fault + bytes) option \<Rightarrow> bridge_error + bytes" where
  "join_reader status name collected =
     (case collected of
        None \<Rightarrow> Err (SubprocessFailed (status_code status) (name @ '' reader thread panicked''))
      | Some (Inl e) \<Rightarrow> Err (SubprocessFailed (status_code status) (name @ '' drain io error: '' @ io_text e))
      | Some (Inr bs) \<Rightarrow> Ok bs)"

definition child_output :: "child \<Rightarrow> nat \<Rightarrow> bridge_error + process_output" where
  "child_output ch timeout =
     (if \<not> ch_stdout_pipe ch then Err (SubprocessFailed None ''child stdout pipe missing'')
      else if \<not> ch_stderr_pipe ch then Err (SubprocessFailed None ''child stderr pipe missing'')
      else and_then (wait_for_child ch timeout) (\<lambda>status.
           and_then (join_reader status ''stdout'' (ch_stdout ch)) (\<lambda>stdout.
           and_then (join_reader status ''stderr'' (ch_stderr ch)) (\<lambda>stderr.
             Ok \<lparr> out_status = status, out_stdout = stdout, out_stderr = stderr \<rparr>))))"

definition run_subprocess ::
  "zlint_world \<Rightarrow> zlint_bridge \<Rightarrow> string list \<Rightarrow> (string \<Rightarrow> bytes option) \<Rightarrow> zlint_bridge \<times> (bridge_error + process_output)"
where
  "run_subprocess w b args files =
     (let path = bc_zlint_path (zb_config b);
          b' = b\<lparr> zb_spawned := zb_spawned b + 1 \<rparr>
      in (b', and_then (map_err (spawn_error path) (zw_spawn w (zb_spawned b) path args files))
                (\<lambda>ch. child_output ch (bc_timeout (zb_config b)))))"

definition classify_exit :: "zlint_world \<Rightarrow> exit_status \<Rightarrow> bytes \<Rightarrow> bridge_error" where
  "classify_exit w status stderr_bytes =
     (case status_signal status of
        Some sig \<Rightarrow> SubprocessKilled (Some sig)
      | None \<Rightarrow> SubprocessFailed (status_code status) (zw_from_utf8_lossy w stderr_bytes))"

section \<open>The readers of the output\<close>

definition json_required_string :: "zlint_world \<Rightarrow> (string \<Rightarrow> json option) \<Rightarrow> string \<Rightarrow> string + string" where
  "json_required_string w obj key =
     (case obj key of
        None \<Rightarrow> Err (''missing required field '' @ zw_debug_str w key)
      | Some v \<Rightarrow> ok_or (''field '' @ zw_debug_str w key @ '' is not a string'') (as_str v))"

definition json_optional_string :: "zlint_world \<Rightarrow> (string \<Rightarrow> json option) \<Rightarrow> string \<Rightarrow> string + string" where
  "json_optional_string w obj key =
     (case obj key of
        None \<Rightarrow> Ok []
      | Some JNull \<Rightarrow> Ok []
      | Some v \<Rightarrow> ok_or (''field '' @ zw_debug_str w key @ '' is not a string'') (as_str v))"

definition severity_for_check_name :: "zlint_world \<Rightarrow> string \<Rightarrow> string + severity" where
  "severity_for_check_name w name =
     (case strip_prefix ''e_'' name of
        Some rest \<Rightarrow>
          if rest = [] then Err (''empty check id after e_ prefix: '' @ zw_debug_str w name) else Ok SevError
      | None \<Rightarrow>
     (case strip_prefix ''w_'' name of
        Some rest \<Rightarrow>
          if rest = [] then Err (''empty check id after w_ prefix: '' @ zw_debug_str w name) else Ok SevWarn
      | None \<Rightarrow>
     (case strip_prefix ''n_'' name of
        Some rest \<Rightarrow>
          if rest = [] then Err (''empty check id after n_ prefix: '' @ zw_debug_str w name) else Ok Notice
      | None \<Rightarrow>
          Err (''unrecognised zlint catalog severity prefix in '' @ zw_debug_str w name @ ''; expected e_/w_/n_''))))"

definition parse_list_lints_line :: "zlint_world \<Rightarrow> string \<Rightarrow> string + zlint_lint_info" where
  "parse_list_lints_line w line =
     and_then (map_err (\<lambda>e. ''malformed JSON: '' @ e) (zw_from_json w line)) (\<lambda>parsed.
     and_then (ok_or ''expected JSON object at top level'' (as_object parsed)) (\<lambda>obj.
     and_then (json_required_string w obj ''name'') (\<lambda>name.
     and_then (json_optional_string w obj ''description'') (\<lambda>description.
     and_then (json_optional_string w obj ''citation'') (\<lambda>citation.
     and_then (json_optional_string w obj ''source'') (\<lambda>source.
     and_then (severity_for_check_name w name) (\<lambda>sev.
       Ok \<lparr> zi_check_id = name, zi_description = description, zi_citation = citation, zi_source = source,
            zi_severity = sev \<rparr>)))))))"

text \<open>The loop over the lines both readers share; blank lines are skipped but counted.\<close>

fun line_loop :: "(string \<Rightarrow> string + 'a) \<Rightarrow> nat \<Rightarrow> string list \<Rightarrow> string + 'a list" where
  "line_loop parse lineno [] = Ok []"
| "line_loop parse lineno (line # rest) =
     (let line = str_trim line
      in if line = [] then line_loop parse (lineno + 1) rest
         else and_then (map_err (\<lambda>e. ''line '' @ show_nat (lineno + 1) @ '': '' @ e) (parse line)) (\<lambda>x.
              and_then (line_loop parse (lineno + 1) rest) (\<lambda>xs. Ok (x # xs))))"

definition parse_list_lints_ndjson :: "zlint_world \<Rightarrow> bytes \<Rightarrow> bridge_error + zlint_lint_info list" where
  "parse_list_lints_ndjson w stdout =
     and_then (map_err (\<lambda>e. OutputParseError (''zlint stdout is not valid UTF-8: '' @ e)) (zw_from_utf8 w stdout))
       (\<lambda>content.
     and_then (map_err OutputParseError (line_loop (parse_list_lints_line w) 0 (str_lines content))) (\<lambda>out.
       if out = [] then Err (OutputParseError ''zlint -list-lints-json produced no entries'') else Ok out))"

definition zlint_verdict_from_str :: "zlint_world \<Rightarrow> string \<Rightarrow> string + zlint_verdict" where
  "zlint_verdict_from_str w s =
     (if s = ''NA'' \<or> s = ''NE'' then Ok ZNotApplicable
      else if s = ''pass'' then Ok ZPass
      else if s = ''notice'' then Ok ZNotice
      else if s = ''warn'' then Ok ZWarn
      else if s = ''error'' then Ok ZError
      else if s = ''fatal'' then Ok ZFatal
      else Err (''unknown zlint verdict '' @ zw_debug_str w s @
                ''; expected NA / NE / pass / notice / warn / error / fatal''))"

fun entry_loop :: "zlint_world \<Rightarrow> (string \<Rightarrow> json option) \<Rightarrow> string list \<Rightarrow> verdict_map \<Rightarrow> string + verdict_map" where
  "entry_loop w obj [] out = Ok out"
| "entry_loop w obj (name # names) out =
     and_then (ok_or (''entry '' @ zw_debug_str w name @ '' missing '' @ [CHR 0x27] @ ''result'' @ [CHR 0x27] @ '' string'')
         (Option.bind (obj name) (\<lambda>entry. Option.bind (json_get ''result'' entry) as_str))) (\<lambda>result_str.
     and_then (map_err (\<lambda>e. ''entry '' @ zw_debug_str w name @ '': '' @ e) (zlint_verdict_from_str w result_str)) (\<lambda>v.
       entry_loop w obj names (out(name \<mapsto> v))))"

definition parse_per_cert_json_value :: "zlint_world \<Rightarrow> string \<Rightarrow> string + verdict_map" where
  "parse_per_cert_json_value w content =
     and_then (map_err (\<lambda>e. ''malformed JSON: '' @ e) (zw_from_json w content)) (\<lambda>parsed.
     and_then (ok_or ''expected JSON object at top level'' (as_object parsed)) (\<lambda>obj.
       entry_loop w obj (zw_entries w obj) (\<lambda>_. None)))"

definition stdout_text :: "zlint_world \<Rightarrow> bytes \<Rightarrow> string + string" where
  "stdout_text w stdout = map_err (\<lambda>e. ''stdout not valid UTF-8: '' @ e) (zw_from_utf8 w stdout)"

definition parse_per_cert_output :: "zlint_world \<Rightarrow> bytes \<Rightarrow> string + verdict_map" where
  "parse_per_cert_output w stdout =
     and_then (stdout_text w stdout) (\<lambda>content. parse_per_cert_json_value w (str_trim content))"

definition parse_per_cert_ndjson :: "zlint_world \<Rightarrow> bytes \<Rightarrow> string + verdict_map list" where
  "parse_per_cert_ndjson w stdout =
     and_then (stdout_text w stdout) (\<lambda>content. line_loop (parse_per_cert_json_value w) 0 (str_lines content))"

definition looks_like_malformed :: "string \<Rightarrow> bool" where
  "looks_like_malformed stderr \<longleftrightarrow>
     contains_str stderr ''unable to parse input'' \<or> contains_str stderr ''parsing as certificate'' \<or>
     contains_str stderr ''malformed''"

definition classify_zlint_cert_error :: "zlint_world \<Rightarrow> bytes \<Rightarrow> per_cert_error" where
  "classify_zlint_cert_error w stderr_bytes =
     (let stderr = zw_from_utf8_lossy w stderr_bytes
      in if looks_like_malformed stderr then MalformedDer stderr else OtherCertError stderr)"

section \<open>The scratch directory\<close>

definition zlint_hex_encode :: "bytes \<Rightarrow> string" where
  "zlint_hex_encode bs = concat (map (\<lambda>b. [hex_digit (unat b div 16), hex_digit (unat b mod 16)]) bs)"

definition temp_dir_new :: "zlint_world \<Rightarrow> zlint_bridge \<Rightarrow> zlint_bridge \<times> (bridge_error + string)" where
  "temp_dir_new w b =
     (let counter = unat (zb_temp_counter b);
          path = zw_temp_root w @ ''/pkix-zlint-bridge-'' @ show_nat (zw_pid w) @ ''-'' @ show_nat counter @ ''-'' @
                 show_nat (zw_now_nanos w counter);
          b' = b\<lparr> zb_temp_counter := zb_temp_counter b + 1 \<rparr>
      in (b', case zw_create_dir w path of
                None \<Rightarrow> Ok path
              | Some e \<Rightarrow> Err (SubprocessFailed None (''temp dir create failed at '' @ path @ '': '' @ io_text e))))"

definition der_path :: "string \<Rightarrow> bytes \<Rightarrow> string" where
  "der_path dir key = dir @ ''/'' @ zlint_hex_encode key @ ''.der''"

definition write_der ::
  "zlint_world \<Rightarrow> string \<Rightarrow> (string \<Rightarrow> bytes option) \<Rightarrow> bytes \<Rightarrow> bytes \<Rightarrow> bridge_error + (string \<times> (string \<Rightarrow> bytes option))"
where
  "write_der w dir files bs key =
     (let path = der_path dir key
      in case zw_write w path of
           None \<Rightarrow> Ok (path, files(path \<mapsto> bs))
         | Some e \<Rightarrow> Err (SubprocessFailed None (''temp file write failed at '' @ path @ '': '' @ io_text e)))"

section \<open>The cache and the single certificate\<close>

definition zb_cache_get :: "zlint_bridge \<Rightarrow> bytes \<Rightarrow> verdict_map option" where
  "zb_cache_get b key = (if zb_poisoned b then None else zb_cache b key)"

definition zb_cache_put :: "zlint_bridge \<Rightarrow> bytes \<Rightarrow> verdict_map \<Rightarrow> zlint_bridge" where
  "zb_cache_put b key v = (if zb_poisoned b then b else b\<lparr> zb_cache := (zb_cache b)(key \<mapsto> v) \<rparr>)"

definition enumerate_lints :: "zlint_world \<Rightarrow> zlint_bridge \<Rightarrow> zlint_bridge \<times> (bridge_error + zlint_lint_info list)" where
  "enumerate_lints w b =
     (case run_subprocess w b [''-list-lints-json''] (\<lambda>_. None) of
        (b, Inl e) \<Rightarrow> (b, Err e)
      | (b, Inr out) \<Rightarrow>
          (b, if \<not> status_success (out_status out) then Err (classify_exit w (out_status out) (out_stderr out))
              else parse_list_lints_ndjson w (out_stdout out)))"

definition run_on_cert :: "zlint_world \<Rightarrow> zlint_bridge \<Rightarrow> bytes \<Rightarrow> zlint_bridge \<times> (zlint_error + verdict_map)" where
  "run_on_cert w b cert_der =
     (let key = zw_sha256 w cert_der
      in case zb_cache_get b key of
           Some hit \<Rightarrow> (b, Ok hit)
         | None \<Rightarrow>
        (case temp_dir_new w b of
           (b, Inl e) \<Rightarrow> (b, Err (ZBridge e))
         | (b, Inr dir) \<Rightarrow>
        (case write_der w dir (\<lambda>_. None) cert_der key of
           Inl e \<Rightarrow> (b, Err (ZBridge e))
         | Inr (path, files) \<Rightarrow>
        (case run_subprocess w b [''-format'', ''der'', path] files of
           (b, Inl e) \<Rightarrow> (b, Err (ZBridge e))
         | (b, Inr out) \<Rightarrow>
             if \<not> status_success (out_status out) then (b, Err (ZCert (classify_zlint_cert_error w (out_stderr out))))
             else (case parse_per_cert_output w (out_stdout out) of
                     Inl detail \<Rightarrow> (b, Err (ZBridge (OutputParseError detail)))
                   | Inr verdicts \<Rightarrow> (zb_cache_put b key verdicts, Ok verdicts))))))"

section \<open>The batch\<close>

fun scan_loop ::
  "zlint_world \<Rightarrow> zlint_bridge \<Rightarrow> nat \<Rightarrow> bytes list \<Rightarrow> cert_result option list \<Rightarrow> nat list \<Rightarrow>
   cert_result option list \<times> nat list"
where
  "scan_loop w b i [] results open_idxs = (results, open_idxs)"
| "scan_loop w b i (der # ders) results open_idxs =
     (case zb_cache_get b (zw_sha256 w der) of
        Some cached \<Rightarrow> scan_loop w b (i + 1) ders (results[i := Some (Ok cached)]) open_idxs
      | None \<Rightarrow> scan_loop w b (i + 1) ders results (open_idxs @ [i]))"

fun write_loop ::
  "zlint_world \<Rightarrow> string \<Rightarrow> bytes list \<Rightarrow> bytes list \<Rightarrow> nat list \<Rightarrow> (string \<Rightarrow> bytes option) \<Rightarrow>
   bridge_error + (string list \<times> (string \<Rightarrow> bytes option))"
where
  "write_loop w dir certs keys [] files = Ok ([], files)"
| "write_loop w dir certs keys (idx # idxs) files =
     and_then (write_der w dir files (certs ! idx) (keys ! idx)) (\<lambda>(path, files).
     and_then (write_loop w dir certs keys idxs files) (\<lambda>(paths, files). Ok (path # paths, files)))"

text \<open>The loop over \<open>zip\<close>: it ends with the shorter list.\<close>

fun record_lines ::
  "bytes list \<Rightarrow> nat list \<Rightarrow> verdict_map list \<Rightarrow> zlint_bridge \<Rightarrow> cert_result option list \<Rightarrow>
   zlint_bridge \<times> cert_result option list"
where
  "record_lines keys (slot # slots) (line # lines) b results =
     record_lines keys slots lines (zb_cache_put b (keys ! slot) line) (results[slot := Some (Ok line)])"
| "record_lines keys _ _ b results = (b, results)"

definition run_pending_batch ::
  "zlint_world \<Rightarrow> zlint_bridge \<Rightarrow> bytes list \<Rightarrow> bytes list \<Rightarrow> nat list \<Rightarrow> cert_result option list \<Rightarrow>
   zlint_bridge \<times> (bridge_error + (nat list \<times> cert_result option list))"
where
  "run_pending_batch w b certs keys open_idxs results =
     (case temp_dir_new w b of
        (b, Inl e) \<Rightarrow> (b, Err e)
      | (b, Inr dir) \<Rightarrow>
     (case write_loop w dir certs keys open_idxs (\<lambda>_. None) of
        Inl e \<Rightarrow> (b, Err e)
      | Inr (paths, files) \<Rightarrow>
     (case run_subprocess w b (''-format'' # ''der'' # paths) files of
        (b, Inl e) \<Rightarrow> (b, Err e)
      | (b, Inr out) \<Rightarrow>
     (case parse_per_cert_ndjson w (out_stdout out) of
        Inl detail \<Rightarrow> (b, Err (OutputParseError detail))
      | Inr lines \<Rightarrow>
          if status_success (out_status out) then
            if length lines \<noteq> length open_idxs then
              (b, Err (OutputParseError (''zlint succeeded but emitted '' @ show_nat (length lines) @ '' lines for '' @
                    show_nat (length open_idxs) @ '' inputs'')))
            else (case record_lines keys open_idxs lines b results of (b, results) \<Rightarrow> (b, Ok ([], results)))
          else
            let stderr = zw_from_utf8_lossy w (out_stderr out)
            in if \<not> looks_like_malformed stderr then (b, Err (classify_exit w (out_status out) (out_stderr out)))
               else if length lines > length open_idxs then
                 (b, Err (OutputParseError (''zlint failed but emitted '' @ show_nat (length lines) @ '' lines for '' @
                       show_nat (length open_idxs) @ '' inputs'')))
               else
                 (case record_lines keys open_idxs lines b results of
                    (b, results) \<Rightarrow>
                      if length lines = length open_idxs then
                        (b, Err (OutputParseError (''zlint failed but every input produced a line; stderr: '' @
                              truncate_for_display stderr)))
                      else (b, Ok (drop (length lines + 1) open_idxs,
                                   results[open_idxs ! length lines := Some (Err (MalformedDer stderr))])))))))"

lemma run_pending_batch_shrinks:
  "run_pending_batch w b certs keys open_idxs results = (b', Inr (open_idxs', results')) \<Longrightarrow> open_idxs \<noteq> [] \<Longrightarrow>
   length open_idxs' < length open_idxs"
  by (auto simp: run_pending_batch_def Let_def split: prod.splits sum.splits if_splits)

function batch_loop ::
  "zlint_world \<Rightarrow> zlint_bridge \<Rightarrow> bytes list \<Rightarrow> bytes list \<Rightarrow> nat list \<Rightarrow> cert_result option list \<Rightarrow>
   zlint_bridge \<times> (bridge_error + cert_result option list)"
where
  "batch_loop w b certs keys open_idxs results =
     (if open_idxs = [] then (b, Ok results)
      else case run_pending_batch w b certs keys open_idxs results of
             (b, Inl e) \<Rightarrow> (b, Err e)
           | (b, Inr (open_idxs, results)) \<Rightarrow> batch_loop w b certs keys open_idxs results)"
  by pat_completeness auto
termination
  by (relation "measure (\<lambda>(w, b, certs, keys, open_idxs, results). length open_idxs)")
    (auto intro: run_pending_batch_shrinks dest: sym)

declare batch_loop.simps [simp del]

text \<open>The errors of the batch; the second is the panic of \<open>expect\<close>.\<close>

datatype batch_error = BatchBridge bridge_error | EveryIndexFilledPanic

definition unwrap_results :: "cert_result option list \<Rightarrow> batch_error + cert_result list" where
  "unwrap_results results =
     (if None \<in> set results then Err EveryIndexFilledPanic else Ok (map the results))"

definition run_on_certs :: "zlint_world \<Rightarrow> zlint_bridge \<Rightarrow> bytes list \<Rightarrow> zlint_bridge \<times> (batch_error + cert_result list)" where
  "run_on_certs w b certs =
     (if certs = [] then (b, Ok [])
      else case scan_loop w b 0 certs (replicate (length certs) None) [] of
             (results, open_idxs) \<Rightarrow>
        (case batch_loop w b certs (map (zw_sha256 w) certs) open_idxs results of
           (b, Inl e) \<Rightarrow> (b, Err (BatchBridge e))
         | (b, Inr results) \<Rightarrow> (b, unwrap_results results)))"

section \<open>The adapter to the lint engine\<close>

text \<open>
  \<open>pkix-policy-zlint/src/lib.rs\<close>. Every adapted lint shares the bridge, so a check takes it and returns it changed;
  \<open>zlint_lint\<close> is the lint at a given state of the bridge.
\<close>

fun verdict_result :: "zlint_verdict option \<Rightarrow> lint_result" where
  "verdict_result (Some ZNotApplicable) = NotApplicable"
| "verdict_result None = NotApplicable"
| "verdict_result (Some ZPass) = LintPass"
| "verdict_result (Some ZNotice) = LintWarn ''zlint notice (see check description)''"
| "verdict_result (Some ZWarn) = LintWarn ''zlint warn (see check description)''"
| "verdict_result (Some ZError) = LintError ''zlint error (see check description)''"
| "verdict_result (Some ZFatal) = LintFatal ''zlint fatal (see check description)''"

definition zlint_check_cert ::
  "'x ct_codec_scheme \<Rightarrow> zlint_world \<Rightarrow> zlint_lint_info \<Rightarrow> zlint_bridge \<Rightarrow> certificate \<Rightarrow> zlint_bridge \<times> lint_result"
where
  "zlint_check_cert cd w info b cert =
     (case enc_certificate cd cert of
        Inl e \<Rightarrow> (b, LintError (''pkix-policy-zlint: re-encode cert to DER failed: '' @ display_der_error e))
      | Inr der \<Rightarrow>
     (case run_on_cert w b der of
        (b, Inl e) \<Rightarrow> (b, LintError (''pkix-policy-zlint: zlint bridge run_on_cert failed: '' @ display_zlint_error w e))
      | (b, Inr verdicts) \<Rightarrow> (b, verdict_result (verdicts (zi_check_id info)))))"

definition zlint_title :: "zlint_lint_info \<Rightarrow> string" where
  "zlint_title info = (if zi_description info = [] then zi_check_id info else zi_description info)"

definition zlint_description :: "zlint_lint_info \<Rightarrow> string option" where
  "zlint_description info = (if zi_description info = [] then None else Some (zi_description info))"

definition zlint_lint :: "'x ct_codec_scheme \<Rightarrow> zlint_world \<Rightarrow> zlint_bridge \<Rightarrow> zlint_lint_info \<Rightarrow> lint" where
  "zlint_lint cd w b info =
     Lint (zi_check_id info) (zi_citation info) (zi_severity info) CertificateScope AnyKind
       (Some (zlint_title info)) (zlint_description info) None None None None []
       default_set_parameter (\<lambda>cert kind now_unix. snd (zlint_check_cert cd w info b cert)) default_check_path"

definition zlint_all_lints :: "'x ct_codec_scheme \<Rightarrow> zlint_world \<Rightarrow> zlint_bridge \<Rightarrow> zlint_bridge \<times> (bridge_error + lint list)" where
  "zlint_all_lints cd w b =
     (case enumerate_lints w b of
        (b, Inl e) \<Rightarrow> (b, Err e)
      | (b, Inr infos) \<Rightarrow> (b, Ok (map (zlint_lint cd w b) infos)))"


section \<open>Every certificate of a batch is answered\<close>

lemma Cons_eq_dropD:
  assumes "x # xs = drop i ys"
  shows "i < length ys" "ys ! i = x" "xs = drop (Suc i) ys"
proof -
  show i: "i < length ys" using assms by (metis drop_all linorder_not_less list.distinct(1))
  with assms have "x # xs = ys ! i # drop (Suc i) ys" by (simp add: Cons_nth_drop_Suc)
  then show "ys ! i = x" "xs = drop (Suc i) ys" by simp_all
qed

lemma scan_loop_pending:
  "ders = drop i certs \<Longrightarrow>
   snd (scan_loop w b i ders results open_idxs) =
     open_idxs @ filter (\<lambda>j. zb_cache_get b (zw_sha256 w (certs ! j)) = None) [i..<length certs]"
proof (induction ders arbitrary: i results open_idxs)
  case (Cons der ders)
  note i = Cons_eq_dropD [OF Cons.prems]
  show ?case using i(1,2) by (simp add: Cons.IH [OF i(3)] upt_conv_Cons split: option.splits)
qed simp

lemma scan_loop_results:
  assumes "ders = drop i certs" "length results = length certs" "\<And>j. i \<le> j \<Longrightarrow> j < length certs \<Longrightarrow> results ! j = None"
  shows "length (fst (scan_loop w b i ders results open_idxs)) = length certs \<and>
     (\<forall>j < length certs. fst (scan_loop w b i ders results open_idxs) ! j =
        (if i \<le> j then map_option Ok (zb_cache_get b (zw_sha256 w (certs ! j))) else results ! j))"
  using assms
proof (induction ders arbitrary: i results open_idxs)
  case (Cons der ders)
  note i = Cons_eq_dropD [OF Cons.prems(1)]
  define results' where
    "results' = (case zb_cache_get b (zw_sha256 w der) of Some v \<Rightarrow> results[i := Some (Ok v)] | None \<Rightarrow> results)"
  define idxs where "idxs = (if zb_cache_get b (zw_sha256 w der) = None then open_idxs @ [i] else open_idxs)"
  have step: "scan_loop w b i (der # ders) results open_idxs = scan_loop w b (Suc i) ders results' idxs"
    by (simp add: results'_def idxs_def split: option.splits)
  have len: "length results' = length certs" using Cons.prems(2) by (simp add: results'_def split: option.splits)
  have "results' ! j = None" if "Suc i \<le> j" "j < length certs" for j
    using that Cons.prems(3) by (simp add: results'_def split: option.splits)
  note IH = Cons.IH [OF i(3) len this, of idxs]
  have "results ! i = None" using Cons.prems(3) i(1) by simp
  then have "results' ! j = (if i \<le> j then map_option Ok (zb_cache_get b (zw_sha256 w (certs ! j))) else results ! j)"
    if "j \<le> i" for j
    using that Cons.prems(2) i(1) by (cases "j = i") (auto simp: results'_def i(2) split: option.splits)
  with IH show ?case unfolding step by (simp add: not_less_eq_eq)
qed simp

lemma record_lines_results:
  "length lines \<le> length slots \<Longrightarrow> \<forall>s\<in>set slots. s < length results \<Longrightarrow>
   length (snd (record_lines keys slots lines b results)) = length results \<and>
   (\<forall>j < length results. snd (record_lines keys slots lines b results) ! j = None \<longrightarrow>
      results ! j = None \<and> j \<notin> set (take (length lines) slots))"
proof (induction keys slots lines b results rule: record_lines.induct)
  case (1 keys slot slots line lines b results)
  then show ?case by (auto simp: nth_list_update split: if_splits)
qed auto

lemma record_lines_answers:
  assumes "record_lines keys slots lines b results = (b', results')" "\<not> length slots < length lines"
    and "\<forall>s\<in>set slots. s < length results"
  shows "length results' = length results"
    "j < length results \<Longrightarrow> results' ! j = None \<Longrightarrow> results ! j = None \<and> j \<notin> set (take (length lines) slots)"
  using record_lines_results [of lines slots results keys b] assms by simp_all

lemma run_pending_batch_cases:
  assumes "run_pending_batch w b certs keys open_idxs results = (b', Inr (open_idxs', results'))"
  obtains (finished) b1 lines where "length lines = length open_idxs" "open_idxs' = []"
      "record_lines keys open_idxs lines b1 results = (b', results')"
  | (malformed) b1 lines r1 stderr where "length lines < length open_idxs" "open_idxs' = drop (length lines + 1) open_idxs"
      "record_lines keys open_idxs lines b1 results = (b', r1)"
      "results' = r1[open_idxs ! length lines := Some (Err (MalformedDer stderr))]"
proof -
  from assms show thesis
    unfolding run_pending_batch_def Let_def
    by (auto split: prod.splits sum.splits if_splits intro: finished)
      (rule malformed; assumption?; simp)
qed

lemma run_pending_batch_answers:
  assumes step: "run_pending_batch w b certs keys open_idxs results = (b', Inr (open_idxs', results'))"
    and range: "\<forall>s\<in>set open_idxs. s < length results"
    and open_slots: "\<And>j. j < length results \<Longrightarrow> results ! j = None \<Longrightarrow> j \<in> set open_idxs"
  shows "length results' = length results \<and> set open_idxs' \<subseteq> set open_idxs \<and>
    (\<forall>j < length results. results' ! j = None \<longrightarrow> j \<in> set open_idxs')"
  using step
proof (cases rule: run_pending_batch_cases)
  case (finished b1 lines)
  then have "\<not> length open_idxs < length lines" by simp
  note r = record_lines_answers [OF finished(3) this range]
  have "False" if "j < length results" "results' ! j = None" for j
    using r(2) [OF that] open_slots [of j] that(1) finished(1) by simp
  with r(1) finished(2) show ?thesis by auto
next
  case (malformed b1 lines r1 stderr)
  let ?k = "length lines"
  have k: "?k < length open_idxs" by (rule malformed(1))
  then have "\<not> length open_idxs < ?k" by simp
  have "set open_idxs = set (take ?k open_idxs @ open_idxs ! ?k # drop (Suc ?k) open_idxs)"
    using id_take_nth_drop [OF k] by simp
  then have parts: "set open_idxs = insert (open_idxs ! ?k) (set (take ?k open_idxs) \<union> set open_idxs')"
    using malformed(2) by simp
  note r1 = record_lines_answers [OF malformed(3) \<open>\<not> length open_idxs < ?k\<close> range]
  have "j \<in> set open_idxs'" if j: "j < length results" "results' ! j = None" for j
  proof -
    have "j \<noteq> open_idxs ! ?k" using j r1(1) malformed(4) by auto
    with j malformed(4) have "r1 ! j = None" by simp
    from r1(2) [OF j(1) this] open_slots [OF j(1)] \<open>j \<noteq> _\<close> parts show ?thesis by auto
  qed
  with r1(1) parts malformed(4) show ?thesis by auto
qed

lemma batch_loop_answers:
  assumes "batch_loop w b certs keys open_idxs results = (b', Inr results')"
    and "\<forall>s\<in>set open_idxs. s < length results"
    and "\<And>j. j < length results \<Longrightarrow> results ! j = None \<Longrightarrow> j \<in> set open_idxs"
  shows "length results' = length results \<and> None \<notin> set results'"
  using assms
proof (induction w b certs keys open_idxs results rule: batch_loop.induct)
  case (1 w b certs keys open_idxs results)
  show ?case
  proof (cases "open_idxs = []")
    case True
    with 1(2) have "results' = results" by (simp add: batch_loop.simps [of w b certs keys "[]"])
    with True 1(4) show ?thesis by (fastforce simp: in_set_conv_nth)
  next
    case False
    with 1 obtain b1 p1 r1 where step: "run_pending_batch w b certs keys open_idxs results = (b1, Inr (p1, r1))"
      and rest: "batch_loop w b1 certs keys p1 r1 = (b', Inr results')"
      unfolding batch_loop.simps [of w b certs keys open_idxs] by (simp split: prod.splits sum.splits)
    note a = run_pending_batch_answers [OF step 1(3) 1(4), simplified]
    have "\<forall>s\<in>set p1. s < length r1" using a 1(3) by auto
    moreover have "\<And>j. j < length r1 \<Longrightarrow> r1 ! j = None \<Longrightarrow> j \<in> set p1" using a by simp
    ultimately have "length results' = length r1 \<and> None \<notin> set results'"
      by (rule 1(1) [OF False step [symmetric] refl refl rest])
    with a show ?thesis by simp
  qed
qed

text \<open>
  The batch never reaches its panic: whatever zlint prints, either the whole call fails with an error of the
  bridge, or there is exactly one answer for each certificate.
\<close>

theorem run_on_certs_total:
  "case snd (run_on_certs w b certs) of
     Inl e \<Rightarrow> e \<noteq> EveryIndexFilledPanic
   | Inr rs \<Rightarrow> length rs = length certs"
proof (cases "certs = []")
  case False
  obtain results open_idxs where scan: "scan_loop w b 0 certs (replicate (length certs) None) [] = (results, open_idxs)"
    by fastforce
  have r: "length results = length certs" "\<And>j. j < length certs \<Longrightarrow>
      results ! j = map_option Ok (zb_cache_get b (zw_sha256 w (certs ! j)))"
    using scan_loop_results [of certs 0 certs "replicate (length certs) None" w b "[]"] scan by simp_all
  have p: "open_idxs = filter (\<lambda>j. zb_cache_get b (zw_sha256 w (certs ! j)) = None) [0..<length certs]"
    using scan_loop_pending [of certs 0 certs w b "replicate (length certs) None" "[]"] scan by simp
  have in_range: "\<forall>s\<in>set open_idxs. s < length results" using p r by auto
  have open_slots: "\<And>j. j < length results \<Longrightarrow> results ! j = None \<Longrightarrow> j \<in> set open_idxs" using p r by auto
  show ?thesis
  proof (cases "batch_loop w b certs (map (zw_sha256 w) certs) open_idxs results")
    case (Pair b' res)
    show ?thesis
    proof (cases res)
      case (Inl e)
      with False scan Pair show ?thesis by (simp add: run_on_certs_def)
    next
      case (Inr results')
      have "length results' = length results \<and> None \<notin> set results'"
        by (rule batch_loop_answers [OF _ in_range open_slots]) (use Pair Inr in simp_all)
      with False scan Pair Inr r(1) show ?thesis by (simp add: run_on_certs_def unwrap_results_def)
    qed
  qed
qed (simp add: run_on_certs_def)

end
