(* ===== verification/ZlintContract.thy ===== *)
theory ZlintContract
  imports ZlintBridge CtVerify
begin

text \<open>
  What the bridge gives when zlint keeps the shape of output its documentation fixes: one line for each file in the
  order of the arguments, up to the first file it cannot parse, which ends the run with a failure. Then a batch
  answers each certificate as a run on it alone would, and the lints of \<open>pkix-policy-zlint\<close> read these answers.
\<close>

unbundle bit_operations_syntax

section \<open>The contract of zlint\<close>

text \<open>\<open>judge c\<close> is the verdict map of a certificate, \<open>None\<close> for one zlint cannot parse.\<close>

definition reports :: "zlint_world \<Rightarrow> (bytes \<Rightarrow> verdict_map option) \<Rightarrow> bytes list \<Rightarrow> process_output \<Rightarrow> bool" where
  "reports w judge cs out \<longleftrightarrow>
     parse_per_cert_ndjson w (out_stdout out) = Ok (map (the \<circ> judge) (takeWhile (\<lambda>c. judge c \<noteq> None) cs)) \<and>
     (status_success (out_status out) \<longleftrightarrow> (\<forall>c\<in>set cs. judge c \<noteq> None)) \<and>
     (\<not> status_success (out_status out) \<longrightarrow> looks_like_malformed (zw_from_utf8_lossy w (out_stderr out))) \<and>
     (\<forall>c v. cs = [c] \<longrightarrow> judge c = Some v \<longrightarrow> parse_per_cert_output w (out_stdout out) = Ok v)"

definition zlint_contract :: "zlint_world \<Rightarrow> bridge_config \<Rightarrow> (bytes \<Rightarrow> verdict_map option) \<Rightarrow> bool" where
  "zlint_contract w config judge \<longleftrightarrow>
     (\<forall>p. zw_create_dir w p = None \<and> zw_write w p = None) \<and>
     (\<forall>b ps files cs. zb_config b = config \<longrightarrow> cs \<noteq> [] \<longrightarrow> map files ps = map Some cs \<longrightarrow>
        (\<exists>out. snd (run_subprocess w b (''-format'' # ''der'' # ps) files) = Ok out \<and> reports w judge cs out))"

definition cache_agrees :: "zlint_world \<Rightarrow> (bytes \<Rightarrow> verdict_map option) \<Rightarrow> bytes set \<Rightarrow> zlint_bridge \<Rightarrow> bool" where
  "cache_agrees w judge S b \<longleftrightarrow> (\<forall>c\<in>S. \<forall>v. zb_cache b (zw_sha256 w c) = Some v \<longrightarrow> judge c = Some v)"

definition answer_ok :: "(bytes \<Rightarrow> verdict_map option) \<Rightarrow> bytes \<Rightarrow> cert_result \<Rightarrow> bool" where
  "answer_ok judge c r \<longleftrightarrow>
     (case r of Inr v \<Rightarrow> judge c = Some v | Inl e \<Rightarrow> judge c = None \<and> (\<exists>d. e = MalformedDer d))"

definition answers_ok :: "(bytes \<Rightarrow> verdict_map option) \<Rightarrow> bytes list \<Rightarrow> cert_result option list \<Rightarrow> bool" where
  "answers_ok judge certs results \<longleftrightarrow>
     length results = length certs \<and> (\<forall>j < length certs. \<forall>r. results ! j = Some r \<longrightarrow> answer_ok judge (certs ! j) r)"

lemma answers_ok_update:
  assumes "answers_ok judge certs results" "answer_ok judge (certs ! i) r"
  shows "answers_ok judge certs (results[i := Some r])"
proof -
  have "answer_ok judge (certs ! j) r'" if "j < length certs" "results[i := Some r] ! j = Some r'" for j r'
    using that assms by (cases "i = j") (auto simp: answers_ok_def)
  with assms(1) show ?thesis by (simp add: answers_ok_def)
qed

lemma run_subprocess_bridge:
  "fst (run_subprocess w b args files) = b\<lparr> zb_spawned := zb_spawned b + 1 \<rparr>"
  by (simp add: run_subprocess_def Let_def)

lemma cache_get_agrees:
  "cache_agrees w judge S b \<Longrightarrow> c \<in> S \<Longrightarrow> zb_cache_get b (zw_sha256 w c) = Some v \<Longrightarrow> judge c = Some v"
  by (auto simp: cache_agrees_def zb_cache_get_def split: if_splits)

lemma cache_put_agrees:
  assumes "inj_on (zw_sha256 w) S" "c \<in> S" "judge c = Some v" "cache_agrees w judge S b"
  shows "cache_agrees w judge S (zb_cache_put b (zw_sha256 w c) v)"
  using assms by (auto simp: cache_agrees_def zb_cache_put_def dest: inj_onD)

lemma cache_put_rest [simp]:
  "zb_config (zb_cache_put b k v) = zb_config b" "zb_spawned (zb_cache_put b k v) = zb_spawned b"
  "zb_poisoned (zb_cache_put b k v) = zb_poisoned b"
  by (simp_all add: zb_cache_put_def)

section \<open>The scratch directory\<close>

lemma byte_halves_unat:
  fixes b :: u8
  shows "unat (drop_bit 4 b) = unat b div 16" "unat (b AND 15) = unat b mod 16"
proof -
  show "unat (drop_bit 4 b) = unat b div 16" by (simp add: drop_bit_eq_div unat_div_distrib)
  have "(15 :: u8) = mask 4" by (simp add: mask_eq_exp_minus_1)
  then have "b AND 15 = take_bit 4 b" by (simp add: take_bit_eq_mask)
  then show "unat (b AND 15) = unat b mod 16" by (simp add: take_bit_eq_mod unat_mod_distrib)
qed

lemma zlint_hex_encode_inject: "zlint_hex_encode xs = zlint_hex_encode ys \<Longrightarrow> xs = ys"
proof -
  have "zlint_hex_encode bs = hex bs" for bs
    by (simp add: zlint_hex_encode_def hex_def byte_halves_unat)
  then show "zlint_hex_encode xs = zlint_hex_encode ys \<Longrightarrow> xs = ys" by (metis hex_decode_hex option.inject)
qed

lemma der_path_inject: "der_path dir k = der_path dir k' \<longleftrightarrow> k = k'"
  by (auto simp: der_path_def dest: zlint_hex_encode_inject)

lemma temp_dir_new_works:
  assumes "zw_create_dir w = (\<lambda>_. None)"
  obtains dir where "temp_dir_new w b = (b\<lparr> zb_temp_counter := zb_temp_counter b + 1 \<rparr>, Ok dir)"
  using assms by (simp add: temp_dir_new_def Let_def)

lemma write_loop_works:
  assumes "zw_write w = (\<lambda>_. None)" "inj_on (zw_sha256 w) (set certs)" "\<forall>i\<in>set idxs. i < length certs"
  shows "\<exists>files'. write_loop w dir certs (map (zw_sha256 w) certs) idxs files =
       Ok (map (\<lambda>i. der_path dir (zw_sha256 w (certs ! i))) idxs, files') \<and>
     (\<forall>i < length certs. i \<in> set idxs \<or> files (der_path dir (zw_sha256 w (certs ! i))) = Some (certs ! i) \<longrightarrow>
        files' (der_path dir (zw_sha256 w (certs ! i))) = Some (certs ! i))"
  using assms(3)
proof (induction idxs arbitrary: files)
  case (Cons i idxs)
  let ?files = "files(der_path dir (zw_sha256 w (certs ! i)) \<mapsto> certs ! i)"
  from Cons obtain files' where rest:
    "write_loop w dir certs (map (zw_sha256 w) certs) idxs ?files =
       Ok (map (\<lambda>i. der_path dir (zw_sha256 w (certs ! i))) idxs, files')"
    "\<forall>j < length certs. j \<in> set idxs \<or> ?files (der_path dir (zw_sha256 w (certs ! j))) = Some (certs ! j) \<longrightarrow>
       files' (der_path dir (zw_sha256 w (certs ! j))) = Some (certs ! j)"
    by (metis list.set_intros(2))
  have "?files (der_path dir (zw_sha256 w (certs ! j))) = Some (certs ! j)"
    if "j < length certs" "j = i \<or> files (der_path dir (zw_sha256 w (certs ! j))) = Some (certs ! j)" for j
    using that Cons.prems inj_onD [OF assms(2), of "certs ! j" "certs ! i"] by (auto simp: der_path_inject)
  with rest Cons.prems assms(1) show ?case by (auto simp: write_der_def Let_def)
qed simp

section \<open>One run of the batch\<close>

lemma record_lines_exact:
  assumes "inj_on (zw_sha256 w) (set certs)" "keys = map (zw_sha256 w) certs"
    and "\<forall>(s, line)\<in>set (zip slots lines). s < length certs \<and> judge (certs ! s) = Some line"
    and "cache_agrees w judge (set certs) b" "answers_ok judge certs results"
    and "record_lines keys slots lines b results = (b', results')"
  shows "zb_config b' = zb_config b \<and> zb_spawned b' = zb_spawned b \<and> zb_poisoned b' = zb_poisoned b \<and>
    cache_agrees w judge (set certs) b' \<and> answers_ok judge certs results'"
  using assms(2-)
proof (induction keys slots lines b results rule: record_lines.induct)
  case (1 keys slot slots line lines b results)
  have slot: "slot < length certs" "judge (certs ! slot) = Some line" using 1(3) by auto
  have agrees: "cache_agrees w judge (set certs) (zb_cache_put b (keys ! slot) line)"
    using cache_put_agrees [OF assms(1) _ slot(2) 1(4)] slot(1) 1(2) by simp
  have ok: "answers_ok judge certs (results[slot := Some (Ok line)])"
    by (rule answers_ok_update [OF 1(5)]) (simp add: answer_ok_def slot(2))
  from 1(1) [OF 1(2) _ agrees ok] 1(3,6) show ?case by simp
qed auto

lemma run_pending_batch_exact:
  assumes "zlint_contract w (zb_config b) judge" "inj_on (zw_sha256 w) (set certs)"
    and "idxs \<noteq> []" "\<forall>i\<in>set idxs. i < length certs"
    and "cache_agrees w judge (set certs) b" "answers_ok judge certs results"
  obtains b' idxs' results' where
    "run_pending_batch w b certs (map (zw_sha256 w) certs) idxs results = (b', Ok (idxs', results'))"
    "zb_config b' = zb_config b" "zb_spawned b' = zb_spawned b + 1"
    "cache_agrees w judge (set certs) b'" "answers_ok judge certs results'" "set idxs' \<subseteq> set idxs"
    "idxs' = [] \<or> length (filter (\<lambda>i. judge (certs ! i) = None) idxs') < length (filter (\<lambda>i. judge (certs ! i) = None) idxs)"
proof -
  let ?good = "\<lambda>i. judge (certs ! i) \<noteq> None"
  have works: "zw_create_dir w = (\<lambda>_. None)" "zw_write w = (\<lambda>_. None)"
    using assms(1) by (auto simp: zlint_contract_def fun_eq_iff)
  obtain dir where dir: "temp_dir_new w b = (b\<lparr> zb_temp_counter := zb_temp_counter b + 1 \<rparr>, Ok dir)"
    using temp_dir_new_works [OF works(1)] by blast
  define b1 where "b1 = b\<lparr> zb_temp_counter := zb_temp_counter b + 1 \<rparr>"
  define paths where "paths = map (\<lambda>i. der_path dir (zw_sha256 w (certs ! i))) idxs"
  define cs where "cs = map (\<lambda>i. certs ! i) idxs"
  obtain files where files: "write_loop w dir certs (map (zw_sha256 w) certs) idxs (\<lambda>_. None) = Ok (paths, files)"
    "map files paths = map Some cs"
    using write_loop_works [OF works(2) assms(2,4), of dir "\<lambda>_. None"] assms(4) by (auto simp: paths_def cs_def)
  have "zb_config b1 = zb_config b" "cs \<noteq> []" using assms(3) by (simp_all add: b1_def cs_def)
  then obtain out where out: "snd (run_subprocess w b1 (''-format'' # ''der'' # paths) files) = Ok out"
    and reports: "reports w judge cs out"
    using assms(1) files(2) unfolding zlint_contract_def by blast
  define b2 where "b2 = b1\<lparr> zb_spawned := zb_spawned b1 + 1 \<rparr>"
  have run: "run_subprocess w b1 (''-format'' # ''der'' # paths) files = (b2, Ok out)"
    using out run_subprocess_bridge [of w b1] by (simp add: b2_def prod_eq_iff)
  define lines where "lines = map (\<lambda>i. the (judge (certs ! i))) (takeWhile ?good idxs)"
  have ndjson: "parse_per_cert_ndjson w (out_stdout out) = Ok lines"
    using reports by (simp add: reports_def lines_def cs_def takeWhile_map o_def)
  have pairs: "\<forall>(s, line)\<in>set (zip idxs lines). s < length certs \<and> judge (certs ! s) = Some line"
  proof clarify
    fix s line
    assume "(s, line) \<in> set (zip idxs lines)"
    then obtain n where n: "n < length (takeWhile ?good idxs)" "s = idxs ! n" "line = the (judge (certs ! s))"
      by (auto simp: in_set_zip lines_def takeWhile_nth)
    then have "s \<in> set (takeWhile ?good idxs)" by (metis nth_mem takeWhile_nth)
    with n(3) assms(4) show "s < length certs \<and> judge (certs ! s) = Some line" by (auto dest: set_takeWhileD)
  qed
  obtain b3 r1 where rec: "record_lines (map (zw_sha256 w) certs) idxs lines b2 results = (b3, r1)" by fastforce
  have agrees: "cache_agrees w judge (set certs) b2" using assms(5) by (simp add: cache_agrees_def b1_def b2_def)
  note after = record_lines_exact [OF assms(2) refl pairs agrees assms(6) rec]
  have rest: "zb_config b3 = zb_config b" "zb_spawned b3 = zb_spawned b + 1" "cache_agrees w judge (set certs) b3"
    using after by (simp_all add: b1_def b2_def)
  have status: "status_success (out_status out) \<longleftrightarrow> (\<forall>i\<in>set idxs. ?good i)"
    "\<not> status_success (out_status out) \<Longrightarrow> looks_like_malformed (zw_from_utf8_lossy w (out_stderr out))"
    using reports by (auto simp: reports_def cs_def)
  show thesis
  proof (cases "\<forall>i\<in>set idxs. ?good i")
    case True
    then have "length lines = length idxs" by (simp add: lines_def takeWhile_eq_all_conv [THEN iffD2])
    then have "run_pending_batch w b certs (map (zw_sha256 w) certs) idxs results = (b3, Ok ([], r1))"
      using True status dir [folded b1_def] files(1) run ndjson rec by (simp add: run_pending_batch_def)
    then show thesis by (rule that) (use rest after in simp_all)
  next
    case False
    let ?k = "length lines"
    have part: "takeWhile ?good idxs \<noteq> idxs" unfolding takeWhile_eq_all_conv by (rule False)
    have "takeWhile ?good idxs = take ?k idxs"
      using takeWhile_eq_take [of ?good idxs] by (simp only: lines_def length_map)
    with part have "take ?k idxs \<noteq> idxs" by (simp only: not_False_eq_True)
    then have "\<not> length idxs \<le> ?k" by (rule contrapos_nn) (rule take_all)
    then have k: "?k < length idxs" "judge (certs ! (idxs ! ?k)) = None"
      using nth_length_takeWhile [of ?good idxs] by (simp_all add: lines_def)
    define r2 where "r2 = r1[idxs ! ?k := Some (Err (MalformedDer (zw_from_utf8_lossy w (out_stderr out))))]"
    have "run_pending_batch w b certs (map (zw_sha256 w) certs) idxs results = (b3, Ok (drop (?k + 1) idxs, r2))"
      using False status dir [folded b1_def] files(1) run ndjson rec k(1) by (simp add: run_pending_batch_def r2_def Let_def)
    moreover have "answers_ok judge certs r2"
      unfolding r2_def by (rule answers_ok_update) (use after k(2) in \<open>simp_all add: answer_ok_def\<close>)
    moreover have "length (filter (\<lambda>i. judge (certs ! i) = None) (drop (?k + 1) idxs)) <
        length (filter (\<lambda>i. judge (certs ! i) = None) idxs)"
      by (subst (2) id_take_nth_drop [OF k(1)]) (simp add: k(2))
    ultimately show thesis by (intro that [OF _ rest]) (auto dest: in_set_dropD)
  qed
qed

lemma batch_loop_exact:
  assumes "zlint_contract w (zb_config b) judge" "inj_on (zw_sha256 w) (set certs)" "\<forall>i\<in>set idxs. i < length certs"
    and "cache_agrees w judge (set certs) b" "answers_ok judge certs results"
  shows "\<exists>b' results'. batch_loop w b certs (map (zw_sha256 w) certs) idxs results = (b', Ok results') \<and>
    cache_agrees w judge (set certs) b' \<and> answers_ok judge certs results' \<and>
    zb_spawned b' \<le> zb_spawned b + length (filter (\<lambda>i. judge (certs ! i) = None) idxs) + (if idxs = [] then 0 else 1)"
  using assms(1,3-)
proof (induction "length idxs" arbitrary: b idxs results rule: less_induct)
  case less
  show ?case
  proof (cases "idxs = []")
    case True
    with less(4,5) show ?thesis by (simp add: batch_loop.simps [of w b certs _ "[]"])
  next
    case False
    obtain b1 idxs1 r1 where step:
      "run_pending_batch w b certs (map (zw_sha256 w) certs) idxs results = (b1, Ok (idxs1, r1))"
      and b1: "zb_config b1 = zb_config b" "zb_spawned b1 = zb_spawned b + 1"
      "cache_agrees w judge (set certs) b1" "answers_ok judge certs r1" and sub: "set idxs1 \<subseteq> set idxs"
      and bad: "idxs1 = [] \<or> length (filter (\<lambda>i. judge (certs ! i) = None) idxs1) <
        length (filter (\<lambda>i. judge (certs ! i) = None) idxs)"
      by (rule run_pending_batch_exact [OF less(2) assms(2) False less(3-5)])
    have "length idxs1 < length idxs" using run_pending_batch_shrinks [OF step False] .
    moreover have "zlint_contract w (zb_config b1) judge" using less(2) b1(1) by simp
    moreover have "\<forall>i\<in>set idxs1. i < length certs" using less(3) sub by blast
    ultimately obtain b' r' where "batch_loop w b1 certs (map (zw_sha256 w) certs) idxs1 r1 = (b', Ok r')"
      "cache_agrees w judge (set certs) b'" "answers_ok judge certs r'"
      "zb_spawned b' \<le> zb_spawned b1 + length (filter (\<lambda>i. judge (certs ! i) = None) idxs1) + (if idxs1 = [] then 0 else 1)"
      using less(1) b1(3,4) by blast
    with step False b1(2) bad show ?thesis
      by (auto simp: batch_loop.simps [of w b certs _ idxs] split: if_splits)
  qed
qed


section \<open>A batch answers as single runs do\<close>

lemma length_filter_filter_le: "length (filter Q (filter P xs)) \<le> length (filter Q xs)"
  by (induction xs) auto

text \<open>
  C36. Under the contract, with a digest that separates the certificates and a cache that agrees with zlint, a batch
  gives every certificate its own verdicts, or the error that it cannot be parsed, in the order of the input; it
  starts at most one process more than there are certificates that cannot be parsed, and the cache still agrees.
\<close>

theorem run_on_certs_exact:
  assumes "zlint_contract w (zb_config b) judge" "inj_on (zw_sha256 w) (set certs)"
    and "cache_agrees w judge (set certs) b"
  shows "\<exists>b' rs. run_on_certs w b certs = (b', Ok rs) \<and> list_all2 (answer_ok judge) certs rs \<and>
    zb_spawned b' \<le> zb_spawned b + length (filter (\<lambda>c. judge c = None) certs) + 1 \<and>
    cache_agrees w judge (set certs) b'"
proof (cases "certs = []")
  case False
  let ?n = "length certs"
  define idxs where "idxs = filter (\<lambda>j. zb_cache_get b (zw_sha256 w (certs ! j)) = None) [0..<?n]"
  obtain results where scan: "scan_loop w b 0 certs (replicate ?n None) [] = (results, idxs)"
    using scan_loop_pending [of certs 0 certs w b "replicate ?n None" "[]"] by (simp add: idxs_def prod_eq_iff)
  have r: "length results = ?n" "\<And>j. j < ?n \<Longrightarrow> results ! j = map_option Ok (zb_cache_get b (zw_sha256 w (certs ! j)))"
    using scan_loop_results [of certs 0 certs "replicate ?n None" w b "[]"] scan by simp_all
  have "answers_ok judge certs results"
    using r cache_get_agrees [OF assms(3)] by (auto simp: answers_ok_def answer_ok_def)
  moreover have range: "\<forall>i\<in>set idxs. i < ?n" by (simp add: idxs_def)
  ultimately obtain b' rs where loop: "batch_loop w b certs (map (zw_sha256 w) certs) idxs results = (b', Ok rs)"
    and b': "cache_agrees w judge (set certs) b'" and rs: "answers_ok judge certs rs"
    and calls: "zb_spawned b' \<le> zb_spawned b + length (filter (\<lambda>i. judge (certs ! i) = None) idxs) + (if idxs = [] then 0 else 1)"
    using batch_loop_exact [OF assms(1,2) _ assms(3)] by blast
  have open_slots: "\<And>j. j < length results \<Longrightarrow> results ! j = None \<Longrightarrow> j \<in> set idxs"
    using r by (simp add: idxs_def)
  have "\<forall>i\<in>set idxs. i < length results" using range by (simp only: r(1))
  from batch_loop_answers [OF loop this open_slots] have "None \<notin> set rs" by (rule conjunct2)
  have "list_all2 (answer_ok judge) certs (map the rs)"
  proof (rule list_all2_all_nthI)
    show len: "length certs = length (map the rs)" using rs by (simp add: answers_ok_def)
    fix j
    assume j: "j < ?n"
    then obtain x where "rs ! j = Some x" using \<open>None \<notin> set rs\<close> len by (cases "rs ! j") (auto simp: in_set_conv_nth)
    with rs j len show "answer_ok judge (certs ! j) (map the rs ! j)" by (simp add: answers_ok_def)
  qed
  moreover have "length (filter (\<lambda>i. judge (certs ! i) = None) idxs) \<le> length (filter (\<lambda>c. judge c = None) certs)"
  proof -
    have "length (filter (\<lambda>i. judge (certs ! i) = None) idxs) \<le> length (filter (\<lambda>i. judge (certs ! i) = None) [0..<?n])"
      unfolding idxs_def by (rule length_filter_filter_le)
    also have "\<dots> = length (filter (\<lambda>c. judge c = None) (map (\<lambda>i. certs ! i) [0..<?n]))"
      by (simp add: filter_map o_def)
    finally show ?thesis by (simp add: map_nth)
  qed
  ultimately show ?thesis
    using False scan loop b' calls \<open>None \<notin> set rs\<close> by (auto simp: run_on_certs_def unwrap_results_def split: if_splits)
qed (use assms(3) in \<open>simp add: run_on_certs_def\<close>)

section \<open>The lints of the adapter\<close>

text \<open>The checks of several adapted lints on one certificate, one after the other.\<close>

fun zlint_check_all ::
  "'x ct_codec_scheme \<Rightarrow> zlint_world \<Rightarrow> zlint_lint_info list \<Rightarrow> zlint_bridge \<Rightarrow> certificate \<Rightarrow> zlint_bridge \<times> lint_result list"
where
  "zlint_check_all cd w [] b cert = (b, [])"
| "zlint_check_all cd w (info # infos) b cert =
     (case zlint_check_cert cd w info b cert of
        (b, r) \<Rightarrow> (case zlint_check_all cd w infos b cert of (b, rs) \<Rightarrow> (b, r # rs)))"

lemma run_on_cert_exact:
  assumes "zlint_contract w (zb_config b) judge" "cache_agrees w judge {der} b"
  shows "\<exists>b' r. run_on_cert w b der = (b', r) \<and> zb_config b' = zb_config b \<and> zb_poisoned b' = zb_poisoned b \<and>
    cache_agrees w judge {der} b' \<and>
    (case judge der of
       Some v \<Rightarrow> r = Ok v \<and> (\<not> zb_poisoned b \<longrightarrow> zb_cache b' (zw_sha256 w der) = Some v)
     | None \<Rightarrow> (\<exists>d. r = Err (ZCert (MalformedDer d)))) \<and>
    zb_spawned b' = (if zb_cache_get b (zw_sha256 w der) = None then zb_spawned b + 1 else zb_spawned b)"
proof (cases "zb_cache_get b (zw_sha256 w der)")
  case (Some v)
  then have "judge der = Some v" using cache_get_agrees [OF assms(2)] by simp
  with Some assms(2) show ?thesis by (auto simp: run_on_cert_def zb_cache_get_def split: if_splits)
next
  case None
  have works: "zw_create_dir w = (\<lambda>_. None)" "zw_write w = (\<lambda>_. None)"
    using assms(1) by (auto simp: zlint_contract_def fun_eq_iff)
  obtain dir where dir: "temp_dir_new w b = (b\<lparr> zb_temp_counter := zb_temp_counter b + 1 \<rparr>, Ok dir)"
    using temp_dir_new_works [OF works(1)] by blast
  define b1 where "b1 = b\<lparr> zb_temp_counter := zb_temp_counter b + 1 \<rparr>"
  let ?p = "der_path dir (zw_sha256 w der)"
  let ?files = "[?p \<mapsto> der]"
  have written: "write_der w dir (\<lambda>_. None) der (zw_sha256 w der) = Ok (?p, ?files)"
    by (simp add: write_der_def works(2) Let_def)
  have "zb_config b1 = zb_config b" "[der] \<noteq> []" "map ?files [?p] = map Some [der]" by (simp_all add: b1_def)
  then obtain out where out: "snd (run_subprocess w b1 (''-format'' # ''der'' # [?p]) ?files) = Ok out"
    and reports: "reports w judge [der] out"
    using assms(1) unfolding zlint_contract_def by blast
  define b2 where "b2 = b1\<lparr> zb_spawned := zb_spawned b1 + 1 \<rparr>"
  have run: "run_subprocess w b1 [''-format'', ''der'', ?p] ?files = (b2, Ok out)"
    using out run_subprocess_bridge [of w b1] by (simp add: b2_def prod_eq_iff)
  have agrees: "cache_agrees w judge {der} b2" using assms(2) by (simp add: cache_agrees_def b1_def b2_def)
  show ?thesis
  proof (cases "judge der")
    case None
    then have "run_on_cert w b der = (b2, Err (ZCert (MalformedDer (zw_from_utf8_lossy w (out_stderr out)))))"
      using reports \<open>zb_cache_get b _ = None\<close> dir [folded b1_def] written run
      by (simp add: run_on_cert_def reports_def classify_zlint_cert_error_def Let_def)
    with None \<open>zb_cache_get b _ = None\<close> agrees show ?thesis by (simp add: b1_def b2_def)
  next
    case (Some v)
    then have "run_on_cert w b der = (zb_cache_put b2 (zw_sha256 w der) v, Ok v)"
      using reports \<open>zb_cache_get b _ = None\<close> dir [folded b1_def] written run
      by (simp add: run_on_cert_def reports_def Let_def)
    moreover have "cache_agrees w judge {der} (zb_cache_put b2 (zw_sha256 w der) v)"
      by (rule cache_put_agrees [OF _ _ Some agrees]) simp_all
    ultimately show ?thesis
      using Some \<open>zb_cache_get b _ = None\<close> by (simp add: b1_def b2_def zb_cache_put_def)
  qed
qed


lemma zlint_checks_cost:
  assumes "zlint_contract w (zb_config b) judge" "cache_agrees w judge {der} b" "\<not> zb_poisoned b"
    and "enc_certificate cd cert = Ok der" "judge der = Some v"
  shows "snd (zlint_check_all cd w infos b cert) = map (\<lambda>info. verdict_result (v (zi_check_id info))) infos \<and>
    zb_spawned (fst (zlint_check_all cd w infos b cert)) \<le>
      (if zb_cache b (zw_sha256 w der) = Some v then zb_spawned b else zb_spawned b + 1)"
  using assms(1-3)
proof (induction infos arbitrary: b)
  case (Cons info infos)
  obtain b1 where one: "run_on_cert w b der = (b1, Ok v)" "zb_config b1 = zb_config b" "\<not> zb_poisoned b1"
    "cache_agrees w judge {der} b1" "zb_cache b1 (zw_sha256 w der) = Some v"
    "zb_spawned b1 = (if zb_cache_get b (zw_sha256 w der) = None then zb_spawned b + 1 else zb_spawned b)"
    using run_on_cert_exact [OF Cons.prems(1,2)] assms(5) Cons.prems(3) by auto
  have "zlint_contract w (zb_config b1) judge" using Cons.prems(1) one(2) by simp
  note IH = Cons.IH [OF this one(4,3)]
  have "zb_cache_get b (zw_sha256 w der) = zb_cache b (zw_sha256 w der)" using Cons.prems(3) by (simp add: zb_cache_get_def)
  with IH one assms(4) show ?case by (auto simp: zlint_check_cert_def split: prod.splits if_splits)
qed simp

text \<open>
  On a certificate zlint can parse, the adapted lints give zlint's verdict on each of their checks, in whatever
  order they run and whatever the cache holds, and together they start at most one process.
\<close>

theorem zlint_checks_exact:
  assumes "zlint_contract w (zb_config b) judge" "cache_agrees w judge {der} b" "\<not> zb_poisoned b"
    and "enc_certificate cd cert = Ok der" "judge der = Some v"
  shows "snd (zlint_check_all cd w infos b cert) = map (\<lambda>info. verdict_result (v (zi_check_id info))) infos \<and>
    zb_spawned (fst (zlint_check_all cd w infos b cert)) \<le> zb_spawned b + 1"
  using zlint_checks_cost [OF assms(1-5), of infos] by (simp split: if_splits)

section \<open>Certificates zlint cannot parse\<close>

text \<open>Errors are not cached: on a certificate zlint refuses, every adapted lint starts a process of its own.\<close>

lemma rejected_certificate_respawns:
  assumes "zlint_contract w (zb_config b) judge" "cache_agrees w judge {der} b"
    and "enc_certificate cd cert = Ok der" "judge der = None"
  shows "zb_spawned (fst (zlint_check_all cd w infos b cert)) = zb_spawned b + length infos"
  using assms(1,2)
proof (induction infos arbitrary: b)
  case (Cons info infos)
  have miss: "zb_cache_get b (zw_sha256 w der) = None"
    using cache_get_agrees [OF Cons.prems(2), of der] assms(4) by (cases "zb_cache_get b (zw_sha256 w der)") auto
  obtain b1 r where one: "run_on_cert w b der = (b1, r)" "zb_config b1 = zb_config b" "cache_agrees w judge {der} b1"
    "\<exists>d. r = Err (ZCert (MalformedDer d))" "zb_spawned b1 = zb_spawned b + 1"
    using run_on_cert_exact [OF Cons.prems] assms(4) miss by auto
  have "zlint_contract w (zb_config b1) judge" using Cons.prems(1) one(2) by simp
  from Cons.IH [OF this one(3)] one(1,4,5) assms(3) show ?case
    by (auto simp: zlint_check_cert_def split: prod.splits)
qed simp

text \<open>
  A process ended by a signal is an error of the certificate in the single entry point and an error of the bridge
  in the batch.
\<close>

lemma crash_in_single_and_batch:
  assumes "zb_cache_get b (zw_sha256 w der) = None" "zw_create_dir w = (\<lambda>_. None)" "zw_write w = (\<lambda>_. None)"
    and "\<And>b args files. snd (run_subprocess w b args files) =
      Ok \<lparr> out_status = Signalled 9, out_stdout = [], out_stderr = stderr \<rparr>"
    and "zw_from_utf8 w [] = Ok []" "\<not> looks_like_malformed (zw_from_utf8_lossy w stderr)"
  shows "snd (run_on_cert w b der) = Err (ZCert (OtherCertError (zw_from_utf8_lossy w stderr)))"
    "snd (run_on_certs w b [der]) = Err (BatchBridge (SubprocessKilled (Some 9)))"
proof -
  let ?out = "\<lparr> out_status = Signalled 9, out_stdout = [], out_stderr = stderr \<rparr>"
  have run: "run_subprocess w b args files = (b\<lparr> zb_spawned := zb_spawned b + 1 \<rparr>, Ok ?out)" for b args files
    using assms(4) [of b args files] run_subprocess_bridge [of w b args files] by (simp add: prod_eq_iff)
  obtain dir where dir: "temp_dir_new w b = (b\<lparr> zb_temp_counter := zb_temp_counter b + 1 \<rparr>, Ok dir)"
    using temp_dir_new_works [OF assms(2)] by blast
  have ndjson: "parse_per_cert_ndjson w [] = Ok []"
    by (simp add: parse_per_cert_ndjson_def stdout_text_def assms(5) str_lines_def)
  show "snd (run_on_cert w b der) = Err (ZCert (OtherCertError (zw_from_utf8_lossy w stderr)))"
    using assms(1,3,6) dir run
    by (simp add: run_on_cert_def write_der_def classify_zlint_cert_error_def Let_def)
  show "snd (run_on_certs w b [der]) = Err (BatchBridge (SubprocessKilled (Some 9)))"
    using assms(1,3,6) dir run ndjson
    by (simp add: run_on_certs_def batch_loop.simps [of w b "[der]"] run_pending_batch_def write_der_def
        classify_exit_def Let_def)
qed

section \<open>An instance of the contract\<close>

text \<open>A linter with one check, which every non-empty input passes and which cannot parse the empty one.\<close>

definition ex_judge :: "bytes \<Rightarrow> verdict_map option" where
  "ex_judge c = (if c = [] then None else Some [''e_a'' \<mapsto> ZPass])"

definition ex_line :: string where "ex_line = [CHR ''o'', CHR ''k'']"

definition ex_zlint :: zlint_world where
  "ex_zlint =
     \<lparr> zw_sha256 = (\<lambda>bs. bs), zw_temp_root = ''/tmp'', zw_pid = 1, zw_now_nanos = (\<lambda>_. 0),
       zw_create_dir = (\<lambda>_. None), zw_write = (\<lambda>_. None),
       zw_spawn = (\<lambda>n path args files.
         let cs = map (\<lambda>p. the (files p)) (drop 2 args)
         in Ok \<lparr> ch_stdout_pipe = True, ch_stderr_pipe = True,
                 ch_try_wait = (\<lambda>_. Ok (Some (Exited (if [] \<in> set cs then 1 else 0)))), ch_delay = (\<lambda>_. 0),
                 ch_stdout = Some (Ok (concat (map (\<lambda>_. str_bytes (ex_line @ [CHR 0x0A])) (takeWhile (\<lambda>c. c \<noteq> []) cs)))),
                 ch_stderr = Some (Ok (str_bytes ''malformed'')) \<rparr>),
       zw_from_utf8 = (\<lambda>bs. Ok (map (\<lambda>b. char_of (unat b)) bs)), zw_from_utf8_lossy = map (\<lambda>b. char_of (unat b)),
       zw_from_json = (\<lambda>s. if s = ex_line then Ok (JObject [''e_a'' \<mapsto> JObject [''result'' \<mapsto> JString ''pass'']])
                          else Err ''not JSON''),
       zw_entries = (\<lambda>_. [''e_a'']), zw_debug_str = (\<lambda>s. s), zw_debug_duration = show_nat \<rparr>"

definition ex_zlint_bridge :: zlint_bridge where
  "ex_zlint_bridge = \<lparr> zb_config = default_bridge_config, zb_cache = (\<lambda>_. None), zb_poisoned = False, zb_temp_counter = 0,
     zb_spawned = 0 \<rparr>"

lemma ex_line_value: "parse_per_cert_json_value ex_zlint ex_line = Ok [''e_a'' \<mapsto> ZPass]"
  by (simp add: parse_per_cert_json_value_def ex_zlint_def json_get_def zlint_verdict_from_str_def)

lemma ex_line_trim: "str_trim ex_line = ex_line" "str_trim (ex_line @ [CHR 0x0A]) = ex_line" "ex_line \<noteq> []"
  by code_simp+

lemma ex_lines: "str_lines (concat (replicate k (ex_line @ [CHR 0x0A]))) = replicate k ex_line"
proof (induction k)
  case (Suc k)
  have "split_on (CHR 0x0A) (ex_line @ CHR 0x0A # s) = ex_line # split_on (CHR 0x0A) s" for s
    by (simp add: ex_line_def)
  moreover have "split_on d s \<noteq> []" for d s by (induction d s rule: split_on.induct) (auto split: list.splits)
  moreover have "strip_cr ex_line = ex_line" by code_simp
  ultimately show ?case using Suc by (simp add: str_lines_def Let_def split: if_splits)
qed (simp add: str_lines_def)

lemma ex_line_loop:
  "line_loop (parse_per_cert_json_value ex_zlint) n (replicate k ex_line) = Ok (replicate k [''e_a'' \<mapsto> ZPass])"
  by (induction k arbitrary: n) (simp_all add: Let_def ex_line_trim ex_line_value)

lemma str_bytes_chars: "map (\<lambda>b. char_of (unat b)) (str_bytes s) = s"
proof -
  have "char_of (unat (of_char c :: u8)) = c" for c
  proof -
    have "unat (of_nat n :: u8) = n mod 256" for n by (simp add: unat_of_nat)
    from this [of "of_char c"] have "unat (of_char c :: u8) = of_char c mod 256" by (simp only: of_nat_of_char)
    then show ?thesis by (simp add: of_char_mod_256)
  qed
  then show ?thesis by (simp add: str_bytes_def o_def)
qed

lemma ex_contract: "zlint_contract ex_zlint config ex_judge"
  unfolding zlint_contract_def
proof (intro conjI allI impI)
  fix b and ps :: "string list" and files and cs :: "bytes list"
  assume files: "map files ps = map Some cs"
  let ?good = "takeWhile (\<lambda>c. c \<noteq> []) cs"
  let ?out = "\<lparr> out_status = Exited (if [] \<in> set cs then 1 else 0),
    out_stdout = concat (map (\<lambda>_. str_bytes (ex_line @ [CHR 0x0A])) ?good), out_stderr = str_bytes ''malformed'' \<rparr>"
  have "map (\<lambda>p. the (files p)) ps = map (\<lambda>x. the x) (map files ps)" by simp
  then have cs: "map (\<lambda>p. the (files p)) ps = cs" by (simp add: files o_def)
  then have cs_set: "(\<lambda>p. the (files p)) ` set ps = set cs" by (metis list.set_map)
  have run: "snd (run_subprocess ex_zlint b (''-format'' # ''der'' # ps) files) = Ok ?out"
    by (simp add: run_subprocess_def ex_zlint_def child_output_def wait_for_child_def wait_loop.simps join_reader_def
        Let_def cs cs_set)
  have good: "takeWhile (\<lambda>c. ex_judge c \<noteq> None) cs = ?good" by (simp add: ex_judge_def)
  have content: "stdout_text ex_zlint (out_stdout ?out) = Ok (concat (replicate (length ?good) (ex_line @ [CHR 0x0A])))"
    by (simp add: stdout_text_def ex_zlint_def map_concat o_def str_bytes_chars map_replicate_const)
  have "map (the \<circ> ex_judge) ?good = replicate (length ?good) [''e_a'' \<mapsto> ZPass]"
    unfolding map_replicate_const [symmetric] by (rule map_cong) (auto simp: ex_judge_def dest: set_takeWhileD)
  then have "parse_per_cert_ndjson ex_zlint (out_stdout ?out) = Ok (map (the \<circ> ex_judge) (takeWhile (\<lambda>c. ex_judge c \<noteq> None) cs))"
    unfolding parse_per_cert_ndjson_def content good by (simp add: ex_lines ex_line_loop)
  moreover have "parse_per_cert_output ex_zlint (out_stdout ?out) = Ok v" if "cs = [c]" "ex_judge c = Some v" for c v
    unfolding parse_per_cert_output_def content using that
    by (simp add: ex_judge_def ex_line_trim ex_line_value split: if_splits)
  moreover have "looks_like_malformed (zw_from_utf8_lossy ex_zlint (out_stderr ?out))"
    by (simp add: ex_zlint_def str_bytes_chars looks_like_malformed_def contains_str_def)
  ultimately have "reports ex_zlint ex_judge cs ?out"
    unfolding reports_def by (auto simp: ex_judge_def)
  with run show "\<exists>out. snd (run_subprocess ex_zlint b (''-format'' # ''der'' # ps) files) = Ok out \<and>
      reports ex_zlint ex_judge cs out"
    by blast
qed (simp_all add: ex_zlint_def)

theorem run_on_certs_exact_witness:
  "\<exists>b' rs. run_on_certs ex_zlint ex_zlint_bridge [[1], [], [2]] = (b', Ok rs) \<and>
     list_all2 (answer_ok ex_judge) [[1], [], [2]] rs \<and> zb_spawned b' \<le> 2"
proof -
  have "inj_on (zw_sha256 ex_zlint) (set [[1], [], [2]])" by (simp add: ex_zlint_def inj_on_def)
  moreover have "cache_agrees ex_zlint ex_judge (set [[1], [], [2]]) ex_zlint_bridge"
    by (simp add: cache_agrees_def ex_zlint_bridge_def)
  ultimately obtain b' rs where "run_on_certs ex_zlint ex_zlint_bridge [[1], [], [2]] = (b', Ok rs)"
    "list_all2 (answer_ok ex_judge) [[1], [], [2]] rs"
    "zb_spawned b' \<le> zb_spawned ex_zlint_bridge + length (filter (\<lambda>c. ex_judge c = None) [[1], [], [2]]) + 1"
    using run_on_certs_exact [where b = ex_zlint_bridge and certs = "[[1], [], [2]]", OF ex_contract] by blast
  then show ?thesis by (simp add: ex_judge_def ex_zlint_bridge_def)
qed

definition ex_info :: "string \<Rightarrow> zlint_lint_info" where
  "ex_info name = \<lparr> zi_check_id = name, zi_description = [], zi_citation = [], zi_source = [], zi_severity = SevError \<rparr>"

theorem zlint_checks_exact_witness:
  "snd (zlint_check_all ex_ct_codec ex_zlint [ex_info ''e_a'', ex_info ''e_b''] ex_zlint_bridge (ex_ca 1 1 [])) =
     [LintPass, NotApplicable] \<and>
   zb_spawned (fst (zlint_check_all ex_ct_codec ex_zlint [ex_info ''e_a'', ex_info ''e_b''] ex_zlint_bridge (ex_ca 1 1 []))) \<le> 1"
proof -
  have "enc_certificate ex_ct_codec (ex_ca 1 1 []) = Ok [1]" by code_simp
  moreover have "ex_judge [1] = Some [''e_a'' \<mapsto> ZPass]" by (simp add: ex_judge_def)
  moreover have "cache_agrees ex_zlint ex_judge {[1]} ex_zlint_bridge" "\<not> zb_poisoned ex_zlint_bridge"
    by (simp_all add: cache_agrees_def ex_zlint_bridge_def)
  ultimately show ?thesis
    using zlint_checks_exact [where b = ex_zlint_bridge and cd = ex_ct_codec and cert = "ex_ca 1 1 []" and der = "[1]"
        and v = "[''e_a'' \<mapsto> ZPass]" and infos = "[ex_info ''e_a'', ex_info ''e_b'']", OF ex_contract]
    by (simp add: ex_info_def ex_zlint_bridge_def)
qed

end
