(* ===== verification/DiffHarness.thy ===== *)
theory DiffHarness
  imports TrustStore OscalProfile ZlintBridge "HOL-Library.Product_Lexorder" "HOL-Library.Multiset"
begin

text \<open>
  The differential test harness, \<open>pkix-difftest\<close>: verdicts, chains and their loader (\<open>lib.rs\<close>), the filter of PEM
  bundles (\<open>corpus/mod.rs\<close>), the classification of verdict tuples (\<open>classify.rs\<close>), the reports (\<open>report.rs\<close>) and the run
  over a corpus (\<open>main.rs\<close>). The PEM codec is a field of the codec record; oracles and output files are parameters.
\<close>

section \<open>Verdicts and oracles\<close>

datatype difftest_verdict = VPass | VFail string

fun passes :: "difftest_verdict \<Rightarrow> bool" where
  "passes VPass \<longleftrightarrow> True"
| "passes (VFail reason) \<longleftrightarrow> False"

fun display_verdict :: "difftest_verdict \<Rightarrow> string" where
  "display_verdict VPass = ''Pass''"
| "display_verdict (VFail reason) = ''Fail('' @ reason @ '')''"

datatype oracle_name = PkixPath | OpenSsl | Pyca

fun oracle_str :: "oracle_name \<Rightarrow> string" where
  "oracle_str PkixPath = ''pkix-path''"
| "oracle_str OpenSsl = ''openssl''"
| "oracle_str Pyca = ''pyca''"

type_synonym verdict_tuple = "(oracle_name \<times> difftest_verdict) list"

section \<open>Chains\<close>

record diff_chain =
  certs_der :: "bytes list"
  chain_crls :: "bytes list"
  root_in_chain :: bool
  chain_label :: string
  validation_time_unix :: "u64 option"

definition with_crls :: "bytes list \<Rightarrow> diff_chain \<Rightarrow> diff_chain" where
  "with_crls crls ch = ch\<lparr> chain_crls := crls \<rparr>"

definition with_validation_time :: "u64 \<Rightarrow> diff_chain \<Rightarrow> diff_chain" where
  "with_validation_time secs ch = ch\<lparr> validation_time_unix := Some secs \<rparr>"

record difftest_codec = lint_codec +
  pem_decode_vec :: "bytes \<Rightarrow> string + (string \<times> bytes)"
  pem_encode_string :: "string \<Rightarrow> bytes \<Rightarrow> string + string"
  debug_str :: "string \<Rightarrow> string"

definition invalid_data :: "string \<Rightarrow> io_error" where
  "invalid_data m = \<lparr> ie_kind = InvalidData, ie_message = m \<rparr>"

subsection \<open>PEM blocks\<close>

fun find_byte :: "bytes \<Rightarrow> u8 \<Rightarrow> nat option" where
  "find_byte [] b = None"
| "find_byte (x # xs) b = (if x = b then Some 0 else map_option Suc (find_byte xs b))"

text \<open>The first window equal to the needle; every needle of the code is non-empty.\<close>

fun find_subseq :: "bytes \<Rightarrow> bytes \<Rightarrow> nat option" where
  "find_subseq [] needle = None"
| "find_subseq (x # xs) needle =
     (if needle = [] then None
      else if take (length needle) (x # xs) = needle then Some 0
      else map_option Suc (find_subseq xs needle))"

definition PEM_BEGIN :: bytes where "PEM_BEGIN = map of_char ''-----BEGIN ''"
definition PEM_END :: bytes where "PEM_END = map of_char ''-----END ''"
definition CERT_LABEL :: bytes where "CERT_LABEL = map of_char ''CERTIFICATE-----''"
definition NEWLINE :: u8 where "NEWLINE = 0x0A"

text \<open>
  Where a block that starts with its BEGIN line ends; \<open>None\<close> in the first component when that line is not
  terminated, in the second when there is no END marker.
\<close>

definition begin_line :: "bytes \<Rightarrow> nat option" where
  "begin_line block = map_option (\<lambda>eol. eol + 1) (find_byte block NEWLINE)"

definition block_end :: "bytes \<Rightarrow> nat \<Rightarrow> nat option" where
  "block_end block after_begin =
     map_option (\<lambda>rel_end.
       let end_line_start = after_begin + rel_end
       in case find_byte (drop end_line_start block) NEWLINE of
            Some n \<Rightarrow> end_line_start + n + 1
          | None \<Rightarrow> length block) (find_subseq (drop after_begin block) PEM_END)"

lemma find_subseq_Some:
  "find_subseq xs p = Some i \<Longrightarrow> p \<noteq> [] \<and> i + length p \<le> length xs \<and> take (length p) (drop i xs) = p"
proof (induction xs p arbitrary: i rule: find_subseq.induct)
  case (2 x xs needle)
  then show ?case
  proof (cases "needle \<noteq> [] \<and> take (length needle) (x # xs) = needle")
    case True
    with 2 have "i = 0" by auto
    moreover have "length needle \<le> length (x # xs)" using True by (metis length_take min.cobounded1)
    ultimately show ?thesis using True by simp
  next
    case False
    with 2 show ?thesis by (auto split: if_splits)
  qed
qed simp

lemma find_byte_less: "find_byte xs b = Some i \<Longrightarrow> i < length xs"
  by (induction xs arbitrary: i) (auto split: if_splits)

lemma length_PEM_END: "length PEM_END = 9"
  by (simp add: PEM_END_def)

lemma length_PEM_BEGIN: "length PEM_BEGIN = 11"
  by (simp add: PEM_BEGIN_def)

lemma length_CERT_LABEL: "length CERT_LABEL = 16"
  by (simp add: CERT_LABEL_def)

lemma block_end_bounds:
  assumes "block_end block a = Some s"
  shows "0 < s \<and> s \<le> length block"
proof -
  obtain r where r: "find_subseq (drop a block) PEM_END = Some r"
    and s: "s = (case find_byte (drop (a + r) block) NEWLINE of Some n \<Rightarrow> a + r + n + 1 | None \<Rightarrow> length block)"
    using assms by (auto simp: block_end_def Let_def)
  from find_subseq_Some [OF r] have "r + 9 \<le> length block - a" by (simp add: length_PEM_END)
  then have "a + r + 9 \<le> length block" by arith
  with s show ?thesis by (auto dest!: find_byte_less split: option.splits)
qed

text \<open>Both loops advance a cursor; the argument is the input from the cursor on.\<close>

function split_pem_blocks :: "bytes \<Rightarrow> io_error + bytes list" where
  "split_pem_blocks rest =
     (if rest = [] then Ok []
      else case find_subseq rest PEM_BEGIN of
             None \<Rightarrow> Ok []
           | Some rel_begin \<Rightarrow>
               let block = drop rel_begin rest
               in case begin_line block of
                    None \<Rightarrow> Err (invalid_data ''malformed PEM: BEGIN line has no terminating newline'')
                  | Some after_begin \<Rightarrow>
                     (case block_end block after_begin of
                        None \<Rightarrow> Err (invalid_data ''malformed PEM: BEGIN block has no matching END marker'')
                      | Some stop \<Rightarrow>
                          and_then (split_pem_blocks (drop stop block)) (\<lambda>out. Ok (take stop block # out))))"
  by pat_completeness auto
termination
  by (relation "measure length") (auto dest!: block_end_bounds)

function filter_non_certificate_blocks :: "bytes \<Rightarrow> bytes" where
  "filter_non_certificate_blocks rest =
     (if rest = [] then []
      else case find_subseq rest PEM_BEGIN of
             None \<Rightarrow> []
           | Some rel_begin \<Rightarrow>
               let block = drop rel_begin rest
               in case begin_line block of
                    None \<Rightarrow> []
                  | Some after_begin \<Rightarrow>
                     (case block_end block after_begin of
                        None \<Rightarrow> []
                      | Some stop \<Rightarrow>
                          (if take (length CERT_LABEL) (drop (length PEM_BEGIN) block) = CERT_LABEL
                           then take stop block else []) @
                          filter_non_certificate_blocks (drop stop block)))"
  by pat_completeness auto
termination
  by (relation "measure length") (auto dest!: block_end_bounds)

declare split_pem_blocks.simps [simp del] filter_non_certificate_blocks.simps [simp del]

subsection \<open>The loader\<close>

definition is_self_issued_der :: "'x difftest_codec_scheme \<Rightarrow> certificate \<Rightarrow> bool" where
  "is_self_issued_der cd cert =
     (case (enc_name cd (subject (tbs cert)), enc_name cd (issuer (tbs cert))) of
        (Inr s, Inr i) \<Rightarrow> s = i
      | _ \<Rightarrow> False)"

definition detect_leaf_first :: "'x difftest_codec_scheme \<Rightarrow> certificate list \<Rightarrow> io_error + bool" where
  "detect_leaf_first cd certs =
     (if certs = [] then Err (invalid_data ''empty chain'')
      else if length certs = 1 then Ok True
      else case (is_self_issued_der cd (certs ! 0), is_self_issued_der cd (certs ! (length certs - 1))) of
             (False, True) \<Rightarrow> Ok True
           | (True, False) \<Rightarrow> Ok False
           | (False, False) \<Rightarrow>
               Err (invalid_data ''chain ordering ambiguous: neither end is self-issued (root not in chain?)'')
           | (True, True) \<Rightarrow> Err (invalid_data ''chain ordering ambiguous: both ends are self-issued''))"

text \<open>One block: its DER bytes with the certificate they hold.\<close>

definition decode_block :: "'x difftest_codec_scheme \<Rightarrow> bytes \<Rightarrow> io_error + (bytes \<times> certificate)" where
  "decode_block cd block =
     and_then (map_err (\<lambda>e. invalid_data (''PEM decode failed: '' @ e)) (pem_decode_vec cd block)) (\<lambda>(block_label, der).
       if block_label \<noteq> ''CERTIFICATE''
       then Err (invalid_data (''expected CERTIFICATE PEM block, got '' @ block_label))
       else and_then (map_err (\<lambda>e. invalid_data (''certificate DER parse failed: '' @ display_der_error e))
              (dec_certificate cd der)) (\<lambda>cert. Ok (der, cert)))"

definition from_pem_bytes :: "'x difftest_codec_scheme \<Rightarrow> bytes \<Rightarrow> string \<Rightarrow> io_error + diff_chain" where
  "from_pem_bytes cd bs label =
     and_then (split_pem_blocks bs) (\<lambda>blocks.
       if blocks = [] then Err (invalid_data ''no PEM CERTIFICATE blocks found'')
       else and_then (collect_results (decode_block cd) blocks) (\<lambda>decoded.
            and_then (detect_leaf_first cd (map snd decoded)) (\<lambda>leaf_first.
              let der_blocks = map fst decoded
              in Ok \<lparr> certs_der = (if leaf_first then der_blocks else rev der_blocks), chain_crls = [],
                      root_in_chain = True, chain_label = label, validation_time_unix = None \<rparr>)))"

section \<open>Classification\<close>

datatype divergence_class =
  LooserThanWild | StricterThanWild | OracleDivergence | DiagnosticDivergence | Agreement

fun class_rank :: "divergence_class \<Rightarrow> nat" where
  "class_rank LooserThanWild = 0"
| "class_rank StricterThanWild = 1"
| "class_rank OracleDivergence = 2"
| "class_rank DiagnosticDivergence = 3"
| "class_rank Agreement = 4"

fun class_name :: "divergence_class \<Rightarrow> string" where
  "class_name LooserThanWild = ''LooserThanWild''"
| "class_name StricterThanWild = ''StricterThanWild''"
| "class_name OracleDivergence = ''OracleDivergence''"
| "class_name DiagnosticDivergence = ''DiagnosticDivergence''"
| "class_name Agreement = ''Agreement''"

lemma class_rank_inject: "class_rank a = class_rank b \<longleftrightarrow> a = b"
  by (cases a; cases b) simp_all

instantiation divergence_class :: linorder
begin

definition less_eq_divergence_class :: "divergence_class \<Rightarrow> divergence_class \<Rightarrow> bool" where
  "less_eq_divergence_class a b \<longleftrightarrow> class_rank a \<le> class_rank b"

definition less_divergence_class :: "divergence_class \<Rightarrow> divergence_class \<Rightarrow> bool" where
  "less_divergence_class a b \<longleftrightarrow> class_rank a < class_rank b"

instance
  by standard (auto simp: less_eq_divergence_class_def less_divergence_class_def class_rank_inject [symmetric])

end

record classified =
  cl_name :: string
  cl_verdicts :: verdict_tuple
  cl_class :: divergence_class
  ground_truth_agreement :: "bool option"

definition verdicts_match_pass_fail :: "difftest_verdict \<Rightarrow> difftest_verdict \<Rightarrow> bool" where
  "verdicts_match_pass_fail a b \<longleftrightarrow> passes a = passes b"

fun all_reasons_match :: "verdict_tuple \<Rightarrow> bool" where
  "all_reasons_match [] \<longleftrightarrow> True"
| "all_reasons_match (first # rest) \<longleftrightarrow> list_all (\<lambda>v. snd v = snd first) rest"

fun windows_agree :: "difftest_verdict list \<Rightarrow> bool" where
  "windows_agree (a # b # vs) \<longleftrightarrow> passes a = passes b \<and> windows_agree (b # vs)"
| "windows_agree vs \<longleftrightarrow> True"

definition classify_with_pkix_path :: "difftest_verdict \<Rightarrow> difftest_verdict list \<Rightarrow> verdict_tuple \<Rightarrow> divergence_class" where
  "classify_with_pkix_path pkix others full =
     (let pkix_pass = passes pkix;
          any_oracle_pass = list_ex passes others;
          any_oracle_fail = list_ex (\<lambda>v. \<not> passes v) others
      in if pkix_pass \<and> any_oracle_fail then LooserThanWild
         else if \<not> pkix_pass \<and> any_oracle_pass then StricterThanWild
         else if \<not> windows_agree others then OracleDivergence
         else if all_reasons_match full then Agreement else DiagnosticDivergence)"

definition classify_oracles_only :: "verdict_tuple \<Rightarrow> divergence_class" where
  "classify_oracles_only verdicts =
     (if verdicts = [] then Agreement
      else let pass_states = map (\<lambda>(_, v). passes v) verdicts;
               all_pass = list_all (\<lambda>p. p) pass_states;
               all_fail = list_all (\<lambda>p. \<not> p) pass_states
           in if \<not> (all_pass \<or> all_fail) then OracleDivergence
              else if all_reasons_match verdicts then Agreement else DiagnosticDivergence)"

definition pkix_path_verdict :: "verdict_tuple \<Rightarrow> difftest_verdict option" where
  "pkix_path_verdict verdicts = map_option snd (find (\<lambda>(o1, _). o1 = PkixPath) verdicts)"

definition other_verdicts :: "verdict_tuple \<Rightarrow> difftest_verdict list" where
  "other_verdicts verdicts = map snd (filter (\<lambda>(o1, _). o1 \<noteq> PkixPath) verdicts)"

definition classify :: "string \<Rightarrow> verdict_tuple \<Rightarrow> difftest_verdict option \<Rightarrow> classified" where
  "classify name verdicts expected =
     \<lparr> cl_name = name, cl_verdicts = verdicts,
       cl_class = (case pkix_path_verdict verdicts of
                     Some pkix \<Rightarrow> classify_with_pkix_path pkix (other_verdicts verdicts) verdicts
                   | None \<Rightarrow> classify_oracles_only verdicts),
       ground_truth_agreement =
         Option.bind expected (\<lambda>e. map_option (\<lambda>pkix. verdicts_match_pass_fail pkix e) (pkix_path_verdict verdicts)) \<rparr>"

text \<open>Stable, by class and then by name; names compare by their UTF-8 bytes.\<close>

definition sort_by_severity :: "classified list \<Rightarrow> classified list" where
  "sort_by_severity cs = sort_key (\<lambda>c. (cl_class c, cl_name c)) cs"

section \<open>Reports\<close>

record markdown_options =
  sample_size :: nat
  md_title :: "string option"

definition default_markdown_options :: markdown_options where
  "default_markdown_options = \<lparr> sample_size = 10, md_title = None \<rparr>"

definition CLASSES_WORST_FIRST :: "divergence_class list" where
  "CLASSES_WORST_FIRST = [LooserThanWild, StricterThanWild, OracleDivergence, DiagnosticDivergence, Agreement]"

definition count_per_class :: "classified list \<Rightarrow> nat list" where
  "count_per_class cs =
     fold (\<lambda>c counts. counts[class_rank (cl_class c) := counts ! class_rank (cl_class c) + 1]) cs (replicate 5 0)"

definition writeln :: "string \<Rightarrow> string" where "writeln s = s @ [CHR 0x0A]"

definition escape_md :: "string \<Rightarrow> string" where
  "escape_md s =
     concat (map (\<lambda>c. if c = CHR 0x7C then [CHR 0x5C, CHR 0x7C] else [c])
       (concat (map (\<lambda>c. if c = CHR 0x60 then [CHR 0x5C, CHR 0x60] else [c]) s)))"

definition code_span :: "string \<Rightarrow> string" where "code_span s = [CHR 0x60] @ s @ [CHR 0x60]"

definition write_chain_block :: "classified \<Rightarrow> string" where
  "write_chain_block c =
     writeln (''### '' @ code_span (escape_md (cl_name c))) @ writeln [] @
     (case ground_truth_agreement c of
        None \<Rightarrow> []
      | Some agreement \<Rightarrow> writeln (''* Ground truth: '' @ (if agreement then ''matches'' else ''DISAGREES''))) @
     writeln (''* Class: '' @ code_span (class_name (cl_class c))) @
     writeln ''* Verdicts:'' @
     concat (map (\<lambda>(o1, v). writeln (''  * '' @ oracle_str o1 @ '': '' @ escape_md (display_verdict v))) (cl_verdicts c)) @
     writeln []"

definition summary_table :: "classified list \<Rightarrow> string" where
  "summary_table cs =
     writeln ''## Summary'' @ writeln [] @ writeln ''| Class | Count |'' @ writeln ''|---|---:|'' @
     concat (map (\<lambda>k. writeln (''| '' @ class_name k @ '' | '' @ show_nat (count_per_class cs ! class_rank k) @ '' |''))
       CLASSES_WORST_FIRST) @
     writeln (''| **Total** | '' @ show_nat (length cs) @ '' |'') @ writeln []"

definition apostrophe_s :: string where "apostrophe_s = [CHR 0x27, CHR ''s'']"

definition ground_truth_disagreements :: "classified list \<Rightarrow> classified list" where
  "ground_truth_disagreements cs = filter (\<lambda>c. ground_truth_agreement c = Some False) cs"

definition ground_truth_section :: "classified list \<Rightarrow> nat \<Rightarrow> string" where
  "ground_truth_section cs n =
     (let gt = ground_truth_disagreements cs
      in if gt = [] then []
         else writeln ''## Ground-truth disagreements'' @ writeln [] @
              writeln (show_nat (length gt) @ '' chain(s) where pkix-path'' @ apostrophe_s @
                '' verdict disagrees with the corpus'' @ apostrophe_s @
                '' expected verdict. This category is orthogonal to oracle-classification '' @
                [CHR 0xE2, CHR 0x80, CHR 0x94] @
                '' it counts pkix-path-vs-PKITS only, regardless of what the other oracles say.'') @
              writeln [] @
              concat (map write_chain_block (take n gt)) @
              (if length gt > n
               then writeln (''_('' @ show_nat (length gt - n) @
                      '' additional ground-truth disagreement(s) omitted; see JSON report.)_'') @ writeln []
               else []))"

definition class_section :: "classified list \<Rightarrow> nat \<Rightarrow> divergence_class \<Rightarrow> string" where
  "class_section cs n k =
     (let in_class = filter (\<lambda>c. cl_class c = k) cs
      in if in_class = [] then []
         else writeln (''## '' @ class_name k @ '' ('' @ show_nat (length in_class) @ '')'') @ writeln [] @
              concat (map write_chain_block (take n in_class)) @
              (if length in_class > n
               then writeln (''_('' @ show_nat (length in_class - n) @
                      '' additional sample(s) in this class omitted; see JSON report.)_'') @ writeln []
               else []))"

definition write_markdown :: "classified list \<Rightarrow> markdown_options \<Rightarrow> string" where
  "write_markdown cs options =
     writeln (''# '' @ unwrap_or ''pkix-difftest report'' (md_title options)) @ writeln [] @
     summary_table cs @
     ground_truth_section cs (sample_size options) @
     (if sample_size options = 0 then []
      else concat (map (class_section cs (sample_size options)) CLASSES_WORST_FIRST))"

definition verdict_pair_to_json :: "oracle_name \<times> difftest_verdict \<Rightarrow> json" where
  "verdict_pair_to_json p =
     (let (v, reason) = (case snd p of VPass \<Rightarrow> (''pass'', JNull) | VFail reason \<Rightarrow> (''fail'', JString reason))
      in JObject [''oracle'' \<mapsto> JString (oracle_str (fst p)), ''verdict'' \<mapsto> JString v, ''reason'' \<mapsto> reason])"

definition classified_to_json :: "classified \<Rightarrow> json" where
  "classified_to_json c =
     JObject
       [''name'' \<mapsto> JString (cl_name c),
        ''class'' \<mapsto> JString (class_name (cl_class c)),
        ''ground_truth_agreement'' \<mapsto> (case ground_truth_agreement c of None \<Rightarrow> JNull | Some b \<Rightarrow> JBool b),
        ''verdicts'' \<mapsto> JArray (map verdict_pair_to_json (cl_verdicts c))]"

definition json_summary :: "classified list \<Rightarrow> json" where
  "json_summary cs =
     JObject ((fold (\<lambda>k m. m(class_name k \<mapsto> JNumber (int (count_per_class cs ! class_rank k)))) CLASSES_WORST_FIRST (\<lambda>_. None))
       (''total'' \<mapsto> JNumber (int (length cs))))"

definition json_report :: "classified list \<Rightarrow> json" where
  "json_report cs =
     JObject
       [''summary'' \<mapsto> json_summary cs,
        ''ground_truth_disagreements'' \<mapsto> JArray (map classified_to_json (ground_truth_disagreements cs)),
        ''classified'' \<mapsto> JArray (map classified_to_json cs)]"

text \<open>\<open>pretty\<close> is \<open>serde_json::to_writer_pretty\<close>.\<close>

definition write_json :: "(json \<Rightarrow> string + string) \<Rightarrow> classified list \<Rightarrow> io_error + string" where
  "write_json pretty cs =
     and_then (map_err (\<lambda>e. \<lparr> ie_kind = Other_kind, ie_message = ''JSON encode: '' @ e \<rparr>) (pretty (json_report cs)))
       (\<lambda>s. Ok (writeln s))"

section \<open>The run over a corpus\<close>

record corpus_item =
  ci_name :: string
  ci_expected :: "difftest_verdict option"
  ci_chain :: diff_chain

type_synonym oracle_fun = "oracle_name \<Rightarrow> diff_chain \<Rightarrow> io_error + difftest_verdict"

definition parse_oracle_name :: "'x difftest_codec_scheme \<Rightarrow> string \<Rightarrow> io_error + oracle_name" where
  "parse_oracle_name cd s =
     (if s = ''pkix-path'' then Ok PkixPath
      else if s = ''openssl'' then Ok OpenSsl
      else if s = ''pyca'' then Ok Pyca
      else Err \<lparr> ie_kind = InvalidInput,
                 ie_message = ''unknown oracle: '' @ debug_str cd s @ '' (try pkix-path, openssl, pyca)'' \<rparr>)"

definition parse_oracle_list :: "'x difftest_codec_scheme \<Rightarrow> string \<Rightarrow> io_error + oracle_name list" where
  "parse_oracle_list cd s =
     collect_results (parse_oracle_name cd) (filter (\<lambda>t. t \<noteq> []) (map str_trim (split_on (CHR '','') s)))"

text \<open>The oracles on one chain, up to the first harness error.\<close>

definition run_oracles :: "oracle_fun \<Rightarrow> oracle_name list \<Rightarrow> diff_chain \<Rightarrow> io_error + verdict_tuple" where
  "run_oracles run names ch = collect_results (\<lambda>name. map_ok (Pair name) (run name ch)) names"

fun corpus_loop ::
  "oracle_fun \<Rightarrow> oracle_name list \<Rightarrow> (io_error + corpus_item) list \<Rightarrow> classified list \<Rightarrow> (string \<times> io_error) list \<Rightarrow>
   classified list \<times> (string \<times> io_error) list"
where
  "corpus_loop run names [] cs errs = (cs, errs)"
| "corpus_loop run names (Inl e # items) cs errs = corpus_loop run names items cs (errs @ [(''(corpus loader)'', e)])"
| "corpus_loop run names (Inr it # items) cs errs =
     (case run_oracles run names (ci_chain it) of
        Inl e \<Rightarrow> corpus_loop run names items cs (errs @ [(ci_name it, e)])
      | Inr verdicts \<Rightarrow> corpus_loop run names items (cs @ [classify (ci_name it) verdicts (ci_expected it)]) errs)"

record run_opts =
  opt_oracles :: string
  opt_output_md :: "string option"
  opt_output_json :: "string option"
  opt_sample_size :: nat
  opt_title :: "string option"

text \<open>
  An output goes to a path, or to the standard output for \<open>-\<close>; \<open>put\<close> is the error of opening or writing it. The
  first component of a result is what has been written so far.
\<close>

type_synonym outputs = "(string \<times> string) list"

fun emit_to :: "(string \<Rightarrow> io_error option) \<Rightarrow> string option \<Rightarrow> io_error + string \<Rightarrow> outputs \<Rightarrow> outputs \<times> (io_error + unit)" where
  "emit_to put None content outs = (outs, Ok ())"
| "emit_to put (Some target) content outs =
     (case put target of
        Some e \<Rightarrow> (outs, Err e)
      | None \<Rightarrow> (case content of Inl e \<Rightarrow> (outs, Err e) | Inr s \<Rightarrow> (outs @ [(target, s)], Ok ())))"

definition run_corpus ::
  "'x difftest_codec_scheme \<Rightarrow> oracle_fun \<Rightarrow> (json \<Rightarrow> string + string) \<Rightarrow> (string \<Rightarrow> io_error option) \<Rightarrow>
   io_error + (io_error + corpus_item) list \<Rightarrow> run_opts \<Rightarrow> outputs \<times> (io_error + unit)"
where
  "run_corpus cd run pretty put corpus opts =
     (case corpus of
        Inl e \<Rightarrow> ([], Err e)
      | Inr items \<Rightarrow>
     (case parse_oracle_list cd (opt_oracles opts) of
        Inl e \<Rightarrow> ([], Err e)
      | Inr names \<Rightarrow>
          let cs = sort_by_severity (fst (corpus_loop run names items [] []));
              md = write_markdown cs \<lparr> sample_size = opt_sample_size opts, md_title = opt_title opts \<rparr>
          in case emit_to put (opt_output_md opts) (Ok md) [] of
               (outs, Inl e) \<Rightarrow> (outs, Err e)
             | (outs, Inr _) \<Rightarrow>
            (case emit_to put (opt_output_json opts) (write_json pretty cs) outs of
               (outs, Inl e) \<Rightarrow> (outs, Err e)
             | (outs, Inr _) \<Rightarrow>
                 if opt_output_md opts = None \<and> opt_output_json opts = None
                 then emit_to put (Some ''-'') (Ok md) outs
                 else (outs, Ok ()))))"

text \<open>The exit verdict of the single mode.\<close>

fun single_loop :: "oracle_fun \<Rightarrow> diff_chain \<Rightarrow> oracle_name list \<Rightarrow> difftest_verdict \<Rightarrow> io_error + difftest_verdict" where
  "single_loop run ch [] worst = Ok worst"
| "single_loop run ch (name # names) worst =
     and_then (run name ch) (\<lambda>v. single_loop run ch names (if passes v then worst else v))"

definition run_single :: "'x difftest_codec_scheme \<Rightarrow> oracle_fun \<Rightarrow> io_error + bytes \<Rightarrow> string \<Rightarrow> string \<Rightarrow> io_error + difftest_verdict" where
  "run_single cd run file path oracles =
     and_then file (\<lambda>bs.
     and_then (from_pem_bytes cd bs path) (\<lambda>ch.
     and_then (parse_oracle_list cd oracles) (\<lambda>names. single_loop run ch names VPass)))"

fun exit_code :: "io_error + difftest_verdict \<Rightarrow> nat" where
  "exit_code (Inr VPass) = 0"
| "exit_code (Inr (VFail reason)) = 1"
| "exit_code (Inl e) = 2"

section \<open>What the classes mean\<close>

lemma windows_agree_iff: "windows_agree vs \<longleftrightarrow> (\<forall>v\<in>set vs. passes v = passes (hd vs))"
  by (induction vs rule: windows_agree.induct) auto

lemma all_reasons_match_iff: "all_reasons_match vs \<longleftrightarrow> (\<exists>v. snd ` set vs \<subseteq> {v})"
  by (cases vs) (auto simp: list_all_iff)

lemma find_SomeD: "find P xs = Some x \<Longrightarrow> x \<in> set xs \<and> P x"
  by (induction xs) (auto split: if_splits)

lemma pkix_path_verdict_None: "pkix_path_verdict vs = None \<longleftrightarrow> PkixPath \<notin> fst ` set vs"
  by (force simp: pkix_path_verdict_def find_None_iff)

lemma pkix_path_verdict_Some: "pkix_path_verdict vs = Some v \<Longrightarrow> v \<in> snd ` set vs"
  by (auto simp: pkix_path_verdict_def dest!: find_SomeD intro: rev_image_eqI)

lemma set_other_verdicts: "set (other_verdicts vs) \<subseteq> snd ` set vs"
  by (auto simp: other_verdicts_def)

lemma passes_iff: "passes v \<longleftrightarrow> v = VPass"
  by (cases v) simp_all

lemma not_pass_iff: "v \<noteq> VPass \<longleftrightarrow> (\<exists>r. v = VFail r)"
  by (cases v) simp_all

lemma classify_with_pkix_path_cases:
  "classify_with_pkix_path pkix others full =
     (if pkix = VPass \<and> \<not> set others \<subseteq> {VPass} then LooserThanWild
      else if pkix \<noteq> VPass \<and> VPass \<in> set others then StricterThanWild
      else if \<exists>v. snd ` set full \<subseteq> {v} then Agreement else DiagnosticDivergence)"
proof -
  have ex: "list_ex passes others \<longleftrightarrow> VPass \<in> set others" "list_ex (\<lambda>v. \<not> passes v) others \<longleftrightarrow> \<not> set others \<subseteq> {VPass}"
    by (auto simp: list_ex_iff passes_iff)
  have "windows_agree others" if "\<not> (pkix = VPass \<and> \<not> set others \<subseteq> {VPass})" "\<not> (pkix \<noteq> VPass \<and> VPass \<in> set others)"
    using that by (cases others) (auto simp: windows_agree_iff passes_iff)
  then show ?thesis
    unfolding classify_with_pkix_path_def Let_def ex all_reasons_match_iff by (simp add: passes_iff)
qed

lemma classify_oracles_only_cases:
  "classify_oracles_only vs =
     (if VPass \<in> snd ` set vs \<and> \<not> snd ` set vs \<subseteq> {VPass} then OracleDivergence
      else if \<exists>v. snd ` set vs \<subseteq> {v} then Agreement else DiagnosticDivergence)"
proof -
  have all: "list_all (\<lambda>p. p) (map (\<lambda>(_, v). passes v) vs) \<longleftrightarrow> snd ` set vs \<subseteq> {VPass}"
    "list_all (\<lambda>p. \<not> p) (map (\<lambda>(_, v). passes v) vs) \<longleftrightarrow> VPass \<notin> snd ` set vs"
    by (force simp: list_all_iff passes_iff)+
  show ?thesis
    unfolding classify_oracles_only_def Let_def all all_reasons_match_iff by (cases vs) auto
qed

lemma class_if:
  fixes a b c :: bool
  assumes "c \<Longrightarrow> \<not> (p \<and> a)" "c \<Longrightarrow> \<not> (\<not> p \<and> b)"
  defines "k \<equiv> (if p \<and> a then LooserThanWild else if \<not> p \<and> b then StricterThanWild
                 else if c then Agreement else DiagnosticDivergence)"
  shows "k = LooserThanWild \<longleftrightarrow> p \<and> a" "k = StricterThanWild \<longleftrightarrow> \<not> p \<and> b" "k \<noteq> OracleDivergence" "k = Agreement \<longleftrightarrow> c"
  using assms(1,2) by (auto simp: k_def)

text \<open>
  Looser than wild means that pkix-path accepts a chain another oracle refuses, stricter than wild the
  reverse; oracles diverge only in a tuple without pkix-path; and agreement means that all verdicts, with their
  reasons, are equal.
\<close>

theorem classify_exact:
  "(cl_class (classify name vs e) = LooserThanWild \<longleftrightarrow>
      pkix_path_verdict vs = Some VPass \<and> (\<exists>r. VFail r \<in> set (other_verdicts vs))) \<and>
   (cl_class (classify name vs e) = StricterThanWild \<longleftrightarrow>
      (\<exists>r. pkix_path_verdict vs = Some (VFail r)) \<and> VPass \<in> set (other_verdicts vs)) \<and>
   (cl_class (classify name vs e) = OracleDivergence \<longleftrightarrow>
      PkixPath \<notin> fst ` set vs \<and> VPass \<in> snd ` set vs \<and> (\<exists>r. VFail r \<in> snd ` set vs)) \<and>
   (cl_class (classify name vs e) = Agreement \<longleftrightarrow> (\<exists>v. snd ` set vs \<subseteq> {v}))"
  (is "(?k = LooserThanWild \<longleftrightarrow> ?l) \<and> (?k = StricterThanWild \<longleftrightarrow> ?s) \<and> (?k = OracleDivergence \<longleftrightarrow> ?o) \<and>
       (?k = Agreement \<longleftrightarrow> ?a)")
proof -
  have sub: "\<not> S \<subseteq> {VPass} \<longleftrightarrow> (\<exists>r. VFail r \<in> S)" for S :: "difftest_verdict set"
    by (auto simp: subset_iff not_pass_iff)
  show ?thesis
  proof (cases "pkix_path_verdict vs")
    case None
    let ?V = "snd ` set vs"
    have c: "?k = (if VPass \<in> ?V \<and> \<not> ?V \<subseteq> {VPass} then OracleDivergence
        else if ?a then Agreement else DiagnosticDivergence)"
      by (simp add: classify_def None classify_oracles_only_cases)
    have a: "\<not> (VPass \<in> ?V \<and> \<not> ?V \<subseteq> {VPass})" if ?a using that by auto
    have o: "?o \<longleftrightarrow> VPass \<in> ?V \<and> \<not> ?V \<subseteq> {VPass}"
      using None pkix_path_verdict_None [of vs] unfolding sub by simp
    have "?k \<noteq> LooserThanWild" "?k \<noteq> StricterThanWild" unfolding c by simp_all
    moreover have "\<not> ?l" "\<not> ?s" unfolding None by simp_all
    moreover have "?k = OracleDivergence \<longleftrightarrow> ?o" unfolding c o by simp
    moreover have "?k = Agreement \<longleftrightarrow> ?a" unfolding c using a by (simp split del: if_split) (simp; blast)
    ultimately show ?thesis by (intro conjI) simp_all
  next
    case (Some p)
    have p: "p \<in> snd ` set vs" by (rule pkix_path_verdict_Some [OF Some])
    have ne: "PkixPath \<in> fst ` set vs" using pkix_path_verdict_None [of vs] Some by simp
    let ?O = "set (other_verdicts vs)"
    have sub_p: "?O \<subseteq> {p}" if ?a using that p set_other_verdicts [of vs] by blast
    have same: "\<not> (p = VPass \<and> \<not> ?O \<subseteq> {VPass})" "\<not> (\<not> p = VPass \<and> VPass \<in> ?O)" if ?a
      using sub_p [OF that] by auto
    have c: "?k = (if p = VPass \<and> \<not> ?O \<subseteq> {VPass} then LooserThanWild
        else if \<not> p = VPass \<and> VPass \<in> ?O then StricterThanWild
        else if ?a then Agreement else DiagnosticDivergence)"
      by (simp add: classify_def Some classify_with_pkix_path_cases)
    have l: "?l \<longleftrightarrow> p = VPass \<and> \<not> ?O \<subseteq> {VPass}" unfolding Some sub by simp
    have s: "?s \<longleftrightarrow> \<not> p = VPass \<and> VPass \<in> ?O" unfolding Some using not_pass_iff [of p] by simp
    have "?k = LooserThanWild \<longleftrightarrow> ?l" unfolding c l by (rule class_if(1) [OF same])
    moreover have "?k = StricterThanWild \<longleftrightarrow> ?s" unfolding c s by (rule class_if(2) [OF same])
    moreover have "?k \<noteq> OracleDivergence" unfolding c by (rule class_if(3) [OF same])
    moreover have "?k = Agreement \<longleftrightarrow> ?a" unfolding c by (rule class_if(4) [OF same])
    ultimately show ?thesis using ne by (intro conjI) simp_all
  qed
qed

section \<open>Filtered bundles\<close>

definition certificate_block :: "bytes \<Rightarrow> bool" where
  "certificate_block block \<longleftrightarrow> take (length CERT_LABEL) (drop (length PEM_BEGIN) block) = CERT_LABEL"

text \<open>Where the block at the start of the input ends.\<close>

definition block_stop :: "bytes \<Rightarrow> nat option" where
  "block_stop block = Option.bind (begin_line block) (block_end block)"

lemma find_byte_prefix:
  "find_byte xs b = Some i \<Longrightarrow> i < m \<Longrightarrow> find_byte (take m xs @ ys) b = Some i"
proof (induction xs arbitrary: i m)
  case (Cons x xs)
  then show ?case by (cases m) (auto split: if_splits)
qed simp

lemma find_byte_None_iff: "find_byte xs b = None \<longleftrightarrow> b \<notin> set xs"
  by (induction xs) auto

lemma find_byte_nth: "find_byte xs b = Some i \<Longrightarrow> xs ! i = b"
  by (induction xs arbitrary: i) (auto split: if_splits)

lemma find_subseq_prefix:
  "find_subseq xs p = Some i \<Longrightarrow> i + length p \<le> m \<Longrightarrow> find_subseq (take m xs @ ys) p = Some i"
proof (induction xs p arbitrary: i m rule: find_subseq.induct)
  case (2 x xs p)
  note at = find_subseq_Some [OF "2.prems"(1)]
  then obtain k where m: "m = Suc k" using "2.prems"(2) by (cases m) auto
  show ?case
  proof (cases "take (length p) (x # xs) = p")
    case True
    with "2.prems" at have "i = 0" by auto
    with True "2.prems"(2) at show ?thesis by (auto simp: m take_Cons' min_def)
  next
    case False
    with "2.prems" at obtain j where j: "find_subseq xs p = Some j" "i = Suc j" by auto
    have "take (length p) (x # take k xs @ ys) \<noteq> p"
    proof -
      have "length p \<le> Suc (length (take k xs))" using "2.prems"(2) at j(2) m by auto
      then have "take (length p) (x # take k xs @ ys) = take (length p) (x # take k xs)"
        by (cases "length p") simp_all
      also have "\<dots> = take (length p) (x # xs)" using "2.prems"(2) j(2) m by (cases "length p") simp_all
      finally show ?thesis using False by simp
    qed
    with "2.IH" [of j k] at False j "2.prems"(2) show ?thesis by (simp add: m)
  qed
qed simp

lemma block_stopE:
  assumes "block_stop block = Some s"
  obtains a r where "find_byte block NEWLINE = Some a" "find_subseq (drop (Suc a) block) PEM_END = Some r"
    "s = (case find_byte (drop (Suc a + r) block) NEWLINE of Some n \<Rightarrow> Suc a + r + n + 1 | None \<Rightarrow> length block)"
  using assms by (auto simp: block_stop_def begin_line_def block_end_def Let_def bind_eq_Some_conv)

text \<open>A block found in the input is found again when only what follows it changes.\<close>

lemma block_stop_again:
  assumes "block_stop block = Some s" "s < length block \<or> ys = []"
  shows "block_stop (take s block @ ys) = Some s"
proof -
  obtain a r where a: "find_byte block NEWLINE = Some a" and r: "find_subseq (drop (Suc a) block) PEM_END = Some r"
    and s: "s = (case find_byte (drop (Suc a + r) block) NEWLINE of Some n \<Rightarrow> Suc a + r + n + 1 | None \<Rightarrow> length block)"
    by (rule block_stopE [OF assms(1)])
  have "r + 9 \<le> length block - Suc a" and marker: "take 9 (drop (Suc a + r) block) = PEM_END"
    using find_subseq_Some [OF r] by (simp_all add: length_PEM_END add.commute)
  then have bound: "Suc a + r + 9 \<le> length block" by arith
  show ?thesis
  proof (cases "find_byte (drop (Suc a + r) block) NEWLINE")
    case None
    with s assms(2) have "take s block @ ys = block" by simp
    with assms(1) show ?thesis by simp
  next
    case (Some n)
    have n: "drop (Suc a + r) block ! n = NEWLINE" "n < length (drop (Suc a + r) block)"
      using Some by (auto dest: find_byte_nth find_byte_less)
    have "\<not> n < 9"
    proof
      assume "n < 9"
      then have "PEM_END ! n = NEWLINE" using n(1) by (simp add: marker [symmetric])
      with \<open>n < 9\<close> have "NEWLINE \<in> set PEM_END" by (metis length_PEM_END nth_mem)
      then show False by (simp add: NEWLINE_def PEM_END_def)
    qed
    with Some s n(2) have le: "Suc a + r + 9 < s" "s \<le> length block" "s = Suc a + r + n + 1" by auto
    have dr: "drop k (take s block @ ys) = take (s - k) (drop k block) @ ys" if "k \<le> s" for k
      using that le(2) by (simp add: drop_take)
    have "find_byte (take s block @ ys) NEWLINE = Some a" by (rule find_byte_prefix [OF a]) (use le in simp)
    moreover have "find_subseq (drop (Suc a) (take s block @ ys)) PEM_END = Some r"
      using le by (subst dr, simp) (rule find_subseq_prefix [OF r], simp add: length_PEM_END)
    moreover have "find_byte (drop (Suc a + r) (take s block @ ys)) NEWLINE = Some n"
      using le by (subst dr, simp) (rule find_byte_prefix [OF Some], simp)
    ultimately show ?thesis using le(3) by (simp add: block_stop_def begin_line_def block_end_def Let_def)
  qed
qed

lemma split_pem_blocks_unfold:
  "split_pem_blocks rest =
     (case find_subseq rest PEM_BEGIN of
        None \<Rightarrow> Ok []
      | Some b \<Rightarrow>
          (case block_stop (drop b rest) of
             None \<Rightarrow> split_pem_blocks rest
           | Some s \<Rightarrow> map_ok ((#) (take s (drop b rest))) (split_pem_blocks (drop s (drop b rest)))))"
proof (cases "find_subseq rest PEM_BEGIN")
  case (Some b)
  then have "rest \<noteq> []" by auto
  with Some show ?thesis
    by (simp add: split_pem_blocks.simps [of rest] block_stop_def Let_def and_then_def map_ok_def
        split: option.splits)
qed (simp add: split_pem_blocks.simps [of rest])

lemma filter_blocks_unfold:
  "filter_non_certificate_blocks rest =
     (case find_subseq rest PEM_BEGIN of
        None \<Rightarrow> []
      | Some b \<Rightarrow>
          (case block_stop (drop b rest) of
             None \<Rightarrow> []
           | Some s \<Rightarrow>
               (if certificate_block (drop b rest) then take s (drop b rest) else []) @
               filter_non_certificate_blocks (drop s (drop b rest))))"
proof (cases "find_subseq rest PEM_BEGIN")
  case (Some b)
  then have "rest \<noteq> []" by auto
  with Some show ?thesis
    by (simp add: filter_non_certificate_blocks.simps [of rest] block_stop_def certificate_block_def Let_def
        split: option.splits)
qed (simp add: filter_non_certificate_blocks.simps [of rest])

lemma find_subseq_0: "p \<noteq> [] \<Longrightarrow> take (length p) xs = p \<Longrightarrow> find_subseq xs p = Some 0"
  by (cases xs) auto

lemma block_stop_bounds:
  assumes "block_stop block = Some s"
  shows "0 < s" "s \<le> length block"
  using assms block_end_bounds by (auto simp: block_stop_def bind_eq_Some_conv)

text \<open>The label ends before the first line does.\<close>

lemma certificate_block_take:
  assumes "block_stop block = Some s" "take (length PEM_BEGIN) block = PEM_BEGIN"
  shows "certificate_block (take s block) \<longleftrightarrow> certificate_block block"
    and "length PEM_BEGIN \<le> s"
proof -
  obtain a r where a1: "find_byte block NEWLINE = Some a"
    and s: "s = (case find_byte (drop (Suc a + r) block) NEWLINE of Some n \<Rightarrow> Suc a + r + n + 1 | None \<Rightarrow> length block)"
    by (rule block_stopE [OF assms(1)])
  have "a < s" using s find_byte_less [OF a1] by (simp split: option.splits)
  note a = a1 this
  have nl: "block ! a = NEWLINE" "a < length block" using find_byte_nth [OF a(1)] find_byte_less [OF a(1)] by simp_all
  have "\<not> a < 11"
  proof
    assume "a < 11"
    then have "PEM_BEGIN ! a = NEWLINE" using assms(2) nl by (metis length_PEM_BEGIN nth_take)
    with \<open>a < 11\<close> have "NEWLINE \<in> set PEM_BEGIN" by (metis length_PEM_BEGIN nth_mem)
    then show False by (simp add: NEWLINE_def PEM_BEGIN_def)
  qed
  then show "length PEM_BEGIN \<le> s" using a(2) by (simp add: length_PEM_BEGIN)
  show "certificate_block (take s block) \<longleftrightarrow> certificate_block block"
  proof (cases "27 \<le> s")
    case True
    then have "take 16 (drop 11 (take s block)) = take 16 (drop 11 block)" by (simp add: drop_take min_def)
    then show ?thesis by (simp add: certificate_block_def length_PEM_BEGIN length_CERT_LABEL)
  next
    case False
    have "length (take 16 (drop 11 (take s block))) \<le> s - 11" by simp
    with False have short: "length (take 16 (drop 11 (take s block))) \<noteq> length CERT_LABEL"
      by (simp add: length_CERT_LABEL)
    have "NEWLINE \<in> set (take 16 (drop 11 block))"
    proof -
      have "take 16 (drop 11 block) ! (a - 11) = NEWLINE" "a - 11 < length (take 16 (drop 11 block))"
        using \<open>\<not> a < 11\<close> nl a(2) False by (simp_all, arith)
      then show ?thesis by (metis nth_mem)
    qed
    moreover have "NEWLINE \<notin> set CERT_LABEL" by (simp add: NEWLINE_def CERT_LABEL_def)
    ultimately have "\<not> certificate_block block" by (auto simp: certificate_block_def length_PEM_BEGIN length_CERT_LABEL)
    moreover have "\<not> certificate_block (take s block)"
      using short by (metis certificate_block_def length_PEM_BEGIN length_CERT_LABEL)
    ultimately show ?thesis by simp
  qed
qed

lemma split_first_block:
  assumes "block_stop block = Some s" "take (length PEM_BEGIN) block = PEM_BEGIN" "s < length block \<or> ys = []"
  shows "split_pem_blocks (take s block @ ys) = map_ok ((#) (take s block)) (split_pem_blocks ys)"
proof -
  have "take (length PEM_BEGIN) (take s block @ ys) = PEM_BEGIN"
    using certificate_block_take(2) [OF assms(1,2)] assms(2) block_stop_bounds [OF assms(1)]
    by (simp add: min_def)
  then have "find_subseq (take s block @ ys) PEM_BEGIN = Some 0"
    by (rule find_subseq_0 [rotated]) (simp add: PEM_BEGIN_def)
  moreover have "length (take s block) = s" using block_stop_bounds(2) [OF assms(1)] by simp
  ultimately show ?thesis
    by (subst split_pem_blocks_unfold) (simp add: block_stop_again [OF assms(1,3)])
qed

text \<open>
  Whatever the input of the corpus walker, what its filter keeps is split into blocks without an error, each
  labelled as a certificate, nothing is lost between them, and where the strict loader can split the input they
  are exactly its certificate blocks.
\<close>

theorem filtered_bundle_splits:
  "\<exists>blocks.
     split_pem_blocks (filter_non_certificate_blocks bs) = Ok blocks \<and>
     concat blocks = filter_non_certificate_blocks bs \<and> list_all certificate_block blocks \<and>
     (case split_pem_blocks bs of Inl e \<Rightarrow> True | Inr every \<Rightarrow> blocks = filter certificate_block every)"
proof (induction bs rule: measure_induct_rule [of length])
  case (less rest)
  have nil: "split_pem_blocks [] = Ok []" by (simp add: split_pem_blocks.simps)
  show ?case
  proof (cases "find_subseq rest PEM_BEGIN")
    case None
    then show ?thesis
      by (simp add: filter_blocks_unfold [of rest] split_pem_blocks_unfold [of rest] nil)
  next
    case (Some b)
    let ?block = "drop b rest"
    have starts: "take (length PEM_BEGIN) ?block = PEM_BEGIN" "b < length rest"
      using find_subseq_Some [OF Some] by (auto simp: PEM_BEGIN_def)
    show ?thesis
    proof (cases "block_stop ?block")
      case None
      have "\<exists>e. split_pem_blocks rest = Err e"
        using None Some by (auto simp: split_pem_blocks.simps [of rest] block_stop_def Let_def split: option.splits)
      then show ?thesis by (auto simp: filter_blocks_unfold [of rest] Some None nil)
    next
      case (Some s)
      let ?rest = "drop s ?block"
      note s = block_stop_bounds [OF Some]
      have "length ?rest < length rest" using s starts(2) by simp
      from less.IH [OF this] obtain blocks where
        IH: "split_pem_blocks (filter_non_certificate_blocks ?rest) = Ok blocks"
          "concat blocks = filter_non_certificate_blocks ?rest" "list_all certificate_block blocks"
          "case split_pem_blocks ?rest of Inl e \<Rightarrow> True | Inr every \<Rightarrow> blocks = filter certificate_block every"
        by blast
      have split: "split_pem_blocks rest = map_ok ((#) (take s ?block)) (split_pem_blocks ?rest)"
        by (subst split_pem_blocks_unfold) (simp add: \<open>find_subseq rest PEM_BEGIN = Some b\<close> Some)
      have flt: "filter_non_certificate_blocks rest =
          (if certificate_block ?block then take s ?block else []) @ filter_non_certificate_blocks ?rest"
        by (subst filter_blocks_unfold) (simp add: \<open>find_subseq rest PEM_BEGIN = Some b\<close> Some)
      note cert = certificate_block_take(1) [OF Some starts(1)]
      show ?thesis
      proof (cases "certificate_block ?block")
        case False
        with IH cert show ?thesis unfolding split flt by (intro exI [of _ blocks]) (simp split: sum.splits)
      next
        case True
        have "s < length ?block \<or> filter_non_certificate_blocks ?rest = []"
          using s(2) by (cases "s = length ?block") (simp_all add: filter_non_certificate_blocks.simps [of "[]"])
        from split_first_block [OF Some starts(1) this] True IH cert show ?thesis
          unfolding split flt by (intro exI [of _ "take s ?block # blocks"]) (simp split: sum.splits)
      qed
    qed
  qed
qed

section \<open>The reports\<close>

lemma oracle_str_inject: "oracle_str a = oracle_str b \<longleftrightarrow> a = b"
  by (cases a; cases b) simp_all

lemma class_name_inject: "class_name a = class_name b \<longleftrightarrow> a = b"
  by (cases a; cases b) simp_all

text \<open>The fields of the JSON objects, by which they are compared.\<close>

lemma verdict_pair_fields:
  "json_get ''oracle'' (verdict_pair_to_json p) = Some (JString (oracle_str (fst p)))"
  "json_get ''reason'' (verdict_pair_to_json p) =
     Some (case snd p of VPass \<Rightarrow> JNull | VFail reason \<Rightarrow> JString reason)"
  by (simp_all add: verdict_pair_to_json_def json_get_def split: difftest_verdict.splits)

lemma verdict_pair_to_json_inject: "verdict_pair_to_json p = verdict_pair_to_json q \<longleftrightarrow> p = q"
proof
  assume eq: "verdict_pair_to_json p = verdict_pair_to_json q"
  have "fst p = fst q" using verdict_pair_fields(1) [of p] verdict_pair_fields(1) [of q] eq by (simp add: oracle_str_inject)
  moreover have "snd p = snd q"
    using verdict_pair_fields(2) [of p] verdict_pair_fields(2) [of q] eq by (simp split: difftest_verdict.splits)
  ultimately show "p = q" by (rule prod_eqI)
qed simp

lemma classified_fields:
  "json_get ''name'' (classified_to_json c) = Some (JString (cl_name c))"
  "json_get ''class'' (classified_to_json c) = Some (JString (class_name (cl_class c)))"
  "json_get ''ground_truth_agreement'' (classified_to_json c) =
     Some (case ground_truth_agreement c of None \<Rightarrow> JNull | Some b \<Rightarrow> JBool b)"
  "json_get ''verdicts'' (classified_to_json c) = Some (JArray (map verdict_pair_to_json (cl_verdicts c)))"
  by (simp_all add: classified_to_json_def json_get_def)

lemma classified_to_json_inject: "classified_to_json c = classified_to_json d \<longleftrightarrow> c = d"
proof
  assume eq: "classified_to_json c = classified_to_json d"
  note f = classified_fields [of c, unfolded eq classified_fields [of d]]
  have "cl_name c = cl_name d" "cl_class c = cl_class d" using f(1,2) by (simp_all add: class_name_inject)
  moreover have "ground_truth_agreement c = ground_truth_agreement d" using f(3) by (simp split: option.splits)
  moreover have "cl_verdicts c = cl_verdicts d"
    using f(4) by (simp add: inj_map_eq_map inj_def verdict_pair_to_json_inject)
  ultimately show "c = d" by simp
qed simp

lemma json_report_inject: "json_report cs = json_report ds \<longleftrightarrow> cs = ds"
proof
  assume "json_report cs = json_report ds"
  then have "json_get ''classified'' (json_report cs) = json_get ''classified'' (json_report ds)" by simp
  then show "cs = ds"
    by (simp add: json_report_def json_get_def inj_map_eq_map inj_def classified_to_json_inject)
qed simp

lemma count_per_class_fold:
  "length counts = 5 \<Longrightarrow>
   length (fold (\<lambda>c counts. counts[class_rank (cl_class c) := counts ! class_rank (cl_class c) + 1]) cs counts) = 5 \<and>
   fold (\<lambda>c counts. counts[class_rank (cl_class c) := counts ! class_rank (cl_class c) + 1]) cs counts ! class_rank k =
     counts ! class_rank k + length (filter (\<lambda>c. cl_class c = k) cs)"
proof (induction cs arbitrary: counts)
  case (Cons c cs)
  have "class_rank (cl_class c) < 5" by (cases "cl_class c") simp_all
  with Cons show ?case by (simp add: nth_list_update class_rank_inject)
qed simp

lemma count_per_class_nth: "count_per_class cs ! class_rank k = length (filter (\<lambda>c. cl_class c = k) cs)"
proof -
  have "replicate 5 (0::nat) ! class_rank k = 0" by (cases k) simp_all
  then show ?thesis using count_per_class_fold [of "replicate 5 0" cs k] by (simp add: count_per_class_def)
qed

lemma total_of_classes: "sum_list (map (\<lambda>k. length (filter (\<lambda>c. cl_class c = k) cs)) CLASSES_WORST_FIRST) = length cs"
proof (induction cs)
  case (Cons c cs)
  then show ?case by (cases "cl_class c") (simp_all add: CLASSES_WORST_FIRST_def)
qed (simp add: CLASSES_WORST_FIRST_def)

text \<open>What becomes of one item of the corpus.\<close>

fun item_outcome :: "oracle_fun \<Rightarrow> oracle_name list \<Rightarrow> io_error + corpus_item \<Rightarrow> (string \<times> io_error) + classified" where
  "item_outcome run names (Inl e) = Inl (''(corpus loader)'', e)"
| "item_outcome run names (Inr it) =
     (case run_oracles run names (ci_chain it) of
        Inl e \<Rightarrow> Inl (ci_name it, e)
      | Inr verdicts \<Rightarrow> Inr (classify (ci_name it) verdicts (ci_expected it)))"

definition oks :: "('e + 'a) list \<Rightarrow> 'a list" where "oks rs = concat (map (case_sum (\<lambda>e. []) (\<lambda>x. [x])) rs)"
definition errs :: "('e + 'a) list \<Rightarrow> 'e list" where "errs rs = concat (map (case_sum (\<lambda>e. [e]) (\<lambda>x. [])) rs)"

lemma oks_simps [simp]: "oks [] = []" "oks (Inl e # rs) = oks rs" "oks (Inr x # rs) = x # oks rs"
  by (simp_all add: oks_def)

lemma errs_simps [simp]: "errs [] = []" "errs (Inl e # rs) = e # errs rs" "errs (Inr x # rs) = errs rs"
  by (simp_all add: errs_def)

lemma length_oks_errs: "length (oks rs) + length (errs rs) = length rs"
proof (induction rs)
  case (Cons r rs)
  then show ?case by (cases r) simp_all
qed simp

lemma corpus_loop_outcomes:
  "corpus_loop run names items cs es =
     (cs @ oks (map (item_outcome run names) items), es @ errs (map (item_outcome run names) items))"
  by (induction run names items cs es rule: corpus_loop.induct) (simp_all split: sum.splits)

lemma run_oracles_Ok:
  "run_oracles run names ch = Ok vs \<longleftrightarrow>
     map fst vs = names \<and> list_all (\<lambda>(name, v). run name ch = Ok v) vs"
proof (induction names arbitrary: vs)
  case Nil
  then show ?case by (auto simp: run_oracles_def)
next
  case (Cons n ns)
  show ?case
  proof
    assume "run_oracles run (n # ns) ch = Ok vs"
    then obtain v ws where "run n ch = Ok v" "run_oracles run ns ch = Ok ws" "vs = (n, v) # ws"
      by (auto simp: run_oracles_def map_ok_def and_then_Ok_iff split: sum.splits)
    with Cons.IH [of ws] show "map fst vs = n # ns \<and> list_all (\<lambda>(name, v). run name ch = Ok v) vs" by simp
  next
    assume r: "map fst vs = n # ns \<and> list_all (\<lambda>(name, v). run name ch = Ok v) vs"
    then obtain v ws where "vs = (n, v) # ws" by (cases vs) auto
    with r Cons.IH [of ws] show "run_oracles run (n # ns) ch = Ok vs" by (simp add: run_oracles_def)
  qed
qed

text \<open>
  A run over a corpus whose JSON report can be written: every item is either one entry of the report or one
  harness error, the entries are sorted worst first, the counts per class are those of the entries and add up to
  their number, and the report determines the entries.
\<close>

theorem corpus_report_complete:
  "let outcomes = map (item_outcome run names) items;
       cs = sort_by_severity (fst (corpus_loop run names items [] []))
   in mset cs = mset (oks outcomes) \<and>
      length cs + length (snd (corpus_loop run names items [] [])) = length items \<and>
      sorted (map (\<lambda>c. (cl_class c, cl_name c)) cs) \<and>
      (\<forall>k. count_per_class cs ! class_rank k = length (filter (\<lambda>c. cl_class c = k) cs)) \<and>
      sum_list (map (\<lambda>k. count_per_class cs ! class_rank k) CLASSES_WORST_FIRST) = length cs \<and>
      (\<forall>ds. json_report ds = json_report cs \<longleftrightarrow> ds = cs)"
  using length_oks_errs [of "map (item_outcome run names) items"]
  by (simp add: Let_def corpus_loop_outcomes sort_by_severity_def json_report_inject count_per_class_nth total_of_classes)

end
