(* ===== verification/DiffOracles.thy ===== *)
theory DiffOracles
  imports DiffHarness ZlintContract Profiles
begin

text \<open>
  The oracles of \<open>pkix-difftest\<close>: pkix-path in process (\<open>oracles/pkix_path.rs\<close>), \<open>openssl verify\<close>
  (\<open>oracles/openssl.rs\<close>) and the pyca sidecar (\<open>oracles/pyca.rs\<close>) as child processes, and the oracles for lints
  (\<open>lint_oracles\<close>). Child processes, temporary files and the environment are fields of world records.
\<close>

section \<open>pkix-path\<close>

text \<open>The codec of the oracle: how a serial number is shown, and the file system's view of text.\<close>

record oracle_codec = difftest_codec +
  show_serial :: "bytes \<Rightarrow> string"
  utf8_lossy :: "bytes \<Rightarrow> string"

fun parse_certs :: "'x oracle_codec_scheme \<Rightarrow> string \<Rightarrow> nat \<Rightarrow> bytes list \<Rightarrow> io_error + certificate list" where
  "parse_certs cd label i [] = Ok []"
| "parse_certs cd label i (der # ders) =
     and_then (map_err (\<lambda>e. invalid_data (''cert at index '' @ show_nat i @ '' in chain '' @ debug_str cd label @
         '' failed to parse: '' @ display_der_error e)) (dec_certificate cd der)) (\<lambda>cert.
     and_then (parse_certs cd label (i + 1) ders) (\<lambda>certs. Ok (cert # certs)))"

text \<open>The CRLs against one certificate; the last of the chain is issued by the anchor.\<close>

fun revoked_by ::
  "'x oracle_codec_scheme \<Rightarrow> crypto_backends \<Rightarrow> u64 \<Rightarrow> certificate \<Rightarrow> certificate option \<Rightarrow> trust_anchor \<Rightarrow> bytes list \<Rightarrow>
   revocation_error option"
where
  "revoked_by cd cb now_unix cert issuer_cert anchor [] = None"
| "revoked_by cd cb now_unix cert issuer_cert anchor (crl_der # crls) =
     (case crl_checker_new cd crl_der now_unix (default_verifier cb) of
        Inl _ \<Rightarrow> revoked_by cd cb now_unix cert issuer_cert anchor crls
      | Inr checker \<Rightarrow>
         (case (case issuer_cert of
                  Some iss \<Rightarrow> crl_check_revocation cd checker cert iss
                | None \<Rightarrow> crl_check_revocation_against_anchor cd checker cert anchor) of
            Inl (Revoked serial reason_code) \<Rightarrow> Some (Revoked serial reason_code)
          | _ \<Rightarrow> revoked_by cd cb now_unix cert issuer_cert anchor crls))"

fun oracle_check_revocation ::
  "'x oracle_codec_scheme \<Rightarrow> crypto_backends \<Rightarrow> u64 \<Rightarrow> trust_anchor \<Rightarrow> bytes list \<Rightarrow> nat \<Rightarrow> certificate list \<Rightarrow> string option"
where
  "oracle_check_revocation cd cb now_unix anchor crls i [] = None"
| "oracle_check_revocation cd cb now_unix anchor crls i (cert # rest) =
     (case revoked_by cd cb now_unix cert (case rest of [] \<Rightarrow> None | iss # _ \<Rightarrow> Some iss) anchor crls of
        Some e \<Rightarrow>
          Some (''pkix-path revocation: cert at chain index '' @ show_nat i @ '' revoked by CRL: '' @
                display_revocation_error (show_serial cd) e)
      | None \<Rightarrow> oracle_check_revocation cd cb now_unix anchor crls (i + 1) rest)"

definition check_shape_of_chain :: "string \<Rightarrow> string \<Rightarrow> diff_chain \<Rightarrow> io_error + unit" where
  "check_shape_of_chain no_root too_short ch =
     (if \<not> root_in_chain ch then Err (invalid_data no_root)
      else if length (certs_der ch) < 2 then Err (invalid_data too_short)
      else Ok ())"

text \<open>\<open>clock\<close> is the reading of the system clock, zero before the epoch.\<close>

definition pkix_path_verify ::
  "'x oracle_codec_scheme \<Rightarrow> crypto_backends \<Rightarrow> u64 \<Rightarrow> diff_chain \<Rightarrow> io_error + difftest_verdict"
where
  "pkix_path_verify cd cb clock ch =
     and_then (check_shape_of_chain
         (''pkix-path oracle requires the trust anchor to be present as the last cert; '' @
          ''root_in_chain = false is not supported (PKIX-7nsf.4 follow-up)'')
         (''pkix-path oracle requires at least 2 certs (leaf + root); single-cert '' @
          ''chains have no path to validate'') ch) (\<lambda>_.
     and_then (parse_certs cd (chain_label ch) 0 (certs_der ch)) (\<lambda>certs.
     let last_idx = length certs - 1;
         anchor = trust_anchor_from_cert cd (certs ! last_idx);
         validation_chain = take last_idx certs;
         now = unwrap_or clock (validation_time_unix ch)
     in case validate_path cd validation_chain [anchor] (validation_policy_new now) (default_verifier cb) of
          Inl e \<Rightarrow> Ok (VFail (display_path_error e))
        | Inr _ \<Rightarrow>
            if chain_crls ch = [] then Ok VPass
            else case oracle_check_revocation cd cb now anchor (chain_crls ch) 0 validation_chain of
                   Some rev_reason \<Rightarrow> Ok (VFail rev_reason)
                 | None \<Rightarrow> Ok VPass))"

section \<open>OpenSSL\<close>

definition OPENSSL_BIN_ENV :: string where "OPENSSL_BIN_ENV = ''PKIX_DIFFTEST_OPENSSL_BIN''"

record verify_args =
  va_purpose :: "string option"
  va_hostname :: "string option"
  va_email :: "string option"
  va_ip :: "string option"

definition default_verify_args :: verify_args where
  "default_verify_args = \<lparr> va_purpose = None, va_hostname = None, va_email = None, va_ip = None \<rparr>"

text \<open>
  \<open>ow_run\<close> starts a binary on its arguments with the files of the temporary directory, and returns whether it
  exited with zero, and its standard error.
\<close>

type_synonym files = "string \<Rightarrow> string option"

record openssl_world =
  ow_env :: "string \<Rightarrow> string option"
  ow_temp_dir :: "io_error + string"
  ow_write :: "string \<Rightarrow> io_error option"
  ow_run :: "string \<Rightarrow> string list \<Rightarrow> files \<Rightarrow> io_error + (bool \<times> bytes)"

definition join_path :: "string \<Rightarrow> string \<Rightarrow> string" where "join_path dir f = dir @ ''/'' @ f"

definition write_file :: "openssl_world \<Rightarrow> string \<Rightarrow> string \<Rightarrow> files \<Rightarrow> io_error + files" where
  "write_file w path content files =
     (case ow_write w path of None \<Rightarrow> Ok (files(path \<mapsto> content)) | Some e \<Rightarrow> Err e)"

definition der_to_pem :: "'x oracle_codec_scheme \<Rightarrow> bytes \<Rightarrow> io_error + string" where
  "der_to_pem cd der = map_err (\<lambda>e. invalid_data (''PEM encode: '' @ e)) (pem_encode_string cd ''CERTIFICATE'' der)"

definition middle :: "'a list \<Rightarrow> 'a list" where "middle xs = take (length xs - 2) (drop 1 xs)"

definition write_chain_to_tempdir ::
  "'x oracle_codec_scheme \<Rightarrow> openssl_world \<Rightarrow> diff_chain \<Rightarrow> string \<Rightarrow> files \<Rightarrow> io_error + (bool \<times> files)"
where
  "write_chain_to_tempdir cd w ch dir files =
     (let ders = certs_der ch; n = length ders
      in and_then (der_to_pem cd (ders ! 0)) (\<lambda>leaf.
         and_then (write_file w (join_path dir ''leaf.pem'') leaf files) (\<lambda>files.
         and_then (der_to_pem cd (ders ! (n - 1))) (\<lambda>root.
         and_then (write_file w (join_path dir ''root.pem'') root files) (\<lambda>files.
           if n - 2 = 0 then Ok (False, files)
           else and_then (collect_results (der_to_pem cd) (middle ders)) (\<lambda>pems.
                and_then (write_file w (join_path dir ''intermediates.pem'') (concat pems) files) (\<lambda>files.
                  Ok (True, files))))))))"

definition crl_to_pem :: "'x oracle_codec_scheme \<Rightarrow> bytes \<Rightarrow> io_error + string" where
  "crl_to_pem cd der = map_err (\<lambda>e. invalid_data (''CRL PEM encode: '' @ e)) (pem_encode_string cd ''X509 CRL'' der)"

definition write_crls_to_tempdir ::
  "'x oracle_codec_scheme \<Rightarrow> openssl_world \<Rightarrow> diff_chain \<Rightarrow> string \<Rightarrow> files \<Rightarrow> io_error + (bool \<times> files)"
where
  "write_crls_to_tempdir cd w ch dir files =
     (if chain_crls ch = [] then Ok (False, files)
      else and_then (collect_results (crl_to_pem cd) (chain_crls ch)) (\<lambda>pems.
           and_then (write_file w (join_path dir ''crls.pem'') (concat pems) files) (\<lambda>files. Ok (True, files))))"

definition flag :: "string \<Rightarrow> string option \<Rightarrow> string list" where
  "flag f v = (case v of None \<Rightarrow> [] | Some s \<Rightarrow> [f, s])"

definition openssl_command :: "string \<Rightarrow> bool \<Rightarrow> bool \<Rightarrow> u64 option \<Rightarrow> verify_args \<Rightarrow> string list" where
  "openssl_command dir has_intermediates has_crls at args =
     [''verify'', ''-CAfile'', join_path dir ''root.pem''] @
     (if has_intermediates then [''-untrusted'', join_path dir ''intermediates.pem''] else []) @
     (if has_crls then [''-CRLfile'', join_path dir ''crls.pem'', ''-crl_check_all''] else []) @
     flag ''-attime'' (map_option (\<lambda>secs. show_nat (unat secs)) at) @
     flag ''-purpose'' (va_purpose args) @
     flag ''-verify_hostname'' (va_hostname args) @
     flag ''-verify_email'' (va_email args) @
     flag ''-verify_ip'' (va_ip args) @
     [join_path dir ''leaf.pem'']"

definition ends_with :: "string \<Rightarrow> string \<Rightarrow> bool" where "ends_with s p \<longleftrightarrow> strip_suffix p s \<noteq> None"
definition starts_with :: "string \<Rightarrow> string \<Rightarrow> bool" where "starts_with s p \<longleftrightarrow> strip_prefix p s \<noteq> None"

text \<open>\<open>rsplit_once\<close> at a colon and a space.\<close>

fun after_last_colon :: "string \<Rightarrow> string option" where
  "after_last_colon (c # d # cs) =
     (case after_last_colon (d # cs) of
        Some r \<Rightarrow> Some r
      | None \<Rightarrow> if c = CHR '':'' \<and> d = CHR '' '' then Some cs else None)"
| "after_last_colon cs = None"

definition parse_error_line :: "string \<Rightarrow> string option" where
  "parse_error_line line =
     (if \<not> starts_with line ''error '' then None
      else if ends_with line '': verification failed'' then None
      else if \<not> contains_str line '' at '' then None
      else map_option str_trim (after_last_colon line))"

definition extract_reason :: "string \<Rightarrow> string" where
  "extract_reason stderr =
     (case List.map_filter (\<lambda>line. parse_error_line (str_trim line)) (str_lines stderr) of
        reason # _ \<Rightarrow> reason
      | [] \<Rightarrow> unwrap_or ''openssl verify failed (no diagnostic on stderr)''
               (find (\<lambda>l. l \<noteq> []) (map str_trim (str_lines stderr))))"

definition openssl_spawn_error :: "string \<Rightarrow> io_error \<Rightarrow> io_error" where
  "openssl_spawn_error bin e =
     (if ie_kind e = NotFound
      then \<lparr> ie_kind = NotFound,
             ie_message = ''openssl binary not found: tried '' @ code_span bin @ '' (set '' @ OPENSSL_BIN_ENV @ '' to override)'' \<rparr>
      else e)"

definition verify_with_bin_and_args ::
  "'x oracle_codec_scheme \<Rightarrow> openssl_world \<Rightarrow> diff_chain \<Rightarrow> string \<Rightarrow> verify_args \<Rightarrow> io_error + difftest_verdict"
where
  "verify_with_bin_and_args cd w ch bin args =
     and_then (check_shape_of_chain
         ''openssl oracle requires the trust anchor to be present as the last cert''
         ''openssl oracle requires at least 2 certs (leaf + root)'' ch) (\<lambda>_.
     and_then (ow_temp_dir w) (\<lambda>dir.
     and_then (write_chain_to_tempdir cd w ch dir (\<lambda>_. None)) (\<lambda>(has_intermediates, files).
     and_then (write_crls_to_tempdir cd w ch dir files) (\<lambda>(has_crls, files).
     and_then (map_err (openssl_spawn_error bin)
         (ow_run w bin (openssl_command dir has_intermediates has_crls (validation_time_unix ch) args) files))
       (\<lambda>(success, stderr).
         Ok (if success then VPass else VFail (extract_reason (utf8_lossy cd stderr))))))))"

definition openssl_bin :: "openssl_world \<Rightarrow> string" where
  "openssl_bin w = unwrap_or ''openssl'' (ow_env w OPENSSL_BIN_ENV)"

definition openssl_verify :: "'x oracle_codec_scheme \<Rightarrow> openssl_world \<Rightarrow> diff_chain \<Rightarrow> io_error + difftest_verdict" where
  "openssl_verify cd w ch = verify_with_bin_and_args cd w ch (openssl_bin w) default_verify_args"

definition openssl_verify_with_args ::
  "'x oracle_codec_scheme \<Rightarrow> openssl_world \<Rightarrow> diff_chain \<Rightarrow> verify_args \<Rightarrow> io_error + difftest_verdict" where
  "openssl_verify_with_args cd w ch args = verify_with_bin_and_args cd w ch (openssl_bin w) args"

section \<open>pyca\<close>

definition PYCA_PYTHON_ENV :: string where "PYCA_PYTHON_ENV = ''PYCA_DIFFTEST_PYTHON''"

definition ALPHABET :: string where
  "ALPHABET = ''ABCDEFGHIJKLMNOPQRSTUVWXYZabcdefghijklmnopqrstuvwxyz0123456789+/''"

definition sextet :: "u32 \<Rightarrow> nat \<Rightarrow> char" where
  "sextet n k = ALPHABET ! unat (drop_bit k n AND 0x3F)"

fun base64_encode :: "bytes \<Rightarrow> string" where
  "base64_encode (a # b # c # rest) =
     (let n = push_bit 16 (ucast a :: u32) OR push_bit 8 (ucast b) OR ucast c
      in [sextet n 18, sextet n 12, sextet n 6, sextet n 0] @ base64_encode rest)"
| "base64_encode [a, b] =
     (let n = push_bit 16 (ucast a :: u32) OR push_bit 8 (ucast b)
      in [sextet n 18, sextet n 12, sextet n 6, CHR ''=''])"
| "base64_encode [a] =
     (let n = push_bit 16 (ucast a :: u32) in [sextet n 18, sextet n 12, CHR ''='', CHR ''=''])"
| "base64_encode [] = []"

definition spec_json :: "string \<Rightarrow> string list \<Rightarrow> string \<Rightarrow> diff_chain \<Rightarrow> json" where
  "spec_json leaf intermediates root ch =
     (let spec = JObject
            [''leaf'' \<mapsto> JString leaf, ''intermediates'' \<mapsto> JArray (map JString intermediates),
             ''roots'' \<mapsto> JArray [JString root]];
          spec = (case validation_time_unix ch of
                    None \<Rightarrow> spec
                  | Some secs \<Rightarrow> json_set ''validation_time_unix'' (JNumber (int (unat secs))) spec);
          crls_b64 = map base64_encode (chain_crls ch)
      in if crls_b64 = [] then spec else json_set ''crls'' (JArray (map JString crls_b64)) spec)"

text \<open>\<open>to_json\<close> is \<open>serde_json::to_string\<close>.\<close>

definition build_spec_json ::
  "'x oracle_codec_scheme \<Rightarrow> (json \<Rightarrow> string + string) \<Rightarrow> diff_chain \<Rightarrow> io_error + string"
where
  "build_spec_json cd to_json ch =
     (let ders = certs_der ch; n = length ders
      in and_then (der_to_pem cd (ders ! 0)) (\<lambda>leaf.
         and_then (der_to_pem cd (ders ! (n - 1))) (\<lambda>root.
         and_then (collect_results (der_to_pem cd) (middle ders)) (\<lambda>intermediates.
           map_err (\<lambda>e. \<lparr> ie_kind = Other_kind, ie_message = ''JSON encode: '' @ e \<rparr>)
             (to_json (spec_json leaf intermediates root ch))))))"

record sidecar =
  sc_stdin :: bool
  sc_write :: "string \<Rightarrow> io_error option"
  sc_output :: "string \<Rightarrow> io_error + process_output"

text \<open>\<open>pw_ancestors\<close> lists the current directory and its parents.\<close>

record pyca_world =
  pw_env :: "string \<Rightarrow> string option"
  pw_ancestors :: "io_error + string list"
  pw_exists :: "string \<Rightarrow> bool"
  pw_spawn :: "string \<Rightarrow> string \<Rightarrow> io_error + sidecar"
  pw_to_json :: "json \<Rightarrow> string + string"
  pw_from_json :: "bytes \<Rightarrow> string + json"

definition parse_verdict :: "'x oracle_codec_scheme \<Rightarrow> pyca_world \<Rightarrow> bytes \<Rightarrow> io_error + difftest_verdict" where
  "parse_verdict cd w stdout =
     and_then (map_err (\<lambda>e. invalid_data (''pyca sidecar stdout is not JSON: '' @ e @ '' (stdout: '' @
         debug_str cd (utf8_lossy cd stdout) @ '')'')) (pw_from_json w stdout)) (\<lambda>v.
     and_then (ok_or (invalid_data (''pyca sidecar JSON missing '' @ [CHR 0x22] @ ''verdict'' @ [CHR 0x22] @ '' field''))
         (Option.bind (json_get ''verdict'' v) as_str)) (\<lambda>verdict_str.
       if verdict_str = ''pass'' then Ok VPass
       else if verdict_str = ''fail''
       then Ok (VFail (unwrap_or ''(no reason supplied)'' (Option.bind (json_get ''reason'' v) as_str)))
       else Err (invalid_data (''pyca sidecar JSON: unknown verdict '' @ debug_str cd verdict_str))))"

definition sidecar_spawn_error :: "string \<Rightarrow> io_error \<Rightarrow> io_error" where
  "sidecar_spawn_error python e =
     (if ie_kind e = NotFound
      then \<lparr> ie_kind = NotFound,
             ie_message = ''pyca python interpreter not found: tried '' @ code_span python @ '' (set '' @ PYCA_PYTHON_ENV @
               '' or run pkix-difftest/python/setup-venv.sh)'' \<rparr>
      else e)"

definition sidecar_failed :: "'x oracle_codec_scheme \<Rightarrow> process_output \<Rightarrow> io_error" where
  "sidecar_failed cd out =
     (let stderr = str_trim (utf8_lossy cd (out_stderr out));
          code = status_code (out_status out);
          first_line = (case str_lines stderr of [] \<Rightarrow> [] | l # _ \<Rightarrow> l)
      in \<lparr> ie_kind = (if code = Some 2 then NotFound else Other_kind),
           ie_message = ''pyca sidecar exited '' @ show_int (unwrap_or (-1) code) @ '' ('' @ first_line @ ''): '' @ stderr \<rparr>)"

definition verify_with_python ::
  "'x oracle_codec_scheme \<Rightarrow> pyca_world \<Rightarrow> diff_chain \<Rightarrow> string \<Rightarrow> string \<Rightarrow> io_error + difftest_verdict"
where
  "verify_with_python cd w ch python sidecar_script =
     and_then (check_shape_of_chain
         ''pyca oracle requires the trust anchor to be present as the last cert''
         ''pyca oracle requires at least 2 certs (leaf + root)'' ch) (\<lambda>_.
     and_then (build_spec_json cd (pw_to_json w) ch) (\<lambda>spec.
     and_then (map_err (sidecar_spawn_error python) (pw_spawn w python sidecar_script)) (\<lambda>child.
       if \<not> sc_stdin child then Err \<lparr> ie_kind = Other_kind, ie_message = ''could not open sidecar stdin'' \<rparr>
       else case sc_write child spec of
              Some e \<Rightarrow> Err e
            | None \<Rightarrow>
                and_then (sc_output child spec) (\<lambda>out.
                  if \<not> status_success (out_status out) then Err (sidecar_failed cd out)
                  else parse_verdict cd w (out_stdout out)))))"

definition default_venv_python :: "pyca_world \<Rightarrow> string option" where
  "default_venv_python w =
     Option.bind (result_ok (pw_ancestors w))
       (\<lambda>dirs. find (pw_exists w) (map (\<lambda>d. join_path d ''pkix-difftest/python/.venv/bin/python'') dirs))"

definition resolve_python :: "pyca_world \<Rightarrow> string" where
  "resolve_python w =
     (case pw_env w PYCA_PYTHON_ENV of
        Some path \<Rightarrow> path
      | None \<Rightarrow>
         (case default_venv_python w of
            Some venv \<Rightarrow> if pw_exists w venv then venv else ''python3''
          | None \<Rightarrow> ''python3''))"

definition sidecar_script_path :: "pyca_world \<Rightarrow> io_error + string" where
  "sidecar_script_path w =
     and_then (pw_ancestors w) (\<lambda>dirs.
       ok_or \<lparr> ie_kind = NotFound,
               ie_message = ''pkix-difftest/python/pyca_oracle.py not found relative to current directory'' \<rparr>
         (find (pw_exists w) (map (\<lambda>d. join_path d ''pkix-difftest/python/pyca_oracle.py'') dirs)))"

definition pyca_verify :: "'x oracle_codec_scheme \<Rightarrow> pyca_world \<Rightarrow> diff_chain \<Rightarrow> io_error + difftest_verdict" where
  "pyca_verify cd w ch =
     (let python = resolve_python w
      in and_then (sidecar_script_path w) (\<lambda>script. verify_with_python cd w ch python script))"

fun run_oracle ::
  "'x oracle_codec_scheme \<Rightarrow> crypto_backends \<Rightarrow> u64 \<Rightarrow> openssl_world \<Rightarrow> pyca_world \<Rightarrow> oracle_name \<Rightarrow> diff_chain \<Rightarrow>
   io_error + difftest_verdict"
where
  "run_oracle cd cb clock ow pw PkixPath ch = pkix_path_verify cd cb clock ch"
| "run_oracle cd cb clock ow pw OpenSsl ch = openssl_verify cd ow ch"
| "run_oracle cd cb clock ow pw Pyca ch = pyca_verify cd pw ch"

section \<open>Lint oracles\<close>

datatype oracle_source = PkixLintCabf | Zlint | Pkilint

fun oracle_source_str :: "oracle_source \<Rightarrow> string" where
  "oracle_source_str PkixLintCabf = ''pkix-lint-cabf''"
| "oracle_source_str Zlint = ''zlint''"
| "oracle_source_str Pkilint = ''pkilint''"

record normalized_finding =
  nf_id :: string
  nf_severity :: severity
  nf_source :: oracle_source

record lint_oracle_result =
  lo_findings :: "normalized_finding list"
  lo_oracle_error :: "string option"

definition ok_empty :: lint_oracle_result where
  "ok_empty = \<lparr> lo_findings = [], lo_oracle_error = None \<rparr>"

definition lint_oracle_error :: "string \<Rightarrow> lint_oracle_result" where
  "lint_oracle_error reason = \<lparr> lo_findings = [], lo_oracle_error = Some reason \<rparr>"

fun verdict_to_severity :: "zlint_verdict \<Rightarrow> severity option" where
  "verdict_to_severity ZNotice = Some Notice"
| "verdict_to_severity ZWarn = Some SevWarn"
| "verdict_to_severity ZError = Some SevError"
| "verdict_to_severity ZFatal = Some SevFatal"
| "verdict_to_severity _ = None"

text \<open>\<open>order\<close> is the order in which the hash map of the verdicts is iterated.\<close>

definition normalize_verdicts :: "(verdict_map \<Rightarrow> string list) \<Rightarrow> verdict_map \<Rightarrow> normalized_finding list" where
  "normalize_verdicts order verdicts =
     sort_key nf_id
       (List.map_filter (\<lambda>check_id.
          map_option (\<lambda>sev. \<lparr> nf_id = check_id, nf_severity = sev, nf_source = Zlint \<rparr>)
            (Option.bind (verdicts check_id) verdict_to_severity)) (order verdicts))"

definition zlint_lint_cert ::
  "zlint_world \<Rightarrow> (verdict_map \<Rightarrow> string list) \<Rightarrow> zlint_bridge \<Rightarrow> bytes \<Rightarrow> zlint_bridge \<times> lint_oracle_result"
where
  "zlint_lint_cert w order b cert_der =
     (case run_on_cert w b cert_der of
        (b, Inr verdicts) \<Rightarrow> (b, \<lparr> lo_findings = normalize_verdicts order verdicts, lo_oracle_error = None \<rparr>)
      | (b, Inl (ZCert per_cert)) \<Rightarrow> (b, lint_oracle_error (''zlint per-cert error: '' @ display_per_cert_error per_cert))
      | (b, Inl (ZBridge bridge_err)) \<Rightarrow>
          (b, lint_oracle_error (''zlint bridge error: '' @ display_bridge_error w bridge_err)))"

fun result_to_severity :: "lint_result \<Rightarrow> severity option" where
  "result_to_severity (LintWarn _) = Some SevWarn"
| "result_to_severity (LintError _) = Some SevError"
| "result_to_severity (LintFatal _) = Some SevFatal"
| "result_to_severity _ = None"

definition cabf_lint_cert :: "'x oracle_codec_scheme \<Rightarrow> lint_runner \<Rightarrow> bytes \<Rightarrow> lint_oracle_result" where
  "cabf_lint_cert cd runner cert_der =
     (case dec_certificate cd cert_der of
        Inl e \<Rightarrow> lint_oracle_error (''pkix-lint-cabf: DER parse failed: '' @ display_der_error e)
      | Inr cert \<Rightarrow>
          \<lparr> lo_findings =
              sort_key nf_id
                (List.map_filter (\<lambda>f.
                   map_option (\<lambda>sev. \<lparr> nf_id = fd_lint_id f, nf_severity = sev, nf_source = PkixLintCabf \<rparr>)
                     (result_to_severity (fd_result f))) (run_cert_at_issuance cd runner cert Leaf 0)),
            lo_oracle_error = None \<rparr>)"

definition cabf_oracle_new :: "'x oracle_codec_scheme \<Rightarrow> lint_panic + lint_runner" where
  "cabf_oracle_new cd = pf_lint_runner (web_pki_lint_profile cd)"

section \<open>The CRLs reach the sidecar\<close>

text \<open>A decoder of the standard alphabet with padding, which is what the sidecar applies.\<close>

fun index_of :: "char \<Rightarrow> string \<Rightarrow> nat option" where
  "index_of c [] = None"
| "index_of c (d # ds) = (if c = d then Some 0 else map_option Suc (index_of c ds))"

definition sextet_value :: "char \<Rightarrow> u32 option" where
  "sextet_value c = map_option of_nat (index_of c ALPHABET)"

fun b64_decode :: "string \<Rightarrow> bytes option" where
  "b64_decode [] = Some []"
| "b64_decode (p # q # r # s # rest) =
     Option.bind (sextet_value p) (\<lambda>w. Option.bind (sextet_value q) (\<lambda>x.
       if r = CHR ''='' then
         (if s = CHR ''='' \<and> rest = [] then Some [ucast (drop_bit 16 (push_bit 18 w OR push_bit 12 x))] else None)
       else Option.bind (sextet_value r) (\<lambda>y.
         if s = CHR ''='' then
           (if rest = []
            then let n = push_bit 18 w OR push_bit 12 x OR push_bit 6 y
                 in Some [ucast (drop_bit 16 n), ucast (drop_bit 8 n)]
            else None)
         else Option.bind (sextet_value s) (\<lambda>z.
           let n = push_bit 18 w OR push_bit 12 x OR push_bit 6 y OR z
           in map_option (\<lambda>bs. [ucast (drop_bit 16 n), ucast (drop_bit 8 n), ucast n] @ bs) (b64_decode rest)))))"
| "b64_decode _ = None"

lemma alphabet_index:
  assumes "i < 64"
  shows "index_of (ALPHABET ! i) ALPHABET = Some i \<and> ALPHABET ! i \<noteq> CHR ''=''"
proof -
  have "list_all (\<lambda>i. index_of (ALPHABET ! i) ALPHABET = Some i \<and> ALPHABET ! i \<noteq> CHR ''='') [0..<64]" by code_simp
  then show ?thesis using assms by (simp add: list_all_iff)
qed

lemma unat_sextet: "unat (x AND 0x3F :: u32) < 64"
proof -
  have "x AND 0x3F \<le> 0x3F" by (rule word_and_le1)
  then show ?thesis by (simp add: word_le_nat_alt)
qed

lemma sextet_value_sextet: "sextet_value (sextet n k) = Some (drop_bit k n AND 0x3F)"
  using alphabet_index [OF unat_sextet] by (simp add: sextet_value_def sextet_def)

lemma sextet_not_pad: "sextet n k \<noteq> CHR ''=''"
  using alphabet_index [OF unat_sextet] by (simp add: sextet_def)

lemma sextets_join:
  fixes n :: u32
  assumes "take_bit 24 n = n"
  shows "push_bit 18 (drop_bit 18 n AND 0x3F) OR push_bit 12 (drop_bit 12 n AND 0x3F) OR
     push_bit 6 (drop_bit 6 n AND 0x3F) OR (n AND 0x3F) = n"
proof (rule bit_word_eqI)
  fix i
  assume "i < LENGTH(32)"
  have m: "(0x3F :: u32) = mask 6" by (simp add: mask_eq_exp_minus_1)
  have "bit n i \<longleftrightarrow> i < 24 \<and> bit n i" using assms by (metis bit_take_bit_iff)
  then show "bit (push_bit 18 (drop_bit 18 n AND 0x3F) OR push_bit 12 (drop_bit 12 n AND 0x3F) OR
     push_bit 6 (drop_bit 6 n AND 0x3F) OR (n AND 0x3F)) i = bit n i"
    unfolding m using \<open>i < LENGTH(32)\<close>
    by (cases "i < 6"; cases "i < 12"; cases "i < 18") (auto simp: bit_simps)
qed

lemma octets_join:
  fixes a b c :: u8
  defines "n \<equiv> push_bit 16 (ucast a :: u32) OR push_bit 8 (ucast b) OR ucast c"
  shows "take_bit 24 n = n" "ucast (drop_bit 16 n) = a" "ucast (drop_bit 8 n) = b" "ucast n = c"
proof -
  have high: "\<not> bit (x :: u8) k" if "8 \<le> k" for x k using that bit_imp_le_length by fastforce
  show "take_bit 24 n = n" by (rule bit_word_eqI) (use high in \<open>auto simp: n_def bit_simps\<close>)
  show "ucast (drop_bit 16 n) = a" "ucast (drop_bit 8 n) = b" "ucast n = c"
    by (rule bit_word_eqI; use high in \<open>auto simp: n_def bit_simps\<close>)+
qed

lemma decode_quad:
  assumes "take_bit 24 n = n"
  shows "b64_decode (sextet n 18 # sextet n 12 # sextet n 6 # sextet n 0 # rest) =
     map_option (\<lambda>bs. [ucast (drop_bit 16 n), ucast (drop_bit 8 n), ucast n] @ bs) (b64_decode rest)"
  by (simp only: b64_decode.simps sextet_value_sextet sextet_not_pad if_False Option.bind_lunit Let_def drop_bit_0
      id_apply sextets_join [OF assms])

lemma decode_pad_1:
  assumes "take_bit 24 n = n" "take_bit 6 n = 0"
  shows "b64_decode [sextet n 18, sextet n 12, sextet n 6, CHR ''=''] =
     Some [ucast (drop_bit 16 n), ucast (drop_bit 8 n)]"
proof -
  have "n AND 0x3F = 0" using assms(2) by (simp add: take_bit_eq_mask mask_eq_exp_minus_1)
  with sextets_join [OF assms(1)] have
    "push_bit 18 (drop_bit 18 n AND 0x3F) OR push_bit 12 (drop_bit 12 n AND 0x3F) OR push_bit 6 (drop_bit 6 n AND 0x3F) = n"
    by (simp only: or.right_neutral)
  then show ?thesis
    by (simp only: b64_decode.simps sextet_value_sextet sextet_not_pad if_False if_True Option.bind_lunit Let_def simp_thms)
qed

lemma decode_pad_2:
  assumes "take_bit 24 n = n" "take_bit 12 n = 0"
  shows "b64_decode [sextet n 18, sextet n 12, CHR ''='', CHR ''=''] = Some [ucast (drop_bit 16 n)]"
proof -
  have low: "\<not> bit n k" if "k < 12" for k
  proof -
    have "bit (take_bit 12 n) k \<longleftrightarrow> bit n k" using that by (simp add: bit_take_bit_iff)
    then show ?thesis by (simp add: assms(2))
  qed
  have m: "(0x3F :: u32) = mask 6" by (simp add: mask_eq_exp_minus_1)
  have "n AND 0x3F = 0" "drop_bit 6 n AND 0x3F = 0"
    unfolding m by (rule bit_word_eqI; use low in \<open>auto simp: bit_simps\<close>)+
  with sextets_join [OF assms(1)] have
    "push_bit 18 (drop_bit 18 n AND 0x3F) OR push_bit 12 (drop_bit 12 n AND 0x3F) = n"
    by (simp only: or.right_neutral push_bit_of_0)
  then show ?thesis
    by (simp only: b64_decode.simps sextet_value_sextet if_True Option.bind_lunit Let_def simp_thms)
qed

lemma base64_roundtrip: "b64_decode (base64_encode bs) = Some bs"
proof (induction bs rule: base64_encode.induct)
  case (1 a b c rest)
  note j = octets_join [where a = a and b = b and c = c]
  have "b64_decode (base64_encode rest) = Some rest" using 1 by blast
  then show ?case
    unfolding base64_encode.simps Let_def append.simps decode_quad [OF j(1)] j(2-4) by simp
next
  case (2 a b)
  note j = octets_join [where a = a and b = b and c = 0, unfolded unsigned_0 or.right_neutral]
  have "take_bit 6 (push_bit 16 (ucast a :: u32) OR push_bit 8 (ucast b)) = 0"
    by (rule bit_word_eqI) (auto simp: bit_simps)
  then show ?case unfolding base64_encode.simps Let_def by (simp only: decode_pad_1 [OF j(1)] j(2,3))
next
  case (3 a)
  note j = octets_join [where a = a and b = 0 and c = 0, unfolded unsigned_0 push_bit_of_0 or.right_neutral]
  have "take_bit 12 (push_bit 16 (ucast a :: u32)) = 0"
    by (rule bit_word_eqI) (auto simp: bit_simps)
  then show ?case unfolding base64_encode.simps Let_def by (simp only: decode_pad_2 [OF j(1)] j(2))
qed simp

text \<open>What the sidecar reads from its specification.\<close>

definition spec_string :: "string \<Rightarrow> json \<Rightarrow> string option" where
  "spec_string k v = Option.bind (json_get k v) as_str"

fun json_strings :: "json \<Rightarrow> string list option" where
  "json_strings (JArray vs) = those (map as_str vs)"
| "json_strings _ = None"

definition spec_strings :: "string \<Rightarrow> json \<Rightarrow> string list" where
  "spec_strings k v = unwrap_or [] (Option.bind (json_get k v) json_strings)"

definition spec_certs :: "json \<Rightarrow> string list option" where
  "spec_certs v = map_option (\<lambda>leaf. leaf # spec_strings ''intermediates'' v @ spec_strings ''roots'' v) (spec_string ''leaf'' v)"

definition spec_crls :: "json \<Rightarrow> bytes list option" where
  "spec_crls v = those (map b64_decode (spec_strings ''crls'' v))"

lemma map_ok_Ok_iff: "map_ok f r = Ok y \<longleftrightarrow> (\<exists>x. r = Ok x \<and> y = f x)"
  by (cases r) auto

lemma collect_results_map_Ok:
  "collect_results f xs = Ok ys \<longleftrightarrow> length ys = length xs \<and> (\<forall>i < length xs. f (xs ! i) = Ok (ys ! i))"
proof (induction xs arbitrary: ys)
  case (Cons x xs)
  show ?case
    by (cases ys) (auto simp: and_then_Ok_iff map_ok_Ok_iff Cons.IH All_less_Suc2)
qed auto

lemma those_map_Some: "those (map (\<lambda>x. Some (f x)) xs) = Some (map f xs)"
  by (induction xs) simp_all

lemma middle_nth: "i < length (middle xs) \<Longrightarrow> middle xs ! i = xs ! Suc i"
  by (simp add: middle_def)

lemma middle_whole: "2 \<le> length xs \<Longrightarrow> xs = xs ! 0 # middle xs @ [xs ! (length xs - 1)]"
proof -
  assume "2 \<le> length xs"
  then obtain a ys z where "xs = a # ys @ [z]"
    by (cases xs; cases "tl xs" rule: rev_cases) auto
  then show ?thesis by (simp add: middle_def nth_append)
qed

text \<open>
  The specification the harness sends to the sidecar carries every certificate of the chain in its order, the
  leaf first and the trust anchor as the only root, exactly its CRLs, and the pinned time.
\<close>

theorem sidecar_gets_chain:
  assumes "collect_results (der_to_pem cd) (certs_der ch) = Ok pems" and "2 \<le> length (certs_der ch)"
  shows "\<exists>v. build_spec_json cd to_json ch =
       map_err (\<lambda>e. \<lparr> ie_kind = Other_kind, ie_message = ''JSON encode: '' @ e \<rparr>) (to_json v) \<and>
     spec_certs v = Some pems \<and> spec_strings ''roots'' v = [last pems] \<and> spec_crls v = Some (chain_crls ch) \<and>
     json_get ''validation_time_unix'' v = map_option (\<lambda>s. JNumber (int (unat s))) (validation_time_unix ch)"
proof -
  let ?v = "spec_json (pems ! 0) (middle pems) (pems ! (length pems - 1)) ch"
  note all = assms(1) [unfolded collect_results_map_Ok]
  have len: "2 \<le> length pems" using all assms(2) by simp
  have "collect_results (der_to_pem cd) (middle (certs_der ch)) = Ok (middle pems)"
    unfolding collect_results_map_Ok using all by (auto simp: middle_def)
  moreover have "der_to_pem cd (certs_der ch ! 0) = Ok (pems ! 0)"
    "der_to_pem cd (certs_der ch ! (length (certs_der ch) - 1)) = Ok (pems ! (length pems - 1))"
    using all assms(2) by (metis (no_types) Suc_1 less_le_trans zero_less_Suc, metis diff_less le_trans less_le_trans one_le_numeral zero_less_one)
  ultimately have "build_spec_json cd to_json ch =
       map_err (\<lambda>e. \<lparr> ie_kind = Other_kind, ie_message = ''JSON encode: '' @ e \<rparr>) (to_json ?v)"
    by (simp add: build_spec_json_def Let_def)
  moreover have roots: "spec_strings ''roots'' ?v = [pems ! (length pems - 1)]"
    by (simp add: spec_strings_def spec_json_def json_get_def Let_def split: option.splits)
  moreover have "spec_strings ''intermediates'' ?v = middle pems" "spec_string ''leaf'' ?v = Some (pems ! 0)"
    by (simp_all add: spec_strings_def spec_string_def spec_json_def json_get_def Let_def comp_def those_map_Some split: option.splits)
  then have "spec_certs ?v = Some pems"
    using middle_whole [OF len, symmetric] by (simp add: spec_certs_def roots [simplified])
  moreover have "spec_crls ?v = Some (chain_crls ch)"
    by (auto simp: spec_crls_def spec_strings_def spec_json_def json_get_def Let_def comp_def those_map_Some base64_roundtrip
        split: option.splits)
  moreover have "json_get ''validation_time_unix'' ?v = map_option (\<lambda>s. JNumber (int (unat s))) (validation_time_unix ch)"
    by (simp add: spec_json_def json_get_def Let_def split: option.splits)
  moreover have "pems ! (length pems - 1) = last pems" using len by (subst last_conv_nth) auto
  ultimately show ?thesis by (intro exI [of _ ?v]) simp
qed

section \<open>When the pkix-path oracle passes a chain\<close>

text \<open>The CRL is one, and says that the certificate is revoked.\<close>

definition crl_revokes ::
  "'x oracle_codec_scheme \<Rightarrow> crypto_backends \<Rightarrow> u64 \<Rightarrow> certificate \<Rightarrow> certificate option \<Rightarrow> trust_anchor \<Rightarrow> bytes \<Rightarrow> bool"
where
  "crl_revokes cd cb now_unix cert issuer_cert anchor crl_der =
     (case crl_checker_new cd crl_der now_unix (default_verifier cb) of
        Inl _ \<Rightarrow> False
      | Inr checker \<Rightarrow>
         (case (case issuer_cert of
                  Some iss \<Rightarrow> crl_check_revocation cd checker cert iss
                | None \<Rightarrow> crl_check_revocation_against_anchor cd checker cert anchor) of
            Inl (Revoked serial reason_code) \<Rightarrow> True
          | _ \<Rightarrow> False))"

lemma revoked_by_None:
  "revoked_by cd cb now_unix cert issuer_cert anchor crls = None \<longleftrightarrow>
     list_all (\<lambda>crl. \<not> crl_revokes cd cb now_unix cert issuer_cert anchor crl) crls"
proof (induction crls)
  case (Cons crl crls)
  then show ?case by (simp add: crl_revokes_def split: sum.split revocation_error.split)
qed simp

definition issuer_at :: "certificate list \<Rightarrow> nat \<Rightarrow> certificate option" where
  "issuer_at chain i = (if Suc i < length chain then Some (chain ! Suc i) else None)"

lemma issuer_at_Cons:
  "issuer_at (c # cs) 0 = (case cs of [] \<Rightarrow> None | iss # _ \<Rightarrow> Some iss)"
  "issuer_at (c # cs) (Suc i) = issuer_at cs i"
  by (simp_all add: issuer_at_def split: list.split)

lemma oracle_check_revocation_None:
  "oracle_check_revocation cd cb now_unix anchor crls i chain = None \<longleftrightarrow>
     (\<forall>j < length chain. list_all (\<lambda>crl. \<not> crl_revokes cd cb now_unix (chain ! j) (issuer_at chain j) anchor crl) crls)"
proof (induction chain arbitrary: i)
  case (Cons c cs)
  show ?case
    unfolding oracle_check_revocation.simps issuer_at_Cons(1) [symmetric, of _ c]
    by (simp add: All_less_Suc2 issuer_at_Cons(2) revoked_by_None [symmetric] Cons.IH split: option.split)
qed simp

lemma oracle_check_revocation_no_crls [simp]: "oracle_check_revocation cd cb now_unix anchor [] i chain = None"
  by (simp add: oracle_check_revocation_None)

lemma parse_certs_Ok:
  "parse_certs cd label i ders = Ok certs \<longleftrightarrow> map (dec_certificate cd) ders = map Ok certs"
proof (induction ders arbitrary: i certs)
  case (Cons der ders)
  then show ?case by (cases certs) (auto simp: and_then_Ok_iff)
qed auto

definition oracle_time :: "u64 \<Rightarrow> diff_chain \<Rightarrow> u64" where
  "oracle_time clock ch = unwrap_or clock (validation_time_unix ch)"

lemma pkix_path_verify_parsed:
  assumes "root_in_chain ch" "map (dec_certificate cd) (certs_der ch) = map Ok (certs @ [root])" "certs \<noteq> []"
  shows "pkix_path_verify cd cb clock ch =
    (case validate_path cd certs [trust_anchor_from_cert cd root] (validation_policy_new (oracle_time clock ch))
        (default_verifier cb) of
       Inl e \<Rightarrow> Ok (VFail (display_path_error e))
     | Inr _ \<Rightarrow>
         (case oracle_check_revocation cd cb (oracle_time clock ch) (trust_anchor_from_cert cd root) (chain_crls ch) 0 certs of
            Some rev_reason \<Rightarrow> Ok (VFail rev_reason)
          | None \<Rightarrow> Ok VPass))"
proof -
  have "length (certs_der ch) = length (certs @ [root])" using assms(2) by (metis length_map)
  then have "\<not> length (certs_der ch) < 2" using assms(3) by (cases certs) auto
  moreover have "parse_certs cd (chain_label ch) 0 (certs_der ch) = Ok (certs @ [root])"
    by (simp only: parse_certs_Ok assms(2))
  ultimately show ?thesis
    using assms(1) by (auto simp: pkix_path_verify_def check_shape_of_chain_def oracle_time_def Let_def split: sum.split)
qed

text \<open>
  C37. The pkix-path oracle passes a chain of decodable certificates exactly when \<open>validate_path\<close> accepts it at the
  pinned time, or the clock's, from its last certificate as the only anchor, and none of the supplied CRLs revokes
  a certificate of it; CRLs that do not apply change nothing.
\<close>

theorem pkix_path_oracle_exact:
  assumes "root_in_chain ch" "map (dec_certificate cd) (certs_der ch) = map Ok (certs @ [root])" "certs \<noteq> []"
  shows "pkix_path_verify cd cb clock ch = Ok VPass \<longleftrightarrow>
     is_ok (validate_path cd certs [trust_anchor_from_cert cd root] (validation_policy_new (oracle_time clock ch))
       (default_verifier cb)) \<and>
     (\<forall>j < length certs. \<not> list_ex
        (crl_revokes cd cb (oracle_time clock ch) (certs ! j) (issuer_at certs j) (trust_anchor_from_cert cd root))
        (chain_crls ch))"
proof -
  let ?anchor = "trust_anchor_from_cert cd root" and ?now = "oracle_time clock ch"
  have "oracle_check_revocation cd cb ?now ?anchor (chain_crls ch) 0 certs = None \<longleftrightarrow>
      (\<forall>j < length certs. \<not> list_ex (crl_revokes cd cb ?now (certs ! j) (issuer_at certs j) ?anchor) (chain_crls ch))"
    by (simp add: oracle_check_revocation_None list_all_iff list_ex_iff)
  then show ?thesis
    unfolding pkix_path_verify_parsed [OF assms]
    by (cases "oracle_check_revocation cd cb ?now ?anchor (chain_crls ch) 0 certs") (simp_all add: is_ok_def split: sum.split)
qed

section \<open>Examples\<close>

text \<open>Two certificates; the encoding of the leaf is \<open>[8]\<close>, of the root \<open>[1]\<close>.\<close>

definition ex_oracle_codec :: oracle_codec where
  "ex_oracle_codec =
     difftest_codec.extend
       (lint_codec.extend
          (ex_lint_codec\<lparr> dec_certificate := table_dec [([8], ex_p256_cert 8 1 []), ([1], ex_ca 1 0 [])] \<rparr>)
          (difftest_codec.fields (\<lambda>_. Err ''not PEM'') (\<lambda>lbl der. Ok (lbl @ map (\<lambda>b. char_of (unat b)) der)) (\<lambda>s. s)))
       (oracle_codec.fields (\<lambda>_. ''1'') (map (\<lambda>b. char_of (unat b))))"

definition ex_diff_chain :: diff_chain where
  "ex_diff_chain =
     \<lparr> certs_der = [[8], [1]], chain_crls = [[7]], root_in_chain = True, chain_label = ''ex'',
       validation_time_unix = Some 150 \<rparr>"

lemma ex_diff_chain_parses:
  "root_in_chain ex_diff_chain" "[ex_p256_cert 8 1 []] \<noteq> []"
  "map (dec_certificate ex_oracle_codec) (certs_der ex_diff_chain) = map Ok ([ex_p256_cert 8 1 []] @ [ex_ca 1 0 []])"
  by code_simp+

theorem pkix_path_oracle_exact_witness:
  "pkix_path_verify ex_oracle_codec ex_backends 0 ex_diff_chain = Ok VPass \<and>
   is_ok (validate_path ex_oracle_codec [ex_p256_cert 8 1 []] [trust_anchor_from_cert ex_oracle_codec (ex_ca 1 0 [])]
     (validation_policy_new (oracle_time 0 ex_diff_chain)) (default_verifier ex_backends))"
proof -
  have "pkix_path_verify ex_oracle_codec ex_backends 0 ex_diff_chain = Ok VPass" by code_simp
  then show ?thesis
    using pkix_path_oracle_exact [OF ex_diff_chain_parses(1,3,2), of ex_backends 0] by blast
qed

theorem sidecar_gets_chain_witness:
  "\<exists>v. spec_certs v = Some [''CERTIFICATE'' @ [char_of (8::nat)], ''CERTIFICATE'' @ [char_of (1::nat)]] \<and> spec_crls v = Some [[7]] \<and>
     json_get ''validation_time_unix'' v = Some (JNumber 150)"
proof -
  have pems: "collect_results (der_to_pem ex_oracle_codec) (certs_der ex_diff_chain) =
      Ok [''CERTIFICATE'' @ [char_of (8::nat)], ''CERTIFICATE'' @ [char_of (1::nat)]]"
    by code_simp
  have two: "2 \<le> length (certs_der ex_diff_chain)" by code_simp
  show ?thesis
    using sidecar_gets_chain [OF pems two, of "\<lambda>_. Ok []"] by (auto simp: ex_diff_chain_def)
qed

section \<open>The findings of the lint oracles\<close>

lemma sort_key_mset_eq:
  fixes f :: "'a \<Rightarrow> 'b::linorder"
  assumes "mset xs = mset ys" "inj_on f (set xs)"
  shows "sort_key f xs = sort_key f ys"
proof (rule map_inj_on)
  have "map f (sort_key f zs) = sort (map f zs)" for zs by (rule properties_for_sort [symmetric]) simp_all
  moreover have "mset (map f xs) = mset (map f ys)" using assms(1) by simp
  then have "sort (map f xs) = sort (map f ys)"
    by (intro properties_for_sort) simp_all
  ultimately show "map f (sort_key f xs) = map f (sort_key f ys)" by simp
  show "inj_on f (set (sort_key f xs) \<union> set (sort_key f ys))"
    using assms(2) mset_eq_setD [OF assms(1)] by simp
qed

definition zlint_finding :: "verdict_map \<Rightarrow> string \<Rightarrow> normalized_finding option" where
  "zlint_finding verdicts check_id =
     map_option (\<lambda>sev. \<lparr> nf_id = check_id, nf_severity = sev, nf_source = Zlint \<rparr>)
       (Option.bind (verdicts check_id) verdict_to_severity)"

lemma normalize_verdicts_finding:
  "normalize_verdicts order verdicts =
     sort_key nf_id (map (\<lambda>c. the (zlint_finding verdicts c)) (filter (\<lambda>c. zlint_finding verdicts c \<noteq> None) (order verdicts)))"
  unfolding normalize_verdicts_def zlint_finding_def List.map_filter_def comp_def by simp

lemma zlint_finding_id: "zlint_finding verdicts c \<noteq> None \<Longrightarrow> nf_id (the (zlint_finding verdicts c)) = c"
  by (auto simp: zlint_finding_def)

lemma zlint_finding_dom: "zlint_finding verdicts c \<noteq> None \<Longrightarrow> c \<in> dom verdicts"
  by (cases "verdicts c") (auto simp: zlint_finding_def)

text \<open>
  The findings of the zlint oracle do not depend on the order in which the hash map is iterated: any two orders
  that list its keys once give the same list, sorted by the identifiers of the checks, with every check whose
  verdict is a notice or worse exactly once.
\<close>

theorem normalize_verdicts_deterministic:
  assumes "distinct (order verdicts)" "set (order verdicts) = dom verdicts"
    and "distinct (order' verdicts)" "set (order' verdicts) = dom verdicts"
  shows "normalize_verdicts order verdicts = normalize_verdicts order' verdicts \<and>
     sorted (map nf_id (normalize_verdicts order verdicts)) \<and>
     distinct (map nf_id (normalize_verdicts order verdicts)) \<and>
     set (normalize_verdicts order verdicts) =
       {f. nf_source f = Zlint \<and> Option.bind (verdicts (nf_id f)) verdict_to_severity = Some (nf_severity f)}"
proof -
  let ?l = "\<lambda>cs. map (\<lambda>c. the (zlint_finding verdicts c)) (filter (\<lambda>c. zlint_finding verdicts c \<noteq> None) cs)"
  have ids: "map nf_id (?l cs) = filter (\<lambda>c. zlint_finding verdicts c \<noteq> None) cs" for cs
    by (induction cs) (auto simp: zlint_finding_id)
  have dist: "distinct (map nf_id (?l (order verdicts)))" unfolding ids by (simp add: assms(1))
  have "mset (order verdicts) = mset (order' verdicts)"
    using assms by (simp add: set_eq_iff_mset_eq_distinct [symmetric])
  then have "mset (?l (order verdicts)) = mset (?l (order' verdicts))" by (simp add: mset_filter)
  moreover have "inj_on nf_id (set (?l (order verdicts)))" using dist by (simp only: distinct_map)
  ultimately have "normalize_verdicts order verdicts = normalize_verdicts order' verdicts"
    unfolding normalize_verdicts_finding by (rule sort_key_mset_eq)
  moreover have "mset (map nf_id (normalize_verdicts order verdicts)) = mset (map nf_id (?l (order verdicts)))"
    unfolding normalize_verdicts_finding by (simp only: mset_map mset_sort)
  then have "distinct (map nf_id (normalize_verdicts order verdicts))"
    using dist by (metis mset_eq_imp_distinct_iff)
  moreover have "set (normalize_verdicts order verdicts) =
       {f. nf_source f = Zlint \<and> Option.bind (verdicts (nf_id f)) verdict_to_severity = Some (nf_severity f)}" (is "?S = ?T")
  proof
    show "?S \<subseteq> ?T" by (auto simp: normalize_verdicts_finding zlint_finding_def)
    show "?T \<subseteq> ?S"
    proof
      fix f
      assume "f \<in> ?T"
      then have "zlint_finding verdicts (nf_id f) = Some f" by (auto simp: zlint_finding_def)
      moreover from this have "nf_id f \<in> set (order verdicts)" using zlint_finding_dom assms(2) by fastforce
      ultimately show "f \<in> ?S" unfolding normalize_verdicts_finding by (force simp: image_iff)
    qed
  qed
  moreover have "sorted (map nf_id (normalize_verdicts order verdicts))" by (simp add: normalize_verdicts_finding)
  ultimately show ?thesis by blast
qed

theorem normalize_verdicts_deterministic_witness:
  "let vs = [''b'' \<mapsto> ZError, ''a'' \<mapsto> ZWarn, ''c'' \<mapsto> ZPass] in
     distinct (map nf_id (normalize_verdicts (\<lambda>_. [''c'', ''b'', ''a'']) vs)) \<and>
     map nf_id (normalize_verdicts (\<lambda>_. [''c'', ''b'', ''a'']) vs) = [''a'', ''b''] \<and>
     normalize_verdicts (\<lambda>_. [''c'', ''b'', ''a'']) vs = normalize_verdicts (\<lambda>_. [''a'', ''b'', ''c'']) vs"
proof -
  let ?vs = "[''b'' \<mapsto> ZError, ''a'' \<mapsto> ZWarn, ''c'' \<mapsto> ZPass]"
  have "map nf_id (normalize_verdicts (\<lambda>_. [''c'', ''b'', ''a'']) ?vs) = [''a'', ''b'']" by code_simp
  then show ?thesis
    using normalize_verdicts_deterministic
      [where order = "\<lambda>_. [''c'', ''b'', ''a'']" and order' = "\<lambda>_. [''a'', ''b'', ''c'']" and verdicts = ?vs]
    by (auto simp: Let_def)
qed

end
