(* ===== verification/DiffCorpus.thy ===== *)
theory DiffCorpus
  imports DiffOracles PathBuilder CtLog
begin

text \<open>
  The corpora of \<open>pkix-difftest\<close>: x509-limbo (\<open>corpus/limbo.rs\<close>), PKITS (\<open>corpus/pkits.rs\<close>), directory trees
  (\<open>corpus/pem_tree.rs\<close>) and lists of files (\<open>corpus/pem_multi.rs\<close>). The JSON manifests are the records they are read
  into; the file system is a parameter. The lemmas say which chains a corpus hands to the oracles.
\<close>

section \<open>From a bundle to a chain\<close>

text \<open>\<open>Certificate::from_der\<close> on every entry, \<open>None\<close> at the first that fails.\<close>

definition parse_bundle :: "'x oracle_codec_scheme \<Rightarrow> bytes list \<Rightarrow> certificate list option" where
  "parse_bundle cd ders = those (map (\<lambda>der. result_ok (dec_certificate cd der)) ders)"

definition all_but :: "nat \<Rightarrow> certificate list \<Rightarrow> certificate list" where
  "all_but anchor_idx parsed = map snd (filter (\<lambda>(i, c). i \<noteq> anchor_idx) (enumerate 0 parsed))"

text \<open>The bytes of each certificate of the chain, by the first equal entry.\<close>

definition back_to_der :: "bytes list \<Rightarrow> certificate list \<Rightarrow> certificate list \<Rightarrow> bytes list option" where
  "back_to_der ders parsed built =
     those (map (\<lambda>c. map_option (\<lambda>idx. ders ! idx) (position (\<lambda>i. parsed ! i = c) parsed)) built)"

text \<open>
  x509-limbo: the leaf is first, the anchor last. The builder never panics, so the missing case of its result is
  not reached.
\<close>

definition limbo_try_build_chain ::
  "'x oracle_codec_scheme \<Rightarrow> crypto_backends \<Rightarrow> bytes list \<Rightarrow> u64 \<Rightarrow> bytes list option"
where
  "limbo_try_build_chain cd cb ders now_unix =
     (if length ders < 2 then None
      else Option.bind (parse_bundle cd ders) (\<lambda>parsed.
        let anchor_idx = length parsed - 1;
            ee = parsed ! 0;
            pool = all_but anchor_idx parsed;
            anchors = [trust_anchor_from_cert cd (parsed ! anchor_idx)]
        in case build_first_valid_path cd ee pool anchors (validation_policy_new now_unix) (default_verifier cb) of
             Some (Inr built) \<Rightarrow>
               map_option (\<lambda>chain_der. chain_der @ [ders ! anchor_idx]) (back_to_der ders parsed built)
           | _ \<Rightarrow> None))"

text \<open>PKITS: the anchor is first, the end entity last.\<close>

definition pkits_try_build_chain :: "'x oracle_codec_scheme \<Rightarrow> bytes list \<Rightarrow> bytes list option" where
  "pkits_try_build_chain cd ders =
     Option.bind (parse_bundle cd ders) (\<lambda>parsed.
       let ee = parsed ! (length parsed - 1);
           pool = all_but 0 parsed;
           anchors = [trust_anchor_from_cert cd (parsed ! 0)]
       in case build_path cd ee pool anchors of
            Some (Inr built) \<Rightarrow> map_option (\<lambda>chain_der. chain_der @ [ders ! 0]) (back_to_der ders parsed built)
          | _ \<Rightarrow> None)"

section \<open>Timestamps of x509-limbo\<close>

fun limbo_digits_loop :: "nat \<Rightarrow> string \<Rightarrow> string + nat" where
  "limbo_digits_loop out [] = Ok out"
| "limbo_digits_loop out (b # bs) =
     (if \<not> is_ascii_digit b then Err ''non-digit''
      else let v = out * 10 + (of_char b - 48)
           in if v \<ge> 2 ^ 32 then Err ''overflow'' else limbo_digits_loop v bs)"

definition limbo_parse_digits :: "string \<Rightarrow> string + nat" where
  "limbo_parse_digits bs = limbo_digits_loop 0 bs"

definition limbo_days_from_civil :: "int \<Rightarrow> int \<Rightarrow> int \<Rightarrow> string + int" where
  "limbo_days_from_civil year month day =
     (if \<not> (1 \<le> month \<and> month \<le> 12) \<or> \<not> (1 \<le> day \<and> day \<le> 31) then Err ''bad month/day''
      else let y = (if month \<le> 2 then year - 1 else year);
               era = (if y \<ge> 0 then y else y - 399) sdiv 400;
               yoe = y - era * 400;
               doy = (153 * (if month > 2 then month - 3 else month + 9) + 2) div 5 + day - 1;
               doe = yoe * 365 + yoe div 4 - yoe div 100 + doy
           in if yoe < 0 then Err ''yoe out of range'' else Ok (era * 146097 + doe - 719468))"

text \<open>Where the fractional seconds end.\<close>

definition skip_fraction :: "string \<Rightarrow> string + nat" where
  "skip_fraction s =
     (if 19 < length s \<and> s ! 19 = CHR ''.'' then
        let count = length (takeWhile is_ascii_digit (drop 20 s))
        in if count = 0 \<or> count > 6 then Err ''bad fractional-seconds length'' else Ok (20 + count)
      else Ok 19)"

text \<open>The sign, hours and minutes of the offset.\<close>

definition parse_offset :: "string \<Rightarrow> nat \<Rightarrow> string + (int \<times> int \<times> int)" where
  "parse_offset s cur =
     (if cur < length s \<and> s ! cur = CHR ''Z'' then
        (if cur + 1 \<noteq> length s then Err (''trailing bytes after '' @ [CHR 0x27] @ ''Z'' @ [CHR 0x27]) else Ok (1, 0, 0))
      else if cur < length s \<and> (s ! cur = CHR ''+'' \<or> s ! cur = CHR ''-'') then
        (if cur + 6 \<noteq> length s \<or> s ! (cur + 3) \<noteq> CHR '':'' then Err ''bad offset shape''
         else and_then (limbo_parse_digits (slice (cur + 1) (cur + 3) s)) (\<lambda>oh.
              and_then (limbo_parse_digits (slice (cur + 4) (cur + 6) s)) (\<lambda>om.
                Ok (if s ! cur = CHR ''+'' then 1 else -1, int oh, int om))))
      else Err ''missing timezone designator'')"

definition parse_rfc3339_to_unix :: "string \<Rightarrow> string + u64" where
  "parse_rfc3339_to_unix s =
     (if length s < 20 \<or> s ! 10 \<noteq> CHR ''T'' then Err (''too short or missing '' @ [CHR 0x27] @ ''T'' @ [CHR 0x27])
      else and_then (limbo_parse_digits (slice 0 4 s)) (\<lambda>year.
           and_then (limbo_parse_digits (slice 5 7 s)) (\<lambda>month.
           and_then (limbo_parse_digits (slice 8 10 s)) (\<lambda>day.
           and_then (limbo_parse_digits (slice 11 13 s)) (\<lambda>hour.
           and_then (limbo_parse_digits (slice 14 16 s)) (\<lambda>minute.
           and_then (limbo_parse_digits (slice 17 19 s)) (\<lambda>sec.
           and_then (skip_fraction s) (\<lambda>cur.
           and_then (parse_offset s cur) (\<lambda>(off_sign, off_hour, off_min).
           if month = 0 \<or> month > 12 \<or> day = 0 \<or> day > 31 then Err ''bad month/day''
           else if hour > 23 \<or> minute > 59 \<or> sec > 60 then Err ''bad time-of-day''
           else if off_hour > 23 \<or> off_min > 59 then Err ''bad offset value''
           else and_then (limbo_days_from_civil (int year) (int month) (int day)) (\<lambda>days.
             let local_secs = days * 86400 + int hour * 3600 + int minute * 60 + int sec;
                 utc_secs = local_secs - off_sign * (off_hour * 3600 + off_min * 60)
             in if utc_secs < 0 then Err ''date before Unix epoch'' else Ok (of_int utc_secs)))))))))))"

section \<open>x509-limbo\<close>

datatype validation_kind = ClientKind | ServerKind
datatype expected_result = ExpectSuccess | ExpectFailure

datatype limbo_feature =
    HasPolicyConstraints | HasCertPolicies | NoCertPolicies | PedanticPublicSuffixWildcard | NameConstraintDn
  | PedanticWebpkiSubscriberKey | PedanticWebpkiEku | PedanticSerialNumber | MaxChainDepth | PedanticRfc5280
  | Rfc5280IncompatibleWithWebpki | DenialOfService | HasCrl

text \<open>The fields the loader reads.\<close>

record testcase =
  tc_id :: string
  tc_validation_kind :: validation_kind
  tc_trusted_certs :: "string list"
  tc_untrusted_intermediates :: "string list"
  tc_peer_certificate :: string
  tc_validation_time :: "string option"
  tc_expected_result :: expected_result
  tc_max_chain_depth :: "u32 option"
  tc_crls :: "string list"
  tc_features :: "limbo_feature list"

record filtered_testcase =
  ft_id :: string
  ft_expected :: difftest_verdict
  ft_validation_time_unix :: u64
  ft_peer_certificate_pem :: string
  ft_intermediates_pem :: "string list"
  ft_trusted_certs_pem :: "string list"

definition DEFAULT_VALIDATION_TIME_UNIX :: u64 where "DEFAULT_VALIDATION_TIME_UNIX = 1700000000"

definition expected_verdict :: "expected_result \<Rightarrow> difftest_verdict" where
  "expected_verdict r = (case r of ExpectSuccess \<Rightarrow> VPass | ExpectFailure \<Rightarrow> VFail [])"

definition keep_testcase :: "testcase \<Rightarrow> bool" where
  "keep_testcase tc \<longleftrightarrow>
     tc_validation_kind tc = ServerKind \<and> tc_features tc = [] \<and> tc_max_chain_depth tc = None \<and> tc_crls tc = []"

definition testcase_time :: "'x oracle_codec_scheme \<Rightarrow> testcase \<Rightarrow> io_error + u64" where
  "testcase_time cd tc =
     (case tc_validation_time tc of
        None \<Rightarrow> Ok DEFAULT_VALIDATION_TIME_UNIX
      | Some s \<Rightarrow>
          map_err (\<lambda>e. invalid_data (''limbo corpus: testcase '' @ [CHR 0x27] @ tc_id tc @ [CHR 0x27] @
              '' has unparseable validation_time '' @ debug_str cd s @ '': '' @ e)) (parse_rfc3339_to_unix s))"

fun limbo_filter :: "'x oracle_codec_scheme \<Rightarrow> testcase list \<Rightarrow> io_error + filtered_testcase list" where
  "limbo_filter cd [] = Ok []"
| "limbo_filter cd (tc # tcs) =
     (if \<not> keep_testcase tc then limbo_filter cd tcs
      else and_then (testcase_time cd tc) (\<lambda>t.
           and_then (limbo_filter cd tcs) (\<lambda>rest.
             Ok (\<lparr> ft_id = tc_id tc, ft_expected = expected_verdict (tc_expected_result tc), ft_validation_time_unix = t,
                   ft_peer_certificate_pem = tc_peer_certificate tc, ft_intermediates_pem = tc_untrusted_intermediates tc,
                   ft_trusted_certs_pem = tc_trusted_certs tc \<rparr> # rest))))"

text \<open>\<open>from_json\<close> is the deserialiser of the manifest.\<close>

definition limbo_load_from_bytes ::
  "'x oracle_codec_scheme \<Rightarrow> (bytes \<Rightarrow> string + testcase list) \<Rightarrow> bytes \<Rightarrow> io_error + filtered_testcase list"
where
  "limbo_load_from_bytes cd from_json bs =
     and_then (map_err (\<lambda>e. invalid_data (''limbo corpus: malformed JSON: '' @ e)) (from_json bs)) (limbo_filter cd)"

definition limbo_load ::
  "'x oracle_codec_scheme \<Rightarrow> (bytes \<Rightarrow> string + testcase list) \<Rightarrow> (string \<Rightarrow> io_error + bytes) \<Rightarrow> string \<Rightarrow>
   io_error + filtered_testcase list"
where
  "limbo_load cd from_json read path =
     and_then (map_err (\<lambda>e. e\<lparr> ie_message := ''limbo corpus: cannot read manifest at '' @ path @ '': '' @ ie_message e \<rparr>)
         (read path)) (limbo_load_from_bytes cd from_json)"

definition str_octets :: "string \<Rightarrow> bytes" where "str_octets s = map of_char s"

definition pem_to_der :: "'x oracle_codec_scheme \<Rightarrow> string \<Rightarrow> io_error + bytes" where
  "pem_to_der cd pem_text =
     and_then (map_err (\<lambda>e. invalid_data (''PEM decode failed: '' @ e)) (pem_decode_vec cd (str_octets pem_text)))
       (\<lambda>(block_label, der).
         if block_label \<noteq> ''CERTIFICATE''
         then Err (invalid_data (''expected CERTIFICATE PEM block, got '' @ block_label)) else Ok der)"

definition limbo_build_item ::
  "'x oracle_codec_scheme \<Rightarrow> crypto_backends \<Rightarrow> filtered_testcase \<Rightarrow> io_error + corpus_item"
where
  "limbo_build_item cd cb tc =
     (case ft_trusted_certs_pem tc of
        [] \<Rightarrow> Err (invalid_data ''trusted_certs is empty (need at least one anchor)'')
      | trusted_pem # _ \<Rightarrow>
          and_then (pem_to_der cd (ft_peer_certificate_pem tc)) (\<lambda>peer.
          and_then (collect_results (pem_to_der cd) (ft_intermediates_pem tc)) (\<lambda>inters.
          and_then (pem_to_der cd trusted_pem) (\<lambda>anchor.
            let positional_der = [peer] @ inters @ [anchor];
                ders = unwrap_or positional_der (limbo_try_build_chain cd cb positional_der (ft_validation_time_unix tc));
                ch = with_validation_time (ft_validation_time_unix tc)
                       \<lparr> certs_der = ders, chain_crls = [], root_in_chain = True, chain_label = ft_id tc,
                         validation_time_unix = None \<rparr>
            in Ok \<lparr> ci_name = ft_id tc, ci_expected = Some (ft_expected tc), ci_chain = ch \<rparr>))))"

definition prefix_error :: "string \<Rightarrow> io_error \<Rightarrow> io_error" where
  "prefix_error p e = e\<lparr> ie_message := p @ ie_message e \<rparr>"

definition limbo_items ::
  "'x oracle_codec_scheme \<Rightarrow> crypto_backends \<Rightarrow> filtered_testcase list \<Rightarrow> (io_error + corpus_item) list"
where
  "limbo_items cd cb tcs =
     map (\<lambda>tc. map_err (prefix_error (''limbo '' @ quoted (ft_id tc) @ '': '')) (limbo_build_item cd cb tc)) tcs"

section \<open>PKITS\<close>

record pkits_vector =
  pv_name :: string
  pv_cert_path :: "string list"
  pv_crl_path :: "string list"
  pv_should_validate :: bool
  pv_initial_policy_set :: "string list"
  pv_initial_policy_mapping_inhibit :: bool
  pv_initial_explicit_policy :: bool
  pv_initial_any_policy_inhibit :: bool

record pkits_corpus =
  pk_root :: string
  pk_vectors :: "pkits_vector list"

type_synonym read_fun = "string \<Rightarrow> io_error + bytes"

definition pkits_load :: "(bytes \<Rightarrow> string + pkits_vector list) \<Rightarrow> read_fun \<Rightarrow> string \<Rightarrow> io_error + pkits_corpus" where
  "pkits_load from_json read root =
     (let path = join_path root ''vectors.json''
      in and_then (map_err (prefix_error (''PKITS corpus: cannot read manifest at '' @ path @ '': '')) (read path)) (\<lambda>bs.
         and_then (map_err (\<lambda>e. invalid_data (''PKITS corpus: malformed manifest at '' @ path @ '': '' @ e)) (from_json bs))
           (\<lambda>vectors. Ok \<lparr> pk_root = root, pk_vectors = vectors \<rparr>)))"

definition read_in :: "read_fun \<Rightarrow> string \<Rightarrow> string \<Rightarrow> io_error + bytes" where
  "read_in read dir filename =
     (let path = join_path dir filename in map_err (prefix_error (''read '' @ path @ '': '')) (read path))"

definition pkits_build_item ::
  "'x oracle_codec_scheme \<Rightarrow> read_fun \<Rightarrow> string \<Rightarrow> string \<Rightarrow> pkits_vector \<Rightarrow> io_error + corpus_item"
where
  "pkits_build_item cd read certs_dir crls_dir vec =
     (if length (pv_cert_path vec) < 2 then Err (invalid_data ''CertPath has fewer than 2 entries'')
      else and_then (collect_results (read_in read certs_dir) (pv_cert_path vec)) (\<lambda>der_blocks.
           let chain_der = unwrap_or (rev der_blocks) (pkits_try_build_chain cd der_blocks)
           in and_then (collect_results (read_in read crls_dir) (pv_crl_path vec)) (\<lambda>crl_blocks.
              Ok \<lparr> ci_name = pv_name vec,
                   ci_expected = Some (if pv_should_validate vec then VPass else VFail []),
                   ci_chain = \<lparr> certs_der = chain_der, chain_crls = crl_blocks, root_in_chain = True,
                                chain_label = pv_name vec, validation_time_unix = None \<rparr> \<rparr>)))"

definition pkits_items :: "'x oracle_codec_scheme \<Rightarrow> read_fun \<Rightarrow> pkits_corpus \<Rightarrow> (io_error + corpus_item) list" where
  "pkits_items cd read corpus =
     map (\<lambda>vec. map_err (prefix_error (''PKITS '' @ quoted (pv_name vec) @ '': ''))
            (pkits_build_item cd read (join_path (pk_root corpus) ''certs'') (join_path (pk_root corpus) ''crls'') vec))
       (pk_vectors corpus)"

section \<open>Lists of files\<close>

definition is_ascii_whitespace :: "u8 \<Rightarrow> bool" where
  "is_ascii_whitespace b \<longleftrightarrow> b \<in> {0x09, 0x0A, 0x0C, 0x0D, 0x20}"

definition looks_like_pem :: "bytes \<Rightarrow> bool" where
  "looks_like_pem bs =
     (case dropWhile (\<lambda>b. is_ascii_whitespace b \<or> b = 0xEF \<or> b = 0xBB \<or> b = 0xBF) bs of
        [] \<Rightarrow> False
      | start \<Rightarrow> take (length PEM_BEGIN) start = PEM_BEGIN)"

text \<open>\<open>from_utf8\<close> is \<open>String::from_utf8\<close>, of which the bytes go on unchanged.\<close>

definition file_as_pem ::
  "'x oracle_codec_scheme \<Rightarrow> (bytes \<Rightarrow> string + string) \<Rightarrow> string \<Rightarrow> bytes \<Rightarrow> io_error + bytes"
where
  "file_as_pem cd from_utf8 path bs =
     map_ok str_octets
       (if looks_like_pem bs
        then map_err (\<lambda>e. invalid_data (path @ '': invalid UTF-8 in PEM: '' @ e)) (from_utf8 bs)
        else map_err (\<lambda>e. invalid_data (path @ '': DER '' @ [CHR 0xE2, CHR 0x86, CHR 0x92] @ '' PEM encode failed: '' @ e))
               (pem_encode_string cd ''CERTIFICATE'' bs))"

definition end_line :: "bytes \<Rightarrow> bytes" where
  "end_line bs = (if bs \<noteq> [] \<and> last bs = NEWLINE then bs else bs @ [NEWLINE])"

fun concat_files ::
  "'x oracle_codec_scheme \<Rightarrow> (bytes \<Rightarrow> string + string) \<Rightarrow> read_fun \<Rightarrow> string list \<Rightarrow> bytes \<Rightarrow> io_error + bytes"
where
  "concat_files cd from_utf8 read [] acc = Ok acc"
| "concat_files cd from_utf8 read (path # paths) acc =
     and_then (map_err (prefix_error (''read '' @ path @ '': '')) (read path)) (\<lambda>bs.
     and_then (file_as_pem cd from_utf8 path bs) (\<lambda>pem.
       concat_files cd from_utf8 read paths (end_line (acc @ pem))))"

definition pem_multi_build_chain ::
  "'x oracle_codec_scheme \<Rightarrow> (bytes \<Rightarrow> string + string) \<Rightarrow> read_fun \<Rightarrow> string list \<Rightarrow> string \<Rightarrow> io_error + diff_chain"
where
  "pem_multi_build_chain cd from_utf8 read paths label =
     (if paths = [] then Err \<lparr> ie_kind = InvalidInput, ie_message = ''pem-multi corpus: no cert files provided'' \<rparr>
      else and_then (concat_files cd from_utf8 read paths []) (\<lambda>bs. from_pem_bytes cd bs label))"

definition pem_multi_items ::
  "'x oracle_codec_scheme \<Rightarrow> (bytes \<Rightarrow> string + string) \<Rightarrow> read_fun \<Rightarrow> string list \<Rightarrow> string \<Rightarrow> (io_error + corpus_item) list"
where
  "pem_multi_items cd from_utf8 read paths label =
     [map_ok (\<lambda>ch. \<lparr> ci_name = label, ci_expected = None, ci_chain = ch \<rparr>) (pem_multi_build_chain cd from_utf8 read paths label)]"

section \<open>Directory trees\<close>

text \<open>
  What \<open>read_dir\<close> yields, in its order: an error, or a name with its file type, which is not that of the target of a
  symbolic link. A directory that cannot be read yields one error.
\<close>

datatype fs_node = RegularFile | SpecialFile | Directory "fs_entry list"
  and fs_entry = FsError io_error | FsEntry string fs_node

fun walk :: "string \<Rightarrow> string \<Rightarrow> fs_entry list \<Rightarrow> string list \<Rightarrow> io_error + string list" where
  "walk dir filename [] out = Ok out"
| "walk dir filename (FsError e # entries) out = Err e"
| "walk dir filename (FsEntry name RegularFile # entries) out =
     walk dir filename entries (if name = filename then out @ [join_path dir name] else out)"
| "walk dir filename (FsEntry name SpecialFile # entries) out = walk dir filename entries out"
| "walk dir filename (FsEntry name (Directory sub) # entries) out =
     and_then (walk (join_path dir name) filename sub out) (walk dir filename entries)"

text \<open>Paths compare by their components.\<close>

definition sort_paths :: "string list \<Rightarrow> string list" where "sort_paths ps = sort_key (split_on (CHR ''/'')) ps"

definition load_with_filename :: "string \<Rightarrow> fs_entry list option \<Rightarrow> string \<Rightarrow> io_error + string list" where
  "load_with_filename root tree filename =
     (case tree of
        None \<Rightarrow> Err \<lparr> ie_kind = NotFound, ie_message = ''PEM-tree corpus: not a directory: '' @ root \<rparr>
      | Some entries \<Rightarrow> map_ok sort_paths (walk root filename entries []))"

definition pem_tree_load :: "string \<Rightarrow> fs_entry list option \<Rightarrow> io_error + string list" where
  "pem_tree_load root tree = load_with_filename root tree ''chain.pem''"

fun read_crls ::
  "'x oracle_codec_scheme \<Rightarrow> read_fun \<Rightarrow> (string \<times> (io_error + bool)) list \<Rightarrow> io_error + bytes list"
where
  "read_crls cd read [] = Ok []"
| "read_crls cd read ((path, Inl e) # entries) = Err e"
| "read_crls cd read ((path, Inr False) # entries) = read_crls cd read entries"
| "read_crls cd read ((path, Inr True) # entries) =
     and_then (read path) (\<lambda>bs.
     and_then (case pem_decode_vec cd bs of
                 Inr (block_label, der) \<Rightarrow>
                   if block_label \<noteq> ''X509 CRL''
                   then Err (invalid_data (path @ '': expected PEM block '' @ quoted ''X509 CRL'' @ '', got '' @ quoted block_label))
                   else Ok der
               | Inl _ \<Rightarrow> Ok bs) (\<lambda>crl.
     and_then (read_crls cd read entries) (\<lambda>crls. Ok (crl # crls))))"

text \<open>The entries of the directory: their paths, and whether each is a regular file or why that is not known.\<close>

definition load_crls_in_dir ::
  "'x oracle_codec_scheme \<Rightarrow> read_fun \<Rightarrow> io_error + (string \<times> (io_error + bool)) list \<Rightarrow> io_error + bytes list"
where
  "load_crls_in_dir cd read dir_entries =
     and_then dir_entries (\<lambda>entries. read_crls cd read (sort_key (\<lambda>e. split_on (CHR ''/'') (fst e)) entries))"

text \<open>\<open>crls_dir\<close> is the sibling directory \<open>crls\<close>, when there is one.\<close>

definition load_one ::
  "'x oracle_codec_scheme \<Rightarrow> read_fun \<Rightarrow> (io_error + (string \<times> (io_error + bool)) list) option \<Rightarrow> string \<Rightarrow> string \<Rightarrow>
   io_error + corpus_item"
where
  "load_one cd read crls_dir root path =
     and_then (read path) (\<lambda>bs.
       let name = unwrap_or path (strip_prefix (root @ ''/'') path)
       in and_then (from_pem_bytes cd (filter_non_certificate_blocks bs) name) (\<lambda>ch.
          and_then (case crls_dir of
                      None \<Rightarrow> Ok ch
                    | Some dir \<Rightarrow>
                        map_ok (\<lambda>crls. if crls = [] then ch else with_crls crls ch)
                          (map_err (prefix_error (''crls/ for '' @ path @ '': '')) (load_crls_in_dir cd read dir))) (\<lambda>ch.
          Ok \<lparr> ci_name = name, ci_expected = None, ci_chain = ch \<rparr>)))"

section \<open>The chains built for x509-limbo\<close>

lemma those_eq_Some: "those xs = Some ys \<longleftrightarrow> xs = map Some ys"
proof (induction xs arbitrary: ys)
  case (Cons x xs)
  then show ?case by (cases x; cases ys) auto
qed auto

lemma parse_bundle_Some:
  "parse_bundle cd ders = Some parsed \<longleftrightarrow> map (dec_certificate cd) ders = map Ok parsed"
proof -
  have res: "result_ok r = Some c \<longleftrightarrow> r = Ok c" for r :: "der_error + certificate" and c by (cases r) simp_all
  have "map (\<lambda>der. result_ok (dec_certificate cd der)) ders = map Some parsed \<longleftrightarrow>
      map (dec_certificate cd) ders = map Ok parsed"
  proof (induction ders arbitrary: parsed)
    case (Cons der ders)
    then show ?case by (cases parsed) (auto simp: res)
  qed auto
  then show ?thesis by (simp add: parse_bundle_def those_eq_Some)
qed

lemma position_Some: "position P parsed = Some i \<Longrightarrow> i < length parsed \<and> P i"
  by (auto simp: position_def dest!: find_SomeD)

lemma back_to_der_Some:
  assumes "back_to_der ders parsed built = Some chain_der" "map (dec_certificate cd) ders = map Ok parsed"
  shows "map (dec_certificate cd) chain_der = map Ok built" "set chain_der \<subseteq> set ders"
    and "built \<noteq> [] \<Longrightarrow> built ! 0 = parsed ! 0 \<Longrightarrow> chain_der ! 0 = ders ! 0"
proof -
  have len: "length ders = length parsed" using assms(2) by (metis length_map)
  have dec: "dec_certificate cd (ders ! i) = Ok (parsed ! i)" if "i < length parsed" for i
    using arg_cong [OF assms(2), of "\<lambda>l. l ! i"] that len by simp
  have m: "map (\<lambda>c. map_option (\<lambda>idx. ders ! idx) (position (\<lambda>i. parsed ! i = c) parsed)) built = map Some chain_der"
    using assms(1) by (simp add: back_to_der_def those_eq_Some)
  then have n: "length chain_der = length built" by (metis length_map)
  have at: "\<exists>i < length parsed. parsed ! i = built ! j \<and> chain_der ! j = ders ! i" if "j < length built" for j
    using arg_cong [OF m, of "\<lambda>l. l ! j"] that n by (auto dest!: position_Some)
  show "map (dec_certificate cd) chain_der = map Ok built"
    by (rule nth_equalityI) (use n at dec in force)+
  show "set chain_der \<subseteq> set ders" using at n len by (force simp: in_set_conv_nth)
  show "chain_der ! 0 = ders ! 0" if "built \<noteq> []" "built ! 0 = parsed ! 0"
  proof -
    have "[0..<length parsed] = 0 # [Suc 0..<length parsed]" using at [of 0] that(1) by (intro upt_conv_Cons) auto
    then have "position (\<lambda>i. parsed ! i = parsed ! 0) parsed = Some 0" by (simp add: position_def)
    then show ?thesis using arg_cong [OF m, of "\<lambda>l. l ! 0"] that n by simp
  qed
qed

text \<open>
  C38. Whenever the limbo loader finds a chain in the bundle of a test case, the chain consists of entries of the
  bundle with the peer certificate first and the anchor last, and the pkix-path oracle passes it at the pinned time,
  whatever the clock says.
\<close>

theorem limbo_built_chain_passes:
  "case limbo_try_build_chain cd cb ders now_unix of
     None \<Rightarrow> True
   | Some chain_der \<Rightarrow>
       pkix_path_verify cd cb clock
         \<lparr> certs_der = chain_der, chain_crls = [], root_in_chain = True, chain_label = label,
           validation_time_unix = Some now_unix \<rparr> = Ok VPass \<and>
       2 \<le> length chain_der \<and> set chain_der \<subseteq> set ders \<and> chain_der ! 0 = ders ! 0 \<and> last chain_der = last ders"
proof (cases "limbo_try_build_chain cd cb ders now_unix")
  case (Some chain_der)
  then have two: "2 \<le> length ders" by (auto simp: limbo_try_build_chain_def split: if_splits)
  with Some obtain parsed where "parse_bundle cd ders = Some parsed"
    by (auto simp: limbo_try_build_chain_def split: bind_splits)
  then have dec: "map (dec_certificate cd) ders = map Ok parsed" by (simp add: parse_bundle_Some)
  then have len: "length parsed = length ders" by (metis length_map)
  let ?n = "length parsed - 1"
  let ?anchors = "[trust_anchor_from_cert cd (parsed ! ?n)]"
  obtain built der where
    b: "build_first_valid_path cd (parsed ! 0) (all_but ?n parsed) ?anchors (validation_policy_new now_unix) (default_verifier cb)
        = Some (Inr built)"
    and der: "back_to_der ders parsed built = Some der" "chain_der = der @ [ders ! ?n]"
    using Some two \<open>parse_bundle cd ders = Some parsed\<close>
    by (auto simp: limbo_try_build_chain_def Let_def split: option.splits sum.splits)
  from first_valid_path_cases [where cd = cd and target = "parsed ! 0" and pool = "all_but ?n parsed" and anchors = ?anchors
      and policy = "validation_policy_new now_unix" and v = "default_verifier cb" and config = path_builder_config_new]
  have t: "topological cd (parsed ! 0) (all_but ?n parsed) ?anchors built"
    and ok: "is_ok (validate_path cd built ?anchors (validation_policy_new now_unix) (default_verifier cb))"
    using b by (simp_all add: build_first_valid_path_def)
  have ne: "built \<noteq> []" "built ! 0 = parsed ! 0" using t by (auto simp: topological_def split: list.splits)
  note bk = back_to_der_Some [OF der(1) dec]
  let ?ch = "\<lparr> certs_der = chain_der, chain_crls = [], root_in_chain = True, chain_label = label,
      validation_time_unix = Some now_unix \<rparr>"
  have n: "?n < length ders" "?n < length parsed" using two len by simp_all
  have "map (dec_certificate cd) ders ! ?n = map Inr parsed ! ?n" by (simp only: dec)
  then have root: "dec_certificate cd (ders ! ?n) = Ok (parsed ! ?n)" by (simp only: nth_map [OF n(1)] nth_map [OF n(2)])
  have "map (dec_certificate cd) (certs_der ?ch) = map Ok (built @ [parsed ! ?n])"
    by (simp add: der(2) bk(1) root [simplified])
  from pkix_path_verify_parsed [OF _ this ne(1), of cb clock] ok
  have "pkix_path_verify cd cb clock ?ch = Ok VPass"
    by (simp add: oracle_time_def is_ok_def split: sum.splits)
  moreover have "length der = length built" using bk(1) by (metis length_map)
  then have "2 \<le> length chain_der" "chain_der ! 0 = ders ! 0"
    using ne bk(3) by (auto simp: der(2) nth_append Suc_le_eq)
  moreover have "last ders = ders ! ?n" using two len by (subst last_conv_nth) auto
  moreover have "ders ! ?n \<in> set ders" using two len by simp
  ultimately show ?thesis using bk(2) by (simp add: Some der(2))
qed simp

end
