(* ===== verification/HttpClients.thy ===== *)
theory HttpClients
  imports RevHttp
begin

text \<open>
  The shipped transports: \<open>HttpFetcher\<close> of \<open>pkix-aia-http\<close>, and \<open>UreqFetcher\<close> and \<open>ReqwestFetcher\<close> of
  \<open>pkix-revocation-http/src/clients\<close>. The HTTP libraries are parameters: an agent maps a request to an error
  or to a response, and a response carries what its body yields when it is read, piece by piece. A
  \<open>Content-Type\<close> header is absent, present but not text (\<open>Some None\<close>), or a string.
\<close>

section \<open>What the HTTP libraries give\<close>

text \<open>A call of \<open>Read::read\<close> yields some bytes, or fails. No bytes mark the end, as does the end of the list.\<close>

datatype read_step = Data bytes | Fault io_error_kind string

datatype ureq_error = StatusCode u16 | Ureq_timeout string | Ureq_other string

record ureq_response =
  ur_status :: u16
  ur_content_type :: "string option option"
  ur_body :: "read_step list"

text \<open>\<open>ureq::Agent\<close>: \<open>get(url).call()\<close>, and \<open>post(url).header("Content-Type", ct).send(body)\<close>.\<close>

record ureq_agent =
  ua_get :: "string \<Rightarrow> ureq_error + ureq_response"
  ua_post :: "string \<Rightarrow> string \<Rightarrow> bytes \<Rightarrow> ureq_error + ureq_response"

text \<open>The response of \<open>reqwest\<close>; \<open>chunk()\<close> yields the chunks in turn, an error is its rendering.\<close>

record reqwest_response =
  rr_status :: u16
  rr_content_type :: "string option option"
  rr_content_length :: "u64 option"
  rr_chunks :: "(string + bytes) list"

record reqwest_client =
  rc_get :: "string \<Rightarrow> string + reqwest_response"
  rc_post :: "string \<Rightarrow> string \<Rightarrow> bytes \<Rightarrow> string + reqwest_response"

text \<open>
  \<open>Read::take(n)\<close> followed by \<open>read_to_end\<close>: nothing is read once \<open>n\<close> bytes have come, an interrupted read is
  tried again, and any other failure is the result.
\<close>

fun read_limited :: "nat \<Rightarrow> read_step list \<Rightarrow> (io_error_kind \<times> string) + bytes" where
  "read_limited n [] = Ok []"
| "read_limited n (Data bs # steps) =
     (if n = 0 \<or> bs = [] then Ok []
      else map_ok ((@) (take n bs)) (read_limited (n - length (take n bs)) steps))"
| "read_limited n (Fault kind msg # steps) =
     (if n = 0 then Ok [] else if kind = Interrupted then read_limited n steps else Err (kind, msg))"

definition U64_MAX :: nat where "U64_MAX = 2 ^ 64 - 1"

definition usize_sat_add :: "nat \<Rightarrow> nat \<Rightarrow> nat" where
  "usize_sat_add a b = min (a + b) U64_MAX"

definition success_status :: "u16 \<Rightarrow> bool" where
  "success_status status \<longleftrightarrow> 200 \<le> status \<and> status < 300"

section \<open>HttpFetcher\<close>

definition AIA_MAX_RESPONSE_SIZE :: nat where "AIA_MAX_RESPONSE_SIZE = 1024 * 1024"

text \<open>In seconds.\<close>

definition AIA_TIMEOUT :: nat where "AIA_TIMEOUT = 10"

record http_fetcher =
  hf_agent :: ureq_agent
  hf_max_response_size :: nat

definition http_fetcher_with_agent :: "ureq_agent \<Rightarrow> http_fetcher" where
  "http_fetcher_with_agent agent = \<lparr> hf_agent = agent, hf_max_response_size = AIA_MAX_RESPONSE_SIZE \<rparr>"

text \<open>\<open>build\<close> is the builder of the library: the agent with the given global timeout.\<close>

definition http_fetcher_new :: "(nat option \<Rightarrow> ureq_agent) \<Rightarrow> http_fetcher" where
  "http_fetcher_new build = \<lparr> hf_agent = build (Some AIA_TIMEOUT), hf_max_response_size = AIA_MAX_RESPONSE_SIZE \<rparr>"

definition http_fetcher_default :: "(nat option \<Rightarrow> ureq_agent) \<Rightarrow> http_fetcher" where
  "http_fetcher_default build = http_fetcher_new build"

definition hf_with_max_response_size :: "http_fetcher \<Rightarrow> nat \<Rightarrow> http_fetcher" where
  "hf_with_max_response_size f n = f\<lparr> hf_max_response_size := n \<rparr>"

definition has_http_scheme :: "string \<Rightarrow> bool" where
  "has_http_scheme uri =
     (case map_option fst (split_once (CHR '':'') uri) of
        Some s \<Rightarrow> eq_ignore_ascii_case s ''http'' \<or> eq_ignore_ascii_case s ''https''
      | None \<Rightarrow> False)"

fun map_ureq_err_aia :: "ureq_error \<Rightarrow> aia_error" where
  "map_ureq_err_aia (StatusCode code) = HttpStatus code"
| "map_ureq_err_aia (Ureq_timeout _) = Timeout"
| "map_ureq_err_aia (Ureq_other msg) = IoFailure Other_kind msg"

definition http_fetch :: "http_fetcher \<Rightarrow> string \<Rightarrow> aia_error + bytes" where
  "http_fetch f uri =
     (if \<not> has_http_scheme uri then Err (UriUnsupported uri)
      else and_then (map_err map_ureq_err_aia (ua_get (hf_agent f) uri)) (\<lambda>response.
        let status = ur_status response; cap = hf_max_response_size f in
        if \<not> success_status status then Err (HttpStatus status)
        else and_then (map_err (\<lambda>(kind, msg). IoFailure kind msg)
                        (read_limited (usize_sat_add cap 1) (ur_body response))) (\<lambda>body.
          if length body > cap then Err (ResponseTooLarge cap (length body)) else Ok body)))"

text \<open>As an \<open>AiaFetcher\<close>: the trait's \<open>batch_fetch\<close> is inherited.\<close>

definition http_aia_fetcher :: "http_fetcher \<Rightarrow> aia_fetcher" where
  "http_aia_fetcher f = \<lparr> fetch = http_fetch f, batch_fetch = default_batch_fetch (http_fetch f) \<rparr>"

section \<open>UreqFetcher\<close>

definition REV_MAX_RESPONSE_SIZE :: nat where "REV_MAX_RESPONSE_SIZE = 10 * 1024 * 1024"

definition REV_TIMEOUT :: nat where "REV_TIMEOUT = 30"

record ureq_fetcher =
  uf_agent :: ureq_agent
  uf_max_response_size :: nat

definition ureq_fetcher_with_agent :: "ureq_agent \<Rightarrow> ureq_fetcher" where
  "ureq_fetcher_with_agent agent = \<lparr> uf_agent = agent, uf_max_response_size = REV_MAX_RESPONSE_SIZE \<rparr>"

definition ureq_fetcher_new :: "(nat option \<Rightarrow> ureq_agent) \<Rightarrow> ureq_fetcher" where
  "ureq_fetcher_new build = \<lparr> uf_agent = build (Some REV_TIMEOUT), uf_max_response_size = REV_MAX_RESPONSE_SIZE \<rparr>"

definition ureq_fetcher_default :: "(nat option \<Rightarrow> ureq_agent) \<Rightarrow> ureq_fetcher" where
  "ureq_fetcher_default build = ureq_fetcher_new build"

definition uf_with_max_response_size :: "ureq_fetcher \<Rightarrow> nat \<Rightarrow> ureq_fetcher" where
  "uf_with_max_response_size f n = f\<lparr> uf_max_response_size := n \<rparr>"

text \<open>A \<open>Transport\<close> error carries the rendering of the boxed error.\<close>

fun map_ureq_err_rev :: "ureq_error \<Rightarrow> fetch_error" where
  "map_ureq_err_rev (StatusCode code) = FetchHttpStatus code"
| "map_ureq_err_rev (Ureq_timeout msg) = Transport msg"
| "map_ureq_err_rev (Ureq_other msg) = Transport msg"

definition ureq_send :: "ureq_agent \<Rightarrow> fetch_request \<Rightarrow> ureq_error + ureq_response" where
  "ureq_send agent req =
     (case rq_method req of
        Get \<Rightarrow> ua_get agent (rq_url req)
      | Post body content_type \<Rightarrow> ua_post agent (rq_url req) content_type body)"

definition ureq_fetch :: "ureq_fetcher \<Rightarrow> revocation_fetcher" where
  "ureq_fetch f req =
     and_then (map_err map_ureq_err_rev (ureq_send (uf_agent f) req)) (\<lambda>response.
       let status = ur_status response; cap = uf_max_response_size f in
       if \<not> success_status status then Err (FetchHttpStatus status)
       else and_then (map_err (\<lambda>(_, msg). Transport msg)
                       (read_limited (usize_sat_add cap 1) (ur_body response))) (\<lambda>body.
         if length body > cap then Err TooLarge
         else Ok \<lparr> rs_bytes = body, rs_content_type = Option.bind (ur_content_type response) (\<lambda>v. v) \<rparr>))"

section \<open>ReqwestFetcher\<close>

record reqwest_fetcher =
  rf_client :: reqwest_client
  rf_max_response_size :: nat

definition reqwest_fetcher_with_client :: "reqwest_client \<Rightarrow> reqwest_fetcher" where
  "reqwest_fetcher_with_client client = \<lparr> rf_client = client, rf_max_response_size = REV_MAX_RESPONSE_SIZE \<rparr>"

text \<open>The builder may fail; then the library's default client, which has no timeout, is used.\<close>

definition reqwest_fetcher_new :: "(nat \<Rightarrow> string + reqwest_client) \<Rightarrow> reqwest_client \<Rightarrow> reqwest_fetcher" where
  "reqwest_fetcher_new build default_client =
     \<lparr> rf_client = (case build REV_TIMEOUT of Inr client \<Rightarrow> client | Inl _ \<Rightarrow> default_client),
       rf_max_response_size = REV_MAX_RESPONSE_SIZE \<rparr>"

definition reqwest_fetcher_default :: "(nat \<Rightarrow> string + reqwest_client) \<Rightarrow> reqwest_client \<Rightarrow> reqwest_fetcher" where
  "reqwest_fetcher_default build default_client = reqwest_fetcher_new build default_client"

definition rf_with_max_response_size :: "reqwest_fetcher \<Rightarrow> nat \<Rightarrow> reqwest_fetcher" where
  "rf_with_max_response_size f n = f\<lparr> rf_max_response_size := n \<rparr>"

definition reqwest_send :: "reqwest_client \<Rightarrow> fetch_request \<Rightarrow> string + reqwest_response" where
  "reqwest_send client req =
     (case rq_method req of
        Get \<Rightarrow> rc_get client (rq_url req)
      | Post body content_type \<Rightarrow> rc_post client (rq_url req) content_type body)"

fun chunk_loop :: "nat \<Rightarrow> bytes \<Rightarrow> (string + bytes) list \<Rightarrow> fetch_error + bytes" where
  "chunk_loop cap body [] = Ok body"
| "chunk_loop cap body (Inr chunk # rest) =
     (if usize_sat_add (length body) (length chunk) > cap then Err TooLarge
      else chunk_loop cap (body @ chunk) rest)"
| "chunk_loop cap body (Inl e # rest) = Err (Transport e)"

definition reqwest_fetch :: "reqwest_fetcher \<Rightarrow> revocation_fetcher" where
  "reqwest_fetch f req =
     and_then (map_err Transport (reqwest_send (rf_client f) req)) (\<lambda>resp.
       if \<not> success_status (rr_status resp) then Err (FetchHttpStatus (rr_status resp))
       else let cap = rf_max_response_size f in
         if (case rr_content_length resp of Some hint \<Rightarrow> unat hint > cap | None \<Rightarrow> False) then Err TooLarge
         else and_then (chunk_loop cap [] (rr_chunks resp)) (\<lambda>body.
           Ok \<lparr> rs_bytes = body, rs_content_type = Option.bind (rr_content_type resp) (\<lambda>v. v) \<rparr>))"

section \<open>The cap on a body\<close>

text \<open>The whole body, unless reading it fails.\<close>

fun delivered :: "read_step list \<Rightarrow> bytes option" where
  "delivered [] = Some []"
| "delivered (Data bs # steps) = (if bs = [] then Some [] else map_option ((@) bs) (delivered steps))"
| "delivered (Fault kind _ # steps) = (if kind = Interrupted then delivered steps else None)"

lemma read_limited_length: "read_limited n steps = Ok body \<Longrightarrow> length body \<le> n"
proof (induction n steps arbitrary: body rule: read_limited.induct)
  case (2 n bs steps)
  then show ?case
    by (cases "n = 0 \<or> bs = []"; cases "read_limited (n - length (take n bs)) steps") auto
qed (auto split: if_splits)

lemma read_limited_short:
  "read_limited n steps = Ok body \<and> length body < n \<longleftrightarrow> delivered steps = Some body \<and> length body < n"
proof (induction n steps arbitrary: body rule: read_limited.induct)
  case (2 n bs steps)
  show ?case
  proof (cases "n = 0 \<or> bs = []")
    case False
    show ?thesis
    proof (cases "n \<le> length bs")
      case True
      then show ?thesis using False by (cases "read_limited 0 steps") auto
    next
      case short: False
      then have "read_limited n (Data bs # steps) = map_ok ((@) bs) (read_limited (n - length bs) steps)"
        using False by simp
      then have "read_limited n (Data bs # steps) = Ok body \<and> length body < n \<longleftrightarrow>
          (\<exists>rest. body = bs @ rest \<and> read_limited (n - length bs) steps = Ok rest \<and> length rest < n - length bs)"
        by (cases "read_limited (n - length bs) steps") auto
      also have "\<dots> \<longleftrightarrow> (\<exists>rest. body = bs @ rest \<and> delivered steps = Some rest \<and> length rest < n - length bs)"
        using 2 [OF False] short by auto
      also have "\<dots> \<longleftrightarrow> delivered (Data bs # steps) = Some body \<and> length body < n"
        using False short by auto
      finally show ?thesis .
    qed
  qed auto
qed auto

text \<open>What the two sides of the cap mean for any of the readers; below \<open>u64::MAX\<close> the sum does not saturate.\<close>

lemma capped_body_iff:
  assumes "cap < U64_MAX"
  shows "read_limited (usize_sat_add cap 1) steps = Ok body \<and> \<not> length body > cap \<longleftrightarrow>
    delivered steps = Some body \<and> length body \<le> cap"
proof -
  have "usize_sat_add cap 1 = cap + 1" using assms by (simp add: usize_sat_add_def)
  then show ?thesis using read_limited_short [of "cap + 1" steps body] by auto
qed

section \<open>One response, two libraries\<close>

text \<open>The whole body a chunked response yields, unless a chunk fails.\<close>

fun chunks_delivered :: "(string + bytes) list \<Rightarrow> bytes option" where
  "chunks_delivered [] = Some []"
| "chunks_delivered (Inr chunk # rest) = map_option ((@) chunk) (chunks_delivered rest)"
| "chunks_delivered (Inl _ # rest) = None"

text \<open>
  The two libraries received the same response: status and content type are the same, the bodies are the same bytes or
  both cannot be read to the end, and a content length, where there is one, is the length of the body. In how many
  pieces and with which errors a library hands out a body is its own affair.
\<close>

definition same_response :: "ureq_response \<Rightarrow> reqwest_response \<Rightarrow> bool" where
  "same_response a b \<longleftrightarrow>
     ur_status a = rr_status b \<and> ur_content_type a = rr_content_type b \<and>
     delivered (ur_body a) = chunks_delivered (rr_chunks b) \<and>
     (case (rr_content_length b, chunks_delivered (rr_chunks b)) of
        (Some n, Some body) \<Rightarrow> unat n = length body
      | _ \<Rightarrow> True)"

lemma chunk_loop_exact:
  assumes "cap < U64_MAX" "length body \<le> cap"
  shows "chunk_loop cap body chunks = Ok whole \<longleftrightarrow>
    (\<exists>rest. chunks_delivered chunks = Some rest \<and> whole = body @ rest \<and> length whole \<le> cap)"
  using assms(2)
proof (induction chunks arbitrary: body)
  case (Cons piece chunks)
  show ?case
  proof (cases piece)
    case (Inr chunk)
    have sat: "usize_sat_add (length body) (length chunk) > cap \<longleftrightarrow> length (body @ chunk) > cap"
      using assms(1) by (auto simp: usize_sat_add_def)
    show ?thesis
    proof (cases "length (body @ chunk) > cap")
      case True
      then show ?thesis using Inr sat by auto
    next
      case False
      then show ?thesis using Inr sat Cons.IH [of "body @ chunk"] by auto
    qed
  qed simp
qed auto

text \<open>
  C30. The asynchronous client accepts what the synchronous one accepts: when the two libraries received the same
  response to a request, the clients with the same cap, below \<open>u64::MAX\<close>, return the same bytes and content type or
  both return an error, however the libraries cut the body into pieces and whatever length is announced.
\<close>

theorem clients_agree:
  assumes "ureq_send agent req = Ok a" "reqwest_send client req = Ok b" "same_response a b" "cap < U64_MAX"
  shows "ureq_fetch \<lparr> uf_agent = agent, uf_max_response_size = cap \<rparr> req = Ok r \<longleftrightarrow>
    reqwest_fetch \<lparr> rf_client = client, rf_max_response_size = cap \<rparr> req = Ok r"
proof -
  let ?accepted = "\<exists>body. success_status (rr_status b) \<and> chunks_delivered (rr_chunks b) = Some body \<and> length body \<le> cap \<and>
    r = \<lparr> rs_bytes = body, rs_content_type = Option.bind (rr_content_type b) (\<lambda>v. v) \<rparr>"
  have same: "ur_status a = rr_status b" "ur_content_type a = rr_content_type b"
    "delivered (ur_body a) = chunks_delivered (rr_chunks b)"
    using assms(3) by (simp_all add: same_response_def)
  have "ureq_fetch \<lparr> uf_agent = agent, uf_max_response_size = cap \<rparr> req = Ok r \<longleftrightarrow>
      success_status (ur_status a) \<and> (\<exists>body. (read_limited (usize_sat_add cap 1) (ur_body a) = Ok body \<and> \<not> length body > cap) \<and>
        r = \<lparr> rs_bytes = body, rs_content_type = Option.bind (ur_content_type a) (\<lambda>v. v) \<rparr>)"
    using assms(1) by (auto simp: ureq_fetch_def Let_def and_then_Ok_iff)
  then have "ureq_fetch \<lparr> uf_agent = agent, uf_max_response_size = cap \<rparr> req = Ok r \<longleftrightarrow> ?accepted"
    unfolding capped_body_iff [OF assms(4)] same by blast
  moreover have "reqwest_fetch \<lparr> rf_client = client, rf_max_response_size = cap \<rparr> req = Ok r \<longleftrightarrow> ?accepted"
  proof -
    have hint: "(case rr_content_length b of Some n \<Rightarrow> unat n > cap | None \<Rightarrow> False) \<Longrightarrow>
        chunks_delivered (rr_chunks b) = Some body \<Longrightarrow> length body > cap" for body
      using assms(3) by (auto simp: same_response_def split: option.splits)
    have "chunk_loop cap [] (rr_chunks b) = Ok body \<longleftrightarrow> chunks_delivered (rr_chunks b) = Some body \<and> length body \<le> cap" for body
      using chunk_loop_exact [OF assms(4), of "[]"] by auto
    then show ?thesis
      using assms(2) hint
      by (cases "case rr_content_length b of Some n \<Rightarrow> unat n > cap | None \<Rightarrow> False")
        (auto simp: reqwest_fetch_def Let_def and_then_Ok_iff)
  qed
  ultimately show ?thesis by simp
qed

theorem clients_agree_witness:
  "let a = \<lparr> ur_status = 200, ur_content_type = None, ur_body = [Data [1], Fault Interrupted [], Data [2, 3]] \<rparr>;
       b = \<lparr> rr_status = 200, rr_content_type = None, rr_content_length = Some 3, rr_chunks = [Inr [1, 2], Inr [], Inr [3]] \<rparr>
   in reqwest_fetch \<lparr> rf_client = \<lparr> rc_get = \<lambda>_. Ok b, rc_post = \<lambda>_ _ _. Ok b \<rparr>, rf_max_response_size = 3 \<rparr>
        (fetch_request_get ''http://a'') = Ok \<lparr> rs_bytes = [1, 2, 3], rs_content_type = None \<rparr> \<and>
      ureq_fetch \<lparr> uf_agent = \<lparr> ua_get = \<lambda>_. Ok a, ua_post = \<lambda>_ _ _. Ok a \<rparr>, uf_max_response_size = 3 \<rparr>
        (fetch_request_get ''http://a'') = Ok \<lparr> rs_bytes = [1, 2, 3], rs_content_type = None \<rparr>"
proof -
  let ?a = "\<lparr> ur_status = 200, ur_content_type = None, ur_body = [Data [1], Fault Interrupted [], Data [2, 3]] \<rparr>"
  let ?b = "\<lparr> rr_status = 200, rr_content_type = None, rr_content_length = Some 3, rr_chunks = [Inr [1, 2], Inr [], Inr [3]] \<rparr>"
  let ?agent = "\<lparr> ua_get = \<lambda>_. Ok ?a, ua_post = \<lambda>_ _ _. Ok ?a \<rparr>"
  let ?client = "\<lparr> rc_get = \<lambda>_. Ok ?b, rc_post = \<lambda>_ _ _. Ok ?b \<rparr>"
  let ?req = "fetch_request_get ''http://a''"
  have sends: "ureq_send ?agent ?req = Ok ?a" "reqwest_send ?client ?req = Ok ?b"
    by (simp_all add: ureq_send_def reqwest_send_def fetch_request_get_def)
  have "same_response ?a ?b" "3 < U64_MAX" by (simp_all add: same_response_def U64_MAX_def)
  note agree = clients_agree [OF sends this]
  have "ureq_fetch \<lparr> uf_agent = ?agent, uf_max_response_size = 3 \<rparr> ?req = Ok \<lparr> rs_bytes = [1, 2, 3], rs_content_type = None \<rparr>"
    by code_simp
  then show ?thesis unfolding Let_def using agree by blast
qed

text \<open>
  C31. The AIA transport returns a body exactly when the URI's scheme is http or https, the server answers with a
  success, reading the body does not fail, and the body has at most as many bytes as the cap; and then it returns
  the whole body.
\<close>

theorem http_fetch_exact:
  assumes "hf_max_response_size f < U64_MAX"
  shows "http_fetch f uri = Ok body \<longleftrightarrow>
    has_http_scheme uri \<and>
    (\<exists>r. ua_get (hf_agent f) uri = Ok r \<and> success_status (ur_status r) \<and> delivered (ur_body r) = Some body) \<and>
    length body \<le> hf_max_response_size f"
proof (cases "has_http_scheme uri")
  case True
  note capped = capped_body_iff [OF assms]
  show ?thesis
  proof (cases "ua_get (hf_agent f) uri")
    case (Inr r)
    have "http_fetch f uri = Ok body \<longleftrightarrow> success_status (ur_status r) \<and>
        read_limited (usize_sat_add (hf_max_response_size f) 1) (ur_body r) = Ok body \<and>
        \<not> length body > hf_max_response_size f"
      using True Inr by (auto simp: http_fetch_def Let_def and_then_Ok_iff)
    then show ?thesis using True Inr capped by auto
  qed (simp add: http_fetch_def True)
qed (simp add: http_fetch_def)

theorem http_fetch_exact_witness:
  "http_fetch \<lparr> hf_agent = \<lparr> ua_get = (\<lambda>_. Ok \<lparr> ur_status = 200, ur_content_type = None,
         ur_body = [Data [1], Fault Interrupted [], Data [2]] \<rparr>), ua_post = (\<lambda>_ _ _. Err (Ureq_timeout [])) \<rparr>,
       hf_max_response_size = 2 \<rparr> ''HTTPS://a'' = Ok [1, 2]"
  by (subst http_fetch_exact) (simp_all add: U64_MAX_def success_status_def, code_simp)

end
