(* ===== verification/AsyncHttp.thy ===== *)
theory AsyncHttp
  imports RevHttp
begin

text \<open>
  The asynchronous checkers of \<open>pkix-revocation-http\<close>: \<open>async_fetcher.rs\<close>, \<open>async_crl.rs\<close>, \<open>async_ocsp.rs\<close>. An
  \<open>async fn\<close> is a future that stops only where it awaits a fetch, so it is either suspended there, with the
  variables that are alive, or finished. An executor polls futures in any order; a poll finds the awaited fetch
  pending, and changes nothing, or complete, and runs on to the next await. The transport is a parameter: the answer
  a request is given in the end.
\<close>

section \<open>The fetchers\<close>

record async_http_crl_fetcher =
  ac_fetcher :: revocation_fetcher
  ac_verifier :: sig_verifier
  ac_now_unix :: u64

definition async_http_crl_fetcher_new :: "revocation_fetcher \<Rightarrow> sig_verifier \<Rightarrow> u64 \<Rightarrow> async_http_crl_fetcher" where
  "async_http_crl_fetcher_new fetcher verifier now_unix =
     \<lparr> ac_fetcher = fetcher, ac_verifier = verifier, ac_now_unix = now_unix \<rparr>"

record async_http_ocsp_fetcher =
  ao_fetcher :: revocation_fetcher
  ao_verifier :: sig_verifier
  ao_now_unix :: u64
  ao_hash_alg :: ocsp_hash_alg

definition async_http_ocsp_fetcher_new :: "revocation_fetcher \<Rightarrow> sig_verifier \<Rightarrow> u64 \<Rightarrow> async_http_ocsp_fetcher" where
  "async_http_ocsp_fetcher_new fetcher verifier now_unix =
     \<lparr> ao_fetcher = fetcher, ao_verifier = verifier, ao_now_unix = now_unix, ao_hash_alg = Sha256_alg \<rparr>"

definition async_with_hash_alg :: "async_http_ocsp_fetcher \<Rightarrow> ocsp_hash_alg \<Rightarrow> async_http_ocsp_fetcher" where
  "async_with_hash_alg f alg = f\<lparr> ao_hash_alg := alg \<rparr>"

text \<open>The default of the trait for a certificate the anchor issued, which both checkers keep.\<close>

definition async_check_against_anchor :: "certificate \<Rightarrow> trust_anchor \<Rightarrow> unit revocation_result" where
  "async_check_against_anchor cert anchor = Ok ()"

section \<open>The futures\<close>

text \<open>
  A suspended check awaits the fetch of one URL, a \<open>GET\<close> without a body or a \<open>POST\<close> of one; it keeps all URLs, for
  the last error, those it has not tried, and the failures so far.
\<close>

datatype check_future =
    Awaiting "bytes option" "string list" string "string list" "string list"
  | Finished "unit revocation_result"

fun next_url :: "bytes option \<Rightarrow> string list \<Rightarrow> string list \<Rightarrow> string list \<Rightarrow> check_future" where
  "next_url body all [] failures = Finished (Err (all_failed all failures))"
| "next_url body all (url # rest) failures = Awaiting body all url rest failures"

text \<open>Up to the first await, and from the answer of one fetch to the next await.\<close>

definition async_crl_start :: "'x http_codec_scheme \<Rightarrow> certificate \<Rightarrow> check_future" where
  "async_crl_start cd cert =
     (case extract_cdp_http_urls cd cert of
        Inl e \<Rightarrow> Finished (Err (cdp_failed e))
      | Inr urls \<Rightarrow> if urls = [] then Finished (Ok ()) else next_url None urls urls [])"

definition async_crl_resume ::
  "'x http_codec_scheme \<Rightarrow> async_http_crl_fetcher \<Rightarrow> certificate \<Rightarrow> certificate \<Rightarrow> string list \<Rightarrow> string \<Rightarrow> string list \<Rightarrow>
   string list \<Rightarrow> fetch_error + fetch_response \<Rightarrow> check_future"
where
  "async_crl_resume cd f cert iss all url rest failures answer =
     (case answer of
        Inr resp \<Rightarrow>
          (case crl_checker_new cd (rs_bytes resp) (ac_now_unix f) (ac_verifier f) of
             Inr ck \<Rightarrow> Finished (crl_check_revocation cd ck cert iss)
           | Inl e \<Rightarrow> next_url None all rest
               (failures @ [url @ '': CRL parse: '' @ display_revocation_error (show_serial_number cd) e]))
      | Inl e \<Rightarrow> next_url None all rest (failures @ [url @ '': '' @ display_fetch_error e]))"

definition async_ocsp_start ::
  "'x http_codec_scheme \<Rightarrow> async_http_ocsp_fetcher \<Rightarrow> certificate \<Rightarrow> certificate \<Rightarrow> check_future" where
  "async_ocsp_start cd f cert iss =
     (case build_ocsp_request cd cert iss (ao_hash_alg f) of
        Inl e \<Rightarrow> Finished (Err (request_failed e))
      | Inr req \<Rightarrow>
          (case extract_aia_http_urls cd cert of
             Inl e \<Rightarrow> Finished (Err (aia_failed e))
           | Inr aia \<Rightarrow>
               if aia_ocsp aia = [] then Finished (Ok ())
               else next_url (Some (orb_body req)) (aia_ocsp aia) (aia_ocsp aia) []))"

definition async_ocsp_resume ::
  "'x http_codec_scheme \<Rightarrow> async_http_ocsp_fetcher \<Rightarrow> certificate \<Rightarrow> certificate \<Rightarrow> bytes option \<Rightarrow> string list \<Rightarrow> string \<Rightarrow>
   string list \<Rightarrow> string list \<Rightarrow> fetch_error + fetch_response \<Rightarrow> check_future"
where
  "async_ocsp_resume cd f cert iss body all url rest failures answer =
     (case answer of
        Inr resp \<Rightarrow>
          (case ocsp_checker_new cd (rs_bytes resp) (ao_now_unix f) (ao_verifier f) of
             Inr oc \<Rightarrow> Finished (ocsp_check_revocation cd oc cert iss)
           | Inl e \<Rightarrow> next_url body all rest
               (failures @ [url @ '': OCSP parse: '' @ display_revocation_error (show_serial_number cd) e]))
      | Inl e \<Rightarrow> next_url body all rest (failures @ [url @ '': '' @ display_fetch_error e]))"

definition awaited_request :: "bytes option \<Rightarrow> string \<Rightarrow> fetch_request" where
  "awaited_request body url =
     (case body of None \<Rightarrow> fetch_request_get url | Some b \<Rightarrow> fetch_request_post url b OCSP_REQUEST_CT)"

section \<open>An executor\<close>

text \<open>The checks it was given, each with the certificate and its issuer.\<close>

datatype async_check =
    Crl_check async_http_crl_fetcher certificate certificate
  | Ocsp_check async_http_ocsp_fetcher certificate certificate

fun check_fetcher :: "async_check \<Rightarrow> revocation_fetcher" where
  "check_fetcher (Crl_check f _ _) = ac_fetcher f"
| "check_fetcher (Ocsp_check f _ _) = ao_fetcher f"

fun start_check :: "'x http_codec_scheme \<Rightarrow> async_check \<Rightarrow> check_future" where
  "start_check cd (Crl_check f cert iss) = async_crl_start cd cert"
| "start_check cd (Ocsp_check f cert iss) = async_ocsp_start cd f cert iss"

fun resume_check ::
  "'x http_codec_scheme \<Rightarrow> async_check \<Rightarrow> bytes option \<Rightarrow> string list \<Rightarrow> string \<Rightarrow> string list \<Rightarrow> string list \<Rightarrow>
   fetch_error + fetch_response \<Rightarrow> check_future"
where
  "resume_check cd (Crl_check f cert iss) body all url rest failures answer =
     async_crl_resume cd f cert iss all url rest failures answer"
| "resume_check cd (Ocsp_check f cert iss) body all url rest failures answer =
     async_ocsp_resume cd f cert iss body all url rest failures answer"

text \<open>The futures, and the fetches that have completed, in order, each with the index of its check.\<close>

record executor =
  ex_futures :: "check_future list"
  ex_fetched :: "(nat \<times> string) list"

definition start_all :: "'x http_codec_scheme \<Rightarrow> async_check list \<Rightarrow> executor" where
  "start_all cd checks = \<lparr> ex_futures = map (start_check cd) checks, ex_fetched = [] \<rparr>"

fun poll :: "'x http_codec_scheme \<Rightarrow> async_check list \<Rightarrow> nat \<times> bool \<Rightarrow> executor \<Rightarrow> executor" where
  "poll cd checks (i, ready) ex =
     (if i < length checks \<and> ready then
        (case ex_futures ex ! i of
           Awaiting body all url rest failures \<Rightarrow>
             ex\<lparr> ex_futures := (ex_futures ex)[i := resume_check cd (checks ! i) body all url rest failures
                   (check_fetcher (checks ! i) (awaited_request body url))],
                 ex_fetched := ex_fetched ex @ [(i, url)] \<rparr>
         | Finished _ \<Rightarrow> ex)
      else ex)"

definition run_schedule :: "'x http_codec_scheme \<Rightarrow> async_check list \<Rightarrow> (nat \<times> bool) list \<Rightarrow> executor" where
  "run_schedule cd checks schedule = fold (poll cd checks) schedule (start_all cd checks)"

definition fetched_by :: "nat \<Rightarrow> executor \<Rightarrow> string list" where
  "fetched_by i ex = map snd (filter (\<lambda>(j, _). j = i) (ex_fetched ex))"

section \<open>The synchronous check of the same certificate\<close>

definition sync_crl :: "async_http_crl_fetcher \<Rightarrow> http_crl_fetcher" where
  "sync_crl f = http_crl_fetcher_new (ac_fetcher f) (ac_verifier f) (ac_now_unix f)"

definition sync_ocsp :: "async_http_ocsp_fetcher \<Rightarrow> http_ocsp_fetcher" where
  "sync_ocsp f = with_hash_alg (http_ocsp_fetcher_new (ao_fetcher f) (ao_verifier f) (ao_now_unix f)) (ao_hash_alg f)"

fun sync_check :: "'x http_codec_scheme \<Rightarrow> async_check \<Rightarrow> unit revocation_result" where
  "sync_check cd (Crl_check f cert iss) = http_crl_check cd (sync_crl f) cert iss"
| "sync_check cd (Ocsp_check f cert iss) = http_ocsp_check cd (sync_ocsp f) cert iss"

text \<open>The URLs it fetches: those of the certificate up to the first that yields a checker.\<close>

fun through_first :: "('a \<Rightarrow> bool) \<Rightarrow> 'a list \<Rightarrow> 'a list" where
  "through_first p [] = []"
| "through_first p (x # xs) = x # (if p x then [] else through_first p xs)"

fun sync_requests :: "'x http_codec_scheme \<Rightarrow> async_check \<Rightarrow> string list" where
  "sync_requests cd (Crl_check f cert iss) =
     (case extract_cdp_http_urls cd cert of
        Inl _ \<Rightarrow> []
      | Inr urls \<Rightarrow> through_first (\<lambda>url. is_ok (crl_attempt cd (sync_crl f) url)) urls)"
| "sync_requests cd (Ocsp_check f cert iss) =
     (case (build_ocsp_request cd cert iss (ao_hash_alg f), extract_aia_http_urls cd cert) of
        (Inr req, Inr aia) \<Rightarrow> through_first (\<lambda>url. is_ok (ocsp_attempt cd (sync_ocsp f) (orb_body req) url)) (aia_ocsp aia)
      | _ \<Rightarrow> [])"

section \<open>A future in step with the synchronous loop\<close>

fun usable :: "'x http_codec_scheme \<Rightarrow> async_check \<Rightarrow> bytes option \<Rightarrow> string \<Rightarrow> bool" where
  "usable cd (Crl_check f cert iss) body = (\<lambda>url. is_ok (crl_attempt cd (sync_crl f) url))"
| "usable cd (Ocsp_check f cert iss) body = (\<lambda>url. is_ok (ocsp_attempt cd (sync_ocsp f) (the body) url))"

fun sync_loop ::
  "'x http_codec_scheme \<Rightarrow> async_check \<Rightarrow> bytes option \<Rightarrow> string list \<Rightarrow> string list \<Rightarrow> string list \<Rightarrow> unit revocation_result"
where
  "sync_loop cd (Crl_check f cert iss) body all urls failures = http_crl_loop cd (sync_crl f) cert iss all urls failures"
| "sync_loop cd (Ocsp_check f cert iss) body all urls failures =
     http_ocsp_loop cd (sync_ocsp f) cert iss (the body) all urls failures"

fun method_fits :: "async_check \<Rightarrow> bytes option \<Rightarrow> bool" where
  "method_fits (Crl_check _ _ _) body \<longleftrightarrow> body = None"
| "method_fits (Ocsp_check _ _ _) body \<longleftrightarrow> body \<noteq> None"

fun in_step :: "'x http_codec_scheme \<Rightarrow> async_check \<Rightarrow> string list \<Rightarrow> check_future \<Rightarrow> bool" where
  "in_step cd chk fetched (Finished v) \<longleftrightarrow> v = sync_check cd chk \<and> fetched = sync_requests cd chk"
| "in_step cd chk fetched (Awaiting body all url rest failures) \<longleftrightarrow>
     method_fits chk body \<and> sync_loop cd chk body all (url # rest) failures = sync_check cd chk \<and>
     fetched @ through_first (usable cd chk body) (url # rest) = sync_requests cd chk"

lemma sync_fields [simp]:
  "hc_fetcher (sync_crl f) = ac_fetcher f" "hc_verifier (sync_crl f) = ac_verifier f"
  "hc_now_unix (sync_crl f) = ac_now_unix f" "ho_fetcher (sync_ocsp g) = ao_fetcher g"
  "ho_verifier (sync_ocsp g) = ao_verifier g" "ho_now_unix (sync_ocsp g) = ao_now_unix g"
  "ho_hash_alg (sync_ocsp g) = ao_hash_alg g"
  by (simp_all add: sync_crl_def sync_ocsp_def http_crl_fetcher_new_def http_ocsp_fetcher_new_def with_hash_alg_def)

lemma next_url_in_step:
  assumes "method_fits chk body" "sync_loop cd chk body all urls failures = sync_check cd chk"
    "fetched @ through_first (usable cd chk body) urls = sync_requests cd chk"
  shows "in_step cd chk fetched (next_url body all urls failures)"
  using assms by (cases urls; cases chk) auto

lemma start_in_step: "in_step cd chk [] (start_check cd chk)"
proof (cases chk)
  case (Crl_check f cert iss)
  show ?thesis
  proof (cases "extract_cdp_http_urls cd cert")
    case (Inr urls)
    then show ?thesis
      using next_url_in_step [of chk None cd urls urls "[]" "[]"]
      by (auto simp: Crl_check async_crl_start_def http_crl_check_def)
  qed (simp add: Crl_check async_crl_start_def http_crl_check_def)
next
  case (Ocsp_check f cert iss)
  show ?thesis
  proof (cases "build_ocsp_request cd cert iss (ao_hash_alg f)")
    case req: (Inr req)
    show ?thesis
    proof (cases "extract_aia_http_urls cd cert")
      case (Inr aia)
      then show ?thesis
        using next_url_in_step [of chk "Some (orb_body req)" cd "aia_ocsp aia" "aia_ocsp aia" "[]" "[]"]
        by (auto simp: Ocsp_check req async_ocsp_start_def http_ocsp_check_def)
    qed (simp add: Ocsp_check req async_ocsp_start_def http_ocsp_check_def)
  qed (simp add: Ocsp_check async_ocsp_start_def http_ocsp_check_def)
qed

lemma resume_in_step:
  assumes "in_step cd chk fetched (Awaiting body all url rest failures)"
  shows "in_step cd chk (fetched @ [url])
    (resume_check cd chk body all url rest failures (check_fetcher chk (awaited_request body url)))"
proof (cases chk)
  case (Crl_check f cert iss)
  have b: "body = None" using assms by (simp add: Crl_check)
  show ?thesis
  proof (cases "ac_fetcher f (fetch_request_get url)")
    case (Inl e)
    then show ?thesis
      using assms next_url_in_step [of chk None cd all rest "failures @ [url @ '': '' @ display_fetch_error e]" "fetched @ [url]"]
      by (simp add: Crl_check b async_crl_resume_def awaited_request_def crl_attempt_def is_ok_def)
  next
    case (Inr resp)
    show ?thesis
    proof (cases "crl_checker_new cd (rs_bytes resp) (ac_now_unix f) (ac_verifier f)")
      case err: (Inl e)
      then show ?thesis
        using assms Inr next_url_in_step [of chk None cd all rest
          "failures @ [url @ '': CRL parse: '' @ display_revocation_error (show_serial_number cd) e]" "fetched @ [url]"]
        by (simp add: Crl_check b async_crl_resume_def awaited_request_def crl_attempt_def is_ok_def)
    next
      case (Inr ck)
      with \<open>ac_fetcher f (fetch_request_get url) = Inr resp\<close> show ?thesis
        using assms by (simp add: Crl_check b async_crl_resume_def awaited_request_def crl_attempt_def is_ok_def)
    qed
  qed
next
  case (Ocsp_check f cert iss)
  obtain req where b: "body = Some req" using assms by (auto simp: Ocsp_check)
  show ?thesis
  proof (cases "ao_fetcher f (fetch_request_post url req OCSP_REQUEST_CT)")
    case (Inl e)
    then show ?thesis
      using assms next_url_in_step [of chk body cd all rest "failures @ [url @ '': '' @ display_fetch_error e]" "fetched @ [url]"]
      by (simp add: Ocsp_check b async_ocsp_resume_def awaited_request_def ocsp_attempt_def is_ok_def)
  next
    case (Inr resp)
    show ?thesis
    proof (cases "ocsp_checker_new cd (rs_bytes resp) (ao_now_unix f) (ao_verifier f)")
      case err: (Inl e)
      then show ?thesis
        using assms Inr next_url_in_step [of chk body cd all rest
          "failures @ [url @ '': OCSP parse: '' @ display_revocation_error (show_serial_number cd) e]" "fetched @ [url]"]
        by (simp add: Ocsp_check b async_ocsp_resume_def awaited_request_def ocsp_attempt_def is_ok_def)
    next
      case (Inr oc)
      with \<open>ao_fetcher f (fetch_request_post url req OCSP_REQUEST_CT) = Inr resp\<close> show ?thesis
        using assms by (simp add: Ocsp_check b async_ocsp_resume_def awaited_request_def ocsp_attempt_def is_ok_def)
    qed
  qed
qed

section \<open>Every schedule\<close>

fun suspended :: "check_future \<Rightarrow> bool" where
  "suspended (Awaiting _ _ _ _ _) = True"
| "suspended (Finished _) = False"

definition on_schedule ::
  "'x http_codec_scheme \<Rightarrow> async_check list \<Rightarrow> (nat \<times> bool) list \<Rightarrow> executor \<Rightarrow> nat \<Rightarrow> bool" where
  "on_schedule cd checks schedule ex i \<longleftrightarrow>
     in_step cd (checks ! i) (fetched_by i ex) (ex_futures ex ! i) \<and>
     (suspended (ex_futures ex ! i) \<longrightarrow> length (fetched_by i ex) = count_list schedule (i, True))"

declare poll.simps [simp del]

lemma count_list_snoc: "count_list (xs @ [x]) y = count_list xs y + (if x = y then 1 else 0)"
  by (induction xs) auto

lemma poll_on_schedule:
  assumes len: "length (ex_futures ex) = length checks"
    and inv: "on_schedule cd checks schedule ex i" and i: "i < length checks"
  shows "on_schedule cd checks (schedule @ [(j, ready)]) (poll cd checks (j, ready) ex) i"
proof (cases "j < length checks \<and> ready \<and> suspended (ex_futures ex ! j)")
  case False
  then have "poll cd checks (j, ready) ex = ex" by (cases "ex_futures ex ! j") (auto simp: poll.simps)
  moreover have "suspended (ex_futures ex ! i) \<Longrightarrow> (j, ready) \<noteq> (i, True)" using False i by auto
  ultimately show ?thesis using inv by (auto simp: on_schedule_def count_list_snoc)
next
  case True
  then obtain body all url rest failures where f: "ex_futures ex ! j = Awaiting body all url rest failures"
    by (cases "ex_futures ex ! j") auto
  let ?f = "resume_check cd (checks ! j) body all url rest failures (check_fetcher (checks ! j) (awaited_request body url))"
  have p: "poll cd checks (j, ready) ex =
      ex\<lparr> ex_futures := (ex_futures ex)[j := ?f], ex_fetched := ex_fetched ex @ [(j, url)] \<rparr>"
    using True f by (simp add: poll.simps)
  show ?thesis
  proof (cases "j = i")
    case same: True
    have "in_step cd (checks ! i) (fetched_by i ex @ [url]) ?f"
      using resume_in_step [of cd "checks ! i" "fetched_by i ex" body all url rest failures] inv
      unfolding on_schedule_def f [unfolded same] same by blast
    then show ?thesis
      using inv f same True i len unfolding p by (auto simp: on_schedule_def fetched_by_def count_list_snoc)
  next
    case False
    then show ?thesis using inv len unfolding p by (auto simp: on_schedule_def fetched_by_def count_list_snoc)
  qed
qed

lemma poll_length [simp]: "length (ex_futures (poll cd checks p ex)) = length (ex_futures ex)"
  by (cases p) (auto simp: poll.simps split: check_future.split)

lemma run_schedule_snoc: "run_schedule cd checks (schedule @ [p]) = poll cd checks p (run_schedule cd checks schedule)"
  by (simp add: run_schedule_def)

lemma run_schedule_length: "length (ex_futures (run_schedule cd checks schedule)) = length checks"
  by (induction schedule rule: rev_induct) (simp_all add: run_schedule_snoc, simp add: run_schedule_def start_all_def)

lemma run_on_schedule:
  assumes "i < length checks"
  shows "on_schedule cd checks schedule (run_schedule cd checks schedule) i"
proof (induction schedule rule: rev_induct)
  case Nil
  then show ?case
    using assms by (simp add: run_schedule_def start_all_def on_schedule_def fetched_by_def start_in_step)
next
  case (snoc p schedule)
  then show ?case
    using poll_on_schedule [OF run_schedule_length snoc assms] unfolding run_schedule_snoc by (cases p) blast
qed

text \<open>
  C39. The asynchronous checks refine the synchronous ones. Whatever the order in which an executor polls the futures
  of any checks, over CRLs or OCSP, and however often it finds a fetch pending: a check finishes after as many
  completed fetches as the synchronous check of the same certificate makes, with the verdict of that check, having
  fetched the same URLs in the same order and none after the first usable one.
\<close>

theorem async_checks_refine_sync:
  assumes "i < length checks" "length (sync_requests cd (checks ! i)) \<le> count_list schedule (i, True)"
  shows "ex_futures (run_schedule cd checks schedule) ! i = Finished (sync_check cd (checks ! i)) \<and>
    fetched_by i (run_schedule cd checks schedule) = sync_requests cd (checks ! i)"
proof -
  let ?ex = "run_schedule cd checks schedule"
  have inv: "on_schedule cd checks schedule ?ex i" by (rule run_on_schedule [OF assms(1)])
  show ?thesis
  proof (cases "ex_futures ?ex ! i")
    case (Finished v)
    then show ?thesis using inv by (simp add: on_schedule_def)
  next
    case (Awaiting body all url rest failures)
    then have "length (sync_requests cd (checks ! i)) > length (fetched_by i ?ex)"
      using inv by (auto simp: on_schedule_def dest: arg_cong [where f = length])
    then show ?thesis using inv assms(2) Awaiting by (simp add: on_schedule_def)
  qed
qed

theorem async_checks_refine_sync_witness:
  "let f = async_http_crl_fetcher_new (\<lambda>_. Ok \<lparr> rs_bytes = [2], rs_content_type = None \<rparr>) ex_verifier 150;
       g = async_http_crl_fetcher_new (\<lambda>_. Err (FetchHttpStatus 503)) ex_verifier 150;
       ex = run_schedule ex_http_codec [Crl_check g ex_cdp_cert (ex_ca 1 0 []), Crl_check f ex_cdp_cert (ex_ca 1 0 [])]
              [(1, False), (0, True), (1, True)]
   in ex_futures ex ! 1 = Finished (sync_check ex_http_codec (Crl_check f ex_cdp_cert (ex_ca 1 0 []))) \<and>
      fetched_by 1 ex = [''http://a'']"
proof -
  let ?f = "async_http_crl_fetcher_new (\<lambda>_. Ok \<lparr> rs_bytes = [2], rs_content_type = None \<rparr>) ex_verifier 150"
  let ?g = "async_http_crl_fetcher_new (\<lambda>_. Err (FetchHttpStatus 503)) ex_verifier 150"
  let ?checks = "[Crl_check ?g ex_cdp_cert (ex_ca 1 0 []), Crl_check ?f ex_cdp_cert (ex_ca 1 0 [])]"
  have "sync_requests ex_http_codec (?checks ! 1) = [''http://a'']" by code_simp
  then show ?thesis
    using async_checks_refine_sync [of 1 ?checks ex_http_codec "[(1, False), (0, True), (1, True)]"]
    by (simp add: Let_def)
qed

text \<open>Before that, a check awaits the URL the synchronous check would fetch next.\<close>

lemma async_check_next_request:
  assumes "i < length checks" "ex_futures (run_schedule cd checks schedule) ! i = Awaiting body all url rest failures"
  shows "\<exists>later. sync_requests cd (checks ! i) = fetched_by i (run_schedule cd checks schedule) @ url # later"
  using run_on_schedule [OF assms(1), of cd schedule] assms(2) by (auto simp: on_schedule_def intro: sym)

end
