(* ===== verification/SerdeDer.thy ===== *)
theory SerdeDer
  imports PathTypes
begin

text \<open>
  \<open>pkix-path/src/serde_der.rs\<close>: DER values in a serialised document, as base64 where the format is for humans and as
  bytes where it is binary; one value, an optional value, a list, an optional list. A document is a value of serde's
  data model. The DER and base64 codecs are parameters.
\<close>

section \<open>The data model of serde\<close>

datatype serde_value =
    SStr string
  | SBytes bytes
  | SU8 u8
  | SSeq "serde_value list"
  | SNone
  | SSome serde_value

text \<open>
  A format says whether it is human readable, and whether it hands bytes to a reader that asks for a sequence:
  some binary formats do not distinguish the two, in others that is an error.
\<close>

record serde_format =
  human_readable :: bool
  bytes_as_seq :: bool

record 'a serde_codec =
  sd_encode :: "'a \<Rightarrow> der_error + bytes"
  sd_decode :: "bytes \<Rightarrow> der_error + 'a"
  sd_base64 :: "bytes \<Rightarrow> string"
  sd_unbase64 :: "string \<Rightarrow> string + bytes"

text \<open>Errors are what \<open>Error::custom\<close> makes of a message; \<open>[u8]\<close> and \<open>Vec<u8>\<close> serialise as sequences of numbers.\<close>

definition custom_der :: "der_error + 'b \<Rightarrow> string + 'b" where
  "custom_der r = map_err display_der_error r"

definition serialize_u8_slice :: "bytes \<Rightarrow> serde_value" where
  "serialize_u8_slice bs = SSeq (map SU8 bs)"

fun deserialize_string :: "serde_value \<Rightarrow> string + string" where
  "deserialize_string (SStr s) = Ok s"
| "deserialize_string _ = Err ''invalid type, expected a string''"

fun deserialize_u8 :: "serde_value \<Rightarrow> string + u8" where
  "deserialize_u8 (SU8 b) = Ok b"
| "deserialize_u8 _ = Err ''invalid type, expected u8''"

fun deserialize_seq :: "(serde_value \<Rightarrow> string + 'b) \<Rightarrow> serde_value list \<Rightarrow> string + 'b list" where
  "deserialize_seq f [] = Ok []"
| "deserialize_seq f (v # vs) = and_then (f v) (\<lambda>x. and_then (deserialize_seq f vs) (\<lambda>xs. Ok (x # xs)))"

fun deserialize_vec :: "(serde_value \<Rightarrow> string + 'b) \<Rightarrow> serde_value \<Rightarrow> string + 'b list" where
  "deserialize_vec f (SSeq vs) = deserialize_seq f vs"
| "deserialize_vec f _ = Err ''invalid type, expected a sequence''"

text \<open>\<open>Vec::<u8>::deserialize\<close> asks the format for a sequence.\<close>

fun deserialize_u8_vec :: "serde_format \<Rightarrow> serde_value \<Rightarrow> string + bytes" where
  "deserialize_u8_vec fmt (SBytes bs) =
     (if bytes_as_seq fmt then Ok bs else Err ''invalid type: byte array, expected a sequence'')"
| "deserialize_u8_vec fmt v = deserialize_vec deserialize_u8 v"

fun deserialize_option :: "(serde_value \<Rightarrow> string + 'b) \<Rightarrow> serde_value \<Rightarrow> string + 'b option" where
  "deserialize_option f SNone = Ok None"
| "deserialize_option f (SSome v) = map_ok Some (f v)"
| "deserialize_option f _ = Err ''invalid type, expected an option''"

section \<open>One value\<close>

definition serde_serialize :: "'a serde_codec \<Rightarrow> serde_format \<Rightarrow> 'a \<Rightarrow> string + serde_value" where
  "serde_serialize cd fmt v =
     and_then (custom_der (sd_encode cd v)) (\<lambda>der_bytes.
       if human_readable fmt then Ok (SStr (sd_base64 cd der_bytes)) else Ok (SBytes der_bytes))"

definition serde_deserialize :: "'a serde_codec \<Rightarrow> serde_format \<Rightarrow> serde_value \<Rightarrow> string + 'a" where
  "serde_deserialize cd fmt doc =
     and_then (if human_readable fmt then and_then (deserialize_string doc) (sd_unbase64 cd)
               else deserialize_u8_vec fmt doc)
       (\<lambda>der_bytes. custom_der (sd_decode cd der_bytes))"

section \<open>An optional value\<close>

definition option_serialize :: "'a serde_codec \<Rightarrow> serde_format \<Rightarrow> 'a option \<Rightarrow> string + serde_value" where
  "option_serialize cd fmt v =
     (case v of
        Some x \<Rightarrow>
          and_then (custom_der (sd_encode cd x)) (\<lambda>der_bytes.
            if human_readable fmt then Ok (SSome (SStr (sd_base64 cd der_bytes)))
            else Ok (SSome (serialize_u8_slice der_bytes)))
      | None \<Rightarrow> Ok SNone)"

definition option_deserialize :: "'a serde_codec \<Rightarrow> serde_format \<Rightarrow> serde_value \<Rightarrow> string + 'a option" where
  "option_deserialize cd fmt doc =
     (if human_readable fmt then
        and_then (deserialize_option deserialize_string doc) (\<lambda>opt.
          case opt of
            Some s \<Rightarrow>
              and_then (sd_unbase64 cd s) (\<lambda>der_bytes.
              and_then (custom_der (sd_decode cd der_bytes)) (\<lambda>v. Ok (Some v)))
          | None \<Rightarrow> Ok None)
      else
        and_then (deserialize_option (deserialize_u8_vec fmt) doc) (\<lambda>opt.
          case opt of
            Some bs \<Rightarrow> and_then (custom_der (sd_decode cd bs)) (\<lambda>v. Ok (Some v))
          | None \<Rightarrow> Ok None))"

section \<open>A list\<close>

fun serialize_elements :: "'a serde_codec \<Rightarrow> bool \<Rightarrow> 'a list \<Rightarrow> string + serde_value list" where
  "serialize_elements cd is_hr [] = Ok []"
| "serialize_elements cd is_hr (v # vs) =
     and_then (custom_der (sd_encode cd v)) (\<lambda>der_bytes.
     and_then (serialize_elements cd is_hr vs) (\<lambda>elements.
       Ok ((if is_hr then SStr (sd_base64 cd der_bytes) else serialize_u8_slice der_bytes) # elements)))"

definition vec_serialize :: "'a serde_codec \<Rightarrow> serde_format \<Rightarrow> 'a list \<Rightarrow> string + serde_value" where
  "vec_serialize cd fmt vs = map_ok SSeq (serialize_elements cd (human_readable fmt) vs)"

fun decode_strings :: "'a serde_codec \<Rightarrow> string list \<Rightarrow> string + 'a list" where
  "decode_strings cd [] = Ok []"
| "decode_strings cd (s # ss) =
     and_then (sd_unbase64 cd s) (\<lambda>der_bytes.
     and_then (custom_der (sd_decode cd der_bytes)) (\<lambda>v.
     and_then (decode_strings cd ss) (\<lambda>vs. Ok (v # vs))))"

fun decode_byte_vecs :: "'a serde_codec \<Rightarrow> bytes list \<Rightarrow> string + 'a list" where
  "decode_byte_vecs cd [] = Ok []"
| "decode_byte_vecs cd (bs # bss) =
     and_then (custom_der (sd_decode cd bs)) (\<lambda>v.
     and_then (decode_byte_vecs cd bss) (\<lambda>vs. Ok (v # vs)))"

definition vec_deserialize :: "'a serde_codec \<Rightarrow> serde_format \<Rightarrow> serde_value \<Rightarrow> string + 'a list" where
  "vec_deserialize cd fmt doc =
     (if human_readable fmt then and_then (deserialize_vec deserialize_string doc) (decode_strings cd)
      else and_then (deserialize_vec (deserialize_u8_vec fmt) doc) (decode_byte_vecs cd))"

section \<open>An optional list\<close>

definition option_vec_serialize :: "'a serde_codec \<Rightarrow> serde_format \<Rightarrow> 'a list option \<Rightarrow> string + serde_value" where
  "option_vec_serialize cd fmt v =
     (case v of
        Some vs \<Rightarrow> map_ok (\<lambda>elements. SSome (SSeq elements)) (serialize_elements cd (human_readable fmt) vs)
      | None \<Rightarrow> Ok SNone)"

definition option_vec_deserialize :: "'a serde_codec \<Rightarrow> serde_format \<Rightarrow> serde_value \<Rightarrow> string + 'a list option" where
  "option_vec_deserialize cd fmt doc =
     (if human_readable fmt then
        and_then (deserialize_option (deserialize_vec deserialize_string) doc) (\<lambda>opt.
          case opt of
            Some strs \<Rightarrow> and_then (decode_strings cd strs) (\<lambda>vs. Ok (Some vs))
          | None \<Rightarrow> Ok None)
      else
        and_then (deserialize_option (deserialize_vec (deserialize_u8_vec fmt)) doc) (\<lambda>opt.
          case opt of
            Some byte_vecs \<Rightarrow> and_then (decode_byte_vecs cd byte_vecs) (\<lambda>vs. Ok (Some vs))
          | None \<Rightarrow> Ok None))"

section \<open>Round trips\<close>

text \<open>DER is canonical for these values, and base64 is read back.\<close>

definition reads_back :: "'a serde_codec \<Rightarrow> 'a \<Rightarrow> bool" where
  "reads_back cd v \<longleftrightarrow>
     (case sd_encode cd v of
        Inr bs \<Rightarrow> sd_decode cd bs = Ok v \<and> sd_unbase64 cd (sd_base64 cd bs) = Ok bs
      | Inl _ \<Rightarrow> False)"

lemma u8_slice_read_back [simp]:
  "deserialize_u8_vec fmt (serialize_u8_slice bs) = Ok bs"
proof -
  have "deserialize_seq deserialize_u8 (map SU8 bs) = Ok bs" by (induction bs) simp_all
  then show ?thesis by (simp add: serialize_u8_slice_def)
qed

lemma reads_backE:
  assumes "reads_back cd v"
  obtains bs where "sd_encode cd v = Ok bs" "sd_decode cd bs = Ok v" "sd_unbase64 cd (sd_base64 cd bs) = Ok bs"
  using assms by (auto simp: reads_back_def split: sum.splits)

lemma strings_read_back:
  assumes "\<forall>v \<in> set vs. reads_back cd v"
  shows "\<exists>es ss. serialize_elements cd True vs = Ok es \<and> deserialize_seq deserialize_string es = Ok ss \<and>
    decode_strings cd ss = Ok vs"
  using assms
proof (induction vs)
  case (Cons v vs)
  from Cons.prems obtain bs where
    "sd_encode cd v = Ok bs" "sd_decode cd bs = Ok v" "sd_unbase64 cd (sd_base64 cd bs) = Ok bs"
    by (auto elim: reads_backE)
  with Cons show ?case by (auto simp: custom_der_def)
qed simp

lemma byte_vecs_read_back:
  assumes "\<forall>v \<in> set vs. reads_back cd v"
  shows "\<exists>es bss. serialize_elements cd False vs = Ok es \<and> deserialize_seq (deserialize_u8_vec fmt) es = Ok bss \<and>
    decode_byte_vecs cd bss = Ok vs"
  using assms
proof (induction vs)
  case (Cons v vs)
  from Cons.prems obtain bs where "sd_encode cd v = Ok bs" "sd_decode cd bs = Ok v" by (auto elim: reads_backE)
  with Cons show ?case by (auto simp: custom_der_def)
qed simp

lemma vec_round_trip:
  assumes "\<forall>v \<in> set vs. reads_back cd v"
  shows "and_then (vec_serialize cd fmt vs) (vec_deserialize cd fmt) = Ok vs"
  using strings_read_back [OF assms] byte_vecs_read_back [OF assms, of fmt]
  by (cases "human_readable fmt") (auto simp: vec_serialize_def vec_deserialize_def)

lemma option_vec_round_trip:
  assumes "\<forall>v \<in> set (case ov of None \<Rightarrow> [] | Some vs \<Rightarrow> vs). reads_back cd v"
  shows "and_then (option_vec_serialize cd fmt ov) (option_vec_deserialize cd fmt) = Ok ov"
proof (cases ov)
  case (Some vs)
  then have "\<forall>v \<in> set vs. reads_back cd v" using assms by simp
  from strings_read_back [OF this] byte_vecs_read_back [OF this, of fmt] show ?thesis
    using Some by (cases "human_readable fmt") (auto simp: option_vec_serialize_def option_vec_deserialize_def)
qed (simp add: option_vec_serialize_def option_vec_deserialize_def)

lemma option_round_trip:
  assumes "\<forall>v \<in> set_option opt. reads_back cd v"
  shows "and_then (option_serialize cd fmt opt) (option_deserialize cd fmt) = Ok opt"
proof (cases opt)
  case (Some v)
  then obtain bs where "sd_encode cd v = Ok bs" "sd_decode cd bs = Ok v" "sd_unbase64 cd (sd_base64 cd bs) = Ok bs"
    using assms by (auto elim: reads_backE)
  then show ?thesis
    using Some by (simp add: option_serialize_def option_deserialize_def custom_der_def)
qed (simp add: option_serialize_def option_deserialize_def)

text \<open>
  C27. DER values in a document are read back: an optional value, a list and an optional list from every format. A
  value serialised alone is read back exactly when the format is human readable or hands bytes to a reader that asks
  for a sequence; in any other format it is lost.
\<close>

theorem serde_round_trip:
  assumes "\<forall>v \<in> set (x # vs). reads_back cd v"
  shows "(and_then (serde_serialize cd fmt x) (serde_deserialize cd fmt) = Ok x \<longleftrightarrow>
      human_readable fmt \<or> bytes_as_seq fmt) \<and>
    and_then (option_serialize cd fmt (Some x)) (option_deserialize cd fmt) = Ok (Some x) \<and>
    and_then (vec_serialize cd fmt (x # vs)) (vec_deserialize cd fmt) = Ok (x # vs) \<and>
    and_then (option_vec_serialize cd fmt (Some (x # vs))) (option_vec_deserialize cd fmt) = Ok (Some (x # vs))"
proof -
  have x: "reads_back cd x" using assms by simp
  then obtain bs where "sd_encode cd x = Ok bs" "sd_decode cd bs = Ok x" "sd_unbase64 cd (sd_base64 cd bs) = Ok bs"
    by (rule reads_backE)
  then have "and_then (serde_serialize cd fmt x) (serde_deserialize cd fmt) = Ok x \<longleftrightarrow> human_readable fmt \<or> bytes_as_seq fmt"
    by (simp add: serde_serialize_def serde_deserialize_def custom_der_def)
  then show ?thesis
    using option_round_trip [of "Some x" cd fmt] vec_round_trip [OF assms, of fmt]
      option_vec_round_trip [of "Some (x # vs)" cd fmt] x assms by simp
qed

text \<open>For the example: numbers as DER integers of one octet, and each byte as a character in place of base64.\<close>

definition ex_serde_codec :: "nat serde_codec" where
  "ex_serde_codec =
     \<lparr> sd_encode = (\<lambda>n. Ok [2, 1, of_nat n]), sd_decode = (\<lambda>bs. Ok (unat (last bs))),
       sd_base64 = (\<lambda>bs. map (\<lambda>b. char_of (unat b)) bs), sd_unbase64 = (\<lambda>s. Ok (map (\<lambda>c. of_nat (of_char c)) s)) \<rparr>"

theorem serde_round_trip_witness:
  "and_then (vec_serialize ex_serde_codec \<lparr> human_readable = True, bytes_as_seq = False \<rparr> [5, 7])
     (vec_deserialize ex_serde_codec \<lparr> human_readable = True, bytes_as_seq = False \<rparr>) = Ok [5, 7] \<and>
   and_then (serde_serialize ex_serde_codec \<lparr> human_readable = False, bytes_as_seq = False \<rparr> 5)
     (serde_deserialize ex_serde_codec \<lparr> human_readable = False, bytes_as_seq = False \<rparr>) \<noteq> Ok 5"
proof -
  have "\<forall>v \<in> set [5, 7]. reads_back ex_serde_codec v" by code_simp
  from serde_round_trip [OF this, of "\<lparr> human_readable = True, bytes_as_seq = False \<rparr>"]
    serde_round_trip [OF this, of "\<lparr> human_readable = False, bytes_as_seq = False \<rparr>"]
  show ?thesis by simp
qed

end
