(* ===== verification/OscalWf.thy ===== *)
theory OscalWf
  imports OscalParse
begin

text \<open>
  What the assessment results \<open>pkix-lint\<close> writes say of the report they are written from: the mapping that the
  module documentation of \<open>oscal/emit.rs\<close> tabulates, with observations shared by the findings of the same evidence,
  read back from the document.
\<close>

section \<open>Reading a document\<close>

text \<open>The items of an array field, the value under a path of fields, and the value of a property.\<close>

definition json_items :: "string \<Rightarrow> json \<Rightarrow> json list" where
  "json_items k v = (case json_get k v of Some (JArray xs) \<Rightarrow> xs | _ \<Rightarrow> [])"

fun json_at :: "string list \<Rightarrow> json \<Rightarrow> json option" where
  "json_at [] v = Some v"
| "json_at (k # ks) v = Option.bind (json_get k v) (json_at ks)"

definition prop_of :: "json \<Rightarrow> string \<Rightarrow> string option" where
  "prop_of v name = find_prop_value (Option.bind (json_get ''props'' v) as_array) name"

definition first_result :: "json \<Rightarrow> json" where
  "first_result doc = hd (json_items ''results'' (unwrap_or JNull (json_get ''assessment-results'' doc)))"

text \<open>The evidence an observation is about, decoded from its properties.\<close>

definition observed_evidence :: "json \<Rightarrow> evidence_key" where
  "observed_evidence v =
     \<lparr> ek_cert_sha256 = Option.bind (prop_of v ''pkix-lint.cert-sha256'') hex_decode,
       ek_cert_index = Option.bind (prop_of v ''pkix-lint.cert-index'') (digits_value 10 0) \<rparr>"

text \<open>The observations a finding refers to.\<close>

definition related_observations :: "json list \<Rightarrow> json \<Rightarrow> json list" where
  "related_observations observations v =
     filter (\<lambda>ob. json_get ''uuid'' ob \<in> set (map (json_get ''observation-uuid'') (json_items ''related-observations'' v)))
       observations"

section \<open>The mapping of the documentation\<close>

fun documented_state :: "lint_result \<Rightarrow> string" where
  "documented_state (LintWarn _) = ''not-satisfied''"
| "documented_state (LintError _) = ''not-satisfied''"
| "documented_state (LintFatal _) = ''not-satisfied''"
| "documented_state LintPass = ''satisfied''"
| "documented_state NotApplicable = ''satisfied''"

definition describes_finding :: "finding \<Rightarrow> json \<Rightarrow> bool" where
  "describes_finding f v \<longleftrightarrow>
     json_at [''target'', ''target-id''] v = Some (JString (fd_lint_id f)) \<and>
     json_at [''target'', ''status'', ''state''] v = Some (JString (documented_state (fd_result f))) \<and>
     prop_of v ''pkix-lint.lint-id'' = Some (fd_lint_id f) \<and>
     prop_of v ''pkix-lint.citation'' = Some (fd_citation f) \<and>
     prop_of v ''pkix-lint.severity'' = Some (lint_result_severity_label (fd_result f))"

definition describes_deviation :: "deviated_finding \<Rightarrow> json \<Rightarrow> bool" where
  "describes_deviation df v \<longleftrightarrow>
     json_at [''status''] v = Some (JString ''deviation-approved'') \<and>
     json_at [''description''] v = Some (JString (df_justification df)) \<and>
     prop_of v ''pkix-lint.lint-id'' = Some (df_lint_id df) \<and>
     prop_of v ''pkix-lint.deviation-id'' = Some (df_deviation_id df) \<and>
     map (json_get ''href'') (json_items ''links'' v) =
       (case df_evidence_uri df of None \<Rightarrow> [] | Some uri \<Rightarrow> [Some (JString uri)])"

text \<open>The distinct evidence of a list of findings, in the order of its first appearance.\<close>

definition distinct_evidence :: "finding list \<Rightarrow> evidence_key list" where
  "distinct_evidence fs = rev (remdups (rev (map from_finding fs)))"

lemma evidence_loop_distinct:
  "evidence_loop fs (rev (remdups (rev ks))) = rev (remdups (rev (ks @ map from_finding fs)))"
proof (induction fs arbitrary: ks)
  case (Cons f fs)
  show ?case using Cons.IH [of "ks @ [from_finding f]"] by (auto simp: Let_def)
qed simp

lemma evidence_index_distinct: "evidence_index_build fs = distinct_evidence fs"
  using evidence_loop_distinct [of fs "[]"] by (simp add: evidence_index_build_def distinct_evidence_def)

lemma set_distinct_evidence: "set (distinct_evidence fs) = from_finding ` set fs"
  by (simp add: distinct_evidence_def)

section \<open>The objects of a document\<close>

lemma observed_evidence_of [simp]: "observed_evidence (observation_for_evidence cd key rseed collected) = key"
  by (cases key)
    (auto simp: observed_evidence_def prop_of_def observation_for_evidence_def json_get_def Let_def hex_decode_hex
      digits_value_show_nat split: option.splits)

lemma observation_uuid_field [simp]:
  "json_get ''uuid'' (observation_for_evidence cd key rseed collected) =
     Some (JString (uuid_v8 cd NS_OBSERVATION (evidence_seed key rseed)))"
  by (simp add: observation_for_evidence_def json_get_def Let_def split: option.split)

lemma finding_references [simp]:
  "json_items ''related-observations'' (finding_for cd f rseed i obs_uuid) = [JObject [''observation-uuid'' \<mapsto> JString obs_uuid]]"
  by (simp add: finding_for_def json_items_def json_get_def Let_def)

lemma finding_described: "describes_finding f (finding_for cd f rseed i obs_uuid)"
  by (cases "fd_result f")
    (simp_all add: describes_finding_def finding_for_def prop_of_def json_get_def Let_def finding_is_finding_def)

lemma deviation_described: "describes_deviation df (risk_for cd df rseed i)"
  by (cases "df_evidence_uri df")
    (simp_all add: describes_deviation_def risk_for_def prop_of_def json_items_def json_get_def Let_def)

lemma list_all2_enumerate:
  assumes "\<And>i x. x \<in> set xs \<Longrightarrow> P x (g i x)"
  shows "list_all2 P xs (map (\<lambda>(i, x). g i x) (enumerate n xs))"
  using assms by (induction xs arbitrary: n) auto

lemma emitted_findings_described: "list_all2 describes_finding (er_findings report) (emit_findings cd report)"
  unfolding emit_findings_def by (rule list_all2_enumerate) (rule finding_described)

lemma emitted_risks_described: "list_all2 describes_deviation (er_deviated_findings report) (emit_risks cd report)"
  unfolding emit_risks_def by (rule list_all2_enumerate) (rule deviation_described)

lemma emitted_evidence: "map observed_evidence (emit_observations cd report) = distinct_evidence (er_findings report)"
  by (simp add: emit_observations_def evidence_index_distinct comp_def)

lemma emitted_references:
  "list_all2 (\<lambda>f v. from_finding f \<in> observed_evidence ` set (related_observations (emit_observations cd report) v))
     (er_findings report) (emit_findings cd report)"
  unfolding emit_findings_def
proof (rule list_all2_enumerate)
  fix i f assume "f \<in> set (er_findings report)"
  then have "from_finding f \<in> set (evidence_index_build (er_findings report))"
    by (simp add: evidence_index_distinct set_distinct_evidence)
  then show "from_finding f \<in> observed_evidence ` set (related_observations (emit_observations cd report)
      (finding_for cd f (report_seed report) i (observation_uuid cd (report_seed report) f)))"
    by (auto simp: related_observations_def emit_observations_def observation_uuid_def json_get_def [of "''observation-uuid''"]
        image_image intro!: rev_image_eqI)
qed

lemma emitted_empty [simp]:
  "emit_observations cd report = [] \<longleftrightarrow> er_findings report = []"
  "emit_findings cd report = [] \<longleftrightarrow> er_findings report = []"
  "emit_risks cd report = [] \<longleftrightarrow> er_deviated_findings report = []"
  by (auto simp: emit_observations_def emit_findings_def emit_risks_def evidence_index_distinct distinct_evidence_def
      enumerate_eq_zip)

lemma optional_fields:
  fixes cd report options
  defines "doc \<equiv> assessment_results_with_options cd report options"
  shows "json_get ''observations'' (first_result doc) =
      (if er_findings report = [] then None else Some (JArray (emit_observations cd report)))"
    and "json_get ''findings'' (first_result doc) =
      (if er_findings report = [] then None else Some (JArray (emit_findings cd report)))"
    and "json_get ''risks'' (first_result doc) =
      (if er_deviated_findings report = [] then None else Some (JArray (emit_risks cd report)))"
  by (simp_all add: doc_def assessment_results_with_options_def Let_def first_result_def json_items_def json_get_def
      unwrap_or_def set_unless_empty_def)

text \<open>Evidence of the whole path has neither digest nor index: its observation carries an empty array of properties.\<close>

lemma path_scope_observation_without_props:
  "json_get ''props'' (observation_for_evidence cd \<lparr> ek_cert_sha256 = None, ek_cert_index = None \<rparr> rseed collected) = Some (JArray [])"
  by (simp add: observation_for_evidence_def json_get_def Let_def)

text \<open>
  C40. The assessment results say of a report what the documentation tabulates. The document has its four required
  fields; observations, findings and risks are there exactly when the report has findings, findings and deviated
  findings. The evidence of the observations, decoded from their properties, is the distinct evidence of the findings
  in order of first appearance, so no two observations share theirs. The findings are those of the report in order,
  each with its lint, its citation, its severity and a state that is not satisfied exactly for a warning, an error or
  a fatal result, and each refers to an observation of the document that carries its own evidence. The risks are the
  deviated findings in order, as approved deviations with their justification and, when there is one, their evidence.
\<close>

theorem assessment_results_mapping:
  "let doc = assessment_results_with_options cd report options; items = \<lambda>k. json_items k (first_result doc) in
    dom (the (Option.bind (json_get ''assessment-results'' doc) as_object)) = {''uuid'', ''metadata'', ''import-ap'', ''results''} \<and>
    (json_get ''observations'' (first_result doc) \<noteq> None) = (er_findings report \<noteq> []) \<and>
    (json_get ''findings'' (first_result doc) \<noteq> None) = (er_findings report \<noteq> []) \<and>
    (json_get ''risks'' (first_result doc) \<noteq> None) = (er_deviated_findings report \<noteq> []) \<and>
    map observed_evidence (items ''observations'') = distinct_evidence (er_findings report) \<and>
    list_all2 describes_finding (er_findings report) (items ''findings'') \<and>
    list_all2 (\<lambda>f v. from_finding f \<in> observed_evidence ` set (related_observations (items ''observations'') v))
      (er_findings report) (items ''findings'') \<and>
    list_all2 describes_deviation (er_deviated_findings report) (items ''risks'')"
proof -
  let ?doc = "assessment_results_with_options cd report options"
  have items: "json_items ''observations'' (first_result ?doc) = emit_observations cd report"
    "json_items ''findings'' (first_result ?doc) = emit_findings cd report"
    "json_items ''risks'' (first_result ?doc) = emit_risks cd report"
    by (auto simp: json_items_def optional_fields eq_commute [of "[]"])
  have "dom (the (Option.bind (json_get ''assessment-results'' ?doc) as_object)) = {''uuid'', ''metadata'', ''import-ap'', ''results''}"
    by (auto simp: assessment_results_with_options_def Let_def json_get_def)
  then show ?thesis
    unfolding Let_def items
    using emitted_findings_described [where report = report and cd = cd] emitted_risks_described [where report = report and cd = cd]
      emitted_evidence [where report = report and cd = cd]
      emitted_references [where report = report and cd = cd]
    by (simp add: optional_fields)
qed

text \<open>Two lints on one certificate share an observation, and a finding on the whole path has one of its own.\<close>

lemma evidence_is_shared:
  fixes f g h :: finding
  assumes "from_finding f = from_finding g" "from_finding h \<noteq> from_finding f"
  shows "distinct_evidence [f, g, h] = [from_finding f, from_finding h]"
  using assms by (simp add: distinct_evidence_def)

end
