(* ===== verification/Placeholders.thy ===== *)
theory Placeholders
  imports ChainWalk
begin

text \<open>
  Two crates whose algorithms are still to come, as they are: the composite signature verifier of
  \<open>pkix-composite/src/lib.rs\<close> and the attribute certificates of \<open>pkix-ac/src/lib.rs\<close>. Both refuse everything.
\<close>

section \<open>Composite signatures\<close>

record composite_verifier =
  cv_classical :: sig_verifier
  cv_post_quantum :: sig_verifier

definition composite_verifier_new :: "sig_verifier \<Rightarrow> sig_verifier \<Rightarrow> composite_verifier" where
  "composite_verifier_new classical post_quantum = \<lparr> cv_classical = classical, cv_post_quantum = post_quantum \<rparr>"

definition composite_verify_signature :: "composite_verifier \<Rightarrow> sig_verifier" where
  "composite_verify_signature v algorithm issuer_spki message signature = Err SignatureError"

section \<open>Attribute certificates\<close>

record issuer_serial =
  is_issuer :: dname
  is_serial :: bytes

record ac_holder =
  ach_issuer_serial :: "issuer_serial option"

record attribute_certificate =
  ac_der :: bytes

datatype ac_error = AcParseError | AcSignatureInvalid | AcExpired | AaPathInvalid path_error

fun display_ac_error :: "ac_error \<Rightarrow> string" where
  "display_ac_error AcParseError = ''attribute certificate parse error''"
| "display_ac_error AcSignatureInvalid = ''attribute certificate signature invalid''"
| "display_ac_error AcExpired = ''attribute certificate validity period check failed''"
| "display_ac_error (AaPathInvalid e) = ''attribute authority path invalid: '' @ display_path_error e"

fun ac_error_source :: "ac_error \<Rightarrow> path_error option" where
  "ac_error_source (AaPathInvalid e) = Some e"
| "ac_error_source _ = None"

definition validate_attribute_cert ::
  "attribute_certificate \<Rightarrow> trust_anchor list \<Rightarrow> u64 \<Rightarrow> sig_verifier \<Rightarrow> ac_error + unit"
where
  "validate_attribute_cert ac aa_anchors now_unix verifier = Err (AaPathInvalid NoTrustedPath)"

section \<open>Neither lets anything pass\<close>

text \<open>With a composite verifier no chain validates, whatever its components accept.\<close>

lemma composite_verifier_fails_closed:
  "\<not> is_ok (validate_path cd chain anchors policy (composite_verify_signature v))"
proof
  assume "is_ok (validate_path cd chain anchors policy (composite_verify_signature v))"
  then obtain vp where "validate_path cd chain anchors policy (composite_verify_signature v) = Ok vp"
    by (auto simp: is_ok_iff)
  from validate_path_accepted [OF this] have
    "cert_valid cd (composite_verify_signature v) policy chain (anchors ! vp_anchor_index vp) 0"
    by (auto simp: path_accepted_def list_all_iff)
  then show False by (auto simp: cert_valid_def composite_verify_signature_def Let_def)
qed

end
