(* ===== verification/Spec2Isabelle.thy ===== *)
theory Spec2Isabelle
  imports Chain CtVerify Profiles RevHttp Simple TrustStore OscalProfile OscalTime ZlintContract DiffCorpus HttpClients AsyncHttp SerdeDer OscalWf Placeholders
begin

text \<open>
  A model of a workspace of Rust crates for X.509 certificates: RFC 5280 path validation, path building,
  revocation, identity binding, Certificate Transparency and certificate linting. This root theory gathers
  the components and describes them.

  \<^bold>\<open>The program and the theories.\<close> The crates form layers, and the theories follow them.

  \<^item> \<open>pkix-path/src/lib.rs\<close> validates one chain against trust anchors. \<open>X509\<close> holds the certificate data of
    the third-party parser as records, and the codec: a record of the functions the parser offers (encoders,
    extension decoders). \<open>PathTypes\<close> holds the error enumeration, anchors and the policy; \<open>Names\<close> the
    comparison of distinguished names; \<open>NameConstraints\<close> the matching of every name form and the state of
    permitted and excluded subtrees; \<open>PolicyTree\<close> the valid policy tree; \<open>PathChecks\<close> the checks of the
    inputs and of one certificate; \<open>ChainWalk\<close> the state machine \<open>chain_walk\<close> (record \<open>working_state\<close>, the
    mutable \<open>WorkingState\<close> of the code, passed from certificate to certificate by \<open>walk_cert\<close>) and the entry
    points \<open>validate_path\<close> and \<open>validate_path_with_profile\<close>; \<open>Backends\<close> the shipped signature verifiers; \<open>SerdeDer\<close> the
    serde adapters of \<open>serde_der.rs\<close>.
  \<^item> \<open>pkix-path-builder/src/lib.rs\<close> orders certificates into chains: \<open>PathBuilder\<close>, the iterator
    \<open>PathCandidates\<close> as a record of its frame stack, its \<open>next\<close> as a loop of single turns.
  \<^item> \<open>pkix-identity/src/lib.rs\<close> binds names to certificates: \<open>Identity\<close>.
  \<^item> \<open>pkix-revocation\<close> checks revocation: \<open>Revocation\<close> (\<open>lib.rs\<close>, errors and the trait), \<open>Crl\<close> (\<open>crl.rs\<close> and
    \<open>signer_discovery.rs\<close>), \<open>Ocsp\<close> (\<open>ocsp.rs\<close>).
  \<^item> \<open>pkix-aia/src/lib.rs\<close> and \<open>pkix-chain/src/aia_extract.rs\<close> fetch issuers: \<open>Aia\<close>.
  \<^item> \<open>pkix-chain/src/lib.rs\<close> composes all of these: \<open>Chain\<close>, the \<open>Verifier\<close> with its fetch loop, the
    revocation pass and the entry points for each purpose.
  \<^item> \<open>pkix-ct\<close> verifies Certificate Transparency: \<open>Sct\<close> (\<open>lib.rs\<close>, \<open>sct.rs\<close>, \<open>delivery.rs\<close>), \<open>Merkle\<close> and
    \<open>CtVerify\<close> (\<open>verify.rs\<close>), \<open>CtLog\<close> (\<open>log_list.rs\<close>).
  \<^item> \<open>pkix-lint\<close> checks the form of certificates: \<open>Lint\<close> (\<open>lib.rs\<close>, the engine), \<open>Deviation\<close>
    (\<open>deviation.rs\<close>, waivers), \<open>LintRules\<close> (\<open>rfc5280.rs\<close>, \<open>rfc6125.rs\<close>, \<open>rfc8398.rs\<close>, \<open>rfc8551.rs\<close> and
    \<open>pkix-lint-cabf/src/cabf_tls_br.rs\<close>). Its OSCAL documents are JSON values: \<open>OscalEmit\<close> writes them
    (\<open>report.rs\<close>, \<open>oscal/emit.rs\<close>, \<open>oscal/catalog.rs\<close>), \<open>OscalParse\<close> reads risks and catalogs
    (\<open>oscal/parse.rs\<close>), \<open>OscalProfile\<close> resolves profiles (\<open>oscal/profile.rs\<close>), \<open>OscalWf\<close> reads the written
    assessment results back, and \<open>OscalTime\<close> compares the timestamps of the emitter with the parser of \<open>pkix-ct\<close>.
  \<^item> \<open>pkix-profiles\<close> and \<open>pkix-profiles-cabf\<close> fix policies and lint sets for their purposes: \<open>Profiles\<close>.
  \<^item> \<open>pkix-revocation-http\<close> finds CRLs and OCSP responders by the URLs of a certificate and caches what they
    serve: \<open>RevHttp\<close>. Its clients and that of \<open>pkix-aia-http\<close> are \<open>HttpClients\<close>, over any HTTP library;
    its asynchronous checkers, futures suspended at each fetch and an executor that polls them, are \<open>AsyncHttp\<close>.
  \<^item> \<open>pkix-chain-simple\<close> is a strict verifier for short chains, \<open>Simple\<close>; \<open>pkix-truststore\<close> loads anchors,
    \<open>TrustStore\<close>.
  \<^item> \<open>pkix-zlint-bridge\<close> runs an external linter in batches and caches its verdicts, \<open>ZlintBridge\<close>, the file
    system, the clock and the spawned process being arguments; \<open>ZlintContract\<close> states what its callers rely on
    and holds \<open>pkix-policy-zlint\<close>, the check of a chain by that linter.
  \<^item> \<open>pkix-difftest\<close> compares validators: \<open>DiffHarness\<close> (\<open>lib.rs\<close>, \<open>classify.rs\<close>, \<open>report.rs\<close>, \<open>main.rs\<close>: the
    verdict of every oracle on every chain, the class of each divergence, the reports), \<open>DiffOracles\<close> (the
    oracles, in process or spawned), \<open>DiffCorpus\<close> (the corpora and the chains they are rebuilt into).
  \<^item> \<open>pkix-composite\<close> and \<open>pkix-ac\<close> refuse everything until they are written: \<open>Placeholders\<close>.

  \<open>Prelude\<close> holds the shared vocabulary, \<open>Fixtures\<close> the concrete certificates of the examples.

  \<^bold>\<open>Conventions.\<close> A \<open>Result\<close> is a sum with the error left, a panic is an error
  value of its own where the code can reach one; \<open>pkix-chain\<close> and the path builder have checked
  indices, whose failure is \<open>None\<close>. Elsewhere a list is indexed under the guard of the code or at
  positions known to be in range. A \<open>u64\<close> or \<open>u8\<close> is a word of that width; a
  \<open>usize\<close> that is a length or an index is a natural number, with its 64-bit wrap written out where
  the code can reach it. A \<open>&str\<close> is the list of its UTF-8 bytes as characters. A method that
  changes its receiver returns the changed receiver. A trait object is a record (or, for \<open>Lint\<close>,
  whose \<open>set_parameter\<close> yields another lint, a codatatype) of its methods. A generic parameter or a
  foreign function is an argument.

  \<^bold>\<open>Parameters.\<close> DER and JSON decoders and encoders, hash functions, IDNA, Unicode lower-casing, the
  rendering of names, the signature primitives, fetchers and clocks are arguments, most of them fields of the
  codec records (each crate's codec extends that of the crate below). Nothing is assumed of them except
  where a theorem says so.

  \<^bold>\<open>Interfaces.\<close> Locales state what a client relies on and are interpreted on the definitions of the model:
  \<open>match_relation\<close> (name comparison at every level is an equivalence), \<open>subtree_order\<close> (what the
  intersection of subtrees needs of matching), \<open>revocation_source\<close> (what the verifier relies on in a
  checker: a good verdict means that the certificate is not listed), interpreted by the CRL and the OCSP
  checker, \<open>log_map\<close> (the ordered map of logs), and \<open>crl_store\<close> (what the checker with a cache relies on in
  it), interpreted by the in-memory cache and by its trait object.

  \<^bold>\<open>What the lemmas show.\<close> \<open>ChainWalk\<close>: an accepted path is linked by names,
  signatures, validity periods and CA rights from the anchor to a leaf that meets the policy; acceptance is
  characterised in both directions; excluded subtrees and explicit policies are enforced.
  \<open>NameConstraints\<close> and \<open>PolicyTree\<close>: the state they compute against their set-level
  meaning. \<open>PathBuilder\<close>: the iterator refines a recursive depth-first search, whose first chain
  need not be the shortest; it finds a chain if and only if there is one when its budget suffices; it ends and
  never panics. \<open>Identity\<close>: exactly the presented names match. \<open>Crl\<close> and
  \<open>Ocsp\<close>: a verdict rests on signed and current evidence. \<open>Chain\<close>: soundness of the
  composition, bounds of the fetch loop, what each purpose adds, and that every checked index is in range.
  \<open>Merkle\<close> and \<open>CtVerify\<close>: proofs are sound up to an exhibited hash collision and
  complete, signed inputs are unambiguous. \<open>Lint\<close>, \<open>Deviation\<close> and
  \<open>LintRules\<close>: the engine hides no failure, overrides are atomic, waivers lose and duplicate
  nothing, and the lints that compute (modulus size, mailbox agreement) decide what they are meant to.
  \<open>Profiles\<close>: what an acceptance under the web PKI and the S/MIME profiles guarantees.
  \<open>RevHttp\<close>: a verdict rests on authentic bytes of an advertised URL, cached or fetched, the first
  usable URL decides, and under guarded insertion alone the number of the CRL in the in-memory cache is the
  greatest offered in any interleaving (plain insertion, removal and CRLs without a number can roll it back).
  \<open>Simple\<close> and \<open>TrustStore\<close>: what the strict verifier and the loaders accept.
  \<open>OscalParse\<close>, \<open>OscalProfile\<close> and \<open>OscalTime\<close>: deviation stores,
  catalogs and timestamps are read back as they were written, and a resolved profile selects only controls of
  the catalogs it reaches. \<open>ZlintBridge\<close> and \<open>ZlintContract\<close>: a batch gives every
  certificate the verdict it would get alone, whatever batches are cut short, and the check of a chain fails
  exactly on a fatal finding. \<open>DiffHarness\<close>: the class of a divergence is decided by the verdicts
  alone. \<open>DiffOracles\<close>: the pkix-path oracle passes exactly the chains that validate and no CRL
  revokes. \<open>DiffCorpus\<close>: a rebuilt chain passes that oracle. \<open>HttpClients\<close>: a fetched
  body is whole and within its cap, and the two clients for revocation data accept the same of the same
  response. \<open>AsyncHttp\<close>: under every schedule an asynchronous check gives the verdict and makes the
  requests of the synchronous one. \<open>SerdeDer\<close>: which formats give DER values back.
  \<open>OscalWf\<close>: what assessment results say of a report, each finding with an observation of its own
  evidence. \<open>Placeholders\<close>: no chain validates under the composite verifier.

  \<^bold>\<open>Bounds and fuel.\<close> The search of \<open>PathBuilder\<close> is a loop with a budget, as
  in the code (\<open>DEFAULT_DFS_BUDGET\<close>), and the model's fuel is shown to suffice for every input; a
  budget of \<open>1 + n + ... + n ^ d\<close> frames covers the search of a pool of \<open>n\<close>
  certificates to depth \<open>d\<close>. The fetch loop of \<open>Chain\<close> recurses on the remaining
  depth, \<open>AIA_MAX_DEPTH\<close>. The resolver of OSCAL profiles ends because the references being resolved
  are distinct keys of the sources. Every other loop is a terminating recursion: a batch of the linter bridge
  because each run answers at least one certificate, its wait because every poll spends part of the time left,
  the PEM scanners because every block is non-empty. Widths: 64-bit times, indices and tree sizes, 16- and
  24-bit length prefixes, 8-bit octets.

  \<^bold>\<open>Not modelled.\<close> The HTTP libraries, the crates that are still empty (trust stores of the system and of
  PKCS #11, DANE, the bridge to \<open>pkilint\<close>), the derives of serde, examples and tests.
\<close>

end
